(* ===== verification/Sup_Prelude.thy ===== *)
theory Sup_Prelude
  imports Main "HOL-Library.Word" "HOL-Library.Char_ord" "HOL-Library.List_Lexorder"
    "HOL-Library.Product_Lexorder" "HOL-Library.Multiset" "HOL-Library.Finite_Map"
begin

text \<open>
  Shared vocabulary of the development: machine types, the parts of Rust's standard library
  that the supervisor relies on (string helpers, \<open>Duration\<close> arithmetic, \<open>HashMap\<close> as a list
  of entries in iteration order), and the generic lemmas the components share.

  Strings are byte strings (\<open>string\<close> is a list of 8-bit characters); ASCII helpers such as
  trimming act on ASCII white space. \<open>Duration\<close> is a number of nanoseconds. A \<open>HashMap\<close> whose
  iteration order can be observed is an association list with distinct keys: the order of the
  list is the (unspecified) iteration order, and the theorems hold for every such order.
\<close>

section \<open>Collections of rewrite rules\<close>

named_theorems alist_simps \<open>lookup, insertion and removal in association lists\<close>
named_theorems duration_defs \<open>definitions of the duration operations and constants\<close>

section \<open>Machine types\<close>

type_synonym u8 = "8 word"
type_synonym u64 = "64 word"
type_synonym duration = nat
type_synonym instant = nat

section \<open>Durations\<close>

definition duration_max :: duration where
  [duration_defs]: "duration_max = (2 ^ 64 - 1) * 1000000000 + 999999999"

definition from_secs :: "nat \<Rightarrow> duration" where
  [duration_defs]: "from_secs n = n * 1000000000"

definition as_secs :: "duration \<Rightarrow> nat" where
  [duration_defs]: "as_secs d = d div 1000000000"

definition checked_add :: "duration \<Rightarrow> duration \<Rightarrow> duration option" where
  [duration_defs]: "checked_add a b = (if a + b \<le> duration_max then Some (a + b) else None)"

definition saturating_add :: "duration \<Rightarrow> duration \<Rightarrow> duration" where
  [duration_defs]: "saturating_add a b = (if a + b \<le> duration_max then a + b else duration_max)"

definition saturating_mul :: "duration \<Rightarrow> nat \<Rightarrow> duration" where
  [duration_defs]: "saturating_mul a k = (if a * k \<le> duration_max then a * k else duration_max)"

text \<open>\<open>a.checked_add(b).unwrap_or(m)\<close>, the pattern the timeout computations use.\<close>

definition add_or :: "duration \<Rightarrow> duration \<Rightarrow> duration \<Rightarrow> duration" where
  [duration_defs]: "add_or m a b = (case checked_add a b of Some d \<Rightarrow> d | None \<Rightarrow> m)"

lemma saturating_add_mono:
  "a \<le> a' \<Longrightarrow> b \<le> b' \<Longrightarrow> saturating_add a b \<le> saturating_add a' b'"
  by (simp add: saturating_add_def)

lemma saturating_add_le_max: "saturating_add a b \<le> duration_max"
  by (simp add: saturating_add_def)

lemma saturating_add_ge: "a \<le> duration_max \<Longrightarrow> a \<le> saturating_add a b"
  by (simp add: saturating_add_def)

lemma foldl_saturating_add_ge:
  "a \<le> duration_max \<Longrightarrow> a \<le> foldl saturating_add a ds"
proof (induction ds arbitrary: a)
  case (Cons d ds)
  have "a \<le> saturating_add a d" using Cons.prems by (rule saturating_add_ge)
  also have "\<dots> \<le> foldl saturating_add (saturating_add a d) ds"
    by (rule Cons.IH) (rule saturating_add_le_max)
  finally show ?case by simp
qed simp

section \<open>Strings\<close>

definition is_ascii_space :: "char \<Rightarrow> bool" where
  "is_ascii_space c \<longleftrightarrow> (let n = (of_char c :: nat) in n = 32 \<or> (9 \<le> n \<and> n \<le> 13))"

definition trim :: "string \<Rightarrow> string" where
  "trim s = rev (dropWhile is_ascii_space (rev (dropWhile is_ascii_space s)))"

fun split_once :: "char \<Rightarrow> string \<Rightarrow> (string \<times> string) option" where
  "split_once c [] = None"
| "split_once c (x # xs) =
     (if x = c then Some ([], xs)
      else (case split_once c xs of None \<Rightarrow> None | Some (a, b) \<Rightarrow> Some (x # a, b)))"

fun strip_prefix :: "string \<Rightarrow> string \<Rightarrow> string option" where
  "strip_prefix [] s = Some s"
| "strip_prefix (p # ps) [] = None"
| "strip_prefix (p # ps) (x # xs) = (if p = x then strip_prefix ps xs else None)"

definition to_upper_char :: "char \<Rightarrow> char" where
  "to_upper_char c =
     (let n = (of_char c :: nat) in if 97 \<le> n \<and> n \<le> 122 then char_of (n - 32) else c)"

definition to_ascii_uppercase :: "string \<Rightarrow> string" where
  "to_ascii_uppercase s = map to_upper_char s"

fun digits_of :: "nat \<Rightarrow> string" where
  "digits_of n =
     (if n < 10 then [char_of (48 + n)] else digits_of (n div 10) @ [char_of (48 + n mod 10)])"

declare digits_of.simps [simp del]

definition int_to_string :: "int \<Rightarrow> string" where
  "int_to_string i = (if i < 0 then CHR ''-'' # digits_of (nat (- i)) else digits_of (nat i))"

lemma split_once_None_iff: "split_once c s = None \<longleftrightarrow> c \<notin> set s"
  by (induction c s rule: split_once.induct) (auto split: option.splits)

lemma split_once_SomeD: "split_once c s = Some (a, b) \<Longrightarrow> s = a @ c # b \<and> c \<notin> set a"
  by (induction c s arbitrary: a b rule: split_once.induct) (auto split: option.splits if_splits)

lemma split_once_append: "c \<notin> set a \<Longrightarrow> split_once c (a @ c # b) = Some (a, b)"
  by (induction a) auto

lemma strip_prefix_iff: "strip_prefix p s = Some r \<longleftrightarrow> s = p @ r"
  by (induction p s rule: strip_prefix.induct) auto

lemma trim_Nil [simp]: "trim [] = []"
  by (simp add: trim_def)

lemma trim_fix:
  assumes "s \<noteq> [] \<Longrightarrow> \<not> is_ascii_space (hd s)" and "s \<noteq> [] \<Longrightarrow> \<not> is_ascii_space (last s)"
  shows "trim s = s"
proof (cases "s = []")
  case False
  then have "dropWhile is_ascii_space s = s"
    using assms(1) by (cases s) auto
  moreover have "dropWhile is_ascii_space (rev s) = rev s"
    using assms(2) False by (cases s rule: rev_cases) auto
  ultimately show ?thesis by (simp add: trim_def)
qed simp

section \<open>Hash maps as entry lists\<close>

type_synonym 'v hmap = "(string \<times> 'v) list"

definition keys :: "('k \<times> 'v) list \<Rightarrow> 'k list" where
  "keys m = map fst m"

definition vals :: "('k \<times> 'v) list \<Rightarrow> 'v list" where
  "vals m = map snd m"

definition hm_wf :: "('k \<times> 'v) list \<Rightarrow> bool" where
  "hm_wf m \<longleftrightarrow> distinct (keys m)"

definition hm_get :: "('k \<times> 'v) list \<Rightarrow> 'k \<Rightarrow> 'v option" where
  "hm_get m k = map_of m k"

definition contains_key :: "('k \<times> 'v) list \<Rightarrow> 'k \<Rightarrow> bool" where
  "contains_key m k \<longleftrightarrow> k \<in> set (keys m)"

fun hm_insert :: "'k \<Rightarrow> 'v \<Rightarrow> ('k \<times> 'v) list \<Rightarrow> ('k \<times> 'v) list" where
  "hm_insert k v [] = [(k, v)]"
| "hm_insert k v ((k', v') # m) =
     (if k = k' then (k, v) # m else (k', v') # hm_insert k v m)"

definition hm_remove :: "'k \<Rightarrow> ('k \<times> 'v) list \<Rightarrow> ('k \<times> 'v) list" where
  "hm_remove k m = filter (\<lambda>e. fst e \<noteq> k) m"

lemma hm_get_Nil [simp, alist_simps]: "hm_get [] k = None"
  by (simp add: hm_get_def)

lemma hm_get_Cons [alist_simps]: "hm_get ((k, v) # m) k' = (if k' = k then Some v else hm_get m k')"
  by (simp add: hm_get_def)

lemma keys_simps [simp]: "keys [] = []" "keys (e # m) = fst e # keys m" "keys (m @ n) = keys m @ keys n"
  by (simp_all add: keys_def)

lemma hm_get_insert [simp, alist_simps]:
  "hm_get (hm_insert k v m) k' = (if k' = k then Some v else hm_get m k')"
  by (induction k v m rule: hm_insert.induct) (auto simp: hm_get_def)

lemma hm_get_remove [simp, alist_simps]:
  "hm_get (hm_remove k m) k' = (if k' = k then None else hm_get m k')"
  by (induction m) (auto simp: hm_get_def hm_remove_def)

lemma set_keys_insert [simp]: "set (keys (hm_insert k v m)) = insert k (set (keys m))"
  by (induction k v m rule: hm_insert.induct) auto

lemma set_keys_remove [simp]: "set (keys (hm_remove k m)) = set (keys m) - {k}"
  by (auto simp: keys_def hm_remove_def)

lemma hm_insert_absent: "k \<notin> set (keys m) \<Longrightarrow> hm_insert k v m = m @ [(k, v)]"
  by (induction k v m rule: hm_insert.induct) auto

lemma hm_wf_insert [simp, intro]: "hm_wf m \<Longrightarrow> hm_wf (hm_insert k v m)"
  by (induction k v m rule: hm_insert.induct) (auto simp: hm_wf_def)

lemma hm_wf_remove [simp, intro]: "hm_wf m \<Longrightarrow> hm_wf (hm_remove k m)"
  by (induction m) (auto simp: hm_wf_def hm_remove_def keys_def)

lemma hm_get_None_iff: "hm_get m k = None \<longleftrightarrow> k \<notin> set (keys m)"
  by (simp add: hm_get_def keys_def map_of_eq_None_iff)

lemma hm_get_Some_key: "hm_get m k = Some v \<Longrightarrow> k \<in> set (keys m)"
  by (metis hm_get_None_iff option.distinct(1))

lemma hm_get_Some_iff: "hm_wf m \<Longrightarrow> hm_get m k = Some v \<longleftrightarrow> (k, v) \<in> set m"
  by (simp add: hm_get_def hm_wf_def keys_def)

lemma key_hm_getE:
  assumes "k \<in> set (keys m)" obtains v where "hm_get m k = Some v"
  using assms hm_get_None_iff by (metis not_None_eq)

lemma hm_get_perm:
  assumes "hm_wf m" and "mset m' = mset m"
  shows "hm_get m' k = hm_get m k"
proof -
  have s: "set m' = set m" using assms(2) by (metis set_mset_mset)
  have "distinct (map fst m')"
    using assms by (metis hm_wf_def keys_def mset_eq_imp_distinct_iff mset_map)
  moreover have "distinct (map fst m)" using assms(1) by (simp add: hm_wf_def keys_def)
  ultimately have "map_of m' = map_of m" using s by (metis map_of_inject_set)
  then show ?thesis by (simp add: hm_get_def)
qed

lemma trim_ends:
  assumes "trim s \<noteq> []" shows "\<not> is_ascii_space (hd (trim s))" "\<not> is_ascii_space (last (trim s))"
proof -
  define u where "u = dropWhile is_ascii_space s"
  have t: "trim s = rev (dropWhile is_ascii_space (rev u))" by (simp add: trim_def u_def)
  have "u \<noteq> []" using assms by (auto simp: t)
  then have hd_u: "\<not> is_ascii_space (hd u)" unfolding u_def by (rule hd_dropWhile)
  have d: "dropWhile is_ascii_space (rev u) \<noteq> []" using assms by (simp add: t)
  show "\<not> is_ascii_space (last (trim s))" using hd_dropWhile [OF d] by (simp add: t last_rev)
  obtain v where "rev u = v @ dropWhile is_ascii_space (rev u)" by (metis takeWhile_dropWhile_id)
  then have "u = trim s @ rev v" by (metis t rev_append rev_rev_ident)
  then have "hd (trim s) = hd u" using assms by (metis hd_append)
  then show "\<not> is_ascii_space (hd (trim s))" using hd_u by simp
qed

lemma trim_trim [simp]: "trim (trim s) = trim s"
  using trim_ends [of s] by (intro trim_fix) auto

lemma hm_wf_perm: "mset m' = mset m \<Longrightarrow> hm_wf m \<Longrightarrow> hm_wf m'"
  by (metis hm_wf_def keys_def mset_eq_imp_distinct_iff mset_map)

section \<open>Lists\<close>

lemma sort_key_perm_eq:
  fixes f :: "'a \<Rightarrow> 'b :: linorder"
  assumes "mset xs = mset ys" and "inj_on f (set xs)"
  shows "sort_key f xs = sort_key f ys"
proof (rule properties_for_sort_key)
  show "mset (sort_key f ys) = mset xs" using assms(1) by simp
  show "sorted (map f (sort_key f ys))" by simp
  fix k
  assume "k \<in> set (sort_key f ys)"
  then have k: "k \<in> set xs" using assms(1) by (metis set_mset_mset set_sort)
  have "filter (\<lambda>x. f k = f x) zs = filter (\<lambda>x. x = k) zs" if "set zs = set xs" for zs
    using k that assms(2) by (auto intro!: filter_cong dest: inj_onD)
  moreover have "filter (\<lambda>x. x = k) zs = replicate (count (mset zs) k) k" for zs
    by (induction zs) auto
  ultimately show "filter (\<lambda>x. f k = f x) (sort_key f ys) = filter (\<lambda>x. f k = f x) xs"
    using assms(1) by (metis mset_sort set_mset_mset)
qed

lemma sort_key_unique_set:
  fixes f :: "'a \<Rightarrow> 'b :: linorder"
  assumes "distinct xs" and "distinct ys" and "set xs = set ys" and "inj f"
  shows "sort_key f xs = sort_key f ys"
  using assms by (auto intro!: sort_key_perm_eq simp: set_eq_iff_mset_eq_distinct intro: inj_on_subset)

lemma mset_concat_update:
  "i < length xs \<Longrightarrow>
     mset (concat (map f (xs[i := y]))) + mset (f (xs ! i)) = mset (concat (map f xs)) + mset (f y)"
proof (induction xs arbitrary: i)
  case (Cons x xs)
  then show ?case by (cases i) (simp_all add: ac_simps)
qed simp

section \<open>Labelled runs\<close>

text \<open>
  A component whose next state is a partial function of a label and its state, and the states it
  reaches along a list of labels. The locale carries an invariant along such a run; \<open>allowed\<close>
  restricts the labels of the run.
\<close>

primrec run_steps :: "('l \<Rightarrow> 's \<Rightarrow> 's option) \<Rightarrow> 'l list \<Rightarrow> 's \<Rightarrow> 's option" where
  "run_steps step [] s = Some s"
| "run_steps step (a # as) s = (case step a s of Some s' \<Rightarrow> run_steps step as s' | None \<Rightarrow> None)"

lemma run_steps_append:
  "run_steps step (as @ bs) s = Option.bind (run_steps step as s) (run_steps step bs)"
  by (induction as arbitrary: s) (auto split: option.split)

locale step_invariant =
  fixes step :: "'l \<Rightarrow> 's \<Rightarrow> 's option" and allowed :: "'l \<Rightarrow> bool" and inv :: "'s \<Rightarrow> bool"
  assumes preserved: "allowed a \<Longrightarrow> inv s \<Longrightarrow> step a s = Some s' \<Longrightarrow> inv s'"
begin

lemma run_preserves:
  "list_all allowed as \<Longrightarrow> inv s \<Longrightarrow> run_steps step as s = Some s' \<Longrightarrow> inv s'"
  by (induction as arbitrary: s) (auto dest: preserved split: option.splits)

end

section \<open>Fallible computations\<close>

text \<open>
  The operator \<open>?\<close> of Rust, a fallible map and a fallible fold over a sequence, an optional value,
  and a list of checks of which the first failure is reported.
\<close>

definition and_then :: "'e + 'a \<Rightarrow> ('a \<Rightarrow> 'e + 'b) \<Rightarrow> 'e + 'b" where
  "and_then m f = (case m of Inl e \<Rightarrow> Inl e | Inr x \<Rightarrow> f x)"

definition ensure :: "bool \<Rightarrow> 'e \<Rightarrow> 'e + unit" where
  "ensure b e = (if b then Inr () else Inl e)"

fun try_map :: "('a \<Rightarrow> 'e + 'b) \<Rightarrow> 'a list \<Rightarrow> 'e + 'b list" where
  "try_map f [] = Inr []"
| "try_map f (x # xs) = and_then (f x) (\<lambda>y. and_then (try_map f xs) (\<lambda>ys. Inr (y # ys)))"

fun try_fold :: "('b \<Rightarrow> 'a \<Rightarrow> 'e + 'b) \<Rightarrow> 'a list \<Rightarrow> 'b \<Rightarrow> 'e + 'b" where
  "try_fold f [] b = Inr b"
| "try_fold f (x # xs) b = and_then (f b x) (try_fold f xs)"

definition try_option :: "('a \<Rightarrow> 'e + 'b) \<Rightarrow> 'a option \<Rightarrow> 'e + 'b option" where
  "try_option f x = (case x of None \<Rightarrow> Inr None | Some y \<Rightarrow> and_then (f y) (\<lambda>z. Inr (Some z)))"

fun run_checks :: "('e + unit) list \<Rightarrow> 'e + unit" where
  "run_checks [] = Inr ()"
| "run_checks (c # cs) = and_then c (\<lambda>_. run_checks cs)"

named_theorems result_iff \<open>when a fallible computation succeeds\<close>

lemma and_then_simps [simp]: "and_then (Inl e) f = Inl e" "and_then (Inr x) f = f x"
  by (simp_all add: and_then_def)

lemma and_then_Inr [result_iff]: "and_then m f = Inr y \<longleftrightarrow> (\<exists>x. m = Inr x \<and> f x = Inr y)"
  by (cases m) simp_all

lemma ensure_Inr [result_iff]: "ensure b e = Inr u \<longleftrightarrow> b"
  by (simp add: ensure_def)

lemma try_option_Inr [result_iff]:
  "try_option f x = Inr y \<longleftrightarrow> (case x of None \<Rightarrow> y = None | Some a \<Rightarrow> \<exists>b. f a = Inr b \<and> y = Some b)"
  by (auto simp: try_option_def and_then_Inr split: option.split)

lemma run_checks_Inr [result_iff]: "run_checks cs = Inr u \<longleftrightarrow> list_all (\<lambda>c. c = Inr ()) cs"
  by (induction cs) (auto simp: and_then_Inr)

lemma map_sum_Inr [result_iff]: "map_sum f g m = Inr y \<longleftrightarrow> (\<exists>x. m = Inr x \<and> y = g x)"
  by (cases m) auto

lemma try_map_Inr: "try_map f xs = Inr ys \<longleftrightarrow> list_all2 (\<lambda>x y. f x = Inr y) xs ys"
proof (induction xs arbitrary: ys)
  case (Cons x xs)
  then show ?case by (cases ys) (auto simp: and_then_Inr)
qed auto

lemma try_fold_invariant:
  assumes "try_fold f xs b = Inr b'" and "P b"
    and step: "\<And>b x b'. x \<in> set xs \<Longrightarrow> f b x = Inr b' \<Longrightarrow> P b \<Longrightarrow> P b'"
  shows "P b'"
proof -
  have "try_fold f ys b = Inr b' \<Longrightarrow> P b \<Longrightarrow> set ys \<subseteq> set xs \<Longrightarrow> P b'" for ys b
  proof (induction ys arbitrary: b)
    case (Cons y ys)
    then obtain c where c: "f b y = Inr c" "try_fold f ys c = Inr b'" by (auto simp: and_then_Inr)
    have "P c" by (rule step [OF _ c(1) Cons.prems(2)]) (use Cons.prems(3) in simp)
    then show ?case using Cons.IH [OF c(2)] Cons.prems(3) by simp
  qed simp
  from this [OF assms(1,2)] show ?thesis by simp
qed

lemma try_fold_append: "try_fold f (xs @ ys) b = and_then (try_fold f xs b) (try_fold f ys)"
proof (induction xs arbitrary: b)
  case (Cons x xs)
  then show ?case by (cases "f b x") simp_all
qed simp

end
