(* ===== verification/Program_Model.thy ===== *)
theory Program_Model
  imports Sup_Prelude
begin

text \<open>
  The data model of a supervised program: the error type (\<open>src/src/error.rs\<close>), the lifecycle
  and health enumerations and the status snapshot (\<open>src/src/program/state.rs\<close>), the
  configuration records (\<open>src/src/program/config.rs\<close>) with their derived settings, and the
  constants of \<open>src/src/consts.rs\<close> that the actors use.

  An \<open>io::Error\<close> inside an error value is represented by its message. A process metrics
  sample is opaque: it is only stored and cleared.
\<close>

section \<open>Lifecycle and health states\<close>

datatype HealthStatus = HealthNone | HealthStarting | Healthy | Unhealthy

fun is_healthy_status :: "HealthStatus \<Rightarrow> bool" where
  "is_healthy_status Healthy = True"
| "is_healthy_status _ = False"

fun is_unhealthy_status :: "HealthStatus \<Rightarrow> bool" where
  "is_unhealthy_status Unhealthy = True"
| "is_unhealthy_status _ = False"

fun is_starting_status :: "HealthStatus \<Rightarrow> bool" where
  "is_starting_status HealthStarting = True"
| "is_starting_status _ = False"

datatype ProgramState = Stopped | Starting | Running | Backoff | Stopping | Exited | Fatal

definition is_active :: "ProgramState \<Rightarrow> bool" where
  "is_active s \<longleftrightarrow> s \<in> {Starting, Running, Stopping}"

definition is_running :: "ProgramState \<Rightarrow> bool" where
  "is_running s \<longleftrightarrow> s = Running"

definition is_stopped :: "ProgramState \<Rightarrow> bool" where
  "is_stopped s \<longleftrightarrow> s = Stopped"

definition is_stopped_or_fatal :: "ProgramState \<Rightarrow> bool" where
  "is_stopped_or_fatal s \<longleftrightarrow> s \<in> {Stopped, Exited, Fatal}"

definition is_terminal :: "ProgramState \<Rightarrow> bool" where
  "is_terminal s \<longleftrightarrow> s \<in> {Exited, Fatal}"

definition can_start :: "ProgramState \<Rightarrow> bool" where
  "can_start s \<longleftrightarrow> s \<in> {Stopped, Exited, Fatal}"

definition can_stop :: "ProgramState \<Rightarrow> bool" where
  "can_stop s \<longleftrightarrow> s \<in> {Starting, Running, Backoff}"

lemmas state_class_defs = is_active_def is_running_def is_stopped_def is_stopped_or_fatal_def
  is_terminal_def can_start_def can_stop_def

fun supervisor_name :: "ProgramState \<Rightarrow> string" where
  "supervisor_name Stopped = ''STOPPED''"
| "supervisor_name Starting = ''STARTING''"
| "supervisor_name Running = ''RUNNING''"
| "supervisor_name Backoff = ''BACKOFF''"
| "supervisor_name Stopping = ''STOPPING''"
| "supervisor_name Exited = ''EXITED''"
| "supervisor_name Fatal = ''FATAL''"

fun debug_name :: "ProgramState \<Rightarrow> string" where
  "debug_name Stopped = ''Stopped''"
| "debug_name Starting = ''Starting''"
| "debug_name Running = ''Running''"
| "debug_name Backoff = ''Backoff''"
| "debug_name Stopping = ''Stopping''"
| "debug_name Exited = ''Exited''"
| "debug_name Fatal = ''Fatal''"

lemma supervisor_name_inj: "supervisor_name s = supervisor_name t \<Longrightarrow> s = t"
  by (cases s; cases t) simp_all

section \<open>Errors\<close>

datatype ProgramError =
    StartFailed string string
  | StopFailed string string
  | AlreadyRunning string nat
  | NotRunning string
  | InvalidState string ProgramState
  | ChannelClosed string
  | Timeout string nat
  | NotFound string
  | PlatformError string
  | ConfigError string
  | ShuttingDown string
  | PreStartHookFailed string string
  | InvalidCronExpression string string string
  | StdinWriteTimeout string nat
  | StdinWriteFailed string string
  | ReadLogFailed string string

type_synonym 'a result = "ProgramError + 'a"

fun error_program_name :: "ProgramError \<Rightarrow> string option" where
  "error_program_name (StartFailed n _) = Some n"
| "error_program_name (StopFailed n _) = Some n"
| "error_program_name (AlreadyRunning n _) = Some n"
| "error_program_name (NotRunning n) = Some n"
| "error_program_name (InvalidState n _) = Some n"
| "error_program_name (ChannelClosed n) = Some n"
| "error_program_name (Timeout n _) = Some n"
| "error_program_name (NotFound n) = Some n"
| "error_program_name (ShuttingDown n) = Some n"
| "error_program_name (PreStartHookFailed n _) = Some n"
| "error_program_name (InvalidCronExpression n _ _) = Some n"
| "error_program_name (StdinWriteTimeout n _) = Some n"
| "error_program_name (StdinWriteFailed n _) = Some n"
| "error_program_name (ReadLogFailed n _) = Some n"
| "error_program_name (PlatformError _) = None"
| "error_program_name (ConfigError _) = None"

text \<open>The \<open>Display\<close> text of an error, used in the descriptions a failed restart leaves behind.\<close>

definition quoted :: "string \<Rightarrow> string" where
  "quoted s = [CHR 0x27] @ s @ [CHR 0x27]"

fun error_text :: "ProgramError \<Rightarrow> string" where
  "error_text (StartFailed n e) = ''Program '' @ quoted n @ '' failed to start: '' @ e"
| "error_text (StopFailed n e) = ''Program '' @ quoted n @ '' failed to stop gracefully: '' @ e"
| "error_text (AlreadyRunning n p) =
     ''Program '' @ quoted n @ '' is already running with PID '' @ digits_of p"
| "error_text (NotRunning n) = ''Program '' @ quoted n @ '' is not running''"
| "error_text (InvalidState n s) =
     ''Program '' @ quoted n @ '' is in an invalid state for this operation: '' @ debug_name s"
| "error_text (ChannelClosed n) =
     ''Command channel closed unexpectedly for program '' @ quoted n"
| "error_text (Timeout n t) =
     ''Operation on program '' @ quoted n @ '' timed out after '' @ digits_of t @ ''s''"
| "error_text (NotFound n) = ''Program '' @ quoted n @ '' is not registered''"
| "error_text (PlatformError e) = ''Platform-specific error: '' @ e"
| "error_text (ConfigError e) = ''Configuration error: '' @ e"
| "error_text (ShuttingDown n) = ''Entity '' @ quoted n @ '' is currently shutting down''"
| "error_text (PreStartHookFailed n r) = ''Program '' @ quoted n @ '' pre_start hook failed: '' @ r"
| "error_text (InvalidCronExpression n x r) =
     ''Invalid cron expression for program '' @ quoted n @ '': '' @ quoted x @ '' ('' @ r @ '')''"
| "error_text (StdinWriteTimeout n t) =
     ''Writing to stdin of program '' @ quoted n @ '' timed out after '' @ digits_of t @ ''s''"
| "error_text (StdinWriteFailed n e) =
     ''Failed to write to stdin of program '' @ quoted n @ '': '' @ e"
| "error_text (ReadLogFailed n e) = ''Failed to read log for '' @ quoted n @ '': '' @ e"

section \<open>Status snapshot\<close>

type_synonym process_metrics = nat

record ProgramStatus =
  s_name :: string
  s_group :: string
  s_state :: ProgramState
  s_pid :: "nat option"
  s_uptime_secs :: "nat option"
  s_exit_code :: "int option"
  s_is_healthy :: bool
  s_health :: HealthStatus
  s_metrics :: "process_metrics option"
  s_description :: string
  s_cron :: "string option"
  s_next_cron_run :: "string option"

definition new_stopped_with_group :: "string \<Rightarrow> string \<Rightarrow> ProgramStatus" where
  "new_stopped_with_group n g =
     \<lparr>s_name = n, s_group = (if g = [] then n else g), s_state = Stopped, s_pid = None,
      s_uptime_secs = None, s_exit_code = None, s_is_healthy = False, s_health = HealthNone,
      s_metrics = None, s_description = ''Stopped'', s_cron = None, s_next_cron_run = None\<rparr>"

definition new_stopped :: "string \<Rightarrow> ProgramStatus" where
  "new_stopped n =
     \<lparr>s_name = n, s_group = n, s_state = Stopped, s_pid = None,
      s_uptime_secs = None, s_exit_code = None, s_is_healthy = False, s_health = HealthNone,
      s_metrics = None, s_description = ''Stopped'', s_cron = None, s_next_cron_run = None\<rparr>"

definition status_full_name :: "ProgramStatus \<Rightarrow> string" where
  "status_full_name st =
     (if s_group st \<noteq> [] \<and> s_group st \<noteq> s_name st then s_group st @ '':'' @ s_name st
      else s_name st)"

section \<open>Configuration\<close>

datatype AutoRestartPolicy = Always | Unexpected | Never

fun should_restart :: "AutoRestartPolicy \<Rightarrow> int \<Rightarrow> int list \<Rightarrow> bool" where
  "should_restart Always code expected = True"
| "should_restart Never code expected = False"
| "should_restart Unexpected code expected = (code \<notin> set expected)"

datatype StopSignal = Term | Int | Quit | Kill | Hup | CtrlBreak | CtrlC

datatype LogMode = LogOn | LogOff | InMemoryOnly

record ProgramLogsConfig =
  l_enabled :: LogMode
  l_stdout :: "string option"
  l_stderr :: "string option"
  l_buffer_size :: "nat option"
  l_max_bytes :: "nat option"
  l_backups :: "nat option"
  l_stdout_max_bytes :: "nat option"
  l_stderr_max_bytes :: "nat option"
  l_stdout_backups :: "nat option"
  l_stderr_backups :: "nat option"
  l_stdout_timestamp_suffix :: bool
  l_stderr_timestamp_suffix :: bool
  l_stdout_syslog :: bool
  l_stderr_syslog :: bool
  l_syslog_facility :: "string option"
  l_syslog_tag :: "string option"
  l_syslog_stdout_priority :: "string option"
  l_syslog_stderr_priority :: "string option"
  l_redirect_stderr :: bool
  l_stdout_events_enabled :: bool
  l_stderr_events_enabled :: bool

definition DEFAULT_LOG_MAX_BYTES :: nat where "DEFAULT_LOG_MAX_BYTES = 50 * 1024 * 1024"
definition DEFAULT_IN_MEMORY_LOG_BUFFER_SIZE :: nat where
  "DEFAULT_IN_MEMORY_LOG_BUFFER_SIZE = 1024 * 1024"
definition DEFAULT_LOG_BACKUPS :: nat where "DEFAULT_LOG_BACKUPS = 10"

definition unwrap_or :: "'a option \<Rightarrow> 'a \<Rightarrow> 'a" where
  "unwrap_or x d = (case x of None \<Rightarrow> d | Some v \<Rightarrow> v)"

definition or_option :: "'a option \<Rightarrow> 'a option \<Rightarrow> 'a option" where
  "or_option x y = (case x of None \<Rightarrow> y | Some v \<Rightarrow> Some v)"

definition logs_in_memory_only :: "ProgramLogsConfig \<Rightarrow> bool" where
  "logs_in_memory_only l \<longleftrightarrow> l_enabled l = InMemoryOnly"

definition effective_buffer_size :: "ProgramLogsConfig \<Rightarrow> nat" where
  "effective_buffer_size l =
     (case l_buffer_size l of
        Some sz \<Rightarrow> if sz > 0 then sz else DEFAULT_IN_MEMORY_LOG_BUFFER_SIZE
      | None \<Rightarrow> DEFAULT_IN_MEMORY_LOG_BUFFER_SIZE)"

definition effective_stdout_max_bytes :: "ProgramLogsConfig \<Rightarrow> nat" where
  "effective_stdout_max_bytes l =
     unwrap_or (or_option (l_stdout_max_bytes l) (l_max_bytes l)) DEFAULT_LOG_MAX_BYTES"

definition effective_stderr_max_bytes :: "ProgramLogsConfig \<Rightarrow> nat" where
  "effective_stderr_max_bytes l =
     unwrap_or (or_option (l_stderr_max_bytes l) (l_max_bytes l)) DEFAULT_LOG_MAX_BYTES"

definition effective_stdout_backups :: "ProgramLogsConfig \<Rightarrow> nat" where
  "effective_stdout_backups l =
     unwrap_or (or_option (l_stdout_backups l) (l_backups l)) DEFAULT_LOG_BACKUPS"

definition effective_stderr_backups :: "ProgramLogsConfig \<Rightarrow> nat" where
  "effective_stderr_backups l =
     unwrap_or (or_option (l_stderr_backups l) (l_backups l)) DEFAULT_LOG_BACKUPS"

definition is_file_disabled :: "ProgramLogsConfig \<Rightarrow> string option \<Rightarrow> bool" where
  "is_file_disabled l path =
     (if l_enabled l = LogOff then True
      else (case path of
              Some p \<Rightarrow>
                let t = trim p in
                t = [] \<or> (\<exists>x \<in> set [''/dev/null'', ''null'', ''none'', ''off''].
                            to_ascii_uppercase x = to_ascii_uppercase t)
            | None \<Rightarrow> False))"

definition is_stdout_disabled :: "ProgramLogsConfig \<Rightarrow> bool" where
  "is_stdout_disabled l =
     (if l_enabled l = LogOff then True
      else if l_enabled l = InMemoryOnly then False
      else if l_stdout_syslog l then False
      else is_file_disabled l (l_stdout l))"

definition is_stderr_disabled :: "ProgramLogsConfig \<Rightarrow> bool" where
  "is_stderr_disabled l =
     (if l_enabled l = LogOff then True
      else if l_enabled l = InMemoryOnly then False
      else if l_stderr_syslog l then False
      else is_file_disabled l (l_stderr l))"

datatype HealthCheckType = Http string nat | Tcp string | Exec string

record HealthCheckConfig =
  h_check_type :: HealthCheckType
  h_interval_secs :: duration
  h_timeout_secs :: duration
  h_failure_threshold :: nat
  h_initial_delay_secs :: duration

record EventListenerConfig =
  e_pool_name :: string
  e_events :: "string list"
  e_buffer_size :: nat
  e_result_handler :: string

record ProgramConfig =
  c_name :: string
  c_command :: string
  c_args :: "string list"
  c_directory :: "string option"
  c_user :: "string option"
  c_environment :: "(string, string) fmap"
  c_priority :: nat
  c_depends_on :: "string list"
  c_autostart :: bool
  c_autorestart :: AutoRestartPolicy
  c_start_secs :: duration
  c_start_retries :: nat
  c_restart_pause_secs :: duration
  c_stop_signal :: StopSignal
  c_stop_wait_secs :: duration
  c_exit_codes :: "int list"
  c_umask :: "nat option"
  c_logs :: ProgramLogsConfig
  c_health_check :: "HealthCheckConfig option"
  c_group :: string
  c_group_priority :: nat
  c_cron :: "string option"
  c_cron_stop :: "string option"
  c_pre_start :: "string option"
  c_pre_stop :: "string option"
  c_pre_start_ignore_failure :: bool
  c_hook_timeout_secs :: duration
  c_restart_when_binary_changed :: bool
  c_restart_signal_when_binary_changed :: "StopSignal option"
  c_restart_cmd_when_binary_changed :: "string option"
  c_restart_directory_monitor :: "string option"
  c_restart_file_pattern :: "string option"
  c_restart_signal_when_file_changed :: "StopSignal option"
  c_restart_cmd_when_file_changed :: "string option"
  c_restart_debounce_secs :: duration
  c_env_files :: "string list"
  c_kill_wait_secs :: duration
  c_stop_as_group :: bool
  c_kill_as_group :: bool
  c_event_listener :: "EventListenerConfig option"

text \<open>The daemon's own logging section of the configuration.\<close>

record LoggingConfig =
  g_enabled :: LogMode
  g_file :: "string option"
  g_level :: string
  g_buffer_size :: "nat option"
  g_max_bytes :: "nat option"
  g_backups :: nat
  g_timestamp_suffix :: bool
  g_silent :: bool
  g_no_color :: "bool option"

section \<open>Constants\<close>

definition AWAIT_ACTION :: duration where [duration_defs]: "AWAIT_ACTION = from_secs 30"
definition AWAIT_GROUP :: duration where [duration_defs]: "AWAIT_GROUP = from_secs 60"
definition AWAIT_BULK :: duration where [duration_defs]: "AWAIT_BULK = from_secs 120"
definition AWAIT_QUERY :: duration where [duration_defs]: "AWAIT_QUERY = from_secs 10"
definition DEFAULT_STOP_WAIT :: duration where [duration_defs]: "DEFAULT_STOP_WAIT = from_secs 10"
definition STOP_GRACE_EXTRA :: duration where [duration_defs]: "STOP_GRACE_EXTRA = from_secs 15"
definition RESTART_GRACE_EXTRA :: duration where [duration_defs]: "RESTART_GRACE_EXTRA = from_secs 25"
definition PROCESS_STOP_GRACE_EXTRA :: duration where
  [duration_defs]: "PROCESS_STOP_GRACE_EXTRA = from_secs 5"
definition PROCESS_RESTART_GRACE_EXTRA :: duration where
  [duration_defs]: "PROCESS_RESTART_GRACE_EXTRA = from_secs 10"
definition MAX_TIMEOUT :: duration where [duration_defs]: "MAX_TIMEOUT = from_secs 86400"
definition DRAIN_TIMEOUT :: duration where [duration_defs]: "DRAIN_TIMEOUT = from_secs 2"
definition DEFAULT_HOOK_TIMEOUT :: duration where
  [duration_defs]: "DEFAULT_HOOK_TIMEOUT = from_secs 15"
definition DEFAULT_PRIORITY :: nat where "DEFAULT_PRIORITY = 50"
definition BACKOFF_MAX_EXPONENT :: nat where "BACKOFF_MAX_EXPONENT = 5"

section \<open>Configuration defaults and validation\<close>

definition default_logs :: ProgramLogsConfig where
  "default_logs =
     \<lparr>l_enabled = LogOn, l_stdout = None, l_stderr = None, l_buffer_size = None,
      l_max_bytes = None, l_backups = None, l_stdout_max_bytes = None, l_stderr_max_bytes = None,
      l_stdout_backups = None, l_stderr_backups = None, l_stdout_timestamp_suffix = False,
      l_stderr_timestamp_suffix = False, l_stdout_syslog = False, l_stderr_syslog = False,
      l_syslog_facility = None, l_syslog_tag = None, l_syslog_stdout_priority = None,
      l_syslog_stderr_priority = None, l_redirect_stderr = False,
      l_stdout_events_enabled = False, l_stderr_events_enabled = False\<rparr>"

text \<open>\<open>ProgramConfig::new\<close>; the platform's default stop signal is a parameter.\<close>

definition new_config :: "StopSignal \<Rightarrow> string \<Rightarrow> string \<Rightarrow> ProgramConfig" where
  "new_config default_sig n cmd =
     \<lparr>c_name = n, c_command = cmd, c_args = [], c_directory = None, c_user = None,
      c_environment = fmempty, c_priority = DEFAULT_PRIORITY, c_depends_on = [],
      c_autostart = True, c_autorestart = Unexpected, c_start_secs = from_secs 1,
      c_start_retries = 3, c_restart_pause_secs = 0, c_stop_signal = default_sig,
      c_stop_wait_secs = DEFAULT_STOP_WAIT, c_exit_codes = [0], c_umask = None,
      c_logs = default_logs, c_health_check = None, c_group = n, c_group_priority = 999,
      c_cron = None, c_cron_stop = None, c_pre_start = None, c_pre_stop = None,
      c_pre_start_ignore_failure = False, c_hook_timeout_secs = DEFAULT_HOOK_TIMEOUT,
      c_restart_when_binary_changed = False, c_restart_signal_when_binary_changed = None,
      c_restart_cmd_when_binary_changed = None, c_restart_directory_monitor = None,
      c_restart_file_pattern = None, c_restart_signal_when_file_changed = None,
      c_restart_cmd_when_file_changed = None, c_restart_debounce_secs = from_secs 5,
      c_env_files = [], c_kill_wait_secs = from_secs 2, c_stop_as_group = False,
      c_kill_as_group = False, c_event_listener = None\<rparr>"

text \<open>
  \<open>ProgramConfig::validate\<close>; the cron parser (a library) is a parameter that returns the
  parse error, if any.
\<close>

definition validate_cron ::
  "(string \<Rightarrow> string option) \<Rightarrow> string \<Rightarrow> string option \<Rightarrow> unit result" where
  "validate_cron cron_err n expr =
     (case expr of
        None \<Rightarrow> Inr ()
      | Some x \<Rightarrow> (case cron_err x of
                    None \<Rightarrow> Inr ()
                  | Some e \<Rightarrow> Inl (InvalidCronExpression n x e)))"

definition validate :: "(string \<Rightarrow> string option) \<Rightarrow> ProgramConfig \<Rightarrow> unit result" where
  "validate cron_err c =
     (if c_priority c > 999 then
        Inl (ConfigError (''Program '' @ quoted (c_name c) @ '' priority ''
               @ digits_of (c_priority c) @ '' must be in range [0, 999]''))
      else if trim (c_command c) = [] then
        Inl (ConfigError (''Program '' @ quoted (c_name c) @ '' command cannot be empty''))
      else (case validate_cron cron_err (c_name c) (c_cron c) of
              Inl e \<Rightarrow> Inl e
            | Inr _ \<Rightarrow> validate_cron cron_err (c_name c) (c_cron_stop c)))"

definition config_full_name :: "ProgramConfig \<Rightarrow> string" where
  "config_full_name c =
     (if c_group c \<noteq> [] \<and> c_group c \<noteq> c_name c then c_group c @ '':'' @ c_name c
      else c_name c)"

lemma validate_ok_iff:
  "validate cron_err c = Inr () \<longleftrightarrow>
     c_priority c \<le> 999 \<and> trim (c_command c) \<noteq> [] \<and>
     (\<forall>x. c_cron c = Some x \<or> c_cron_stop c = Some x \<longrightarrow> cron_err x = None)"
  by (auto simp: validate_def validate_cron_def split: option.splits)

end
