(* ===== verification/Event_Hub.thy ===== *)
theory Event_Hub
  imports Program_Model
begin

text \<open>
  The event bus of \<open>src/src/manager/event.rs\<close>: the system events, the log records and the
  \<open>EventHub\<close> with its bounded log history. The broadcast channels are a library: the model
  keeps the number of receivers and the sequence of values handed to the channel. The time
  stamp of a log record is an argument.
\<close>

section \<open>Events\<close>

datatype SystemEvent =
    StateChanged string string ProgramState ProgramState "nat option" "int option" string nat
  | Tick nat nat
  | RemoteCommunication string string
  | HealthChanged string bool HealthStatus "string option"
  | ConfigReloaded "string list" "string list" "string list" "string list"
  | ProcessGroupAdded string
  | ProcessGroupRemoved string
  | DaemonLifecycle string nat
  | CronTriggered string string string string
  | ProcessPreStart string string string
  | ProcessPreStartFailed string string string
  | ProcessPreStop string string string
  | ProcessPreStopFailed string string string

fun event_type :: "SystemEvent \<Rightarrow> string" where
  "event_type (StateChanged _ _ _ _ _ _ _ _) = ''StateChanged''"
| "event_type (Tick _ _) = ''Tick''"
| "event_type (RemoteCommunication _ _) = ''RemoteCommunication''"
| "event_type (HealthChanged _ _ _ _) = ''HealthChanged''"
| "event_type (ConfigReloaded _ _ _ _) = ''ConfigReloaded''"
| "event_type (ProcessGroupAdded _) = ''ProcessGroupAdded''"
| "event_type (ProcessGroupRemoved _) = ''ProcessGroupRemoved''"
| "event_type (DaemonLifecycle _ _) = ''DaemonLifecycle''"
| "event_type (CronTriggered _ _ _ _) = ''CronTriggered''"
| "event_type (ProcessPreStart _ _ _) = ''ProcessPreStart''"
| "event_type (ProcessPreStartFailed _ _ _) = ''ProcessPreStartFailed''"
| "event_type (ProcessPreStop _ _ _) = ''ProcessPreStop''"
| "event_type (ProcessPreStopFailed _ _ _) = ''ProcessPreStopFailed''"

fun event_program_name :: "SystemEvent \<Rightarrow> string option" where
  "event_program_name (StateChanged n _ _ _ _ _ _ _) = Some n"
| "event_program_name (HealthChanged n _ _ _) = Some n"
| "event_program_name (CronTriggered n _ _ _) = Some n"
| "event_program_name (ProcessPreStart n _ _) = Some n"
| "event_program_name (ProcessPreStartFailed n _ _) = Some n"
| "event_program_name (ProcessPreStop n _ _) = Some n"
| "event_program_name (ProcessPreStopFailed n _ _) = Some n"
| "event_program_name _ = None"

fun is_failure :: "SystemEvent \<Rightarrow> bool" where
  "is_failure (ProcessPreStartFailed _ _ _) = True"
| "is_failure (ProcessPreStopFailed _ _ _) = True"
| "is_failure (HealthChanged _ healthy _ _) = (\<not> healthy)"
| "is_failure (StateChanged _ _ _ new_state _ _ _ _) = (new_state = Fatal \<or> new_state = Backoff)"
| "is_failure _ = False"

record LogEntry =
  le_program :: string
  le_stream :: string
  le_line :: string
  le_timestamp_millis :: nat
  le_group :: "string option"
  le_pid :: "nat option"
  le_events_enabled :: bool

definition formatted_line :: "LogEntry \<Rightarrow> string" where
  "formatted_line e =
     (if le_stream e = ''stderr'' then ''['' @ le_program e @ ''] [stderr] '' @ le_line e
      else ''['' @ le_program e @ ''] '' @ le_line e)"

section \<open>The hub\<close>

record EventHub =
  hub_sys_receivers :: nat
  hub_sys_sent :: "SystemEvent list"
  hub_log_receivers :: nat
  hub_log_sent :: "LogEntry list"
  hub_log_history :: "LogEntry list"
  hub_log_capacity :: nat

definition hub_new :: "nat \<Rightarrow> nat \<Rightarrow> EventHub" where
  "hub_new system_capacity log_capacity =
     \<lparr>hub_sys_receivers = 0, hub_sys_sent = [], hub_log_receivers = 0, hub_log_sent = [],
      hub_log_history = [], hub_log_capacity = max log_capacity 64\<rparr>"

definition publish_system :: "SystemEvent \<Rightarrow> EventHub \<Rightarrow> EventHub" where
  "publish_system e h =
     (if hub_sys_receivers h > 0 then h\<lparr>hub_sys_sent := hub_sys_sent h @ [e]\<rparr> else h)"

definition publish_log :: "LogEntry \<Rightarrow> EventHub \<Rightarrow> EventHub" where
  "publish_log e h =
     (let hist = (if length (hub_log_history h) \<ge> hub_log_capacity h
                  then tl (hub_log_history h) else hub_log_history h);
          h' = h\<lparr>hub_log_history := hist @ [e]\<rparr>
      in if hub_log_receivers h > 0 then h'\<lparr>hub_log_sent := hub_log_sent h' @ [e]\<rparr> else h')"

definition get_logs :: "nat option \<Rightarrow> EventHub \<Rightarrow> LogEntry list" where
  "get_logs max_lines h =
     (case max_lines of
        Some n \<Rightarrow>
          if n < length (hub_log_history h)
          then drop (length (hub_log_history h) - n) (hub_log_history h)
          else hub_log_history h
      | None \<Rightarrow> hub_log_history h)"

definition hub_clear_logs :: "EventHub \<Rightarrow> EventHub" where
  "hub_clear_logs h = h\<lparr>hub_log_history := []\<rparr>"

definition subscribe_system :: "EventHub \<Rightarrow> EventHub" where
  "subscribe_system h = h\<lparr>hub_sys_receivers := Suc (hub_sys_receivers h)\<rparr>"

definition subscribe_logs :: "EventHub \<Rightarrow> EventHub" where
  "subscribe_logs h = h\<lparr>hub_log_receivers := Suc (hub_log_receivers h)\<rparr>"

section \<open>The log history is the tail of everything published\<close>

text \<open>The last \<open>n\<close> elements of a list: what a bounded history of capacity \<open>n\<close> keeps.\<close>

definition last_n :: "nat \<Rightarrow> 'a list \<Rightarrow> 'a list" where
  "last_n n xs = drop (length xs - n) xs"

lemma length_last_n [simp]: "length (last_n n xs) = min n (length xs)"
  by (simp add: last_n_def)

lemma last_n_last_n: "last_n n (last_n k xs) = last_n (min n k) xs"
  by (cases "k \<le> length xs") (auto simp: last_n_def min_def)

lemma last_n_all [simp]: "length xs \<le> n \<Longrightarrow> last_n n xs = xs"
  by (simp add: last_n_def)

lemma last_n_snoc:
  "0 < n \<Longrightarrow> last_n n (xs @ [x]) =
     (if length (last_n n xs) \<ge> n then tl (last_n n xs) else last_n n xs) @ [x]"
  by (auto simp: last_n_def drop_Suc tl_drop Suc_diff_le min_def)

lemma get_logs_last_n:
  "get_logs (Some n) h = last_n n (hub_log_history h)"
  by (simp add: get_logs_def last_n_def)

lemma publish_log_history:
  assumes "hub_log_history h = last_n (hub_log_capacity h) es" and "0 < hub_log_capacity h"
  shows "hub_log_history (publish_log e h) = last_n (hub_log_capacity h) (es @ [e])"
  using assms by (simp add: publish_log_def Let_def last_n_snoc)

lemma publish_log_capacity [simp]: "hub_log_capacity (publish_log e h) = hub_log_capacity h"
  by (simp add: publish_log_def Let_def)

lemma fold_publish_log_history:
  "hub_log_history h = last_n (hub_log_capacity h) es \<Longrightarrow> 0 < hub_log_capacity h \<Longrightarrow>
     hub_log_history (fold publish_log fs h) = last_n (hub_log_capacity h) (es @ fs)"
proof (induction fs arbitrary: h es)
  case (Cons f fs)
  then show ?case using Cons.IH [of "publish_log f h" "es @ [f]"]
    by (simp add: publish_log_history)
qed simp

text \<open>
  After publishing any sequence of log records on a fresh hub, \<open>get_logs(Some(n))\<close> returns
  the most recent records, \<open>n\<close> of them or as many as the capacity (at least 64) allows, oldest
  first.
\<close>

lemma hub_get_logs_recent:
  "get_logs (Some n) (fold publish_log es (hub_new sys_cap log_cap))
     = last_n (min n (max log_cap 64)) es"
proof -
  have "hub_log_history (fold publish_log es (hub_new sys_cap log_cap))
      = last_n (max log_cap 64) es"
    using fold_publish_log_history [of "hub_new sys_cap log_cap" "[]" es]
    by (simp add: hub_new_def last_n_def)
  then show ?thesis by (simp add: get_logs_last_n last_n_last_n)
qed

end
