(* ===== verification/Program_Actor.thy ===== *)
theory Program_Actor
  imports Event_Hub
begin

text \<open>
  The actor that owns one operating system process: \<open>ProgramActor\<close> and the \<open>Program\<close>
  operations of \<open>ProcessProgram\<close> in \<open>src/src/program/process.rs\<close>.

  The actor is a record; every handler is a function from actor to actor. What the operating
  system answers during a handler (exit of a hook, result of each step of the launch, whether
  and when a wait ends, the clock) is an argument of type \<open>Env\<close>, so a theorem that holds for
  every \<open>Env\<close> holds for every behaviour of the system. Everything the actor does to the
  outside, in order, is its \<open>a_trace\<close>: published events, hooks run, processes spawned,
  signalled, killed and reaped.

  The \<open>tokio::select!\<close> of \<open>run\<close> is \<open>run_step\<close>: one iteration that takes one branch; a branch
  whose guard is false yields \<open>None\<close>. Cancellation has priority because the selection is
  biased. \<open>reachable\<close> is the set of states an actor can be in between two iterations.
  Instants are unbounded numbers of nanoseconds; the retry counter is a 32-bit integer that
  wraps.
\<close>

section \<open>What the operating system answers\<close>

text \<open>An exit status as \<open>code()\<close> and \<open>signal()\<close> of the standard library present it on Unix.\<close>

datatype ExitStatus = ExitedCode int | KilledBySignal int | StatusOther

fun status_code :: "ExitStatus \<Rightarrow> int option" where
  "status_code (ExitedCode c) = Some c"
| "status_code _ = None"

fun status_signal :: "ExitStatus \<Rightarrow> int option" where
  "status_signal (KilledBySignal s) = Some s"
| "status_signal _ = None"

definition status_success :: "ExitStatus \<Rightarrow> bool" where
  "status_success st \<longleftrightarrow> status_code st = Some 0"

definition normalize_exit_status :: "ExitStatus \<Rightarrow> int option" where
  "normalize_exit_status st =
     (case status_code st of
        Some code \<Rightarrow> Some code
      | None \<Rightarrow> map_option (\<lambda>sig. - sig) (status_signal st))"

type_synonym exit_result = "string + ExitStatus"

text \<open>
  A future as seen by \<open>tokio::time::timeout\<close>: it ends after some time with a value, or never.
  The timeout polls the future first, so a future that ends exactly at the deadline wins.
\<close>

type_synonym 'a future = "(duration \<times> 'a) option"

definition timeout :: "duration \<Rightarrow> 'a future \<Rightarrow> 'a option" where
  "timeout d f = (case f of None \<Rightarrow> None | Some (t, x) \<Rightarrow> if t \<le> d then Some x else None)"

definition timeout_elapsed :: "duration \<Rightarrow> 'a future \<Rightarrow> duration" where
  "timeout_elapsed d f = (case f of None \<Rightarrow> d | Some (t, x) \<Rightarrow> min t d)"

record HookEnv =
  hk_configure :: "unit result"
  hk_status :: "exit_result future"

record Env =
  env_now :: instant
  env_started :: instant
  env_prev_exited :: bool
  env_pre_start :: HookEnv
  env_transport :: "unit result"
  env_stdio :: "unit result"
  env_configure :: "unit result"
  env_spawn :: "string + (nat option \<times> bool)"
  env_streams :: "unit result"
  env_attach :: "unit result"
  env_pre_stop :: HookEnv
  env_wait :: "exit_result future"
  env_kill_wait :: "exit_result future"
  env_drain_elapsed :: duration
  env_drop_exited :: bool
  env_signal :: "unit result"
  env_metrics :: "process_metrics result"
  env_metrics_active :: bool
  env_tracker_enabled :: bool

section \<open>The actor\<close>

datatype ProgramCommand =
    CmdStart
  | CmdStop duration
  | CmdRestart duration
  | CmdSignal StopSignal
  | CmdShutdown

datatype HealthEvent = EvHealthy | EvUnhealthy

datatype Effect =
    Publish SystemEvent
  | RunHook string
  | Spawn nat
  | SendSignal nat StopSignal
  | ForceKill nat
  | KillChild nat
  | Reaped nat
  | DrainPumps nat

record RunningChild =
  ch_pid :: nat
  ch_marked_running :: bool

record ProgramActor =
  a_config :: ProgramConfig
  a_status :: ProgramStatus
  a_started_at :: "instant option"
  a_stdin_open :: bool
  a_child :: "RunningChild option"
  a_retry_count :: nat
  a_manual_stop :: bool
  a_is_shutting_down :: bool
  a_backoff_deadline :: "instant option"
  a_spawn_seq :: u64
  a_start_deadline :: "instant option"
  a_cancelled :: bool
  a_done :: bool
  a_trace :: "Effect list"

definition actor_new :: "ProgramConfig \<Rightarrow> ProgramActor" where
  "actor_new c =
     \<lparr>a_config = c, a_status = new_stopped_with_group (c_name c) (c_group c),
      a_started_at = None, a_stdin_open = False, a_child = None, a_retry_count = 0,
      a_manual_stop = False, a_is_shutting_down = False, a_backoff_deadline = None,
      a_spawn_seq = 0, a_start_deadline = None, a_cancelled = False, a_done = False,
      a_trace = []\<rparr>"

abbreviation a_name :: "ProgramActor \<Rightarrow> string" where
  "a_name a \<equiv> c_name (a_config a)"

abbreviation a_group :: "ProgramActor \<Rightarrow> string" where
  "a_group a \<equiv> c_group (a_config a)"

abbreviation a_state :: "ProgramActor \<Rightarrow> ProgramState" where
  "a_state a \<equiv> s_state (a_status a)"

definition emit :: "Effect \<Rightarrow> ProgramActor \<Rightarrow> ProgramActor" where
  "emit e a = a\<lparr>a_trace := a_trace a @ [e]\<rparr>"

definition debug_opt_int :: "int option \<Rightarrow> string" where
  "debug_opt_int x = (case x of None \<Rightarrow> ''None'' | Some i \<Rightarrow> ''Some('' @ int_to_string i @ '')'')"

definition update_status ::
  "ProgramState \<Rightarrow> nat option \<Rightarrow> int option \<Rightarrow> string \<Rightarrow> ProgramActor \<Rightarrow> ProgramActor" where
  "update_status state pid exit_code description a =
     (let old_state = a_state a;
          st = (a_status a)\<lparr>s_state := state, s_pid := pid, s_exit_code := exit_code,
                            s_description := description\<rparr>;
          st = (if state \<noteq> Running \<and> state \<noteq> Starting
                then st\<lparr>s_health := HealthNone, s_is_healthy := False, s_metrics := None,
                        s_uptime_secs := None\<rparr>
                else st);
          a = a\<lparr>a_status := st\<rparr>
      in if old_state \<noteq> state \<or> exit_code \<noteq> None
         then emit (Publish (StateChanged (a_name a) (a_group a) old_state state pid exit_code
                               description (a_retry_count a))) a
         else a)"

subsection \<open>Hooks\<close>

definition run_hook :: "HookEnv \<Rightarrow> duration \<Rightarrow> string + unit" where
  "run_hook hk timeout_dur =
     (case hk_configure hk of
        Inl e \<Rightarrow> Inl (''Failed to configure hook command: '' @ error_text e)
      | Inr _ \<Rightarrow>
          (case timeout timeout_dur (hk_status hk) of
             Some (Inr status) \<Rightarrow>
               if status_success status then Inr ()
               else Inl (''Hook exited with failure status '' @
                         (case status_code status of
                            Some c \<Rightarrow> int_to_string c | None \<Rightarrow> ''signal''))
           | Some (Inl e) \<Rightarrow> Inl (''Hook spawn failed: '' @ e)
           | None \<Rightarrow> Inl (''Hook timed out after '' @ digits_of (as_secs timeout_dur) @ ''s'')))"

subsection \<open>Spawning\<close>

text \<open>
  Dropping a \<open>RunningChild\<close> (on Unix). \<open>try_wait\<close> reports the exit of a process that was waited
  for before (\<open>reaped\<close>); otherwise it asks the system, and a process that is still running is
  killed.
\<close>

definition drop_child :: "Env \<Rightarrow> bool \<Rightarrow> nat \<Rightarrow> ProgramActor \<Rightarrow> ProgramActor" where
  "drop_child env reaped pid a =
     (if reaped then a
      else if env_drop_exited env then emit (Reaped pid) a
      else emit (KillChild pid) (emit (ForceKill pid) a))"

text \<open>The first part of \<open>spawn_child\<close>: an exited previous child is reaped, a live one refuses.\<close>

definition reap_previous :: "Env \<Rightarrow> ProgramActor \<Rightarrow> unit result \<times> ProgramActor" where
  "reap_previous env a =
     (case a_child a of
        None \<Rightarrow> (Inr (), a)
      | Some child \<Rightarrow>
          if env_prev_exited env
          then (Inr (), drop_child env True (ch_pid child)
                   (emit (DrainPumps (ch_pid child)) (emit (Reaped (ch_pid child)) a))
                     \<lparr>a_child := None\<rparr>)
          else (Inl (AlreadyRunning (a_name a) (ch_pid child)), a))"

definition pre_start_phase :: "Env \<Rightarrow> ProgramActor \<Rightarrow> unit result \<times> ProgramActor" where
  "pre_start_phase env a =
     (case c_pre_start (a_config a) of
        None \<Rightarrow> (Inr (), a)
      | Some hook \<Rightarrow>
          let a = emit (RunHook hook)
                    (emit (Publish (ProcessPreStart (a_name a) (a_group a) hook)) a)
          in (case run_hook (env_pre_start env) (c_hook_timeout_secs (a_config a)) of
                Inr _ \<Rightarrow> (Inr (), a)
              | Inl err \<Rightarrow>
                  let a = emit (Publish (ProcessPreStartFailed (a_name a) (a_group a) err)) a
                  in if \<not> c_pre_start_ignore_failure (a_config a)
                     then (Inl (PreStartHookFailed (a_name a) err),
                           update_status Fatal None None (''pre_start hook failed: '' @ err) a)
                     else (Inr (), a)))"

text \<open>
  From the log transport to the platform guard. Each step that can fail is one component of
  the environment; a process that was already spawned when a later step fails is killed by
  the scope guard.
\<close>

definition launch :: "Env \<Rightarrow> ProgramActor \<Rightarrow> (nat \<times> bool) result \<times> ProgramActor" where
  "launch env a =
     (case env_transport env of Inl e \<Rightarrow> (Inl e, a) | Inr _ \<Rightarrow>
     (case env_stdio env of Inl e \<Rightarrow> (Inl e, a) | Inr _ \<Rightarrow>
     (case env_configure env of Inl e \<Rightarrow> (Inl e, a) | Inr _ \<Rightarrow>
     (case env_spawn env of
        Inl io \<Rightarrow> (Inl (StartFailed (a_name a) io), a)
      | Inr (None, _) \<Rightarrow> (Inl (PlatformError ''Process spawned without PID''), a)
      | Inr (Some pid, has_stdin) \<Rightarrow>
          let a = emit (Spawn pid) a
          in (case env_streams env of Inl e \<Rightarrow> (Inl e, emit (KillChild pid) a) | Inr _ \<Rightarrow>
             (case env_attach env of Inl e \<Rightarrow> (Inl e, emit (KillChild pid) a) | Inr _ \<Rightarrow>
                (Inr (pid, has_stdin), a)))))))"

definition register_child :: "Env \<Rightarrow> nat \<Rightarrow> bool \<Rightarrow> ProgramActor \<Rightarrow> ProgramActor" where
  "register_child env pid has_stdin a =
     (let a = a\<lparr>a_started_at := Some (env_started env), a_stdin_open := has_stdin\<rparr>;
          initial_health =
            (if c_health_check (a_config a) \<noteq> None then HealthStarting else HealthNone);
          marked_running = (c_start_secs (a_config a) = 0);
          initial_state = (if marked_running then Running else Starting);
          a = update_status initial_state (Some pid) None (debug_name initial_state) a;
          a = a\<lparr>a_status := (a_status a)
                  \<lparr>s_health := initial_health,
                   s_is_healthy := (initial_health = Healthy \<or>
                                    (initial_health = HealthNone \<and> marked_running)),
                   s_uptime_secs := Some 0\<rparr>\<rparr>
      in a\<lparr>a_child := Some \<lparr>ch_pid = pid, ch_marked_running = marked_running\<rparr>,
           a_spawn_seq := a_spawn_seq a + 1\<rparr>)"

definition spawn_child :: "Env \<Rightarrow> ProgramActor \<Rightarrow> unit result \<times> ProgramActor" where
  "spawn_child env a =
     (if a_is_shutting_down a then (Inl (ShuttingDown (a_name a)), a)
      else (case reap_previous env a of
              (Inl e, a) \<Rightarrow> (Inl e, a)
            | (Inr _, a) \<Rightarrow>
                (case pre_start_phase env (a\<lparr>a_manual_stop := False\<rparr>) of
                   (Inl e, a) \<Rightarrow> (Inl e, a)
                 | (Inr _, a) \<Rightarrow>
                     (case launch env a of
                        (Inl e, a) \<Rightarrow> (Inl e, a)
                      | (Inr (pid, has_stdin), a) \<Rightarrow>
                          (Inr (), register_child env pid has_stdin a)))))"

text \<open>\<open>if let Err(e) = self.spawn_child().await { ... } else { ... }\<close>\<close>

definition try_spawn ::
  "Env \<Rightarrow> ProgramActor \<Rightarrow> (ProgramError \<Rightarrow> ProgramActor \<Rightarrow> 'b) \<Rightarrow> (ProgramActor \<Rightarrow> 'b) \<Rightarrow> 'b" where
  "try_spawn env a on_err on_ok =
     (let (r, a) = spawn_child env a in case r of Inl e \<Rightarrow> on_err e a | Inr _ \<Rightarrow> on_ok a)"

subsection \<open>Stopping\<close>

definition pre_stop_phase :: "Env \<Rightarrow> ProgramActor \<Rightarrow> ProgramActor" where
  "pre_stop_phase env a =
     (case c_pre_stop (a_config a) of
        None \<Rightarrow> a
      | Some hook \<Rightarrow>
          let a = emit (RunHook hook)
                    (emit (Publish (ProcessPreStop (a_name a) (a_group a) hook)) a)
          in (case run_hook (env_pre_stop env) (c_hook_timeout_secs (a_config a)) of
                Inr _ \<Rightarrow> a
              | Inl err \<Rightarrow> emit (Publish (ProcessPreStopFailed (a_name a) (a_group a) err)) a))"

text \<open>
  Signal, bounded wait, escalation. The result is the exit code, whether the child was force
  killed, and whether its exit has been waited for.
\<close>

definition terminate ::
  "Env \<Rightarrow> duration \<Rightarrow> nat \<Rightarrow> ProgramActor \<Rightarrow> (int option \<times> bool \<times> bool) \<times> ProgramActor" where
  "terminate env grace pid a =
     (let a = emit (SendSignal pid (c_stop_signal (a_config a))) a
      in case timeout grace (env_wait env) of
           Some (Inr status) \<Rightarrow> ((normalize_exit_status status, False, True), emit (Reaped pid) a)
         | _ \<Rightarrow>
             let a = emit (KillChild pid) (emit (ForceKill pid) a)
             in (case timeout (c_kill_wait_secs (a_config a)) (env_kill_wait env) of
                   Some (Inr status) \<Rightarrow>
                     ((normalize_exit_status status, True, True), emit (Reaped pid) a)
                 | _ \<Rightarrow> ((None, True, False), a)))"

definition stop_description :: "int option \<Rightarrow> bool \<Rightarrow> string" where
  "stop_description final_code is_force_killed =
     (if is_force_killed then ''Force killed (SIGKILL)''
      else (case final_code of
              Some code \<Rightarrow> ''Stopped with exit code '' @ int_to_string code
            | None \<Rightarrow> ''Stopped''))"

definition stop_current_child :: "Env \<Rightarrow> duration \<Rightarrow> ProgramActor \<Rightarrow> ProgramActor" where
  "stop_current_child env grace a =
     (let a = a\<lparr>a_started_at := None, a_stdin_open := False\<rparr>
      in case a_child a of
           Some child \<Rightarrow>
             let pid = ch_pid child;
                 a = update_status Stopping (Some pid) None ''Stopping'' (a\<lparr>a_child := None\<rparr>);
                 a = pre_stop_phase env a
             in (case terminate env grace pid a of
                   ((final_code, is_force_killed, reaped), a) \<Rightarrow>
                     drop_child env reaped pid
                       (update_status Stopped None final_code
                          (stop_description final_code is_force_killed)
                          (emit (DrainPumps pid) a)))
         | None \<Rightarrow> update_status Stopped None None ''Stopped'' a)"

subsection \<open>Exit of the child\<close>

definition backoff_delay :: "ProgramConfig \<Rightarrow> nat \<Rightarrow> duration" where
  "backoff_delay c retry_count =
     (if c_restart_pause_secs c \<noteq> 0 then c_restart_pause_secs c
      else from_secs (2 ^ min retry_count BACKOFF_MAX_EXPONENT))"

definition exit_code_of :: "exit_result \<Rightarrow> int option" where
  "exit_code_of exit_res = (case exit_res of Inr status \<Rightarrow> normalize_exit_status status | Inl _ \<Rightarrow> None)"

definition retry_description :: "nat \<Rightarrow> nat \<Rightarrow> string" where
  "retry_description n m =
     ''Crashed during startup, retry '' @ digits_of n @ ''/'' @ digits_of m"

definition give_up_description :: "int option \<Rightarrow> string" where
  "give_up_description code =
     ''Exited during startup with code '' @ debug_opt_int code @ '', max retries exceeded''"

definition autorestart_description :: "AutoRestartPolicy \<Rightarrow> int option \<Rightarrow> string" where
  "autorestart_description policy code =
     (if policy = Always then ''Autorestarting (policy: always)''
      else ''Unexpected exit with code '' @ debug_opt_int code @ '', autorestarting'')"

definition exited_description :: "bool \<Rightarrow> int option \<Rightarrow> string" where
  "exited_description is_expected code =
     (if is_expected then ''Exited normally with code '' else ''Exited with code '')
       @ debug_opt_int code"

definition stopped_description :: "int option \<Rightarrow> string" where
  "stopped_description code =
     (case code of Some c \<Rightarrow> ''Stopped with code '' @ int_to_string c | None \<Rightarrow> ''Stopped'')"

text \<open>A startup failure: the process ended inside the \<open>start_secs\<close> window.\<close>

definition startup_failure :: "Env \<Rightarrow> int option \<Rightarrow> ProgramActor \<Rightarrow> ProgramActor" where
  "startup_failure env exit_code a =
     (let a = a\<lparr>a_retry_count := (a_retry_count a + 1) mod 2 ^ 32\<rparr>
      in if a_retry_count a \<le> c_start_retries (a_config a)
         then (update_status Backoff None exit_code
                 (retry_description (a_retry_count a) (c_start_retries (a_config a))) a)
                \<lparr>a_backoff_deadline :=
                   Some (env_now env + backoff_delay (a_config a) (a_retry_count a))\<rparr>
         else update_status Fatal None exit_code (give_up_description exit_code) a)"

text \<open>An exit after the program was marked running: the restart policy decides.\<close>

definition running_exit :: "Env \<Rightarrow> int option \<Rightarrow> ProgramActor \<Rightarrow> bool \<times> ProgramActor" where
  "running_exit env exit_code a =
     (let c = a_config a;
          is_expected = (case exit_code of Some code \<Rightarrow> code \<in> set (c_exit_codes c) | None \<Rightarrow> False)
      in if should_restart (c_autorestart c) (unwrap_or exit_code (-1)) (c_exit_codes c)
         then try_spawn env
                (update_status Starting None exit_code
                   (autorestart_description (c_autorestart c) exit_code) a)
                (\<lambda>e a. (False, update_status Fatal None exit_code
                                 (''Autorestart spawn failed: '' @ error_text e) a))
                (\<lambda>a. (True, a))
         else (False, update_status Exited None exit_code
                        (exited_description is_expected exit_code) a))"

definition handle_child_exit :: "Env \<Rightarrow> exit_result \<Rightarrow> ProgramActor \<Rightarrow> bool \<times> ProgramActor" where
  "handle_child_exit env exit_res a =
     (let child_info = a_child a;
          a = a\<lparr>a_started_at := None, a_stdin_open := False, a_child := None\<rparr>;
          marked_running = (case child_info of Some c \<Rightarrow> ch_marked_running c | None \<Rightarrow> False);
          exit_code = exit_code_of exit_res;
          a = (case child_info of
                 Some c \<Rightarrow>
                   emit (DrainPumps (ch_pid c))
                     (if isl exit_res then a else emit (Reaped (ch_pid c)) a)
               | None \<Rightarrow> a);
          drop_it = (\<lambda>a. case child_info of
                           Some c \<Rightarrow> drop_child env (\<not> isl exit_res) (ch_pid c) a | None \<Rightarrow> a)
      in if a_is_shutting_down a \<or> a_manual_stop a
         then (False,
               drop_it (update_status Stopped None exit_code (stopped_description exit_code)
                          (a\<lparr>a_backoff_deadline := None\<rparr>)))
         else if \<not> marked_running then (False, drop_it (startup_failure env exit_code a))
         else (let (restarted, a) = running_exit env exit_code a in (restarted, drop_it a)))"

subsection \<open>Commands\<close>

definition handle_command ::
  "Env \<Rightarrow> ProgramCommand \<Rightarrow> ProgramActor \<Rightarrow> unit result \<times> ProgramActor" where
  "handle_command env cmd a =
     (case cmd of
        CmdStart \<Rightarrow>
          if a_is_shutting_down a then (Inl (ShuttingDown (a_name a)), a)
          else spawn_child env
                 (a\<lparr>a_manual_stop := False, a_retry_count := 0, a_backoff_deadline := None\<rparr>)
      | CmdStop grace \<Rightarrow>
          (Inr (), stop_current_child env grace
                     (a\<lparr>a_manual_stop := True, a_backoff_deadline := None\<rparr>))
      | CmdRestart grace \<Rightarrow>
          if a_is_shutting_down a then (Inl (ShuttingDown (a_name a)), a)
          else (let a = stop_current_child env grace
                          (a\<lparr>a_manual_stop := True, a_retry_count := 0,
                             a_backoff_deadline := None\<rparr>)
                in spawn_child env (a\<lparr>a_manual_stop := False\<rparr>))
      | CmdShutdown \<Rightarrow>
          (Inr (), (stop_current_child env (c_stop_wait_secs (a_config a))
                      (a\<lparr>a_is_shutting_down := True, a_manual_stop := True,
                         a_backoff_deadline := None\<rparr>))\<lparr>a_cancelled := True\<rparr>)
      | CmdSignal sig \<Rightarrow>
          (case a_child a of
             Some child \<Rightarrow> (env_signal env, emit (SendSignal (ch_pid child) sig) a)
           | None \<Rightarrow> (Inl (NotRunning (a_name a)), a)))"

section \<open>The event loop\<close>

datatype ActorInput =
    InCancelToken
  | InCancelled
  | InCommand ProgramCommand
  | InHealth HealthEvent
  | InBackoffElapsed
  | InMetricsTick
  | InActivityNotified
  | InChildExit exit_result
  | InStartDeadline

definition start_deadline_for :: "Env \<Rightarrow> ProgramActor \<Rightarrow> instant option" where
  "start_deadline_for env a =
     (if c_start_secs (a_config a) \<noteq> 0 then Some (env_now env + c_start_secs (a_config a)) else None)"

definition cancel_branch :: "Env \<Rightarrow> ProgramActor \<Rightarrow> ProgramActor" where
  "cancel_branch env a =
     (let a = stop_current_child env (c_stop_wait_secs (a_config a))
                (a\<lparr>a_is_shutting_down := True, a_manual_stop := True, a_backoff_deadline := None\<rparr>)
      in (update_status Stopped None None ''Stopped'' a)\<lparr>a_done := True\<rparr>)"

definition command_branch ::
  "Env \<Rightarrow> ProgramCommand \<Rightarrow> ProgramActor \<Rightarrow> unit result \<times> ProgramActor" where
  "command_branch env cmd a =
     (let seq_before = a_spawn_seq a;
          (reply, a) = handle_command env cmd a
      in (reply,
          if a_spawn_seq a \<noteq> seq_before
          then (if a_child a \<noteq> None \<and> c_start_secs (a_config a) \<noteq> 0
                then a\<lparr>a_start_deadline := Some (env_now env + c_start_secs (a_config a))\<rparr>
                else a\<lparr>a_start_deadline := None\<rparr>)
          else if a_child a = None then a\<lparr>a_start_deadline := None\<rparr>
          else a))"

definition health_branch :: "Env \<Rightarrow> HealthEvent \<Rightarrow> ProgramActor \<Rightarrow> ProgramActor" where
  "health_branch env ev a =
     (let old = s_health (a_status a)
      in case ev of
           EvHealthy \<Rightarrow>
             let a = a\<lparr>a_status := (a_status a)\<lparr>s_health := Healthy, s_is_healthy := True\<rparr>\<rparr>
             in if old \<noteq> Healthy
                then emit (Publish (HealthChanged (a_name a) True Healthy None)) a else a
         | EvUnhealthy \<Rightarrow>
             let a = a\<lparr>a_status := (a_status a)\<lparr>s_health := Unhealthy, s_is_healthy := False\<rparr>\<rparr>;
                 a = (if old \<noteq> Unhealthy
                      then emit (Publish (HealthChanged (a_name a) False Unhealthy
                             (Some ''Health check probe failed consecutively''))) a
                      else a)
             in if c_autorestart (a_config a) = Never then a
                else try_spawn env (stop_current_child env (c_stop_wait_secs (a_config a)) a)
                       (\<lambda>e a. update_status Fatal None None
                                (''Health check restart failed: '' @ error_text e)
                                (a\<lparr>a_start_deadline := None\<rparr>))
                       (\<lambda>a. a\<lparr>a_start_deadline := start_deadline_for env a\<rparr>))"

definition backoff_branch :: "Env \<Rightarrow> ProgramActor \<Rightarrow> ProgramActor" where
  "backoff_branch env a =
     (let a = a\<lparr>a_backoff_deadline := None\<rparr>
      in if a_is_shutting_down a \<or> a_manual_stop a then a
         else try_spawn env a
                (\<lambda>e a. update_status Fatal None None
                         (''Spawn failed after backoff: '' @ error_text e) a)
                (\<lambda>a. if c_start_secs (a_config a) \<noteq> 0
                       then a\<lparr>a_start_deadline := Some (env_now env + c_start_secs (a_config a))\<rparr>
                       else a))"

definition metrics_branch :: "Env \<Rightarrow> ProgramActor \<Rightarrow> ProgramActor" where
  "metrics_branch env a =
     (case (a_child a, env_metrics env) of
        (Some _, Inr m) \<Rightarrow> a\<lparr>a_status := (a_status a)\<lparr>s_metrics := Some m\<rparr>\<rparr>
      | _ \<Rightarrow> a)"

definition exit_branch :: "Env \<Rightarrow> exit_result \<Rightarrow> ProgramActor \<Rightarrow> ProgramActor" where
  "exit_branch env exit_res a =
     (let (restarted, a) = handle_child_exit env exit_res (a\<lparr>a_start_deadline := None\<rparr>)
      in if restarted \<and> c_start_secs (a_config a) \<noteq> 0
         then a\<lparr>a_start_deadline := Some (env_now env + c_start_secs (a_config a))\<rparr> else a)"

definition start_deadline_branch :: "Env \<Rightarrow> ProgramActor \<Rightarrow> ProgramActor" where
  "start_deadline_branch env a =
     (let a = a\<lparr>a_start_deadline := None\<rparr>
      in case a_child a of
           None \<Rightarrow> a
         | Some child \<Rightarrow>
             if env_prev_exited env then a
             else update_status Running (Some (ch_pid child)) None ''Running''
                    (a\<lparr>a_child := Some (child\<lparr>ch_marked_running := True\<rparr>), a_retry_count := 0\<rparr>))"

definition run_step :: "Env \<Rightarrow> ActorInput \<Rightarrow> ProgramActor \<Rightarrow> ProgramActor option" where
  "run_step env inp a =
     (if a_done a then None
      else if inp = InCancelToken then Some (a\<lparr>a_cancelled := True\<rparr>)
      else if a_cancelled a then (if inp = InCancelled then Some (cancel_branch env a) else None)
      else (case inp of
              InCommand cmd \<Rightarrow> Some (snd (command_branch env cmd a))
            | InHealth ev \<Rightarrow>
                if a_child a \<noteq> None \<and> c_health_check (a_config a) \<noteq> None
                then Some (health_branch env ev a) else None
            | InBackoffElapsed \<Rightarrow>
                (case a_backoff_deadline a of
                   Some dl \<Rightarrow>
                     if dl \<le> env_now env \<and> \<not> a_is_shutting_down a \<and> \<not> a_manual_stop a
                     then Some (backoff_branch env a) else None
                 | None \<Rightarrow> None)
            | InMetricsTick \<Rightarrow>
                if a_child a \<noteq> None \<and> env_metrics_active env
                then Some (metrics_branch env a) else None
            | InActivityNotified \<Rightarrow>
                if a_child a \<noteq> None \<and> \<not> env_metrics_active env \<and> env_tracker_enabled env
                then Some (metrics_branch env a) else None
            | InChildExit exit_res \<Rightarrow>
                if a_child a \<noteq> None then Some (exit_branch env exit_res a) else None
            | InStartDeadline \<Rightarrow>
                (case a_start_deadline a of
                   Some dl \<Rightarrow>
                     if dl \<le> env_now env then Some (start_deadline_branch env a) else None
                 | None \<Rightarrow> None)
            | _ \<Rightarrow> None))"

fun run_steps :: "(Env \<times> ActorInput) list \<Rightarrow> ProgramActor \<Rightarrow> ProgramActor option" where
  "run_steps [] a = Some a"
| "run_steps ((env, inp) # xs) a =
     (case run_step env inp a of None \<Rightarrow> None | Some a' \<Rightarrow> run_steps xs a')"

text \<open>
  The system does not give the process id of a child whose exit has not been waited for to a
  new process. This is only used when waiting for the old child failed.
\<close>

definition pid_fresh :: "Env \<Rightarrow> ActorInput \<Rightarrow> ProgramActor \<Rightarrow> bool" where
  "pid_fresh env inp a \<longleftrightarrow>
     (case inp of
        InChildExit (Inl _) \<Rightarrow>
          (case (a_child a, env_spawn env) of
             (Some c, Inr (Some p, _)) \<Rightarrow> p \<noteq> ch_pid c
           | _ \<Rightarrow> True)
      | _ \<Rightarrow> True)"

inductive reachable :: "(ActorInput \<Rightarrow> bool) \<Rightarrow> ProgramConfig \<Rightarrow> ProgramActor \<Rightarrow> bool"
  for allowed :: "ActorInput \<Rightarrow> bool" and c :: ProgramConfig where
  reachable_new: "reachable allowed c (actor_new c)"
| reachable_step: "\<lbrakk>reachable allowed c a; allowed inp; pid_fresh env inp a;
     run_step env inp a = Some a'\<rbrakk> \<Longrightarrow> reachable allowed c a'"

section \<open>The program handle\<close>

definition program_status :: "instant \<Rightarrow> ProgramActor \<Rightarrow> ProgramStatus" where
  "program_status now a =
     (let st = a_status a
      in case a_started_at a of
           Some started \<Rightarrow>
             if s_state st = Running \<or> s_state st = Starting
             then st\<lparr>s_uptime_secs := Some (as_secs (now - started))\<rparr> else st
         | None \<Rightarrow> st)"

text \<open>The waiting times of the callers; \<open>None\<close> is the panic of an overflowing addition.\<close>

definition start_timeout :: "ProgramConfig \<Rightarrow> duration option" where
  "start_timeout c = checked_add (c_hook_timeout_secs c) AWAIT_QUERY"

definition stop_timeout :: "ProgramConfig \<Rightarrow> duration \<Rightarrow> duration" where
  "stop_timeout c grace =
     add_or MAX_TIMEOUT
       (add_or MAX_TIMEOUT (add_or MAX_TIMEOUT grace (c_hook_timeout_secs c)) (c_kill_wait_secs c))
       PROCESS_STOP_GRACE_EXTRA"

definition restart_timeout :: "ProgramConfig \<Rightarrow> duration \<Rightarrow> duration option" where
  "restart_timeout c grace =
     (if c_hook_timeout_secs c * 2 > duration_max then None
      else Some (add_or MAX_TIMEOUT
              (add_or MAX_TIMEOUT (add_or MAX_TIMEOUT grace (c_hook_timeout_secs c * 2))
                 (c_kill_wait_secs c))
              PROCESS_RESTART_GRACE_EXTRA))"

definition shutdown_timeout :: "ProgramConfig \<Rightarrow> duration" where
  "shutdown_timeout c =
     add_or MAX_TIMEOUT
       (add_or MAX_TIMEOUT (add_or MAX_TIMEOUT (c_stop_wait_secs c) (c_hook_timeout_secs c))
          (c_kill_wait_secs c))
       PROCESS_STOP_GRACE_EXTRA"

text \<open>
  What a caller sees: the command channel may be closed, the reply may not come in time
  (\<open>None\<close> inside the reply is a dropped sender).
\<close>

definition await_reply ::
  "string \<Rightarrow> bool \<Rightarrow> duration \<Rightarrow> 'a result option future \<Rightarrow> 'a result" where
  "await_reply n channel_open timeout_dur reply =
     (if \<not> channel_open then Inl (ChannelClosed n)
      else (case timeout timeout_dur reply of
              None \<Rightarrow> Inl (Timeout n (as_secs timeout_dur))
            | Some None \<Rightarrow> Inl (ChannelClosed n)
            | Some (Some res) \<Rightarrow> res))"

text \<open>
  \<open>send_stdin\<close>: the outcome of the send on the stdin channel, \<open>Some True\<close> when accepted,
  \<open>Some False\<close> when the writer is gone.
\<close>

definition send_stdin :: "ProgramActor \<Rightarrow> bool future \<Rightarrow> unit result" where
  "send_stdin a send =
     (if \<not> a_stdin_open a then Inl (NotRunning (a_name a))
      else (case timeout AWAIT_QUERY send of
              Some True \<Rightarrow> Inr ()
            | Some False \<Rightarrow> Inl (NotRunning (a_name a))
            | None \<Rightarrow> Inl (StdinWriteTimeout (a_name a) (as_secs AWAIT_QUERY))))"

section \<open>Frame and effect of the building blocks\<close>

named_theorems actor_simps \<open>what the building blocks of the actor keep and change\<close>

lemma emit_simps [simp, actor_simps]:
  "a_config (emit e a) = a_config a" "a_status (emit e a) = a_status a"
  "a_started_at (emit e a) = a_started_at a" "a_stdin_open (emit e a) = a_stdin_open a"
  "a_child (emit e a) = a_child a" "a_retry_count (emit e a) = a_retry_count a"
  "a_manual_stop (emit e a) = a_manual_stop a"
  "a_is_shutting_down (emit e a) = a_is_shutting_down a"
  "a_backoff_deadline (emit e a) = a_backoff_deadline a"
  "a_spawn_seq (emit e a) = a_spawn_seq a" "a_start_deadline (emit e a) = a_start_deadline a"
  "a_cancelled (emit e a) = a_cancelled a" "a_done (emit e a) = a_done a"
  "a_trace (emit e a) = a_trace a @ [e]"
  by (simp_all add: emit_def)

lemma update_status_frame [simp, actor_simps]:
  "a_config (update_status s p e d a) = a_config a"
  "a_started_at (update_status s p e d a) = a_started_at a"
  "a_stdin_open (update_status s p e d a) = a_stdin_open a"
  "a_child (update_status s p e d a) = a_child a"
  "a_retry_count (update_status s p e d a) = a_retry_count a"
  "a_manual_stop (update_status s p e d a) = a_manual_stop a"
  "a_is_shutting_down (update_status s p e d a) = a_is_shutting_down a"
  "a_backoff_deadline (update_status s p e d a) = a_backoff_deadline a"
  "a_spawn_seq (update_status s p e d a) = a_spawn_seq a"
  "a_start_deadline (update_status s p e d a) = a_start_deadline a"
  "a_cancelled (update_status s p e d a) = a_cancelled a"
  "a_done (update_status s p e d a) = a_done a"
  by (simp_all add: update_status_def Let_def)

lemma update_status_status [simp, actor_simps]:
  "s_state (a_status (update_status s p e d a)) = s"
  "s_pid (a_status (update_status s p e d a)) = p"
  "s_exit_code (a_status (update_status s p e d a)) = e"
  "s_description (a_status (update_status s p e d a)) = d"
  "s_health (a_status (update_status s p e d a)) =
     (if s = Running \<or> s = Starting then s_health (a_status a) else HealthNone)"
  "s_is_healthy (a_status (update_status s p e d a)) =
     ((s = Running \<or> s = Starting) \<and> s_is_healthy (a_status a))"
  "s_metrics (a_status (update_status s p e d a)) =
     (if s = Running \<or> s = Starting then s_metrics (a_status a) else None)"
  "s_uptime_secs (a_status (update_status s p e d a)) =
     (if s = Running \<or> s = Starting then s_uptime_secs (a_status a) else None)"
  by (simp_all add: update_status_def Let_def)

lemma update_status_trace:
  "a_trace (update_status s p e d a) = a_trace a @
     (if a_state a \<noteq> s \<or> e \<noteq> None
      then [Publish (StateChanged (a_name a) (a_group a) (a_state a) s p e d (a_retry_count a))]
      else [])"
  by (simp add: update_status_def Let_def)

lemma drop_child_frame [simp, actor_simps]:
  "a_config (drop_child env x p a) = a_config a" "a_status (drop_child env x p a) = a_status a"
  "a_started_at (drop_child env x p a) = a_started_at a"
  "a_stdin_open (drop_child env x p a) = a_stdin_open a"
  "a_child (drop_child env x p a) = a_child a"
  "a_retry_count (drop_child env x p a) = a_retry_count a"
  "a_manual_stop (drop_child env x p a) = a_manual_stop a"
  "a_is_shutting_down (drop_child env x p a) = a_is_shutting_down a"
  "a_backoff_deadline (drop_child env x p a) = a_backoff_deadline a"
  "a_spawn_seq (drop_child env x p a) = a_spawn_seq a"
  "a_start_deadline (drop_child env x p a) = a_start_deadline a"
  "a_cancelled (drop_child env x p a) = a_cancelled a" "a_done (drop_child env x p a) = a_done a"
  by (simp_all add: drop_child_def)

lemma pre_stop_phase_frame [simp, actor_simps]:
  "a_config (pre_stop_phase env a) = a_config a" "a_status (pre_stop_phase env a) = a_status a"
  "a_started_at (pre_stop_phase env a) = a_started_at a"
  "a_stdin_open (pre_stop_phase env a) = a_stdin_open a"
  "a_child (pre_stop_phase env a) = a_child a"
  "a_retry_count (pre_stop_phase env a) = a_retry_count a"
  "a_manual_stop (pre_stop_phase env a) = a_manual_stop a"
  "a_is_shutting_down (pre_stop_phase env a) = a_is_shutting_down a"
  "a_backoff_deadline (pre_stop_phase env a) = a_backoff_deadline a"
  "a_spawn_seq (pre_stop_phase env a) = a_spawn_seq a"
  "a_start_deadline (pre_stop_phase env a) = a_start_deadline a"
  "a_cancelled (pre_stop_phase env a) = a_cancelled a" "a_done (pre_stop_phase env a) = a_done a"
  by (simp_all add: pre_stop_phase_def Let_def split: option.split sum.split)

lemma terminate_frame [simp, actor_simps]:
  "a_config (snd (terminate env g p a)) = a_config a"
  "a_status (snd (terminate env g p a)) = a_status a"
  "a_started_at (snd (terminate env g p a)) = a_started_at a"
  "a_stdin_open (snd (terminate env g p a)) = a_stdin_open a"
  "a_child (snd (terminate env g p a)) = a_child a"
  "a_retry_count (snd (terminate env g p a)) = a_retry_count a"
  "a_manual_stop (snd (terminate env g p a)) = a_manual_stop a"
  "a_is_shutting_down (snd (terminate env g p a)) = a_is_shutting_down a"
  "a_backoff_deadline (snd (terminate env g p a)) = a_backoff_deadline a"
  "a_spawn_seq (snd (terminate env g p a)) = a_spawn_seq a"
  "a_start_deadline (snd (terminate env g p a)) = a_start_deadline a"
  "a_cancelled (snd (terminate env g p a)) = a_cancelled a"
  "a_done (snd (terminate env g p a)) = a_done a"
  by (simp_all add: terminate_def Let_def split: option.split sum.split)

lemma stop_current_child_frame [simp, actor_simps]:
  "a_config (stop_current_child env g a) = a_config a"
  "a_started_at (stop_current_child env g a) = None"
  "a_stdin_open (stop_current_child env g a) = False"
  "a_child (stop_current_child env g a) = None"
  "a_retry_count (stop_current_child env g a) = a_retry_count a"
  "a_manual_stop (stop_current_child env g a) = a_manual_stop a"
  "a_is_shutting_down (stop_current_child env g a) = a_is_shutting_down a"
  "a_backoff_deadline (stop_current_child env g a) = a_backoff_deadline a"
  "a_spawn_seq (stop_current_child env g a) = a_spawn_seq a"
  "a_start_deadline (stop_current_child env g a) = a_start_deadline a"
  "a_cancelled (stop_current_child env g a) = a_cancelled a"
  "a_done (stop_current_child env g a) = a_done a"
  by (simp_all add: stop_current_child_def Let_def split_beta split: option.split)

lemma stop_current_child_status [simp, actor_simps]:
  "s_state (a_status (stop_current_child env g a)) = Stopped"
  "s_pid (a_status (stop_current_child env g a)) = None"
  "s_health (a_status (stop_current_child env g a)) = HealthNone"
  "s_is_healthy (a_status (stop_current_child env g a)) = False"
  "s_metrics (a_status (stop_current_child env g a)) = None"
  "s_uptime_secs (a_status (stop_current_child env g a)) = None"
  by (simp_all add: stop_current_child_def Let_def split_beta split: option.split)

text \<open>The four ways \<open>spawn_child\<close> can end.\<close>

lemma reap_previous_cases:
  obtains
    (refused) c where "a_child a = Some c" "\<not> env_prev_exited env"
      "reap_previous env a = (Inl (AlreadyRunning (a_name a) (ch_pid c)), a)"
  | (clean) "a_child a = None" "reap_previous env a = (Inr (), a)"
  | (reaped) c where "a_child a = Some c" "env_prev_exited env"
      "reap_previous env a =
         (Inr (), a\<lparr>a_trace := a_trace a @ [Reaped (ch_pid c), DrainPumps (ch_pid c)],
                    a_child := None\<rparr>)"
  by (cases "a_child a"; cases "env_prev_exited env")
    (auto simp: reap_previous_def drop_child_def emit_def)

lemma pre_start_phase_cases:
  obtains
    (failed) err xs where
      "pre_start_phase env a =
         (Inl (PreStartHookFailed (a_name a) err),
          update_status Fatal None None (''pre_start hook failed: '' @ err)
            (a\<lparr>a_trace := a_trace a @ xs\<rparr>))"
      "c_pre_start (a_config a) \<noteq> None" "\<not> c_pre_start_ignore_failure (a_config a)"
      "run_hook (env_pre_start env) (c_hook_timeout_secs (a_config a)) = Inl err"
      "\<forall>e \<in> set xs. \<nexists>p. e \<in> {Spawn p, Reaped p, KillChild p}"
  | (passed) xs where
      "pre_start_phase env a = (Inr (), a\<lparr>a_trace := a_trace a @ xs\<rparr>)"
      "\<forall>e \<in> set xs. \<nexists>p. e \<in> {Spawn p, Reaped p, KillChild p}"
proof (cases "c_pre_start (a_config a)")
  case None
  then show ?thesis using passed [of "[]"] by (simp add: pre_start_phase_def)
next
  case (Some hook)
  show ?thesis
  proof (cases "run_hook (env_pre_start env) (c_hook_timeout_secs (a_config a))")
    case (Inr u)
    then show ?thesis
      using Some passed [of "[Publish (ProcessPreStart (a_name a) (a_group a) hook), RunHook hook]"]
      by (simp add: pre_start_phase_def emit_def)
  next
    case (Inl err)
    let ?xs = "[Publish (ProcessPreStart (a_name a) (a_group a) hook), RunHook hook,
      Publish (ProcessPreStartFailed (a_name a) (a_group a) err)]"
    show ?thesis
    proof (cases "c_pre_start_ignore_failure (a_config a)")
      case True
      then show ?thesis using Some Inl passed [of ?xs]
        by (simp add: pre_start_phase_def emit_def)
    next
      case False
      then show ?thesis using Some Inl failed [of err ?xs]
        by (simp add: pre_start_phase_def emit_def)
    qed
  qed
qed

lemma launch_cases:
  obtains
    (failed) e where "launch env a = (Inl e, a)"
  | (aborted) e pid b where "launch env a = (Inl e, a\<lparr>a_trace := a_trace a @ [Spawn pid, KillChild pid]\<rparr>)"
      "env_spawn env = Inr (Some pid, b)"
  | (launched) pid b where "launch env a = (Inr (pid, b), a\<lparr>a_trace := a_trace a @ [Spawn pid]\<rparr>)"
      "env_spawn env = Inr (Some pid, b)"
proof -
  consider (pre) "isl (env_transport env) \<or> isl (env_stdio env) \<or> isl (env_configure env)
      \<or> isl (env_spawn env) \<or> fst (projr (env_spawn env)) = None"
    | (ok) pid b where "\<not> isl (env_transport env)" "\<not> isl (env_stdio env)"
        "\<not> isl (env_configure env)" "env_spawn env = Inr (Some pid, b)"
    by (cases "env_spawn env"; cases "fst (projr (env_spawn env))"; cases "projr (env_spawn env)")
      (fastforce+)
  then show ?thesis
  proof cases
    case pre
    then have "\<exists>e. launch env a = (Inl e, a)"
      by (auto simp: launch_def isl_def Let_def split: sum.split option.split prod.split)
    then show ?thesis using failed by blast
  next
    case ok
    show ?thesis
    proof (cases "isl (env_streams env) \<or> isl (env_attach env)")
      case True
      then have "\<exists>e. launch env a = (Inl e, a\<lparr>a_trace := a_trace a @ [Spawn pid, KillChild pid]\<rparr>)"
        using ok by (auto simp: launch_def isl_def Let_def emit_def split: sum.split)
      then show ?thesis using aborted ok(4) by blast
    next
      case False
      then have "launch env a = (Inr (pid, b), a\<lparr>a_trace := a_trace a @ [Spawn pid]\<rparr>)"
        using ok by (auto simp: launch_def isl_def Let_def emit_def split: sum.split)
      then show ?thesis using launched ok(4) by blast
    qed
  qed
qed

section \<open>Specification vocabulary\<close>

text \<open>The processes that are alive after a trace: spawned and neither killed nor reaped.\<close>

fun live_step :: "Effect \<Rightarrow> nat set \<Rightarrow> nat set" where
  "live_step (Spawn p) L = insert p L"
| "live_step (KillChild p) L = L - {p}"
| "live_step (Reaped p) L = L - {p}"
| "live_step _ L = L"

definition live :: "Effect list \<Rightarrow> nat set" where
  "live tr = fold live_step tr {}"

definition at_most_one_live :: "Effect list \<Rightarrow> bool" where
  "at_most_one_live tr \<longleftrightarrow> (\<forall>n \<le> length tr. card (live (take n tr)) \<le> 1)"

text \<open>
  The state an observer of the published events computes: every \<open>StateChanged\<close> must start from
  the state the previous one ended in.
\<close>

fun observe_step :: "Effect \<Rightarrow> ProgramState option \<Rightarrow> ProgramState option" where
  "observe_step (Publish (StateChanged _ _ old new _ _ _ _)) s = (if s = Some old then Some new else None)"
| "observe_step _ s = s"

definition observed_state :: "Effect list \<Rightarrow> ProgramState option" where
  "observed_state tr = fold observe_step tr (Some Stopped)"

definition child_pids :: "ProgramActor \<Rightarrow> nat set" where
  "child_pids a = (case a_child a of None \<Rightarrow> {} | Some c \<Rightarrow> {ch_pid c})"

lemma live_append [simp]: "live (tr @ es) = fold live_step es (live tr)"
  by (simp add: live_def)

lemma live_Nil [simp]: "live [] = {}"
  by (simp add: live_def)

lemma live_append_quiet:
  "\<forall>e \<in> set xs. \<nexists>p. e \<in> {Spawn p, Reaped p, KillChild p} \<Longrightarrow> fold live_step xs L = L"
proof (induction xs arbitrary: L)
  case (Cons x xs)
  then have "live_step x L = L" by (cases x) auto
  then show ?case using Cons by simp
qed simp

lemma finite_live [simp]: "finite (live tr)"
proof (induction tr rule: rev_induct)
  case (snoc e tr)
  then show ?case by (cases e) auto
qed simp

lemma at_most_one_live_snoc:
  "at_most_one_live (tr @ [e]) \<longleftrightarrow> at_most_one_live tr \<and> card (live_step e (live tr)) \<le> 1"
  by (simp add: at_most_one_live_def le_Suc_eq all_conj_distrib)

lemma at_most_one_liveD: "at_most_one_live tr \<Longrightarrow> card (live tr) \<le> 1"
  using at_most_one_live_def by force

lemma at_most_one_live_keep:
  "at_most_one_live tr \<Longrightarrow> \<nexists>p. e = Spawn p \<Longrightarrow> at_most_one_live (tr @ [e])"
  using at_most_one_liveD [of tr]
  by (cases e) (auto simp: at_most_one_live_snoc intro: order_trans [OF card_Diff1_le])

lemma at_most_one_live_append_quiet:
  "at_most_one_live tr \<Longrightarrow> \<forall>e \<in> set xs. \<nexists>p. e = Spawn p \<Longrightarrow> at_most_one_live (tr @ xs)"
proof (induction xs rule: rev_induct)
  case (snoc x xs)
  then show ?case using at_most_one_live_keep [of "tr @ xs" x] by simp
qed simp

lemma observed_state_append [simp]:
  "observed_state (tr @ es) = fold observe_step es (observed_state tr)"
  by (simp add: observed_state_def)


section \<open>Spawning and stopping: summary lemmas\<close>

lemma update_status_live [simp]: "live (a_trace (update_status s p e d a)) = live (a_trace a)"
  by (simp add: update_status_trace)


lemma update_status_one [simp]:
  "at_most_one_live (a_trace a) \<Longrightarrow> at_most_one_live (a_trace (update_status s p e d a))"
  by (simp add: update_status_trace at_most_one_live_append_quiet)

lemma drop_child_live [simp]:
  "live (a_trace (drop_child env reaped p a)) =
     (if reaped then live (a_trace a) else live (a_trace a) - {p})"
  by (simp add: drop_child_def)


lemma drop_child_one [simp]:
  "at_most_one_live (a_trace a) \<Longrightarrow> at_most_one_live (a_trace (drop_child env reaped p a))"
  by (simp add: drop_child_def at_most_one_live_append_quiet)

lemma pre_stop_phase_trace:
  obtains xs where "a_trace (pre_stop_phase env a) = a_trace a @ xs"
    "\<forall>e \<in> set xs. \<nexists>p. e \<in> {Spawn p, Reaped p, KillChild p}"
proof (cases "c_pre_stop (a_config a)")
  case None
  then show ?thesis using that [of "[]"] by (simp add: pre_stop_phase_def)
next
  case (Some hook)
  show ?thesis
  proof (cases "run_hook (env_pre_stop env) (c_hook_timeout_secs (a_config a))")
    case (Inl err)
    then show ?thesis
      using Some that [of "[Publish (ProcessPreStop (a_name a) (a_group a) hook), RunHook hook,
        Publish (ProcessPreStopFailed (a_name a) (a_group a) err)]"]
      by (simp add: pre_stop_phase_def emit_def)
  next
    case (Inr u)
    then show ?thesis
      using Some that [of "[Publish (ProcessPreStop (a_name a) (a_group a) hook), RunHook hook]"]
      by (simp add: pre_stop_phase_def emit_def)
  qed
qed

lemma pre_stop_phase_effects [simp]:
  "live (a_trace (pre_stop_phase env a)) = live (a_trace a)"
  "at_most_one_live (a_trace a) \<Longrightarrow> at_most_one_live (a_trace (pre_stop_phase env a))"
  by (rule pre_stop_phase_trace [of env a];
      auto simp: live_append_quiet at_most_one_live_append_quiet)+

lemma terminate_effects [simp]:
  "live (a_trace (snd (terminate env g p a))) = live (a_trace a) - {p}"
  "at_most_one_live (a_trace a) \<Longrightarrow> at_most_one_live (a_trace (snd (terminate env g p a)))"
  by (simp_all add: terminate_def Let_def at_most_one_live_append_quiet
      split: option.split sum.split)

lemma stop_current_child_live [simp]:
  "live (a_trace (stop_current_child env g a)) = live (a_trace a) - child_pids a"
  by (auto simp: stop_current_child_def child_pids_def Let_def split_beta split: option.split)


lemma stop_current_child_one [simp]:
  "at_most_one_live (a_trace a) \<Longrightarrow> at_most_one_live (a_trace (stop_current_child env g a))"
  by (auto simp: stop_current_child_def Let_def split_beta at_most_one_live_keep
      split: option.split)

text \<open>
  \<open>spawn_child\<close> has four outcomes: it refuses and changes nothing; the pre-start hook fails and
  the state becomes fatal; the launch fails and the status is left as it was; or a child is
  registered. In the last three the previous child is gone.
\<close>

definition spawn_base :: "ProgramActor \<Rightarrow> Effect list \<Rightarrow> ProgramActor" where
  "spawn_base a tr = a\<lparr>a_manual_stop := False, a_child := None, a_trace := tr\<rparr>"

definition spawn_phases :: "Env \<Rightarrow> ProgramActor \<Rightarrow> unit result \<times> ProgramActor" where
  "spawn_phases env a =
     (case pre_start_phase env a of
        (Inl e, a) \<Rightarrow> (Inl e, a)
      | (Inr _, a) \<Rightarrow>
          (case launch env a of
             (Inl e, a) \<Rightarrow> (Inl e, a)
           | (Inr (pid, has_stdin), a) \<Rightarrow> (Inr (), register_child env pid has_stdin a)))"

lemma spawn_base_trace [simp]: "a_trace (spawn_base a tr) = tr"
  by (simp add: spawn_base_def)

lemma spawn_base_upd: "(spawn_base a tr)\<lparr>a_trace := tr'\<rparr> = spawn_base a tr'"
  by (simp add: spawn_base_def)

lemma spawn_child_phases:
  assumes "\<not> a_is_shutting_down a" and "a_child a = None \<or> env_prev_exited env"
  obtains tr where "spawn_child env a = spawn_phases env (spawn_base a tr)"
    "live tr = live (a_trace a) - child_pids a"
    "at_most_one_live (a_trace a) \<Longrightarrow> at_most_one_live tr"
proof (cases rule: reap_previous_cases [of a env])
  case refused
  then show ?thesis using assms(2) by simp
next
  case clean
  then have "a\<lparr>a_manual_stop := False\<rparr> = spawn_base a (a_trace a)"
    by (cases a) (simp add: spawn_base_def)
  then have "spawn_child env a = spawn_phases env (spawn_base a (a_trace a))"
    using assms(1) clean(2) by (simp add: spawn_child_def spawn_phases_def)
  then show ?thesis using that clean(1) by (simp add: child_pids_def)
next
  case (reaped c)
  let ?tr = "a_trace a @ [Reaped (ch_pid c), DrainPumps (ch_pid c)]"
  have "a\<lparr>a_trace := ?tr, a_child := None, a_manual_stop := False\<rparr> = spawn_base a ?tr"
    by (cases a) (simp add: spawn_base_def)
  then have "spawn_child env a = spawn_phases env (spawn_base a ?tr)"
    using assms(1) reaped(3) by (simp add: spawn_child_def spawn_phases_def)
  then show ?thesis using that [of ?tr] reaped(1)
    by (simp add: child_pids_def at_most_one_live_append_quiet)
qed

lemma spawn_phases_cases:
  obtains
    (ph_fatal) e d tr' where
      "spawn_phases env (spawn_base a tr) =
         (Inl e, update_status Fatal None None d (spawn_base a tr'))"
      "live tr' = live tr"
      "at_most_one_live tr \<Longrightarrow> at_most_one_live tr'"
  | (ph_failed) e tr' where "spawn_phases env (spawn_base a tr) = (Inl e, spawn_base a tr')"
      "live tr' \<subseteq> live tr"
      "\<And>q. q \<in> live tr \<Longrightarrow> q \<notin> live tr' \<Longrightarrow> \<exists>b. env_spawn env = Inr (Some q, b)"
      "at_most_one_live tr \<Longrightarrow> live tr = {} \<Longrightarrow> at_most_one_live tr'"
  | (ph_spawned) pid b tr' where
      "spawn_phases env (spawn_base a tr) = (Inr (), register_child env pid b (spawn_base a tr'))"
      "env_spawn env = Inr (Some pid, b)"
      "live tr' = insert pid (live tr)"
      "at_most_one_live tr \<Longrightarrow> live tr = {} \<Longrightarrow> at_most_one_live tr'"
proof (cases rule: pre_start_phase_cases [of env "spawn_base a tr"])
  case (failed err xs)
  then show ?thesis
    using ph_fatal [of "PreStartHookFailed (a_name (spawn_base a tr)) err"
        "''pre_start hook failed: '' @ err" "tr @ xs"]
    by (simp add: spawn_phases_def spawn_base_upd live_append_quiet
        at_most_one_live_append_quiet)
next
  case (passed xs)
  let ?tr = "tr @ xs"
  have lv: "live ?tr = live tr"
    and one: "at_most_one_live tr \<Longrightarrow> at_most_one_live ?tr"
    using passed by (simp_all add: live_append_quiet at_most_one_live_append_quiet)
  have one': "at_most_one_live (?tr @ [Spawn p])" if "at_most_one_live tr" "live tr = {}" for p
    using one [OF that(1)] lv that(2) by (simp only: at_most_one_live_snoc) simp
  have sp: "spawn_phases env (spawn_base a tr) =
      (case launch env (spawn_base a ?tr) of
         (Inl e, a) \<Rightarrow> (Inl e, a)
       | (Inr (pid, has_stdin), a) \<Rightarrow> (Inr (), register_child env pid has_stdin a))"
    using passed(1) by (simp add: spawn_phases_def spawn_base_upd)
  show ?thesis
  proof (cases rule: launch_cases [of env "spawn_base a ?tr"])
    case (failed e)
    then show ?thesis using sp lv one by (intro ph_failed [of e ?tr]) simp_all
  next
    case (aborted e pid b)
    have "at_most_one_live ((?tr @ [Spawn pid]) @ [KillChild pid])"
      if "at_most_one_live tr" "live tr = {}"
      by (rule at_most_one_live_keep [OF one' [OF that]]) simp
    moreover have "live (?tr @ [Spawn pid, KillChild pid]) = live tr - {pid}" using lv by simp
    ultimately show ?thesis using aborted sp
      by (intro ph_failed [of e "?tr @ [Spawn pid, KillChild pid]"]) (simp_all add: spawn_base_upd)
  next
    case (launched pid b)
    then show ?thesis using sp lv one'
      by (intro ph_spawned [of pid b "?tr @ [Spawn pid]"]) (simp_all add: spawn_base_upd)
  qed
qed

lemma spawn_child_cases:
  obtains
    (refused) e where "spawn_child env a = (Inl e, a)"
      "a_is_shutting_down a \<or> (\<exists>c. a_child a = Some c \<and> \<not> env_prev_exited env)"
  | (fatal) e d tr where
      "spawn_child env a = (Inl e, update_status Fatal None None d (spawn_base a tr))"
      "\<not> a_is_shutting_down a"
      "live tr = live (a_trace a) - child_pids a"
      "at_most_one_live (a_trace a) \<Longrightarrow> at_most_one_live tr"
  | (failed) e tr where "spawn_child env a = (Inl e, spawn_base a tr)"
      "\<not> a_is_shutting_down a"
      "live tr \<subseteq> live (a_trace a) - child_pids a"
      "\<And>q. q \<in> live (a_trace a) - child_pids a \<Longrightarrow> q \<notin> live tr \<Longrightarrow>
         \<exists>b. env_spawn env = Inr (Some q, b)"
      "at_most_one_live (a_trace a) \<Longrightarrow> live (a_trace a) \<subseteq> child_pids a \<Longrightarrow> at_most_one_live tr"
  | (spawned) pid b tr where
      "spawn_child env a = (Inr (), register_child env pid b (spawn_base a tr))"
      "\<not> a_is_shutting_down a" "env_spawn env = Inr (Some pid, b)"
      "live tr = insert pid (live (a_trace a) - child_pids a)"
      "at_most_one_live (a_trace a) \<Longrightarrow> live (a_trace a) \<subseteq> child_pids a \<Longrightarrow> at_most_one_live tr"
proof (cases "a_is_shutting_down a \<or> (\<exists>c. a_child a = Some c \<and> \<not> env_prev_exited env)")
  case True
  then have "\<exists>e. spawn_child env a = (Inl e, a)"
    by (auto simp: spawn_child_def reap_previous_def)
  then show ?thesis using refused True by blast
next
  case False
  then have ns: "\<not> a_is_shutting_down a" and ok: "a_child a = None \<or> env_prev_exited env"
    by auto
  obtain tr where tr: "spawn_child env a = spawn_phases env (spawn_base a tr)"
    "live tr = live (a_trace a) - child_pids a"
    "at_most_one_live (a_trace a) \<Longrightarrow> at_most_one_live tr"
    using spawn_child_phases [OF ns ok] by blast
  show ?thesis
  proof (cases rule: spawn_phases_cases [of env a tr])
    case (ph_fatal e d tr')
    then show ?thesis using fatal [of e d tr'] ns tr by simp
  next
    case (ph_failed e tr')
    have "at_most_one_live tr'" if "at_most_one_live (a_trace a)" "live (a_trace a) \<subseteq> child_pids a"
      using ph_failed(4) tr(2,3) that by blast
    then show ?thesis using ph_failed(1-3) tr(1-2) ns by (intro failed [of e tr']) simp_all
  next
    case (ph_spawned pid b tr')
    have "at_most_one_live tr'" if "at_most_one_live (a_trace a)" "live (a_trace a) \<subseteq> child_pids a"
      using ph_spawned(4) tr(2,3) that by blast
    then show ?thesis using ph_spawned(1-3) tr(1-2) ns
      by (intro spawned [of pid b tr']) simp_all
  qed
qed

lemma spawn_base_frame [simp, actor_simps]:
  "a_config (spawn_base a tr) = a_config a" "a_status (spawn_base a tr) = a_status a"
  "a_child (spawn_base a tr) = None" "a_retry_count (spawn_base a tr) = a_retry_count a"
  "a_manual_stop (spawn_base a tr) = False"
  "a_is_shutting_down (spawn_base a tr) = a_is_shutting_down a"
  "a_backoff_deadline (spawn_base a tr) = a_backoff_deadline a"
  "a_spawn_seq (spawn_base a tr) = a_spawn_seq a"
  "a_start_deadline (spawn_base a tr) = a_start_deadline a"
  "a_cancelled (spawn_base a tr) = a_cancelled a" "a_done (spawn_base a tr) = a_done a"
  by (simp_all add: spawn_base_def)

lemma register_child_frame [simp, actor_simps]:
  "a_config (register_child env p b a) = a_config a"
  "a_child (register_child env p b a) =
     Some \<lparr>ch_pid = p, ch_marked_running = (c_start_secs (a_config a) = 0)\<rparr>"
  "a_started_at (register_child env p b a) = Some (env_started env)"
  "a_retry_count (register_child env p b a) = a_retry_count a"
  "a_manual_stop (register_child env p b a) = a_manual_stop a"
  "a_is_shutting_down (register_child env p b a) = a_is_shutting_down a"
  "a_backoff_deadline (register_child env p b a) = a_backoff_deadline a"
  "a_spawn_seq (register_child env p b a) = a_spawn_seq a + 1"
  "a_start_deadline (register_child env p b a) = a_start_deadline a"
  "a_cancelled (register_child env p b a) = a_cancelled a"
  "a_done (register_child env p b a) = a_done a"
  by (simp_all add: register_child_def Let_def)

lemma register_child_status [simp, actor_simps]:
  "s_state (a_status (register_child env p b a)) =
     (if c_start_secs (a_config a) = 0 then Running else Starting)"
  "s_pid (a_status (register_child env p b a)) = Some p"
  "s_exit_code (a_status (register_child env p b a)) = None"
  "s_health (a_status (register_child env p b a)) =
     (if c_health_check (a_config a) \<noteq> None then HealthStarting else HealthNone)"
  by (simp_all add: register_child_def Let_def)

lemma register_child_effects [simp]:
  "live (a_trace (register_child env p b a)) = live (a_trace a)"
  "at_most_one_live (a_trace a) \<Longrightarrow> at_most_one_live (a_trace (register_child env p b a))"
  by (simp_all add: register_child_def Let_def)

lemma register_child_pids [simp]: "child_pids (register_child env p b a) = {p}"
  by (simp add: child_pids_def)

lemma spawn_child_frame [simp, actor_simps]:
  "a_config (snd (spawn_child env a)) = a_config a"
  "a_retry_count (snd (spawn_child env a)) = a_retry_count a"
  "a_is_shutting_down (snd (spawn_child env a)) = a_is_shutting_down a"
  "a_backoff_deadline (snd (spawn_child env a)) = a_backoff_deadline a"
  "a_start_deadline (snd (spawn_child env a)) = a_start_deadline a"
  "a_cancelled (snd (spawn_child env a)) = a_cancelled a"
  "a_done (snd (spawn_child env a)) = a_done a"
  by (cases rule: spawn_child_cases [of env a]; simp)+

section \<open>Properties of what an actor publishes\<close>

text \<open>
  A property of an actor that depends only on its configuration, its trace and its current
  state, that no effect other than a state change can break and that \<open>update_status\<close> keeps,
  is kept by every iteration of the event loop. The locale states this once.
\<close>

fun is_state_change :: "Effect \<Rightarrow> bool" where
  "is_state_change (Publish (StateChanged _ _ _ _ _ _ _ _)) = True"
| "is_state_change _ = False"

fun own_effect :: "ProgramActor \<Rightarrow> Effect \<Rightarrow> bool" where
  "own_effect a (Publish ev) = (event_program_name ev = Some (a_name a))"
| "own_effect a _ = True"

locale actor_property =
  fixes P :: "ProgramActor \<Rightarrow> bool"
  assumes frame: "\<lbrakk>P a; a_config b = a_config a; a_trace b = a_trace a; a_state b = a_state a\<rbrakk> \<Longrightarrow> P b"
    and emit: "\<lbrakk>P a; \<not> is_state_change e; own_effect a e\<rbrakk> \<Longrightarrow> P (emit e a)"
    and update: "P a \<Longrightarrow> P (update_status s p x d a)"
begin

lemma upd [simp]:
  "P (a\<lparr>a_manual_stop := m\<rparr>) = P a" "P (a\<lparr>a_retry_count := r\<rparr>) = P a"
  "P (a\<lparr>a_backoff_deadline := bd\<rparr>) = P a" "P (a\<lparr>a_start_deadline := sd\<rparr>) = P a"
  "P (a\<lparr>a_is_shutting_down := sh\<rparr>) = P a" "P (a\<lparr>a_cancelled := ca\<rparr>) = P a"
  "P (a\<lparr>a_done := dn\<rparr>) = P a" "P (a\<lparr>a_child := ch\<rparr>) = P a"
  "P (a\<lparr>a_started_at := sa\<rparr>) = P a" "P (a\<lparr>a_stdin_open := so\<rparr>) = P a"
  "P (a\<lparr>a_spawn_seq := sq\<rparr>) = P a"
  "P (a\<lparr>a_status := (a_status a)\<lparr>s_health := h, s_is_healthy := b\<rparr>\<rparr>) = P a"
  "P (a\<lparr>a_status := (a_status a)\<lparr>s_health := h, s_is_healthy := b, s_uptime_secs := u\<rparr>\<rparr>) = P a"
  "P (a\<lparr>a_status := (a_status a)\<lparr>s_metrics := mt\<rparr>\<rparr>) = P a"
  by (rule iffI; erule frame; simp)+

lemma drop_child: "P a \<Longrightarrow> P (drop_child env x p a)"
  by (simp add: drop_child_def emit)

lemma reap: "P a \<Longrightarrow> P (snd (reap_previous env a))"
  by (simp add: reap_previous_def drop_child emit split: option.split)

lemma pre_start: "P a \<Longrightarrow> P (snd (pre_start_phase env a))"
  by (simp add: pre_start_phase_def Let_def emit update split: option.split sum.split)

lemma launch: "P a \<Longrightarrow> P (snd (launch env a))"
  by (simp add: launch_def Let_def emit split: sum.split option.split prod.split)

lemma register: "P a \<Longrightarrow> P (register_child env pid b a)"
  by (simp add: register_child_def Let_def update)

lemma spawn: "P a \<Longrightarrow> P (snd (spawn_child env a))"
  using reap [of a env] pre_start [of "snd (reap_previous env a)\<lparr>a_manual_stop := False\<rparr>" env]
    launch [of "snd (pre_start_phase env (snd (reap_previous env a)\<lparr>a_manual_stop := False\<rparr>))" env]
  by (auto simp: spawn_child_def register split: prod.split sum.split)

lemma pre_stop: "P a \<Longrightarrow> P (pre_stop_phase env a)"
  by (simp add: pre_stop_phase_def Let_def emit split: option.split sum.split)

lemma terminate: "P a \<Longrightarrow> P (snd (terminate env g p a))"
  by (simp add: terminate_def Let_def emit split: option.split sum.split)

lemma stop: "P a \<Longrightarrow> P (stop_current_child env g a)"
  by (simp add: stop_current_child_def Let_def split_beta drop_child update emit terminate pre_stop
      split: option.split)

lemma try_spawn:
  assumes "P a" and "\<And>e a. P a \<Longrightarrow> P (f (on_err e a))" and "\<And>a. P a \<Longrightarrow> P (f (on_ok a))"
  shows "P (f (try_spawn env a on_err on_ok))"
  using assms spawn [OF assms(1), of env]
  by (simp add: try_spawn_def split_beta split: sum.split)

lemma command: "P a \<Longrightarrow> P (snd (handle_command env cmd a))"
  by (cases cmd) (simp_all add: handle_command_def Let_def spawn stop emit split: option.split)

lemma child_exit:
  assumes "P a" shows "P (snd (handle_child_exit env res a))"
proof -
  let ?a = "a\<lparr>a_started_at := None, a_stdin_open := False, a_child := None\<rparr>"
  have "P (startup_failure env code b)" if "P b" for code b
    using that by (simp add: startup_failure_def Let_def update)
  moreover have "P (snd (running_exit env code b))" if "P b" for code b
    using that by (simp add: running_exit_def Let_def update try_spawn)
  moreover have "P (emit (DrainPumps p) (if isl res then ?a else emit (Reaped p) ?a))" for p
    using assms by (simp add: emit)
  ultimately show ?thesis
    using assms by (cases "a_child a")
      (simp_all add: handle_child_exit_def Let_def split_beta update drop_child)
qed

lemma health: "P a \<Longrightarrow> P (health_branch env ev a)"
  by (cases ev) (simp_all add: health_branch_def Let_def emit update stop
      try_spawn [where f = "\<lambda>x. x"])

lemma step:
  assumes "P a" and "run_step env inp a = Some a'"
  shows "P a'"
proof -
  have "P (cancel_branch env a)"
    using assms(1) by (simp add: cancel_branch_def Let_def update stop)
  moreover have "P (snd (command_branch env cmd a))" for cmd
    using command [OF assms(1)] by (simp add: command_branch_def Let_def split_beta)
  moreover have "P (backoff_branch env a)"
    using assms(1)
    by (simp add: backoff_branch_def Let_def update try_spawn [where f = "\<lambda>x. x"])
  moreover have "P (metrics_branch env a)"
    using assms(1) by (simp add: metrics_branch_def split: option.split sum.split)
  moreover have "P (exit_branch env res a)" for res
    using child_exit [of "a\<lparr>a_start_deadline := None\<rparr>" env res] assms(1)
    by (simp add: exit_branch_def split_beta)
  moreover have "P (start_deadline_branch env a)"
    using assms(1) by (simp add: start_deadline_branch_def Let_def update split: option.split)
  ultimately show ?thesis
    using assms health [OF assms(1)]
    by (auto simp: run_step_def split: if_splits ActorInput.splits option.splits)
qed

lemma reach:
  assumes "reachable allowed c a" and "P (actor_new c)"
  shows "P a"
  using assms by (induction rule: reachable.induct) (auto intro: step)

end

definition observed_inv :: "ProgramActor \<Rightarrow> bool" where
  "observed_inv a \<longleftrightarrow> observed_state (a_trace a) = Some (a_state a)"

definition named_inv :: "ProgramActor \<Rightarrow> bool" where
  "named_inv a \<longleftrightarrow> (\<forall>e \<in> set (a_trace a). own_effect a e)"

definition extends_inv :: "ProgramConfig \<Rightarrow> Effect list \<Rightarrow> ProgramActor \<Rightarrow> bool" where
  "extends_inv c tr a \<longleftrightarrow> a_config a = c \<and> take (length tr) (a_trace a) = tr"

lemma observe_step_quiet: "\<not> is_state_change e \<Longrightarrow> observe_step e s = s"
  by (cases "(e, s)" rule: observe_step.cases) auto

lemma own_effect_cong: "a_config b = a_config a \<Longrightarrow> own_effect b e = own_effect a e"
  by (cases e) auto

interpretation observed: actor_property observed_inv
  by unfold_locales (auto simp: observed_inv_def observe_step_quiet update_status_trace)

interpretation named: actor_property named_inv
proof unfold_locales
  fix a b :: ProgramActor
  assume "named_inv a" "a_config b = a_config a" "a_trace b = a_trace a"
  then show "named_inv b" using own_effect_cong [of b a] by (simp add: named_inv_def)
next
  fix a e assume "named_inv a" "own_effect a e"
  then show "named_inv (emit e a)" by (auto simp: named_inv_def own_effect_cong [of "emit e a" a])
next
  fix a s p x d assume "named_inv a"
  then show "named_inv (update_status s p x d a)"
    by (auto simp: named_inv_def update_status_trace own_effect_cong [of "update_status s p x d a" a])
qed

interpretation extends: actor_property "extends_inv c tr"
proof unfold_locales
  fix a e assume "extends_inv c tr a"
  moreover from this have "length tr \<le> length (a_trace a)"
    unfolding extends_inv_def by (metis length_take min.absorb_iff2 min.commute nle_le take_all)
  ultimately show "extends_inv c tr (emit e a)" by (simp add: extends_inv_def)
next
  fix a s p x d assume "extends_inv c tr a"
  moreover from this have "length tr \<le> length (a_trace a)"
    unfolding extends_inv_def by (metis length_take min.absorb_iff2 min.commute nle_le take_all)
  ultimately show "extends_inv c tr (update_status s p x d a)"
    by (simp add: extends_inv_def update_status_trace)
qed (simp add: extends_inv_def)

end
