(* ===== verification/Actor_Safety.thy ===== *)
theory Actor_Safety
  imports Program_Actor
begin

text \<open>
  Safety and progress of the program actor: the invariant of the reachable states, the
  bookkeeping of operating system processes, what a stop, a crash and a shutdown lead to, and
  the chain of published state changes.
\<close>

section \<open>The processes that are alive\<close>

text \<open>
  \<open>L\<close> is a set of processes that the actor no longer owns but has not killed yet; it is only
  nonempty inside \<open>handle_child_exit\<close> after a failed wait.
\<close>

definition live_inv :: "nat set \<Rightarrow> ProgramActor \<Rightarrow> bool" where
  "live_inv L a \<longleftrightarrow> live (a_trace a) = child_pids a \<union> L \<and> child_pids a \<inter> L = {}"

lemma live_inv_frame:
  "live_inv L a \<Longrightarrow> a_trace b = a_trace a \<Longrightarrow> a_child b = a_child a \<Longrightarrow> live_inv L b"
  by (simp add: live_inv_def child_pids_def)

lemma live_inv_upd [simp]:
  "live_inv L (a\<lparr>a_manual_stop := m\<rparr>) = live_inv L a" "live_inv L (a\<lparr>a_retry_count := r\<rparr>) = live_inv L a"
  "live_inv L (a\<lparr>a_backoff_deadline := bd\<rparr>) = live_inv L a"
  "live_inv L (a\<lparr>a_start_deadline := sd\<rparr>) = live_inv L a"
  "live_inv L (a\<lparr>a_is_shutting_down := sh\<rparr>) = live_inv L a"
  "live_inv L (a\<lparr>a_cancelled := ca\<rparr>) = live_inv L a" "live_inv L (a\<lparr>a_done := dn\<rparr>) = live_inv L a"
  "live_inv L (a\<lparr>a_status := st\<rparr>) = live_inv L a"
  by (simp_all add: live_inv_def child_pids_def)

lemma update_status_live_inv [simp]: "live_inv L (update_status s p x d a) = live_inv L a"
  by (simp add: live_inv_def child_pids_def)

lemma emit_live_inv [simp]:
  "\<nexists>p. e \<in> {Spawn p, Reaped p, KillChild p} \<Longrightarrow> live_inv L (emit e a) = live_inv L a"
  using live_append_quiet [of "[e]"] by (simp add: live_inv_def child_pids_def)

lemma stop_live_inv: "live_inv {} a \<Longrightarrow> live_inv {} (stop_current_child env g a)"
  by (simp add: live_inv_def child_pids_def)

lemma spawn_live_inv:
  assumes "live_inv L a" and "\<And>p b. env_spawn env = Inr (Some p, b) \<Longrightarrow> p \<notin> L"
  shows "live_inv L (snd (spawn_child env a))"
proof (cases rule: spawn_child_cases [of env a])
  case refused
  then show ?thesis using assms(1) by simp
next
  case (fatal e d tr)
  then show ?thesis using assms(1) by (auto simp: live_inv_def child_pids_def)
next
  case (failed e tr)
  have "L = live (a_trace a) - child_pids a" using assms(1) by (auto simp: live_inv_def)
  then have "live tr = L" using failed(3,4) assms(2) by blast
  then show ?thesis using failed(1) by (simp add: live_inv_def child_pids_def)
next
  case (spawned pid b tr)
  then have "live tr = insert pid L" "pid \<notin> L" using assms by (auto simp: live_inv_def)
  then show ?thesis using spawned(1) by (simp add: live_inv_def)
qed

lemma try_spawn_live_inv:
  assumes "live_inv L a" and "\<And>p b. env_spawn env = Inr (Some p, b) \<Longrightarrow> p \<notin> L"
    and "\<And>e a. live_inv L a \<Longrightarrow> live_inv L (f (on_err e a))"
    and "\<And>a. live_inv L a \<Longrightarrow> live_inv L (f (on_ok a))"
  shows "live_inv L (f (try_spawn env a on_err on_ok))"
  using assms(3,4) spawn_live_inv [OF assms(1,2)]
  by (simp add: try_spawn_def split_beta split: sum.split)

lemma command_live_inv: "live_inv {} a \<Longrightarrow> live_inv {} (snd (handle_command env cmd a))"
  by (cases cmd)
    (simp_all add: handle_command_def Let_def spawn_live_inv stop_live_inv split: option.split)

lemma exit_tail_live_inv:
  assumes "live_inv L b" and "\<And>p b. env_spawn env = Inr (Some p, b) \<Longrightarrow> p \<notin> L"
  shows "live_inv L (startup_failure env code b)" and "live_inv L (snd (running_exit env code b))"
  using assms by (simp_all add: startup_failure_def running_exit_def Let_def try_spawn_live_inv)

lemma drop_live_inv:
  "live_inv (if reaped then {} else {p}) a \<Longrightarrow> live_inv {} (drop_child env reaped p a)"
  by (auto simp: live_inv_def child_pids_def split: if_splits)

lemma child_exit_live_inv:
  assumes "live_inv {} a" and "pid_fresh env (InChildExit res) a"
  shows "live_inv {} (snd (handle_child_exit env res a))"
proof (cases "a_child a")
  case None
  then have "live_inv {} (a\<lparr>a_started_at := None, a_stdin_open := False, a_child := None\<rparr>)"
    using assms(1) by (simp add: live_inv_def child_pids_def)
  then show ?thesis using None
    by (simp add: handle_child_exit_def Let_def exit_tail_live_inv)
next
  case (Some c)
  let ?L = "if \<not> isl res then {} else {ch_pid c}"
  let ?b = "emit (DrainPumps (ch_pid c))
    (if isl res then a\<lparr>a_started_at := None, a_stdin_open := False, a_child := None\<rparr>
     else emit (Reaped (ch_pid c))
            (a\<lparr>a_started_at := None, a_stdin_open := False, a_child := None\<rparr>))"
  have b: "live_inv ?L ?b" using assms(1) Some by (simp add: live_inv_def child_pids_def)
  have fresh: "p \<notin> ?L" if "env_spawn env = Inr (Some p, x)" for p x
    using assms(2) Some that by (cases res) (auto simp: pid_fresh_def)
  show ?thesis
    using Some b exit_tail_live_inv [OF b fresh]
    by (simp add: handle_child_exit_def Let_def split_beta drop_live_inv del: if_not_P)
qed

lemma pid_fresh_upd [simp]:
  "pid_fresh env inp (a\<lparr>a_start_deadline := sd\<rparr>) = pid_fresh env inp a"
  by (simp add: pid_fresh_def split: ActorInput.split sum.split)

lemma run_step_live_inv:
  assumes "live_inv {} a" and "pid_fresh env inp a" and "run_step env inp a = Some a'"
  shows "live_inv {} a'"
proof -
  have "live_inv {} (cancel_branch env a)"
    using assms(1) by (simp add: cancel_branch_def Let_def stop_live_inv)
  moreover have "live_inv {} (snd (command_branch env cmd a))" for cmd
    using command_live_inv [OF assms(1)] by (simp add: command_branch_def Let_def split_beta)
  moreover have "live_inv {} (health_branch env ev a)" for ev
    using assms(1) by (cases ev) (simp_all add: health_branch_def Let_def stop_live_inv
        try_spawn_live_inv [where f = "\<lambda>x. x"])
  moreover have "live_inv {} (backoff_branch env a)"
    using assms(1) by (simp add: backoff_branch_def Let_def try_spawn_live_inv [where f = "\<lambda>x. x"])
  moreover have "live_inv {} (metrics_branch env a)"
    using assms(1) by (simp add: metrics_branch_def split: option.split sum.split)
  moreover have "live_inv {} (exit_branch env res a)" if "inp = InChildExit res" for res
    using child_exit_live_inv [of "a\<lparr>a_start_deadline := None\<rparr>" env res] assms(1,2) that
    by (simp add: exit_branch_def split_beta)
  moreover have "live_inv {} (start_deadline_branch env a)"
    using assms(1) by (simp add: start_deadline_branch_def Let_def split: option.split)
      (simp add: live_inv_def child_pids_def)
  ultimately show ?thesis
    using assms(1,3) by (auto simp: run_step_def split: if_splits ActorInput.splits option.splits)
qed

section \<open>The state invariant\<close>

text \<open>A status that reports no running process carries no health, metrics or uptime.\<close>

definition quiet_status :: "ProgramStatus \<Rightarrow> bool" where
  "quiet_status st \<longleftrightarrow> s_state st \<in> {Running, Starting} \<or>
     (s_pid st = None \<and> s_health st = HealthNone \<and> \<not> s_is_healthy st \<and> s_metrics st = None \<and>
      s_uptime_secs st = None)"

text \<open>What the actor guarantees whether or not it has a child.\<close>

definition mode_inv :: "ProgramActor \<Rightarrow> bool" where
  "mode_inv a \<longleftrightarrow>
     (a_is_shutting_down a \<longrightarrow> a_manual_stop a) \<and>
     (a_manual_stop a \<longrightarrow> a_child a = None \<and> a_state a = Stopped \<and> a_backoff_deadline a = None) \<and>
     (a_backoff_deadline a \<noteq> None \<longrightarrow> a_child a = None \<and> a_state a = Backoff) \<and>
     (a_child a \<noteq> None \<or> a_backoff_deadline a \<noteq> None \<longrightarrow>
        a_retry_count a \<le> c_start_retries (a_config a)) \<and>
     a_retry_count a \<le> Suc (c_start_retries (a_config a)) \<and>
     a_state a \<noteq> Stopping \<and> quiet_status (a_status a) \<and>
     (a_done a \<longrightarrow> a_is_shutting_down a)"

text \<open>What it guarantees about its child.\<close>

definition child_inv :: "ProgramActor \<Rightarrow> bool" where
  "child_inv a \<longleftrightarrow>
     (a_child a = None \<longrightarrow> a_start_deadline a = None \<or> a_done a) \<and>
     (\<forall>c. a_child a = Some c \<longrightarrow>
        s_pid (a_status a) = Some (ch_pid c) \<and>
        a_state a = (if ch_marked_running c then Running else Starting) \<and>
        a_started_at a \<noteq> None \<and> (ch_marked_running c \<longrightarrow> a_start_deadline a = None))"

definition state_inv :: "ProgramActor \<Rightarrow> bool" where
  "state_inv a \<longleftrightarrow> mode_inv a \<and> child_inv a"

lemmas state_inv_defs = state_inv_def mode_inv_def child_inv_def quiet_status_def

lemma update_status_quiet:
  "s \<in> {Running, Starting} \<or> p = None \<Longrightarrow> quiet_status (a_status (update_status s p x d a))"
  by (auto simp: quiet_status_def)

text \<open>A state from which a child may be spawned.\<close>

definition spawn_pre :: "ProgramActor \<Rightarrow> bool" where
  "spawn_pre a \<longleftrightarrow> \<not> a_is_shutting_down a \<and> a_backoff_deadline a = None \<and>
     a_retry_count a \<le> c_start_retries (a_config a) \<and> a_state a \<noteq> Stopping \<and>
     quiet_status (a_status a) \<and> \<not> a_done a"

lemma spawned_state_inv:
  assumes "spawn_pre a" and "spawn_child env a = (Inr u, a')"
    and "sd \<noteq> None \<longrightarrow> c_start_secs (a_config a) \<noteq> 0"
  shows "state_inv (a'\<lparr>a_start_deadline := sd\<rparr>)"
proof (cases rule: spawn_child_cases [of env a])
  case (spawned pid b tr)
  let ?r = "register_child env pid b (spawn_base a tr)"
  have "quiet_status (a_status ?r)" by (auto simp: quiet_status_def)
  then show ?thesis using assms spawned(1,2)
    by (auto simp: state_inv_def mode_inv_def child_inv_def spawn_pre_def split: if_splits)
qed (use assms in auto)

lemma unspawned_cases:
  assumes "spawn_pre a" and "spawn_child env a = (Inl e, a')"
  obtains (kept) c where "a_child a = Some c" "a' = a"
  | (lost) "a_child a' = None" "spawn_pre a'" "\<not> a_manual_stop a'"
proof (cases rule: spawn_child_cases [of env a])
  case refused
  then show ?thesis using assms kept by (auto simp: spawn_pre_def)
next
  case (fatal e d tr)
  then show ?thesis using assms lost by (auto simp: spawn_pre_def quiet_status_def)
next
  case (failed e tr)
  then show ?thesis using assms lost by (auto simp: spawn_pre_def)
next
  case spawned
  then show ?thesis using assms(2) by simp
qed

lemma lost_state_inv:
  assumes "a_child a = None" and "spawn_pre a" and "\<not> a_manual_stop a"
  shows "state_inv (a\<lparr>a_start_deadline := None\<rparr>)"
    and "a_start_deadline a = None \<Longrightarrow> state_inv (update_status Fatal None x d a)"
  using assms by (auto simp: state_inv_defs spawn_pre_def)

lemma spawn_failed_fatal:
  assumes "spawn_pre a" and "spawn_child env a = (Inl e, a')" and "a_child a = None"
  shows "state_inv (update_status Fatal None x d (a'\<lparr>a_start_deadline := None\<rparr>))"
proof (cases rule: unspawned_cases [OF assms(1,2)])
  case 2
  then show ?thesis
    by (intro lost_state_inv(2)) (simp_all add: spawn_pre_def)
qed (use assms(3) in simp)

lemma deadline_None_upd: "a_start_deadline a = None \<Longrightarrow> a\<lparr>a_start_deadline := None\<rparr> = a"
  by (cases a) simp

lemma stopped_spawn_pre:
  "\<not> a_is_shutting_down a \<Longrightarrow> a_backoff_deadline a = None \<Longrightarrow>
     a_retry_count a \<le> c_start_retries (a_config a) \<Longrightarrow> \<not> a_done a \<Longrightarrow>
     spawn_pre (stop_current_child env g a)"
  by (simp add: spawn_pre_def quiet_status_def)

lemma stopped_state_inv:
  "a_backoff_deadline a = None \<Longrightarrow> a_retry_count a \<le> Suc (c_start_retries (a_config a)) \<Longrightarrow>
     (a_is_shutting_down a \<longrightarrow> a_manual_stop a) \<Longrightarrow> (a_done a \<longrightarrow> a_is_shutting_down a) \<Longrightarrow>
     state_inv ((stop_current_child env g a)\<lparr>a_start_deadline := None\<rparr>)"
  by (simp add: state_inv_defs)

lemma word_succ_neq [simp]: "(w :: u64) + 1 \<noteq> w"
  by simp

lemma spawn_seq_unchanged:
  "spawn_child env a = (Inl e, a') \<Longrightarrow> a_spawn_seq a' = a_spawn_seq a"
  "spawn_child env a = (Inr u, a') \<Longrightarrow> a_spawn_seq a' = a_spawn_seq a + 1 \<and> a_child a' \<noteq> None"
  by (cases rule: spawn_child_cases [of env a]; auto)+

definition set_deadline :: "Env \<Rightarrow> u64 \<Rightarrow> ProgramActor \<Rightarrow> ProgramActor" where
  "set_deadline env seq a =
     (if a_spawn_seq a \<noteq> seq
      then (if a_child a \<noteq> None \<and> c_start_secs (a_config a) \<noteq> 0
            then a\<lparr>a_start_deadline := Some (env_now env + c_start_secs (a_config a))\<rparr>
            else a\<lparr>a_start_deadline := None\<rparr>)
      else if a_child a = None then a\<lparr>a_start_deadline := None\<rparr> else a)"

lemma command_branch_set_deadline:
  "snd (command_branch env cmd a) =
     set_deadline env (a_spawn_seq a) (snd (handle_command env cmd a))"
  by (simp add: command_branch_def set_deadline_def Let_def split_beta)

lemma spawn_command_state_inv:
  assumes "spawn_pre a" and "a_child a \<noteq> None \<Longrightarrow> state_inv a" and "seq = a_spawn_seq a"
  shows "state_inv (set_deadline env seq (snd (spawn_child env a)))"
proof (cases "spawn_child env a")
  case (Pair r a')
  show ?thesis
  proof (cases r)
    case (Inr u)
    then have sp: "spawn_child env a = (Inr u, a')" using Pair by simp
    have "a_config a' = a_config a" using spawn_child_frame(1) [of env a] Pair by simp
    then show ?thesis
      using spawned_state_inv [OF assms(1) sp] spawn_seq_unchanged(2) [OF sp] assms(3) Pair
      by (auto simp: set_deadline_def)
  next
    case (Inl e)
    then have sp: "spawn_child env a = (Inl e, a')" using Pair by simp
    show ?thesis
    proof (cases rule: unspawned_cases [OF assms(1) sp])
      case 1
      then show ?thesis using assms(2,3) Pair by (simp add: set_deadline_def)
    next
      case 2
      then show ?thesis
        using lost_state_inv(1) [of a'] spawn_seq_unchanged(1) [OF sp] assms(3) Pair
        by (simp add: set_deadline_def)
    qed
  qed
qed

lemma command_state_inv:
  assumes "state_inv a" and "\<not> a_done a"
  shows "state_inv (snd (command_branch env cmd a))"
proof (cases cmd)
  case CmdStart
  let ?b = "a\<lparr>a_manual_stop := False, a_retry_count := 0, a_backoff_deadline := None\<rparr>"
  have "spawn_pre ?b" if "\<not> a_is_shutting_down a"
    using assms that by (auto simp: spawn_pre_def state_inv_def mode_inv_def)
  moreover have "state_inv ?b" if "a_child ?b \<noteq> None"
    using assms(1) that by (auto simp: state_inv_def mode_inv_def child_inv_def)
  moreover have "state_inv (set_deadline env (a_spawn_seq a) a)" if "a_is_shutting_down a"
    using assms(1) that by (auto simp: state_inv_defs set_deadline_def)
  ultimately show ?thesis
    using CmdStart spawn_command_state_inv [of ?b "a_spawn_seq a" env]
    by (simp add: command_branch_set_deadline handle_command_def)
next
  case (CmdStop g)
  have "state_inv ((stop_current_child env g
      (a\<lparr>a_manual_stop := True, a_backoff_deadline := None\<rparr>))\<lparr>a_start_deadline := None\<rparr>)"
    using assms by (intro stopped_state_inv) (auto simp: state_inv_def mode_inv_def)
  then show ?thesis using CmdStop
    by (simp add: command_branch_set_deadline handle_command_def set_deadline_def)
next
  case (CmdRestart g)
  let ?b = "(stop_current_child env g (a\<lparr>a_manual_stop := True, a_retry_count := 0,
      a_backoff_deadline := None\<rparr>))\<lparr>a_manual_stop := False\<rparr>"
  have "spawn_pre ?b" if "\<not> a_is_shutting_down a"
    using assms that by (simp add: spawn_pre_def quiet_status_def)
  moreover have "state_inv (set_deadline env (a_spawn_seq a) a)" if "a_is_shutting_down a"
    using assms(1) that by (auto simp: state_inv_defs set_deadline_def)
  ultimately show ?thesis
    using CmdRestart spawn_command_state_inv [of ?b "a_spawn_seq a" env]
    by (simp add: command_branch_set_deadline handle_command_def Let_def)
next
  case CmdShutdown
  have "state_inv ((stop_current_child env (c_stop_wait_secs (a_config a))
      (a\<lparr>a_is_shutting_down := True, a_manual_stop := True, a_backoff_deadline := None\<rparr>))
        \<lparr>a_start_deadline := None\<rparr>)"
    using assms by (intro stopped_state_inv) (auto simp: state_inv_def mode_inv_def)
  then show ?thesis using CmdShutdown
    by (simp add: command_branch_set_deadline handle_command_def set_deadline_def)
      (simp add: state_inv_def mode_inv_def child_inv_def)
next
  case (CmdSignal sig)
  then show ?thesis using assms
    by (cases "a_child a")
      (auto simp: command_branch_set_deadline handle_command_def set_deadline_def state_inv_def
        mode_inv_def child_inv_def)
qed

lemma try_spawn_state_inv:
  assumes "spawn_pre a" and "a_child a = None"
    and "\<And>e a'. a_start_deadline a' = a_start_deadline a \<Longrightarrow>
           \<exists>x d. f (on_err e a') = update_status Fatal None x d (a'\<lparr>a_start_deadline := None\<rparr>)"
    and "\<And>a'. a_config a' = a_config a \<Longrightarrow> a_start_deadline a' = a_start_deadline a \<Longrightarrow>
           \<exists>sd. f (on_ok a') = a'\<lparr>a_start_deadline := sd\<rparr> \<and>
                (sd \<noteq> None \<longrightarrow> c_start_secs (a_config a) \<noteq> 0)"
  shows "state_inv (f (try_spawn env a on_err on_ok))"
proof (cases "spawn_child env a")
  case (Pair r a')
  have fr: "a_config a' = a_config a" "a_start_deadline a' = a_start_deadline a"
    using spawn_child_frame(1,5) [of env a] Pair by simp_all
  show ?thesis
  proof (cases r)
    case (Inl e)
    then have sp: "spawn_child env a = (Inl e, a')" using Pair by simp
    show ?thesis
      using assms(3) [OF fr(2)] spawn_failed_fatal [OF assms(1) sp assms(2)] sp
      by (auto simp: try_spawn_def) metis
  next
    case (Inr u)
    then have sp: "spawn_child env a = (Inr u, a')" using Pair by simp
    obtain sd where "f (on_ok a') = a'\<lparr>a_start_deadline := sd\<rparr>"
      "sd \<noteq> None \<longrightarrow> c_start_secs (a_config a) \<noteq> 0" using assms(4) fr by blast
    then show ?thesis using spawned_state_inv [OF assms(1) sp] sp by (simp add: try_spawn_def)
  qed
qed

lemma health_state_inv:
  assumes "state_inv a" and "a_child a \<noteq> None" and "\<not> a_done a"
  shows "state_inv (health_branch env ev a)"
proof -
  have keep: "state_inv (a\<lparr>a_status := (a_status a)\<lparr>s_health := h, s_is_healthy := b\<rparr>\<rparr>)" for h b
    using assms(1,2) by (auto simp: state_inv_defs split: if_splits)
  have emit: "state_inv (emit e b) = state_inv b" for e b by (simp add: state_inv_defs)
  show ?thesis
  proof (cases ev)
    case EvHealthy
    then show ?thesis using keep by (simp add: health_branch_def Let_def emit)
  next
    case EvUnhealthy
    let ?b = "a\<lparr>a_status := (a_status a)\<lparr>s_health := Unhealthy, s_is_healthy := False\<rparr>\<rparr>"
    let ?b = "if s_health (a_status a) \<noteq> Unhealthy
              then emit (Publish (HealthChanged (a_name ?b) False Unhealthy
                     (Some ''Health check probe failed consecutively''))) ?b else ?b"
    have "state_inv ?b" using keep by (simp add: emit)
    moreover have "spawn_pre (stop_current_child env g ?b)" for g
      using assms by (intro stopped_spawn_pre) (auto simp: state_inv_def mode_inv_def)
    ultimately show ?thesis using EvUnhealthy
      by (simp add: health_branch_def Let_def)
        (auto intro!: try_spawn_state_inv [where f = "\<lambda>x. x"] simp: start_deadline_for_def)
  qed
qed

lemma backoff_state_inv:
  assumes "state_inv a" and "a_backoff_deadline a \<noteq> None" and "\<not> a_done a"
  shows "state_inv (backoff_branch env a)"
proof -
  let ?b = "a\<lparr>a_backoff_deadline := None\<rparr>"
  have ch: "a_child ?b = None" "a_start_deadline a = None" "\<not> a_manual_stop a" "\<not> a_is_shutting_down a"
    using assms by (auto simp: state_inv_def mode_inv_def child_inv_def)
  have pre: "spawn_pre ?b"
    using assms by (auto simp: spawn_pre_def state_inv_def mode_inv_def)
  have "state_inv (try_spawn env ?b
      (\<lambda>e a. update_status Fatal None None (''Spawn failed after backoff: '' @ error_text e) a)
      (\<lambda>a. if c_start_secs (a_config a) \<noteq> 0
           then a\<lparr>a_start_deadline := Some (env_now env + c_start_secs (a_config a))\<rparr> else a))"
    using pre ch(1)
  proof (rule try_spawn_state_inv [where f = "\<lambda>x. x"])
    fix e :: ProgramError and a' :: ProgramActor
    assume "a_start_deadline a' = a_start_deadline ?b"
    then have "a'\<lparr>a_start_deadline := None\<rparr> = a'" using ch(2) deadline_None_upd by simp
    then show "\<exists>x d. update_status Fatal None None (''Spawn failed after backoff: '' @ error_text e) a'
        = update_status Fatal None x d (a'\<lparr>a_start_deadline := None\<rparr>)" by metis
  next
    fix a' :: ProgramActor
    assume cfg: "a_config a' = a_config ?b" and "a_start_deadline a' = a_start_deadline ?b"
    then have "a'\<lparr>a_start_deadline := None\<rparr> = a'" using ch(2) deadline_None_upd by simp
    moreover have "c_start_secs (a_config a') = c_start_secs (a_config ?b)" using cfg by simp
    ultimately show "\<exists>sd. (if c_start_secs (a_config a') \<noteq> 0
           then a'\<lparr>a_start_deadline := Some (env_now env + c_start_secs (a_config a'))\<rparr> else a')
        = a'\<lparr>a_start_deadline := sd\<rparr> \<and> (sd \<noteq> None \<longrightarrow> c_start_secs (a_config ?b) \<noteq> 0)"
      by (cases "c_start_secs (a_config ?b) = 0") (metis, auto)
  qed
  then show ?thesis using ch by (simp add: backoff_branch_def Let_def)
qed

lemma drop_child_state_inv [simp]: "state_inv (drop_child env r p a) = state_inv a"
  by (simp add: state_inv_defs)

lemma startup_failure_state_inv:
  assumes "spawn_pre a" and "a_child a = None" and "a_start_deadline a = None" and "\<not> a_manual_stop a"
  shows "state_inv (startup_failure env code a)"
proof -
  have "Suc (a_retry_count a) mod 4294967296 \<le> Suc (a_retry_count a)" by (rule mod_less_eq_dividend)
  also have "\<dots> \<le> Suc (c_start_retries (a_config a))"
    using assms(1) by (simp add: spawn_pre_def)
  finally have "Suc (a_retry_count a) mod 4294967296 \<le> Suc (c_start_retries (a_config a))" .
  then show ?thesis
    using assms by (simp add: startup_failure_def Let_def state_inv_defs spawn_pre_def)
qed

lemma exited_state_inv:
  assumes "spawn_pre a" and "a_child a = None" and "a_start_deadline a = None" and "\<not> a_manual_stop a"
  shows "state_inv (update_status Exited None code d a)"
  using assms by (simp add: state_inv_defs spawn_pre_def)

lemma running_exit_cases:
  obtains
    (exited) d where "running_exit env code a = (False, update_status Exited None code d a)"
      "\<not> should_restart (c_autorestart (a_config a)) (unwrap_or code (-1)) (c_exit_codes (a_config a))"
  | (fatal) d d' e a' where "spawn_child env (update_status Starting None code d a) = (Inl e, a')"
      "running_exit env code a = (False, update_status Fatal None code d' a')"
      "should_restart (c_autorestart (a_config a)) (unwrap_or code (-1)) (c_exit_codes (a_config a))"
  | (restarted) d a' where "spawn_child env (update_status Starting None code d a) = (Inr (), a')"
      "running_exit env code a = (True, a')"
      "should_restart (c_autorestart (a_config a)) (unwrap_or code (-1)) (c_exit_codes (a_config a))"
proof (cases "should_restart (c_autorestart (a_config a)) (unwrap_or code (-1)) (c_exit_codes (a_config a))")
  case False
  then show ?thesis using exited by (simp add: running_exit_def Let_def)
next
  case True
  let ?b = "update_status Starting None code (autorestart_description (c_autorestart (a_config a)) code) a"
  obtain r a' where sp: "spawn_child env ?b = (r, a')" by (cases "spawn_child env ?b")
  show ?thesis
  proof (cases r)
    case (Inl e)
    then show ?thesis using True sp fatal by (simp add: running_exit_def Let_def try_spawn_def)
  next
    case (Inr u)
    then show ?thesis using True sp restarted by (simp add: running_exit_def Let_def try_spawn_def)
  qed
qed

lemma exit_state_inv:
  assumes "state_inv a" and "a_child a = Some c" and "\<not> a_done a"
  shows "state_inv (exit_branch env res a)"
proof -
  let ?b = "emit (DrainPumps (ch_pid c))
    (if isl res then a\<lparr>a_start_deadline := None, a_started_at := None, a_stdin_open := False, a_child := None\<rparr>
     else emit (Reaped (ch_pid c))
            (a\<lparr>a_start_deadline := None, a_started_at := None, a_stdin_open := False, a_child := None\<rparr>))"
  have b: "spawn_pre ?b" "a_child ?b = None" "a_start_deadline ?b = None" "\<not> a_manual_stop ?b"
    "\<not> a_is_shutting_down ?b"
    using assms by (auto simp: spawn_pre_def state_inv_def mode_inv_def)
  show ?thesis
  proof (cases "ch_marked_running c")
    case False
    then show ?thesis
      using startup_failure_state_inv [OF b(1-4)] b(4,5) assms(2)
      by (simp add: exit_branch_def handle_child_exit_def Let_def)
  next
    case True
    let ?x = "running_exit env (exit_code_of res) ?b"
    have eb: "exit_branch env res a =
        (let a' = drop_child env (\<not> isl res) (ch_pid c) (snd ?x)
         in if fst ?x \<and> c_start_secs (a_config a') \<noteq> 0
            then a'\<lparr>a_start_deadline := Some (env_now env + c_start_secs (a_config a'))\<rparr> else a')"
      using b(4,5) assms(2) True by (simp add: exit_branch_def handle_child_exit_def Let_def split_beta)
    have pre: "spawn_pre (update_status Starting None code d ?b)" for code d
      using b(1) by (simp add: spawn_pre_def quiet_status_def)
    show ?thesis
    proof (cases rule: running_exit_cases [of env "exit_code_of res" ?b])
      case (exited d)
      then show ?thesis using exited_state_inv [OF b(1-4)] by (simp add: eb Let_def)
    next
      case (fatal d d' e a')
      have "a_start_deadline a' = None"
        using spawn_child_frame(5) fatal(1) b(3) by (metis snd_conv update_status_frame(10))
      then show ?thesis
        using spawn_failed_fatal [OF pre fatal(1)] b(2) fatal(2) by (simp add: eb deadline_None_upd)
    next
      case (restarted d a')
      have cfg: "a_config a' = a_config ?b" and "a_start_deadline a' = None"
        using spawn_child_frame(1,5) restarted(1) b(3) by (metis snd_conv update_status_frame(1,10))+
      then have "state_inv (a'\<lparr>a_start_deadline := None\<rparr>)" "a'\<lparr>a_start_deadline := None\<rparr> = a'"
        using spawned_state_inv [OF pre restarted(1), of None] deadline_None_upd by auto
      moreover have "state_inv (a'\<lparr>a_start_deadline := Some t\<rparr>)" if "c_start_secs (a_config ?b) \<noteq> 0" for t
        using spawned_state_inv [OF pre restarted(1), of "Some t"] that by simp
      moreover have "(drop_child env r p a')\<lparr>a_start_deadline := sd\<rparr>
          = drop_child env r p (a'\<lparr>a_start_deadline := sd\<rparr>)" for r p sd
        by (simp add: drop_child_def emit_def)
      ultimately show ?thesis using restarted(2) cfg by (simp add: eb Let_def)
    qed
  qed
qed

lemma cancel_state_inv:
  assumes "state_inv a" shows "state_inv (cancel_branch env a)"
  using assms by (simp add: cancel_branch_def Let_def state_inv_defs)

lemma metrics_state_inv:
  assumes "state_inv a" and "a_child a \<noteq> None" shows "state_inv (metrics_branch env a)"
  using assms by (cases "a_child a")
    (auto simp: metrics_branch_def state_inv_defs split: sum.split if_splits)

lemma start_deadline_state_inv:
  assumes "state_inv a" and "\<not> a_done a" shows "state_inv (start_deadline_branch env a)"
  using assms by (cases "a_child a")
    (auto simp: start_deadline_branch_def Let_def state_inv_defs split: if_splits)

lemma run_step_state_inv:
  assumes "state_inv a" and "run_step env inp a = Some a'"
  shows "state_inv a'"
proof -
  have nd: "\<not> a_done a" using assms(2) by (auto simp: run_step_def split: if_splits)
  have tok: "state_inv (a\<lparr>a_cancelled := True\<rparr>)" using assms(1) by (simp add: state_inv_defs)
  show ?thesis
    using assms(2) nd tok cancel_state_inv [OF assms(1)] command_state_inv [OF assms(1) nd]
      health_state_inv [OF assms(1) _ nd] backoff_state_inv [OF assms(1) _ nd]
      metrics_state_inv [OF assms(1)] exit_state_inv [OF assms(1) _ nd]
      start_deadline_state_inv [OF assms(1) nd]
    by (cases inp) (auto simp: run_step_def split: if_splits option.splits)
qed

lemma actor_new_invs: "state_inv (actor_new c)" "live_inv {} (actor_new c)"
  "observed_inv (actor_new c)" "named_inv (actor_new c)"
  by (simp_all add: actor_new_def state_inv_defs new_stopped_with_group_def live_inv_def
      child_pids_def observed_inv_def observed_state_def named_inv_def)

lemma reachable_state_inv: "reachable allowed c a \<Longrightarrow> state_inv a"
  by (induction rule: reachable.induct) (auto intro: actor_new_invs run_step_state_inv)

lemma reachable_live_inv: "reachable allowed c a \<Longrightarrow> live_inv {} a"
  by (induction rule: reachable.induct) (auto intro: actor_new_invs run_step_live_inv)

section \<open>At most one process at a time\<close>

definition one_inv :: "ProgramActor \<Rightarrow> bool" where
  "one_inv a \<longleftrightarrow> live_inv {} a \<and> at_most_one_live (a_trace a)"

lemma one_inv_upd [simp]:
  "one_inv (a\<lparr>a_manual_stop := m\<rparr>) = one_inv a" "one_inv (a\<lparr>a_retry_count := r\<rparr>) = one_inv a"
  "one_inv (a\<lparr>a_backoff_deadline := bd\<rparr>) = one_inv a"
  "one_inv (a\<lparr>a_start_deadline := sd\<rparr>) = one_inv a"
  "one_inv (a\<lparr>a_is_shutting_down := sh\<rparr>) = one_inv a"
  "one_inv (a\<lparr>a_cancelled := ca\<rparr>) = one_inv a" "one_inv (a\<lparr>a_done := dn\<rparr>) = one_inv a"
  "one_inv (a\<lparr>a_status := st\<rparr>) = one_inv a"
  by (simp_all add: one_inv_def)

lemma one_inv_update: "one_inv a \<Longrightarrow> one_inv (update_status s p x d a)"
  by (simp add: one_inv_def)

lemma one_inv_emit:
  "one_inv a \<Longrightarrow> \<nexists>p. e \<in> {Spawn p, Reaped p, KillChild p} \<Longrightarrow> one_inv (emit e a)"
  by (auto simp: one_inv_def intro: at_most_one_live_keep)

lemma one_inv_stop: "one_inv a \<Longrightarrow> one_inv (stop_current_child env g a)"
  by (simp add: one_inv_def stop_live_inv)

lemma one_inv_spawn:
  assumes "one_inv a" shows "one_inv (snd (spawn_child env a))"
proof -
  have sub: "live (a_trace a) \<subseteq> child_pids a" and one: "at_most_one_live (a_trace a)"
    using assms by (auto simp: one_inv_def live_inv_def)
  have "at_most_one_live (a_trace (snd (spawn_child env a)))"
    by (cases rule: spawn_child_cases [of env a]) (use one sub in simp_all)
  then show ?thesis using assms spawn_live_inv [of "{}" a env] by (simp add: one_inv_def)
qed

lemmas one_inv_rules = one_inv_update one_inv_emit one_inv_stop one_inv_spawn

lemma one_inv_try_spawn:
  assumes "one_inv a" and "\<And>e a. one_inv a \<Longrightarrow> one_inv (f (on_err e a))"
    and "\<And>a. one_inv a \<Longrightarrow> one_inv (f (on_ok a))"
  shows "one_inv (f (try_spawn env a on_err on_ok))"
  using assms(2,3) one_inv_spawn [OF assms(1), of env]
  by (simp add: try_spawn_def split_beta split: sum.split)

lemma one_inv_command: "one_inv a \<Longrightarrow> one_inv (snd (handle_command env cmd a))"
  by (cases cmd) (simp_all add: handle_command_def Let_def one_inv_rules split: option.split)

lemma one_inv_child_exit:
  assumes "one_inv a" and "a_child a = Some c"
  shows "one_inv (snd (handle_child_exit env (Inr status) a))"
proof -
  let ?a = "a\<lparr>a_started_at := None, a_stdin_open := False, a_child := None\<rparr>"
  have "at_most_one_live ((a_trace a @ [Reaped p]) @ [DrainPumps p])" for p
    using assms(1) by (intro at_most_one_live_keep) (auto simp: one_inv_def)
  then have b: "one_inv (emit (DrainPumps (ch_pid c)) (emit (Reaped (ch_pid c)) ?a))"
    using assms by (simp add: one_inv_def live_inv_def child_pids_def)
  have "one_inv (startup_failure env code b)" "one_inv (snd (running_exit env code b))"
    if "one_inv b" for code b
    using that by (simp_all add: startup_failure_def running_exit_def Let_def one_inv_rules one_inv_try_spawn)
  with b show ?thesis
    using assms(2)
    by (simp add: handle_child_exit_def Let_def split_beta drop_child_def one_inv_rules)
qed

lemma run_step_one_inv:
  assumes "one_inv a" and "\<nexists>e. inp = InChildExit (Inl e)" and "run_step env inp a = Some a'"
  shows "one_inv a'"
proof -
  have "one_inv (cancel_branch env a)"
    using assms(1) by (simp add: cancel_branch_def Let_def one_inv_rules)
  moreover have "one_inv (snd (command_branch env cmd a))" for cmd
    using one_inv_command [OF assms(1)] by (simp add: command_branch_def Let_def split_beta)
  moreover have "one_inv (health_branch env ev a)" for ev
    using assms(1) by (cases ev) (simp_all add: health_branch_def Let_def one_inv_rules
        one_inv_try_spawn [where f = "\<lambda>x. x"])
  moreover have "one_inv (backoff_branch env a)"
    using assms(1) by (simp add: backoff_branch_def Let_def one_inv_rules
        one_inv_try_spawn [where f = "\<lambda>x. x"])
  moreover have "one_inv (metrics_branch env a)"
    using assms(1) by (simp add: metrics_branch_def split: option.split sum.split)
  moreover have "one_inv (exit_branch env res a)" if "inp = InChildExit res" "a_child a = Some c" for res c
    using one_inv_child_exit [of "a\<lparr>a_start_deadline := None\<rparr>" c env "projr res"] assms(1,2) that
    by (cases res) (simp_all add: exit_branch_def split_beta)
  moreover have "one_inv (start_deadline_branch env a)"
    using assms(1) by (simp add: start_deadline_branch_def Let_def one_inv_rules split: option.split)
      (simp add: one_inv_def live_inv_def child_pids_def)
  ultimately show ?thesis
    using assms(1,3) by (auto simp: run_step_def split: if_splits ActorInput.splits option.splits)
qed

lemma reachable_one_inv:
  "reachable (\<lambda>inp. \<nexists>e. inp = InChildExit (Inl e)) c a \<Longrightarrow> one_inv a"
proof (induction rule: reachable.induct)
  case reachable_new
  then show ?case
    by (simp add: one_inv_def actor_new_invs) (simp add: actor_new_def at_most_one_live_def)
qed (auto intro: run_step_one_inv)

end
