(* ===== verification/Dependency_Dag.thy ===== *)
theory Dependency_Dag
  imports Program_Model
begin

text \<open>
  The dependency graph of \<open>src/src/manager/dag.rs\<close>: \<open>DependencyGraph::build\<close> (dependency
  check, cycle check, Kahn's layering, the priority order inside a layer, the shutdown order)
  and \<open>DependencyGraph::get_dependents\<close>.

  The program map is a list of entries in its iteration order. Two things the code relies on
  are parameters: \<open>iter\<close>, the iteration order of the in-degree hash map, and \<open>is_cyclic\<close>,
  the cycle test of the graph library. In the layering loop an in-degree that would drop below
  zero is \<open>None\<close>; the loop is shown never to produce it.
\<close>

section \<open>Model\<close>

type_synonym programs = "ProgramConfig hmap"

record DependencyGraph =
  start_layers :: "string list list"
  stop_layers :: "string list list"

definition unknown_dependency :: "string \<Rightarrow> string \<Rightarrow> ProgramError" where
  "unknown_dependency name dep =
     ConfigError (''Program '' @ quoted name @ '' depends on unknown program '' @ quoted dep)"

definition circular_dag :: ProgramError where
  "circular_dag = ConfigError ''Circular dependency detected in program dependencies DAG''"

definition circular_layers :: ProgramError where
  "circular_layers = ConfigError ''Circular dependency detected while calculating execution layers''"

text \<open>Step 2 of \<open>build\<close>: one edge per dependency, failing on an unknown name.\<close>

fun add_dep_edges ::
  "string list \<Rightarrow> string \<Rightarrow> string list \<Rightarrow> (string \<times> string) list \<Rightarrow> (string \<times> string) list result"
where
  "add_dep_edges nodes name [] es = Inr es"
| "add_dep_edges nodes name (dep # deps) es =
     (if dep \<in> set nodes then add_dep_edges nodes name deps (es @ [(dep, name)])
      else Inl (unknown_dependency name dep))"

fun add_all_edges ::
  "string list \<Rightarrow> programs \<Rightarrow> (string \<times> string) list \<Rightarrow> (string \<times> string) list result"
where
  "add_all_edges nodes [] es = Inr es"
| "add_all_edges nodes ((name, cfg) # ps) es =
     (case add_dep_edges nodes name (c_depends_on cfg) es of
        Inl e \<Rightarrow> Inl e
      | Inr es' \<Rightarrow> add_all_edges nodes ps es')"

text \<open>Step 4: in-degrees and adjacency.\<close>

definition init_in_degrees :: "programs \<Rightarrow> nat hmap" where
  "init_in_degrees ps = foldl (\<lambda>m (name, cfg). hm_insert name 0 m) [] ps"

definition init_adj :: "programs \<Rightarrow> string list hmap" where
  "init_adj ps = foldl (\<lambda>m (name, cfg). hm_insert name [] m) [] ps"

definition bump_degree :: "string \<Rightarrow> nat hmap \<Rightarrow> nat hmap" where
  "bump_degree name m = hm_insert name (Suc (unwrap_or (hm_get m name) 0)) m"

definition push_adj :: "string \<Rightarrow> string \<Rightarrow> string list hmap \<Rightarrow> string list hmap" where
  "push_adj dep name m = hm_insert dep (unwrap_or (hm_get m dep) [] @ [name]) m"

fun count_deps ::
  "string \<Rightarrow> string list \<Rightarrow> nat hmap \<times> string list hmap \<Rightarrow> nat hmap \<times> string list hmap"
where
  "count_deps name [] (ind, adj) = (ind, adj)"
| "count_deps name (dep # deps) (ind, adj) =
     count_deps name deps (bump_degree name ind, push_adj dep name adj)"

fun count_all ::
  "programs \<Rightarrow> nat hmap \<times> string list hmap \<Rightarrow> nat hmap \<times> string list hmap"
where
  "count_all [] st = st"
| "count_all ((name, cfg) # ps) st = count_all ps (count_deps name (c_depends_on cfg) st)"

definition init_queue :: "nat hmap \<Rightarrow> (string \<times> nat) list" where
  "init_queue ind = map (\<lambda>(name, deg). (name, 0)) (filter (\<lambda>(name, deg). deg = 0) ind)"

text \<open>The loop of step 4: one call of \<open>relax\<close> per popped node.\<close>

fun relax ::
  "nat \<Rightarrow> string list \<Rightarrow> nat hmap \<Rightarrow> (string \<times> nat) list \<Rightarrow> (nat hmap \<times> (string \<times> nat) list) option"
where
  "relax layer [] ind q = Some (ind, q)"
| "relax layer (n # ns) ind q =
     (case hm_get ind n of
        None \<Rightarrow> relax layer ns ind q
      | Some deg \<Rightarrow>
          if deg = 0 then None
          else relax layer ns (hm_insert n (deg - 1) ind)
                 (if deg - 1 = 0 then q @ [(n, layer + 1)] else q))"

definition push_layer :: "nat \<Rightarrow> string \<Rightarrow> (nat \<times> string list) list \<Rightarrow> (nat \<times> string list) list" where
  "push_layer l node lm = hm_insert l (unwrap_or (hm_get lm l) [] @ [node]) lm"

lemma sum_vals_decr:
  "hm_get m k = Some d \<Longrightarrow> d \<noteq> 0 \<Longrightarrow>
     Suc (sum_list (vals (hm_insert k (d - 1) m))) = sum_list (vals m)"
  by (induction m) (auto simp: vals_def hm_get_def split: if_splits)

lemma relax_measure:
  "relax layer ns ind q = Some (ind', q') \<Longrightarrow>
     sum_list (vals ind') + length q' \<le> sum_list (vals ind) + length q"
  by (induction layer ns ind q rule: relax.induct)
    (fastforce dest: sum_vals_decr split: option.splits if_splits)+

function kahn_loop ::
  "string list hmap \<Rightarrow> (string \<times> nat) list \<Rightarrow> nat hmap \<Rightarrow> (nat \<times> string list) list \<Rightarrow> nat
     \<Rightarrow> ((nat \<times> string list) list \<times> nat) option"
where
  "kahn_loop adj [] ind lm visited = Some (lm, visited)"
| "kahn_loop adj ((node, layer) # q) ind lm visited =
     (case relax layer (unwrap_or (hm_get adj node) []) ind q of
        None \<Rightarrow> None
      | Some (ind', q') \<Rightarrow> kahn_loop adj q' ind' (push_layer layer node lm) (visited + 1))"
  by pat_completeness auto
termination
  by (relation "measure (\<lambda>(adj, q, ind, lm, v). sum_list (vals ind) + length q)")
    (auto dest: relax_measure)

text \<open>Steps 5 and 6: the order inside the layers.\<close>

definition prio_of :: "programs \<Rightarrow> string \<Rightarrow> nat" where
  "prio_of ps n = (case hm_get ps n of Some c \<Rightarrow> c_priority c | None \<Rightarrow> DEFAULT_PRIORITY)"

definition sort_start :: "programs \<Rightarrow> string list \<Rightarrow> string list" where
  "sort_start ps = sort_key (\<lambda>n. (prio_of ps n, n))"

definition sort_stop :: "programs \<Rightarrow> string list \<Rightarrow> string list" where
  "sort_stop ps = sort_key (\<lambda>n. (- int (prio_of ps n), n))"

definition max_layer :: "(nat \<times> string list) list \<Rightarrow> nat" where
  "max_layer lm = foldl (\<lambda>m l. if l > m then l else m) 0 (keys lm)"

definition make_layers :: "programs \<Rightarrow> (nat \<times> string list) list \<Rightarrow> string list list" where
  "make_layers ps lm =
     (if ps = [] then []
      else List.map_filter (\<lambda>l. map_option (sort_start ps) (hm_get lm l)) [0..<max_layer lm + 1])"

definition build ::
  "(nat hmap \<Rightarrow> nat hmap) \<Rightarrow> (string list \<Rightarrow> (string \<times> string) list \<Rightarrow> bool) \<Rightarrow>
     programs \<Rightarrow> DependencyGraph result option"
where
  "build iter is_cyclic ps =
     (case add_all_edges (keys ps) ps [] of
        Inl e \<Rightarrow> Some (Inl e)
      | Inr es \<Rightarrow>
          if is_cyclic (keys ps) es then
            Some (Inl circular_dag)
          else
            (let (ind, adj) = count_all ps (init_in_degrees ps, init_adj ps)
             in case kahn_loop adj (init_queue (iter ind)) ind [] 0 of
                  None \<Rightarrow> None
                | Some (lm, visited) \<Rightarrow>
                    if visited \<noteq> length ps then
                      Some (Inl circular_layers)
                    else
                      (let sl = make_layers ps lm
                       in Some (Inr \<lparr>start_layers = sl,
                                     stop_layers = map (sort_stop ps) (rev sl)\<rparr>))))"

text \<open>\<open>get_dependents\<close>: a breadth-first search over the reversed dependency edges.\<close>

fun scan_dependents ::
  "string \<Rightarrow> programs \<Rightarrow> string list \<Rightarrow> string list \<Rightarrow> string list \<times> string list"
where
  "scan_dependents current [] dependents q = (dependents, q)"
| "scan_dependents current ((name, cfg) # ps) dependents q =
     (if current \<in> set (c_depends_on cfg) \<and> name \<notin> set dependents
      then scan_dependents current ps (dependents @ [name]) (q @ [name])
      else scan_dependents current ps dependents q)"

lemma scan_dependents_app:
  "\<exists>zs. scan_dependents c ps ds q = (ds @ zs, q @ zs) \<and> distinct zs \<and> set zs \<inter> set ds = {} \<and>
     set zs = {n. \<exists>cfg. (n, cfg) \<in> set ps \<and> c \<in> set (c_depends_on cfg)} - set ds"
proof (induction c ps ds q rule: scan_dependents.induct)
  case (2 c n cfg ps ds q)
  show ?case
  proof (cases "c \<in> set (c_depends_on cfg) \<and> n \<notin> set ds")
    case True
    with 2 obtain zs where "scan_dependents c ps (ds @ [n]) (q @ [n]) = ((ds @ [n]) @ zs, (q @ [n]) @ zs)"
      "distinct zs" "set zs \<inter> set (ds @ [n]) = {}"
      "set zs = {n. \<exists>cfg. (n, cfg) \<in> set ps \<and> c \<in> set (c_depends_on cfg)} - set (ds @ [n])"
      by blast
    with True show ?thesis by (intro exI [of _ "n # zs"]) auto
  next
    case False
    with 2 obtain zs where "scan_dependents c ps ds q = (ds @ zs, q @ zs)" "distinct zs"
      "set zs \<inter> set ds = {}"
      "set zs = {n. \<exists>cfg. (n, cfg) \<in> set ps \<and> c \<in> set (c_depends_on cfg)} - set ds"
      by blast
    with False show ?thesis by (intro exI [of _ zs]) auto
  qed
qed auto

function dependents_loop :: "programs \<Rightarrow> string list \<Rightarrow> string list \<Rightarrow> string list" where
  "dependents_loop ps [] dependents = dependents"
| "dependents_loop ps (current # q) dependents =
     (let (dependents', q') = scan_dependents current ps dependents q
      in dependents_loop ps q' dependents')"
  by pat_completeness auto
termination
proof (relation "measure (\<lambda>(ps, q, ds). card (set (keys ps) - set ds) + length q)", goal_cases)
  case (2 ps current q ds x ds' q')
  obtain zs where zs: "scan_dependents current ps ds q = (ds @ zs, q @ zs)" "distinct zs"
      "set zs \<inter> set ds = {}"
      "set zs = {n. \<exists>cfg. (n, cfg) \<in> set ps \<and> current \<in> set (c_depends_on cfg)} - set ds"
    using scan_dependents_app by blast
  have sub: "set zs \<subseteq> set (keys ps)" using zs(4) by (force simp: keys_def)
  have "set (keys ps) - set ds' = (set (keys ps) - set ds) - set zs"
    using 2 zs(1) by auto
  moreover have "card \<dots> = card (set (keys ps) - set ds) - length zs"
    using zs(2,3) sub by (subst card_Diff_subset) (auto simp: distinct_card)
  moreover have "card (set zs) \<le> card (set (keys ps) - set ds)"
    using zs(3) sub by (intro card_mono) auto
  moreover have "card (set zs) = length zs" using zs(2) by (rule distinct_card)
  ultimately show ?case using 2 zs(1) by auto
qed simp

definition get_dependents :: "programs \<Rightarrow> string \<Rightarrow> string set" where
  "get_dependents ps target = set (dependents_loop ps [target] [])"


section \<open>The dependency relation\<close>

definition deps_of :: "programs \<Rightarrow> string \<Rightarrow> string list" where
  "deps_of ps n = (case hm_get ps n of Some c \<Rightarrow> c_depends_on c | None \<Rightarrow> [])"

definition dep_rel :: "programs \<Rightarrow> (string \<times> string) set" where
  "dep_rel ps = {(d, n). d \<in> set (deps_of ps n)}"

definition deps_known :: "programs \<Rightarrow> bool" where
  "deps_known ps \<longleftrightarrow> (\<forall>(n, c) \<in> set ps. set (c_depends_on c) \<subseteq> set (keys ps))"

lemma deps_of_entry: "hm_wf ps \<Longrightarrow> (n, c) \<in> set ps \<Longrightarrow> deps_of ps n = c_depends_on c"
  by (simp add: deps_of_def flip: hm_get_Some_iff)

lemma deps_of_absent: "n \<notin> set (keys ps) \<Longrightarrow> deps_of ps n = []"
  by (simp add: deps_of_def flip: hm_get_None_iff)

lemma deps_of_Some: "hm_get ps n = Some c \<Longrightarrow> deps_of ps n = c_depends_on c"
  by (simp add: deps_of_def)

lemma deps_known_deps:
  assumes "hm_wf ps" and "deps_known ps" shows "set (deps_of ps n) \<subseteq> set (keys ps)"
proof (cases "hm_get ps n")
  case None
  then show ?thesis by (simp add: deps_of_def)
next
  case (Some c)
  with assms show ?thesis by (force simp: deps_known_def deps_of_Some hm_get_Some_iff)
qed

lemma dep_rel_iff:
  "hm_wf ps \<Longrightarrow> (d, n) \<in> dep_rel ps \<longleftrightarrow> (\<exists>c. (n, c) \<in> set ps \<and> d \<in> set (c_depends_on c))"
  by (cases "hm_get ps n")
    (auto simp: dep_rel_def deps_of_def hm_get_Some_iff [symmetric])

lemma dep_rel_keys: "(d, n) \<in> dep_rel ps \<Longrightarrow> n \<in> set (keys ps)"
  using deps_of_absent [of n ps] by (cases "n \<in> set (keys ps)") (auto simp: dep_rel_def)

lemma dep_rel_source:
  "hm_wf ps \<Longrightarrow> deps_known ps \<Longrightarrow> (d, n) \<in> dep_rel ps \<Longrightarrow> d \<in> set (keys ps)"
  using deps_known_deps [of ps n] by (auto simp: dep_rel_def)

lemma dep_rel_wf:
  assumes "hm_wf ps" and "deps_known ps" and "acyclic (dep_rel ps)"
  shows "wf (dep_rel ps)"
proof -
  have "dep_rel ps \<subseteq> set (keys ps) \<times> set (keys ps)"
    using dep_rel_source [OF assms(1,2)] dep_rel_keys by auto
  then have "finite (dep_rel ps)" by (rule finite_subset) simp
  then show ?thesis using assms(3) by (rule finite_acyclic_wf)
qed

lemma deps_of_perm: "hm_wf ps \<Longrightarrow> mset ps' = mset ps \<Longrightarrow> deps_of ps' = deps_of ps"
  by (rule ext) (simp add: deps_of_def hm_get_perm [of ps ps'])

section \<open>Edges\<close>

lemma add_dep_edges_ok:
  "add_dep_edges nodes name deps es = Inr es' \<longleftrightarrow>
     set deps \<subseteq> set nodes \<and> es' = es @ map (\<lambda>d. (d, name)) deps"
  by (induction nodes name deps es rule: add_dep_edges.induct) auto

lemma add_dep_edges_err:
  "add_dep_edges nodes name deps es = Inl e \<Longrightarrow>
     \<exists>d \<in> set deps. d \<notin> set nodes \<and> e = unknown_dependency name d"
  by (induction nodes name deps es rule: add_dep_edges.induct) (auto split: if_splits)

definition edges_of :: "programs \<Rightarrow> (string \<times> string) list" where
  "edges_of ps = concat (map (\<lambda>(n, c). map (\<lambda>d. (d, n)) (c_depends_on c)) ps)"

lemma add_all_edges_ok:
  "add_all_edges nodes ps es = Inr es' \<longleftrightarrow>
     (\<forall>(n, c) \<in> set ps. set (c_depends_on c) \<subseteq> set nodes) \<and> es' = es @ edges_of ps"
proof (induction nodes ps es rule: add_all_edges.induct)
  case (2 nodes name cfg ps es)
  note ok = add_dep_edges_ok [of nodes name "c_depends_on cfg" es]
  show ?case
  proof (cases "set (c_depends_on cfg) \<subseteq> set nodes")
    case True
    then have "add_dep_edges nodes name (c_depends_on cfg) es
        = Inr (es @ map (\<lambda>d. (d, name)) (c_depends_on cfg))" by (simp add: ok)
    with 2 [OF this] True show ?thesis by (simp add: edges_of_def)
  next
    case False
    then obtain e where "add_dep_edges nodes name (c_depends_on cfg) es = Inl e"
      using ok by (cases "add_dep_edges nodes name (c_depends_on cfg) es") auto
    with False show ?thesis by simp
  qed
qed (auto simp: edges_of_def)

lemma set_edges_of: "hm_wf ps \<Longrightarrow> set (edges_of ps) = dep_rel ps"
proof -
  assume wf: "hm_wf ps"
  have "(d, n) \<in> set (edges_of ps) \<longleftrightarrow> (\<exists>c. (n, c) \<in> set ps \<and> d \<in> set (c_depends_on c))" for d n
    by (force simp: edges_of_def)
  then have "(d, n) \<in> set (edges_of ps) \<longleftrightarrow> (d, n) \<in> dep_rel ps" for d n
    by (simp add: dep_rel_iff [OF wf])
  then show ?thesis by auto
qed

lemma build_edges:
  "deps_known ps \<Longrightarrow> add_all_edges (keys ps) ps [] = Inr (edges_of ps)"
  using add_all_edges_ok [of "keys ps" ps "[]"] by (simp add: deps_known_def)

lemma build_edges_err:
  assumes "\<not> deps_known ps" shows "\<exists>e. add_all_edges (keys ps) ps [] = Inl e"
proof (cases "add_all_edges (keys ps) ps []")
  case (Inr es)
  then have "deps_known ps" using add_all_edges_ok [of "keys ps" ps "[]" es] by (simp add: deps_known_def)
  with assms show ?thesis by simp
qed simp

section \<open>In-degrees and adjacency\<close>

definition adj_at :: "string list hmap \<Rightarrow> string \<Rightarrow> string list" where
  "adj_at adj d = unwrap_or (hm_get adj d) []"

lemma count_deps_ind:
  "hm_get ind n = Some k \<Longrightarrow>
     hm_get (fst (count_deps name deps (ind, adj))) n
       = Some (k + (if n = name then length deps else 0))"
  by (induction name deps "(ind, adj)" arbitrary: ind adj k rule: count_deps.induct)
    (auto simp: bump_degree_def unwrap_or_def)

lemma count_deps_keys:
  "name \<in> set (keys ind) \<Longrightarrow> set (keys (fst (count_deps name deps (ind, adj)))) = set (keys ind)"
  by (induction name deps "(ind, adj)" arbitrary: ind adj rule: count_deps.induct)
    (auto simp: bump_degree_def insert_absorb)

lemma count_deps_wf: "hm_wf ind \<Longrightarrow> hm_wf (fst (count_deps name deps (ind, adj)))"
  by (induction name deps "(ind, adj)" arbitrary: ind adj rule: count_deps.induct)
    (auto simp: bump_degree_def)

lemma count_deps_adj:
  "count_list (adj_at (snd (count_deps name deps (ind, adj))) d) n
     = count_list (adj_at adj d) n + (if n = name then count_list deps d else 0)"
  by (induction name deps "(ind, adj)" arbitrary: ind adj rule: count_deps.induct)
    (auto simp: push_adj_def adj_at_def unwrap_or_def)

lemma deps_of_Cons:
  "n \<notin> set (keys ps) \<or> n \<noteq> name \<Longrightarrow>
     deps_of ((name, cfg) # ps) n = (if n = name then c_depends_on cfg else deps_of ps n)"
  by (auto simp: deps_of_def hm_get_Cons)

lemma count_all_ind:
  "hm_wf ps \<Longrightarrow> hm_get (fst st) n = Some k \<Longrightarrow>
     hm_get (fst (count_all ps st)) n = Some (k + length (deps_of ps n))"
proof (induction ps st arbitrary: k rule: count_all.induct)
  case (2 name cfg ps st)
  obtain ind adj where st: "st = (ind, adj)" by fastforce
  have "hm_get (fst (count_deps name (c_depends_on cfg) st)) n
      = Some (k + (if n = name then length (c_depends_on cfg) else 0))"
    using 2(3) count_deps_ind [of ind n k name "c_depends_on cfg" adj] by (simp add: st)
  then have "hm_get (fst (count_all ps (count_deps name (c_depends_on cfg) st))) n
      = Some (k + (if n = name then length (c_depends_on cfg) else 0) + length (deps_of ps n))"
    using 2 by (simp add: hm_wf_def)
  then show ?case
    using 2(2) by (auto simp: hm_wf_def deps_of_Cons deps_of_absent)
qed (simp add: deps_of_def)

lemma count_all_keys:
  "set (keys ps) \<subseteq> set (keys (fst st)) \<Longrightarrow> set (keys (fst (count_all ps st))) = set (keys (fst st))"
proof (induction ps st rule: count_all.induct)
  case (2 name cfg ps st)
  then show ?case
    using count_deps_keys [of name "fst st" "c_depends_on cfg" "snd st"] by auto
qed simp

lemma count_all_wf: "hm_wf (fst st) \<Longrightarrow> hm_wf (fst (count_all ps st))"
proof (induction ps st rule: count_all.induct)
  case (2 name cfg ps st)
  then show ?case using count_deps_wf [of "fst st" name "c_depends_on cfg" "snd st"] by auto
qed simp

lemma count_all_adj:
  "hm_wf ps \<Longrightarrow> count_list (adj_at (snd (count_all ps st)) d) n
     = count_list (adj_at (snd st) d) n + count_list (deps_of ps n) d"
proof (induction ps st rule: count_all.induct)
  case (2 name cfg ps st)
  obtain ind adj where st: "st = (ind, adj)" by fastforce
  have "hm_wf ps" using 2(2) by (simp add: hm_wf_def)
  then show ?case
    using 2 by (auto simp: st count_deps_adj hm_wf_def deps_of_Cons deps_of_absent)
qed (simp add: deps_of_def)

lemma init_fold_get:
  "hm_get (foldl (\<lambda>m (name, cfg). hm_insert name v m) m0 ps) n
     = (if n \<in> set (keys ps) then Some v else hm_get m0 n)"
  by (induction ps arbitrary: m0) auto

lemma init_fold_keys:
  "set (keys (foldl (\<lambda>m (name, cfg). hm_insert name v m) m0 ps)) = set (keys ps) \<union> set (keys m0)"
  by (induction ps arbitrary: m0) auto

lemma init_fold_wf: "hm_wf m0 \<Longrightarrow> hm_wf (foldl (\<lambda>m (name, cfg). hm_insert name v m) m0 ps)"
  by (induction ps arbitrary: m0) auto

lemma init_degrees_spec:
  assumes "hm_wf ps" and "(ind, adj) = count_all ps (init_in_degrees ps, init_adj ps)"
  shows "\<And>n. n \<in> set (keys ps) \<Longrightarrow> hm_get ind n = Some (length (deps_of ps n))"
    and "set (keys ind) = set (keys ps)" and "hm_wf ind"
    and "\<And>d n. count_list (adj_at adj d) n = count_list (deps_of ps n) d"
proof -
  have ind: "ind = fst (count_all ps (init_in_degrees ps, init_adj ps))"
    and adj: "adj = snd (count_all ps (init_in_degrees ps, init_adj ps))"
    using assms(2) by (metis fst_conv, metis snd_conv)
  show "hm_get ind n = Some (length (deps_of ps n))" if "n \<in> set (keys ps)" for n
    using count_all_ind [OF assms(1), of "(init_in_degrees ps, init_adj ps)" n 0] that
    by (simp add: ind init_in_degrees_def init_fold_get)
  show "set (keys ind) = set (keys ps)"
    by (simp add: ind count_all_keys init_in_degrees_def init_fold_keys)
  show "hm_wf ind"
    unfolding ind by (rule count_all_wf) (simp add: init_in_degrees_def, rule init_fold_wf, simp add: hm_wf_def)
  have "count_list (adj_at (init_adj ps) d) n = 0" for d n
    by (simp add: adj_at_def init_adj_def init_fold_get unwrap_or_def)
  then show "count_list (adj_at adj d) n = count_list (deps_of ps n) d" for d n
    by (simp add: adj count_all_adj [OF assms(1)])
qed


section \<open>The layering loop\<close>

text \<open>
  One call of \<open>relax\<close>: every neighbour loses as many degrees as it occurs in the adjacency
  list, and exactly those whose degree reaches zero are queued on the next layer.
\<close>

lemma relax_spec:
  assumes "\<And>n. n \<in> set ns \<Longrightarrow> \<exists>d. hm_get ind n = Some d \<and> count_list ns n \<le> d"
  shows "\<exists>ind' zs. relax l ns ind q = Some (ind', q @ map (\<lambda>n. (n, Suc l)) zs) \<and>
     (\<forall>n. hm_get ind' n = map_option (\<lambda>d. d - count_list ns n) (hm_get ind n)) \<and>
     distinct zs \<and> set zs = {n \<in> set ns. hm_get ind n = Some (count_list ns n)}"
  using assms
proof (induction l ns ind q rule: relax.induct)
  case (1 l ind q)
  then show ?case by (auto simp: option.map_ident)
next
  case (2 l n ns ind q)
  from "2.prems" [of n] obtain d where d: "hm_get ind n = Some d" "Suc (count_list ns n) \<le> d"
    by auto
  then have d0: "d \<noteq> 0" by simp
  let ?ind = "hm_insert n (d - 1) ind" and ?q = "if d - 1 = 0 then q @ [(n, l + 1)] else q"
  have prem: "\<exists>e. hm_get ?ind m = Some e \<and> count_list ns m \<le> e" if "m \<in> set ns" for m
    using "2.prems" [of m] d that by (cases "m = n") auto
  from "2.IH"(2) [OF d(1) d0 prem]
  obtain ind' zs where IH: "relax l ns ?ind ?q = Some (ind', ?q @ map (\<lambda>n. (n, Suc l)) zs)"
    "\<forall>m. hm_get ind' m = map_option (\<lambda>d. d - count_list ns m) (hm_get ?ind m)"
    "distinct zs" "set zs = {m \<in> set ns. hm_get ?ind m = Some (count_list ns m)}" by blast
  have get: "\<forall>m. hm_get ind' m = map_option (\<lambda>d. d - count_list (n # ns) m) (hm_get ind m)"
  proof
    fix m
    show "hm_get ind' m = map_option (\<lambda>d. d - count_list (n # ns) m) (hm_get ind m)"
      using IH(2) [rule_format, of m] d(1) by (cases "m = n") simp_all
  qed
  show ?case
  proof (cases "d = 1")
    case True
    with d have no: "n \<notin> set ns" by (simp add: count_list_0_iff)
    have "m \<in> set (n # zs) \<longleftrightarrow> m \<in> set (n # ns) \<and> hm_get ind m = Some (count_list (n # ns) m)" for m
      using IH(4) no d(1) True by (cases "m = n") (simp_all add: count_list_0_iff)
    then have "set (n # zs) = {m \<in> set (n # ns). hm_get ind m = Some (count_list (n # ns) m)}"
      by blast
    moreover have "distinct (n # zs)" using IH(3,4) no by auto
    moreover have "relax l (n # ns) ind q = Some (ind', q @ map (\<lambda>n. (n, Suc l)) (n # zs))"
      using IH(1) True d(1) by simp
    ultimately show ?thesis using get by blast
  next
    case False
    with d d0 have "d - 1 \<noteq> 0" by simp
    then have "relax l (n # ns) ind q = Some (ind', q @ map (\<lambda>n. (n, Suc l)) zs)"
      using IH(1) d d0 by simp
    moreover have "m \<in> set zs \<longleftrightarrow> m \<in> set (n # ns) \<and> hm_get ind m = Some (count_list (n # ns) m)" for m
      using IH(4) d d0 False by (cases "m = n"; cases "n \<in> set ns") (auto simp: count_list_0_iff)
    then have "set zs = {m \<in> set (n # ns). hm_get ind m = Some (count_list (n # ns) m)}"
      by blast
    ultimately show ?thesis using get IH(3) by blast
  qed
qed

text \<open>
  The loop invariant. \<open>D\<close> is the list of the popped nodes with their layers, \<open>q\<close> the queue.
  The in-degree of a node counts its dependencies that have not been popped; a node has been
  queued exactly when all of them have; its layer is one more than the deepest of them; and the
  layers appear in ascending order, differing by at most one inside the queue.
\<close>

definition lev_in :: "(string \<times> nat) list \<Rightarrow> string list \<Rightarrow> nat" where
  "lev_in D ds = (if ds = [] then 0 else Suc (Max {l. \<exists>d \<in> set ds. (d, l) \<in> set D}))"

definition kahn_inv :: "programs \<Rightarrow> (string \<times> nat) list \<Rightarrow> (string \<times> nat) list \<Rightarrow> nat hmap \<Rightarrow> bool" where
  "kahn_inv ps D q ind \<longleftrightarrow>
     distinct (map fst (D @ q)) \<and> fst ` set (D @ q) \<subseteq> set (keys ps) \<and>
     sorted (map snd (D @ q)) \<and> (\<forall>x \<in> set q. snd x \<le> Suc (snd (hd q))) \<and>
     (\<forall>n \<in> set (keys ps).
        hm_get ind n = Some (length (filter (\<lambda>d. d \<notin> fst ` set D) (deps_of ps n)))) \<and>
     (\<forall>n \<in> set (keys ps). n \<in> fst ` set (D @ q) \<longleftrightarrow> set (deps_of ps n) \<subseteq> fst ` set D) \<and>
     (\<forall>(n, l) \<in> set (D @ q). l = lev_in D (deps_of ps n))"

lemma lev_in_snoc:
  assumes "set ds \<subseteq> fst ` set D" and "m \<notin> fst ` set D"
  shows "lev_in (D @ [(m, l)]) ds = lev_in D ds"
proof -
  have "{k. \<exists>d \<in> set ds. (d, k) \<in> set (D @ [(m, l)])} = {k. \<exists>d \<in> set ds. (d, k) \<in> set D}"
    using assms by auto
  then show ?thesis by (simp add: lev_in_def)
qed

lemma lev_in_new:
  assumes "set ds \<subseteq> insert m (fst ` set D)" and "m \<in> set ds" and "\<forall>x \<in> set D. snd x \<le> l"
  shows "lev_in (D @ [(m, l)]) ds = Suc l"
proof -
  let ?S = "{k. \<exists>d \<in> set ds. (d, k) \<in> set (D @ [(m, l)])}"
  have "finite ?S" by (rule finite_subset [of _ "snd ` set (D @ [(m, l)])"]) force+
  moreover have "l \<in> ?S" using assms(2) by auto
  moreover have "\<forall>k \<in> ?S. k \<le> l" using assms(3) by auto
  ultimately have "Max ?S = l" by (intro Max_eqI) auto
  then show ?thesis using assms(2) by (auto simp: lev_in_def)
qed

lemma filter_not_in_insert:
  "length (filter (\<lambda>d. d \<notin> insert m S) xs)
     = length (filter (\<lambda>d. d \<notin> S) xs) - (if m \<in> S then 0 else count_list xs m)"
proof (induction xs)
  case (Cons x xs)
  have "count_list xs m \<le> length (filter (\<lambda>d. d \<notin> S) xs)" if "m \<notin> S"
    using that by (induction xs) auto
  with Cons show ?case by (auto simp: Suc_diff_le)
qed simp

lemma count_list_le_filter: "m \<notin> S \<Longrightarrow> count_list xs m \<le> length (filter (\<lambda>d. d \<notin> S) xs)"
  by (induction xs) auto

lemma filter_count_eq_iff:
  "m \<notin> S \<Longrightarrow> length (filter (\<lambda>d. d \<notin> S) xs) = count_list xs m \<longleftrightarrow> set xs \<subseteq> insert m S"
proof (induction xs)
  case (Cons x xs)
  then show ?case using count_list_le_filter [of m S xs] by auto
qed simp


text \<open>What popping \<open>node\<close> from the queue does to the degrees and which nodes it queues.\<close>

lemma kahn_relax:
  assumes inv: "kahn_inv ps D ((node, l) # q) ind"
    and adj: "\<And>d n. count_list (adj_at adj d) n = count_list (deps_of ps n) d"
  obtains ind' zs where
    "relax l (adj_at adj node) ind q = Some (ind', q @ map (\<lambda>n. (n, Suc l)) zs)"
    "\<And>n. n \<in> set (keys ps) \<Longrightarrow> hm_get ind' n
       = Some (length (filter (\<lambda>d. d \<notin> insert node (fst ` set D)) (deps_of ps n)))"
    "distinct zs"
    "\<And>n. n \<in> set zs \<longleftrightarrow>
       node \<in> set (deps_of ps n) \<and> set (deps_of ps n) \<subseteq> insert node (fst ` set D)"
proof -
  let ?ns = "adj_at adj node" and ?S = "fst ` set D"
  have new: "node \<notin> ?S" using inv by (auto simp: kahn_inv_def)
  have deg: "hm_get ind n = Some (length (filter (\<lambda>d. d \<notin> ?S) (deps_of ps n)))"
    if "n \<in> set (keys ps)" for n using inv that by (auto simp: kahn_inv_def)
  have ns: "n \<in> set ?ns \<longleftrightarrow> node \<in> set (deps_of ps n)" for n
    using adj [of node n] by (metis count_list_0_iff)
  have nskeys: "n \<in> set (keys ps)" if "n \<in> set ?ns" for n
    using that ns deps_of_absent [of n ps] by (cases "n \<in> set (keys ps)") auto
  have pre: "\<exists>d. hm_get ind n = Some d \<and> count_list ?ns n \<le> d" if "n \<in> set ?ns" for n
    using deg [OF nskeys [OF that]] adj [of node n] count_list_le_filter [OF new] by auto
  obtain ind' zs where rel: "relax l ?ns ind q = Some (ind', q @ map (\<lambda>n. (n, Suc l)) zs)"
    and get: "\<And>n. hm_get ind' n = map_option (\<lambda>d. d - count_list ?ns n) (hm_get ind n)"
    and zs: "distinct zs" "set zs = {n \<in> set ?ns. hm_get ind n = Some (count_list ?ns n)}"
    using relax_spec [of ?ns ind l q] pre by blast
  have "n \<in> set zs \<longleftrightarrow> node \<in> set (deps_of ps n) \<and> set (deps_of ps n) \<subseteq> insert node ?S" for n
  proof (cases "n \<in> set ?ns")
    case True
    then show ?thesis
      using zs(2) deg [OF nskeys [OF True]] adj filter_count_eq_iff [OF new] ns by simp
  qed (use zs(2) ns in auto)
  moreover have "hm_get ind' n
      = Some (length (filter (\<lambda>d. d \<notin> insert node ?S) (deps_of ps n)))"
    if "n \<in> set (keys ps)" for n
    using get deg [OF that] adj new filter_not_in_insert [of node ?S] by simp
  ultimately show ?thesis using that rel zs(1) by blast
qed

lemma kahn_inv_levels:
  assumes inv: "kahn_inv ps D ((node, l) # q) ind"
    and zs: "\<And>n. n \<in> set zs \<longleftrightarrow>
       node \<in> set (deps_of ps n) \<and> set (deps_of ps n) \<subseteq> insert node (fst ` set D)"
    and nk: "(n, k) \<in> set ((D @ [(node, l)]) @ q @ map (\<lambda>n. (n, Suc l)) zs)"
  shows "k = lev_in (D @ [(node, l)]) (deps_of ps n)"
proof -
  have new: "node \<notin> fst ` set D" and below: "\<forall>x \<in> set D. snd x \<le> l"
    using inv by (auto simp: kahn_inv_def sorted_append)
  consider (old) "(n, k) \<in> set (D @ (node, l) # q)" | (new) "n \<in> set zs" "k = Suc l"
    using nk by auto
  then show ?thesis
  proof cases
    case old
    then have "n \<in> fst ` set (D @ (node, l) # q)" by force
    then have "set (deps_of ps n) \<subseteq> fst ` set D" using inv unfolding kahn_inv_def by blast
    moreover have "k = lev_in D (deps_of ps n)" using inv old unfolding kahn_inv_def by blast
    ultimately show ?thesis using lev_in_snoc [OF _ new] by simp
  next
    case new
    then show ?thesis using below zs lev_in_new by metis
  qed
qed

lemma kahn_step:
  assumes inv: "kahn_inv ps D ((node, l) # q) ind"
    and adj: "\<And>d n. count_list (adj_at adj d) n = count_list (deps_of ps n) d"
  obtains ind' q' where "relax l (adj_at adj node) ind q = Some (ind', q')"
    "kahn_inv ps (D @ [(node, l)]) q' ind'"
proof -
  obtain ind' zs where rel: "relax l (adj_at adj node) ind q
      = Some (ind', q @ map (\<lambda>n. (n, Suc l)) zs)"
    and deg: "\<And>n. n \<in> set (keys ps) \<Longrightarrow> hm_get ind' n
      = Some (length (filter (\<lambda>d. d \<notin> insert node (fst ` set D)) (deps_of ps n)))"
    and zs: "distinct zs" "\<And>n. n \<in> set zs \<longleftrightarrow>
       node \<in> set (deps_of ps n) \<and> set (deps_of ps n) \<subseteq> insert node (fst ` set D)"
    using kahn_relax [OF inv adj] by blast
  let ?D = "D @ [(node, l)]" and ?q = "q @ map (\<lambda>n. (n, Suc l)) zs"
  have queued: "n \<in> fst ` set (D @ (node, l) # q) \<longleftrightarrow> set (deps_of ps n) \<subseteq> fst ` set D"
    if "n \<in> set (keys ps)" for n using inv that unfolding kahn_inv_def by blast
  have srt: "sorted (map snd (D @ (node, l) # q))" and qle: "\<forall>x \<in> set q. snd x \<le> Suc l"
    and new: "node \<notin> fst ` set D" using inv by (auto simp: kahn_inv_def)
  have zk: "n \<in> set (keys ps)" if "n \<in> set zs" for n
    using that zs(2) deps_of_absent [of n ps] by (cases "n \<in> set (keys ps)") auto
  have zn: "n \<notin> fst ` set (D @ (node, l) # q)" if "n \<in> set zs" for n
    using queued [OF zk [OF that]] that zs(2) new by blast
  have mem: "n \<in> fst ` set (?D @ ?q) \<longleftrightarrow> set (deps_of ps n) \<subseteq> fst ` set ?D"
    if "n \<in> set (keys ps)" for n
  proof -
    have "n \<in> fst ` set (?D @ ?q) \<longleftrightarrow> n \<in> fst ` set (D @ (node, l) # q) \<or> n \<in> set zs"
      by (auto simp: image_Un image_image)
    moreover have "fst ` set ?D = insert node (fst ` set D)" by simp
    moreover have "X \<subseteq> insert node S \<longleftrightarrow> X \<subseteq> S \<or> node \<in> X \<and> X \<subseteq> insert node S" for X S
      by blast
    ultimately show ?thesis by (simp only: queued [OF that] zs(2))
  qed
  have dist: "distinct (map fst (D @ (node, l) # q))"
    and sub: "fst ` set (D @ (node, l) # q) \<subseteq> set (keys ps)"
    using inv by (simp_all add: kahn_inv_def)
  have "distinct (map fst (?D @ ?q))" using dist zs(1) zn by (auto simp: comp_def)
  moreover have "fst ` set (?D @ ?q) \<subseteq> set (keys ps)" using sub zk by auto
  moreover have "sorted (map snd (?D @ ?q))"
    using srt qle by (fastforce simp: sorted_append comp_def map_replicate_const)
  moreover have "\<forall>x \<in> set ?q. snd x \<le> Suc (snd (hd ?q))"
    using srt qle by (cases q; cases zs) (fastforce simp: sorted_append)+
  moreover have "\<forall>(n, k) \<in> set (?D @ ?q). k = lev_in ?D (deps_of ps n)"
    using kahn_inv_levels [OF inv zs(2)] by blast
  ultimately have "kahn_inv ps ?D ?q ind'"
    unfolding kahn_inv_def using mem deg by simp
  with rel show ?thesis by (rule that)
qed


text \<open>The layer map is the list of popped nodes, grouped by layer.\<close>

definition layer_names :: "(string \<times> nat) list \<Rightarrow> nat \<Rightarrow> string list" where
  "layer_names D l = map fst (filter (\<lambda>x. snd x = l) D)"

definition layer_map_of :: "(nat \<times> string list) list \<Rightarrow> (string \<times> nat) list \<Rightarrow> bool" where
  "layer_map_of lm D \<longleftrightarrow>
     (\<forall>l. hm_get lm l = (if layer_names D l = [] then None else Some (layer_names D l)))"

lemma layer_map_of_push:
  "layer_map_of lm D \<Longrightarrow> layer_map_of (push_layer l n lm) (D @ [(n, l)])"
  by (auto simp: layer_map_of_def push_layer_def layer_names_def unwrap_or_def)

lemma kahn_loop_inv:
  assumes "\<And>d n. count_list (adj_at adj d) n = count_list (deps_of ps n) d"
    and "kahn_inv ps D q ind" and "layer_map_of lm D" and "visited = length D"
  shows "\<exists>lm' D' ind'. kahn_loop adj q ind lm visited = Some (lm', length D') \<and>
      kahn_inv ps D' [] ind' \<and> layer_map_of lm' D'"
  using assms
proof (induction adj q ind lm visited arbitrary: D rule: kahn_loop.induct)
  case (1 adj ind lm visited)
  then show ?case by auto
next
  case (2 adj node l q ind lm visited)
  obtain ind' q' where r: "relax l (adj_at adj node) ind q = Some (ind', q')"
    and inv: "kahn_inv ps (D @ [(node, l)]) q' ind'"
    using kahn_step [OF "2.prems"(2,1)] by blast
  have "\<exists>lm' D' ind''. kahn_loop adj q' ind' (push_layer l node lm) (visited + 1)
      = Some (lm', length D') \<and> kahn_inv ps D' [] ind'' \<and> layer_map_of lm' D'"
    using "2.IH" [OF r [unfolded adj_at_def] refl "2.prems"(1) inv] "2.prems"(3,4)
    by (simp add: layer_map_of_push)
  with r show ?case by (simp add: adj_at_def)
qed

lemma kahn_inv_start:
  assumes "hm_wf ps" and "(ind, adj) = count_all ps (init_in_degrees ps, init_adj ps)"
    and "mset ind' = mset ind"
  shows "kahn_inv ps [] (init_queue ind') ind"
proof -
  note spec = init_degrees_spec [OF assms(1,2)]
  have wf': "hm_wf ind'" using assms(3) spec(3) by (rule hm_wf_perm)
  have get: "hm_get ind' n = hm_get ind n" for n using spec(3) assms(3) by (rule hm_get_perm)
  have q: "fst ` set (init_queue ind') = {n \<in> set (keys ps). deps_of ps n = []}"
  proof -
    have "n \<in> fst ` set (init_queue ind') \<longleftrightarrow> hm_get ind n = Some 0" for n
      using hm_get_Some_iff [OF wf'] get by (force simp: init_queue_def)
    moreover have "hm_get ind n = Some 0 \<longleftrightarrow> n \<in> set (keys ps) \<and> deps_of ps n = []" for n
      using spec(1) [of n] hm_get_Some_key [of ind n] spec(2) by force
    ultimately show ?thesis by blast
  qed
  have "distinct (map fst (filter (\<lambda>(name, deg). deg = 0) ind'))"
    using wf' by (simp add: hm_wf_def keys_def distinct_map_filter)
  then have "distinct (map fst (init_queue ind'))"
    by (simp add: init_queue_def comp_def case_prod_unfold)
  moreover have "\<forall>x \<in> set (init_queue ind'). snd x = 0" by (auto simp: init_queue_def)
  moreover from this have "sorted (map snd (init_queue ind'))"
    by (auto simp: sorted_iff_nth_mono)
  ultimately show ?thesis
    using q spec(1) unfolding kahn_inv_def by (force simp: lev_in_def)
qed

text \<open>
  The outcome of the layering: a list \<open>D\<close> of all popped programs with their layers. A program
  is missing from it exactly when some dependency is missing, so nothing is missing when the
  relation is acyclic.
\<close>

definition level_list :: "programs \<Rightarrow> (string \<times> nat) list \<Rightarrow> bool" where
  "level_list ps D \<longleftrightarrow>
     distinct (map fst D) \<and> fst ` set D = set (keys ps) \<and>
     (\<forall>(n, l) \<in> set D. l = lev_in D (deps_of ps n))"

lemma kahn_inv_end_deps:
  assumes "kahn_inv ps D [] ind" and "n \<in> set (keys ps)"
  shows "n \<in> fst ` set D \<longleftrightarrow> set (deps_of ps n) \<subseteq> fst ` set D"
  using assms by (simp add: kahn_inv_def)

lemma acyclic_all_popped:
  assumes wf: "hm_wf ps" and known: "deps_known ps" and ac: "acyclic (dep_rel ps)"
    and inv: "kahn_inv ps D [] ind"
  shows "fst ` set D = set (keys ps)"
proof -
  have wfr: "wf (dep_rel ps)" using wf known ac by (rule dep_rel_wf)
  have "n \<in> set (keys ps) \<longrightarrow> n \<in> fst ` set D" for n
    using wfr
  proof (induction n rule: wf_induct_rule)
    case (less n)
    then show ?case
      using kahn_inv_end_deps [OF inv] deps_known_deps [OF wf known, of n] by (auto simp: dep_rel_def)
  qed
  with inv show ?thesis by (auto simp: kahn_inv_def)
qed

lemma level_list_dep_less:
  assumes D: "level_list ps D" and dep: "(d, n) \<in> dep_rel ps"
    and mem: "(n, l) \<in> set D" "(d, k) \<in> set D"
  shows "k < l"
proof -
  let ?S = "{l. \<exists>d \<in> set (deps_of ps n). (d, l) \<in> set D}"
  have "finite ?S" by (rule finite_subset [of _ "snd ` set D"]) force+
  moreover have "k \<in> ?S" using dep mem(2) by (auto simp: dep_rel_def)
  ultimately have "k \<le> Max ?S" by simp
  moreover have "l = lev_in D (deps_of ps n)" using D mem(1) by (auto simp: level_list_def)
  ultimately show ?thesis using dep by (auto simp: lev_in_def dep_rel_def)
qed

lemma level_list_acyclic:
  assumes wf: "hm_wf ps" and known: "deps_known ps" and D: "level_list ps D"
  shows "acyclic (dep_rel ps)"
proof -
  define f where "f n = the (map_of D n)" for n
  have f: "(n, f n) \<in> set D" if "n \<in> set (keys ps)" for n
  proof -
    have "n \<in> fst ` set D" using D that by (simp add: level_list_def)
    then obtain l where "(n, l) \<in> set D" by force
    then show ?thesis using D by (simp add: f_def level_list_def)
  qed
  have "dep_rel ps \<subseteq> measure f"
  proof clarify
    fix d n assume dn: "(d, n) \<in> dep_rel ps"
    then have "n \<in> set (keys ps)" "d \<in> set (keys ps)"
      by (rule dep_rel_keys, rule dep_rel_source [OF wf known])
    then show "(d, n) \<in> measure f" using level_list_dep_less [OF D dn f f] by simp
  qed
  then have "wf (dep_rel ps)" by (rule wf_subset [OF wf_measure])
  then show ?thesis by (rule wf_acyclic)
qed


lemma level_list_unique:
  assumes wf: "hm_wf ps" and known: "deps_known ps"
    and D: "level_list ps D" and D': "level_list ps D'"
  shows "set D = set D'"
proof -
  have wfr: "wf (dep_rel ps)"
    using wf known level_list_acyclic [OF wf known D] by (rule dep_rel_wf)
  have "(n, l) \<in> set D \<longleftrightarrow> (n, l) \<in> set D'" for n l
    using wfr
  proof (induction n arbitrary: l rule: wf_induct_rule)
    case (less n)
    have "(d, k) \<in> set D \<longleftrightarrow> (d, k) \<in> set D'" if "d \<in> set (deps_of ps n)" for d k
      by (rule less.IH) (simp add: that dep_rel_def)
    then have "{k. \<exists>d \<in> set (deps_of ps n). (d, k) \<in> set D}
        = {k. \<exists>d \<in> set (deps_of ps n). (d, k) \<in> set D'}"
      by blast
    then have eq: "lev_in D (deps_of ps n) = lev_in D' (deps_of ps n)" by (simp add: lev_in_def)
    have "(n, l) \<in> set E \<longleftrightarrow> n \<in> set (keys ps) \<and> l = lev_in E (deps_of ps n)"
      if E: "level_list ps E" for E
    proof
      assume nl: "(n, l) \<in> set E"
      then have "n \<in> fst ` set E" by force
      with nl E show "n \<in> set (keys ps) \<and> l = lev_in E (deps_of ps n)"
        by (auto simp: level_list_def)
    next
      assume nl: "n \<in> set (keys ps) \<and> l = lev_in E (deps_of ps n)"
      then have "n \<in> fst ` set E" using E by (simp add: level_list_def)
      then obtain k where "(n, k) \<in> set E" by force
      then show "(n, l) \<in> set E" using E nl by (auto simp: level_list_def)
    qed
    from this [OF D] this [OF D'] eq show ?case by simp
  qed
  then show ?thesis by auto
qed

lemma kahn_loop_levels:
  assumes wf: "hm_wf ps" and iter: "\<And>m. mset (iter m) = mset m"
    and ca: "(ind, adj) = count_all ps (init_in_degrees ps, init_adj ps)"
  obtains lm D where "kahn_loop adj (init_queue (iter ind)) ind [] 0 = Some (lm, length D)"
    "layer_map_of lm D"
    "deps_known ps \<Longrightarrow> acyclic (dep_rel ps) \<Longrightarrow> level_list ps D"
    "length D = length ps \<Longrightarrow> level_list ps D"
proof -
  have "kahn_inv ps [] (init_queue (iter ind)) ind" using wf ca iter by (rule kahn_inv_start)
  moreover have "layer_map_of [] []" by (simp add: layer_map_of_def layer_names_def)
  ultimately obtain lm D ind' where
    k: "kahn_loop adj (init_queue (iter ind)) ind [] 0 = Some (lm, length D)"
    and inv: "kahn_inv ps D [] ind'" and lm: "layer_map_of lm D"
    using kahn_loop_inv [OF init_degrees_spec(4) [OF wf ca], of "[]"] by fastforce
  have level: "level_list ps D" if "fst ` set D = set (keys ps)"
    using inv that by (simp add: kahn_inv_def level_list_def)
  have "fst ` set D = set (keys ps)" if len: "length D = length ps"
  proof (rule card_subset_eq)
    have "distinct (map fst D)" "distinct (keys ps)"
      using inv wf by (simp_all add: kahn_inv_def hm_wf_def)
    then show "card (fst ` set D) = card (set (keys ps))"
      using len by (metis distinct_card keys_def length_map list.set_map)
  qed (use inv in \<open>auto simp: kahn_inv_def\<close>)
  with that k lm level acyclic_all_popped [OF wf _ _ inv] show ?thesis by blast
qed

section \<open>The layers\<close>

text \<open>
  The specification of the layers: \<open>layer_spec ps L\<close> says that \<open>L\<close> partitions the programs
  so that a program without dependencies is in layer 0 and any other one directly above the
  deepest of its dependencies.
\<close>

definition layer_of :: "string list list \<Rightarrow> string \<Rightarrow> nat \<Rightarrow> bool" where
  "layer_of L n i \<longleftrightarrow> i < length L \<and> n \<in> set (L ! i)"

definition layer_spec :: "programs \<Rightarrow> string list list \<Rightarrow> bool" where
  "layer_spec ps L \<longleftrightarrow>
     distinct (concat L) \<and> set (concat L) = set (keys ps) \<and>
     (\<forall>n i. layer_of L n i \<longrightarrow>
        (if deps_of ps n = [] then i = 0
         else (\<exists>d \<in> set (deps_of ps n). layer_of L d (i - 1) \<and> 0 < i) \<and>
              (\<forall>d \<in> set (deps_of ps n). \<exists>j < i. layer_of L d j)))"


lemma max_layer_eq: "max_layer lm = Max (insert 0 (set (keys lm)))"
proof -
  have "foldl (\<lambda>m l. if l > m then l else m) m0 xs = Max (insert m0 (set xs))" for m0 :: nat and xs
  proof (induction xs arbitrary: m0)
    case (Cons x xs)
    have "(if x > m0 then x else m0) = max m0 x" by simp
    with Cons show ?case by (cases "xs = []") (simp_all add: max.assoc)
  qed simp
  then show ?thesis by (simp add: max_layer_def)
qed

lemma layer_map_keys:
  assumes "layer_map_of lm D" shows "set (keys lm) = snd ` set D"
proof -
  have "l \<in> set (keys lm) \<longleftrightarrow> l \<in> snd ` set D" for l
  proof -
    have "l \<in> set (keys lm) \<longleftrightarrow> layer_names D l \<noteq> []"
      using assms hm_get_None_iff [of lm l] by (auto simp: layer_map_of_def)
    also have "\<dots> \<longleftrightarrow> l \<in> snd ` set D" by (force simp: layer_names_def filter_empty_conv)
    finally show ?thesis .
  qed
  then show ?thesis by blast
qed

lemma level_list_pred:
  assumes D: "level_list ps D" and known: "hm_wf ps" "deps_known ps" and mem: "(n, Suc l) \<in> set D"
  shows "\<exists>d \<in> set (deps_of ps n). (d, l) \<in> set D"
proof -
  let ?S = "{k. \<exists>d \<in> set (deps_of ps n). (d, k) \<in> set D}"
  have lev: "Suc l = lev_in D (deps_of ps n)" using D mem by (auto simp: level_list_def)
  then have ne: "deps_of ps n \<noteq> []" and l: "l = Max ?S" by (auto simp: lev_in_def split: if_splits)
  have "hd (deps_of ps n) \<in> fst ` set D"
    using D ne deps_known_deps [OF known, of n] by (auto simp: level_list_def)
  then have "?S \<noteq> {}" using ne by fastforce
  moreover have "finite ?S" by (rule finite_subset [of _ "snd ` set D"]) force+
  ultimately have "l \<in> ?S" using l Max_in by blast
  then show ?thesis by blast
qed

lemma level_list_no_gap:
  assumes "level_list ps D" and "hm_wf ps" "deps_known ps"
  shows "(n, l) \<in> set D \<Longrightarrow> k \<le> l \<Longrightarrow> k \<in> snd ` set D"
proof (induction l arbitrary: n)
  case (Suc l)
  then show ?case using level_list_pred [OF assms] by (metis image_eqI le_SucE snd_conv)
qed force

lemma layers_present:
  assumes D: "level_list ps D" and known: "hm_wf ps" "deps_known ps" and ne: "ps \<noteq> []"
    and lm: "layer_map_of lm D"
  shows "l \<le> max_layer lm \<longleftrightarrow> l \<in> snd ` set D"
proof -
  have "set D \<noteq> {}" using D ne by (cases ps) (auto simp: level_list_def)
  then obtain n k where nk: "(n, k) \<in> set D" by (cases D) auto
  then have 0: "0 \<in> snd ` set D" using level_list_no_gap [OF D known nk] by blast
  then have m: "max_layer lm = Max (snd ` set D)"
    by (simp add: max_layer_eq layer_map_keys [OF lm] insert_absorb)
  have "Max (snd ` set D) \<in> snd ` set D" using nk by (intro Max_in) auto
  then obtain n' where top: "(n', Max (snd ` set D)) \<in> set D" by force
  show ?thesis
  proof
    assume "l \<le> max_layer lm"
    then show "l \<in> snd ` set D" using m by (intro level_list_no_gap [OF D known top]) simp
  next
    assume "l \<in> snd ` set D"
    then show "l \<le> max_layer lm" unfolding m by (intro Max_ge) simp_all
  qed
qed

lemma make_layers_eq:
  assumes D: "level_list ps D" and known: "hm_wf ps" "deps_known ps" and ne: "ps \<noteq> []"
    and lm: "layer_map_of lm D"
  shows "make_layers ps lm
    = map (\<lambda>l. sort_start ps (layer_names D l)) [0..<Suc (max_layer lm)]"
proof -
  have "hm_get lm l = Some (layer_names D l)" if "l \<in> set [0..<Suc (max_layer lm)]" for l
  proof -
    have "l \<le> max_layer lm" using that by auto
    then have "l \<in> snd ` set D" using layers_present [OF assms, of l] by blast
    then have "layer_names D l \<noteq> []" by (force simp: layer_names_def filter_empty_conv)
    then show ?thesis using lm by (simp add: layer_map_of_def)
  qed
  then have "List.map_filter (\<lambda>l. map_option (sort_start ps) (hm_get lm l)) [0..<Suc (max_layer lm)]
      = map (\<lambda>l. sort_start ps (layer_names D l)) [0..<Suc (max_layer lm)]"
    by (simp add: List.map_filter_def del: upt_Suc)
  then show ?thesis using ne by (simp add: make_layers_def del: upt_Suc)
qed

lemma set_sort_start [simp]: "set (sort_start ps xs) = set xs"
  by (simp add: sort_start_def)

lemma set_sort_stop [simp]: "set (sort_stop ps xs) = set xs"
  by (simp add: sort_stop_def)

lemma set_layer_names: "n \<in> set (layer_names D l) \<longleftrightarrow> (n, l) \<in> set D"
  by (force simp: layer_names_def)

lemma layer_of_make_layers:
  assumes "level_list ps D" and "hm_wf ps" "deps_known ps" and "ps \<noteq> []" and "layer_map_of lm D"
  shows "layer_of (make_layers ps lm) n i \<longleftrightarrow> (n, i) \<in> set D"
proof -
  have "i \<le> max_layer lm" if "(n, i) \<in> set D"
    using layers_present [OF assms, of i] that by force
  then show ?thesis
    by (auto simp: layer_of_def make_layers_eq [OF assms] set_layer_names nth_append simp del: upt_Suc)
qed


section \<open>Properties of \<open>build\<close>\<close>

text \<open>What a successful build consists of; every property below starts from here.\<close>

lemma build_cases:
  assumes wf: "hm_wf ps" and iter: "\<And>m. mset (iter m) = mset m"
    and ok: "build iter is_cyclic ps = Some (Inr g)"
  obtains lm D where "deps_known ps" "level_list ps D" "layer_map_of lm D"
    "start_layers g = make_layers ps lm"
    "stop_layers g = map (sort_stop ps) (rev (make_layers ps lm))"
proof -
  obtain ind adj where ca: "(ind, adj) = count_all ps (init_in_degrees ps, init_adj ps)"
    by (metis surj_pair)
  obtain lm D where k: "kahn_loop adj (init_queue (iter ind)) ind [] 0 = Some (lm, length D)"
    and lm: "layer_map_of lm D" and lev: "length D = length ps \<Longrightarrow> level_list ps D"
    using kahn_loop_levels [OF wf iter ca] by blast
  have known: "deps_known ps"
  proof (rule ccontr)
    assume "\<not> deps_known ps"
    then obtain e where "add_all_edges (keys ps) ps [] = Inl e" using build_edges_err by blast
    with ok show False by (simp add: build_def)
  qed
  with ok k have "length D = length ps" and
    "g = \<lparr>start_layers = make_layers ps lm,
           stop_layers = map (sort_stop ps) (rev (make_layers ps lm))\<rparr>"
    by (auto simp: build_def build_edges Let_def simp flip: ca split: if_splits)
  with that known lm lev show ?thesis by simp
qed

lemma build_total:
  assumes wf: "hm_wf ps" and iter: "\<And>m. mset (iter m) = mset m"
  shows "\<exists>r. build iter is_cyclic ps = Some r"
proof -
  obtain ind adj where ca: "(ind, adj) = count_all ps (init_in_degrees ps, init_adj ps)"
    by (metis surj_pair)
  then obtain lm v where "kahn_loop adj (init_queue (iter ind)) ind [] 0 = Some (lm, v)"
    using kahn_loop_levels [OF wf iter ca] by blast
  then show ?thesis by (simp add: build_def Let_def split: sum.split flip: ca)
qed


lemma make_layers_empty [simp]: "make_layers [] lm = []"
  by (simp add: make_layers_def)

lemma layer_of_build:
  assumes "level_list ps D" and "hm_wf ps" "deps_known ps" and "layer_map_of lm D"
  shows "layer_of (make_layers ps lm) n i \<longleftrightarrow> (n, i) \<in> set D"
proof (cases "ps = []")
  case True
  with assms(1) show ?thesis by (auto simp: level_list_def layer_of_def)
next
  case False
  with assms show ?thesis by (intro layer_of_make_layers)
qed

lemma distinct_layer_names: "distinct (map fst D) \<Longrightarrow> distinct (layer_names D l)"
  by (simp add: layer_names_def distinct_map_filter)

lemma distinct_sort_start [simp]: "distinct (sort_start ps xs) = distinct xs"
  by (simp add: sort_start_def)

lemma distinct_concat_layers:
  assumes "distinct (map fst D)" and "distinct ls"
  shows "distinct (concat (map (\<lambda>l. sort_start ps (layer_names D l)) ls))"
  using assms(2)
proof (induction ls)
  case (Cons l ls)
  have "k = k'" if "(n, k) \<in> set D" "(n, k') \<in> set D" for n k k'
    using assms(1) that by (metis eq_key_imp_eq_value)
  then have "set (layer_names D l) \<inter> set (layer_names D k) = {}" if "k \<in> set ls" for k
    using Cons.prems that set_layer_names by fastforce
  with Cons show ?case
    by (simp add: distinct_layer_names [OF assms(1)] Int_UN_distrib)
qed simp

lemma concat_layer_of: "n \<in> set (concat L) \<longleftrightarrow> (\<exists>i. layer_of L n i)"
  by (auto simp: layer_of_def set_conv_nth [of L])

lemma level_list_make_spec:
  assumes D: "level_list ps D" and known: "hm_wf ps" "deps_known ps" and lm: "layer_map_of lm D"
  shows "layer_spec ps (make_layers ps lm)"
proof (cases "ps = []")
  case True
  then show ?thesis by (simp add: layer_spec_def layer_of_def)
next
  case ne: False
  let ?L = "make_layers ps lm"
  note lof = layer_of_build [OF D known lm]
  have "distinct (concat ?L)"
    using D unfolding make_layers_eq [OF D known ne lm]
    by (intro distinct_concat_layers) (simp_all add: level_list_def)
  moreover have "n \<in> set (concat ?L) \<longleftrightarrow> n \<in> fst ` set D" for n
    unfolding concat_layer_of lof by force
  then have "set (concat ?L) = fst ` set D" by blast
  then have "set (concat ?L) = set (keys ps)" using D by (simp add: level_list_def)
  moreover have "if deps_of ps n = [] then i = 0
      else (\<exists>d \<in> set (deps_of ps n). layer_of ?L d (i - 1) \<and> 0 < i) \<and>
           (\<forall>d \<in> set (deps_of ps n). \<exists>j < i. layer_of ?L d j)"
    if "layer_of ?L n i" for n i
  proof -
    have ni: "(n, i) \<in> set D" using that lof by simp
    then have i: "i = lev_in D (deps_of ps n)" using D by (auto simp: level_list_def)
    have all: "\<exists>j < i. (d, j) \<in> set D" if d: "d \<in> set (deps_of ps n)" for d
    proof -
      have dn: "(d, n) \<in> dep_rel ps" using d by (simp add: dep_rel_def)
      have "d \<in> fst ` set D"
        using D dep_rel_source [OF known dn] by (simp add: level_list_def)
      then obtain j where "(d, j) \<in> set D" by force
      then show ?thesis using level_list_dep_less [OF D dn ni] by blast
    qed
    show ?thesis
    proof (cases i)
      case 0
      then show ?thesis using i by (simp add: lev_in_def split: if_splits)
    next
      case (Suc k)
      then have "deps_of ps n \<noteq> []" using i by (auto simp: lev_in_def)
      then show ?thesis
        using level_list_pred [OF D known] ni Suc all lof by (auto simp del: set_concat)
    qed
  qed
  ultimately show ?thesis unfolding layer_spec_def by blast
qed


lemma layer_spec_deps_below:
  "layer_spec ps L \<Longrightarrow> (d, n) \<in> dep_rel ps \<Longrightarrow> layer_of L n i \<Longrightarrow> \<exists>j < i. layer_of L d j"
  unfolding layer_spec_def dep_rel_def by (metis (no_types, lifting) case_prodD empty_iff
    list.set(1) mem_Collect_eq)

text \<open>The layers of a successful build cover the programs, each once, in dependency order.\<close>

lemma build_stop_layer:
  assumes "hm_wf ps" and "\<And>m. mset (iter m) = mset m"
    and "build iter is_cyclic ps = Some (Inr g)"
  shows "layer_of (stop_layers g) n i \<longleftrightarrow>
     i < length (start_layers g) \<and> layer_of (start_layers g) n (length (start_layers g) - Suc i)"
proof -
  obtain lm where "start_layers g = make_layers ps lm"
    and "stop_layers g = map (sort_stop ps) (rev (make_layers ps lm))"
    using build_cases [OF assms] by metis
  then show ?thesis by (auto simp: layer_of_def rev_nth)
qed

lemma build_dep_layers:
  assumes "hm_wf ps" and "\<And>m. mset (iter m) = mset m"
    and "build iter is_cyclic ps = Some (Inr g)" and "(d, n) \<in> dep_rel ps"
  shows "layer_of (start_layers g) d i \<Longrightarrow> layer_of (start_layers g) n j \<Longrightarrow> i < j"
    and "layer_of (stop_layers g) d i \<Longrightarrow> layer_of (stop_layers g) n j \<Longrightarrow> j < i"
proof -
  obtain lm D where b: "deps_known ps" "level_list ps D" "layer_map_of lm D"
    and start: "start_layers g = make_layers ps lm"
    using build_cases [OF assms(1-3)] by metis
  have lt: "i < j" if "layer_of (start_layers g) d i" "layer_of (start_layers g) n j" for i j
    using level_list_dep_less [OF b(2) assms(4)] that layer_of_build [OF b(2) assms(1) b(1,3)]
    by (simp add: start)
  then show "layer_of (start_layers g) d i \<Longrightarrow> layer_of (start_layers g) n j \<Longrightarrow> i < j" .
  show "layer_of (stop_layers g) d i \<Longrightarrow> layer_of (stop_layers g) n j \<Longrightarrow> j < i"
    using lt [of "length (start_layers g) - Suc i" "length (start_layers g) - Suc j"]
      build_stop_layer [OF assms(1-3)] by auto
qed

lemma build_cover:
  assumes "hm_wf ps" and "\<And>m. mset (iter m) = mset m"
    and "build iter is_cyclic ps = Some (Inr g)"
  shows "set (concat (start_layers g)) = set (keys ps)" and "distinct (concat (start_layers g))"
    and "set (concat (stop_layers g)) = set (keys ps)"
proof -
  obtain lm D where b: "deps_known ps" "level_list ps D" "layer_map_of lm D"
    and start: "start_layers g = make_layers ps lm"
    and stop: "stop_layers g = map (sort_stop ps) (rev (make_layers ps lm))"
    using build_cases [OF assms] by metis
  have "layer_spec ps (start_layers g)"
    using level_list_make_spec [OF b(2) assms(1) b(1,3)] start by simp
  then show c: "set (concat (start_layers g)) = set (keys ps)" "distinct (concat (start_layers g))"
    by (auto simp: layer_spec_def)
  show "set (concat (stop_layers g)) = set (keys ps)"
    using c(1) by (simp add: start stop)
qed

text \<open>
  C9: A successful build puts every program in exactly one start layer, a program without
  dependencies in layer 0 and every other program directly above its deepest dependency; inside
  a layer the programs are in ascending order of priority, then name.
\<close>

theorem build_layers:
  assumes "hm_wf ps" and "\<And>m. mset (iter m) = mset m"
    and "build iter is_cyclic ps = Some (Inr g)"
  shows "layer_spec ps (start_layers g) \<and>
    (\<forall>L \<in> set (start_layers g). sorted (map (\<lambda>n. (prio_of ps n, n)) L))"
proof -
  obtain lm D where b: "deps_known ps" "level_list ps D" "layer_map_of lm D"
    "start_layers g = make_layers ps lm"
    using build_cases [OF assms] by metis
  have "sorted (map (\<lambda>n. (prio_of ps n, n)) L)" if "L \<in> set (make_layers ps lm)" for L
    using that by (auto simp: make_layers_def List.map_filter_def sort_start_def split: if_splits)
  then show ?thesis using level_list_make_spec [OF b(2) assms(1) b(1,3)] b(4) by auto
qed

text \<open>
  C10: Startup and shutdown order: a program is in a later start layer and an earlier stop layer
  than each of its dependencies; the stop layers are the start layers reversed, each in
  descending order of priority, then ascending name.
\<close>

theorem build_order:
  assumes "hm_wf ps" and "\<And>m. mset (iter m) = mset m"
    and "build iter is_cyclic ps = Some (Inr g)"
  shows "(\<forall>d n i j. (d, n) \<in> dep_rel ps \<and> layer_of (start_layers g) d i \<and>
             layer_of (start_layers g) n j \<longrightarrow> i < j) \<and>
    (\<forall>d n i j. (d, n) \<in> dep_rel ps \<and> layer_of (stop_layers g) d i \<and>
             layer_of (stop_layers g) n j \<longrightarrow> j < i) \<and>
    map set (stop_layers g) = rev (map set (start_layers g)) \<and>
    (\<forall>L \<in> set (stop_layers g). sorted (map (\<lambda>n. (- int (prio_of ps n), n)) L))"
proof -
  obtain lm D where b: "deps_known ps" "level_list ps D" "layer_map_of lm D"
    and start: "start_layers g = make_layers ps lm"
    and stop: "stop_layers g = map (sort_stop ps) (rev (make_layers ps lm))"
    using build_cases [OF assms] by metis
  have "\<forall>d n i j. (d, n) \<in> dep_rel ps \<and> layer_of (start_layers g) d i \<and>
             layer_of (start_layers g) n j \<longrightarrow> i < j"
    using build_dep_layers(1) [OF assms] by blast
  moreover have "\<forall>d n i j. (d, n) \<in> dep_rel ps \<and> layer_of (stop_layers g) d i \<and>
             layer_of (stop_layers g) n j \<longrightarrow> j < i"
    using build_dep_layers(2) [OF assms] by blast
  moreover have "map set (stop_layers g) = rev (map set (start_layers g))"
    by (simp add: stop start rev_map comp_def)
  moreover have "sorted (map (\<lambda>n. (- int (prio_of ps n), n)) L)" if "L \<in> set (stop_layers g)" for L
    using that by (auto simp: stop sort_stop_def)
  ultimately show ?thesis by blast
qed

lemma add_all_edges_err:
  "add_all_edges nodes ps es = Inl e \<Longrightarrow>
     \<exists>n c d. (n, c) \<in> set ps \<and> d \<in> set (c_depends_on c) \<and> d \<notin> set nodes \<and>
       e = unknown_dependency n d"
proof (induction nodes ps es rule: add_all_edges.induct)
  case (2 nodes name cfg ps es)
  show ?case
  proof (cases "add_dep_edges nodes name (c_depends_on cfg) es")
    case (Inl e')
    with 2 have "add_dep_edges nodes name (c_depends_on cfg) es = Inl e" by simp
    then show ?thesis by (auto dest!: add_dep_edges_err)
  next
    case (Inr es')
    with 2 show ?thesis by fastforce
  qed
qed simp

lemma build_ok_acyclic:
  assumes "hm_wf ps" and "\<And>m. mset (iter m) = mset m" and known: "deps_known ps"
    and ac: "acyclic (dep_rel ps)" and "\<not> is_cyclic (keys ps) (edges_of ps)"
  shows "\<exists>g. build iter is_cyclic ps = Some (Inr g)"
proof -
  obtain ind adj where ca: "(ind, adj) = count_all ps (init_in_degrees ps, init_adj ps)"
    by (metis surj_pair)
  obtain lm D where k: "kahn_loop adj (init_queue (iter ind)) ind [] 0 = Some (lm, length D)"
    and lev: "level_list ps D"
    using kahn_loop_levels [OF assms(1,2) ca] known ac by metis
  have "distinct (map fst D)" "fst ` set D = set (keys ps)" "distinct (keys ps)"
    using lev assms(1) by (simp_all add: level_list_def hm_wf_def)
  then have "length D = length ps" by (metis distinct_card keys_def length_map list.set_map)
  with known k assms(5) show ?thesis
    by (auto simp: build_def build_edges Let_def simp flip: ca)
qed

text \<open>
  C11: With a correct cycle test, a build succeeds exactly when every dependency names a program
  and the dependencies are acyclic. An unknown dependency is reported with the program that
  names it, a cycle by the first cycle check; the second check, after the layering, never fires
  and no in-degree ever drops below zero.
\<close>

theorem build_outcome:
  assumes "hm_wf ps" and "\<And>m. mset (iter m) = mset m"
    and "\<And>nodes es. is_cyclic nodes es \<longleftrightarrow> \<not> acyclic (set es)"
  shows "(if \<not> deps_known ps then
       (\<exists>n c d. (n, c) \<in> set ps \<and> d \<in> set (c_depends_on c) \<and> d \<notin> set (keys ps) \<and>
          build iter is_cyclic ps = Some (Inl (unknown_dependency n d)))
     else if \<not> acyclic (dep_rel ps) then build iter is_cyclic ps = Some (Inl circular_dag)
     else (\<exists>g. build iter is_cyclic ps = Some (Inr g)))"
proof (cases "deps_known ps")
  case False
  then obtain e where "add_all_edges (keys ps) ps [] = Inl e" using build_edges_err by blast
  with add_all_edges_err [OF this] False show ?thesis by (auto simp: build_def)
next
  case True
  have cyc: "is_cyclic (keys ps) (edges_of ps) \<longleftrightarrow> \<not> acyclic (dep_rel ps)"
    by (simp add: assms(3) set_edges_of [OF assms(1)])
  show ?thesis
  proof (cases "acyclic (dep_rel ps)")
    case ac: True
    then show ?thesis using build_ok_acyclic [OF assms(1,2) True ac] cyc True by simp
  next
    case False
    then show ?thesis using cyc True by (simp add: build_def build_edges)
  qed
qed

text \<open>
  C12: The layers do not depend on the iteration order of any hash map: two program maps with the
  same entries give the same start and stop layers.
\<close>

theorem build_deterministic:
  assumes "hm_wf ps" and "\<And>m. mset (iter m) = mset m" and "\<And>m. mset (iter' m) = mset m"
    and "mset ps' = mset ps"
    and "build iter is_cyclic ps = Some (Inr g)" and "build iter' is_cyclic' ps' = Some (Inr g')"
  shows "g' = g"
proof -
  have wf': "hm_wf ps'" using assms(4,1) by (rule hm_wf_perm)
  obtain lm D where b: "deps_known ps" "level_list ps D" "layer_map_of lm D"
    and g: "start_layers g = make_layers ps lm"
      "stop_layers g = map (sort_stop ps) (rev (make_layers ps lm))"
    using build_cases [OF assms(1,2,5)] by metis
  obtain lm' D' where b': "deps_known ps'" "level_list ps' D'" "layer_map_of lm' D'"
    and g': "start_layers g' = make_layers ps' lm'"
      "stop_layers g' = map (sort_stop ps') (rev (make_layers ps' lm'))"
    using build_cases [OF wf' assms(3,6)] by metis
  have keys: "set (keys ps') = set (keys ps)"
    using assms(4) by (metis keys_def mset_map set_mset_mset)
  have prio: "prio_of ps' = prio_of ps"
    by (rule ext) (simp add: prio_of_def hm_get_perm [OF assms(1,4)])
  have D': "level_list ps D'"
    using b'(2) keys deps_of_perm [OF assms(1,4)] by (simp add: level_list_def)
  have eq: "set D' = set D" using level_list_unique [OF assms(1) b(1) D' b(2)] .
  have names: "sort_start ps (layer_names D' l) = sort_start ps (layer_names D l)" for l
    unfolding sort_start_def
  proof (rule sort_key_unique_set)
    show "set (layer_names D' l) = set (layer_names D l)" using eq set_layer_names by blast
  qed (use D' b(2) in \<open>auto simp: level_list_def distinct_layer_names inj_def\<close>)
  have max: "max_layer lm' = max_layer lm"
    by (simp add: max_layer_eq layer_map_keys [OF b(3)] layer_map_keys [OF b'(3)] eq)
  have "make_layers ps' lm' = make_layers ps lm"
  proof (cases "ps = []")
    case True
    with assms(4) show ?thesis by simp
  next
    case False
    with assms(4) have "ps' \<noteq> []" by auto
    with False show ?thesis
      using make_layers_eq [OF b(2) assms(1) b(1) False b(3)]
        make_layers_eq [OF b'(2) wf' b'(1) _ b'(3)] names max
      by (simp add: sort_start_def prio)
  qed
  then show ?thesis using g g' prio by (simp add: sort_stop_def)
qed

lemma dependents_loop_spec:
  assumes "hm_wf ps" and "set q \<subseteq> insert t (set ds)"
    and "\<forall>x \<in> insert t (set ds) - set q. \<forall>n. (x, n) \<in> dep_rel ps \<longrightarrow> n \<in> set ds"
    and "\<forall>n \<in> set ds. (t, n) \<in> (dep_rel ps)\<^sup>+"
  shows "set (dependents_loop ps q ds) = {n. (t, n) \<in> (dep_rel ps)\<^sup>+}"
  using assms
proof (induction ps q ds rule: dependents_loop.induct)
  case (1 ps ds)
  have "n \<in> set ds" if "(t, n) \<in> (dep_rel ps)\<^sup>+" for n
    using that by (induction rule: trancl_induct) (use "1.prems"(3) in auto)
  then have "set ds = {n. (t, n) \<in> (dep_rel ps)\<^sup>+}" using "1.prems"(4) by blast
  then show ?case by simp
next
  case (2 ps c q ds)
  obtain zs where zs: "scan_dependents c ps ds q = (ds @ zs, q @ zs)"
    "set zs = {n. \<exists>cfg. (n, cfg) \<in> set ps \<and> c \<in> set (c_depends_on cfg)} - set ds"
    using scan_dependents_app by blast
  have zs': "set zs = {n. (c, n) \<in> dep_rel ps} - set ds"
    using zs(2) dep_rel_iff [OF "2.prems"(1)] by auto
  have c: "c = t \<or> (t, c) \<in> (dep_rel ps)\<^sup>+" using "2.prems"(2,4) by auto
  have "\<forall>n \<in> set (ds @ zs). (t, n) \<in> (dep_rel ps)\<^sup>+"
    using "2.prems"(4) zs' c by (auto intro: trancl_into_trancl)
  moreover have "\<forall>x \<in> insert t (set (ds @ zs)) - set (q @ zs). \<forall>n. (x, n) \<in> dep_rel ps
      \<longrightarrow> n \<in> set (ds @ zs)"
  proof (intro ballI allI impI)
    fix x n assume x: "x \<in> insert t (set (ds @ zs)) - set (q @ zs)" and xn: "(x, n) \<in> dep_rel ps"
    show "n \<in> set (ds @ zs)"
    proof (cases "x = c")
      case True
      then show ?thesis using xn zs' by auto
    next
      case False
      then have "x \<in> insert t (set ds) - set (c # q)" using x by auto
      then have "n \<in> set ds" using "2.prems"(3) xn by blast
      then show ?thesis by simp
    qed
  qed
  moreover have "set (q @ zs) \<subseteq> insert t (set (ds @ zs))" using "2.prems"(2) by auto
  ultimately show ?case using "2.IH" [OF zs(1) [symmetric] refl "2.prems"(1)] zs(1) by simp
qed

text \<open>
  \<open>get_dependents\<close> terminates and returns exactly the programs that depend on the target
  directly or through other programs.
\<close>

theorem get_dependents_trancl:
  assumes "hm_wf ps"
  shows "get_dependents ps target = {n. (target, n) \<in> (dep_rel ps)\<^sup>+}"
  unfolding get_dependents_def by (rule dependents_loop_spec [OF assms]) auto


section \<open>A concrete program map\<close>

text \<open>The example of the unit tests: \<open>web\<close> needs \<open>api\<close>, which needs \<open>db\<close> and \<open>redis\<close>.\<close>

definition ex_programs :: programs where
  "ex_programs =
     [(''web'', (new_config Term ''web'' ''nginx'')\<lparr>c_depends_on := [''api'']\<rparr>),
      (''db'', (new_config Term ''db'' ''mysqld'')\<lparr>c_priority := 10\<rparr>),
      (''api'', (new_config Term ''api'' ''server'')\<lparr>c_priority := 30, c_depends_on := [''db'', ''redis'']\<rparr>),
      (''redis'', (new_config Term ''redis'' ''redis-server'')\<lparr>c_priority := 20\<rparr>)]"

definition ex_graph :: DependencyGraph where
  "ex_graph = \<lparr>start_layers = [[''db'', ''redis''], [''api''], [''web'']],
               stop_layers = [[''web''], [''api''], [''redis'', ''db'']]\<rparr>"

lemma ex_wf: "hm_wf ex_programs"
  by (simp add: hm_wf_def ex_programs_def)

lemma ex_build: "build rev (\<lambda>_ _. False) ex_programs = Some (Inr ex_graph)"
  by (simp add: build_def ex_programs_def ex_graph_def new_config_def Let_def
      init_in_degrees_def init_adj_def bump_degree_def push_adj_def unwrap_or_def init_queue_def
      push_layer_def make_layers_def max_layer_def sort_start_def sort_stop_def prio_of_def
      List.map_filter_def hm_get_Cons upt_rec)


lemma ex_known_acyclic: "deps_known ex_programs \<and> acyclic (dep_rel ex_programs)"
proof -
  obtain lm D where "deps_known ex_programs" "level_list ex_programs D"
    using build_cases [OF ex_wf _ ex_build] by (metis mset_rev)
  then show ?thesis using level_list_acyclic [OF ex_wf] by blast
qed

theorem build_layers_witness:
  "layer_spec ex_programs [[''db'', ''redis''], [''api''], [''web'']]"
  using build_layers [OF ex_wf _ ex_build] by (simp add: ex_graph_def)

theorem build_order_witness:
  "build rev (\<lambda>_ _. False) ex_programs = Some (Inr ex_graph) \<and>
   map set (stop_layers ex_graph) = rev (map set (start_layers ex_graph))"
  using build_order [OF ex_wf _ ex_build] ex_build by simp

theorem build_outcome_witness:
  "\<exists>g. build rev (\<lambda>_ es. \<not> acyclic (set es)) ex_programs = Some (Inr g)"
  using build_outcome [OF ex_wf, of rev "\<lambda>_ es. \<not> acyclic (set es)"] ex_known_acyclic by simp

theorem build_deterministic_witness:
  "build id (\<lambda>_ _. False) (rev ex_programs) = Some (Inr ex_graph)"
proof -
  have perm: "mset (rev ex_programs) = mset ex_programs" by simp
  have deps: "deps_of (rev ex_programs) = deps_of ex_programs" by (rule deps_of_perm [OF ex_wf perm])
  have "deps_known (rev ex_programs)"
    using ex_known_acyclic by (simp add: deps_known_def keys_def)
  moreover have "acyclic (dep_rel (rev ex_programs))"
    using ex_known_acyclic deps by (simp add: dep_rel_def)
  ultimately obtain g' where "build id (\<lambda>_ _. False) (rev ex_programs) = Some (Inr g')"
    using build_ok_acyclic [OF hm_wf_perm [OF perm ex_wf], of id "\<lambda>_ _. False"] by auto
  with build_deterministic [OF ex_wf _ _ perm ex_build this] show ?thesis by simp
qed

theorem get_dependents_trancl_witness:
  "get_dependents ex_programs ''db'' = {n. (''db'', n) \<in> (dep_rel ex_programs)\<^sup>+} \<and>
   get_dependents ex_programs ''db'' = {''api'', ''web''}"
  using get_dependents_trancl [OF ex_wf, of "''db''"]
  by (simp add: get_dependents_def ex_programs_def new_config_def insert_commute)

end
