(* ===== verification/Cron_Table.thy ===== *)
theory Cron_Table
  imports Program_Model
begin

text \<open>
  The cron schedule of \<open>src/src/manager/cron.rs\<close>. Parsing an expression and finding its next
  occurrence is the \<open>croner\<close> library: \<open>next_occ expr now\<close> is the first occurrence of \<open>expr\<close>
  after \<open>now\<close>, or \<open>None\<close> when the expression does not parse or has none. Wall-clock times are
  integers (nanoseconds).
\<close>

type_synonym datetime = int
type_synonym occurrence = "string \<Rightarrow> datetime \<Rightarrow> datetime option"

datatype CronAction = CronStart string string string | CronStop string string string

fun action_name :: "CronAction \<Rightarrow> string" where
  "action_name (CronStart n g e) = n"
| "action_name (CronStop n g e) = n"

fun action_group :: "CronAction \<Rightarrow> string" where
  "action_group (CronStart n g e) = g"
| "action_group (CronStop n g e) = g"

fun action_is_stop :: "CronAction \<Rightarrow> bool" where
  "action_is_stop (CronStop _ _ _) = True"
| "action_is_stop (CronStart _ _ _) = False"

fun action_expression :: "CronAction \<Rightarrow> string" where
  "action_expression (CronStart n g e) = e"
| "action_expression (CronStop n g e) = e"

record CronEntry =
  ce_name :: string
  ce_group :: string
  ce_is_stop :: bool
  ce_expression :: string
  ce_next_run :: datetime

type_synonym CronTable = "CronEntry list"

definition cron_entry :: "occurrence \<Rightarrow> datetime \<Rightarrow> string \<Rightarrow> string \<Rightarrow> bool \<Rightarrow> string option \<Rightarrow> CronEntry list" where
  "cron_entry next_occ now n g is_stop expr =
     (case expr of
        None \<Rightarrow> []
      | Some x \<Rightarrow>
          (case next_occ x now of
             None \<Rightarrow> []
           | Some t \<Rightarrow> [\<lparr>ce_name = n, ce_group = g, ce_is_stop = is_stop, ce_expression = x,
                         ce_next_run = t\<rparr>]))"

definition from_configs :: "occurrence \<Rightarrow> datetime \<Rightarrow> ProgramConfig hmap \<Rightarrow> CronTable" where
  "from_configs next_occ now configs =
     concat (map (\<lambda>(name, cfg).
       cron_entry next_occ now name (c_group cfg) False (c_cron cfg) @
       cron_entry next_occ now name (c_group cfg) True (c_cron_stop cfg)) configs)"

definition min_run :: "datetime list \<Rightarrow> datetime option" where
  "min_run ts = (if ts = [] then None else Some (Min (set ts)))"

definition get_next_run :: "(datetime \<Rightarrow> string) \<Rightarrow> CronTable \<Rightarrow> string \<Rightarrow> string option" where
  "get_next_run to_rfc3339 t program_name =
     map_option to_rfc3339
       (min_run (map ce_next_run (filter (\<lambda>e. ce_name e = program_name \<and> \<not> ce_is_stop e) t)))"

definition get_cron_expr :: "CronTable \<Rightarrow> string \<Rightarrow> string option" where
  "get_cron_expr t program_name =
     map_option ce_expression (List.find (\<lambda>e. ce_name e = program_name \<and> \<not> ce_is_stop e) t)"

definition earliest_deadline :: "datetime \<Rightarrow> instant \<Rightarrow> CronTable \<Rightarrow> instant option" where
  "earliest_deadline now_dt now_inst t =
     (case min_run (map ce_next_run t) of
        None \<Rightarrow> None
      | Some earliest_dt \<Rightarrow>
          if earliest_dt \<le> now_dt then Some now_inst
          else Some (now_inst + nat (earliest_dt - now_dt)))"

definition action_of :: "CronEntry \<Rightarrow> CronAction" where
  "action_of e = (if ce_is_stop e then CronStop (ce_name e) (ce_group e) (ce_expression e)
                  else CronStart (ce_name e) (ce_group e) (ce_expression e))"

fun pop_due_actions :: "occurrence \<Rightarrow> datetime \<Rightarrow> CronTable \<Rightarrow> CronAction list \<times> CronTable" where
  "pop_due_actions next_occ now [] = ([], [])"
| "pop_due_actions next_occ now (e # es) =
     (let (actions, es') = pop_due_actions next_occ now es
      in if ce_next_run e \<le> now
         then (action_of e # actions,
               (case next_occ (ce_expression e) now of
                  Some t \<Rightarrow> e\<lparr>ce_next_run := t\<rparr> | None \<Rightarrow> e) # es')
         else (actions, e # es'))"

section \<open>Properties\<close>

lemma min_run_le: "min_run ts = Some m \<Longrightarrow> t \<in> set ts \<Longrightarrow> m \<le> t"
  by (auto simp: min_run_def split: if_splits)

lemma min_run_in: "min_run ts = Some m \<Longrightarrow> m \<in> set ts"
  by (auto simp: min_run_def split: if_splits intro: Min_in)

lemma pop_due_actions_eq:
  "pop_due_actions next_occ now t =
     (map action_of (filter (\<lambda>e. ce_next_run e \<le> now) t),
      map (\<lambda>e. if ce_next_run e \<le> now
               then (case next_occ (ce_expression e) now of Some t \<Rightarrow> e\<lparr>ce_next_run := t\<rparr> | None \<Rightarrow> e)
               else e) t)"
  by (induction next_occ now t rule: pop_due_actions.induct) (auto split: option.split)

lemma from_configs_entry:
  assumes "e \<in> set (from_configs next_occ now configs)"
  obtains cfg where "(ce_name e, cfg) \<in> set configs" "ce_group e = c_group cfg"
    "(if ce_is_stop e then c_cron_stop cfg else c_cron cfg) = Some (ce_expression e)"
    "next_occ (ce_expression e) now = Some (ce_next_run e)"
  using assms by (auto simp: from_configs_def cron_entry_def split: option.splits)

text \<open>
  Popping the due actions returns exactly one action for each entry that is due, in table
  order, and keeps the schedule of every entry. If the library's next occurrence is later than
  the given time, every entry that still has an occurrence is afterwards in the future, so no
  action is returned twice for the same time; the deadline the manager then sleeps until is the
  earliest remaining run.
\<close>

theorem cron_pop_due:
  assumes "\<And>e t t'. next_occ e t = Some t' \<Longrightarrow> t < t'"
    and "pop_due_actions next_occ now t = (actions, t')"
    and "\<And>e. e \<in> set t \<Longrightarrow> next_occ (ce_expression e) now \<noteq> None"
  shows "actions = map action_of (filter (\<lambda>e. ce_next_run e \<le> now) t) \<and>
         map (\<lambda>e. (ce_name e, ce_is_stop e, ce_expression e)) t'
           = map (\<lambda>e. (ce_name e, ce_is_stop e, ce_expression e)) t \<and>
         (\<forall>e \<in> set t'. now < ce_next_run e) \<and> fst (pop_due_actions next_occ now t') = [] \<and>
         (\<forall>dl. earliest_deadline now inst t' = Some dl \<longrightarrow>
            (\<exists>e \<in> set t'. dl = inst + nat (ce_next_run e - now)) \<and> inst < dl)"
proof -
  have a: "actions = map action_of (filter (\<lambda>e. ce_next_run e \<le> now) t)"
    and t': "t' = map (\<lambda>e. if ce_next_run e \<le> now
               then (case next_occ (ce_expression e) now of Some t \<Rightarrow> e\<lparr>ce_next_run := t\<rparr> | None \<Rightarrow> e)
               else e) t"
    using assms(2) by (auto simp: pop_due_actions_eq)
  have fut: "\<forall>e \<in> set t'. now < ce_next_run e"
    using assms(1,3) by (fastforce simp: t' split: option.splits)
  then have none: "fst (pop_due_actions next_occ now t') = []"
    by (auto simp: pop_due_actions_eq filter_empty_conv)
  have sched: "map (\<lambda>e. (ce_name e, ce_is_stop e, ce_expression e)) t'
      = map (\<lambda>e. (ce_name e, ce_is_stop e, ce_expression e)) t"
    by (simp add: t' split: option.split)
  have "(\<exists>e \<in> set t'. dl = inst + nat (ce_next_run e - now)) \<and> inst < dl"
    if dl: "earliest_deadline now inst t' = Some dl" for dl
  proof -
    obtain m where m: "min_run (map ce_next_run t') = Some m"
      using dl by (auto simp: earliest_deadline_def split: option.splits)
    obtain e where e: "e \<in> set t'" "m = ce_next_run e" using min_run_in [OF m] by auto
    then have "now < ce_next_run e" using fut by blast
    then have "dl = inst + nat (ce_next_run e - now)" "0 < nat (ce_next_run e - now)"
      using dl m e(2) by (auto simp: earliest_deadline_def)
    then show ?thesis using e(1) by auto
  qed
  then show ?thesis using a sched fut none by blast
qed

text \<open>
  An entry whose schedule has no further occurrence is never removed or advanced: once it
  is due, it stays due, the deadline is always the present, and every later call returns its
  action again.
\<close>

theorem cron_exhausted_fires_again:
  assumes "e \<in> set t" and "ce_next_run e \<le> now" and "\<And>s. now \<le> s \<Longrightarrow> next_occ (ce_expression e) s = None"
    and "now \<le> later"
  shows "let t' = snd (pop_due_actions next_occ now t)
         in e \<in> set t' \<and> earliest_deadline later inst t' = Some inst \<and>
            action_of e \<in> set (fst (pop_due_actions next_occ later t'))"
proof -
  let ?t = "snd (pop_due_actions next_occ now t)"
  have e: "e \<in> set ?t" using assms(1-3) by (force simp: pop_due_actions_eq)
  have "earliest_deadline later inst ?t = Some inst"
  proof -
    have "?t \<noteq> []" using e by auto
    then obtain m where m: "min_run (map ce_next_run ?t) = Some m" by (simp add: min_run_def)
    then have "m \<le> ce_next_run e" using e by (intro min_run_le [OF m]) auto
    then show ?thesis using m assms(2,4) by (simp add: earliest_deadline_def)
  qed
  moreover have "action_of e \<in> set (fst (pop_due_actions next_occ later ?t))"
    using e assms(2,4) by (simp add: pop_due_actions_eq [of next_occ later ?t])
  ultimately show ?thesis using e by (simp add: Let_def)
qed

definition ex_entry :: CronEntry where
  "ex_entry = \<lparr>ce_name = ''job'', ce_group = ''job'', ce_is_stop = False,
               ce_expression = ''* * * * *'', ce_next_run = 60\<rparr>"

definition ex_next :: occurrence where
  "ex_next e t = Some (60 * (t div 60 + 1))"

lemma ex_next_later: "ex_next e t = Some t' \<Longrightarrow> t < t'"
  by (auto simp: ex_next_def)

theorem cron_pop_due_witness:
  "\<exists>t'. pop_due_actions ex_next 61 [ex_entry] = ([CronStart ''job'' ''job'' ''* * * * *''], t') \<and>
     (\<forall>e \<in> set t'. 61 < ce_next_run e)"
proof -
  obtain t' where t': "pop_due_actions ex_next 61 [ex_entry] = ([CronStart ''job'' ''job'' ''* * * * *''], t')"
    by (simp add: ex_entry_def ex_next_def action_of_def)
  from cron_pop_due [OF ex_next_later t'] t' show ?thesis by (auto simp: ex_next_def)
qed

theorem cron_exhausted_fires_again_witness:
  "CronStart ''job'' ''job'' ''* * * * *'' \<in>
     set (fst (pop_due_actions (\<lambda>_ _. None) 100 (snd (pop_due_actions (\<lambda>_ _. None) 61 [ex_entry]))))"
  using cron_exhausted_fires_again [of ex_entry "[ex_entry]" 61 "\<lambda>_ _. None" 100 0]
  by (simp add: ex_entry_def action_of_def Let_def)

end
