(* ===== verification/Config_Diff.thy ===== *)
theory Config_Diff
  imports Program_Model
begin

text \<open>
  The difference of two configurations, \<open>src/src/config/diff.rs\<close>, which drives the hot reload.
  A configuration map is an entry list in its (unspecified) iteration order.
\<close>

record ConfigDiff =
  df_added :: "ProgramConfig list"
  df_removed :: "string list"
  df_modified :: "ProgramConfig list"
  df_unchanged :: "string list"

definition compute :: "ProgramConfig hmap \<Rightarrow> ProgramConfig hmap \<Rightarrow> ConfigDiff" where
  "compute old new =
     (let (added, modified, unchanged) =
            foldl (\<lambda>(added, modified, unchanged) (name, new_cfg).
                     case hm_get old name of
                       Some old_cfg \<Rightarrow>
                         if old_cfg = new_cfg then (added, modified, unchanged @ [name])
                         else (added, modified @ [new_cfg], unchanged)
                     | None \<Rightarrow> (added @ [new_cfg], modified, unchanged)) ([], [], []) new;
          removed = filter (\<lambda>name. \<not> contains_key new name) (keys old)
      in \<lparr>df_added = sort_key c_name added, df_removed = sort removed,
          df_modified = sort_key c_name modified, df_unchanged = sort unchanged\<rparr>)"

definition diff_is_empty :: "ConfigDiff \<Rightarrow> bool" where
  "diff_is_empty d \<longleftrightarrow> df_added d = [] \<and> df_removed d = [] \<and> df_modified d = []"

definition has_changes :: "ConfigDiff \<Rightarrow> bool" where
  "has_changes d \<longleftrightarrow> \<not> diff_is_empty d"

definition changed_count :: "ConfigDiff \<Rightarrow> nat" where
  "changed_count d = length (df_added d) + length (df_removed d) + length (df_modified d)"

definition affected_programs :: "ConfigDiff \<Rightarrow> string set" where
  "affected_programs d =
     c_name ` set (df_added d) \<union> set (df_removed d) \<union> c_name ` set (df_modified d)"

text \<open>A configuration map as the configuration loader builds it: each program under its name.\<close>

definition named_map :: "ProgramConfig hmap \<Rightarrow> bool" where
  "named_map m \<longleftrightarrow> hm_wf m \<and> (\<forall>(n, c) \<in> set m. c_name c = n)"

lemma named_map_get: "named_map m \<Longrightarrow> hm_get m n = Some c \<Longrightarrow> c_name c = n"
  by (auto simp: named_map_def hm_get_Some_iff)

lemma diff_fold:
  "foldl (\<lambda>(added, modified, unchanged) (name, new_cfg).
            case hm_get old name of
              Some old_cfg \<Rightarrow>
                if old_cfg = new_cfg then (added, modified, unchanged @ [name])
                else (added, modified @ [new_cfg], unchanged)
            | None \<Rightarrow> (added @ [new_cfg], modified, unchanged)) (a0, m0, u0) new
   = (a0 @ map snd (filter (\<lambda>(n, c). hm_get old n = None) new),
      m0 @ map snd (filter (\<lambda>(n, c). hm_get old n \<noteq> None \<and> hm_get old n \<noteq> Some c) new),
      u0 @ map fst (filter (\<lambda>(n, c). hm_get old n = Some c) new))"
  by (induction new arbitrary: a0 m0 u0) (auto split: option.split)

lemma compute_eq:
  "compute old new =
     \<lparr>df_added = sort_key c_name (map snd (filter (\<lambda>(n, c). hm_get old n = None) new)),
      df_removed = sort (filter (\<lambda>name. \<not> contains_key new name) (keys old)),
      df_modified = sort_key c_name
        (map snd (filter (\<lambda>(n, c). hm_get old n \<noteq> None \<and> hm_get old n \<noteq> Some c) new)),
      df_unchanged = sort (map fst (filter (\<lambda>(n, c). hm_get old n = Some c) new))\<rparr>"
  by (simp add: compute_def diff_fold)

lemma set_map_snd_filter:
  "c \<in> set (map snd (filter P xs)) \<longleftrightarrow> (\<exists>n. (n, c) \<in> set xs \<and> P (n, c))"
  by force

lemma added_iff:
  assumes "hm_wf new"
  shows "c \<in> set (df_added (compute old new)) \<longleftrightarrow>
     (\<exists>n. hm_get new n = Some c \<and> hm_get old n = None)"
  using assms by (auto simp: compute_eq hm_get_Some_iff set_map_snd_filter simp del: set_map)

lemma modified_iff:
  assumes "hm_wf new"
  shows "c \<in> set (df_modified (compute old new)) \<longleftrightarrow>
     (\<exists>n c'. hm_get new n = Some c \<and> hm_get old n = Some c' \<and> c' \<noteq> c)"
  using assms by (auto simp: compute_eq hm_get_Some_iff set_map_snd_filter simp del: set_map)

lemma unchanged_iff:
  assumes "hm_wf new"
  shows "n \<in> set (df_unchanged (compute old new)) \<longleftrightarrow>
     (\<exists>c. hm_get new n = Some c \<and> hm_get old n = Some c)"
  using assms by (auto simp: compute_eq hm_get_Some_iff intro: rev_image_eqI)

lemma removed_iff:
  "n \<in> set (df_removed (compute old new)) \<longleftrightarrow> n \<in> set (keys old) \<and> n \<notin> set (keys new)"
  by (simp add: compute_eq contains_key_def)

lemma added_names:
  assumes "named_map new"
  shows "c_name ` set (df_added (compute old new)) = {n. n \<in> set (keys new) \<and> n \<notin> set (keys old)}"
proof -
  have wf: "hm_wf new" using assms by (simp add: named_map_def)
  show ?thesis
    by (auto simp: added_iff [OF wf] named_map_get [OF assms] hm_get_None_iff hm_get_Some_key
        intro!: rev_image_eqI elim!: key_hm_getE)
qed

lemma modified_names:
  assumes "named_map new"
  shows "c_name ` set (df_modified (compute old new)) =
     {n. \<exists>c c'. hm_get new n = Some c \<and> hm_get old n = Some c' \<and> c' \<noteq> c}"
proof -
  have wf: "hm_wf new" using assms by (simp add: named_map_def)
  have "n \<in> c_name ` set (df_modified (compute old new))"
    if "hm_get new n = Some c" "hm_get old n = Some c'" "c' \<noteq> c" for n c c'
  proof (rule rev_image_eqI)
    show "c \<in> set (df_modified (compute old new))" using that modified_iff [OF wf] by blast
    show "n = c_name c" using named_map_get [OF assms that(1)] by simp
  qed
  moreover have "\<exists>c c'. hm_get new n = Some c \<and> hm_get old n = Some c' \<and> c' \<noteq> c"
    if "n \<in> c_name ` set (df_modified (compute old new))" for n
    using that modified_iff [OF wf] named_map_get [OF assms] by fastforce
  ultimately show ?thesis by blast
qed

lemma diff_names_distinct:
  assumes "named_map new"
  shows "distinct (map c_name (df_added (compute old new)))"
    and "distinct (map c_name (df_modified (compute old new)))"
proof -
  have nm: "\<forall>(n, c) \<in> set new. c_name c = n" and dk: "distinct (map fst new)"
    using assms by (auto simp: named_map_def hm_wf_def keys_def)
  have "map c_name (map snd (filter P new)) = map fst (filter P new)" for P
    using nm by (induction new) auto
  moreover have "distinct (map fst (filter P new))" for P using dk by (simp add: distinct_map_filter)
  ultimately have "distinct (map c_name (map snd (filter P new)))" for P by metis
  then have "distinct (map snd (filter P new)) \<and> inj_on c_name (set (map snd (filter P new)))" for P
    by (metis distinct_map)
  then show "distinct (map c_name (df_added (compute old new)))"
    "distinct (map c_name (df_modified (compute old new)))"
    by (simp_all add: compute_eq distinct_map)
qed

text \<open>
  The four parts of a diff are a partition: every program of either configuration is in
  exactly one of added, removed, modified and unchanged, according to whether it is in the old
  and in the new map and whether its configuration differs; the names in each part are sorted
  without duplicates, and the diff does not depend on the iteration order of the maps.
\<close>

theorem diff_partition:
  assumes "named_map old" and "named_map new" and "mset old' = mset old" and "mset new' = mset new"
  shows "compute old' new' = compute old new \<and>
     c_name ` set (df_added (compute old new)) = set (keys new) - set (keys old) \<and>
     set (df_removed (compute old new)) = set (keys old) - set (keys new) \<and>
     c_name ` set (df_modified (compute old new)) \<union> set (df_unchanged (compute old new))
       = set (keys old) \<inter> set (keys new) \<and>
     c_name ` set (df_modified (compute old new)) \<inter> set (df_unchanged (compute old new)) = {} \<and>
     (\<forall>n. n \<in> set (df_unchanged (compute old new)) \<longrightarrow> hm_get new n = hm_get old n) \<and>
     sorted (map c_name (df_added (compute old new))) \<and> distinct (map c_name (df_added (compute old new)))"
proof -
  have wf: "hm_wf old" "hm_wf new" using assms(1,2) by (auto simp: named_map_def)
  have nm: "c_name c = n" if "(n, c) \<in> set new" for n c using assms(2) that by (auto simp: named_map_def)
  have get: "hm_get old' n = hm_get old n" for n using hm_get_perm [OF wf(1) assms(3)] .
  have inj: "inj_on c_name (set (map snd (filter P new)))" for P
  proof (rule inj_onI)
    fix x y assume "x \<in> set (map snd (filter P new))" "y \<in> set (map snd (filter P new))" "c_name x = c_name y"
    then obtain m n where "(m, x) \<in> set new" "(n, y) \<in> set new" by auto
    moreover from this have "m = n" using nm \<open>c_name x = c_name y\<close> by metis
    ultimately show "x = y" using wf(2) by (metis hm_get_Some_iff option.inject)
  qed
  have mf: "mset (map snd (filter P new')) = mset (map snd (filter P new))" for P
    using assms(4) by (metis mset_filter mset_map)
  have sk: "sort_key c_name (map snd (filter P new')) = sort_key c_name (map snd (filter P new))" for P
    by (rule sort_key_perm_eq [OF mf]) (metis inj mf set_mset_mset)
  have so: "sort xs = sort ys" if "mset xs = mset ys" for xs ys :: "string list"
    using that by (intro sort_key_perm_eq) auto
  have u: "sort (map fst (filter P new')) = sort (map fst (filter P new))" for P
    using assms(4) by (intro so) (metis mset_filter mset_map)
  have ck: "contains_key new' n = contains_key new n" for n
    using assms(4) by (metis contains_key_def keys_def mset_map set_mset_mset)
  have r: "sort (filter P (keys old')) = sort (filter P (keys old))" for P
    using assms(3) by (intro so) (metis keys_def mset_filter mset_map)
  have "compute old' new' = compute old new" by (simp only: compute_eq get sk u ck r)
  moreover have "c_name ` set (df_modified (compute old new)) \<union> set (df_unchanged (compute old new))
       = set (keys old) \<inter> set (keys new)"
    by (auto simp: modified_names [OF assms(2)] unchanged_iff [OF wf(2)] hm_get_Some_key elim!: key_hm_getE)
  moreover have "c_name ` set (df_modified (compute old new)) \<inter> set (df_unchanged (compute old new)) = {}"
    by (auto simp: modified_names [OF assms(2)] unchanged_iff [OF wf(2)])
  moreover have "\<forall>n. n \<in> set (df_unchanged (compute old new)) \<longrightarrow> hm_get new n = hm_get old n"
    by (auto simp: unchanged_iff [OF wf(2)])
  moreover have "sorted (map c_name (df_added (compute old new)))" by (simp add: compute_eq)
  moreover have "distinct (map c_name (df_added (compute old new)))"
    by (rule diff_names_distinct [OF assms(2)])
  ultimately show ?thesis using added_names [OF assms(2)] removed_iff by (auto simp: set_eq_iff)
qed

definition diff_old :: "ProgramConfig hmap" where
  "diff_old = [(''keep'', new_config Term ''keep'' ''sleep''), (''del'', new_config Term ''del'' ''echo'')]"

definition diff_new :: "ProgramConfig hmap" where
  "diff_new = [(''add'', new_config Term ''add'' ''echo''), (''keep'', new_config Term ''keep'' ''sleep'')]"

theorem diff_partition_witness:
  "c_name ` set (df_added (compute diff_old diff_new)) = {''add''} \<and>
   set (df_removed (compute diff_old diff_new)) = {''del''}"
proof -
  have "named_map diff_old" "named_map diff_new"
    by (simp_all add: named_map_def hm_wf_def diff_old_def diff_new_def new_config_def)
  from diff_partition [OF this refl refl] show ?thesis
    by (simp add: diff_old_def diff_new_def insert_Diff_if)
qed

end
