(* ===== verification/Manager.thy ===== *)
theory Manager
  imports Actor_Safety Dependency_Dag Cron_Table Config_Diff
begin

text \<open>
  The manager actor, \<open>src/src/manager/supervisor.rs\<close>: the registry of programs with their
  configurations, the commands that start, stop and restart programs and groups, the bulk
  operations over the layers of the dependency graph, hot reload, daemon restart, runtime
  groups, cron actions and shutdown; and the command handle's target search and time limits.

  A program is a value of a type \<open>'p\<close> with the operations of the \<open>Program\<close> trait in the record
  \<open>World\<close>; an operation returns its reply and the program afterwards. The result of
  \<open>SupervisorConfig::resolve_programs\<close> is an argument of the operations that call it. Calls
  that the code runs concurrently within a layer touch different programs and are made one
  after the other. Every call is recorded in \<open>m_calls\<close>, and the calls of one layer share a
  number there.
\<close>

section \<open>The Program trait and the collaborators\<close>

record 'p World =
  w_status :: "'p \<Rightarrow> ProgramStatus"
  w_start :: "'p \<Rightarrow> unit result \<times> 'p"
  w_stop :: "duration \<Rightarrow> 'p \<Rightarrow> unit result \<times> 'p"
  w_restart :: "duration \<Rightarrow> 'p \<Rightarrow> unit result \<times> 'p"
  w_signal :: "StopSignal \<Rightarrow> 'p \<Rightarrow> unit result \<times> 'p"
  w_shutdown :: "'p \<Rightarrow> 'p"
  w_new_process :: "ProgramConfig \<Rightarrow> 'p result"
  w_new_listener :: "ProgramConfig \<Rightarrow> string \<Rightarrow> 'p result"
  w_iter :: "nat hmap \<Rightarrow> nat hmap"
  w_is_cyclic :: "string list \<Rightarrow> (string \<times> string) list \<Rightarrow> bool"
  w_next_occ :: occurrence
  w_now :: datetime

datatype Call = CallStart | CallStop duration | CallRestart duration | CallSignal StopSignal | CallShutdown

record 'p Manager =
  m_programs :: "'p hmap"
  m_configs :: "ProgramConfig hmap"
  m_shared_configs :: "ProgramConfig hmap"
  m_pending_configs :: "ProgramConfig hmap"
  m_shared_pending_configs :: "ProgramConfig hmap"
  m_dag :: DependencyGraph
  m_cron_table :: CronTable
  m_watch_configs :: "ProgramConfig hmap"
  m_is_shutting_down :: bool
  m_event_pools :: "EventListenerConfig hmap"
  m_config_logging :: LoggingConfig
  m_events :: "SystemEvent list"
  m_calls :: "(nat \<times> string \<times> Call) list"

definition m_publish :: "SystemEvent \<Rightarrow> 'p Manager \<Rightarrow> 'p Manager" where
  "m_publish ev s = s\<lparr>m_events := m_events s @ [ev]\<rparr>"

text \<open>One call of a program operation; a name without program is skipped.\<close>

definition call_prog ::
  "nat \<Rightarrow> Call \<Rightarrow> ('p \<Rightarrow> unit result \<times> 'p) \<Rightarrow> string \<Rightarrow> 'p Manager \<Rightarrow> unit result \<times> 'p Manager" where
  "call_prog batch c f name s =
     (case hm_get (m_programs s) name of
        None \<Rightarrow> (Inr (), s)
      | Some p \<Rightarrow>
          (let (r, p') = f p
           in (r, s\<lparr>m_programs := hm_insert name p' (m_programs s),
                    m_calls := m_calls s @ [(batch, name, c)]\<rparr>)))"

text \<open>A loop of calls that stops at the first error (\<open>?\<close>).\<close>

fun call_each ::
  "(string \<Rightarrow> 'p Manager \<Rightarrow> unit result \<times> 'p Manager) \<Rightarrow> string list \<Rightarrow> 'p Manager
     \<Rightarrow> unit result \<times> 'p Manager" where
  "call_each f [] s = (Inr (), s)"
| "call_each f (n # ns) s =
     (case f n s of (Inl e, s') \<Rightarrow> (Inl e, s') | (Inr _, s') \<Rightarrow> call_each f ns s')"

section \<open>Name matching\<close>

definition group_member :: "string \<Rightarrow> string \<Rightarrow> string \<Rightarrow> ProgramConfig \<Rightarrow> bool" where
  "group_member group_part prog_part p_name cfg \<longleftrightarrow>
     c_group cfg = group_part \<and>
     (prog_part = ''*'' \<or> prog_part = p_name \<or>
      strip_prefix (group_part @ '':'') p_name = Some prog_part)"

definition find_match :: "'p Manager \<Rightarrow> string \<Rightarrow> string list" where
  "find_match s pattern =
     (let trimmed = trim pattern
      in if contains_key (m_programs s) trimmed then [trimmed]
         else (let colon = (case split_once (CHR '':'') trimmed of
                              Some (g, p) \<Rightarrow> map fst (filter (\<lambda>(n, cfg). group_member g p n cfg) (m_configs s))
                            | None \<Rightarrow> [])
               in if colon \<noteq> [] then colon
                  else sort (map fst (filter (\<lambda>(n, cfg). c_group cfg = trimmed) (m_configs s)))))"

definition group_targets :: "'p Manager \<Rightarrow> string \<Rightarrow> string list" where
  "group_targets s grp =
     (let targets = find_match s (grp @ '':*'')
      in if targets = [] then find_match s grp else targets)"

definition group_not_found :: "string \<Rightarrow> ProgramError" where
  "group_not_found grp = NotFound (''group '' @ quoted grp)"

definition config_priority :: "'p Manager \<Rightarrow> string \<Rightarrow> nat" where
  "config_priority s n =
     (case hm_get (m_configs s) n of Some c \<Rightarrow> c_priority c | None \<Rightarrow> DEFAULT_PRIORITY)"

definition stop_wait_of :: "'p Manager \<Rightarrow> string \<Rightarrow> duration" where
  "stop_wait_of s n =
     (case hm_get (m_configs s) n of Some c \<Rightarrow> c_stop_wait_secs c | None \<Rightarrow> DEFAULT_STOP_WAIT)"

section \<open>Programs and groups\<close>

definition start_one :: "'p World \<Rightarrow> nat \<Rightarrow> string \<Rightarrow> 'p Manager \<Rightarrow> unit result \<times> 'p Manager" where
  "start_one W b n s = call_prog b CallStart (w_start W) n s"

definition stop_one ::
  "'p World \<Rightarrow> nat \<Rightarrow> duration option \<Rightarrow> string \<Rightarrow> 'p Manager \<Rightarrow> unit result \<times> 'p Manager" where
  "stop_one W b grace n s =
     (let d = unwrap_or grace (stop_wait_of s n) in call_prog b (CallStop d) (w_stop W d) n s)"

definition restart_one ::
  "'p World \<Rightarrow> duration option \<Rightarrow> string \<Rightarrow> 'p Manager \<Rightarrow> unit result \<times> 'p Manager" where
  "restart_one W grace n s =
     (let d = unwrap_or grace (stop_wait_of s n) in call_prog 0 (CallRestart d) (w_restart W d) n s)"

definition execute_start_group :: "'p World \<Rightarrow> string \<Rightarrow> 'p Manager \<Rightarrow> string list result \<times> 'p Manager" where
  "execute_start_group W grp s =
     (let targets = group_targets s grp
      in if targets = [] then (Inl (group_not_found grp), s)
         else (let targets = sort_key (config_priority s) targets
               in case call_each (start_one W 0) targets s of
                    (Inl e, s') \<Rightarrow> (Inl e, s')
                  | (Inr _, s') \<Rightarrow> (Inr targets, s')))"

definition execute_stop_group ::
  "'p World \<Rightarrow> string \<Rightarrow> duration option \<Rightarrow> 'p Manager \<Rightarrow> string list result \<times> 'p Manager" where
  "execute_stop_group W grp grace s =
     (let targets = group_targets s grp
      in if targets = [] then (Inl (group_not_found grp), s)
         else (let targets = sort_key (config_priority s) targets
               in case call_each (stop_one W 0 grace) (rev targets) s of
                    (Inl e, s') \<Rightarrow> (Inl e, s')
                  | (Inr _, s') \<Rightarrow> (Inr targets, s')))"

definition execute_restart_group ::
  "'p World \<Rightarrow> string \<Rightarrow> duration option \<Rightarrow> 'p Manager \<Rightarrow> string list result \<times> 'p Manager" where
  "execute_restart_group W grp grace s =
     (case execute_stop_group W grp grace s of
        (Inl e, s') \<Rightarrow> (Inl e, s')
      | (Inr stopped, s') \<Rightarrow>
          (case execute_start_group W grp s' of
             (Inl e, s'') \<Rightarrow> (Inl e, s'')
           | (Inr _, s'') \<Rightarrow> (Inr stopped, s'')))"

definition execute_start_program :: "'p World \<Rightarrow> string \<Rightarrow> 'p Manager \<Rightarrow> unit result \<times> 'p Manager" where
  "execute_start_program W name s =
     (let targets = find_match s name
      in if targets = [] then (Inl (NotFound name), s)
         else call_each (start_one W 0) targets s)"

definition execute_stop_program ::
  "'p World \<Rightarrow> string \<Rightarrow> duration option \<Rightarrow> 'p Manager \<Rightarrow> unit result \<times> 'p Manager" where
  "execute_stop_program W name grace s =
     (let targets = find_match s name
      in if targets = [] then (Inl (NotFound name), s)
         else call_each (stop_one W 0 grace) (rev targets) s)"

definition execute_restart_program ::
  "'p World \<Rightarrow> string \<Rightarrow> duration option \<Rightarrow> 'p Manager \<Rightarrow> unit result \<times> 'p Manager" where
  "execute_restart_program W name grace s =
     (let targets = find_match s name
      in if targets = [] then (Inl (NotFound name), s)
         else call_each (restart_one W grace) (rev targets) s)"

definition execute_signal_program ::
  "'p World \<Rightarrow> string \<Rightarrow> StopSignal \<Rightarrow> 'p Manager \<Rightarrow> unit result \<times> 'p Manager" where
  "execute_signal_program W name sig s =
     (let targets = (if contains_key (m_programs s) name then [name] else find_match s name)
      in if targets = [] then (Inl (NotFound name), s)
         else call_each (call_prog 0 (CallSignal sig) (w_signal W sig)) targets s)"

section \<open>Bulk operations\<close>

text \<open>A layer: the calls that are made are decided for all its programs before any is made.\<close>

definition prog_state :: "'p World \<Rightarrow> 'p Manager \<Rightarrow> string \<Rightarrow> ProgramState option" where
  "prog_state W s n = map_option (\<lambda>p. s_state (w_status W p)) (hm_get (m_programs s) n)"

definition should_autostart :: "'p World \<Rightarrow> 'p Manager \<Rightarrow> string \<Rightarrow> bool" where
  "should_autostart W s n \<longleftrightarrow>
     (case hm_get (m_configs s) n of Some c \<Rightarrow> c_autostart c | None \<Rightarrow> False) \<and>
     (case prog_state W s n of Some st \<Rightarrow> is_stopped_or_fatal st | None \<Rightarrow> False)"

definition start_layer :: "'p World \<Rightarrow> nat \<times> string list \<Rightarrow> 'p Manager \<Rightarrow> 'p Manager" where
  "start_layer W bl s =
     fold (\<lambda>n s. snd (start_one W (fst bl) n s)) (filter (should_autostart W s) (snd bl)) s"

definition execute_start_all :: "'p World \<Rightarrow> 'p Manager \<Rightarrow> 'p Manager" where
  "execute_start_all W s = fold (start_layer W) (enumerate 1 (start_layers (m_dag s))) s"

definition should_stop :: "'p World \<Rightarrow> 'p Manager \<Rightarrow> string \<Rightarrow> bool" where
  "should_stop W s n \<longleftrightarrow> (case prog_state W s n of Some st \<Rightarrow> st \<noteq> Stopped | None \<Rightarrow> False)"

definition stop_layer ::
  "'p World \<Rightarrow> duration option \<Rightarrow> nat \<times> string list \<Rightarrow> 'p Manager \<Rightarrow> 'p Manager" where
  "stop_layer W grace bl s =
     fold (\<lambda>n s. snd (stop_one W (fst bl) grace n s)) (filter (should_stop W s) (snd bl)) s"

definition execute_stop_all :: "'p World \<Rightarrow> duration option \<Rightarrow> 'p Manager \<Rightarrow> 'p Manager" where
  "execute_stop_all W grace s = fold (stop_layer W grace) (enumerate 1 (stop_layers (m_dag s))) s"

section \<open>Reconfiguration\<close>

definition dag_build :: "'p World \<Rightarrow> ProgramConfig hmap \<Rightarrow> DependencyGraph result" where
  "dag_build W ps =
     (case build (w_iter W) (w_is_cyclic W) ps of Some r \<Rightarrow> r | None \<Rightarrow> Inl circular_layers)"

definition instantiate_program ::
  "'p World \<Rightarrow> ProgramConfig \<Rightarrow> EventListenerConfig hmap \<Rightarrow> 'p result \<times> EventListenerConfig hmap" where
  "instantiate_program W cfg pools =
     (case c_event_listener cfg of
        Some el \<Rightarrow>
          let pools = (if contains_key pools (e_pool_name el) then pools
                       else hm_insert (e_pool_name el) el pools)
          in (w_new_listener W cfg (e_pool_name el), pools)
      | None \<Rightarrow> (w_new_process W cfg, pools))"

fun stage ::
  "'p World \<Rightarrow> ProgramConfig list \<Rightarrow> EventListenerConfig hmap
     \<Rightarrow> (ProgramConfig \<times> 'p) list result \<times> EventListenerConfig hmap" where
  "stage W [] pools = (Inr [], pools)"
| "stage W (cfg # cfgs) pools =
     (case instantiate_program W cfg pools of
        (Inl e, pools) \<Rightarrow> (Inl e, pools)
      | (Inr p, pools) \<Rightarrow>
          (case stage W cfgs pools of
             (Inl e, pools) \<Rightarrow> (Inl e, pools)
           | (Inr ps, pools) \<Rightarrow> (Inr ((cfg, p) # ps), pools)))"

text \<open>Stop and shut down a program that leaves the registry.\<close>

definition retire :: "'p World \<Rightarrow> duration \<Rightarrow> string \<Rightarrow> 'p Manager \<Rightarrow> 'p Manager" where
  "retire W d n s =
     (case hm_get (m_programs s) n of
        None \<Rightarrow> s
      | Some _ \<Rightarrow>
          let s = snd (call_prog 0 (CallStop d) (w_stop W d) n s)
          in snd (call_prog 0 CallShutdown (\<lambda>p. (Inr (), w_shutdown W p)) n s))"

definition unregister :: "'p World \<Rightarrow> string \<Rightarrow> 'p Manager \<Rightarrow> 'p Manager" where
  "unregister W n s =
     (let s = retire W DEFAULT_STOP_WAIT n s
      in s\<lparr>m_programs := hm_remove n (m_programs s), m_configs := hm_remove n (m_configs s)\<rparr>)"

definition register :: "'p World \<Rightarrow> ProgramConfig \<times> 'p \<Rightarrow> 'p Manager \<Rightarrow> 'p Manager" where
  "register W cp s =
     (let (cfg, p) = cp;
          n = c_name cfg;
          s = (if c_autostart cfg then s\<lparr>m_calls := m_calls s @ [(0, n, CallStart)]\<rparr> else s);
          p = (if c_autostart cfg then snd (w_start W p) else p)
      in s\<lparr>m_programs := hm_insert n p (m_programs s), m_configs := hm_insert n cfg (m_configs s)\<rparr>)"

definition replace_program :: "'p World \<Rightarrow> ProgramConfig \<times> 'p \<Rightarrow> 'p Manager \<Rightarrow> 'p Manager" where
  "replace_program W cp s =
     register W cp (retire W (c_stop_wait_secs (fst cp)) (c_name (fst cp)) s)"

text \<open>The in-memory mode cannot be switched at runtime; the rest of the section is taken over.\<close>

definition sync_logging_config :: "LoggingConfig \<Rightarrow> 'p Manager \<Rightarrow> 'p Manager" where
  "sync_logging_config new_logging s =
     (if (g_enabled (m_config_logging s) = InMemoryOnly) \<noteq> (g_enabled new_logging = InMemoryOnly)
      then s\<lparr>m_config_logging := new_logging\<lparr>g_enabled := g_enabled (m_config_logging s)\<rparr>\<rparr>
      else s\<lparr>m_config_logging := new_logging\<rparr>)"

definition refresh_derived_state :: "'p World \<Rightarrow> 'p Manager \<Rightarrow> 'p Manager" where
  "refresh_derived_state W s =
     (let s = (case dag_build W (m_configs s) of Inr dag \<Rightarrow> s\<lparr>m_dag := dag\<rparr> | Inl _ \<Rightarrow> s)
      in s\<lparr>m_cron_table := from_configs (w_next_occ W) (w_now W) (m_configs s),
           m_watch_configs := m_configs s, m_shared_configs := m_configs s\<rparr>)"

definition set_pending :: "ProgramConfig hmap \<Rightarrow> 'p Manager \<Rightarrow> 'p Manager" where
  "set_pending m s = s\<lparr>m_pending_configs := m, m_shared_pending_configs := m\<rparr>"

record ReloadSummary =
  rs_added :: "string list"
  rs_removed :: "string list"
  rs_modified :: "string list"
  rs_unchanged :: "string list"

definition summary_of :: "ConfigDiff \<Rightarrow> ReloadSummary" where
  "summary_of d =
     \<lparr>rs_added = map c_name (df_added d), rs_removed = df_removed d,
      rs_modified = map c_name (df_modified d), rs_unchanged = df_unchanged d\<rparr>"

text \<open>Phase 2 of the reload: nothing below can fail.\<close>

definition commit_reload ::
  "'p World \<Rightarrow> ConfigDiff \<Rightarrow> (ProgramConfig \<times> 'p) list \<Rightarrow> (ProgramConfig \<times> 'p) list \<Rightarrow>
     EventListenerConfig hmap \<Rightarrow> DependencyGraph \<Rightarrow> LoggingConfig \<Rightarrow> 'p Manager \<Rightarrow> 'p Manager" where
  "commit_reload W diff staged_modified staged_added pools new_dag logging s =
     (let s = s\<lparr>m_event_pools := pools\<rparr>;
          s = fold (unregister W) (df_removed diff) s;
          s = fold (replace_program W) staged_modified s;
          s = fold (register W) staged_added s;
          s = s\<lparr>m_dag := new_dag,
                m_cron_table := from_configs (w_next_occ W) (w_now W) (m_configs s),
                m_watch_configs := m_configs s\<rparr>;
          s = sync_logging_config logging s;
          s = s\<lparr>m_shared_configs := m_configs s\<rparr>
      in m_publish (ConfigReloaded (map c_name (df_added diff)) (df_removed diff)
                      (map c_name (df_modified diff)) (df_unchanged diff)) s)"

definition execute_reload_config ::
  "'p World \<Rightarrow> ProgramConfig hmap result \<Rightarrow> LoggingConfig \<Rightarrow> 'p Manager \<Rightarrow> ReloadSummary result \<times> 'p Manager" where
  "execute_reload_config W resolved logging s =
     (case resolved of
        Inl e \<Rightarrow> (Inl e, s)
      | Inr new_map \<Rightarrow>
          (case dag_build W new_map of
             Inl e \<Rightarrow> (Inl e, s)
           | Inr new_dag \<Rightarrow>
               let s' = set_pending new_map s;
                   diff = compute (m_configs s) new_map
               in (case stage W (df_modified diff) (m_event_pools s) of
                     (Inl e, _) \<Rightarrow> (Inl e, s')
                   | (Inr staged_modified, pools) \<Rightarrow>
                       (case stage W (df_added diff) pools of
                          (Inl e, _) \<Rightarrow> (Inl e, s')
                        | (Inr staged_added, pools) \<Rightarrow>
                            (Inr (summary_of diff),
                             commit_reload W diff staged_modified staged_added pools new_dag
                               logging s')))))"

definition shutdown_all :: "'p World \<Rightarrow> 'p Manager \<Rightarrow> 'p Manager" where
  "shutdown_all W s =
     fold (\<lambda>n s. snd (call_prog 0 CallShutdown (\<lambda>p. (Inr (), w_shutdown W p)) n s))
       (keys (m_programs s)) s"

definition execute_restart_daemon ::
  "'p World \<Rightarrow> ProgramConfig hmap result \<Rightarrow> LoggingConfig \<Rightarrow> nat \<Rightarrow> 'p Manager \<Rightarrow> unit result \<times> 'p Manager" where
  "execute_restart_daemon W resolved logging timestamp s =
     (case resolved of
        Inl e \<Rightarrow> (Inl e, s)
      | Inr new_map \<Rightarrow>
          (case dag_build W new_map of
             Inl e \<Rightarrow> (Inl e, s)
           | Inr _ \<Rightarrow>
               let s = set_pending new_map s
               in (case stage W (vals new_map) [] of
                     (Inl e, _) \<Rightarrow> (Inl e, s)
                   | (Inr staged, pools) \<Rightarrow>
                       let s = execute_stop_all W None s;
                           s = shutdown_all W s;
                           s = s\<lparr>m_programs := [], m_configs := [], m_event_pools := pools\<rparr>;
                           s = s\<lparr>m_programs := fold (\<lambda>(n, p). hm_insert n p)
                                   (zip (keys new_map) (map snd staged)) (m_programs s),
                                 m_configs := fold (\<lambda>(n, c). hm_insert n c)
                                   (zip (keys new_map) (map fst staged)) (m_configs s)\<rparr>;
                           s = sync_logging_config logging s;
                           s = refresh_derived_state W s;
                           s = execute_start_all W s
                       in (Inr (), m_publish (DaemonLifecycle ''restarted'' timestamp) s))))"

definition execute_add_process_group :: "'p World \<Rightarrow> string \<Rightarrow> 'p Manager \<Rightarrow> bool result \<times> 'p Manager" where
  "execute_add_process_group W grp s =
     (if \<exists>cfg \<in> set (vals (m_configs s)). c_group cfg = grp then (Inr False, s)
      else (let candidates = filter (\<lambda>cfg. c_group cfg = grp) (vals (m_pending_configs s))
            in if candidates = [] then (Inl (NotFound grp), s)
               else (case stage W candidates (m_event_pools s) of
                       (Inl e, _) \<Rightarrow> (Inl e, s)
                     | (Inr staged, pools) \<Rightarrow>
                         let s = fold (register W) staged (s\<lparr>m_event_pools := pools\<rparr>);
                             s = refresh_derived_state W s
                         in (Inr True, m_publish (ProcessGroupAdded grp) s))))"

definition still_running :: "'p World \<Rightarrow> 'p Manager \<Rightarrow> string \<Rightarrow> bool" where
  "still_running W s n \<longleftrightarrow>
     (case prog_state W s n of Some st \<Rightarrow> is_active st \<or> st = Backoff | None \<Rightarrow> False)"

definition execute_remove_process_group ::
  "'p World \<Rightarrow> string \<Rightarrow> 'p Manager \<Rightarrow> bool result \<times> 'p Manager" where
  "execute_remove_process_group W grp s =
     (let active = map c_name (filter (\<lambda>cfg. c_group cfg = grp) (vals (m_configs s)))
      in if active = [] then (Inl (NotFound grp), s)
         else if \<exists>n \<in> set active. still_running W s n then (Inr False, s)
         else (let s = fold (unregister W) active s;
                   s = refresh_derived_state W s
               in (Inr True, m_publish (ProcessGroupRemoved grp) s)))"

section \<open>Cron and the event loop\<close>

definition run_cron_action :: "'p World \<Rightarrow> CronAction \<Rightarrow> 'p Manager \<Rightarrow> 'p Manager" where
  "run_cron_action W act s =
     (case act of
        CronStart name grp expression \<Rightarrow>
          (case prog_state W s name of
             None \<Rightarrow> s
           | Some st \<Rightarrow>
               if \<not> is_active st
               then snd (execute_start_program W name
                      (m_publish (CronTriggered name grp ''start'' expression) s))
               else s)
      | CronStop name grp expression \<Rightarrow>
          (case prog_state W s name of
             None \<Rightarrow> s
           | Some st \<Rightarrow>
               if is_active st
               then snd (execute_stop_program W name None
                      (m_publish (CronTriggered name grp ''stop'' expression) s))
               else s))"

definition handle_due_cron_jobs :: "'p World \<Rightarrow> 'p Manager \<Rightarrow> 'p Manager" where
  "handle_due_cron_jobs W s =
     (let (actions, t) = pop_due_actions (w_next_occ W) (w_now W) (m_cron_table s)
      in fold (run_cron_action W) actions (s\<lparr>m_cron_table := t\<rparr>))"

definition with_cron :: "(datetime \<Rightarrow> string) \<Rightarrow> 'p World \<Rightarrow> 'p Manager \<Rightarrow> string \<Rightarrow> 'p \<Rightarrow> ProgramStatus" where
  "with_cron fmt W s n p =
     (w_status W p)\<lparr>s_cron := get_cron_expr (m_cron_table s) n,
                    s_next_cron_run := get_next_run fmt (m_cron_table s) n\<rparr>"

definition first_match :: "'p Manager \<Rightarrow> string \<Rightarrow> string option" where
  "first_match s name =
     (if contains_key (m_programs s) name then Some name
      else (case find_match s name of [] \<Rightarrow> None | n # _ \<Rightarrow> Some n))"

definition get_status :: "(datetime \<Rightarrow> string) \<Rightarrow> 'p World \<Rightarrow> string \<Rightarrow> 'p Manager \<Rightarrow> ProgramStatus result" where
  "get_status fmt W name s =
     (case first_match s name of
        None \<Rightarrow> Inl (NotFound name)
      | Some n \<Rightarrow>
          (case hm_get (m_programs s) n of
             None \<Rightarrow> Inl (NotFound name)
           | Some p \<Rightarrow> Inr (with_cron fmt W s n p)))"

definition get_all_status :: "(datetime \<Rightarrow> string) \<Rightarrow> 'p World \<Rightarrow> 'p Manager \<Rightarrow> ProgramStatus list" where
  "get_all_status fmt W s =
     sort_key (\<lambda>st. (s_group st, s_name st)) (map (\<lambda>(n, p). with_cron fmt W s n p) (m_programs s))"

definition get_config :: "string \<Rightarrow> 'p Manager \<Rightarrow> ProgramConfig result" where
  "get_config name s =
     (let target = (if contains_key (m_configs s) name then Some name
                    else (case find_match s name of [] \<Rightarrow> None | n # _ \<Rightarrow> Some n))
      in case target of
           None \<Rightarrow> Inl (NotFound name)
         | Some n \<Rightarrow> (case hm_get (m_configs s) n of None \<Rightarrow> Inl (NotFound name) | Some c \<Rightarrow> Inr c))"

datatype ManagerCommand =
    StartProgram string
  | StopProgram string "duration option"
  | RestartProgram string "duration option"
  | SignalProgram string StopSignal
  | StartGroup string
  | StopGroup string "duration option"
  | RestartGroup string "duration option"
  | StartAll
  | StopAll "duration option"
  | ReloadConfig "ProgramConfig hmap result" LoggingConfig
  | RestartDaemon "ProgramConfig hmap result" LoggingConfig nat
  | AddProcessGroup string
  | RemoveProcessGroup string
  | Shutdown nat

datatype Reply = RUnit "unit result" | RNames "string list result" | RBool "bool result"
  | RSummary "ReloadSummary result"

text \<open>The commands that change state; the flag says that the loop ends after the command.\<close>

definition manager_command ::
  "'p World \<Rightarrow> ManagerCommand \<Rightarrow> 'p Manager \<Rightarrow> Reply \<times> bool \<times> 'p Manager" where
  "manager_command W cmd s =
     (let closing = m_is_shutting_down s;
          unit = (\<lambda>(r, s). (RUnit r, False, s));
          names = (\<lambda>(r, s). (RNames r, False, s));
          boolean = (\<lambda>(r, s). (RBool r, False, s))
      in case cmd of
           StartProgram name \<Rightarrow>
             if closing then (RUnit (Inl (ShuttingDown name)), False, s)
             else unit (execute_start_program W name s)
         | StopProgram name grace \<Rightarrow> unit (execute_stop_program W name grace s)
         | RestartProgram name grace \<Rightarrow>
             if closing then (RUnit (Inl (ShuttingDown name)), False, s)
             else unit (execute_restart_program W name grace s)
         | SignalProgram name sig \<Rightarrow>
             if closing then (RUnit (Inl (ShuttingDown name)), False, s)
             else unit (execute_signal_program W name sig s)
         | StartGroup grp \<Rightarrow>
             if closing then (RNames (Inl (ShuttingDown (''group '' @ quoted grp))), False, s)
             else names (execute_start_group W grp s)
         | StopGroup grp grace \<Rightarrow> names (execute_stop_group W grp grace s)
         | RestartGroup grp grace \<Rightarrow>
             if closing then (RNames (Inl (ShuttingDown (''group '' @ quoted grp))), False, s)
             else names (execute_restart_group W grp grace s)
         | StartAll \<Rightarrow>
             if closing then (RUnit (Inl (ShuttingDown ''manager'')), False, s)
             else (RUnit (Inr ()), False, execute_start_all W s)
         | StopAll grace \<Rightarrow> (RUnit (Inr ()), False, execute_stop_all W grace s)
         | ReloadConfig resolved mode \<Rightarrow>
             if closing then (RSummary (Inl (ShuttingDown ''manager'')), False, s)
             else (\<lambda>(r, s). (RSummary r, False, s)) (execute_reload_config W resolved mode s)
         | RestartDaemon resolved mode timestamp \<Rightarrow>
             if closing then (RUnit (Inl (ShuttingDown ''manager'')), False, s)
             else unit (execute_restart_daemon W resolved mode timestamp s)
         | AddProcessGroup grp \<Rightarrow>
             if closing then (RBool (Inl (ShuttingDown grp)), False, s)
             else boolean (execute_add_process_group W grp s)
         | RemoveProcessGroup grp \<Rightarrow>
             if closing then (RBool (Inl (ShuttingDown grp)), False, s)
             else boolean (execute_remove_process_group W grp s)
         | Shutdown timestamp \<Rightarrow>
             (RUnit (Inr ()), True,
              execute_stop_all W None
                (m_publish (DaemonLifecycle ''shutting_down'' timestamp) (s\<lparr>m_is_shutting_down := True\<rparr>))))"

text \<open>The cancellation branch, and what follows the loop in every case.\<close>

definition manager_cancel :: "'p World \<Rightarrow> 'p Manager \<Rightarrow> 'p Manager" where
  "manager_cancel W s = execute_stop_all W None (s\<lparr>m_is_shutting_down := True\<rparr>)"

definition manager_exit :: "'p World \<Rightarrow> 'p Manager \<Rightarrow> 'p Manager" where
  "manager_exit W s = shutdown_all W s"

section \<open>Construction and the life of the manager\<close>

definition manager_build ::
  "'p World \<Rightarrow> ProgramConfig hmap result \<Rightarrow> LoggingConfig \<Rightarrow> 'p Manager result" where
  "manager_build W resolved logging =
     (case resolved of
        Inl e \<Rightarrow> Inl e
      | Inr programs_map \<Rightarrow>
          (case dag_build W programs_map of
             Inl e \<Rightarrow> Inl e
           | Inr dag \<Rightarrow>
               (case stage W (vals programs_map) [] of
                  (Inl e, _) \<Rightarrow> Inl e
                | (Inr staged, pools) \<Rightarrow>
                    Inr \<lparr>m_programs = fold (\<lambda>(n, p). hm_insert n p)
                           (zip (keys programs_map) (map snd staged)) [],
                         m_configs = programs_map, m_shared_configs = programs_map,
                         m_pending_configs = programs_map, m_shared_pending_configs = programs_map,
                         m_dag = dag,
                         m_cron_table = from_configs (w_next_occ W) (w_now W) programs_map,
                         m_watch_configs = programs_map, m_is_shutting_down = False,
                         m_event_pools = pools, m_config_logging = logging,
                         m_events = [], m_calls = []\<rparr>)))"

text \<open>The configuration that a command carries has the shape that the loader gives it.\<close>

definition resolved_ok :: "ManagerCommand \<Rightarrow> bool" where
  "resolved_ok cmd =
     (case cmd of
        ReloadConfig (Inr new) _ \<Rightarrow> named_map new
      | RestartDaemon (Inr new) _ _ \<Rightarrow> named_map new
      | _ \<Rightarrow> True)"

text \<open>
  A manager in operation: it is built, serves commands, fires cron jobs unless it is shutting
  down, and meanwhile its programs evolve on their own. The world may differ in every step,
  since the clock and the answers of the system do.
\<close>

inductive manager_reachable :: "'p World set \<Rightarrow> ('p \<Rightarrow> 'p \<Rightarrow> bool) \<Rightarrow> 'p Manager \<Rightarrow> bool"
  for Ws :: "'p World set" and evolve :: "'p \<Rightarrow> 'p \<Rightarrow> bool" where
  manager_built: "\<lbrakk>W \<in> Ws; named_map m; manager_build W (Inr m) logging = Inr s\<rbrakk>
     \<Longrightarrow> manager_reachable Ws evolve s"
| manager_served: "\<lbrakk>manager_reachable Ws evolve s; W \<in> Ws; resolved_ok cmd;
     manager_command W cmd s = (reply, final, s')\<rbrakk> \<Longrightarrow> manager_reachable Ws evolve s'"
| manager_cron: "\<lbrakk>manager_reachable Ws evolve s; W \<in> Ws; \<not> m_is_shutting_down s\<rbrakk>
     \<Longrightarrow> manager_reachable Ws evolve (handle_due_cron_jobs W s)"
| manager_program: "\<lbrakk>manager_reachable Ws evolve s; hm_get (m_programs s) n = Some p; evolve p p'\<rbrakk>
     \<Longrightarrow> manager_reachable Ws evolve (s\<lparr>m_programs := hm_insert n p' (m_programs s)\<rparr>)"

end
