(* ===== verification/Manager_Props.thy ===== *)
theory Manager_Props
  imports Manager
begin

text \<open>
  The contract of the \<open>Program\<close> trait as a locale, what the manager guarantees for every program
  that satisfies it, and its interpretation on the process program: bulk stop and start order,
  atomic hot reload, runtime groups, shutdown.
\<close>

section \<open>The contract of a program\<close>

locale program_trait =
  fixes W :: "'p World" and good :: "'p \<Rightarrow> bool" and idle :: "'p \<Rightarrow> bool"
  assumes iter_perm: "\<And>m. mset (w_iter W m) = mset m"
    and good_start: "good p \<Longrightarrow> good (snd (w_start W p))"
    and good_stop: "good p \<Longrightarrow> good (snd (w_stop W d p))"
    and good_restart: "good p \<Longrightarrow> good (snd (w_restart W d p))"
    and good_signal: "good p \<Longrightarrow> good (snd (w_signal W sg p))"
    and good_shutdown: "good p \<Longrightarrow> good (w_shutdown W p)"
    and good_process: "w_new_process W c = Inr p \<Longrightarrow> good p"
    and good_listener: "w_new_listener W c n = Inr p \<Longrightarrow> good p"
    and stop_idle: "good p \<Longrightarrow> idle (snd (w_stop W d p))"
    and shutdown_idle: "good p \<Longrightarrow> idle (w_shutdown W p)"
    and stopped_idle: "good p \<Longrightarrow> s_state (w_status W p) = Stopped \<Longrightarrow> idle p"

text \<open>The registry: every configuration has a program under its name and conversely.\<close>

definition registry_ok :: "('p \<Rightarrow> bool) \<Rightarrow> 'p Manager \<Rightarrow> bool" where
  "registry_ok good s \<longleftrightarrow>
     hm_wf (m_programs s) \<and> named_map (m_configs s) \<and>
     set (keys (m_programs s)) = set (keys (m_configs s)) \<and>
     (\<forall>n p. hm_get (m_programs s) n = Some p \<longrightarrow> good p)"

text \<open>A registered program with a property, for example one that has no process left.\<close>

definition prog_in :: "('p \<Rightarrow> bool) \<Rightarrow> 'p Manager \<Rightarrow> string \<Rightarrow> bool" where
  "prog_in Q s n \<longleftrightarrow> (case hm_get (m_programs s) n of Some p \<Rightarrow> Q p | None \<Rightarrow> False)"

text \<open>The copies that other tasks read agree with the active configuration.\<close>

definition shared_ok :: "'p Manager \<Rightarrow> bool" where
  "shared_ok s \<longleftrightarrow> m_shared_configs s = m_configs s \<and> m_watch_configs s = m_configs s \<and>
     m_shared_pending_configs s = m_pending_configs s"

definition dag_current :: "'p World \<Rightarrow> 'p Manager \<Rightarrow> bool" where
  "dag_current W s \<longleftrightarrow> dag_build W (m_configs s) = Inr (m_dag s)"

section \<open>Calls on programs\<close>

lemma call_prog_get:
  "hm_get (m_programs (snd (call_prog b c f n s))) m =
     (if m = n then map_option (\<lambda>p. snd (f p)) (hm_get (m_programs s) n) else hm_get (m_programs s) m)"
  by (simp add: call_prog_def split_beta split: option.split)

lemma call_prog_frame [simp]:
  "m_configs (snd (call_prog b c f n s)) = m_configs s"
  "m_shared_configs (snd (call_prog b c f n s)) = m_shared_configs s"
  "m_pending_configs (snd (call_prog b c f n s)) = m_pending_configs s"
  "m_shared_pending_configs (snd (call_prog b c f n s)) = m_shared_pending_configs s"
  "m_dag (snd (call_prog b c f n s)) = m_dag s"
  "m_cron_table (snd (call_prog b c f n s)) = m_cron_table s"
  "m_watch_configs (snd (call_prog b c f n s)) = m_watch_configs s"
  "m_is_shutting_down (snd (call_prog b c f n s)) = m_is_shutting_down s"
  "m_event_pools (snd (call_prog b c f n s)) = m_event_pools s"
  "m_config_logging (snd (call_prog b c f n s)) = m_config_logging s"
  "m_events (snd (call_prog b c f n s)) = m_events s"
  by (simp_all add: call_prog_def split_beta split: option.split)

lemma call_prog_keys [simp]:
  "set (keys (m_programs (snd (call_prog b c f n s)))) = set (keys (m_programs s))"
  by (auto simp: call_prog_def split_beta hm_get_Some_key split: option.split)

lemma call_prog_wf [simp]:
  "hm_wf (m_programs s) \<Longrightarrow> hm_wf (m_programs (snd (call_prog b c f n s)))"
  by (auto simp: call_prog_def split_beta split: option.split)

lemma call_prog_calls:
  "m_calls (snd (call_prog b c f n s)) =
     m_calls s @ (if n \<in> set (keys (m_programs s)) then [(b, n, c)] else [])"
proof (cases "hm_get (m_programs s) n")
  case None
  then have "n \<notin> set (keys (m_programs s))" by (simp add: hm_get_None_iff)
  then show ?thesis using None by (simp add: call_prog_def)
next
  case (Some p)
  then show ?thesis using hm_get_Some_key [OF Some] by (simp add: call_prog_def split_beta)
qed

lemma call_prog_registry:
  assumes "registry_ok good s" and "\<And>p. good p \<Longrightarrow> good (snd (f p))"
  shows "registry_ok good (snd (call_prog b c f n s))"
  using assms by (auto simp: registry_ok_def call_prog_get split: if_splits)

lemma prog_state_cong:
  "hm_get (m_programs s) n = hm_get (m_programs s') n \<Longrightarrow> prog_state W s n = prog_state W s' n"
  by (simp add: prog_state_def)

text \<open>
  A property of the manager that each call keeps is kept by a sequence of calls; the same for a
  frame of fields.
\<close>

lemma call_each_invariant:
  assumes "P s" and "\<And>n s. P s \<Longrightarrow> P (snd (f n s))"
  shows "P (snd (call_each f ns s))"
  using assms(1)
proof (induction ns arbitrary: s)
  case (Cons n ns)
  obtain r s' where "f n s = (r, s')" by (cases "f n s")
  moreover have "P s'" using assms(2) [OF Cons.prems, of n] calculation by simp
  ultimately show ?case using Cons.IH by (cases r) simp_all
qed simp

lemma fold_invariant_all: "P s \<Longrightarrow> (\<And>x s. x \<in> set xs \<Longrightarrow> P s \<Longrightarrow> P (f x s)) \<Longrightarrow> P (fold f xs s)"
  by (induction xs arbitrary: s) auto

section \<open>Stopping everything\<close>

context program_trait
begin

lemma stop_one_get:
  "hm_get (m_programs (snd (stop_one W b g n s))) m =
     (if m = n then map_option (\<lambda>p. snd (w_stop W (unwrap_or g (stop_wait_of s n)) p)) (hm_get (m_programs s) n)
      else hm_get (m_programs s) m)"
  by (simp add: stop_one_def Let_def call_prog_get)

lemma stop_one_registry: "registry_ok good s \<Longrightarrow> registry_ok good (snd (stop_one W b g n s))"
  by (simp add: stop_one_def Let_def call_prog_registry good_stop)

lemma start_one_registry: "registry_ok good s \<Longrightarrow> registry_ok good (snd (start_one W b n s))"
  by (simp add: start_one_def call_prog_registry good_start)

lemma stop_one_state:
  assumes "registry_ok good s"
  shows "prog_in idle (snd (stop_one W b g n s)) m =
     (m = n \<and> n \<in> set (keys (m_programs s)) \<or> prog_in idle s m)"
proof (cases "hm_get (m_programs s) n")
  case None
  then have "n \<notin> set (keys (m_programs s))" by (simp add: hm_get_None_iff)
  then show ?thesis using None by (auto simp: prog_in_def stop_one_get)
next
  case (Some p)
  then have "good p" using assms by (auto simp: registry_ok_def)
  then show ?thesis using Some stop_idle hm_get_Some_key [OF Some]
    by (auto simp: prog_in_def stop_one_get)
qed

lemma stop_names_state:
  assumes "registry_ok good s"
  shows "registry_ok good (fold (\<lambda>n s. snd (stop_one W b g n s)) ns s) \<and>
     set (keys (m_programs (fold (\<lambda>n s. snd (stop_one W b g n s)) ns s))) = set (keys (m_programs s)) \<and>
     prog_in idle (fold (\<lambda>n s. snd (stop_one W b g n s)) ns s) m =
       (m \<in> set ns \<and> m \<in> set (keys (m_programs s)) \<or> prog_in idle s m)"
  using assms
proof (induction ns arbitrary: s)
  case (Cons n ns)
  have r: "registry_ok good (snd (stop_one W b g n s))" using Cons.prems by (rule stop_one_registry)
  have k: "set (keys (m_programs (snd (stop_one W b g n s)))) = set (keys (m_programs s))"
    by (simp add: stop_one_def Let_def)
  show ?case using Cons.IH [OF r] stop_one_state [OF Cons.prems] k by auto
qed simp

lemma stop_layer_state:
  assumes "registry_ok good s"
  shows "registry_ok good (stop_layer W g bl s)"
    and "set (keys (m_programs (stop_layer W g bl s))) = set (keys (m_programs s))"
    and "prog_in idle (stop_layer W g bl s) m =
       (m \<in> set (snd bl) \<and> m \<in> set (keys (m_programs s)) \<or> prog_in idle s m)"
proof -
  let ?ns = "filter (should_stop W s) (snd bl)"
  note st = stop_names_state [OF assms, of "fst bl" g ?ns]
  show "registry_ok good (stop_layer W g bl s)" using st by (simp add: stop_layer_def)
  show "set (keys (m_programs (stop_layer W g bl s))) = set (keys (m_programs s))"
    using st by (simp add: stop_layer_def)
  have "prog_in idle s m"
    if "m \<in> set (snd bl)" "m \<in> set (keys (m_programs s))" "\<not> should_stop W s m"
  proof -
    note t = that
    obtain p where p: "hm_get (m_programs s) m = Some p" using t(2) by (rule key_hm_getE)
    then have "good p" using assms by (auto simp: registry_ok_def)
    moreover have "s_state (w_status W p) = Stopped"
      using t(3) p by (simp add: should_stop_def prog_state_def)
    ultimately show ?thesis using p stopped_idle by (simp add: prog_in_def)
  qed
  then show "prog_in idle (stop_layer W g bl s) m =
       (m \<in> set (snd bl) \<and> m \<in> set (keys (m_programs s)) \<or> prog_in idle s m)"
    using st [of m] by (auto simp: stop_layer_def)
qed

lemma stop_layers_state:
  assumes "registry_ok good s"
  shows "registry_ok good (fold (stop_layer W g) bls s) \<and>
     set (keys (m_programs (fold (stop_layer W g) bls s))) = set (keys (m_programs s)) \<and>
     prog_in idle (fold (stop_layer W g) bls s) m =
       (m \<in> (\<Union>bl \<in> set bls. set (snd bl)) \<and> m \<in> set (keys (m_programs s)) \<or> prog_in idle s m)"
  using assms
proof (induction bls arbitrary: s)
  case (Cons bl bls)
  note st = stop_layer_state [OF Cons.prems, of g bl]
  show ?case using Cons.IH [OF st(1)] st(2,3) by auto
qed simp

lemma stop_all_registry: "registry_ok good s \<Longrightarrow> registry_ok good (execute_stop_all W g s)"
  using stop_layers_state by (simp add: execute_stop_all_def)

lemma stop_all_state:
  assumes "registry_ok good s"
  shows "prog_in idle (execute_stop_all W g s) m =
     (m \<in> set (concat (stop_layers (m_dag s))) \<and> m \<in> set (keys (m_programs s)) \<or> prog_in idle s m)"
proof -
  have "(\<Union>bl \<in> set (enumerate 1 L). set (snd bl)) = set (concat L)" for L :: "string list list"
    by (metis (no_types) image_image list.set_map map_snd_enumerate set_concat)
  then show ?thesis using stop_layers_state [OF assms, of g "enumerate 1 (stop_layers (m_dag s))"]
    by (simp add: execute_stop_all_def)
qed

end

section \<open>What an operation touches\<close>

text \<open>
  \<open>touches A s s'\<close>: from \<open>s\<close> to \<open>s'\<close> only programs named in \<open>A\<close> were called, replaced or removed.
\<close>

definition touches :: "string set \<Rightarrow> 'p Manager \<Rightarrow> 'p Manager \<Rightarrow> bool" where
  "touches A s s' \<longleftrightarrow>
     (\<forall>n. n \<notin> A \<longrightarrow> hm_get (m_programs s') n = hm_get (m_programs s) n \<and>
                    hm_get (m_configs s') n = hm_get (m_configs s) n) \<and>
     (\<exists>xs. m_calls s' = m_calls s @ xs \<and> (\<forall>(b, n, c) \<in> set xs. n \<in> A))"

lemma touches_refl [simp]: "touches A s s"
  by (simp add: touches_def)

lemma touches_trans: "touches A s s' \<Longrightarrow> touches B s' s'' \<Longrightarrow> touches (A \<union> B) s s''"
  unfolding touches_def by fastforce

lemma touches_mono: "touches A s s' \<Longrightarrow> A \<subseteq> B \<Longrightarrow> touches B s s'"
  unfolding touches_def by fast

lemma touches_frame:
  "touches A s s' \<Longrightarrow> m_programs t = m_programs s' \<Longrightarrow> m_configs t = m_configs s' \<Longrightarrow>
     m_calls t = m_calls s' \<Longrightarrow> touches A s t"
  by (simp add: touches_def)

lemma touches_call: "touches {n} s (snd (call_prog b c f n s))"
  by (auto simp: touches_def call_prog_get call_prog_calls)

lemma touches_fold:
  assumes "\<And>x s. x \<in> set xs \<Longrightarrow> touches (A x) s (f x s)"
  shows "touches (\<Union>x \<in> set xs. A x) s (fold f xs s)"
  using assms
proof (induction xs arbitrary: s)
  case (Cons x xs)
  have "touches (A x) s (f x s)" using Cons.prems by simp
  moreover have "touches (\<Union>x \<in> set xs. A x) (f x s) (fold f xs (f x s))"
    using Cons.prems by (intro Cons.IH) simp
  ultimately show ?case using touches_trans by fastforce
qed simp

lemma touches_retire: "touches {n} s (retire W d n s)"
proof -
  have "touches ({n} \<union> {n}) s (snd (call_prog 0 CallShutdown f n (snd (call_prog 0 (CallStop d) g n s))))" for f g
    by (rule touches_trans [OF touches_call touches_call])
  then show ?thesis by (simp add: retire_def Let_def split: option.split)
qed

lemma touches_unregister: "touches {n} s (unregister W n s)"
  using touches_retire [of n s W DEFAULT_STOP_WAIT] by (auto simp: unregister_def touches_def Let_def)

lemma touches_register: "touches {c_name (fst cp)} s (register W cp s)"
  by (auto simp: register_def touches_def Let_def split_beta)

lemma touches_replace: "touches {c_name (fst cp)} s (replace_program W cp s)"
  using touches_trans [OF touches_retire touches_register] unfolding replace_program_def
  by (metis Un_absorb)

section \<open>Registering and removing\<close>

lemma retire_frame [simp]:
  "m_configs (retire W d n s) = m_configs s"
  "set (keys (m_programs (retire W d n s))) = set (keys (m_programs s))"
  "hm_wf (m_programs s) \<Longrightarrow> hm_wf (m_programs (retire W d n s))"
  "m_dag (retire W d n s) = m_dag s" "m_event_pools (retire W d n s) = m_event_pools s"
  "m_pending_configs (retire W d n s) = m_pending_configs s"
  "m_shared_pending_configs (retire W d n s) = m_shared_pending_configs s"
  "m_is_shutting_down (retire W d n s) = m_is_shutting_down s"
  by (simp_all add: retire_def Let_def split: option.split)

lemma unregister_frame [simp]:
  "m_configs (unregister W n s) = hm_remove n (m_configs s)"
  "m_dag (unregister W n s) = m_dag s" "m_event_pools (unregister W n s) = m_event_pools s"
  "m_pending_configs (unregister W n s) = m_pending_configs s"
  "m_shared_pending_configs (unregister W n s) = m_shared_pending_configs s"
  "m_is_shutting_down (unregister W n s) = m_is_shutting_down s"
  "hm_get (m_programs (unregister W n s)) n = None"
  by (simp_all add: unregister_def Let_def)

lemma register_frame [simp]:
  "m_configs (register W cp s) = hm_insert (c_name (fst cp)) (fst cp) (m_configs s)"
  "m_dag (register W cp s) = m_dag s" "m_event_pools (register W cp s) = m_event_pools s"
  "m_pending_configs (register W cp s) = m_pending_configs s"
  "m_shared_pending_configs (register W cp s) = m_shared_pending_configs s"
  "m_is_shutting_down (register W cp s) = m_is_shutting_down s"
  by (simp_all add: register_def Let_def split_beta)

lemma replace_frame [simp]:
  "m_configs (replace_program W cp s) = hm_insert (c_name (fst cp)) (fst cp) (m_configs s)"
  "m_dag (replace_program W cp s) = m_dag s" "m_event_pools (replace_program W cp s) = m_event_pools s"
  "m_pending_configs (replace_program W cp s) = m_pending_configs s"
  "m_shared_pending_configs (replace_program W cp s) = m_shared_pending_configs s"
  "m_is_shutting_down (replace_program W cp s) = m_is_shutting_down s"
  by (simp_all add: replace_program_def)

lemma named_map_insert: "named_map m \<Longrightarrow> named_map (hm_insert (c_name c) c m)"
proof -
  have "set (hm_insert k v m) \<subseteq> insert (k, v) (set m)" for k and v :: ProgramConfig
    by (induction k v m rule: hm_insert.induct) auto
  then show "named_map m \<Longrightarrow> named_map (hm_insert (c_name c) c m)"
    unfolding named_map_def by fastforce
qed

lemma named_map_remove: "named_map m \<Longrightarrow> named_map (hm_remove n m)"
  by (auto simp: named_map_def hm_remove_def hm_wf_def keys_def distinct_map_filter)

context program_trait
begin

lemma retire_registry:
  assumes "registry_ok good s" shows "registry_ok good (retire W d n s)"
proof -
  have "registry_ok good (snd (call_prog 0 (CallStop d) (w_stop W d) n s))"
    using assms good_stop by (rule call_prog_registry)
  then have "registry_ok good (snd (call_prog 0 CallShutdown (\<lambda>p. (Inr (), w_shutdown W p)) n
      (snd (call_prog 0 (CallStop d) (w_stop W d) n s))))"
    by (rule call_prog_registry) (simp add: good_shutdown)
  then show ?thesis using assms by (simp add: retire_def Let_def split: option.split)
qed

lemma unregister_registry:
  assumes "registry_ok good s" shows "registry_ok good (unregister W n s)"
  using retire_registry [OF assms, of DEFAULT_STOP_WAIT n]
  by (auto simp: unregister_def Let_def registry_ok_def named_map_remove)

lemma register_registry:
  assumes "registry_ok good s" and "good (snd cp)" shows "registry_ok good (register W cp s)"
  using assms good_start
  by (auto simp: register_def Let_def split_beta registry_ok_def named_map_insert split: if_splits)

lemma replace_registry:
  "registry_ok good s \<Longrightarrow> good (snd cp) \<Longrightarrow> registry_ok good (replace_program W cp s)"
  by (simp add: replace_program_def register_registry retire_registry)

lemma instantiate_good: "instantiate_program W cfg pools = (Inr p, pools') \<Longrightarrow> good p"
  using good_process good_listener
  by (auto simp: instantiate_program_def Let_def split: option.splits if_splits)

lemma stage_ok:
  "stage W cfgs pools = (Inr ps, pools') \<Longrightarrow> map fst ps = cfgs \<and> (\<forall>cp \<in> set ps. good (snd cp))"
proof (induction cfgs arbitrary: pools ps)
  case (Cons cfg cfgs)
  obtain p pl where i: "instantiate_program W cfg pools = (Inr p, pl)"
    using Cons.prems by (cases "instantiate_program W cfg pools"; cases "fst (instantiate_program W cfg pools)") auto
  obtain qs where q: "stage W cfgs pl = (Inr qs, pools')" "ps = (cfg, p) # qs"
    using Cons.prems i by (cases "stage W cfgs pl"; cases "fst (stage W cfgs pl)") auto
  show ?case using Cons.IH [OF q(1)] q(2) instantiate_good [OF i] by simp
qed simp

end

section \<open>Hot reload\<close>

lemma fold_unregister_get:
  "hm_get (m_configs (fold (unregister W) ns s)) m = (if m \<in> set ns then None else hm_get (m_configs s) m)"
  by (induction ns arbitrary: s) auto

lemma fold_frame:
  assumes "\<And>x s. g (f x s) = g s" shows "g (fold f xs s) = g s"
  by (induction xs arbitrary: s) (simp_all add: assms)

lemma fold_insert_other:
  assumes "\<And>cp s. m_configs (f cp s) = hm_insert (c_name (fst cp)) (fst cp) (m_configs s)"
    and "m \<notin> c_name ` fst ` set cps"
  shows "hm_get (m_configs (fold f cps s)) m = hm_get (m_configs s) m"
  using assms(2) by (induction cps arbitrary: s) (auto simp: assms(1))

lemma fold_insert_in:
  assumes "\<And>cp s. m_configs (f cp s) = hm_insert (c_name (fst cp)) (fst cp) (m_configs s)"
    and "distinct (map c_name (map fst cps))" and "cp \<in> set cps"
  shows "hm_get (m_configs (fold f cps s)) (c_name (fst cp)) = Some (fst cp)"
  using assms(2,3)
proof (induction cps arbitrary: s)
  case (Cons x cps)
  show ?case
  proof (cases "cp = x")
    case True
    then have "c_name (fst cp) \<notin> c_name ` fst ` set cps" using Cons.prems(1) by auto
    then show ?thesis using True fold_insert_other [OF assms(1)] by (simp add: assms(1))
  next
    case False
    then show ?thesis using Cons by simp
  qed
qed simp

definition reload_configs ::
  "'p World \<Rightarrow> ConfigDiff \<Rightarrow> (ProgramConfig \<times> 'p) list \<Rightarrow> (ProgramConfig \<times> 'p) list \<Rightarrow> 'p Manager \<Rightarrow> 'p Manager" where
  "reload_configs W diff sm sa s =
     fold (register W) sa (fold (replace_program W) sm (fold (unregister W) (df_removed diff) s))"

lemma reload_configs_get:
  assumes new: "named_map new" and diff: "diff = compute (m_configs s) new"
    and sm: "map fst sm = df_modified diff" and sa: "map fst sa = df_added diff"
  shows "hm_get (m_configs (reload_configs W diff sm sa s)) m = hm_get new m"
proof -
  have wf: "hm_wf new" using new by (simp add: named_map_def)
  have fm: "fst ` set sm = set (df_modified diff)" "fst ` set sa = set (df_added diff)"
    using sm sa by (metis set_map)+
  note d = diff_names_distinct [OF new, of "m_configs s", folded diff]
  let ?s1 = "fold (unregister W) (df_removed diff) s"
  let ?s2 = "fold (replace_program W) sm ?s1"
  have s3: "hm_get (m_configs (reload_configs W diff sm sa s)) m = hm_get (m_configs ?s2) m"
    if "m \<notin> c_name ` set (df_added diff)"
    unfolding reload_configs_def using that fm(2) by (intro fold_insert_other) auto
  have s2: "hm_get (m_configs ?s2) m = hm_get (m_configs ?s1) m"
    if "m \<notin> c_name ` set (df_modified diff)"
    using that fm(1) by (intro fold_insert_other) auto
  note an = added_names [OF new, of "m_configs s", folded diff]
    and mn = modified_names [OF new, of "m_configs s", folded diff]
  show ?thesis
  proof (cases "hm_get new m")
    case None
    then have "m \<notin> set (keys new)" by (simp add: hm_get_None_iff)
    then have "hm_get (m_configs (reload_configs W diff sm sa s)) m = hm_get (m_configs ?s1) m"
      using s3 s2 an mn None by auto
    also have "\<dots> = None"
      using removed_iff [of m "m_configs s" new] \<open>m \<notin> set (keys new)\<close>
      by (auto simp: fold_unregister_get diff hm_get_None_iff)
    finally show ?thesis using None by simp
  next
    case (Some c)
    have key: "m \<in> set (keys new)" using Some by (rule hm_get_Some_key)
    have nm: "c_name c = m" using named_map_get [OF new Some] .
    consider (added) "hm_get (m_configs s) m = None"
      | (modified) c' where "hm_get (m_configs s) m = Some c'" "c' \<noteq> c"
      | (same) "hm_get (m_configs s) m = Some c" by (cases "hm_get (m_configs s) m") auto
    then show ?thesis
    proof cases
      case added
      then have "c \<in> set (df_added diff)" using Some added_iff [OF wf] diff by blast
      then obtain cp where "cp \<in> set sa" "fst cp = c" using fm(2) by (metis imageE)
      then show ?thesis
        using fold_insert_in [of "register W" sa cp ?s2] d(1) sa nm Some
        by (simp add: reload_configs_def)
    next
      case modified
      then have "m \<notin> c_name ` set (df_added diff)" using an hm_get_Some_key by fastforce
      moreover have "c \<in> set (df_modified diff)" using Some modified modified_iff [OF wf] diff by blast
      then obtain cp where "cp \<in> set sm" "fst cp = c" using fm(1) by (metis imageE)
      then have "hm_get (m_configs ?s2) m = Some c"
        using fold_insert_in [of "replace_program W" sm cp ?s1] d(2) sm nm by simp
      ultimately show ?thesis using s3 Some by simp
    next
      case same
      then have "m \<notin> c_name ` set (df_added diff)" using an hm_get_Some_key by fastforce
      moreover have "m \<notin> c_name ` set (df_modified diff)" using mn same Some by auto
      moreover have "m \<notin> set (df_removed diff)" using key by (simp add: diff removed_iff)
      ultimately show ?thesis using s2 s3 same Some by (simp add: fold_unregister_get)
    qed
  qed
qed

lemma touches_reload_configs:
  assumes "map fst sm = df_modified diff" and "map fst sa = df_added diff"
  shows "touches (affected_programs diff) s (reload_configs W diff sm sa s)"
proof -
  have fm: "fst ` set sm = set (df_modified diff)" "fst ` set sa = set (df_added diff)"
    using assms by (metis set_map)+
  let ?s1 = "fold (unregister W) (df_removed diff) s"
  have "touches (\<Union>n \<in> set (df_removed diff). {n}) s ?s1"
    by (rule touches_fold) (rule touches_unregister)
  moreover have "touches (\<Union>cp \<in> set sm. {c_name (fst cp)}) ?s1 (fold (replace_program W) sm ?s1)"
    by (rule touches_fold) (rule touches_replace)
  moreover have "touches (\<Union>cp \<in> set sa. {c_name (fst cp)}) (fold (replace_program W) sm ?s1)
      (reload_configs W diff sm sa s)"
    unfolding reload_configs_def by (rule touches_fold) (rule touches_register)
  ultimately have "touches ((\<Union>n \<in> set (df_removed diff). {n}) \<union> (\<Union>cp \<in> set sm. {c_name (fst cp)}) \<union>
      (\<Union>cp \<in> set sa. {c_name (fst cp)})) s (reload_configs W diff sm sa s)"
    by (blast intro: touches_trans)
  moreover have "(\<Union>cp \<in> set sm. {c_name (fst cp)}) = c_name ` set (df_modified diff)"
    "(\<Union>cp \<in> set sa. {c_name (fst cp)}) = c_name ` set (df_added diff)"
    unfolding fm [symmetric] by auto
  ultimately show ?thesis by (simp add: affected_programs_def Un_ac)
qed

lemma commit_reload_eq:
  "commit_reload W diff sm sa pools dag mode s =
     (let s' = reload_configs W diff sm sa (s\<lparr>m_event_pools := pools\<rparr>)
      in m_publish (ConfigReloaded (map c_name (df_added diff)) (df_removed diff)
                      (map c_name (df_modified diff)) (df_unchanged diff))
           ((sync_logging_config mode
              (s'\<lparr>m_dag := dag, m_cron_table := from_configs (w_next_occ W) (w_now W) (m_configs s'),
                  m_watch_configs := m_configs s'\<rparr>))\<lparr>m_shared_configs := m_configs s'\<rparr>))"
  by (simp add: commit_reload_def reload_configs_def Let_def sync_logging_config_def)

lemma commit_reload_frame:
  assumes s': "s' = commit_reload W diff sm sa pools dag mode s"
  shows "m_programs s' = m_programs (reload_configs W diff sm sa (s\<lparr>m_event_pools := pools\<rparr>))"
    "m_configs s' = m_configs (reload_configs W diff sm sa (s\<lparr>m_event_pools := pools\<rparr>))"
    "m_calls s' = m_calls (reload_configs W diff sm sa (s\<lparr>m_event_pools := pools\<rparr>))"
    "m_dag s' = dag" "m_shared_configs s' = m_configs s'" "m_watch_configs s' = m_configs s'"
    "m_cron_table s' = from_configs (w_next_occ W) (w_now W) (m_configs s')"
  by (simp_all add: s' commit_reload_eq Let_def m_publish_def sync_logging_config_def)

lemma reload_pending:
  "m_pending_configs (commit_reload W diff sm sa pools dag mode s) = m_pending_configs s"
  "m_shared_pending_configs (commit_reload W diff sm sa pools dag mode s) = m_shared_pending_configs s"
  by (simp_all add: commit_reload_eq Let_def m_publish_def sync_logging_config_def reload_configs_def
      fold_frame [where g = m_pending_configs] fold_frame [where g = m_shared_pending_configs])

text \<open>The ways a reload can end: an error without effect, or a commit.\<close>

lemma reload_cases:
  assumes "execute_reload_config W resolved mode s = (r, s')"
  obtains
    (failed) e where "r = Inl e" "s' = s \<or> (\<exists>new. resolved = Inr new \<and> s' = set_pending new s)"
  | (committed) new dag diff sm sa pools pools' where "resolved = Inr new" "dag_build W new = Inr dag"
      "diff = compute (m_configs s) new" "r = Inr (summary_of diff)"
      "stage W (df_modified diff) (m_event_pools s) = (Inr sm, pools')"
      "stage W (df_added diff) pools' = (Inr sa, pools)"
      "s' = commit_reload W diff sm sa pools dag mode (set_pending new s)"
proof (cases resolved)
  case (Inl e)
  then have "r = Inl e" "s' = s" using assms by (simp_all add: execute_reload_config_def)
  then show ?thesis using failed by blast
next
  case (Inr new)
  show ?thesis
  proof (cases "dag_build W new")
    case (Inl e)
    then have "r = Inl e" "s' = s" using assms Inr by (simp_all add: execute_reload_config_def)
    then show ?thesis using failed by blast
  next
    case dag: (Inr dag)
    let ?diff = "compute (m_configs s) new"
    obtain rm pm where m: "stage W (df_modified ?diff) (m_event_pools s) = (rm, pm)" by fastforce
    have eq: "(r, s') = (case rm of Inl e \<Rightarrow> (Inl e, set_pending new s) | Inr sm \<Rightarrow>
        (case stage W (df_added ?diff) pm of
           (Inl e, _) \<Rightarrow> (Inl e, set_pending new s)
         | (Inr sa, pools) \<Rightarrow> (Inr (summary_of ?diff),
              commit_reload W ?diff sm sa pools dag mode (set_pending new s))))"
      using assms Inr dag m
      by (simp add: execute_reload_config_def Let_def split: sum.splits)
    show ?thesis
    proof (cases rm)
      case (Inl e)
      then show ?thesis using eq Inr failed by auto
    next
      case sm: (Inr sm)
      obtain ra pa where a: "stage W (df_added ?diff) pm = (ra, pa)" by fastforce
      show ?thesis
      proof (cases ra)
        case (Inl e)
        then show ?thesis using eq sm a Inr failed by auto
      next
        case (Inr sa)
        then show ?thesis using committed [OF \<open>resolved = Inr new\<close> dag refl _ _ _ _, where sm = sm and sa = sa]
            eq sm a m by auto
      qed
    qed
  qed
qed

lemma registry_cong:
  "registry_ok good s \<Longrightarrow> m_programs t = m_programs s \<Longrightarrow> m_configs t = m_configs s \<Longrightarrow> registry_ok good t"
  by (simp add: registry_ok_def)

context program_trait
begin

lemma reload_configs_registry:
  assumes "registry_ok good s" and "\<forall>cp \<in> set sm. good (snd cp)" and "\<forall>cp \<in> set sa. good (snd cp)"
  shows "registry_ok good (reload_configs W diff sm sa s)"
  unfolding reload_configs_def using assms
  by (intro fold_invariant_all [where P = "registry_ok good"]) (auto intro: unregister_registry replace_registry register_registry)

lemma dag_build_cover:
  assumes "dag_build W ps = Inr g" and "hm_wf ps"
  shows "set (concat (start_layers g)) = set (keys ps)" "set (concat (stop_layers g)) = set (keys ps)"
proof -
  have "build (w_iter W) (w_is_cyclic W) ps = Some (Inr g)"
    using assms(1) by (auto simp: dag_build_def split: option.splits)
  then show "set (concat (start_layers g)) = set (keys ps)" "set (concat (stop_layers g)) = set (keys ps)"
    using build_cover [OF assms(2) iter_perm] by blast+
qed

lemma reload_done:
  assumes "registry_ok good s" and "named_map new"
    and "execute_reload_config W (Inr new) mode s = (Inr summary, s')"
  shows "registry_ok good s' \<and> (\<forall>n. hm_get (m_configs s') n = hm_get new n) \<and>
     set (concat (start_layers (m_dag s'))) = set (keys (m_configs s')) \<and>
     set (concat (stop_layers (m_dag s'))) = set (keys (m_configs s')) \<and>
     m_shared_configs s' = m_configs s' \<and> m_watch_configs s' = m_configs s' \<and>
     m_pending_configs s' = new \<and> m_shared_pending_configs s' = new \<and>
     touches (affected_programs (compute (m_configs s) new)) s s' \<and>
     summary = summary_of (compute (m_configs s) new)"
proof (cases rule: reload_cases [OF assms(3)])
  case (1 e)
  then show ?thesis by simp
next
  case (2 new' dag diff sm sa pools pools')
  note c = 2
  have new: "new' = new" using c(1) by simp
  let ?t = "(set_pending new s)\<lparr>m_event_pools := pools\<rparr>"
  have st: "map fst sm = df_modified diff" "\<forall>cp \<in> set sm. good (snd cp)"
    "map fst sa = df_added diff" "\<forall>cp \<in> set sa. good (snd cp)"
    using stage_ok [OF c(5)] stage_ok [OF c(6)] by blast+
  have t: "registry_ok good ?t" "m_configs ?t = m_configs s"
    using registry_cong [OF assms(1), of ?t] by (auto simp: set_pending_def)
  have s': "s' = commit_reload W diff sm sa pools dag mode (set_pending new s)" using c(7) new by simp
  note fr = commit_reload_frame [OF s']
  have reg: "registry_ok good s'"
    using reload_configs_registry [OF t(1) st(2,4)] by (rule registry_cong) (simp_all add: fr)
  have get: "hm_get (m_configs s') n = hm_get new n" for n
    using reload_configs_get [OF assms(2), of diff ?t sm sa W] c(3) new st t(2) fr(2) by simp
  then have keys: "set (keys (m_configs s')) = set (keys new)"
    by (metis hm_get_None_iff subsetI subset_antisym)
  have "touches (affected_programs diff) ?t (reload_configs W diff sm sa ?t)"
    using st by (intro touches_reload_configs)
  then have "touches (affected_programs diff) s s'"
    using fr(1-3) by (auto simp: touches_def set_pending_def)
  moreover have "m_pending_configs s' = new" "m_shared_pending_configs s' = new"
    by (simp_all add: s' reload_pending set_pending_def)
  moreover have "hm_wf new" using assms(2) by (simp add: named_map_def)
  ultimately show ?thesis
    using reg get fr(4-6) c(2-4) new keys dag_build_cover [of new dag] by simp
qed

end

section \<open>Runtime groups\<close>

lemma refresh_frame [simp]:
  "m_programs (refresh_derived_state W s) = m_programs s" "m_configs (refresh_derived_state W s) = m_configs s"
  "m_calls (refresh_derived_state W s) = m_calls s"
  "m_shared_configs (refresh_derived_state W s) = m_configs s"
  "m_watch_configs (refresh_derived_state W s) = m_configs s"
  "m_pending_configs (refresh_derived_state W s) = m_pending_configs s"
  "m_shared_pending_configs (refresh_derived_state W s) = m_shared_pending_configs s"
  "m_is_shutting_down (refresh_derived_state W s) = m_is_shutting_down s"
  "m_dag (refresh_derived_state W s) = (case dag_build W (m_configs s) of Inr g \<Rightarrow> g | Inl _ \<Rightarrow> m_dag s)"
  by (simp_all add: refresh_derived_state_def Let_def split: sum.split)

lemma publish_frame [simp]:
  "m_programs (m_publish e s) = m_programs s" "m_configs (m_publish e s) = m_configs s"
  "m_calls (m_publish e s) = m_calls s" "m_shared_configs (m_publish e s) = m_shared_configs s"
  "m_watch_configs (m_publish e s) = m_watch_configs s" "m_pending_configs (m_publish e s) = m_pending_configs s"
  "m_shared_pending_configs (m_publish e s) = m_shared_pending_configs s" "m_dag (m_publish e s) = m_dag s"
  "m_is_shutting_down (m_publish e s) = m_is_shutting_down s"
  by (simp_all add: m_publish_def)

text \<open>The names of the active programs of a group.\<close>

definition group_names :: "'p Manager \<Rightarrow> string \<Rightarrow> string set" where
  "group_names s g = {n. \<exists>c. hm_get (m_configs s) n = Some c \<and> c_group c = g}"

lemma named_vals:
  assumes "named_map m"
  shows "c \<in> set (vals m) \<longleftrightarrow> hm_get m (c_name c) = Some c"
  using assms by (force simp: named_map_def vals_def hm_get_Some_iff)

lemma active_names:
  assumes "named_map (m_configs s)"
  shows "set (map c_name (filter (\<lambda>cfg. c_group cfg = g) (vals (m_configs s)))) = group_names s g"
proof -
  have "n \<in> c_name ` {c. hm_get (m_configs s) (c_name c) = Some c \<and> c_group c = g}"
    if "hm_get (m_configs s) n = Some c" "c_group c = g" for n c
    using that named_map_get [OF assms that(1)] by (intro rev_image_eqI [of c]) auto
  then have "c_name ` {c. hm_get (m_configs s) (c_name c) = Some c \<and> c_group c = g} = group_names s g"
    by (auto simp: group_names_def)
  then show ?thesis by (simp add: named_vals [OF assms])
qed

context program_trait
begin

lemma remove_group:
  assumes "registry_ok good s" and "execute_remove_process_group W g s = (r, s')"
  shows "registry_ok good s' \<and>
     (if group_names s g = {} then r = Inl (NotFound g) \<and> s' = s
      else if \<exists>n \<in> group_names s g. still_running W s n then r = Inr False \<and> s' = s
      else r = Inr True \<and> touches (group_names s g) s s' \<and>
           (\<forall>n \<in> group_names s g. hm_get (m_programs s') n = None \<and> hm_get (m_configs s') n = None))"
proof -
  let ?act = "map c_name (filter (\<lambda>cfg. c_group cfg = g) (vals (m_configs s)))"
  have act: "set ?act = group_names s g"
    using assms(1) by (intro active_names) (simp add: registry_ok_def)
  let ?t = "fold (unregister W) ?act s"
  have reg: "registry_ok good ?t"
    using assms(1) by (rule fold_invariant_all) (rule unregister_registry)
  have "touches (\<Union>n \<in> set ?act. {n}) s ?t" by (rule touches_fold) (rule touches_unregister)
  then have t: "touches (group_names s g) s ?t" by (simp only: act UN_singleton)
  have cfg: "hm_get (m_configs ?t) n = None" if "n \<in> group_names s g" for n
    using that act by (simp only: fold_unregister_get if_True)
  then have prog: "hm_get (m_programs ?t) n = None" if "n \<in> group_names s g" for n
    using that reg by (metis hm_get_None_iff registry_ok_def)
  have empty: "?act = [] \<longleftrightarrow> group_names s g = {}" using act by (metis set_empty)
  have run: "(\<exists>n \<in> set ?act. still_running W s n) \<longleftrightarrow> (\<exists>n \<in> group_names s g. still_running W s n)"
    by (simp only: act)
  have "registry_ok good (m_publish (ProcessGroupRemoved g) (refresh_derived_state W ?t))"
    using reg by (rule registry_cong) simp_all
  moreover have "touches (group_names s g) s (m_publish (ProcessGroupRemoved g) (refresh_derived_state W ?t))"
    using t by (rule touches_frame) simp_all
  ultimately show ?thesis
    using assms(2) empty run assms(1) cfg prog
    unfolding execute_remove_process_group_def Let_def by (auto split: if_splits)
qed

lemma add_group:
  assumes "registry_ok good s" and "named_map (m_pending_configs s)"
    and "execute_add_process_group W g s = (r, s')"
  shows "registry_ok good s' \<and>
     (if group_names s g \<noteq> {} then r = Inr False \<and> s' = s
      else if \<nexists>n c. hm_get (m_pending_configs s) n = Some c \<and> c_group c = g
           then r = Inl (NotFound g) \<and> s' = s
      else (\<exists>e. r = Inl e \<and> s' = s) \<or>
           (r = Inr True \<and>
            (\<forall>n. hm_get (m_configs s') n =
               (case hm_get (m_pending_configs s) n of
                  Some c \<Rightarrow> if c_group c = g then Some c else hm_get (m_configs s) n
                | None \<Rightarrow> hm_get (m_configs s) n))))"
proof -
  have "(\<exists>cfg \<in> set (vals (m_configs s)). c_group cfg = g) \<longleftrightarrow> group_names s g \<noteq> {}"
    using active_names [of s g] assms(1) by (force simp: registry_ok_def)
  note active = this
  let ?cs = "filter (\<lambda>cfg. c_group cfg = g) (vals (m_pending_configs s))"
  have cs: "c \<in> set ?cs \<longleftrightarrow> hm_get (m_pending_configs s) (c_name c) = Some c \<and> c_group c = g" for c
    using named_vals [OF assms(2)] by auto
  have nm: "c_name c = n" if "hm_get (m_pending_configs s) n = Some c" for n c
    using named_map_get [OF assms(2) that] .
  have empty: "?cs = [] \<longleftrightarrow> (\<nexists>n c. hm_get (m_pending_configs s) n = Some c \<and> c_group c = g)"
  proof -
    have "?cs = [] \<longleftrightarrow> (\<nexists>c. c \<in> set ?cs)" by (metis empty_iff empty_set hd_in_set)
    then show ?thesis using cs nm by blast
  qed
  have dist: "distinct (map c_name ?cs)"
  proof -
    have "map c_name (vals (m_pending_configs s)) = keys (m_pending_configs s)"
      using assms(2) by (auto simp: named_map_def vals_def keys_def)
    then have "distinct (map c_name (vals (m_pending_configs s)))"
      using assms(2) by (simp add: named_map_def hm_wf_def)
    then show ?thesis by (rule distinct_map_filter)
  qed
  show ?thesis
  proof (cases "group_names s g \<noteq> {} \<or> ?cs = []")
    case True
    then show ?thesis using assms(1,3) active empty
      unfolding execute_add_process_group_def Let_def by (auto split: if_splits)
  next
    case False
    then have ex: "execute_add_process_group W g s = (case stage W ?cs (m_event_pools s) of
         (Inl e, _) \<Rightarrow> (Inl e, s)
       | (Inr staged, pools) \<Rightarrow> (Inr True, m_publish (ProcessGroupAdded g)
            (refresh_derived_state W (fold (register W) staged (s\<lparr>m_event_pools := pools\<rparr>)))))"
      using active unfolding execute_add_process_group_def Let_def by simp
    obtain x pools where st: "stage W ?cs (m_event_pools s) = (x, pools)" by fastforce
    show ?thesis
    proof (cases x)
      case (Inl e)
      then show ?thesis using False ex st assms(1,3) empty by simp
    next
      case (Inr staged)
      let ?t = "fold (register W) staged (s\<lparr>m_event_pools := pools\<rparr>)"
      have ok: "map fst staged = ?cs" "\<forall>cp \<in> set staged. good (snd cp)"
        using stage_ok st Inr by blast+
      have fs: "fst ` set staged = set ?cs" using ok(1) by (metis set_map)
      have "registry_ok good (s\<lparr>m_event_pools := pools\<rparr>)" using assms(1) by (rule registry_cong) simp_all
      then have reg: "registry_ok good ?t"
        using ok(2) by (intro fold_invariant_all [where P = "registry_ok good"]) (auto intro: register_registry)
      have get: "hm_get (m_configs ?t) n = (case hm_get (m_pending_configs s) n of
                  Some c \<Rightarrow> if c_group c = g then Some c else hm_get (m_configs s) n
                | None \<Rightarrow> hm_get (m_configs s) n)" for n
      proof (cases "\<exists>c. hm_get (m_pending_configs s) n = Some c \<and> c_group c = g")
        case True
        then obtain c where c: "hm_get (m_pending_configs s) n = Some c" "c_group c = g" by blast
        then have "c \<in> set ?cs" using cs nm by blast
        then obtain cp where cp: "cp \<in> set staged" "fst cp = c" using fs by (metis imageE)
        have "distinct (map c_name (map fst staged))" using dist ok(1) by simp
        then have "hm_get (m_configs ?t) (c_name (fst cp)) = Some (fst cp)"
          using cp(1) by (intro fold_insert_in) simp_all
        then show ?thesis using c cp(2) nm [OF c(1)] by simp
      next
        case False
        have "n \<notin> c_name ` set ?cs" using False cs by auto
        then have "n \<notin> c_name ` fst ` set staged" using fs by simp
        then have "hm_get (m_configs ?t) n = hm_get (m_configs (s\<lparr>m_event_pools := pools\<rparr>)) n"
          by (intro fold_insert_other) simp_all
        then show ?thesis using False by (auto split: option.split)
      qed
      have s': "s' = m_publish (ProcessGroupAdded g) (refresh_derived_state W ?t)" "r = Inr True"
        using assms(3) ex st Inr by simp_all
      have "registry_ok good s'" using reg by (rule registry_cong) (simp_all add: s')
      then show ?thesis using s' get False empty by simp
    qed
  qed
qed

end

section \<open>Order of the bulk operations\<close>

text \<open>The calls a layer makes carry its number, and there is one for each selected program.\<close>

lemma fold_call_calls:
  assumes "\<And>n s. \<exists>cs. m_calls (f n s) = m_calls s @ cs \<and> (\<forall>x \<in> set cs. fst x = b \<and> fst (snd x) = n)"
  shows "\<exists>xs. m_calls (fold f ns s) = m_calls s @ xs \<and>
     (\<forall>x \<in> set xs. fst x = b \<and> fst (snd x) \<in> set ns)"
proof (induction ns arbitrary: s)
  case (Cons n ns)
  obtain cs where cs: "m_calls (f n s) = m_calls s @ cs" "\<forall>x \<in> set cs. fst x = b \<and> fst (snd x) = n"
    using assms by blast
  obtain ds where "m_calls (fold f ns (f n s)) = m_calls (f n s) @ ds"
    "\<forall>x \<in> set ds. fst x = b \<and> fst (snd x) \<in> set ns" using Cons.IH by blast
  then show ?case using cs by (intro exI [of _ "cs @ ds"]) auto
qed simp

lemma layers_calls:
  assumes "\<And>bl s. \<exists>xs. m_calls (f bl s) = m_calls s @ xs \<and>
     (\<forall>x \<in> set xs. fst x = fst bl \<and> fst (snd x) \<in> set (snd bl))"
    and "sorted (map fst bls)"
  shows "\<exists>xs. m_calls (fold f bls s) = m_calls s @ xs \<and> sorted (map fst xs) \<and>
     (\<forall>x \<in> set xs. \<exists>bl \<in> set bls. fst x = fst bl \<and> fst (snd x) \<in> set (snd bl))"
  using assms(2)
proof (induction bls arbitrary: s)
  case (Cons bl bls)
  obtain xs where xs: "m_calls (f bl s) = m_calls s @ xs"
    "\<forall>x \<in> set xs. fst x = fst bl \<and> fst (snd x) \<in> set (snd bl)" using assms(1) by blast
  obtain ys where ys: "m_calls (fold f bls (f bl s)) = m_calls (f bl s) @ ys" "sorted (map fst ys)"
    "\<forall>x \<in> set ys. \<exists>bl \<in> set bls. fst x = fst bl \<and> fst (snd x) \<in> set (snd bl)"
  proof -
    have "sorted (map fst bls)" using Cons.prems by simp
    then show ?thesis using Cons.IH [of "f bl s"] that by blast
  qed
  have "sorted (map fst xs)" using xs(2) by (auto simp: sorted_iff_nth_mono)
  moreover have "\<forall>x \<in> set xs. \<forall>y \<in> set ys. fst x \<le> fst y" using xs(2) ys(3) Cons.prems by fastforce
  ultimately have "sorted (map fst (xs @ ys))" using ys(2) by (auto simp: sorted_append)
  then show ?case using xs ys by (intro exI [of _ "xs @ ys"]) auto
qed simp

lemma start_layer_calls:
  "\<exists>xs. m_calls (start_layer W bl s) = m_calls s @ xs \<and>
     (\<forall>x \<in> set xs. fst x = fst bl \<and> fst (snd x) \<in> set (snd bl))"
  using fold_call_calls [of "\<lambda>n s. snd (start_one W (fst bl) n s)" "fst bl"
      "filter (should_autostart W s) (snd bl)" s]
  by (fastforce simp: start_layer_def start_one_def call_prog_calls)

lemma stop_layer_calls:
  "\<exists>xs. m_calls (stop_layer W g bl s) = m_calls s @ xs \<and>
     (\<forall>x \<in> set xs. fst x = fst bl \<and> fst (snd x) \<in> set (snd bl))"
  using fold_call_calls [of "\<lambda>n s. snd (stop_one W (fst bl) g n s)" "fst bl"
      "filter (should_stop W s) (snd bl)" s]
  by (fastforce simp: stop_layer_def stop_one_def Let_def call_prog_calls)

lemma enumerate_layer:
  "bl \<in> set (enumerate 1 L) \<Longrightarrow> n \<in> set (snd bl) \<Longrightarrow> layer_of L n (fst bl - 1)"
  by (auto simp: layer_of_def in_set_enumerate_eq)

lemma enumerate_pos: "bl \<in> set (enumerate 1 L) \<Longrightarrow> 1 \<le> fst bl"
  by (auto simp: in_set_enumerate_eq)

lemma sorted_enumerate: "sorted (map fst (enumerate k L))"
  by (simp add: enumerate_eq_zip)

text \<open>The calls appended by an operation.\<close>

definition new_calls :: "'p Manager \<Rightarrow> 'p Manager \<Rightarrow> (nat \<times> string \<times> Call) list" where
  "new_calls s s' = drop (length (m_calls s)) (m_calls s')"

lemma start_all_calls:
  "sorted (map fst (new_calls s (execute_start_all W s))) \<and>
   (\<forall>(b, n, c) \<in> set (new_calls s (execute_start_all W s)).
      1 \<le> b \<and> layer_of (start_layers (m_dag s)) n (b - 1))"
proof -
  obtain xs where xs: "m_calls (execute_start_all W s) = m_calls s @ xs" "sorted (map fst xs)"
    "\<forall>x \<in> set xs. \<exists>bl \<in> set (enumerate 1 (start_layers (m_dag s))). fst x = fst bl \<and> fst (snd x) \<in> set (snd bl)"
    using layers_calls [where f = "start_layer W" and s = s, OF start_layer_calls sorted_enumerate,
        of 1 "start_layers (m_dag s)"]
    unfolding execute_start_all_def by blast
  then show ?thesis using enumerate_layer enumerate_pos by (fastforce simp: new_calls_def)
qed

lemma stop_all_calls:
  "sorted (map fst (new_calls s (execute_stop_all W g s))) \<and>
   (\<forall>(b, n, c) \<in> set (new_calls s (execute_stop_all W g s)).
      1 \<le> b \<and> layer_of (stop_layers (m_dag s)) n (b - 1))"
proof -
  obtain xs where xs: "m_calls (execute_stop_all W g s) = m_calls s @ xs" "sorted (map fst xs)"
    "\<forall>x \<in> set xs. \<exists>bl \<in> set (enumerate 1 (stop_layers (m_dag s))). fst x = fst bl \<and> fst (snd x) \<in> set (snd bl)"
    using layers_calls [where f = "stop_layer W g" and s = s, OF stop_layer_calls sorted_enumerate,
        of 1 "stop_layers (m_dag s)"]
    unfolding execute_stop_all_def by blast
  then show ?thesis using enumerate_layer enumerate_pos by (fastforce simp: new_calls_def)
qed

context program_trait
begin

lemma bulk_order:
  assumes "dag_build W (m_configs s) = Inr (m_dag s)" and "hm_wf (m_configs s)"
    and "(d, n) \<in> dep_rel (m_configs s)"
  shows "(i, d, x) \<in> set (new_calls s (execute_start_all W s)) \<Longrightarrow>
         (j, n, y) \<in> set (new_calls s (execute_start_all W s)) \<Longrightarrow> i < j"
    and "(i, d, x) \<in> set (new_calls s (execute_stop_all W g s)) \<Longrightarrow>
         (j, n, y) \<in> set (new_calls s (execute_stop_all W g s)) \<Longrightarrow> j < i"
proof -
  have b: "build (w_iter W) (w_is_cyclic W) (m_configs s) = Some (Inr (m_dag s))"
    using assms(1) by (auto simp: dag_build_def split: option.splits)
  note lay = build_dep_layers [OF assms(2) iter_perm b assms(3)]
  show "i < j" if "(i, d, x) \<in> set (new_calls s (execute_start_all W s))"
    "(j, n, y) \<in> set (new_calls s (execute_start_all W s))"
    using start_all_calls [of s W] that lay(1) [of "i - 1" "j - 1"] by fastforce
  show "j < i" if "(i, d, x) \<in> set (new_calls s (execute_stop_all W g s))"
    "(j, n, y) \<in> set (new_calls s (execute_stop_all W g s))"
    using stop_all_calls [of s W g] that lay(2) [of "i - 1" "j - 1"] by fastforce
qed

lemma start_all_registry: "registry_ok good s \<Longrightarrow> registry_ok good (execute_start_all W s)"
  unfolding execute_start_all_def start_layer_def
  by (intro fold_invariant_all [where P = "registry_ok good"]) (auto intro: start_one_registry)

lemma stop_all_frame:
  assumes "n \<notin> set (concat (stop_layers (m_dag s)))"
  shows "hm_get (m_programs (execute_stop_all W g s)) n = hm_get (m_programs s) n"
proof -
  have one: "hm_get (m_programs (fold (\<lambda>n s. snd (stop_one W b g n s)) ns t)) n = hm_get (m_programs t) n"
    if "n \<notin> set ns" for ns b t
    using that by (induction ns arbitrary: t) (simp_all add: stop_one_get)
  have "hm_get (m_programs (fold (stop_layer W g) bls t)) n = hm_get (m_programs t) n"
    if "\<forall>bl \<in> set bls. n \<notin> set (snd bl)" for bls t
    using that by (induction bls arbitrary: t) (simp_all add: stop_layer_def one)
  moreover have "\<forall>bl \<in> set (enumerate 1 (stop_layers (m_dag s))). n \<notin> set (snd bl)"
  proof
    fix bl assume "bl \<in> set (enumerate 1 (stop_layers (m_dag s)))"
    then have "snd bl \<in> set (stop_layers (m_dag s))" by (metis imageI list.set_map map_snd_enumerate)
    then show "n \<notin> set (snd bl)" using assms by auto
  qed
  ultimately show ?thesis by (simp add: execute_stop_all_def)
qed

lemma shutdown_all_state:
  assumes "registry_ok good s" and "n \<in> set (keys (m_programs s))"
  shows "prog_in idle (shutdown_all W s) n"
proof -
  let ?f = "\<lambda>n s. snd (call_prog 0 CallShutdown (\<lambda>p. (Inr (), w_shutdown W p)) n s)"
  have "registry_ok good t \<Longrightarrow> n \<in> set (keys (m_programs t)) \<Longrightarrow>
      n \<in> set ns \<or> prog_in idle t n \<Longrightarrow> prog_in idle (fold ?f ns t) n" for ns t
  proof (induction ns arbitrary: t)
    case (Cons m ns)
    have reg: "registry_ok good (?f m t)"
      using Cons.prems(1) by (rule call_prog_registry) (simp add: good_shutdown)
    obtain p where p: "hm_get (m_programs t) n = Some p" using Cons.prems(2) by (rule key_hm_getE)
    then have "good p" using Cons.prems(1) by (auto simp: registry_ok_def)
    then have "n \<in> set ns \<or> prog_in idle (?f m t) n"
      using Cons.prems(3) p shutdown_idle by (auto simp: prog_in_def call_prog_get)
    then show ?case using Cons.IH [OF reg] Cons.prems(2) by simp
  qed simp
  then show ?thesis using assms by (simp add: shutdown_all_def)
qed

lemma shutdown_command:
  assumes "registry_ok good s" and "n \<in> set (keys (m_programs s))"
  shows "\<exists>s'. manager_command W (Shutdown ts) s = (RUnit (Inr ()), True, s') \<and>
     m_is_shutting_down s' \<and> prog_in idle (manager_exit W s') n"
proof -
  let ?t = "m_publish (DaemonLifecycle ''shutting_down'' ts) (s\<lparr>m_is_shutting_down := True\<rparr>)"
  have r: "registry_ok good ?t" using assms(1) by (rule registry_cong) simp_all
  have k: "set (keys (m_programs (execute_stop_all W None ?t))) = set (keys (m_programs s))"
    using stop_layers_state [OF r] by (simp add: execute_stop_all_def)
  have fl: "m_is_shutting_down (execute_stop_all W None u) = m_is_shutting_down u" for u
    unfolding execute_stop_all_def stop_layer_def stop_one_def Let_def
    by (intro fold_frame call_prog_frame)
  have "prog_in idle (manager_exit W (execute_stop_all W None ?t)) n"
    unfolding manager_exit_def using stop_all_registry [OF r] k assms(2) by (intro shutdown_all_state) simp_all
  then show ?thesis by (simp add: manager_command_def Let_def fl)
qed

end

section \<open>Daemon restart and the command invariant\<close>

lemma fold_hm_insert:
  "distinct (map fst xs) \<Longrightarrow> set (map fst xs) \<inter> set (keys m) = {} \<Longrightarrow>
     fold (\<lambda>(n, v). hm_insert n v) xs m = m @ xs"
  by (induction xs arbitrary: m) (auto simp: hm_insert_absent)

lemma zip_keys_vals: "zip (keys m) (vals m) = m"
  by (induction m) (auto simp: keys_def vals_def)

lemma length_keys [simp]: "length (keys m) = length m"
  by (simp add: keys_def)

text \<open>The registry after the swap of a daemon restart.\<close>

definition swapped :: "ProgramConfig hmap \<Rightarrow> (ProgramConfig \<times> 'p) list \<Rightarrow> EventListenerConfig hmap \<Rightarrow>
     'p Manager \<Rightarrow> 'p Manager" where
  "swapped new_map staged pools s =
     (let s = s\<lparr>m_programs := [], m_configs := [], m_event_pools := pools\<rparr>
      in s\<lparr>m_programs := fold (\<lambda>(n, p). hm_insert n p) (zip (keys new_map) (map snd staged)) (m_programs s),
           m_configs := fold (\<lambda>(n, c). hm_insert n c) (zip (keys new_map) (map fst staged)) (m_configs s)\<rparr>)"

lemma swapped_maps:
  assumes "hm_wf new" and "map fst staged = vals new"
  shows "m_programs (swapped new staged pools s) = zip (keys new) (map snd staged)"
    and "m_configs (swapped new staged pools s) = new"
proof -
  have len: "length staged = length new" using assms(2) by (metis length_map vals_def)
  have d: "distinct (keys new)" using assms(1) by (simp add: hm_wf_def)
  show "m_programs (swapped new staged pools s) = zip (keys new) (map snd staged)"
    using d len by (simp add: swapped_def fold_hm_insert)
  have "fold (\<lambda>(n, c). hm_insert n c) (zip (keys new) (vals new)) [] = zip (keys new) (vals new)"
    using d by (subst fold_hm_insert) (simp_all add: vals_def)
  then show "m_configs (swapped new staged pools s) = new"
    using assms(2) by (simp add: swapped_def zip_keys_vals)
qed

lemma sync_frame [simp]:
  "m_programs (sync_logging_config md s) = m_programs s" "m_configs (sync_logging_config md s) = m_configs s"
  "m_pending_configs (sync_logging_config md s) = m_pending_configs s"
  by (simp_all add: sync_logging_config_def)

lemma restart_daemon_eq:
  "execute_restart_daemon W resolved md ts s =
     (case resolved of Inl e \<Rightarrow> (Inl e, s) | Inr new_map \<Rightarrow>
       (case dag_build W new_map of Inl e \<Rightarrow> (Inl e, s) | Inr _ \<Rightarrow>
         (case stage W (vals new_map) [] of
            (Inl e, _) \<Rightarrow> (Inl e, set_pending new_map s)
          | (Inr staged, pools) \<Rightarrow>
              (Inr (), m_publish (DaemonLifecycle ''restarted'' ts)
                 (execute_start_all W (refresh_derived_state W (sync_logging_config md
                    (swapped new_map staged pools
                      (shutdown_all W (execute_stop_all W None (set_pending new_map s)))))))))))"
  unfolding execute_restart_daemon_def swapped_def Let_def by (rule refl)

context program_trait
begin

lemma swapped_registry:
  assumes "named_map new" and "stage W (vals new) pl = (Inr staged, pools)"
  shows "registry_ok good (swapped new staged pools s)"
proof -
  have st: "map fst staged = vals new" "\<forall>cp \<in> set staged. good (snd cp)" using stage_ok [OF assms(2)] by auto
  have wf: "hm_wf new" using assms(1) by (simp add: named_map_def)
  have len: "length staged = length new" using st(1) by (metis length_map vals_def)
  note m = swapped_maps [OF wf st(1), of pools s]
  have k: "keys (zip (keys new) (map snd staged)) = keys new" using len by (simp add: keys_def)
  have "good p" if "hm_get (zip (keys new) (map snd staged)) n = Some p" for n p
  proof -
    have "(n, p) \<in> set (zip (keys new) (map snd staged))"
      using that by (simp add: hm_get_def map_of_SomeD)
    then have "p \<in> set (map snd staged)" by (rule set_zip_rightD)
    then show ?thesis using st(2) by auto
  qed
  then show ?thesis using wf assms(1) k by (simp add: registry_ok_def m hm_wf_def)
qed

lemma restart_daemon_registry:
  assumes "registry_ok good s" and "\<And>new. resolved = Inr new \<Longrightarrow> named_map new"
  shows "registry_ok good (snd (execute_restart_daemon W resolved md ts s))"
proof (cases resolved)
  case (Inl e)
  then show ?thesis using assms(1) by (simp add: execute_restart_daemon_def)
next
  case (Inr new)
  have pend: "registry_ok good (set_pending new s)"
    using assms(1) by (rule registry_cong) (simp_all add: set_pending_def)
  show ?thesis
  proof (cases "dag_build W new")
    case (Inl e)
    then show ?thesis using assms(1) Inr by (simp add: execute_restart_daemon_def)
  next
    case dag: (Inr dag)
    obtain x pools where st: "stage W (vals new) [] = (x, pools)" by fastforce
    show ?thesis
    proof (cases x)
      case (Inl e)
      then show ?thesis using pend \<open>resolved = Inr new\<close> dag st by (simp add: restart_daemon_eq)
    next
      case staged: (Inr staged)
      have "registry_ok good (swapped new staged pools u)" for u
        using swapped_registry [OF assms(2) [OF Inr]] st staged by simp
      then have "registry_ok good (refresh_derived_state W (sync_logging_config md (swapped new staged pools u)))" for u
        by (rule registry_cong) simp_all
      then have "registry_ok good (execute_start_all W
          (refresh_derived_state W (sync_logging_config md (swapped new staged pools u))))" for u
        by (rule start_all_registry)
      then have "registry_ok good (m_publish ev (execute_start_all W
          (refresh_derived_state W (sync_logging_config md (swapped new staged pools u)))))" for u ev
        by (rule registry_cong) simp_all
      then show ?thesis using Inr dag st staged by (simp add: restart_daemon_eq)
    qed
  qed
qed

lemma call_each_registry:
  assumes "registry_ok good s"
  shows "registry_ok good (snd (call_each (start_one W b) ns s))"
    and "registry_ok good (snd (call_each (stop_one W b g) ns s))"
    and "registry_ok good (snd (call_each (restart_one W g) ns s))"
    and "registry_ok good (snd (call_each (call_prog 0 c (w_signal W sg)) ns s))"
proof -
  note ce = call_each_invariant [where P = "registry_ok good", OF assms]
  show "registry_ok good (snd (call_each (start_one W b) ns s))" by (rule ce) (rule start_one_registry)
  show "registry_ok good (snd (call_each (stop_one W b g) ns s))" by (rule ce) (rule stop_one_registry)
  show "registry_ok good (snd (call_each (restart_one W g) ns s))"
    by (rule ce) (simp add: restart_one_def Let_def call_prog_registry good_restart)
  show "registry_ok good (snd (call_each (call_prog 0 c (w_signal W sg)) ns s))"
    by (rule ce) (simp add: call_prog_registry good_signal)
qed

lemma program_commands_registry:
  assumes "registry_ok good s"
  shows "registry_ok good (snd (execute_start_program W n s))"
    and "registry_ok good (snd (execute_stop_program W n g s))"
    and "registry_ok good (snd (execute_restart_program W n g s))"
    and "registry_ok good (snd (execute_signal_program W n sg s))"
    and "registry_ok good (snd (execute_start_group W n s))"
    and "registry_ok good (snd (execute_stop_group W n g s))"
proof -
  note ce = call_each_registry [OF assms]
  show "registry_ok good (snd (execute_start_program W n s))"
    "registry_ok good (snd (execute_stop_program W n g s))"
    "registry_ok good (snd (execute_restart_program W n g s))"
    "registry_ok good (snd (execute_signal_program W n sg s))"
    using assms ce by (simp_all add: execute_start_program_def execute_stop_program_def
        execute_restart_program_def execute_signal_program_def Let_def)
  show "registry_ok good (snd (execute_start_group W n s))"
    using assms ce(1) [of 0 "sort_key (config_priority s) (group_targets s n)"]
    by (auto simp: execute_start_group_def Let_def split: prod.split sum.split)
  show "registry_ok good (snd (execute_stop_group W n g s))"
    using assms ce(2) [of 0 g "rev (sort_key (config_priority s) (group_targets s n))"]
    by (auto simp: execute_stop_group_def Let_def split: prod.split sum.split)
qed

lemma restart_group_registry:
  assumes "registry_ok good s" shows "registry_ok good (snd (execute_restart_group W n g s))"
proof -
  obtain r t where r: "execute_stop_group W n g s = (r, t)" by fastforce
  have t: "registry_ok good t" using program_commands_registry(6) [OF assms, of n g] r by simp
  then show ?thesis using program_commands_registry(5) [OF t, of n] r
    by (auto simp: execute_restart_group_def split: sum.split prod.split)
qed

lemma reload_registry:
  assumes "registry_ok good s" and "\<And>new. resolved = Inr new \<Longrightarrow> named_map new"
  shows "registry_ok good (snd (execute_reload_config W resolved mode s))"
proof -
  obtain r s' where r: "execute_reload_config W resolved mode s = (r, s')" by fastforce
  show ?thesis
  proof (cases r)
    case (Inl e)
    have "s' = s \<or> (\<exists>new. s' = set_pending new s)"
      by (cases rule: reload_cases [OF r]) (use Inl in auto)
    then have "m_programs s' = m_programs s" "m_configs s' = m_configs s" by (auto simp: set_pending_def)
    then show ?thesis using r registry_cong [OF assms(1)] by simp
  next
    case (Inr summary)
    then obtain new where "resolved = Inr new"
      using r by (cases resolved) (auto simp: execute_reload_config_def)
    then show ?thesis using reload_done [OF assms(1) assms(2), of new mode summary s'] r Inr by simp
  qed
qed

lemma command_registry:
  assumes "registry_ok good s" and "named_map (m_pending_configs s)"
    and "\<And>new md. cmd = ReloadConfig (Inr new) md \<Longrightarrow> named_map new"
    and "\<And>new md ts. cmd = RestartDaemon (Inr new) md ts \<Longrightarrow> named_map new"
  shows "registry_ok good (snd (snd (manager_command W cmd s)))"
proof (cases cmd)
  case (AddProcessGroup g)
  then show ?thesis using add_group [OF assms(1,2), of g] assms(1)
    by (cases "execute_add_process_group W g s") (simp add: manager_command_def Let_def)
next
  case (RemoveProcessGroup g)
  then show ?thesis using remove_group [OF assms(1), of g] assms(1)
    by (cases "execute_remove_process_group W g s") (simp add: manager_command_def Let_def)
next
  case (Shutdown ts)
  have "registry_ok good (m_publish (DaemonLifecycle ''shutting_down'' ts) (s\<lparr>m_is_shutting_down := True\<rparr>))"
    using assms(1) by (rule registry_cong) simp_all
  then show ?thesis using Shutdown stop_all_registry by (simp add: manager_command_def Let_def)
next
  case (ReloadConfig resolved md)
  then show ?thesis using reload_registry [OF assms(1), of resolved md] assms
    by (simp add: manager_command_def Let_def split_beta)
next
  case (RestartDaemon resolved md ts)
  then show ?thesis using restart_daemon_registry [OF assms(1), of resolved md ts] assms
    by (simp add: manager_command_def Let_def split_beta)
qed (use assms(1) in \<open>simp_all add: manager_command_def Let_def split_beta program_commands_registry
      restart_group_registry start_all_registry stop_all_registry\<close>)

end

end
