(* ===== verification/Manager_Run.thy ===== *)
theory Manager_Run
  imports Manager_Props
begin

text \<open>
  The manager in operation: what holds in every state that a manager can reach from its
  construction, through commands, cron jobs and programs that change on their own. The locale
  \<open>managed_programs\<close> extends the contract of the \<open>Program\<close> trait to a set of worlds and to the
  programs' own steps.
\<close>

section \<open>The configuration copies\<close>

text \<open>The configuration and its copies; commands on programs leave all of them alone.\<close>

definition config_frame where
  "config_frame s = (m_configs s, m_shared_configs s, m_pending_configs s, m_shared_pending_configs s,
     m_watch_configs s)"

definition manager_ok :: "('p \<Rightarrow> bool) \<Rightarrow> 'p Manager \<Rightarrow> bool" where
  "manager_ok good s \<longleftrightarrow> registry_ok good s \<and> shared_ok s \<and> named_map (m_pending_configs s)"

definition copies_ok :: "'p Manager \<Rightarrow> bool" where
  "copies_ok s \<longleftrightarrow> shared_ok s \<and> named_map (m_pending_configs s)"

lemma copies_frame: "copies_ok s \<Longrightarrow> config_frame s' = config_frame s \<Longrightarrow> copies_ok s'"
  by (simp add: copies_ok_def shared_ok_def config_frame_def)

lemma frame_call_prog [simp]: "config_frame (snd (call_prog b c f n s)) = config_frame s"
  by (simp add: config_frame_def)

lemma frame_publish [simp]: "config_frame (m_publish e s) = config_frame s"
  by (simp add: config_frame_def)

lemma frame_update [simp]:
  "config_frame (s\<lparr>m_programs := ps\<rparr>) = config_frame s"
  "config_frame (s\<lparr>m_cron_table := t\<rparr>) = config_frame s"
  "config_frame (s\<lparr>m_is_shutting_down := b\<rparr>) = config_frame s"
  "config_frame (s\<lparr>m_event_pools := ep\<rparr>) = config_frame s"
  by (simp_all add: config_frame_def)

lemma frame_call_each:
  "(\<And>n s. config_frame (snd (f n s)) = config_frame s) \<Longrightarrow>
     config_frame (snd (call_each f ns s)) = config_frame s"
  by (rule call_each_invariant [where P = "\<lambda>t. config_frame t = config_frame s"]) simp_all

lemma frame_each [simp]:
  "config_frame (snd (call_each (start_one W b) ns s)) = config_frame s"
  "config_frame (snd (call_each (stop_one W b g) ns s)) = config_frame s"
  "config_frame (snd (call_each (restart_one W g) ns s)) = config_frame s"
  "config_frame (snd (call_each (call_prog b c f) ns s)) = config_frame s"
  by (rule frame_call_each, simp add: start_one_def stop_one_def restart_one_def Let_def)+

lemma frame_program_commands [simp]:
  "config_frame (snd (execute_start_program W n s)) = config_frame s"
  "config_frame (snd (execute_stop_program W n g s)) = config_frame s"
  "config_frame (snd (execute_restart_program W n g s)) = config_frame s"
  "config_frame (snd (execute_signal_program W n sg s)) = config_frame s"
  by (simp_all add: execute_start_program_def execute_stop_program_def execute_restart_program_def
      execute_signal_program_def Let_def)

lemma frame_group_commands [simp]:
  "config_frame (snd (execute_start_group W n s)) = config_frame s"
  "config_frame (snd (execute_stop_group W n g s)) = config_frame s"
  using frame_each(1) [of W 0 "sort_key (config_priority s) (group_targets s n)" s]
    frame_each(2) [of W 0 g "rev (sort_key (config_priority s) (group_targets s n))" s]
  by (auto simp: execute_start_group_def execute_stop_group_def Let_def simp del: frame_each
      split: prod.split sum.split)

lemma frame_restart_group [simp]: "config_frame (snd (execute_restart_group W n g s)) = config_frame s"
  using frame_group_commands(2) [of W n g s]
    frame_group_commands(1) [of W n "snd (execute_stop_group W n g s)"]
  by (auto simp: execute_restart_group_def simp del: frame_group_commands split: prod.split sum.split)

lemma frame_bulk [simp]:
  "config_frame (execute_start_all W s) = config_frame s"
  "config_frame (execute_stop_all W g s) = config_frame s"
  "config_frame (shutdown_all W s) = config_frame s"
  unfolding execute_start_all_def start_layer_def start_one_def execute_stop_all_def stop_layer_def
    stop_one_def Let_def shutdown_all_def
  by (intro fold_frame frame_call_prog)+

lemma frame_cron [simp]: "config_frame (handle_due_cron_jobs W s) = config_frame s"
proof -
  have "config_frame (run_cron_action W act t) = config_frame t" for act t
    by (cases act) (simp_all add: run_cron_action_def split: option.split)
  then have "config_frame (fold (run_cron_action W) acts t) = config_frame t" for acts t
    by (rule fold_frame)
  then show ?thesis by (simp add: handle_due_cron_jobs_def split_beta)
qed

section \<open>Every operation keeps the copies\<close>

lemma copies_of_frame:
  "m_shared_configs s = m_configs s \<Longrightarrow> m_watch_configs s = m_configs s \<Longrightarrow>
     m_shared_pending_configs s = m_pending_configs s \<Longrightarrow> named_map (m_pending_configs s) \<Longrightarrow> copies_ok s"
  by (simp add: copies_ok_def shared_ok_def)

lemma copies_set_pending: "copies_ok s \<Longrightarrow> named_map new \<Longrightarrow> copies_ok (set_pending new s)"
  by (simp add: copies_ok_def shared_ok_def set_pending_def)

lemma copies_refresh:
  "m_shared_pending_configs s = m_pending_configs s \<Longrightarrow> named_map (m_pending_configs s) \<Longrightarrow>
     copies_ok (m_publish e (refresh_derived_state W s))"
  by (rule copies_of_frame) simp_all

lemma reload_copies:
  assumes "copies_ok s" and "\<And>new. resolved = Inr new \<Longrightarrow> named_map new"
  shows "copies_ok (snd (execute_reload_config W resolved logging s))"
proof -
  obtain r s' where r: "execute_reload_config W resolved logging s = (r, s')" by fastforce
  from r have "copies_ok s'"
  proof (cases rule: reload_cases)
    case failed
    then show ?thesis using assms copies_set_pending by blast
  next
    case (committed new dag diff sm sa pools pools')
    note f = commit_reload_frame [OF committed(7)]
    have "m_pending_configs s' = new" "m_shared_pending_configs s' = new"
      by (simp_all add: committed(7) reload_pending set_pending_def)
    then show ?thesis using f(5,6) assms(2) [OF committed(1)] by (intro copies_of_frame) simp_all
  qed
  then show ?thesis using r by simp
qed

lemma restart_daemon_copies:
  assumes "copies_ok s" and "\<And>new. resolved = Inr new \<Longrightarrow> named_map new"
  shows "copies_ok (snd (execute_restart_daemon W resolved logging ts s))"
proof (cases resolved)
  case (Inl e)
  then show ?thesis using assms(1) by (simp add: execute_restart_daemon_def)
next
  case (Inr new)
  note named = assms(2) [OF Inr]
  have "copies_ok (m_publish ev (execute_start_all W (refresh_derived_state W (sync_logging_config logging
      (swapped new staged pools (shutdown_all W (execute_stop_all W None (set_pending new s))))))))"
    for ev staged pools
  proof -
    let ?u = "shutdown_all W (execute_stop_all W None (set_pending new s))"
    have "config_frame ?u = config_frame (set_pending new s)" by simp
    then have p: "m_pending_configs ?u = new" "m_shared_pending_configs ?u = new"
      by (simp_all add: config_frame_def set_pending_def)
    let ?t = "sync_logging_config logging (swapped new staged pools ?u)"
    have "m_pending_configs ?t = new" "m_shared_pending_configs ?t = new"
      using p by (simp_all add: sync_logging_config_def swapped_def Let_def)
    then have "copies_ok (refresh_derived_state W ?t)" using named by (intro copies_of_frame) simp_all
    then show ?thesis by (rule copies_frame) simp
  qed
  then show ?thesis using Inr assms(1) copies_set_pending [OF assms(1) named]
    by (simp add: restart_daemon_eq split: sum.split prod.split)
qed

lemma add_group_copies:
  assumes "copies_ok s" shows "copies_ok (snd (execute_add_process_group W g s))"
proof -
  have "copies_ok (m_publish e (refresh_derived_state W (fold (register W) staged (s\<lparr>m_event_pools := pools\<rparr>))))"
    for e staged pools
    using assms fold_frame [where g = m_pending_configs and f = "register W" and xs = staged]
      fold_frame [where g = m_shared_pending_configs and f = "register W" and xs = staged]
    by (intro copies_refresh) (simp_all add: copies_ok_def shared_ok_def)
  then show ?thesis using assms
    by (simp add: execute_add_process_group_def Let_def split: sum.split prod.split)
qed

lemma remove_group_copies:
  assumes "copies_ok s" shows "copies_ok (snd (execute_remove_process_group W g s))"
proof -
  have "copies_ok (m_publish e (refresh_derived_state W (fold (unregister W) ns s)))" for e ns
    using assms fold_frame [where g = m_pending_configs and f = "unregister W" and xs = ns]
      fold_frame [where g = m_shared_pending_configs and f = "unregister W" and xs = ns]
    by (intro copies_refresh) (simp_all add: copies_ok_def shared_ok_def)
  then show ?thesis using assms by (simp add: execute_remove_process_group_def Let_def)
qed

lemma command_copies:
  assumes "copies_ok s" and "resolved_ok cmd"
  shows "copies_ok (snd (snd (manager_command W cmd s)))"
proof (cases cmd)
  case (AddProcessGroup g)
  then show ?thesis using assms(1) add_group_copies [OF assms(1)]
    by (simp add: manager_command_def Let_def split_beta)
next
  case (RemoveProcessGroup g)
  then show ?thesis using assms(1) remove_group_copies [OF assms(1)]
    by (simp add: manager_command_def Let_def split_beta)
next
  case (ReloadConfig resolved lg)
  then have "\<And>new. resolved = Inr new \<Longrightarrow> named_map new" using assms(2) by (simp add: resolved_ok_def)
  then show ?thesis using assms(1) reload_copies [OF assms(1)] ReloadConfig
    by (simp add: manager_command_def Let_def split_beta)
next
  case (RestartDaemon resolved lg ts)
  then have "\<And>new. resolved = Inr new \<Longrightarrow> named_map new" using assms(2) by (simp add: resolved_ok_def)
  then show ?thesis using assms(1) restart_daemon_copies [OF assms(1)] RestartDaemon
    by (simp add: manager_command_def Let_def split_beta)
qed (use assms(1) in \<open>simp_all add: manager_command_def Let_def split_beta copies_frame [OF assms(1)]\<close>)

section \<open>Reachable managers\<close>

locale managed_programs =
  fixes Ws :: "'p World set" and evolve :: "'p \<Rightarrow> 'p \<Rightarrow> bool" and good :: "'p \<Rightarrow> bool" and idle :: "'p \<Rightarrow> bool"
  assumes worlds: "W \<in> Ws \<Longrightarrow> program_trait W good idle"
    and evolve_good: "evolve p p' \<Longrightarrow> good p \<Longrightarrow> good p'"
begin

lemma build_ok:
  assumes "W \<in> Ws" and "named_map m" and "manager_build W (Inr m) logging = Inr s"
  shows "manager_ok good s"
proof -
  obtain dag staged pools where st: "stage W (vals m) [] = (Inr staged, pools)"
    and s: "m_programs s = m_programs (swapped m staged pools s)" "m_configs s = m" "shared_ok s"
      "m_pending_configs s = m"
    using assms(3) by (auto simp: manager_build_def swapped_def shared_ok_def Let_def
        split: sum.splits prod.splits)
  have "registry_ok good (swapped m staged pools s)"
    using program_trait.swapped_registry [OF worlds [OF assms(1)] assms(2) st] .
  moreover have "m_configs (swapped m staged pools s) = m"
    using program_trait.stage_ok [OF worlds [OF assms(1)] st] assms(2)
    by (intro swapped_maps) (auto simp: named_map_def)
  ultimately have "registry_ok good s" using s(2)
    by (intro registry_cong [OF _ s(1)]) simp_all
  then show ?thesis using s assms(2) by (simp add: manager_ok_def)
qed

lemma command_ok:
  assumes "manager_ok good s" and "W \<in> Ws" and "resolved_ok cmd"
  shows "manager_ok good (snd (snd (manager_command W cmd s)))"
proof -
  have "registry_ok good (snd (snd (manager_command W cmd s)))"
    by (rule program_trait.command_registry [OF worlds [OF assms(2)]])
      (use assms(1,3) in \<open>simp_all add: manager_ok_def resolved_ok_def\<close>)
  moreover have "copies_ok (snd (snd (manager_command W cmd s)))"
    using assms by (intro command_copies) (simp_all add: manager_ok_def copies_ok_def)
  ultimately show ?thesis by (simp add: manager_ok_def copies_ok_def)
qed

lemma cron_ok:
  assumes "manager_ok good s" and "W \<in> Ws" shows "manager_ok good (handle_due_cron_jobs W s)"
proof -
  note cmds = program_trait.program_commands_registry [OF worlds [OF assms(2)]]
  have pub: "registry_ok good (m_publish e t)" if "registry_ok good t" for e t
    using that by (rule registry_cong) simp_all
  have "registry_ok good (run_cron_action W act t)" if "registry_ok good t" for act t
    using that cmds pub by (cases act) (simp_all add: run_cron_action_def split: option.split)
  then have "registry_ok good (fold (run_cron_action W) acts t)" if "registry_ok good t" for acts t
    using that by (intro fold_invariant_all [where P = "registry_ok good"])
  moreover have "registry_ok good (s\<lparr>m_cron_table := t\<rparr>)" for t
    by (rule registry_cong [of good s]) (use assms(1) in \<open>simp_all add: manager_ok_def\<close>)
  ultimately have "registry_ok good (handle_due_cron_jobs W s)"
    by (simp add: handle_due_cron_jobs_def split_beta)
  moreover have "copies_ok (handle_due_cron_jobs W s)"
    by (rule copies_frame [OF _ frame_cron]) (use assms(1) in \<open>simp add: manager_ok_def copies_ok_def\<close>)
  ultimately show ?thesis by (simp add: manager_ok_def copies_ok_def)
qed

lemma evolve_ok:
  assumes "manager_ok good s" and "hm_get (m_programs s) n = Some p" and "evolve p p'"
  shows "manager_ok good (s\<lparr>m_programs := hm_insert n p' (m_programs s)\<rparr>)"
proof -
  have "good p'" using assms evolve_good by (auto simp: manager_ok_def registry_ok_def)
  moreover have "n \<in> set (keys (m_programs s))" using assms(2) by (rule hm_get_Some_key)
  ultimately show ?thesis using assms(1)
    by (auto simp: manager_ok_def registry_ok_def shared_ok_def insert_absorb)
qed

theorem reachable_ok: "manager_reachable Ws evolve s \<Longrightarrow> manager_ok good s"
proof (induction rule: manager_reachable.induct)
  case (manager_served s W cmd reply final s')
  then show ?case using command_ok [of s W cmd] by simp
qed (auto intro: build_ok cron_ok evolve_ok)

end

end
