(* ===== verification/Actor_Props.thy ===== *)
theory Actor_Props
  imports Actor_Safety
begin

text \<open>
  The properties of the program actor: consistency of its state, process accounting, the
  published history, the effect of a stop, of a crash loop, of an exit and of a shutdown, the
  waiting times of its callers, and one defect of the start command.
\<close>

section \<open>When a launch succeeds\<close>

definition spawn_succeeds :: "Env \<Rightarrow> ProgramConfig \<Rightarrow> nat \<Rightarrow> bool" where
  "spawn_succeeds env c pid \<longleftrightarrow>
     (c_pre_start c \<noteq> None \<longrightarrow> c_pre_start_ignore_failure c \<or>
        run_hook (env_pre_start env) (c_hook_timeout_secs c) = Inr ()) \<and>
     \<not> isl (env_transport env) \<and> \<not> isl (env_stdio env) \<and> \<not> isl (env_configure env) \<and>
     (\<exists>b. env_spawn env = Inr (Some pid, b)) \<and> \<not> isl (env_streams env) \<and> \<not> isl (env_attach env)"

lemma spawn_succeeds_spawns:
  assumes "spawn_succeeds env (a_config a) pid" and "\<not> a_is_shutting_down a"
    and "a_child a = None \<or> env_prev_exited env"
  obtains b tr where "spawn_child env a = (Inr (), register_child env pid b (spawn_base a tr))"
proof -
  obtain tr where sp: "spawn_child env a = spawn_phases env (spawn_base a tr)"
    using spawn_child_phases [OF assms(2,3)] by blast
  have ph: "\<exists>xs. pre_start_phase env (spawn_base a tr) = (Inr (), spawn_base a (tr @ xs))"
  proof (cases rule: pre_start_phase_cases [of env "spawn_base a tr"])
    case (failed err xs)
    then show ?thesis using assms(1) by (auto simp: spawn_succeeds_def)
  next
    case (passed xs)
    then show ?thesis by (auto simp: spawn_base_upd)
  qed
  then obtain xs where ph: "pre_start_phase env (spawn_base a tr) = (Inr (), spawn_base a (tr @ xs))"
    by blast
  obtain b where b: "env_spawn env = Inr (Some pid, b)" using assms(1) by (auto simp: spawn_succeeds_def)
  have "launch env (spawn_base a (tr @ xs)) = (Inr (pid, b), spawn_base a (tr @ xs @ [Spawn pid]))"
    using assms(1) b by (cases rule: launch_cases [of env "spawn_base a (tr @ xs)"])
      (auto simp: spawn_succeeds_def launch_def Let_def emit_def spawn_base_upd split: sum.splits)
  then have "spawn_child env a = (Inr (), register_child env pid b (spawn_base a (tr @ xs @ [Spawn pid])))"
    using sp ph by (simp add: spawn_phases_def)
  then show ?thesis using that by blast
qed

section \<open>A concrete program and a cooperative system\<close>

definition demo_config :: ProgramConfig where
  "demo_config = new_config Term ''web'' ''/bin/web''"

definition demo_hook :: HookEnv where
  "demo_hook = \<lparr>hk_configure = Inr (), hk_status = Some (0, Inr (ExitedCode 0))\<rparr>"

definition demo_env :: "nat \<Rightarrow> instant \<Rightarrow> Env" where
  "demo_env pid now =
     \<lparr>env_now = now, env_started = now, env_prev_exited = False, env_pre_start = demo_hook,
      env_transport = Inr (), env_stdio = Inr (), env_configure = Inr (),
      env_spawn = Inr (Some pid, True), env_streams = Inr (), env_attach = Inr (),
      env_pre_stop = demo_hook, env_wait = Some (0, Inr (ExitedCode 0)), env_kill_wait = None,
      env_drain_elapsed = 0, env_drop_exited = True, env_signal = Inr (), env_metrics = Inr 0,
      env_metrics_active = True, env_tracker_enabled = True\<rparr>"

lemmas demo_defs = demo_config_def demo_hook_def demo_env_def new_config_def new_stopped_with_group_def

definition demo_started :: ProgramActor where
  "demo_started = snd (command_branch (demo_env 42 0) CmdStart (actor_new demo_config))"

lemma demo_spawn_succeeds: "spawn_succeeds (demo_env pid now) demo_config pid"
  by (auto simp: spawn_succeeds_def demo_defs)

lemma demo_new_frame [simp]:
  "a_config (actor_new c) = c" "a_child (actor_new c) = None" "\<not> a_is_shutting_down (actor_new c)"
  "\<not> a_done (actor_new c)" "\<not> a_cancelled (actor_new c)" "a_spawn_seq (actor_new c) = 0"
  by (simp_all add: actor_new_def)

lemma demo_started_step:
  "run_step (demo_env 42 0) (InCommand CmdStart) (actor_new demo_config) = Some demo_started"
  by (simp add: run_step_def demo_started_def)

lemma demo_started_reachable: "reachable allowed demo_config demo_started" if "allowed (InCommand CmdStart)"
  using that by (intro reachable_step [OF reachable_new _ _ demo_started_step]) (simp_all add: pid_fresh_def)

lemma demo_start_secs: "c_start_secs demo_config = 1000000000"
  by (simp add: demo_defs from_secs_def)

lemma demo_started_frame [simp]:
  "a_child demo_started = Some \<lparr>ch_pid = 42, ch_marked_running = False\<rparr>"
  "a_config demo_started = demo_config" "a_state demo_started = Starting"
  "a_start_deadline demo_started = Some 1000000000"
  "\<not> a_done demo_started" "\<not> a_cancelled demo_started" "\<not> a_is_shutting_down demo_started"
  "\<not> a_manual_stop demo_started"
  "a_backoff_deadline demo_started = None" "a_retry_count demo_started = 0"
  "s_pid (a_status demo_started) = Some 42"
proof -
  let ?b = "(actor_new demo_config)\<lparr>a_manual_stop := False, a_retry_count := 0, a_backoff_deadline := None\<rparr>"
  obtain b tr where sp: "spawn_child (demo_env 42 0) ?b =
      (Inr (), register_child (demo_env 42 0) 42 b (spawn_base ?b tr))"
    using spawn_succeeds_spawns [of "demo_env 42 0" ?b 42] demo_spawn_succeeds by auto
  have "env_now (demo_env 42 0) = 0" by (simp add: demo_env_def)
  then have eq: "demo_started = (register_child (demo_env 42 0) 42 b (spawn_base ?b tr))
      \<lparr>a_start_deadline := Some 1000000000\<rparr>"
    using sp demo_start_secs
    by (simp add: demo_started_def command_branch_set_deadline handle_command_def set_deadline_def)
  show "a_child demo_started = Some \<lparr>ch_pid = 42, ch_marked_running = False\<rparr>"
    "a_config demo_started = demo_config" "a_state demo_started = Starting"
    "a_start_deadline demo_started = Some 1000000000"
    "\<not> a_done demo_started" "\<not> a_cancelled demo_started" "\<not> a_is_shutting_down demo_started"
    "\<not> a_manual_stop demo_started"
    "a_backoff_deadline demo_started = None" "a_retry_count demo_started = 0"
    "s_pid (a_status demo_started) = Some 42"
    by (simp_all add: eq demo_start_secs)
qed

section \<open>Consistency\<close>



text \<open>
  C2: No process is lost: between two iterations, the processes the actor has spawned and
  neither killed nor reaped are exactly its current child.
\<close>

theorem actor_no_orphan:
  assumes "reachable allowed c a"
  shows "live (a_trace a) = (case a_child a of None \<Rightarrow> {} | Some ch \<Rightarrow> {ch_pid ch})"
  using reachable_live_inv [OF assms] by (simp add: live_inv_def child_pids_def)

theorem actor_no_orphan_witness: "live (a_trace demo_started) = {42}"
  using actor_no_orphan [OF demo_started_reachable [of "\<lambda>_. True"]] by simp

text \<open>
  C7: As long as waiting for the child does not fail, at no point of its history does an actor
  have two live processes: the old one is reaped or killed before the new one is spawned.
\<close>

theorem actor_single_process:
  assumes "reachable (\<lambda>inp. \<nexists>e. inp = InChildExit (Inl e)) c a" and "n \<le> length (a_trace a)"
  shows "card (live (take n (a_trace a))) \<le> 1"
  using reachable_one_inv [OF assms(1)] assms(2) by (simp add: one_inv_def at_most_one_live_def)

theorem actor_single_process_witness:
  "card (live (take (length (a_trace demo_started)) (a_trace demo_started))) \<le> 1"
  by (rule actor_single_process [OF demo_started_reachable]) simp_all

text \<open>
  C6: The published state changes form an unbroken chain from the initial stopped state to the
  current state: an observer that follows them knows the state of the program. Every event
  carries the name of the program.
\<close>

theorem actor_events_chain:
  assumes "reachable allowed c a"
  shows "observed_state (a_trace a) = Some (a_state a) \<and>
         (\<forall>ev. Publish ev \<in> set (a_trace a) \<longrightarrow> event_program_name ev = Some (c_name c))"
proof -
  have "observed_inv a" using observed.reach [OF assms] actor_new_invs by blast
  moreover have "named_inv a" using named.reach [OF assms] actor_new_invs by blast
  moreover have "a_config a = c"
    using extends.reach [OF assms, of c "[]"] by (simp add: extends_inv_def)
  ultimately show ?thesis by (auto simp: observed_inv_def named_inv_def)
qed

theorem actor_events_chain_witness: "observed_state (a_trace demo_started) = Some Starting"
  using actor_events_chain [OF demo_started_reachable [of "\<lambda>_. True"]] by simp

section \<open>Stopping is final\<close>

definition is_start_input :: "ActorInput \<Rightarrow> bool" where
  "is_start_input inp \<longleftrightarrow> inp = InCommand CmdStart \<or> (\<exists>g. inp = InCommand (CmdRestart g))"

definition no_spawn :: "Effect list \<Rightarrow> bool" where
  "no_spawn tr \<longleftrightarrow> (\<forall>p. Spawn p \<notin> set tr)"

lemma no_spawn_simps [simp]:
  "no_spawn []" "no_spawn (xs @ ys) = (no_spawn xs \<and> no_spawn ys)"
  "no_spawn (e # xs) = ((\<forall>p. e \<noteq> Spawn p) \<and> no_spawn xs)"
  by (auto simp: no_spawn_def)

lemma stop_idle_trace:
  "a_child a = None \<Longrightarrow> \<exists>ys. a_trace (stop_current_child env g a) = a_trace a @ ys \<and> no_spawn ys"
  by (simp add: stop_current_child_def Let_def update_status_trace)

lemma stopped_step:
  assumes "state_inv a" and "a_manual_stop a" and "\<not> is_start_input inp"
    and "run_step env inp a = Some a'"
  shows "a_manual_stop a' \<and> (\<exists>ys. a_trace a' = a_trace a @ ys \<and> no_spawn ys)"
proof -
  have idle: "a_child a = None" "a_backoff_deadline a = None" "a_start_deadline a = None \<or> a_done a"
    using assms(1,2) by (auto simp: state_inv_def mode_inv_def child_inv_def)
  have stop: "\<exists>ys. a_trace (stop_current_child env g b) = a_trace a @ ys \<and> no_spawn ys"
    if "a_child b = None" "a_trace b = a_trace a" for g b
    using stop_idle_trace [OF that(1)] that(2) by simp
  let ?m = "a\<lparr>a_is_shutting_down := True, a_manual_stop := True, a_backoff_deadline := None\<rparr>"
  have "a_manual_stop (cancel_branch env a) \<and>
      (\<exists>ys. a_trace (cancel_branch env a) = a_trace a @ ys \<and> no_spawn ys)"
    using stop [of ?m] idle(1) by (auto simp: cancel_branch_def Let_def update_status_trace)
  moreover have "a_manual_stop (snd (command_branch env cmd a)) \<and>
      (\<exists>ys. a_trace (snd (command_branch env cmd a)) = a_trace a @ ys \<and> no_spawn ys)"
    if "inp = InCommand cmd" for cmd
    using that assms(2,3) idle stop [of ?m] stop [of "a\<lparr>a_manual_stop := True, a_backoff_deadline := None\<rparr>"]
    by (cases cmd) (auto simp: is_start_input_def command_branch_set_deadline handle_command_def
        set_deadline_def)
  ultimately show ?thesis
    using assms(2,4) idle
    by (cases inp) (auto simp: run_step_def split: if_splits option.splits)
qed

lemma stopped_steps:
  assumes "run_steps xs a = Some a'" and "state_inv a" and "a_manual_stop a"
    and "\<forall>(env, inp) \<in> set xs. \<not> is_start_input inp"
  shows "state_inv a' \<and> a_manual_stop a' \<and> (\<exists>ys. a_trace a' = a_trace a @ ys \<and> no_spawn ys)"
  using assms
proof (induction xs arbitrary: a)
  case (Cons x xs)
  obtain env inp where x: "x = (env, inp)" by (cases x)
  then obtain b where b: "run_step env inp a = Some b" "run_steps xs b = Some a'"
    using Cons.prems(1) by (auto split: option.splits)
  have st: "state_inv b" using run_step_state_inv Cons.prems(2) b(1) by blast
  have "\<not> is_start_input inp" using Cons.prems(4) x by simp
  then obtain ys where m: "a_manual_stop b" and ys: "a_trace b = a_trace a @ ys" "no_spawn ys"
    using stopped_step [OF Cons.prems(2,3) _ b(1)] by blast
  from Cons.IH [OF b(2) st m] Cons.prems(4) obtain zs where
    "state_inv a'" "a_manual_stop a'" "a_trace a' = a_trace b @ zs" "no_spawn zs" by auto
  then show ?case using ys by auto
qed auto

text \<open>
  C4: A stop is final. After a stop command the program is stopped, and whatever happens next
  other than a start or restart command (exits, timers, health events, signals, a shutdown),
  it stays stopped and no process is spawned.
\<close>

theorem actor_stop_is_final:
  assumes "reachable allowed c a" and "run_step env (InCommand (CmdStop grace)) a = Some a1"
    and "run_steps xs a1 = Some a2" and "\<forall>(env, inp) \<in> set xs. \<not> is_start_input inp"
  shows "a_state a2 = Stopped \<and> a_child a2 = None \<and> live (a_trace a1) = {} \<and>
         no_spawn (drop (length (a_trace a1)) (a_trace a2))"
proof -
  have inv: "state_inv a1" "live_inv {} a1"
    using run_step_state_inv [OF reachable_state_inv [OF assms(1)] assms(2)]
      run_step_live_inv [OF reachable_live_inv [OF assms(1)] _ assms(2)] by (auto simp: pid_fresh_def)
  have m: "a_manual_stop a1" "a_child a1 = None"
    using assms(2) by (auto simp: run_step_def command_branch_set_deadline handle_command_def
        set_deadline_def split: if_splits)
  from stopped_steps [OF assms(3) inv(1) m(1) assms(4)]
  obtain ys where a2: "state_inv a2" "a_manual_stop a2" "a_trace a2 = a_trace a1 @ ys" "no_spawn ys"
    by blast
  then have "a_state a2 = Stopped" "a_child a2 = None" by (auto simp: state_inv_def mode_inv_def)
  moreover have "live (a_trace a1) = {}" using inv(2) m(2) by (simp add: live_inv_def child_pids_def)
  ultimately show ?thesis using a2 by simp
qed

theorem actor_stop_is_final_witness:
  "\<exists>a1 a2. run_step (demo_env 43 5) (InCommand (CmdStop 7)) demo_started = Some a1 \<and>
     run_steps [(demo_env 44 9, InCommand (CmdSignal Hup)), (demo_env 44 10, InCommand CmdShutdown),
                (demo_env 44 11, InCancelled)] a1 = Some a2 \<and>
     a_state a2 = Stopped \<and> no_spawn (drop (length (a_trace a1)) (a_trace a2))"
proof -
  define a1 where "a1 = snd (command_branch (demo_env 43 5) (CmdStop 7) demo_started)"
  have s1: "run_step (demo_env 43 5) (InCommand (CmdStop 7)) demo_started = Some a1"
    by (simp add: run_step_def a1_def)
  have a1: "\<not> a_done a1" "\<not> a_cancelled a1" "a_child a1 = None"
    by (simp_all add: a1_def command_branch_set_deadline handle_command_def set_deadline_def)
  let ?xs = "[(demo_env 44 9, InCommand (CmdSignal Hup)), (demo_env 44 10, InCommand CmdShutdown),
                (demo_env 44 11, InCancelled)]"
  obtain a2 where s2: "run_steps ?xs a1 = Some a2"
    using a1 by (simp add: run_step_def command_branch_set_deadline handle_command_def set_deadline_def)
  have "\<forall>(env, inp) \<in> set ?xs. \<not> is_start_input inp" by (simp add: is_start_input_def)
  from actor_stop_is_final [OF demo_started_reachable [of "\<lambda>_. True"] s1 s2 this]
  show ?thesis using s1 s2 by simp
qed

section \<open>Shutting down\<close>

text \<open>
  C8: Once the cancellation token is set (by a shutdown command or by dropping the program),
  the only possible next iteration is the last one; it always exists, and it ends the actor in
  the stopped state without child and without live process. A finished actor takes no step.
\<close>

theorem actor_shutdown_terminates:
  assumes "reachable allowed c a" and "a_cancelled a" and "\<not> a_done a"
  shows "(\<forall>env inp a'. inp \<noteq> InCancelToken \<longrightarrow> run_step env inp a = Some a' \<longrightarrow> inp = InCancelled) \<and>
         (\<forall>env. \<exists>a'. run_step env InCancelled a = Some a' \<and> a_done a' \<and> a_state a' = Stopped \<and>
            a_child a' = None \<and> live (a_trace a') = {} \<and>
            (\<forall>env' inp. run_step env' inp a' = None))"
proof -
  have "\<exists>a'. run_step env InCancelled a = Some a' \<and> a_done a' \<and> a_state a' = Stopped \<and>
      a_child a' = None \<and> live (a_trace a') = {} \<and> (\<forall>env' inp. run_step env' inp a' = None)" for env
  proof -
    have s: "run_step env InCancelled a = Some (cancel_branch env a)"
      using assms(2,3) by (simp add: run_step_def)
    have "live_inv {} (cancel_branch env a)"
      using run_step_live_inv [OF reachable_live_inv [OF assms(1)] _ s] by (simp add: pid_fresh_def)
    then show ?thesis using s
      by (simp add: cancel_branch_def Let_def run_step_def live_inv_def child_pids_def)
  qed
  moreover have "inp = InCancelled" if "inp \<noteq> InCancelToken" "run_step env inp a = Some a'" for env inp a'
    using assms(2,3) that by (auto simp: run_step_def split: if_splits)
  ultimately show ?thesis by blast
qed

theorem actor_shutdown_terminates_witness:
  "\<exists>a. run_step (demo_env 43 5) InCancelToken demo_started = Some a \<and>
     (\<exists>a'. run_step (demo_env 44 9) InCancelled a = Some a' \<and> a_done a' \<and> live (a_trace a') = {})"
proof -
  have s: "run_step (demo_env 43 5) InCancelToken demo_started = Some (demo_started\<lparr>a_cancelled := True\<rparr>)"
    by (simp add: run_step_def)
  have "reachable (\<lambda>_. True) demo_config (demo_started\<lparr>a_cancelled := True\<rparr>)"
    by (rule reachable_step [OF demo_started_reachable _ _ s]) (simp_all add: pid_fresh_def)
  from actor_shutdown_terminates [OF this] show ?thesis using s by auto
qed

section \<open>Exit of a running program\<close>

definition reaped_actor :: "exit_result \<Rightarrow> RunningChild \<Rightarrow> ProgramActor \<Rightarrow> ProgramActor" where
  "reaped_actor res ch a =
     (let a = a\<lparr>a_start_deadline := None, a_started_at := None, a_stdin_open := False, a_child := None\<rparr>
      in emit (DrainPumps (ch_pid ch)) (if isl res then a else emit (Reaped (ch_pid ch)) a))"

lemma reaped_actor_frame [simp]:
  "a_config (reaped_actor res ch a) = a_config a" "a_child (reaped_actor res ch a) = None"
  "a_start_deadline (reaped_actor res ch a) = None"
  "a_is_shutting_down (reaped_actor res ch a) = a_is_shutting_down a"
  "a_manual_stop (reaped_actor res ch a) = a_manual_stop a"
  "a_retry_count (reaped_actor res ch a) = a_retry_count a"
  "a_backoff_deadline (reaped_actor res ch a) = a_backoff_deadline a"
  "a_cancelled (reaped_actor res ch a) = a_cancelled a"
  "a_done (reaped_actor res ch a) = a_done a" "a_status (reaped_actor res ch a) = a_status a"
  by (simp_all add: reaped_actor_def Let_def)

lemma exit_branch_eq:
  assumes "state_inv a" and "a_child a = Some ch"
  shows "exit_branch env res a =
     (let x = (if ch_marked_running ch then running_exit env (exit_code_of res) (reaped_actor res ch a)
               else (False, startup_failure env (exit_code_of res) (reaped_actor res ch a)));
          a' = drop_child env (\<not> isl res) (ch_pid ch) (snd x)
      in if fst x \<and> c_start_secs (a_config a') \<noteq> 0
         then a'\<lparr>a_start_deadline := Some (env_now env + c_start_secs (a_config a'))\<rparr> else a')"
proof -
  have "\<not> a_manual_stop a" "\<not> a_is_shutting_down a"
    using assms by (auto simp: state_inv_def mode_inv_def)
  then show ?thesis using assms(2)
    by (cases "ch_marked_running ch"; cases res)
      (simp_all add: exit_branch_def handle_child_exit_def reaped_actor_def split_beta Let_def)
qed

lemma spawned_succeeds:
  assumes "spawn_child env a = (Inr u, a')"
  shows "\<exists>pid. spawn_succeeds env (a_config a) pid"
proof -
  have ns: "\<not> a_is_shutting_down a" and ok: "a_child a = None \<or> env_prev_exited env"
    using assms by (cases "a_child a"; auto simp: spawn_child_def reap_previous_def split: if_splits)+
  then obtain tr where sp: "spawn_child env a = spawn_phases env (spawn_base a tr)"
    using spawn_child_phases [OF ns ok] by blast
  show ?thesis
  proof (cases rule: pre_start_phase_cases [of env "spawn_base a tr"])
    case (failed err xs)
    then show ?thesis using assms sp by (simp add: spawn_phases_def)
  next
    case (passed xs)
    then have hook: "c_pre_start (a_config a) \<noteq> None \<longrightarrow> c_pre_start_ignore_failure (a_config a) \<or>
        run_hook (env_pre_start env) (c_hook_timeout_secs (a_config a)) = Inr ()"
      by (auto simp: pre_start_phase_def Let_def split: sum.splits if_splits)
    have "\<not> isl (fst (launch env (spawn_base a (tr @ xs))))"
      using assms sp passed(1) by (auto simp: spawn_phases_def spawn_base_upd split: prod.splits sum.splits)
    then show ?thesis using hook
      by (cases "env_spawn env") (auto simp: launch_def Let_def spawn_succeeds_def split: sum.splits option.splits)
  qed
qed

text \<open>
  C5: The restart policy decides what the exit of a running program leads to. If it says no,
  the program ends in the exited state with its exit code and nothing is spawned. If it says
  yes, the outcome depends only on the launch: a new child that is starting (or running, if no
  start delay is configured), or the fatal state with the exit code.
\<close>

theorem actor_exit_policy:
  assumes "reachable allowed c a" and "a_child a = Some ch" and "ch_marked_running ch"
    and "run_step env (InChildExit res) a = Some a'"
  shows "if should_restart (c_autorestart c) (unwrap_or (exit_code_of res) (-1)) (c_exit_codes c)
         then (\<forall>pid. spawn_succeeds env c pid \<longrightarrow>
                 a_child a' = Some \<lparr>ch_pid = pid, ch_marked_running = (c_start_secs c = 0)\<rparr> \<and>
                 a_state a' = (if c_start_secs c = 0 then Running else Starting) \<and>
                 a_start_deadline a' = (if c_start_secs c = 0 then None
                                        else Some (env_now env + c_start_secs c))) \<and>
              ((\<nexists>pid. spawn_succeeds env c pid) \<longrightarrow>
                 a_child a' = None \<and> a_state a' = Fatal \<and> s_exit_code (a_status a') = exit_code_of res)
         else a_child a' = None \<and> a_state a' = Exited \<and> s_exit_code (a_status a') = exit_code_of res"
proof -
  have inv: "state_inv a" using assms(1) by (rule reachable_state_inv)
  have cfg: "a_config a = c"
    using extends.reach [OF assms(1), of c "[]"] by (simp add: extends_inv_def)
  let ?b = "reaped_actor res ch a"
  have a': "a' = (let x = running_exit env (exit_code_of res) ?b;
          a' = drop_child env (\<not> isl res) (ch_pid ch) (snd x)
      in if fst x \<and> c_start_secs (a_config a') \<noteq> 0
         then a'\<lparr>a_start_deadline := Some (env_now env + c_start_secs (a_config a'))\<rparr> else a')"
    using assms(3,4) exit_branch_eq [OF inv assms(2)] by (auto simp: run_step_def split: if_splits)
  have ns: "\<not> a_is_shutting_down ?b" using inv assms(2) by (auto simp: state_inv_def mode_inv_def)
  show ?thesis
  proof (cases rule: running_exit_cases [of env "exit_code_of res" ?b])
    case (exited d)
    then show ?thesis using a' cfg by simp
  next
    case (fatal d d' e b')
    have "\<not> spawn_succeeds env c pid" for pid
      using spawn_succeeds_spawns [of env "update_status Starting None (exit_code_of res) d ?b" pid]
        ns cfg fatal(1) by auto
    moreover have "a_child b' = None"
      using fatal(1) ns
      by (cases rule: spawn_child_cases [of env "update_status Starting None (exit_code_of res) d ?b"]) auto
    ultimately show ?thesis using a' cfg fatal(2,3) by simp
  next
    case (restarted d b')
    let ?c = "update_status Starting None (exit_code_of res) d ?b"
    have "a_child b' = Some \<lparr>ch_pid = pid, ch_marked_running = (c_start_secs c = 0)\<rparr> \<and>
        a_state b' = (if c_start_secs c = 0 then Running else Starting) \<and> a_config b' = c \<and>
        a_start_deadline b' = None"
      if "spawn_succeeds env c pid" for pid
    proof -
      have "spawn_succeeds env (a_config ?c) pid" "\<not> a_is_shutting_down ?c"
        "a_child ?c = None \<or> env_prev_exited env" using that ns cfg by simp_all
      then obtain x tr where "spawn_child env ?c = (Inr (), register_child env pid x (spawn_base ?c tr))"
        by (rule spawn_succeeds_spawns)
      then show ?thesis using restarted(1) cfg by simp
    qed
    moreover have "\<exists>pid. spawn_succeeds env c pid" using spawned_succeeds [OF restarted(1)] cfg by simp
    ultimately show ?thesis using a' cfg restarted(2,3) by simp
  qed
qed

theorem actor_exit_policy_witness:
  "\<exists>a a'. run_step (demo_env 42 1000000000) InStartDeadline demo_started = Some a \<and>
     run_step (demo_env 43 2000000000) (InChildExit (Inr (KilledBySignal 9))) a = Some a' \<and>
     a_child a' = Some \<lparr>ch_pid = 43, ch_marked_running = False\<rparr> \<and> a_state a' = Starting"
proof -
  have now: "env_now (demo_env p t) = t" "\<not> env_prev_exited (demo_env p t)" for p t
    by (simp_all add: demo_env_def)
  define a where "a = start_deadline_branch (demo_env 42 1000000000) demo_started"
  have s: "run_step (demo_env 42 1000000000) InStartDeadline demo_started = Some a"
    by (simp add: run_step_def a_def now)
  have r: "reachable (\<lambda>_. True) demo_config a"
    by (rule reachable_step [OF demo_started_reachable _ _ s]) (simp_all add: pid_fresh_def)
  have a: "a_child a = Some \<lparr>ch_pid = 42, ch_marked_running = True\<rparr>" "\<not> a_done a" "\<not> a_cancelled a"
    by (simp_all add: a_def start_deadline_branch_def now)
  obtain a' where s': "run_step (demo_env 43 2000000000) (InChildExit (Inr (KilledBySignal 9))) a = Some a'"
    using a by (simp add: run_step_def)
  have "should_restart (c_autorestart demo_config) (-9) (c_exit_codes demo_config)"
    by (simp add: demo_defs)
  then show ?thesis
    using actor_exit_policy [OF r a(1) _ s'] s s' demo_spawn_succeeds [of 43 2000000000] demo_start_secs
    by (auto simp: exit_code_of_def normalize_exit_status_def unwrap_or_def)
qed

section \<open>Crash loops\<close>

text \<open>
  One round of a crash loop is an exit inside the start window followed by the restart after
  the backoff. \<open>rounds_ok c k rs\<close>: the launches of the rounds succeed and each backoff timer
  fires no earlier than its deadline, the first round being retry \<open>k + 1\<close>.
\<close>

type_synonym crash_round = "Env \<times> exit_result \<times> Env"

fun crash_inputs :: "crash_round list \<Rightarrow> (Env \<times> ActorInput) list" where
  "crash_inputs [] = []"
| "crash_inputs ((e1, res, e2) # rs) =
     (e1, InChildExit res) # (e2, InBackoffElapsed) # crash_inputs rs"

fun rounds_ok :: "ProgramConfig \<Rightarrow> nat \<Rightarrow> crash_round list \<Rightarrow> bool" where
  "rounds_ok c k [] = True"
| "rounds_ok c k ((e1, res, e2) # rs) =
     ((\<exists>pid. spawn_succeeds e2 c pid) \<and>
      env_now e1 + backoff_delay c (Suc k) \<le> env_now e2 \<and> rounds_ok c (Suc k) rs)"

definition starting_with :: "ProgramConfig \<Rightarrow> nat \<Rightarrow> ProgramActor \<Rightarrow> bool" where
  "starting_with c k a \<longleftrightarrow> state_inv a \<and> a_config a = c \<and> a_retry_count a = k \<and>
     (\<exists>ch. a_child a = Some ch \<and> \<not> ch_marked_running ch) \<and> \<not> a_done a \<and> \<not> a_cancelled a"

lemma startup_exit:
  assumes "starting_with c k a" and "c_start_retries c < 2 ^ 32 - 1"
  shows "\<exists>a'. run_step env (InChildExit res) a = Some a' \<and> state_inv a' \<and> a_config a' = c \<and>
     a_child a' = None \<and> \<not> a_done a' \<and> \<not> a_cancelled a' \<and> a_retry_count a' = Suc k \<and>
     (if k < c_start_retries c
      then a_state a' = Backoff \<and>
           a_backoff_deadline a' = Some (env_now env + backoff_delay c (Suc k))
      else a_state a' = Fatal \<and> a_backoff_deadline a' = None)"
proof -
  obtain ch where a: "state_inv a" "a_config a = c" "a_retry_count a = k" "a_child a = Some ch"
      "\<not> ch_marked_running ch" "\<not> a_done a" "\<not> a_cancelled a"
    using assms(1) by (auto simp: starting_with_def)
  have k: "k \<le> c_start_retries c" "a_backoff_deadline a = None"
    using a by (auto simp: state_inv_def mode_inv_def)
  then have k': "Suc k mod 4294967296 = Suc k" using assms(2) by simp
  have s: "run_step env (InChildExit res) a = Some (exit_branch env res a)"
    using a by (simp add: run_step_def)
  have eb: "exit_branch env res a = drop_child env (\<not> isl res) (ch_pid ch)
      (startup_failure env (exit_code_of res) (reaped_actor res ch a))"
    using exit_branch_eq [OF a(1,4)] a(5) by (simp add: Let_def)
  have inv: "state_inv (exit_branch env res a)" using run_step_state_inv [OF a(1) s] .
  show ?thesis
  proof (intro exI conjI)
    show "if k < c_start_retries c
      then a_state (exit_branch env res a) = Backoff \<and>
           a_backoff_deadline (exit_branch env res a) = Some (env_now env + backoff_delay c (Suc k))
      else a_state (exit_branch env res a) = Fatal \<and> a_backoff_deadline (exit_branch env res a) = None"
      using a(2,3) k k' by (simp add: eb startup_failure_def Let_def)
  qed (use s inv a k' in \<open>simp_all add: eb startup_failure_def Let_def\<close>)
qed

lemma backoff_restart:
  assumes "state_inv a" "a_config a = c" "\<not> a_done a" "\<not> a_cancelled a" "a_backoff_deadline a = Some dl"
    and "dl \<le> env_now env" and "spawn_succeeds env c pid" and "c_start_secs c \<noteq> 0"
  shows "\<exists>a'. run_step env InBackoffElapsed a = Some a' \<and> starting_with c (a_retry_count a) a'"
proof -
  have fl: "\<not> a_is_shutting_down a" "\<not> a_manual_stop a" "a_child a = None"
    using assms(1,5) by (auto simp: state_inv_def mode_inv_def)
  let ?b = "a\<lparr>a_backoff_deadline := None\<rparr>"
  have "spawn_succeeds env (a_config ?b) pid" "\<not> a_is_shutting_down ?b"
    "a_child ?b = None \<or> env_prev_exited env" using assms(2,7) fl by simp_all
  then obtain x tr where "spawn_child env ?b = (Inr (), register_child env pid x (spawn_base ?b tr))"
    by (rule spawn_succeeds_spawns)
  then have bb: "backoff_branch env a = (register_child env pid x (spawn_base ?b tr))
      \<lparr>a_start_deadline := Some (env_now env + c_start_secs c)\<rparr>"
    using fl assms(2,8) by (simp add: backoff_branch_def try_spawn_def)
  have s: "run_step env InBackoffElapsed a = Some (backoff_branch env a)"
    using assms fl by (simp add: run_step_def)
  have "state_inv (backoff_branch env a)" using run_step_state_inv [OF assms(1) s] .
  then have "starting_with c (a_retry_count a) (backoff_branch env a)"
    using assms(2-4,8) by (simp add: starting_with_def bb)
  then show ?thesis using s by blast
qed

lemma crash_rounds:
  assumes "starting_with c k a" and "c_start_retries c < 2 ^ 32 - 1" and "c_start_secs c \<noteq> 0"
    and "rounds_ok c k rs" and "k + length rs \<le> c_start_retries c"
  shows "\<exists>a'. run_steps (crash_inputs rs) a = Some a' \<and> starting_with c (k + length rs) a'"
  using assms
proof (induction c k rs arbitrary: a rule: rounds_ok.induct)
  case (2 c k e1 res e2 rs)
  have "k < c_start_retries c" using "2.prems"(5) by simp
  then obtain a1 where a1: "run_step e1 (InChildExit res) a = Some a1" "state_inv a1" "a_config a1 = c"
      "\<not> a_done a1" "\<not> a_cancelled a1" "a_retry_count a1 = Suc k"
      "a_backoff_deadline a1 = Some (env_now e1 + backoff_delay c (Suc k))"
    using startup_exit [OF "2.prems"(1,2), of e1 res] by auto
  obtain pid where ok: "spawn_succeeds e2 c pid" "env_now e1 + backoff_delay c (Suc k) \<le> env_now e2"
    using "2.prems"(4) by auto
  obtain a2 where a2: "run_step e2 InBackoffElapsed a1 = Some a2" "starting_with c (Suc k) a2"
    using backoff_restart [OF a1(2-5,7) ok(2,1) "2.prems"(3)] a1(6) by auto
  show ?case using "2.IH" [OF a2(2) "2.prems"(2,3)] "2.prems"(4,5) a1(1) a2(1) by simp
qed simp

text \<open>
  C3: A program that keeps crashing during startup is restarted exactly \<open>start_retries\<close> times:
  after any number of crash rounds up to that limit it is starting again with the retry counter
  at that number, and the next crash leads to another backoff with a pause of
  \<open>restart_pause_secs\<close>, or two to the power of the retry number in seconds, at most 32, if the
  limit has not been reached, and to the fatal state with no restart pending if it has.
\<close>

theorem actor_crash_loop:
  assumes "reachable allowed c a" and "a_child a = Some ch" and "\<not> ch_marked_running ch"
    and "a_retry_count a = 0" and "\<not> a_done a" and "\<not> a_cancelled a"
    and "c_start_retries c < 2 ^ 32 - 1" and "c_start_secs c \<noteq> 0"
    and "rounds_ok c 0 rs" and "length rs \<le> c_start_retries c"
  shows "\<exists>a1 a2. run_steps (crash_inputs rs) a = Some a1 \<and> a_state a1 = Starting \<and>
     a_retry_count a1 = length rs \<and> run_step env (InChildExit res) a1 = Some a2 \<and> a_child a2 = None \<and>
     (if length rs < c_start_retries c
      then a_state a2 = Backoff \<and> (\<exists>d. a_backoff_deadline a2 = Some (env_now env + d) \<and>
             d = (if c_restart_pause_secs c \<noteq> 0 then c_restart_pause_secs c
                  else from_secs (2 ^ min (Suc (length rs)) 5)) \<and>
             (c_restart_pause_secs c = 0 \<longrightarrow> d \<le> from_secs 32))
      else a_state a2 = Fatal \<and> a_backoff_deadline a2 = None)"
proof -
  have cfg: "a_config a = c"
    using extends.reach [OF assms(1), of c "[]"] by (simp add: extends_inv_def)
  then have "starting_with c 0 a"
    using assms reachable_state_inv [OF assms(1)] by (simp add: starting_with_def)
  then obtain a1 where a1: "run_steps (crash_inputs rs) a = Some a1" "starting_with c (length rs) a1"
    using crash_rounds [of c 0 a rs] assms by auto
  obtain a2 where a2: "run_step env (InChildExit res) a1 = Some a2" "a_child a2 = None"
    "if length rs < c_start_retries c
      then a_state a2 = Backoff \<and>
           a_backoff_deadline a2 = Some (env_now env + backoff_delay c (Suc (length rs)))
      else a_state a2 = Fatal \<and> a_backoff_deadline a2 = None"
    using startup_exit [OF a1(2) assms(7), of env res] by auto
  have "(2::nat) ^ min (Suc (length rs)) 5 \<le> 2 ^ 5" by (rule power_increasing) auto
  then have "(2::nat) ^ min (Suc (length rs)) 5 \<le> 32" by simp
  then have d: "backoff_delay c (Suc (length rs)) = (if c_restart_pause_secs c \<noteq> 0 then c_restart_pause_secs c
      else from_secs (2 ^ min (Suc (length rs)) 5))"
    "c_restart_pause_secs c = 0 \<longrightarrow> backoff_delay c (Suc (length rs)) \<le> from_secs 32"
    by (simp_all add: backoff_delay_def BACKOFF_MAX_EXPONENT_def from_secs_def)
  have "a_state a1 = Starting" "a_retry_count a1 = length rs"
    using a1(2) by (auto simp: starting_with_def state_inv_def child_inv_def)
  then show ?thesis using a1(1) a2 d by auto
qed

theorem actor_crash_loop_witness:
  "\<exists>a1 a2. run_steps (crash_inputs
       [(demo_env 0 5, Inr (ExitedCode 1), demo_env 43 3000000000),
        (demo_env 0 3000000005, Inr (ExitedCode 1), demo_env 44 9000000000),
        (demo_env 0 9000000001, Inr (ExitedCode 1), demo_env 45 20000000000)]) demo_started = Some a1 \<and>
     run_step (demo_env 0 0) (InChildExit (Inr (ExitedCode 1))) a1 = Some a2 \<and> a_state a2 = Fatal"
proof -
  let ?rs = "[(demo_env 0 5, Inr (ExitedCode 1), demo_env 43 3000000000),
        (demo_env 0 3000000005, Inr (ExitedCode 1), demo_env 44 9000000000),
        (demo_env 0 9000000001, Inr (ExitedCode 1), demo_env 45 20000000000)]"
  have now: "env_now (demo_env p t) = t" for p t by (simp add: demo_env_def)
  have c: "c_start_retries demo_config = 3" "c_restart_pause_secs demo_config = 0"
    by (simp_all add: demo_defs)
  have "rounds_ok demo_config 0 ?rs"
    using demo_spawn_succeeds [of 43 3000000000] demo_spawn_succeeds [of 44 9000000000]
      demo_spawn_succeeds [of 45 20000000000]
    by (auto simp: now c backoff_delay_def BACKOFF_MAX_EXPONENT_def from_secs_def)
  then show ?thesis
    using actor_crash_loop [OF demo_started_reachable [of "\<lambda>_. True"], of _ ?rs "demo_env 0 0"
        "Inr (ExitedCode 1)"] c demo_start_secs by auto
qed

section \<open>Escalation and time\<close>

lemma pre_stop_quiet:
  "ForceKill p \<notin> set (drop (length (a_trace a)) (a_trace (pre_stop_phase env a)))"
  "SendSignal p sg \<notin> set (drop (length (a_trace a)) (a_trace (pre_stop_phase env a)))"
  "\<exists>xs. a_trace (pre_stop_phase env a) = a_trace a @ xs"
  by (simp_all add: pre_stop_phase_def Let_def split: option.split sum.split)

text \<open>
  Stopping a child sends it the configured stop signal after the pre-stop hook; the child is
  force killed exactly when it has not exited within the grace period, and the exit code it
  reported in time is the one in the status.
\<close>

theorem actor_stop_escalation:
  assumes "a_child a = Some ch" and "ch_pid ch = pid"
  shows "(let a' = stop_current_child env grace a;
              exited_in_time = (\<exists>t st. env_wait env = Some (t, Inr st) \<and> t \<le> grace)
          in \<exists>pre post. a_trace a' = pre @ [SendSignal pid (c_stop_signal (a_config a))] @ post \<and>
               (\<forall>h. c_pre_stop (a_config a) = Some h \<longrightarrow> RunHook h \<in> set pre) \<and>
               (ForceKill pid \<in> set post \<longleftrightarrow> \<not> exited_in_time) \<and>
               (\<forall>t st. env_wait env = Some (t, Inr st) \<and> t \<le> grace \<longrightarrow>
                  s_exit_code (a_status a') = normalize_exit_status st \<and>
                  Reaped pid \<in> set post \<and> KillChild pid \<notin> set post))"
proof -
  let ?b = "update_status Stopping (Some pid) None ''Stopping''
      (a\<lparr>a_started_at := None, a_stdin_open := False, a_child := None\<rparr>)"
  let ?c = "pre_stop_phase env ?b"
  let ?sig = "SendSignal pid (c_stop_signal (a_config a))"
  have hook: "\<forall>h. c_pre_stop (a_config a) = Some h \<longrightarrow> RunHook h \<in> set (a_trace ?c)"
    by (simp add: pre_stop_phase_def Let_def split: option.split sum.split)
  show ?thesis
  proof (cases "\<exists>t st. env_wait env = Some (t, Inr st) \<and> t \<le> grace")
    case True
    then obtain t st where w: "env_wait env = Some (t, Inr st)" "t \<le> grace" by blast
    let ?code = "normalize_exit_status st"
    have "stop_current_child env grace a =
        update_status Stopped None ?code (stop_description ?code False)
          (emit (DrainPumps pid) (emit (Reaped pid) (emit ?sig ?c)))"
      using w assms by (simp add: stop_current_child_def Let_def terminate_def timeout_def drop_child_def)
    then have "a_trace (stop_current_child env grace a) = a_trace ?c @ [?sig] @
        ([Reaped pid, DrainPumps pid] @ drop (length (a_trace ?c) + 3)
            (a_trace (stop_current_child env grace a))) \<and>
        (\<forall>e \<in> set (drop (length (a_trace ?c) + 3) (a_trace (stop_current_child env grace a))). \<exists>v. e = Publish v) \<and>
        s_exit_code (a_status (stop_current_child env grace a)) = ?code"
      by (simp add: update_status_trace)
    then show ?thesis using w hook unfolding Let_def
      by (intro exI [of _ "a_trace ?c"] exI [of _ "[Reaped pid, DrainPumps pid] @
          drop (length (a_trace ?c) + 3) (a_trace (stop_current_child env grace a))"]) auto
  next
    case False
    have nt: "\<forall>x. timeout grace (env_wait env) \<noteq> Some (Inr x)"
      using False by (auto simp: timeout_def split: option.splits if_splits)
    have "\<exists>ys. a_trace (snd (terminate env grace pid ?c)) = a_trace ?c @ [?sig, ForceKill pid] @ ys"
      using nt by (auto simp: terminate_def Let_def split: option.splits sum.splits)
    then obtain ys where ys: "a_trace (snd (terminate env grace pid ?c))
        = a_trace ?c @ [?sig, ForceKill pid] @ ys" by blast
    have "\<exists>zs. a_trace (stop_current_child env grace a) =
        a_trace (snd (terminate env grace pid ?c)) @ zs"
      using assms by (simp add: stop_current_child_def Let_def split_beta drop_child_def update_status_trace)
    then obtain zs where "a_trace (stop_current_child env grace a) =
        a_trace ?c @ [?sig] @ (ForceKill pid # ys @ zs)" using ys by auto
    then show ?thesis using False hook unfolding Let_def
      by (intro exI [of _ "a_trace ?c"] exI [of _ "ForceKill pid # ys @ zs"]) auto
  qed
qed

theorem actor_stop_escalation_witness:
  "\<exists>pre post. a_trace (stop_current_child (demo_env 0 0) 7 demo_started) =
      pre @ [SendSignal 42 Term] @ post \<and> ForceKill 42 \<notin> set post"
proof -
  have "c_stop_signal demo_config = Term" "env_wait (demo_env 0 0) = Some (0, Inr (ExitedCode 0))"
    by (simp_all add: demo_defs)
  then show ?thesis
    using actor_stop_escalation [of demo_started "\<lparr>ch_pid = 42, ch_marked_running = False\<rparr>" 42 "demo_env 0 0" 7]
    by (auto simp: Let_def)
qed

text \<open>
  The time a stop and a restart take, apart from the unbounded wait of the final kill: hooks and
  waits are cut off by their timeouts, the drain of the log pumps by \<open>DRAIN_TIMEOUT\<close>.
\<close>

definition hook_elapsed :: "string option \<Rightarrow> HookEnv \<Rightarrow> duration \<Rightarrow> duration" where
  "hook_elapsed hook hk d = (case hook of None \<Rightarrow> 0 | Some _ \<Rightarrow> timeout_elapsed d (hk_status hk))"

definition stop_elapsed :: "Env \<Rightarrow> ProgramConfig \<Rightarrow> duration \<Rightarrow> duration" where
  "stop_elapsed env c grace =
     hook_elapsed (c_pre_stop c) (env_pre_stop env) (c_hook_timeout_secs c) +
     timeout_elapsed grace (env_wait env) +
     (case timeout grace (env_wait env) of
        Some (Inr _) \<Rightarrow> 0 | _ \<Rightarrow> timeout_elapsed (c_kill_wait_secs c) (env_kill_wait env)) +
     min (env_drain_elapsed env) DRAIN_TIMEOUT"

definition restart_elapsed :: "Env \<Rightarrow> ProgramConfig \<Rightarrow> duration \<Rightarrow> duration" where
  "restart_elapsed env c grace =
     stop_elapsed env c grace + hook_elapsed (c_pre_start c) (env_pre_start env) (c_hook_timeout_secs c)"

lemma timeout_elapsed_le: "timeout_elapsed d f \<le> d"
  by (simp add: timeout_elapsed_def split: option.split)

lemma hook_elapsed_le: "hook_elapsed h hk d \<le> d"
  by (simp add: hook_elapsed_def timeout_elapsed_le split: option.split)

lemma stop_elapsed_le:
  "stop_elapsed env c grace \<le> c_hook_timeout_secs c + grace + c_kill_wait_secs c + DRAIN_TIMEOUT"
proof -
  have "(case timeout grace (env_wait env) of
        Some (Inr _) \<Rightarrow> 0 | _ \<Rightarrow> timeout_elapsed (c_kill_wait_secs c) (env_kill_wait env)) \<le> c_kill_wait_secs c"
    by (simp add: timeout_elapsed_le split: option.split sum.split)
  moreover have "hook_elapsed (c_pre_stop c) (env_pre_stop env) (c_hook_timeout_secs c) \<le> c_hook_timeout_secs c"
    by (rule hook_elapsed_le)
  moreover have "timeout_elapsed grace (env_wait env) \<le> grace" by (rule timeout_elapsed_le)
  moreover have "min (env_drain_elapsed env) DRAIN_TIMEOUT \<le> DRAIN_TIMEOUT" by simp
  ultimately show ?thesis unfolding stop_elapsed_def by linarith
qed

text \<open>
  The callers wait long enough: unless the configured durations overflow, the time limits
  of \<open>stop\<close>, \<open>restart\<close> and \<open>shutdown\<close> exceed every time their bounded phases can take, with
  three seconds to spare (eight for a restart).
\<close>

theorem caller_timeouts_suffice:
  assumes "grace + 2 * c_hook_timeout_secs c + c_kill_wait_secs c + from_secs 10 \<le> duration_max"
    and "c_stop_wait_secs c + c_hook_timeout_secs c + c_kill_wait_secs c + from_secs 5 \<le> duration_max"
  shows "stop_elapsed env c grace + from_secs 3 \<le> stop_timeout c grace \<and>
         (\<exists>d. restart_timeout c grace = Some d \<and> restart_elapsed env c grace + from_secs 8 \<le> d) \<and>
         stop_elapsed env c (c_stop_wait_secs c) + from_secs 3 \<le> shutdown_timeout c"
proof -
  have s: "stop_timeout c grace = grace + c_hook_timeout_secs c + c_kill_wait_secs c + from_secs 5"
    "shutdown_timeout c = c_stop_wait_secs c + c_hook_timeout_secs c + c_kill_wait_secs c + from_secs 5"
    "restart_timeout c grace =
       Some (grace + 2 * c_hook_timeout_secs c + c_kill_wait_secs c + from_secs 10)"
    using assms by (simp_all add: stop_timeout_def shutdown_timeout_def restart_timeout_def
        add_or_def checked_add_def from_secs_def PROCESS_STOP_GRACE_EXTRA_def PROCESS_RESTART_GRACE_EXTRA_def)
  have h: "hook_elapsed (c_pre_start c) (env_pre_start env) (c_hook_timeout_secs c) \<le> c_hook_timeout_secs c"
    by (rule hook_elapsed_le)
  have d: "DRAIN_TIMEOUT = from_secs 2" by (simp add: DRAIN_TIMEOUT_def)
  have "stop_elapsed env c grace + from_secs 3 \<le> stop_timeout c grace"
    using stop_elapsed_le [of env c grace] by (simp add: s d from_secs_def)
  moreover have "stop_elapsed env c (c_stop_wait_secs c) + from_secs 3 \<le> shutdown_timeout c"
    using stop_elapsed_le [of env c "c_stop_wait_secs c"] by (simp add: s d from_secs_def)
  moreover have "restart_elapsed env c grace + from_secs 8
      \<le> grace + 2 * c_hook_timeout_secs c + c_kill_wait_secs c + from_secs 10"
    using stop_elapsed_le [of env c grace] h by (simp add: restart_elapsed_def d from_secs_def)
  ultimately show ?thesis using s(3) by simp
qed

theorem caller_timeouts_suffice_witness:
  "stop_elapsed (demo_env 1 0) demo_config (from_secs 10) + from_secs 3
     \<le> stop_timeout demo_config (from_secs 10)"
proof -
  have "c_hook_timeout_secs demo_config = from_secs 15" "c_kill_wait_secs demo_config = from_secs 2"
    "c_stop_wait_secs demo_config = from_secs 10"
    by (simp_all add: demo_defs DEFAULT_HOOK_TIMEOUT_def DEFAULT_STOP_WAIT_def)
  then show ?thesis
    using caller_timeouts_suffice [of "from_secs 10" demo_config "demo_env 1 0"]
    by (simp add: duration_max_def from_secs_def)
qed

section \<open>A start that fails after its predecessor ended\<close>

text \<open>
  The code cleans up a child that has already exited when a start command arrives, before
  the exit itself was handled. If the launch then fails, the status is left untouched: the
  program keeps reporting the state and the pid of the dead process although it has no child,
  and no later exit event can correct it.
\<close>

theorem start_failure_leaves_stale_status:
  assumes "reachable allowed c a" and "a_child a = Some ch" and "\<not> a_cancelled a" and "\<not> a_done a"
    and "env_prev_exited env" and "c_pre_start c = None" and "env_transport env = Inl e"
  shows "\<exists>a'. run_step env (InCommand CmdStart) a = Some a' \<and>
     fst (command_branch env CmdStart a) = Inl e \<and>
     a_child a' = None \<and> a_status a' = a_status a \<and> s_pid (a_status a') = Some (ch_pid ch) \<and>
     a_state a' \<in> {Running, Starting} \<and> a_backoff_deadline a' = None \<and>
     (\<forall>env' res. run_step env' (InChildExit res) a' = None)"
proof -
  have inv: "state_inv a" using assms(1) by (rule reachable_state_inv)
  have cfg: "a_config a = c"
    using extends.reach [OF assms(1), of c "[]"] by (simp add: extends_inv_def)
  have st: "s_pid (a_status a) = Some (ch_pid ch)" "a_state a \<in> {Running, Starting}"
    "\<not> a_is_shutting_down a" "\<not> a_manual_stop a"
    using inv assms(2) by (auto simp: state_inv_def mode_inv_def child_inv_def)
  let ?b = "a\<lparr>a_manual_stop := False, a_retry_count := 0, a_backoff_deadline := None\<rparr>"
  have "\<exists>tr. spawn_child env ?b = (Inl e, spawn_base ?b tr)"
  proof -
    have "\<not> a_is_shutting_down ?b" "a_child ?b = None \<or> env_prev_exited env" using st assms(5) by simp_all
    then obtain tr where "spawn_child env ?b = spawn_phases env (spawn_base ?b tr)"
      using spawn_child_phases [of ?b env] by blast
    then show ?thesis using assms(6,7) cfg
      by (auto simp: spawn_phases_def pre_start_phase_def launch_def)
  qed
  then obtain tr where sp: "spawn_child env ?b = (Inl e, spawn_base ?b tr)" by blast
  have "command_branch env CmdStart a = (Inl e, (spawn_base ?b tr)\<lparr>a_start_deadline := None\<rparr>)"
    using sp st(3) by (simp add: command_branch_def handle_command_def)
  then show ?thesis using assms(3,4) st by (simp add: run_step_def)
qed

theorem start_failure_leaves_stale_status_witness:
  "\<exists>a'. run_step ((demo_env 43 9)\<lparr>env_prev_exited := True, env_transport := Inl (PlatformError ''pipe'')\<rparr>)
          (InCommand CmdStart) demo_started = Some a' \<and>
     a_child a' = None \<and> s_pid (a_status a') = Some 42"
proof -
  let ?env = "(demo_env 43 9)\<lparr>env_prev_exited := True, env_transport := Inl (PlatformError ''pipe'')\<rparr>"
  have "c_pre_start demo_config = None" by (simp add: demo_defs)
  from start_failure_leaves_stale_status [OF demo_started_reachable [of "\<lambda>_. True"], where env = ?env
      and ch = "\<lparr>ch_pid = 42, ch_marked_running = False\<rparr>" and e = "PlatformError ''pipe''", OF _ _ _ _ _ this]
  show ?thesis by auto
qed

end
