(* ===== verification/Process_World.thy ===== *)
theory Process_World
  imports Actor_Props
begin

text \<open>
  The handle of a process program (\<open>ProcessProgram\<close>): its operations send a command to the actor and
  wait for the reply, and whatever they do, the actor's invariant is kept and a stopped program has
  no process.

  A program is an actor together with what the system will answer: the environment of each of
  its next commands and the time each reply takes.
\<close>

record ProcProgram =
  pp_actor :: ProgramActor
  pp_envs :: "nat \<Rightarrow> Env"
  pp_delays :: "nat \<Rightarrow> duration"
  pp_tick :: nat

text \<open>
  A command on the channel. A finished actor has closed it; an actor whose token is cancelled
  takes the cancellation branch and drops the command with its reply.
\<close>

definition send_command :: "ProgramCommand \<Rightarrow> duration \<Rightarrow> ProcProgram \<Rightarrow> unit result \<times> ProcProgram" where
  "send_command cmd limit p =
     (let a = pp_actor p; env = pp_envs p (pp_tick p); n = a_name a; p' = p\<lparr>pp_tick := Suc (pp_tick p)\<rparr>
      in if a_done a then (await_reply n False limit None, p')
         else if a_cancelled a
         then (await_reply n True limit (Some (pp_delays p (pp_tick p), None)),
               p'\<lparr>pp_actor := cancel_branch env a\<rparr>)
         else (let (reply, a') = command_branch env cmd a
               in (await_reply n True limit (Some (pp_delays p (pp_tick p), Some reply)),
                   p'\<lparr>pp_actor := a'\<rparr>)))"

definition process_start :: "ProcProgram \<Rightarrow> unit result \<times> ProcProgram" where
  "process_start p =
     send_command CmdStart (unwrap_or (start_timeout (a_config (pp_actor p))) duration_max) p"

definition process_stop :: "duration \<Rightarrow> ProcProgram \<Rightarrow> unit result \<times> ProcProgram" where
  "process_stop grace p = send_command (CmdStop grace) (stop_timeout (a_config (pp_actor p)) grace) p"

definition process_restart :: "duration \<Rightarrow> ProcProgram \<Rightarrow> unit result \<times> ProcProgram" where
  "process_restart grace p =
     send_command (CmdRestart grace)
       (unwrap_or (restart_timeout (a_config (pp_actor p)) grace) duration_max) p"

definition process_signal :: "StopSignal \<Rightarrow> ProcProgram \<Rightarrow> unit result \<times> ProcProgram" where
  "process_signal sig p = send_command (CmdSignal sig) AWAIT_QUERY p"

text \<open>\<open>shutdown\<close> sends the command, cancels the token and joins the actor task.\<close>

definition process_shutdown :: "ProcProgram \<Rightarrow> ProcProgram" where
  "process_shutdown p =
     (let p = snd (send_command CmdShutdown (shutdown_timeout (a_config (pp_actor p))) p);
          a = (pp_actor p)\<lparr>a_cancelled := True\<rparr>
      in if a_done a then p\<lparr>pp_actor := a\<rparr>
         else p\<lparr>pp_actor := cancel_branch (pp_envs p (pp_tick p)) a\<rparr>)"

definition new_process ::
  "(string \<Rightarrow> string option) \<Rightarrow> (nat \<Rightarrow> Env) \<Rightarrow> (nat \<Rightarrow> duration) \<Rightarrow> ProgramConfig \<Rightarrow> ProcProgram result" where
  "new_process cron_err envs delays c =
     (case validate cron_err c of
        Inl e \<Rightarrow> Inl e
      | Inr _ \<Rightarrow> Inr \<lparr>pp_actor = actor_new c, pp_envs = envs, pp_delays = delays, pp_tick = 0\<rparr>)"

definition process_good :: "ProcProgram \<Rightarrow> bool" where
  "process_good p \<longleftrightarrow> state_inv (pp_actor p)"

section \<open>The contract holds\<close>

lemma status_state [simp]: "s_state (program_status now a) = a_state a"
  by (simp add: program_status_def Let_def split: option.split)

lemma send_command_good:
  assumes "process_good p" shows "process_good (snd (send_command cmd d p))"
  using assms cancel_state_inv command_state_inv [of "pp_actor p" "pp_envs p (pp_tick p)" cmd]
  by (auto simp: send_command_def process_good_def Let_def split_beta)

lemma done_stopped: "state_inv a \<Longrightarrow> a_done a \<Longrightarrow> a_state a = Stopped \<and> a_child a = None"
  by (simp add: state_inv_def mode_inv_def)

lemma cancel_branch_stopped [simp]:
  "s_state (a_status (cancel_branch env a)) = Stopped" "a_done (cancel_branch env a)"
  by (simp_all add: cancel_branch_def Let_def)

lemma process_stop_stops:
  assumes "process_good p" shows "a_state (pp_actor (snd (process_stop d p))) = Stopped"
proof -
  have "a_state (snd (command_branch env (CmdStop d) a)) = Stopped" for env a
    by (simp add: command_branch_set_deadline handle_command_def set_deadline_def)
  then show ?thesis using assms done_stopped [of "pp_actor p"]
    by (simp add: process_stop_def send_command_def process_good_def Let_def split_beta)
qed

lemma process_stop_good: "process_good p \<Longrightarrow> process_good (snd (process_stop d p))"
  by (simp add: process_stop_def send_command_good)

lemma process_stopped_childless: "process_good p \<Longrightarrow> a_state (pp_actor p) = Stopped \<Longrightarrow> a_child (pp_actor p) = None"
  by (cases "a_child (pp_actor p)") (auto simp: process_good_def state_inv_def child_inv_def split: if_splits)

lemma cancel_flag_inv [simp]: "state_inv (a\<lparr>a_cancelled := b\<rparr>) = state_inv a"
  by (simp add: state_inv_defs)

lemma process_shutdown_good:
  assumes "process_good p"
  shows "process_good (process_shutdown p)" and "a_state (pp_actor (process_shutdown p)) = Stopped"
proof -
  let ?q = "snd (send_command CmdShutdown (shutdown_timeout (a_config (pp_actor p))) p)"
  have q: "state_inv (pp_actor ?q)"
    using send_command_good [OF assms] by (simp add: process_good_def)
  then show "process_good (process_shutdown p)"
    using cancel_state_inv [of "(pp_actor ?q)\<lparr>a_cancelled := True\<rparr>"]
    by (simp add: process_shutdown_def process_good_def Let_def)
  show "a_state (pp_actor (process_shutdown p)) = Stopped"
    using done_stopped [OF q] by (simp add: process_shutdown_def Let_def)
qed

text \<open>Between two commands of the manager the actor of a program makes steps of its own.\<close>

definition process_evolve :: "ProcProgram \<Rightarrow> ProcProgram \<Rightarrow> bool" where
  "process_evolve p p' \<longleftrightarrow>
     (\<exists>env inp a envs delays. run_step env inp (pp_actor p) = Some a \<and>
        p' = p\<lparr>pp_actor := a, pp_envs := envs, pp_delays := delays\<rparr>)"

end
