(* ===== verification/Listener_Actor.thy ===== *)
theory Listener_Actor
  imports Program_Model
begin

text \<open>
  The actor of an event listener program and its handle (\<open>src/src/eventlistener/program.rs\<close>): it
  starts, stops, restarts and signals one process and restarts it when it exits, by its policy.

  What the system answers to the calls of one step is a \<open>ListenerEnv\<close>. The calls that change the
  process are recorded as effects. The end of a process on its own is the step \<open>listener_exited\<close>.
\<close>

record ListenerEnv =
  le_now :: instant
  le_command_first :: bool
  le_configure :: "unit result"
  le_spawn :: "string + nat option"
  le_attach :: "unit result"
  le_stdin :: bool
  le_stdout :: bool
  le_stderr :: bool
  le_signal :: "unit result"
  le_exits_in_grace :: bool

datatype ListenerCommand = LStart | LStop duration | LRestart duration | LSignal StopSignal

datatype ListenerEffect =
    LSpawned nat
  | LTasksCancelled nat
  | LStopSignal nat StopSignal
  | LForceKill nat
  | LKill nat

record ListenerActor =
  la_config :: ProgramConfig
  la_status :: ProgramStatus
  la_started_at :: "instant option"
  la_child :: "nat option"
  la_cancelled :: bool
  la_ended :: bool
  la_effects :: "ListenerEffect list"

definition listener_actor_new :: "ProgramConfig \<Rightarrow> ListenerActor" where
  "listener_actor_new c =
     \<lparr>la_config = c,
      la_status = \<lparr>s_name = c_name c, s_group = c_group c, s_state = Stopped, s_pid = None,
        s_uptime_secs = None, s_exit_code = None, s_is_healthy = False, s_health = HealthNone,
        s_metrics = None, s_description = ''Stopped'', s_cron = None, s_next_cron_run = None\<rparr>,
      la_started_at = None, la_child = None, la_cancelled = False, la_ended = False, la_effects = []\<rparr>"

definition listener_emit :: "ListenerEffect list \<Rightarrow> ListenerActor \<Rightarrow> ListenerActor" where
  "listener_emit es a = a\<lparr>la_effects := la_effects a @ es\<rparr>"

definition listener_set_state ::
  "ProgramState \<Rightarrow> int option \<Rightarrow> string \<Rightarrow> ListenerActor \<Rightarrow> ListenerActor" where
  "listener_set_state state pid_or_code desc a =
     (let snap = (la_status a)\<lparr>s_state := state, s_description := desc\<rparr>
      in a\<lparr>la_status :=
             (if state = Running
              then snap\<lparr>s_pid := map_option nat pid_or_code, s_exit_code := None\<rparr>
              else snap\<lparr>s_pid := None, s_exit_code := pid_or_code\<rparr>)\<rparr>)"

definition captured :: "string \<Rightarrow> bool \<Rightarrow> unit result" where
  "captured stream ok = (if ok then Inr () else Inl (PlatformError (''Failed to capture child '' @ stream)))"

definition listener_spawn :: "ListenerEnv \<Rightarrow> ListenerActor \<Rightarrow> nat result \<times> ListenerActor" where
  "listener_spawn env a =
     (case le_configure env of
        Inl e \<Rightarrow> (Inl e, a)
      | Inr _ \<Rightarrow>
          (case le_spawn env of
             Inl io \<Rightarrow> (Inl (StartFailed (c_name (la_config a)) io), a)
           | Inr None \<Rightarrow> (Inl (PlatformError ''Process spawned without PID''), a)
           | Inr (Some pid) \<Rightarrow>
               (case le_attach env of
                  Inl e \<Rightarrow> (Inl e, a)
                | Inr _ \<Rightarrow>
                    (case captured ''stdin'' (le_stdin env) of
                       Inl e \<Rightarrow> (Inl e, a)
                     | Inr _ \<Rightarrow>
                         (case captured ''stdout'' (le_stdout env) of
                            Inl e \<Rightarrow> (Inl e, a)
                          | Inr _ \<Rightarrow>
                              (case captured ''stderr'' (le_stderr env) of
                                 Inl e \<Rightarrow> (Inl e, a)
                               | Inr _ \<Rightarrow>
                                   (Inr pid,
                                    listener_emit [LSpawned pid]
                                      (listener_set_state Running (Some (int pid))
                                         (''pid '' @ digits_of pid @ '', uptime 0:00:00'')
                                         (a\<lparr>la_started_at := Some (le_now env)\<rparr>)))))))))"

definition listener_stop_child :: "ListenerEnv \<Rightarrow> nat \<Rightarrow> ListenerActor \<Rightarrow> ListenerActor" where
  "listener_stop_child env pid a =
     listener_emit
       ([LTasksCancelled pid, LStopSignal pid (c_stop_signal (la_config a))]
          @ (if le_exits_in_grace env then [] else [LForceKill pid, LKill pid])) a"

text \<open>Taking the process out of the actor and stopping it; nothing happens without a process.\<close>

definition take_and_stop :: "ListenerEnv \<Rightarrow> ListenerActor \<Rightarrow> ListenerActor" where
  "take_and_stop env a =
     (case la_child a of Some pid \<Rightarrow> listener_stop_child env pid (a\<lparr>la_child := None\<rparr>) | None \<Rightarrow> a)"

definition spawn_and_keep :: "ListenerEnv \<Rightarrow> ListenerActor \<Rightarrow> unit result \<times> ListenerActor" where
  "spawn_and_keep env a =
     (case listener_spawn env a of
        (Inr pid, a) \<Rightarrow> (Inr (), a\<lparr>la_child := Some pid\<rparr>)
      | (Inl e, a) \<Rightarrow> (Inl e, a))"

fun listener_command :: "ListenerEnv \<Rightarrow> ListenerCommand \<Rightarrow> ListenerActor \<Rightarrow> unit result \<times> ListenerActor" where
  "listener_command env LStart a =
     (if la_child a \<noteq> None then (Inr (), a) else spawn_and_keep env a)"
| "listener_command env (LStop grace) a =
     (Inr (), if la_child a \<noteq> None
              then listener_set_state Stopped None ''Stopped by user'' (take_and_stop env a) else a)"
| "listener_command env (LRestart grace) a = spawn_and_keep env (take_and_stop env a)"
| "listener_command env (LSignal sg) a =
     (case la_child a of
        Some pid \<Rightarrow> (le_signal env, a)
      | None \<Rightarrow> (Inl (NotRunning (c_name (la_config a))), a))"

definition listener_cancel :: "ListenerEnv \<Rightarrow> ListenerActor \<Rightarrow> ListenerActor" where
  "listener_cancel env a = (take_and_stop env a)\<lparr>la_ended := True\<rparr>"

definition listener_exited :: "ListenerEnv \<Rightarrow> int option \<Rightarrow> ListenerActor \<Rightarrow> ListenerActor" where
  "listener_exited env exit_code a =
     (let a = (case la_child a of
                 Some pid \<Rightarrow> listener_emit [LTasksCancelled pid] (a\<lparr>la_child := None\<rparr>) | None \<Rightarrow> a);
          a = listener_set_state Exited exit_code ''Process exited'' a
      in if should_restart (c_autorestart (la_config a)) (unwrap_or exit_code (- 1)) (c_exit_codes (la_config a))
         then snd (spawn_and_keep env a) else a)"

definition two_digits :: "nat \<Rightarrow> string" where
  "two_digits n = (if n < 10 then ''0'' else []) @ digits_of n"

definition listener_status :: "instant \<Rightarrow> ListenerActor \<Rightarrow> ProgramStatus" where
  "listener_status now a =
     (let st = la_status a
      in case la_started_at a of
           Some started \<Rightarrow>
             if s_state st = Running
             then (let elapsed = as_secs (now - started);
                       st = st\<lparr>s_uptime_secs := Some elapsed\<rparr>
                   in case s_pid st of
                        Some pid \<Rightarrow>
                          st\<lparr>s_description := ''pid '' @ digits_of pid @ '', uptime '' @ digits_of (elapsed div 3600)
                             @ '':'' @ two_digits (elapsed mod 3600 div 60) @ '':'' @ two_digits (elapsed mod 60)\<rparr>
                      | None \<Rightarrow> st)
             else st
         | None \<Rightarrow> st)"

section \<open>The handle\<close>

text \<open>
  A command on the channel. An actor that has ended has closed it. When the token is cancelled and a
  command is waiting, either branch of the loop can be taken; a cancelled actor ends without a reply.
\<close>

record ListenerProgram =
  lp_actor :: ListenerActor
  lp_envs :: "nat \<Rightarrow> ListenerEnv"
  lp_tick :: nat

definition listener_send :: "ListenerCommand \<Rightarrow> ListenerProgram \<Rightarrow> unit result \<times> ListenerProgram" where
  "listener_send cmd p =
     (let a = lp_actor p; env = lp_envs p (lp_tick p); p' = p\<lparr>lp_tick := Suc (lp_tick p)\<rparr>;
          closed = Inl (ChannelClosed (c_name (la_config a)))
      in if la_ended a then (closed, p')
         else if la_cancelled a \<and> \<not> le_command_first env
         then (closed, p'\<lparr>lp_actor := listener_cancel env a\<rparr>)
         else (let (reply, a') = listener_command env cmd a in (reply, p'\<lparr>lp_actor := a'\<rparr>)))"

definition listener_start :: "ListenerProgram \<Rightarrow> unit result \<times> ListenerProgram" where
  "listener_start = listener_send LStart"

definition listener_stop :: "duration \<Rightarrow> ListenerProgram \<Rightarrow> unit result \<times> ListenerProgram" where
  "listener_stop grace = listener_send (LStop grace)"

definition listener_restart :: "duration \<Rightarrow> ListenerProgram \<Rightarrow> unit result \<times> ListenerProgram" where
  "listener_restart grace = listener_send (LRestart grace)"

definition listener_signal :: "StopSignal \<Rightarrow> ListenerProgram \<Rightarrow> unit result \<times> ListenerProgram" where
  "listener_signal sg = listener_send (LSignal sg)"

text \<open>\<open>shutdown\<close> cancels the token and sends a stop command, whose outcome it ignores.\<close>

definition listener_shutdown :: "ListenerProgram \<Rightarrow> ListenerProgram" where
  "listener_shutdown p =
     (let a = lp_actor p
      in snd (listener_stop DRAIN_TIMEOUT (p\<lparr>lp_actor := a\<lparr>la_cancelled := True\<rparr>\<rparr>)))"

definition new_listener :: "(nat \<Rightarrow> ListenerEnv) \<Rightarrow> ProgramConfig \<Rightarrow> ListenerProgram result" where
  "new_listener envs c = Inr \<lparr>lp_actor = listener_actor_new c, lp_envs = envs, lp_tick = 0\<rparr>"

section \<open>The status of a listener\<close>

text \<open>While a listener has a process it is reported as running with its process identifier.\<close>

definition listener_inv :: "ListenerActor \<Rightarrow> bool" where
  "listener_inv a \<longleftrightarrow>
     (la_ended a \<longrightarrow> la_child a = None) \<and>
     (\<forall>pid. la_child a = Some pid \<longrightarrow> s_state (la_status a) = Running \<and> s_pid (la_status a) = Some pid) \<and>
     (s_state (la_status a) = Stopped \<longrightarrow> la_child a = None)"

lemma listener_emit_simps [simp]:
  "la_child (listener_emit es a) = la_child a" "la_status (listener_emit es a) = la_status a"
  "la_ended (listener_emit es a) = la_ended a" "la_config (listener_emit es a) = la_config a"
  "la_cancelled (listener_emit es a) = la_cancelled a"
  by (simp_all add: listener_emit_def)

lemma listener_set_state_simps [simp]:
  "la_child (listener_set_state st c d a) = la_child a" "la_ended (listener_set_state st c d a) = la_ended a"
  "la_config (listener_set_state st c d a) = la_config a"
  "la_cancelled (listener_set_state st c d a) = la_cancelled a"
  "s_state (la_status (listener_set_state st c d a)) = st"
  "s_pid (la_status (listener_set_state st c d a)) = (if st = Running then map_option nat c else None)"
  by (simp_all add: listener_set_state_def Let_def)

lemma take_and_stop_simps [simp]:
  "la_child (take_and_stop env a) = None" "la_ended (take_and_stop env a) = la_ended a"
  "la_config (take_and_stop env a) = la_config a" "la_status (take_and_stop env a) = la_status a"
  by (simp_all add: take_and_stop_def listener_stop_child_def split: option.split)

lemma listener_spawn_cases:
  obtains e where "listener_spawn env a = (Inl e, a)"
  | pid a' where "listener_spawn env a = (Inr pid, a')" "s_state (la_status a') = Running"
      "s_pid (la_status a') = Some pid" "la_ended a' = la_ended a" "la_config a' = la_config a" "la_child a' = la_child a"
proof (cases "listener_spawn env a")
  case (Pair r a')
  then show ?thesis using that
    by (cases r) (auto simp: listener_spawn_def split: sum.splits option.splits)
qed

lemma spawn_and_keep_cases:
  obtains e where "spawn_and_keep env a = (Inl e, a)"
  | pid a' where "spawn_and_keep env a = (Inr (), a')" "la_child a' = Some pid"
      "s_state (la_status a') = Running" "s_pid (la_status a') = Some pid" "la_ended a' = la_ended a"
  by (cases rule: listener_spawn_cases [of env a]) (auto simp: spawn_and_keep_def that)

lemma spawn_and_keep_inv:
  "listener_inv a \<Longrightarrow> \<not> la_ended a \<Longrightarrow> listener_inv (snd (spawn_and_keep env a))"
  by (cases rule: spawn_and_keep_cases [of env a]) (auto simp: listener_inv_def)

lemma listener_command_inv:
  assumes "listener_inv a" and "\<not> la_ended a"
  shows "listener_inv (snd (listener_command env cmd a))"
proof (cases cmd)
  case (LRestart grace)
  have "listener_inv (take_and_stop env a)" using assms by (simp add: listener_inv_def)
  then show ?thesis using LRestart assms(2) by (simp add: spawn_and_keep_inv)
qed (use assms spawn_and_keep_inv in \<open>auto simp: listener_inv_def split: option.split\<close>)

lemma listener_cancel_inv: "listener_inv a \<Longrightarrow> listener_inv (listener_cancel env a)"
  by (simp add: listener_inv_def listener_cancel_def)

lemma listener_exited_inv:
  assumes "listener_inv a" and "\<not> la_ended a" shows "listener_inv (listener_exited env code a)"
proof -
  define b where "b = (case la_child a of
    Some pid \<Rightarrow> listener_emit [LTasksCancelled pid] (a\<lparr>la_child := None\<rparr>) | None \<Rightarrow> a)"
  define c where "c = listener_set_state Exited code ''Process exited'' b"
  have "la_child c = None" "\<not> la_ended c" using assms(2) by (simp_all add: b_def c_def split: option.split)
  moreover from this have "listener_inv c" by (simp add: listener_inv_def)
  moreover have "listener_exited env code a =
      (if should_restart (c_autorestart (la_config c)) (unwrap_or code (- 1)) (c_exit_codes (la_config c))
       then snd (spawn_and_keep env c) else c)"
    by (simp only: listener_exited_def Let_def b_def c_def)
  ultimately show ?thesis by (simp add: spawn_and_keep_inv)
qed

lemma listener_new_inv: "listener_inv (listener_actor_new c)"
  by (simp add: listener_inv_def listener_actor_new_def)

lemma listener_status_state [simp]: "s_state (listener_status now a) = s_state (la_status a)"
  by (simp add: listener_status_def Let_def split: option.split)

text \<open>
  The converse does not hold. When the new process of a restart cannot be started, the old one is
  gone but the listener is still reported as running, with the old process identifier, and
  stopping it does not correct the report.
\<close>

lemma failed_restart_stays_running:
  assumes "la_child a = Some pid" and "listener_inv a" and "le_configure env = Inl e"
  shows "\<exists>a'. listener_command env (LRestart g) a = (Inl e, a') \<and> la_child a' = None \<and>
     s_state (la_status (snd (listener_command env' (LStop g') a'))) = Running \<and>
     s_pid (la_status (snd (listener_command env' (LStop g') a'))) = Some pid"
  using assms by (simp add: spawn_and_keep_def listener_spawn_def listener_inv_def)

section \<open>The handle stops the process\<close>

lemma listener_send_inv: "listener_inv (lp_actor p) \<Longrightarrow> listener_inv (lp_actor (snd (listener_send cmd p)))"
  using listener_command_inv listener_cancel_inv by (simp add: listener_send_def Let_def split_beta)

lemma listener_stop_no_child:
  assumes "listener_inv (lp_actor p)" shows "la_child (lp_actor (snd (listener_stop d p))) = None"
  using assms by (simp add: listener_stop_def listener_send_def Let_def listener_cancel_def listener_inv_def)

lemma listener_shutdown_inv:
  assumes "listener_inv (lp_actor p)"
  shows "listener_inv (lp_actor (listener_shutdown p))" "la_child (lp_actor (listener_shutdown p)) = None"
proof -
  let ?p = "p\<lparr>lp_actor := (lp_actor p)\<lparr>la_cancelled := True\<rparr>\<rparr>"
  have inv: "listener_inv (lp_actor ?p)" using assms by (simp add: listener_inv_def)
  show "la_child (lp_actor (listener_shutdown p)) = None"
    using listener_stop_no_child [OF inv] by (simp add: listener_shutdown_def Let_def)
  show "listener_inv (lp_actor (listener_shutdown p))"
    using listener_send_inv [OF inv, of "LStop DRAIN_TIMEOUT"] by (simp add: listener_shutdown_def listener_stop_def Let_def)
qed

end
