(* ===== verification/Supervisor_World.thy ===== *)
theory Supervisor_World
  imports Manager_Run Process_World Listener_Actor
begin

text \<open>
  The manager over the two kinds of programs of the supervisor, processes and event listeners, as an
  instance of the \<open>Program\<close> contract, and the properties of the manager for this instance.
\<close>

section \<open>The two kinds of programs\<close>

datatype AnyProgram = ProcProg ProcProgram | ListenProg ListenerProgram

fun program_status_of :: "instant \<Rightarrow> AnyProgram \<Rightarrow> ProgramStatus" where
  "program_status_of now (ProcProg p) = program_status now (pp_actor p)"
| "program_status_of now (ListenProg p) = listener_status now (lp_actor p)"

fun program_call ::
  "(ProcProgram \<Rightarrow> unit result \<times> ProcProgram) \<Rightarrow> (ListenerProgram \<Rightarrow> unit result \<times> ListenerProgram) \<Rightarrow>
     AnyProgram \<Rightarrow> unit result \<times> AnyProgram" where
  "program_call f g (ProcProg p) = map_prod id ProcProg (f p)"
| "program_call f g (ListenProg p) = map_prod id ListenProg (g p)"

fun program_shutdown :: "AnyProgram \<Rightarrow> AnyProgram" where
  "program_shutdown (ProcProg p) = ProcProg (process_shutdown p)"
| "program_shutdown (ListenProg p) = ListenProg (listener_shutdown p)"

record Host =
  host_cron_err :: "string \<Rightarrow> string option"
  host_next_occ :: occurrence
  host_now :: datetime
  host_clock :: instant
  host_envs :: "nat \<Rightarrow> Env"
  host_delays :: "nat \<Rightarrow> duration"
  host_is_cyclic :: "string list \<Rightarrow> (string \<times> string) list \<Rightarrow> bool"
  host_listener_envs :: "nat \<Rightarrow> ListenerEnv"

definition supervisor_world :: "Host \<Rightarrow> AnyProgram World" where
  "supervisor_world h =
     \<lparr>w_status = program_status_of (host_clock h),
      w_start = program_call process_start listener_start,
      w_stop = (\<lambda>d. program_call (process_stop d) (listener_stop d)),
      w_restart = (\<lambda>d. program_call (process_restart d) (listener_restart d)),
      w_signal = (\<lambda>sg. program_call (process_signal sg) (listener_signal sg)),
      w_shutdown = program_shutdown,
      w_new_process = (\<lambda>c. map_sum id ProcProg (new_process (host_cron_err h) (host_envs h) (host_delays h) c)),
      w_new_listener = (\<lambda>c n. map_sum id ListenProg (new_listener (host_listener_envs h) c)),
      w_iter = id, w_is_cyclic = host_is_cyclic h, w_next_occ = host_next_occ h, w_now = host_now h\<rparr>"

text \<open>A consistent program, and one that has no process left; a process program is then stopped.\<close>

fun program_good :: "AnyProgram \<Rightarrow> bool" where
  "program_good (ProcProg p) = process_good p"
| "program_good (ListenProg p) = listener_inv (lp_actor p)"

fun program_idle :: "AnyProgram \<Rightarrow> bool" where
  "program_idle (ProcProg p) \<longleftrightarrow> a_child (pp_actor p) = None \<and> a_state (pp_actor p) = Stopped"
| "program_idle (ListenProg p) \<longleftrightarrow> la_child (lp_actor p) = None"

interpretation pw: program_trait "supervisor_world h" program_good program_idle
proof unfold_locales
  fix p :: AnyProgram and d :: duration
  assume p: "program_good p"
  show "program_good (snd (w_start (supervisor_world h) p))" "program_good (snd (w_stop (supervisor_world h) d p))"
    "program_good (snd (w_restart (supervisor_world h) d p))"
    using p send_command_good listener_send_inv
    by (cases p; simp add: supervisor_world_def process_start_def process_stop_def process_restart_def
        listener_start_def listener_stop_def listener_restart_def)+
  show "program_good (w_shutdown (supervisor_world h) p)" "program_idle (w_shutdown (supervisor_world h) p)"
    using p process_shutdown_good listener_shutdown_inv process_stopped_childless
    by (cases p; simp add: supervisor_world_def)+
  show "program_idle (snd (w_stop (supervisor_world h) d p))"
    using p process_stop_stops listener_stop_no_child process_stop_good process_stopped_childless
    by (cases p; simp add: supervisor_world_def)
  show "s_state (w_status (supervisor_world h) p) = Stopped \<Longrightarrow> program_idle p"
    using p process_stopped_childless by (cases p) (simp_all add: supervisor_world_def listener_inv_def)
next
  fix p :: AnyProgram and sg :: StopSignal
  assume "program_good p"
  then show "program_good (snd (w_signal (supervisor_world h) sg p))"
    using send_command_good listener_send_inv
    by (cases p; simp add: supervisor_world_def process_signal_def listener_signal_def)
next
  fix c and p :: AnyProgram
  assume "w_new_process (supervisor_world h) c = Inr p"
  then show "program_good p"
    by (auto simp: supervisor_world_def new_process_def process_good_def actor_new_invs split: sum.splits)
next
  fix c n and p :: AnyProgram
  assume "w_new_listener (supervisor_world h) c n = Inr p"
  then show "program_good p" by (auto simp: supervisor_world_def new_listener_def listener_new_inv)
qed (simp_all add: supervisor_world_def)

text \<open>
  Between two commands of the manager the actor of a program makes steps of its own; that of a
  listener sees its process end or its token cancelled.
\<close>

definition listener_evolve :: "ListenerProgram \<Rightarrow> ListenerProgram \<Rightarrow> bool" where
  "listener_evolve p p' \<longleftrightarrow> \<not> la_ended (lp_actor p) \<and>
     (\<exists>env code envs. p' = p\<lparr>lp_actor := listener_exited env code (lp_actor p), lp_envs := envs\<rparr> \<or>
        p' = p\<lparr>lp_actor := listener_cancel env (lp_actor p), lp_envs := envs\<rparr>)"

fun program_evolve :: "AnyProgram \<Rightarrow> AnyProgram \<Rightarrow> bool" where
  "program_evolve (ProcProg p) (ProcProg p') = process_evolve p p'"
| "program_evolve (ListenProg p) (ListenProg p') = listener_evolve p p'"
| "program_evolve _ _ = False"

interpretation mp: managed_programs "range supervisor_world" program_evolve program_good program_idle
proof (rule managed_programs.intro)
  fix W :: "AnyProgram World"
  assume "W \<in> range supervisor_world"
  then show "program_trait W program_good program_idle" using pw.program_trait_axioms by blast
next
  fix p p'
  assume "program_evolve p p'" "program_good p"
  then show "program_good p'"
    using run_step_state_inv listener_exited_inv listener_cancel_inv
    by (cases p; cases p') (auto simp: process_evolve_def process_good_def listener_evolve_def)
qed

section \<open>Properties of the manager\<close>

text \<open>
  C18: The registry invariant: whatever commands, cron jobs and steps of its programs a manager has
  gone through since it was built, a program is registered for exactly the active configurations,
  each under its own name, every program is in a consistent state, and the copies of the
  configurations that the command handle and the file watcher use are up to date.
\<close>

theorem manager_registry_invariant:
  assumes "manager_reachable (range supervisor_world) program_evolve s"
  shows "registry_ok program_good s \<and> shared_ok s"
  using mp.reachable_ok [OF assms] by (simp add: manager_ok_def)

text \<open>
  Stopping everything stops everything: if the dependency graph was built from the active
  configuration, then after \<open>execute_stop_all\<close> no registered program has a process left, whatever
  state it was in before and however its process reacts, and every process program is stopped.
\<close>

theorem stop_all_stops_all:
  assumes "registry_ok program_good s" and "dag_build (supervisor_world h) (m_configs s) = Inr (m_dag s)"
    and "n \<in> set (keys (m_programs s))"
  shows "prog_in program_idle (execute_stop_all (supervisor_world h) grace s) n"
proof -
  have "hm_wf (m_configs s)" "n \<in> set (keys (m_configs s))"
    using assms(1,3) by (auto simp: registry_ok_def named_map_def)
  then have "n \<in> set (concat (stop_layers (m_dag s)))" using pw.dag_build_cover(2) [OF assms(2)] by blast
  then show ?thesis using pw.stop_all_state [OF assms(1)] assms(3) by simp
qed




text \<open>
  Removing a group at runtime: an unknown group is an error, a group with a program that is
  starting, running, stopping or in backoff is refused, both without effect; otherwise exactly
  the programs of the group disappear and no other program is touched.
\<close>

theorem remove_group_outcome:
  assumes "registry_ok program_good s"
    and "execute_remove_process_group (supervisor_world h) g s = (r, s')"
  shows "registry_ok program_good s' \<and>
     (if group_names s g = {} then r = Inl (NotFound g) \<and> s' = s
      else if \<exists>n \<in> group_names s g. still_running (supervisor_world h) s n then r = Inr False \<and> s' = s
      else r = Inr True \<and> touches (group_names s g) s s' \<and>
           (\<forall>n \<in> group_names s g. hm_get (m_programs s') n = None \<and> hm_get (m_configs s') n = None))"
  using assms by (rule pw.remove_group)

text \<open>
  Adding a group at runtime: a group that is already active is refused, a group that is not in
  the pending configuration is an error, and a failure to create one of its programs leaves
  everything as it was; otherwise exactly the pending entries of the group become active.
\<close>

theorem add_group_outcome:
  assumes "registry_ok program_good s" and "named_map (m_pending_configs s)"
    and "execute_add_process_group (supervisor_world h) g s = (r, s')"
  shows "registry_ok program_good s' \<and>
     (if group_names s g \<noteq> {} then r = Inr False \<and> s' = s
      else if \<nexists>n c. hm_get (m_pending_configs s) n = Some c \<and> c_group c = g
           then r = Inl (NotFound g) \<and> s' = s
      else (\<exists>e. r = Inl e \<and> s' = s) \<or>
           (r = Inr True \<and>
            (\<forall>n. hm_get (m_configs s') n =
               (case hm_get (m_pending_configs s) n of
                  Some c \<Rightarrow> if c_group c = g then Some c else hm_get (m_configs s) n
                | None \<Rightarrow> hm_get (m_configs s) n))))"
  using assms by (rule pw.add_group)

text \<open>
  C37: A shutdown stops every program, also one that the dependency graph does not know: after the
  shutdown command the loop ends, and after the final sweep no registered program has a process left, and every
  process program is stopped.
\<close>

theorem shutdown_stops_all:
  assumes "registry_ok program_good s" and "n \<in> set (keys (m_programs s))"
  shows "\<exists>s'. manager_command (supervisor_world h) (Shutdown ts) s = (RUnit (Inr ()), True, s') \<and>
     m_is_shutting_down s' \<and>
     prog_in program_idle (manager_exit (supervisor_world h) s') n"
  using assms by (rule pw.shutdown_command)

text \<open>
  When the dependency graph of the active configuration cannot be built, because the group of
  a program that another one depends on has been removed, adding a further group leaves the old
  graph in place without an error, and \<open>execute_stop_all\<close> does not stop a program of that group.
\<close>

theorem stale_graph_misses_added_group:
  assumes "registry_ok program_good s" and "named_map (m_pending_configs s)"
    and "execute_add_process_group (supervisor_world h) g s = (Inr True, s')"
    and "dag_build (supervisor_world h) (m_configs s') = Inl e"
    and "n \<notin> set (concat (stop_layers (m_dag s)))"
  shows "prog_state (supervisor_world h) (execute_stop_all (supervisor_world h) grace s') n
     = prog_state (supervisor_world h) s' n"
proof -
  have "m_dag s' = m_dag s"
  proof -
    obtain staged pools where s': "s' = m_publish (ProcessGroupAdded g)
        (refresh_derived_state (supervisor_world h) (fold (register (supervisor_world h)) staged (s\<lparr>m_event_pools := pools\<rparr>)))"
      using assms(3) unfolding execute_add_process_group_def Let_def
      by (auto split: if_splits prod.splits sum.splits)
    let ?t = "fold (register (supervisor_world h)) staged (s\<lparr>m_event_pools := pools\<rparr>)"
    have "m_dag ?t = m_dag (s\<lparr>m_event_pools := pools\<rparr>)" by (rule fold_frame) simp
    then show ?thesis using assms(4) by (simp add: s')
  qed
  then show ?thesis using pw.stop_all_frame [of n s'] assms(5) by (simp add: prog_state_def)
qed

section \<open>A concrete manager\<close>

definition demo_listener_env :: ListenerEnv where
  "demo_listener_env = \<lparr>le_now = 0, le_command_first = False, le_configure = Inr (), le_spawn = Inr (Some 7),
     le_attach = Inr (), le_stdin = True, le_stdout = True, le_stderr = True, le_signal = Inr (),
     le_exits_in_grace = True\<rparr>"

definition demo_host :: Host where
  "demo_host = \<lparr>host_cron_err = (\<lambda>_. None), host_next_occ = (\<lambda>_ _. None), host_now = 0, host_clock = 0,
     host_envs = (\<lambda>_. demo_env 42 0), host_delays = (\<lambda>_. 0), host_is_cyclic = (\<lambda>_ _. False),
     host_listener_envs = (\<lambda>_. demo_listener_env)\<rparr>"

definition db_config :: ProgramConfig where
  "db_config = new_config Term ''db'' ''mysqld''"

definition web_config :: ProgramConfig where
  "web_config = (new_config Term ''web'' ''nginx'')\<lparr>c_depends_on := [''db'']\<rparr>"

definition demo_configs :: "ProgramConfig hmap" where
  "demo_configs = [(''db'', db_config), (''web'', web_config)]"

definition demo_graph :: DependencyGraph where
  "demo_graph = \<lparr>start_layers = [[''db''], [''web'']], stop_layers = [[''web''], [''db'']]\<rparr>"

definition fresh :: "ProgramConfig \<Rightarrow> AnyProgram" where
  "fresh c = ProcProg \<lparr>pp_actor = actor_new c, pp_envs = (\<lambda>_. demo_env 42 0), pp_delays = (\<lambda>_. 0), pp_tick = 0\<rparr>"

definition demo_logging :: LoggingConfig where
  "demo_logging = \<lparr>g_enabled = LogOn, g_file = None, g_level = ''info'', g_buffer_size = None,
     g_max_bytes = None, g_backups = 10, g_timestamp_suffix = False, g_silent = False, g_no_color = None\<rparr>"

definition manager_of :: "ProgramConfig hmap \<Rightarrow> ProgramConfig hmap \<Rightarrow> DependencyGraph \<Rightarrow> AnyProgram Manager" where
  "manager_of configs pending g =
     \<lparr>m_programs = map (\<lambda>(n, c). (n, fresh c)) configs, m_configs = configs, m_shared_configs = configs,
      m_pending_configs = pending, m_shared_pending_configs = pending, m_dag = g, m_cron_table = [],
      m_watch_configs = configs, m_is_shutting_down = False, m_event_pools = [], m_config_logging = demo_logging,
      m_events = [], m_calls = []\<rparr>"

definition demo_manager :: "AnyProgram Manager" where
  "demo_manager = manager_of demo_configs demo_configs demo_graph"

abbreviation demo_world :: "AnyProgram World" where
  "demo_world \<equiv> supervisor_world demo_host"

lemma demo_named: "named_map demo_configs"
  by (simp add: named_map_def hm_wf_def demo_configs_def db_config_def web_config_def new_config_def)

lemma demo_dag: "dag_build demo_world demo_configs = Inr demo_graph"
  by (simp add: dag_build_def supervisor_world_def demo_host_def build_def demo_configs_def db_config_def
      web_config_def new_config_def demo_graph_def init_in_degrees_def init_adj_def bump_degree_def
      push_adj_def init_queue_def push_layer_def make_layers_def max_layer_def sort_start_def
      sort_stop_def prio_of_def hm_get_def keys_def unwrap_or_def List.map_filter_def
      DEFAULT_PRIORITY_def upt_rec)

lemma manager_of_registry:
  assumes "named_map configs" shows "registry_ok program_good (manager_of configs pending g)"
proof -
  let ?ps = "map (\<lambda>(n, c). (n, fresh c)) configs"
  have k: "keys ?ps = keys configs" by (induction configs) auto
  have "program_good p" if "hm_get ?ps n = Some p" for n p
  proof -
    have "(n, p) \<in> set ?ps" using that unfolding hm_get_def by (rule map_of_SomeD)
    then obtain c where "p = fresh c" by auto
    then show ?thesis by (simp add: process_good_def fresh_def actor_new_invs)
  qed
  then show ?thesis using assms k
    by (simp add: registry_ok_def manager_of_def named_map_def hm_wf_def)
qed

lemma demo_registry: "registry_ok program_good demo_manager"
  unfolding demo_manager_def by (rule manager_of_registry [OF demo_named])

lemma manager_of_fields [simp]:
  "m_configs (manager_of configs pending g) = configs" "m_dag (manager_of configs pending g) = g"
  "m_pending_configs (manager_of configs pending g) = pending"
  "m_is_shutting_down (manager_of configs pending g) = False"
  "m_event_pools (manager_of configs pending g) = []"
  "m_programs (manager_of configs pending g) = map (\<lambda>(n, c). (n, fresh c)) configs"
  by (simp_all add: manager_of_def)

lemma start_all_frame:
  "m_configs (execute_start_all W s) = m_configs s" "m_dag (execute_start_all W s) = m_dag s"
  "set (keys (m_programs (execute_start_all W s))) = set (keys (m_programs s))"
  unfolding execute_start_all_def start_layer_def start_one_def
  by (rule fold_frame, rule fold_frame, simp)+

lemma demo_keys [simp]: "set (keys (m_programs demo_manager)) = {''db'', ''web''}"
  by (simp add: demo_manager_def demo_configs_def)

lemma demo_built: "manager_build demo_world (Inr demo_configs) demo_logging = Inr demo_manager"
proof -
  let ?new = "\<lambda>c. map_sum id ProcProg (new_process (host_cron_err demo_host) (host_envs demo_host) (host_delays demo_host) c)"
  have new: "?new db_config = Inr (fresh db_config)" "?new web_config = Inr (fresh web_config)"
    by (simp_all add: new_process_def fresh_def demo_host_def validate_def validate_cron_def trim_def
        is_ascii_space_def db_config_def web_config_def new_config_def Let_def DEFAULT_PRIORITY_def)
  have inst: "instantiate_program demo_world db_config [] = (Inr (fresh db_config), [])"
    "instantiate_program demo_world web_config [] = (Inr (fresh web_config), [])"
    using new by (simp_all add: instantiate_program_def supervisor_world_def db_config_def web_config_def new_config_def)
  have cron: "from_configs (w_next_occ demo_world) (w_now demo_world) demo_configs = []"
    by (simp add: from_configs_def cron_entry_def demo_configs_def db_config_def web_config_def new_config_def)
  have st: "stage demo_world (vals demo_configs) [] = (Inr [(db_config, fresh db_config), (web_config, fresh web_config)], [])"
    by (simp add: demo_configs_def vals_def inst)
  show ?thesis
    by (simp add: manager_build_def demo_dag st cron)
      (simp add: demo_manager_def manager_of_def demo_configs_def keys_def)
qed

theorem manager_registry_invariant_witness:
  "registry_ok program_good (snd (snd (manager_command demo_world (RestartGroup ''web'' None) demo_manager)))"
proof -
  obtain reply final s' where
    c: "manager_command demo_world (RestartGroup ''web'' None) demo_manager = (reply, final, s')" by (metis prod_cases3)
  have "manager_reachable (range supervisor_world) program_evolve demo_manager"
    using demo_built demo_named by (intro manager_built [of demo_world]) simp_all
  then have "manager_reachable (range supervisor_world) program_evolve s'"
    by (rule manager_served [OF _ _ _ c]) (simp_all add: resolved_ok_def)
  then show ?thesis using manager_registry_invariant c by simp
qed

theorem stop_all_stops_all_witness:
  "prog_in program_idle (execute_stop_all demo_world None (execute_start_all demo_world demo_manager)) ''db''"
  by (rule stop_all_stops_all)
    (simp_all add: pw.start_all_registry demo_registry start_all_frame,
     simp add: demo_manager_def demo_dag)


lemma demo_reload:
  "\<exists>summary s'. execute_reload_config demo_world (Inr demo_configs) demo_logging demo_manager = (Inr summary, s') \<and>
     set (rs_unchanged summary) = {''db'', ''web''}"
proof -
  have d: "compute demo_configs demo_configs =
      \<lparr>df_added = [], df_removed = [], df_modified = [], df_unchanged = sort [''db'', ''web'']\<rparr>"
    by (simp add: compute_eq demo_configs_def hm_get_def contains_key_def)
  show ?thesis
    by (simp add: execute_reload_config_def demo_dag d Let_def demo_manager_def summary_of_def)
qed



theorem remove_group_outcome_witness:
  "\<exists>s'. execute_remove_process_group demo_world ''db'' demo_manager = (Inr True, s') \<and>
     hm_get (m_programs s') ''db'' = None"
proof -
  obtain r s' where r: "execute_remove_process_group demo_world ''db'' demo_manager = (r, s')" by fastforce
  have g: "group_names demo_manager ''db'' = {''db''}"
    by (auto simp: group_names_def demo_manager_def demo_configs_def hm_get_def db_config_def
        web_config_def new_config_def split: if_splits)
  have "\<not> still_running demo_world demo_manager ''db''"
    by (simp add: still_running_def prog_state_def demo_manager_def demo_configs_def hm_get_def fresh_def
        supervisor_world_def actor_new_def new_stopped_with_group_def is_active_def)
  then show ?thesis using remove_group_outcome [OF demo_registry r] r g by simp
qed

theorem add_group_outcome_witness:
  "execute_add_process_group demo_world ''db'' demo_manager = (Inr False, demo_manager)"
proof -
  obtain r s' where r: "execute_add_process_group demo_world ''db'' demo_manager = (r, s')" by fastforce
  have p: "named_map (m_pending_configs demo_manager)" by (simp add: demo_manager_def demo_named)
  have "''db'' \<in> group_names demo_manager ''db''"
    by (simp add: group_names_def demo_manager_def demo_configs_def hm_get_def db_config_def new_config_def)
  then have "group_names demo_manager ''db'' \<noteq> {}" by (metis empty_iff)
  then show ?thesis using add_group_outcome [OF demo_registry p r] r by simp
qed

theorem shutdown_stops_all_witness:
  "\<exists>s'. manager_command demo_world (Shutdown 0) (execute_start_all demo_world demo_manager)
       = (RUnit (Inr ()), True, s') \<and>
     prog_in program_idle (manager_exit demo_world s') ''web''"
  using shutdown_stops_all [OF pw.start_all_registry [OF demo_registry, of demo_host], of "''web''" demo_host 0]
  by (auto simp: start_all_frame)

definition extra_config :: ProgramConfig where
  "extra_config = new_config Term ''extra'' ''sleep''"

definition stale_manager :: "AnyProgram Manager" where
  "stale_manager = manager_of [(''web'', web_config)] ((''extra'', extra_config) # demo_configs) demo_graph"

theorem stale_graph_misses_added_group_witness:
  "\<exists>s'. execute_add_process_group demo_world ''extra'' stale_manager = (Inr True, s') \<and>
     prog_state demo_world (execute_stop_all demo_world None s') ''extra'' = prog_state demo_world s' ''extra''"
proof -
  have named: "named_map [(''web'', web_config)]" "named_map ((''extra'', extra_config) # demo_configs)"
    by (simp_all add: named_map_def hm_wf_def demo_configs_def db_config_def web_config_def extra_config_def new_config_def)
  have reg: "registry_ok program_good stale_manager"
    unfolding stale_manager_def by (rule manager_of_registry [OF named(1)])
  let ?st = "fold (register demo_world) [(extra_config, fresh extra_config)] stale_manager"
  have add: "\<exists>s'. execute_add_process_group demo_world ''extra'' stale_manager = (Inr True, s') \<and>
      m_configs s' = [(''web'', web_config), (''extra'', extra_config)]"
    by (simp add: execute_add_process_group_def stale_manager_def vals_def demo_configs_def db_config_def
        web_config_def extra_config_def new_config_def instantiate_program_def supervisor_world_def
        new_process_def demo_host_def validate_def validate_cron_def trim_def is_ascii_space_def Let_def
        DEFAULT_PRIORITY_def fresh_def)
  then obtain s' where s': "execute_add_process_group demo_world ''extra'' stale_manager = (Inr True, s')"
    "m_configs s' = [(''web'', web_config), (''extra'', extra_config)]" by blast
  have e: "\<exists>e. dag_build demo_world (m_configs s') = Inl e"
    by (simp add: s'(2) dag_build_def build_def web_config_def)
  have "named_map (m_pending_configs stale_manager)" using named(2) by (simp add: stale_manager_def)
  moreover have "''extra'' \<notin> set (concat (stop_layers (m_dag stale_manager)))"
    by (simp add: stale_manager_def demo_graph_def)
  ultimately show ?thesis using e stale_graph_misses_added_group [OF reg _ s'(1)] s'(1) by blast
qed

end
