(* ===== verification/Rust_Text.thy ===== *)
theory Rust_Text
  imports Sup_Prelude
begin

text \<open>
  The parts of Rust's text handling that the log and protocol code uses: UTF-8 validation,
  the lossy conversion that replaces every ill-formed sequence by U+FFFD
  (\<open>String::from_utf8_lossy\<close>), and the splitting of a text into lines (\<open>str::lines\<close>).
  Bytes are characters; a text is the list of its UTF-8 bytes.
\<close>

type_synonym bytes = "char list"

definition newline :: char where "newline = CHR 0x0A"
definition carriage_return :: char where "carriage_return = CHR 0x0D"

lemma newline_neq [simp]: "newline \<noteq> carriage_return" "carriage_return \<noteq> newline"
  by (simp_all add: newline_def carriage_return_def)

section \<open>UTF-8\<close>

definition byte_in :: "nat \<Rightarrow> nat \<Rightarrow> char \<Rightarrow> bool" where
  "byte_in lo hi c \<longleftrightarrow> lo \<le> (of_char c :: nat) \<and> (of_char c :: nat) \<le> hi"

definition utf8_width :: "char \<Rightarrow> nat" where
  "utf8_width c =
     (if byte_in 0 0x7F c then 1 else if byte_in 0xC2 0xDF c then 2
      else if byte_in 0xE0 0xEF c then 3 else if byte_in 0xF0 0xF4 c then 4 else 0)"

definition second_ok :: "char \<Rightarrow> char \<Rightarrow> bool" where
  "second_ok b c =
     (let n = (of_char b :: nat)
      in if n = 0xE0 then byte_in 0xA0 0xBF c
         else if n = 0xED then byte_in 0x80 0x9F c
         else if n = 0xF0 then byte_in 0x90 0xBF c
         else if n = 0xF4 then byte_in 0x80 0x8F c
         else byte_in 0x80 0xBF c)"

abbreviation continuation :: "char \<Rightarrow> bool" where
  "continuation \<equiv> byte_in 0x80 0xBF"

text \<open>
  The sequence that begins with \<open>b\<close>: whether it is well formed and how many of the following
  bytes belong to it; an ill-formed one extends over its maximal correct prefix.
\<close>

definition utf8_take :: "char \<Rightarrow> bytes \<Rightarrow> bool \<times> nat" where
  "utf8_take b rest =
     (let w = utf8_width b
      in if w = 0 then (False, 0)
         else if w = 1 then (True, 0)
         else (case rest of
                 [] \<Rightarrow> (False, 0)
               | c # rest' \<Rightarrow>
                   if \<not> second_ok b c then (False, 0)
                   else if w = 2 then (True, 1)
                   else (case rest' of
                           [] \<Rightarrow> (False, 1)
                         | d # rest'' \<Rightarrow>
                             if \<not> continuation d then (False, 1)
                             else if w = 3 then (True, 2)
                             else (case rest'' of
                                     [] \<Rightarrow> (False, 2)
                                   | e # _ \<Rightarrow> if continuation e then (True, 3) else (False, 2)))))"

definition replacement :: bytes where
  "replacement = [CHR 0xEF, CHR 0xBF, CHR 0xBD]"

function utf8_lossy :: "bytes \<Rightarrow> bytes" where
  "utf8_lossy [] = []"
| "utf8_lossy (b # bs) =
     (let (ok, n) = utf8_take b bs
      in (if ok then b # take n bs else replacement) @ utf8_lossy (drop n bs))"
  by pat_completeness auto
termination by (relation "measure length") auto

function utf8_valid :: "bytes \<Rightarrow> bool" where
  "utf8_valid [] = True"
| "utf8_valid (b # bs) = (let (ok, n) = utf8_take b bs in ok \<and> utf8_valid (drop n bs))"
  by pat_completeness auto
termination by (relation "measure length") auto

lemma utf8_lossy_valid: "utf8_valid s \<Longrightarrow> utf8_lossy s = s"
proof (induction s rule: utf8_valid.induct)
  case (2 b bs)
  obtain ok n where t: "utf8_take b bs = (ok, n)" by fastforce
  then have "ok" "utf8_valid (drop n bs)" using "2.prems" by simp_all
  then have "utf8_lossy (drop n bs) = drop n bs" using "2.IH" [OF t [symmetric] refl] by simp
  then show ?case using t \<open>ok\<close> by simp
qed simp

lemma utf8_valid_ascii: "\<forall>c \<in> set s. byte_in 0 0x7F c \<Longrightarrow> utf8_valid s"
proof (induction s)
  case (Cons c s)
  then have "utf8_take c s = (True, 0)" by (simp add: utf8_take_def utf8_width_def Let_def)
  then show ?case using Cons by simp
qed simp

section \<open>Lines\<close>

text \<open>The segments of a text, each with its newline; the last one may have none.\<close>

fun line_segs :: "bytes \<Rightarrow> bytes list" where
  "line_segs [] = []"
| "line_segs (c # cs) =
     (if c = newline then [c] # line_segs cs
      else (case line_segs cs of [] \<Rightarrow> [[c]] | s # ss \<Rightarrow> (c # s) # ss))"

definition ends_with_newline :: "bytes \<Rightarrow> bool" where
  "ends_with_newline s \<longleftrightarrow> s \<noteq> [] \<and> last s = newline"

definition strip_cr :: "bytes \<Rightarrow> bytes" where
  "strip_cr s = (if s \<noteq> [] \<and> last s = carriage_return then butlast s else s)"

definition strip_eol :: "bytes \<Rightarrow> bytes" where
  "strip_eol s = (if ends_with_newline s then strip_cr (butlast s) else s)"

definition rust_lines :: "bytes \<Rightarrow> bytes list" where
  "rust_lines s = map strip_eol (line_segs s)"

lemma line_segs_newline: "newline \<notin> set a \<Longrightarrow> line_segs (a @ newline # b) = (a @ [newline]) # line_segs b"
  by (induction a) auto

lemma line_segs_single: "newline \<notin> set a \<Longrightarrow> a \<noteq> [] \<Longrightarrow> line_segs a = [a]"
proof (induction a)
  case (Cons c a)
  then show ?case by (cases "a = []") auto
qed simp

lemma concat_line_segs: "concat (line_segs s) = s"
proof (induction s)
  case (Cons c s)
  then show ?case by (cases "line_segs s") auto
qed simp

text \<open>A text that ends with a newline splits independently of what follows.\<close>

lemma line_segs_append: "ends_with_newline a \<Longrightarrow> line_segs (a @ b) = line_segs a @ line_segs b"
proof (induction a)
  case (Cons c a)
  show ?case
  proof (cases "a = []")
    case True
    then show ?thesis using Cons.prems by (simp add: ends_with_newline_def)
  next
    case False
    then have e: "ends_with_newline a" using Cons.prems by (simp add: ends_with_newline_def)
    have "line_segs a \<noteq> []"
    proof
      assume "line_segs a = []"
      then have "a = []" using concat_line_segs [of a] by simp
      then show False using False by simp
    qed
    then obtain s ss where "line_segs a = s # ss" by (cases "line_segs a") auto
    then show ?thesis using Cons.IH [OF e] by simp
  qed
qed (simp add: ends_with_newline_def)

section \<open>Decimal numbers\<close>

definition digit_val :: "char \<Rightarrow> nat" where
  "digit_val c = (of_char c :: nat) - 48"

definition is_ascii_digit :: "char \<Rightarrow> bool" where
  "is_ascii_digit c = byte_in 48 57 c"

definition nat_of_digits :: "string \<Rightarrow> nat" where
  "nat_of_digits s = foldl (\<lambda>n c. 10 * n + digit_val c) 0 s"

lemma of_char_digit: "d < 10 \<Longrightarrow> (of_char (char_of (48 + d) :: char) :: nat) = 48 + d"
  by simp

lemma digit_val_char: "d < 10 \<Longrightarrow> digit_val (char_of (48 + d)) = d"
  by (simp add: digit_val_def)

lemma nat_of_digits_digits_of: "nat_of_digits (digits_of n) = n"
proof (induction n rule: digits_of.induct)
  case (1 n)
  show ?case
  proof (cases "n < 10")
    case True
    then show ?thesis by (simp add: digits_of.simps nat_of_digits_def digit_val_char)
  next
    case False
    then have "digits_of n = digits_of (n div 10) @ [char_of (48 + n mod 10)]"
      by (subst digits_of.simps) simp
    then have "nat_of_digits (digits_of n) = 10 * nat_of_digits (digits_of (n div 10)) + n mod 10"
      by (simp add: nat_of_digits_def digit_val_char)
    then show ?thesis using 1 False by simp
  qed
qed

lemma digits_of_inject [simp]: "digits_of m = digits_of n \<longleftrightarrow> m = n"
  by (metis nat_of_digits_digits_of)

lemma digits_of_digits: "c \<in> set (digits_of n) \<Longrightarrow> is_ascii_digit c"
proof (induction n rule: digits_of.induct)
  case (1 n)
  show ?case
  proof (cases "n < 10")
    case True
    then show ?thesis using 1 by (subst (asm) digits_of.simps) (simp add: is_ascii_digit_def byte_in_def)
  next
    case False
    moreover have "n mod 10 < 10" by simp
    ultimately show ?thesis using 1
      by (subst (asm) (2) digits_of.simps) (auto simp: is_ascii_digit_def byte_in_def)
  qed
qed

lemma digits_of_nonempty [simp]: "digits_of n \<noteq> []"
  by (subst digits_of.simps) simp

section \<open>Numbers in texts\<close>

text \<open>
  Parsing of an unsigned number (\<open>str::parse::<usize>\<close> and its relatives): an optional plus
  sign, then decimal digits only, and a value that fits.
\<close>

definition usize_max :: nat where "usize_max = 2 ^ 64 - 1"

definition parse_unsigned :: "nat \<Rightarrow> string \<Rightarrow> nat option" where
  "parse_unsigned limit s =
     (let ds = (case s of CHR ''+'' # r \<Rightarrow> r | _ \<Rightarrow> s)
      in if ds \<noteq> [] \<and> (\<forall>c \<in> set ds. is_ascii_digit c) \<and> nat_of_digits ds \<le> limit
         then Some (nat_of_digits ds) else None)"

lemma is_ascii_digit_plus [simp]: "\<not> is_ascii_digit (CHR ''+'')"
  by (simp add: is_ascii_digit_def byte_in_def)

lemma parse_unsigned_digits [simp]: "n \<le> limit \<Longrightarrow> parse_unsigned limit (digits_of n) = Some n"
proof -
  assume n: "n \<le> limit"
  obtain c cs where d: "digits_of n = c # cs" by (cases "digits_of n") simp_all
  then have "c \<noteq> CHR ''+''" using digits_of_digits [of c n] by auto
  then have "(case digits_of n of CHR ''+'' # r \<Rightarrow> r | _ \<Rightarrow> digits_of n) = digits_of n"
    using d by (simp split: list.split char.split bool.split)
  then show ?thesis
    using n digits_of_digits by (simp add: parse_unsigned_def nat_of_digits_digits_of)
qed

lemma parse_unsigned_bound: "parse_unsigned limit s = Some n \<Longrightarrow> n \<le> limit"
  by (auto simp: parse_unsigned_def Let_def split: if_splits)

section \<open>Characters\<close>

text \<open>The number of characters of a text, and the first \<open>n\<close> characters of a byte stream.\<close>

function char_count :: "bytes \<Rightarrow> nat" where
  "char_count [] = 0"
| "char_count (b # bs) = Suc (char_count (drop (snd (utf8_take b bs)) bs))"
  by pat_completeness auto
termination by (relation "measure length") auto

fun split_chars :: "nat \<Rightarrow> bytes \<Rightarrow> bytes \<times> bytes" where
  "split_chars 0 bs = ([], bs)"
| "split_chars (Suc n) [] = ([], [])"
| "split_chars (Suc n) (b # bs) =
     (let k = utf8_width b - 1; (xs, rest) = split_chars n (drop k bs) in (b # take k bs @ xs, rest))"

lemma utf8_take_width: "utf8_take b bs = (True, n) \<Longrightarrow> utf8_width b = Suc n \<and> n \<le> length bs"
proof -
  assume t: "utf8_take b bs = (True, n)"
  have w: "utf8_width b \<in> {0, 1, 2, 3, 4}" by (simp add: utf8_width_def)
  show ?thesis using t w
    by (auto simp: utf8_take_def Let_def split: if_splits list.splits)
qed

lemma split_chars_count: "utf8_valid s \<Longrightarrow> split_chars (char_count s) (s @ r) = (s, r)"
proof (induction s rule: utf8_valid.induct)
  case (2 b bs)
  obtain ok n where t: "utf8_take b bs = (ok, n)" by fastforce
  then have ok: "ok" and v: "utf8_valid (drop n bs)" using "2.prems" by simp_all
  have w: "utf8_width b = Suc n" "n \<le> length bs" using utf8_take_width t ok by auto
  have "split_chars (char_count (drop n bs)) (drop n bs @ r) = (drop n bs, r)"
    using "2.IH" [OF t [symmetric] refl] v by simp
  then show ?case using t w by simp
qed simp

section \<open>Splitting\<close>

text \<open>\<open>str::split\<close> and \<open>str::rsplit_once\<close> with a character.\<close>

fun split_all :: "char \<Rightarrow> string \<Rightarrow> string list" where
  "split_all c [] = [[]]"
| "split_all c (x # xs) =
     (if x = c then [] # split_all c xs
      else (case split_all c xs of [] \<Rightarrow> [[x]] | y # ys \<Rightarrow> (x # y) # ys))"

definition rsplit_once :: "char \<Rightarrow> string \<Rightarrow> (string \<times> string) option" where
  "rsplit_once c s = map_option (\<lambda>(a, b). (rev b, rev a)) (split_once c (rev s))"

lemma split_all_append: "c \<notin> set a \<Longrightarrow> split_all c (a @ c # b) = a # split_all c b"
  by (induction a) auto

lemma split_all_single: "c \<notin> set a \<Longrightarrow> split_all c a = [a]"
  by (induction a) auto

lemma rsplit_once_append: "c \<notin> set b \<Longrightarrow> rsplit_once c (a @ c # b) = Some (a, b)"
  by (simp add: rsplit_once_def split_once_append)

lemma split_all_no_separator: "x \<in> set (split_all c s) \<Longrightarrow> c \<notin> set x"
proof (induction c s arbitrary: x rule: split_all.induct)
  case (2 c y xs)
  then show ?case by (cases "split_all c xs") (auto split: if_splits)
qed simp

section \<open>Case\<close>

definition to_lower_char :: "char \<Rightarrow> char" where
  "to_lower_char c =
     (let n = (of_char c :: nat) in if 65 \<le> n \<and> n \<le> 90 then char_of (n + 32) else c)"

definition to_ascii_lowercase :: "string \<Rightarrow> string" where
  "to_ascii_lowercase s = map to_lower_char s"

section \<open>Joining, replacing and the debug form\<close>

fun join_with :: "string \<Rightarrow> string list \<Rightarrow> string" where
  "join_with sep [] = []"
| "join_with sep [x] = x"
| "join_with sep (x # y # zs) = x @ sep @ join_with sep (y # zs)"

lemma join_split_all: "join_with [c] (split_all c u) = u"
proof (induction u)
  case (Cons x u)
  then show ?case by (cases "split_all c u"; cases "tl (split_all c u)") (auto split: list.splits)
qed simp

text \<open>The debug form of a list of texts.\<close>

definition escape_char :: "char \<Rightarrow> string" where
  "escape_char c =
     (if c = CHR 0x22 then [CHR 0x5C, CHR 0x22] else if c = CHR 0x5C then [CHR 0x5C, CHR 0x5C]
      else if c = CHR 0x0A then [CHR 0x5C, CHR ''n''] else if c = CHR 0x0D then [CHR 0x5C, CHR ''r'']
      else if c = CHR 0x09 then [CHR 0x5C, CHR ''t''] else [c])"

definition debug_text :: "string \<Rightarrow> string" where
  "debug_text s = [CHR 0x22] @ concat (map escape_char s) @ [CHR 0x22]"

definition debug_list :: "string list \<Rightarrow> string" where
  "debug_list xs = ''['' @ join_with '', '' (map debug_text xs) @ '']''"

lemma strip_prefix_length: "strip_prefix p s = Some r \<Longrightarrow> length s = length p + length r"
  by (simp add: strip_prefix_iff)

text \<open>\<open>str::replace\<close>; the pattern is not empty.\<close>

function str_replace :: "string \<Rightarrow> string \<Rightarrow> string \<Rightarrow> string" where
  "str_replace pat rep [] = []"
| "str_replace pat rep (c # cs) =
     (case (if pat = [] then None else strip_prefix pat (c # cs)) of
        Some rest \<Rightarrow> rep @ str_replace pat rep rest
      | None \<Rightarrow> c # str_replace pat rep cs)"
  by pat_completeness auto
termination
  by (relation "measure (\<lambda>(_, _, s). length s)")
    (auto split: if_splits dest!: strip_prefix_length)

fun occurs_in :: "string \<Rightarrow> string \<Rightarrow> bool" where
  "occurs_in p [] = (p = [])"
| "occurs_in p (c # s) = (strip_prefix p (c # s) \<noteq> None \<or> occurs_in p s)"

lemma str_replace_absent: "\<not> occurs_in pat s \<Longrightarrow> str_replace pat rep s = s"
  by (induction pat rep s rule: str_replace.induct) auto

definition trim_start :: "string \<Rightarrow> string" where
  "trim_start s = dropWhile is_ascii_space s"

definition eq_ignore_case :: "string \<Rightarrow> string \<Rightarrow> bool" where
  "eq_ignore_case a b \<longleftrightarrow> to_ascii_lowercase a = to_ascii_lowercase b"

end
