(* ===== verification/Continuous_Ring.thy ===== *)
theory Continuous_Ring
  imports Rust_Text
begin

text \<open>
  The byte ring behind the in-memory logs, \<open>src/src/logging/continuous_ring.rs\<close>: a fixed
  buffer written modulo its capacity, addressed by offsets that never decrease, with an index
  of the complete lines. The specification is the history, the list of all bytes written so
  far: the ring holds its last \<open>capacity\<close> bytes and every reading operation is a reading of
  the history. Offsets are natural numbers; the code keeps them in 64 bits, which would take
  an output of eight exbibytes to exceed.
\<close>

section \<open>The ring\<close>

record ContinuousRingBuffer =
  rb_buffer :: bytes
  rb_capacity :: nat
  rb_cumulative_bytes :: nat
  rb_log_start_offset :: nat
  rb_line_indices :: "(nat \<times> nat) list"
  rb_current_line_start :: nat
  rb_max_line_index :: "nat option"

definition ring_new :: "nat \<Rightarrow> ContinuousRingBuffer" where
  "ring_new capacity =
     (let cap = max capacity 1
      in \<lparr>rb_buffer = replicate cap (CHR 0x00), rb_capacity = cap, rb_cumulative_bytes = 0,
          rb_log_start_offset = 0, rb_line_indices = [], rb_current_line_start = 0,
          rb_max_line_index = None\<rparr>)"

definition with_max_lines :: "nat \<Rightarrow> nat \<Rightarrow> ContinuousRingBuffer" where
  "with_max_lines capacity max_lines =
     (ring_new capacity)\<lparr>rb_max_line_index := Some (max max_lines 1)\<rparr>"

definition ring_byte_size :: "ContinuousRingBuffer \<Rightarrow> nat" where
  "ring_byte_size rb = rb_cumulative_bytes rb - rb_log_start_offset rb"

definition ring_line_count :: "ContinuousRingBuffer \<Rightarrow> nat" where
  "ring_line_count rb =
     length (rb_line_indices rb) +
     (if rb_current_line_start rb < rb_cumulative_bytes rb then 1 else 0)"

definition ring_is_empty :: "ContinuousRingBuffer \<Rightarrow> bool" where
  "ring_is_empty rb \<longleftrightarrow> rb_cumulative_bytes rb = rb_log_start_offset rb"

text \<open>Step 1 of a write: register the newlines of the data.\<close>

fun scan_newlines :: "nat \<Rightarrow> bytes \<Rightarrow> (nat \<times> nat) list \<Rightarrow> nat \<Rightarrow> (nat \<times> nat) list \<times> nat" where
  "scan_newlines pos [] idx cur = (idx, cur)"
| "scan_newlines pos (b # bs) idx cur =
     (if b = newline then scan_newlines (Suc pos) bs (idx @ [(cur, Suc pos)]) (Suc pos)
      else scan_newlines (Suc pos) bs idx cur)"

text \<open>Step 2: copy the data into the circular buffer; \<open>copy_from_slice\<close> at a position.\<close>

definition copy_at :: "nat \<Rightarrow> bytes \<Rightarrow> bytes \<Rightarrow> bytes" where
  "copy_at p xs buf = take p buf @ xs @ drop (p + length xs) buf"

definition store_bytes :: "nat \<Rightarrow> nat \<Rightarrow> bytes \<Rightarrow> bytes \<Rightarrow> bytes" where
  "store_bytes cap start_w data buf =
     (if cap \<le> length data
      then (let to_copy = drop (length data - cap) data;
                start_pos = (start_w + (length data - cap)) mod cap;
                first = cap - start_pos
            in copy_at 0 (drop first to_copy) (copy_at start_pos (take first to_copy) buf))
      else (let phys_start = start_w mod cap
            in if phys_start + length data \<le> cap then copy_at phys_start data buf
               else (let first = cap - phys_start
                     in copy_at 0 (drop first data) (copy_at phys_start (take first data) buf))))"

definition write_bytes :: "bytes \<Rightarrow> ContinuousRingBuffer \<Rightarrow> ContinuousRingBuffer" where
  "write_bytes data rb =
     (if data = [] then rb
      else (let cap = rb_capacity rb;
                (idx, cur) = scan_newlines (rb_cumulative_bytes rb) data (rb_line_indices rb)
                               (rb_current_line_start rb);
                buf = store_bytes cap (rb_cumulative_bytes rb) data (rb_buffer rb);
                cum = rb_cumulative_bytes rb + length data;
                start = (if cap < cum then cum - cap else 0);
                idx = dropWhile (\<lambda>e. fst e < start) idx;
                cur = (if cur < start then start else cur);
                idx = (case rb_max_line_index rb of
                         Some max_l \<Rightarrow> drop (length idx - max_l) idx | None \<Rightarrow> idx)
            in rb\<lparr>rb_buffer := buf, rb_cumulative_bytes := cum, rb_log_start_offset := start,
                  rb_line_indices := idx, rb_current_line_start := cur\<rparr>))"

definition write_line :: "bytes \<Rightarrow> ContinuousRingBuffer \<Rightarrow> ContinuousRingBuffer" where
  "write_line line rb =
     (if ends_with_newline line then write_bytes line rb
      else write_bytes [newline] (write_bytes line rb))"

text \<open>The bytes that \<open>copy_range\<close> appends to its output.\<close>

definition copy_range :: "nat \<Rightarrow> nat \<Rightarrow> ContinuousRingBuffer \<Rightarrow> bytes" where
  "copy_range start end rb =
     (let eff_start = max start (rb_log_start_offset rb);
          eff_end = min end (rb_cumulative_bytes rb)
      in if eff_end \<le> eff_start then []
         else (let len = eff_end - eff_start;
                   phys_start = eff_start mod rb_capacity rb;
                   phys_end = eff_end mod rb_capacity rb;
                   buf = rb_buffer rb
               in if phys_start < phys_end then drop phys_start (take phys_end buf)
                  else if phys_start = phys_end \<and> len = rb_capacity rb
                  then drop phys_start buf @ take phys_start buf
                  else drop phys_start buf @ take phys_end buf))"

definition ring_clear :: "ContinuousRingBuffer \<Rightarrow> ContinuousRingBuffer" where
  "ring_clear rb = rb\<lparr>rb_cumulative_bytes := 0, rb_log_start_offset := 0,
     rb_current_line_start := 0, rb_line_indices := []\<rparr>"

definition seed :: "bytes \<Rightarrow> nat \<Rightarrow> ContinuousRingBuffer \<Rightarrow> ContinuousRingBuffer" where
  "seed data total_file_size rb =
     (let rb = ring_clear rb
      in if 0 < total_file_size \<and> data \<noteq> []
         then (let seed_start = total_file_size - length data
               in (write_bytes data
                     (rb\<lparr>rb_cumulative_bytes := seed_start, rb_current_line_start := seed_start\<rparr>))
                   \<lparr>rb_cumulative_bytes := total_file_size\<rparr>)
         else rb\<lparr>rb_cumulative_bytes := total_file_size, rb_log_start_offset := total_file_size,
                 rb_current_line_start := total_file_size\<rparr>)"

text \<open>The line intervals that a reading of at most \<open>max_lines\<close> lines selects.\<close>

definition selected_lines :: "nat option \<Rightarrow> ContinuousRingBuffer \<Rightarrow> (nat \<times> nat) list" where
  "selected_lines max_lines rb =
     (let has_trailing = rb_current_line_start rb < rb_cumulative_bytes rb;
          total_lines = length (rb_line_indices rb) + (if has_trailing then 1 else 0);
          k = min (case max_lines of Some m \<Rightarrow> m | None \<Rightarrow> total_lines) total_lines;
          skip = total_lines - k;
          complete_skip = min skip (length (rb_line_indices rb));
          sel = take k (drop complete_skip (rb_line_indices rb))
      in if has_trailing \<and> length sel < k
         then sel @ [(rb_current_line_start rb, rb_cumulative_bytes rb)] else sel)"

definition slice_line :: "nat \<Rightarrow> bytes \<Rightarrow> nat \<times> nat \<Rightarrow> bytes list" where
  "slice_line first_start data se =
     (let rel_s = fst se - first_start;
          rel_e = min (snd se - first_start) (length data)
      in if rel_e < rel_s then [] else [strip_eol (drop rel_s (take rel_e data))])"

definition read_line_slices :: "nat option \<Rightarrow> ContinuousRingBuffer \<Rightarrow> bytes list" where
  "read_line_slices max_lines rb =
     (let selected = selected_lines max_lines rb
      in if selected = [] then []
         else (let first_start = fst (hd selected); last_end = snd (last selected)
               in if last_end - first_start = 0 then []
                  else (let frozen = copy_range first_start last_end rb
                        in if utf8_valid frozen
                           then concat (map (slice_line first_start frozen) selected)
                           else rust_lines (utf8_lossy frozen))))"

definition ring_read_bytes :: "int \<Rightarrow> int \<Rightarrow> ContinuousRingBuffer \<Rightarrow> bytes \<times> int \<times> bool" where
  "ring_read_bytes offset len0 rb =
     (let total_sz = int (rb_cumulative_bytes rb);
          retained_sz = rb_cumulative_bytes rb - rb_log_start_offset rb;
          oldest = int (rb_log_start_offset rb);
          len = max len0 0;
          bounded = (\<lambda>rem. if len = 0 then rem else min (nat len) rem);
          reading = (\<lambda>start_off to_read overflow.
            (utf8_lossy (copy_range (nat start_off) (nat (start_off + int to_read)) rb), total_sz, overflow))
      in if offset < 0
         then (let target = total_sz + offset;
                   actual_start = (if target < oldest then oldest else target)
               in reading actual_start (bounded (nat (total_sz - actual_start))) (target < oldest))
         else if offset < oldest then reading oldest (min (nat len) retained_sz) True
         else if total_sz \<le> offset then ([], total_sz, False)
         else reading offset (bounded (nat (total_sz - offset))) False)"

definition ring_tail_bytes :: "int \<Rightarrow> int \<Rightarrow> ContinuousRingBuffer \<Rightarrow> bytes \<times> int \<times> bool" where
  "ring_tail_bytes offset len0 rb =
     (let total_sz = int (rb_cumulative_bytes rb);
          retained_sz = rb_cumulative_bytes rb - rb_log_start_offset rb;
          oldest = int (rb_log_start_offset rb);
          len = max len0 0
      in if offset = 0
         then (let actual_len = (if len = 0 then retained_sz else min (nat len) retained_sz);
                   start = max (total_sz - int actual_len) oldest
               in (utf8_lossy (copy_range (nat start) (nat total_sz) rb), total_sz,
                   int actual_len < total_sz))
         else (let overflow = offset < oldest;
                   off = (if overflow then oldest else offset)
               in if total_sz \<le> off then ([], total_sz, False)
                  else (let to_read = (if len = 0 then nat (total_sz - off)
                                       else min (nat len) (nat (total_sz - off)))
                        in (utf8_lossy (copy_range (nat off) (nat (off + int to_read)) rb),
                            off + int to_read, overflow))))"

definition snapshot_bytes :: "ContinuousRingBuffer \<Rightarrow> bytes" where
  "snapshot_bytes rb = copy_range (rb_log_start_offset rb) (rb_cumulative_bytes rb) rb"

section \<open>The circular buffer\<close>

lemma mod_shift:
  fixes p t cap :: nat
  assumes "p < cap" and "t < cap"
  shows "(p + t) mod cap = (if p + t < cap then p + t else p + t - cap)"
  using assms by (simp add: mod_if)

lemma mod_offset:
  fixes w t cap :: nat
  assumes "t < cap"
  shows "(w + t) mod cap = (if w mod cap + t < cap then w mod cap + t else w mod cap + t - cap)"
proof -
  have "(w + t) mod cap = (w mod cap + t) mod cap" by (simp add: mod_add_left_eq)
  also have "\<dots> = (if w mod cap + t < cap then w mod cap + t else w mod cap + t - cap)"
    using assms by (intro mod_shift) simp_all
  finally show ?thesis .
qed

lemma copy_at_length [simp]: "p + length xs \<le> length buf \<Longrightarrow> length (copy_at p xs buf) = length buf"
  by (simp add: copy_at_def)

lemma copy_at_nth:
  assumes "p + length xs \<le> length buf" and "j < length buf"
  shows "copy_at p xs buf ! j = (if p \<le> j \<and> j < p + length xs then xs ! (j - p) else buf ! j)"
  using assms by (auto simp: copy_at_def nth_append)

text \<open>Data that fits is written in one piece or wraps around once.\<close>

definition put_bytes :: "nat \<Rightarrow> bytes \<Rightarrow> bytes \<Rightarrow> bytes" where
  "put_bytes p data buf =
     copy_at 0 (drop (length buf - p) data) (copy_at p (take (length buf - p) data) buf)"

lemma put_bytes_length:
  assumes "p \<le> length buf" and "length data \<le> length buf" shows "length (put_bytes p data buf) = length buf"
  using assms by (simp add: put_bytes_def)

lemma put_bytes_nth:
  assumes "p < length buf" and "length data \<le> length buf" and "j < length buf"
  shows "put_bytes p data buf ! j =
     (if p \<le> j \<and> j < p + length data then data ! (j - p)
      else if j + length buf < p + length data then data ! (j + length buf - p) else buf ! j)"
proof -
  let ?c = "length buf"
  let ?b = "copy_at p (take (?c - p) data) buf"
  have b: "length ?b = ?c" using assms by simp
  have bj: "?b ! j = (if p \<le> j \<and> j < p + min (length data) (?c - p) then data ! (j - p) else buf ! j)"
    using assms by (simp add: copy_at_nth min.commute)
  have "put_bytes p data buf ! j = (if j < length data - (?c - p) then drop (?c - p) data ! j else ?b ! j)"
    unfolding put_bytes_def using assms b by (subst copy_at_nth) simp_all
  then show ?thesis using assms bj by (auto simp: add.commute)
qed

lemma store_bytes_put:
  assumes "length buf = cap" and "0 < cap"
  shows "store_bytes cap w data buf =
     (if cap \<le> length data then put_bytes ((w + (length data - cap)) mod cap) (drop (length data - cap) data) buf
      else put_bytes (w mod cap) data buf)"
proof -
  have "copy_at 0 [] xs = xs" for xs by (simp add: copy_at_def)
  then show ?thesis using assms by (simp add: store_bytes_def put_bytes_def Let_def)
qed

lemma put_mod_nth:
  assumes "0 < length buf" and "length data \<le> length buf"
    and "w + length data \<le> i + length buf" and "i < w + length data"
  shows "put_bytes (w mod length buf) data buf ! (i mod length buf) =
     (if i < w then buf ! (i mod length buf) else data ! (i - w))"
proof -
  let ?c = "length buf" let ?p = "w mod length buf"
  have p: "?p < ?c" using assms(1) by simp
  show ?thesis
  proof (cases "i < w")
    case True
    define t where "t = w - i"
    have t: "0 < t" "t + length data \<le> ?c" "w = i + t" using True assms(3) by (auto simp: t_def)
    show ?thesis
    proof (cases "t < ?c")
      case True
      have "?p = (if i mod ?c + t < ?c then i mod ?c + t else i mod ?c + t - ?c)"
        using mod_offset [OF True, of i] t(3) by simp
      moreover have "i mod ?c < ?c" using assms(1) by simp
      ultimately show ?thesis using \<open>i < w\<close> t(1,2) assms(2) p
        by (subst put_bytes_nth) (auto split: if_splits)
    next
      case False
      then have "length data = 0" using t(2) by linarith
      then have "data = []" by simp
      then show ?thesis using \<open>i < w\<close> by (simp add: put_bytes_def copy_at_def)
    qed
  next
    case False
    define t where "t = i - w"
    have t: "t < length data" "i = w + t" using False assms(4) by (auto simp: t_def)
    have "i mod ?c = (if ?p + t < ?c then ?p + t else ?p + t - ?c)"
      using mod_offset [of t ?c w] t assms(2) by simp
    moreover have "i mod ?c < ?c" using assms(1) by simp
    ultimately show ?thesis using False t assms(2) p
      by (subst put_bytes_nth) (auto split: if_splits)
  qed
qed

lemma store_bytes_nth:
  assumes "length buf = cap" and "0 < cap" and "w + length data \<le> i + cap" and "i < w + length data"
  shows "store_bytes cap w data buf ! (i mod cap) = (if i < w then buf ! (i mod cap) else data ! (i - w))"
proof (cases "cap \<le> length data")
  case True
  let ?k = "length data - cap"
  have i: "\<not> i < w + ?k" "\<not> i < w" using assms(3) True by linarith+
  have "put_bytes ((w + ?k) mod cap) (drop ?k data) buf ! (i mod cap) = drop ?k data ! (i - (w + ?k))"
    using put_mod_nth [of buf "drop ?k data" "w + ?k" i] assms True i by simp
  moreover have "drop ?k data ! (i - (w + ?k)) = data ! (i - w)" using assms True i by simp
  ultimately show ?thesis using assms True i by (simp add: store_bytes_put)
next
  case False
  then show ?thesis using put_mod_nth [of buf data w i] assms by (simp add: store_bytes_put)
qed

lemma store_bytes_length:
  assumes "length buf = cap" and "0 < cap" shows "length (store_bytes cap w data buf) = cap"
proof -
  have "x mod cap \<le> length buf" for x using assms mod_less_divisor [of cap x] by simp
  then show ?thesis using assms by (simp add: store_bytes_put put_bytes_length)
qed

section \<open>The ring and its history\<close>

text \<open>
  The history begins at offset \<open>base\<close>, which is 0 unless the ring was seeded from a file;
  \<open>seg base hist a b\<close> are its bytes from offset \<open>a\<close> to offset \<open>b\<close>.
\<close>

definition seg :: "nat \<Rightarrow> bytes \<Rightarrow> nat \<Rightarrow> nat \<Rightarrow> bytes" where
  "seg base hist a b = drop (a - base) (take (b - base) hist)"

definition line_at :: "nat \<Rightarrow> bytes \<Rightarrow> nat \<Rightarrow> nat \<Rightarrow> bool" where
  "line_at base hist a b \<longleftrightarrow>
     base \<le> a \<and> a < b \<and> b \<le> base + length hist \<and>
     (\<exists>l. seg base hist a b = l @ [newline] \<and> newline \<notin> set l)"

text \<open>Adjacent lines from one offset to another.\<close>

fun line_chain :: "nat \<Rightarrow> bytes \<Rightarrow> nat \<Rightarrow> (nat \<times> nat) list \<Rightarrow> nat \<Rightarrow> bool" where
  "line_chain base hist lo [] c \<longleftrightarrow> lo = c"
| "line_chain base hist lo (se # idx) c \<longleftrightarrow>
     fst se = lo \<and> line_at base hist lo (snd se) \<and> line_chain base hist (snd se) idx c"

text \<open>
  The lines: from an offset \<open>lo\<close> on, the index lists all complete lines and the rest is the
  line in progress. Without a limit on the number of lines, what lies before \<open>lo\<close> is at most
  the rest of one line whose beginning has been overwritten.
\<close>

definition lines_inv :: "nat \<Rightarrow> bytes \<Rightarrow> nat \<Rightarrow> ContinuousRingBuffer \<Rightarrow> bool" where
  "lines_inv base hist lo rb \<longleftrightarrow>
     rb_log_start_offset rb \<le> lo \<and>
     line_chain base hist lo (rb_line_indices rb) (rb_current_line_start rb) \<and>
     rb_current_line_start rb \<le> rb_cumulative_bytes rb \<and>
     newline \<notin> set (seg base hist (rb_current_line_start rb) (rb_cumulative_bytes rb)) \<and>
     (rb_max_line_index rb = None \<longrightarrow>
        newline \<notin> set (seg base hist (rb_log_start_offset rb) (lo - 1)) \<and>
        (rb_log_start_offset rb = 0 \<longrightarrow> lo = 0))"

definition bytes_inv :: "nat \<Rightarrow> bytes \<Rightarrow> ContinuousRingBuffer \<Rightarrow> bool" where
  "bytes_inv base hist rb \<longleftrightarrow>
     0 < rb_capacity rb \<and> length (rb_buffer rb) = rb_capacity rb \<and>
     rb_cumulative_bytes rb = base + length hist \<and>
     rb_log_start_offset rb = rb_cumulative_bytes rb - rb_capacity rb \<and>
     base \<le> rb_log_start_offset rb \<and>
     (\<forall>i. rb_log_start_offset rb \<le> i \<and> i < rb_cumulative_bytes rb \<longrightarrow>
        rb_buffer rb ! (i mod rb_capacity rb) = hist ! (i - base))"

definition ring_inv :: "nat \<Rightarrow> bytes \<Rightarrow> ContinuousRingBuffer \<Rightarrow> bool" where
  "ring_inv base hist rb \<longleftrightarrow> bytes_inv base hist rb \<and> (\<exists>lo. lines_inv base hist lo rb)"

subsection \<open>Reading a range\<close>

lemma mod_distance:
  fixes a b cap :: nat
  assumes "a < b" and "b - a \<le> cap"
  shows "b - a = (if a mod cap < b mod cap then b mod cap - a mod cap else cap - a mod cap + b mod cap)"
proof (cases "b - a = cap")
  case True
  then have "b = a + cap" using assms by simp
  moreover have "a mod cap < cap" using True assms by simp
  ultimately show ?thesis by simp
next
  case False
  define t where "t = b - a"
  have t: "t < cap" "0 < t" "b = a + t" using False assms by (auto simp: t_def)
  have "b mod cap = (if a mod cap + t < cap then a mod cap + t else a mod cap + t - cap)"
    using mod_offset [OF t(1)] t(3) by simp
  moreover have "a mod cap < cap" using t by simp
  ultimately show ?thesis using t by (auto split: if_splits)
qed

lemma seg_length: "length (seg base hist a b) = min (b - base) (length hist) - (a - base)"
  by (simp add: seg_def min.commute)

lemma seg_nth:
  assumes "j < length (seg base hist a b)" shows "seg base hist a b ! j = hist ! (a - base + j)"
proof -
  have "a - base + j < b - base" "a - base + j < length hist" using assms by (auto simp: seg_length)
  then show ?thesis by (simp add: seg_def)
qed

lemma copy_range_seg:
  assumes inv: "bytes_inv base hist rb"
  shows "copy_range s e rb = seg base hist (max s (rb_log_start_offset rb)) (min e (rb_cumulative_bytes rb))"
proof -
  define a where "a = max s (rb_log_start_offset rb)"
  define b where "b = min e (rb_cumulative_bytes rb)"
  let ?c = "rb_capacity rb" let ?buf = "rb_buffer rb"
  have i: "0 < ?c" "length ?buf = ?c" "rb_cumulative_bytes rb = base + length hist"
    "rb_log_start_offset rb = rb_cumulative_bytes rb - ?c" "base \<le> rb_log_start_offset rb"
    using inv unfolding bytes_inv_def by blast+
  have nth: "?buf ! (j mod ?c) = hist ! (j - base)" if "rb_log_start_offset rb \<le> j" "j < rb_cumulative_bytes rb" for j
    using inv that by (simp add: bytes_inv_def)
  show ?thesis
  proof (cases "a < b")
    case False
    then have "copy_range s e rb = []"
      unfolding copy_range_def Let_def a_def [symmetric] b_def [symmetric] by simp
    moreover have "seg base hist a b = []" using False by (simp add: seg_def)
    ultimately show ?thesis by (simp add: a_def b_def)
  next
    case True
    have ab: "base \<le> a" "b \<le> base + length hist" "b - a \<le> ?c" "rb_log_start_offset rb \<le> a"
      using i by (auto simp: a_def b_def)
    note d = mod_distance [OF True ab(3)]
    have mods: "a mod ?c < ?c" "b mod ?c < ?c" using i(1) by simp_all
    define r where "r = (if a mod ?c < b mod ?c then drop (a mod ?c) (take (b mod ?c) ?buf)
                         else drop (a mod ?c) ?buf @ take (b mod ?c) ?buf)"
    have "copy_range s e rb = r"
      using True unfolding copy_range_def Let_def a_def [symmetric] b_def [symmetric] r_def by simp
    moreover have "r = seg base hist a b"
    proof (rule nth_equalityI)
      show len: "length r = length (seg base hist a b)"
        using d mods i(2) ab True by (auto simp: r_def seg_length split: if_splits)
      fix t
      assume "t < length r"
      then have t: "t < b - a" using len ab True by (simp add: seg_length)
      have "(a + t) mod ?c = (if a mod ?c + t < ?c then a mod ?c + t else a mod ?c + t - ?c)"
        using t ab(3) by (intro mod_offset) simp
      then have "r ! t = ?buf ! ((a + t) mod ?c)"
        using t d mods i(2) by (auto simp: r_def nth_append add.commute split: if_splits)
      also have "\<dots> = hist ! (a + t - base)" using t ab by (intro nth) (auto simp: b_def)
      also have "\<dots> = seg base hist a b ! t" using t ab len by (simp add: seg_nth seg_length)
      finally show "r ! t = seg base hist a b ! t" .
    qed
    ultimately show ?thesis by (simp add: a_def b_def)
  qed
qed

subsection \<open>Writing keeps the invariant\<close>

lemma seg_extend: "b \<le> base + length hist \<Longrightarrow> seg base (hist @ data) a b = seg base hist a b"
  by (simp add: seg_def)

lemma line_at_extend: "line_at base hist a b \<Longrightarrow> line_at base (hist @ data) a b"
  by (auto simp: line_at_def seg_extend)

lemma line_chain_extend: "line_chain base hist lo idx c \<Longrightarrow> line_chain base (hist @ data) lo idx c"
  by (induction idx arbitrary: lo) (auto intro: line_at_extend)

lemma line_chain_snoc:
  "line_chain base hist lo idx a \<Longrightarrow> line_at base hist a b \<Longrightarrow> line_chain base hist lo (idx @ [(a, b)]) b"
  by (induction idx arbitrary: lo) auto

lemma line_chain_le: "line_chain base hist lo idx c \<Longrightarrow> lo \<le> c"
proof (induction idx arbitrary: lo)
  case (Cons se idx)
  then have "snd se \<le> c" "lo < snd se" by (auto simp: line_at_def)
  then show ?case by simp
qed simp

lemma scan_newlines_chain:
  assumes "line_chain base hist lo idx cur" and "base \<le> cur" and "cur \<le> base + length hist"
    and "newline \<notin> set (seg base hist cur (base + length hist))"
    and "scan_newlines (base + length hist) data idx cur = (idx', cur')"
  shows "line_chain base (hist @ data) lo idx' cur' \<and> cur \<le> cur' \<and> cur' \<le> base + length (hist @ data) \<and>
     newline \<notin> set (seg base (hist @ data) cur' (base + length (hist @ data)))"
  using assms
proof (induction data arbitrary: hist idx cur)
  case (Cons b bs)
  let ?n = "base + length hist"
  have chain: "line_chain base (hist @ [b]) lo idx cur" using Cons.prems(1) by (rule line_chain_extend)
  have sg: "seg base (hist @ [b]) cur (Suc ?n) = seg base hist cur ?n @ [b]"
    using Cons.prems(2,3) by (simp add: seg_def)
  have n: "Suc ?n = base + length (hist @ [b])" by simp
  show ?case
  proof (cases "b = newline")
    case True
    have "line_at base (hist @ [b]) cur (Suc ?n)"
      using Cons.prems(2-4) True sg by (auto simp: line_at_def)
    then have c: "line_chain base (hist @ [b]) lo (idx @ [(cur, Suc ?n)]) (Suc ?n)"
      using chain by (rule line_chain_snoc [rotated])
    have "newline \<notin> set (seg base (hist @ [b]) (Suc ?n) (base + length (hist @ [b])))"
      by (simp add: seg_def)
    then have "line_chain base ((hist @ [b]) @ bs) lo idx' cur' \<and> Suc ?n \<le> cur' \<and>
        cur' \<le> base + length ((hist @ [b]) @ bs) \<and>
        newline \<notin> set (seg base ((hist @ [b]) @ bs) cur' (base + length ((hist @ [b]) @ bs)))"
      using Cons.prems(5) True by (intro Cons.IH [OF c]) simp_all
    then show ?thesis using Cons.prems(3) by simp
  next
    case False
    have "newline \<notin> set (seg base (hist @ [b]) cur (base + length (hist @ [b])))"
      using sg False Cons.prems(4) by (simp flip: n)
    then show ?thesis using Cons.IH [OF chain Cons.prems(2)] Cons.prems(3,5) False by simp
  qed
qed auto

lemma seg_subset: "a \<le> a' \<Longrightarrow> b' \<le> b \<Longrightarrow> set (seg base hist a' b') \<subseteq> set (seg base hist a b)"
proof
  fix x
  assume le: "a \<le> a'" "b' \<le> b" and "x \<in> set (seg base hist a' b')"
  then obtain j where j: "j < length (seg base hist a' b')" "x = seg base hist a' b' ! j"
    by (metis in_set_conv_nth)
  then have x: "x = hist ! (a' - base + j)" by (simp add: seg_nth)
  define k where "k = a' - base + j - (a - base)"
  have k: "a' - base + j = a - base + k" using le by (simp add: k_def)
  have "a' - base + j < min (b' - base) (length hist)" using j(1) unfolding seg_length by linarith
  also have "\<dots> \<le> min (b - base) (length hist)" using le by simp
  finally have "k < length (seg base hist a b)" using k unfolding seg_length by linarith
  moreover from this have "seg base hist a b ! k = x" by (simp add: seg_nth x k)
  ultimately show "x \<in> set (seg base hist a b)" by (auto simp: in_set_conv_nth)
qed

text \<open>Dropping the lines that begin before \<open>start\<close> leaves out at most the rest of one line.\<close>

lemma dropWhile_chain:
  assumes "line_chain base hist lo idx cur"
  obtains lo' where "line_chain base hist lo' (dropWhile (\<lambda>e. fst e < start) idx) cur" and "lo \<le> lo'"
    and "start \<le> lo' \<or> dropWhile (\<lambda>e. fst e < start) idx = [] \<and> lo' = cur"
    and "newline \<notin> set (seg base hist start (lo - 1)) \<Longrightarrow> newline \<notin> set (seg base hist start (lo' - 1))"
    and "start \<le> lo \<Longrightarrow> lo' = lo"
proof -
  let ?dw = "dropWhile (\<lambda>e. fst e < start)"
  let ?P = "\<lambda>lo idx lo'. line_chain base hist lo' (?dw idx) cur \<and> lo \<le> lo' \<and>
      (start \<le> lo' \<or> ?dw idx = [] \<and> lo' = cur) \<and>
      (newline \<notin> set (seg base hist start (lo - 1)) \<longrightarrow> newline \<notin> set (seg base hist start (lo' - 1))) \<and>
      (start \<le> lo \<longrightarrow> lo' = lo)"
  have "\<exists>lo'. ?P lo idx lo'"
    using assms
  proof (induction idx arbitrary: lo)
    case (Cons se idx)
    show ?case
    proof (cases "lo < start")
      case True
      have la: "line_at base hist lo (snd se)" and ch: "line_chain base hist (snd se) idx cur"
        and f: "fst se = lo" using Cons.prems by auto
      obtain l where l: "seg base hist lo (snd se) = l @ [newline]" "newline \<notin> set l"
        and b: "base \<le> lo" "lo < snd se" "snd se \<le> base + length hist"
        using la unfolding line_at_def by blast
      have "seg base hist lo (snd se - 1) = butlast (seg base hist lo (snd se))"
        using b by (simp add: seg_def butlast_drop butlast_take)
      then have "newline \<notin> set (seg base hist start (snd se - 1))"
        using seg_subset [of lo start "snd se - 1" "snd se - 1" base hist] True l by auto
      moreover obtain lo' where "?P (snd se) idx lo'" using Cons.IH [OF ch] by blast
      ultimately have "?P lo (se # idx) lo'" using True f b(2) by simp
      then show ?thesis by blast
    next
      case False
      then show ?thesis using Cons.prems by (intro exI [of _ lo]) auto
    qed
  qed auto
  then show thesis using that by blast
qed

lemma line_chain_drop:
  assumes "line_chain base hist lo idx cur"
  obtains lo' where "line_chain base hist lo' (drop n idx) cur" and "lo \<le> lo'" and "n = 0 \<Longrightarrow> lo' = lo"
proof -
  have "\<exists>lo'. line_chain base hist lo' (drop n idx) cur \<and> lo \<le> lo' \<and> (n = 0 \<longrightarrow> lo' = lo)"
    using assms
  proof (induction n arbitrary: lo idx)
    case (Suc n)
    show ?case
    proof (cases idx)
      case (Cons se idx')
      then have "line_chain base hist (snd se) idx' cur" "lo < snd se"
        using Suc.prems by (auto simp: line_at_def)
      then show ?thesis using Suc.IH [of "snd se" idx'] Cons by fastforce
    qed (use Suc.prems in auto)
  qed auto
  then show thesis using that by blast
qed

lemma write_bytes_bytes_inv:
  assumes "bytes_inv base hist rb" shows "bytes_inv base (hist @ data) (write_bytes data rb)"
proof (cases "data = []")
  case False
  let ?rb = "write_bytes data rb" let ?c = "rb_capacity rb" let ?w = "rb_cumulative_bytes rb"
  have i: "0 < ?c" "length (rb_buffer rb) = ?c" "?w = base + length hist"
    "rb_log_start_offset rb = ?w - ?c" "base \<le> rb_log_start_offset rb"
    using assms unfolding bytes_inv_def by blast+
  have f: "rb_buffer ?rb = store_bytes ?c ?w data (rb_buffer rb)" "rb_capacity ?rb = ?c"
    "rb_cumulative_bytes ?rb = ?w + length data" "rb_log_start_offset ?rb = ?w + length data - ?c"
    using False by (simp_all add: write_bytes_def Let_def split_beta)
  have "rb_buffer ?rb ! (j mod ?c) = (hist @ data) ! (j - base)"
    if "?w + length data - ?c \<le> j" "j < ?w + length data" for j
  proof (cases "j < ?w")
    case True
    then have "rb_log_start_offset rb \<le> j" using that i(4) by simp
    then have "rb_buffer rb ! (j mod ?c) = hist ! (j - base)" using assms True by (simp add: bytes_inv_def)
    moreover have "j - base < length hist" using True i(3,5) \<open>rb_log_start_offset rb \<le> j\<close> by simp
    ultimately show ?thesis using that True i(1,2) by (simp add: f store_bytes_nth nth_append)
  next
    case j: False
    have "rb_buffer ?rb ! (j mod ?c) = data ! (j - ?w)"
      unfolding f(1) using that j i by (subst store_bytes_nth) auto
    moreover have "\<not> j - base < length hist" "j - base - length hist = j - ?w" using j i(3) by simp_all
    ultimately show ?thesis by (simp add: nth_append)
  qed
  moreover have "length (rb_buffer ?rb) = ?c" using i(1,2) by (simp add: f store_bytes_length)
  ultimately show ?thesis using i unfolding bytes_inv_def f by auto
qed (use assms in \<open>simp add: write_bytes_def\<close>)

lemma write_bytes_lines_inv:
  assumes b: "bytes_inv base hist rb" and l: "lines_inv base hist lo rb"
  obtains lo' where "lines_inv base (hist @ data) lo' (write_bytes data rb)"
proof (cases "data = []")
  case True
  then show thesis using that [of lo] l by (simp add: write_bytes_def)
next
  case False
  let ?h = "hist @ data" let ?rb = "write_bytes data rb"
  have i: "rb_cumulative_bytes rb = base + length hist" "rb_log_start_offset rb = rb_cumulative_bytes rb - rb_capacity rb"
    "base \<le> rb_log_start_offset rb" using b unfolding bytes_inv_def by blast+
  have li: "rb_log_start_offset rb \<le> lo" "line_chain base hist lo (rb_line_indices rb) (rb_current_line_start rb)"
    "rb_current_line_start rb \<le> base + length hist"
    "newline \<notin> set (seg base hist (rb_current_line_start rb) (base + length hist))"
    using l i(1) by (simp_all add: lines_inv_def)
  obtain idx cur where sc: "scan_newlines (base + length hist) data (rb_line_indices rb)
      (rb_current_line_start rb) = (idx, cur)" by fastforce
  have "base \<le> rb_current_line_start rb" using line_chain_le [OF li(2)] li(1) i(3) by simp
  note sn = scan_newlines_chain [OF li(2) this li(3,4) sc]
  define start where "start = base + length hist + length data - rb_capacity rb"
  have st: "start \<le> base + length ?h" "rb_log_start_offset rb \<le> start" using i by (simp_all add: start_def)
  obtain lo1 where lo1: "line_chain base ?h lo1 (dropWhile (\<lambda>e. fst e < start) idx) cur" "lo \<le> lo1"
    "start \<le> lo1 \<or> dropWhile (\<lambda>e. fst e < start) idx = [] \<and> lo1 = cur"
    "newline \<notin> set (seg base ?h start (lo - 1)) \<Longrightarrow> newline \<notin> set (seg base ?h start (lo1 - 1))"
    "start \<le> lo \<Longrightarrow> lo1 = lo"
    using dropWhile_chain [of base ?h lo idx cur start] sn by blast
  define lo2 where "lo2 = max lo1 start"
  define cur2 where "cur2 = (if cur < start then start else cur)"
  have le: "lo1 \<le> cur" using line_chain_le [OF lo1(1)] .
  have c2: "line_chain base ?h lo2 (dropWhile (\<lambda>e. fst e < start) idx) cur2"
  proof (cases "start \<le> lo1")
    case True
    then show ?thesis using lo1(1) le by (simp add: lo2_def cur2_def max_def)
  next
    case False
    then have "dropWhile (\<lambda>e. fst e < start) idx = []" "lo1 = cur" using lo1(3) by blast+
    then show ?thesis using False by (simp only: lo2_def cur2_def max_def) simp
  qed
  have cur2: "cur2 \<le> base + length ?h" "cur \<le> cur2" using sn st by (auto simp: cur2_def)
  have nl: "newline \<notin> set (seg base ?h cur2 (base + length ?h))"
    using sn seg_subset [OF cur2(2) order.refl, of base ?h] by blast
  define m where "m = (case rb_max_line_index rb of
      Some k \<Rightarrow> length (dropWhile (\<lambda>e. fst e < start) idx) - k | None \<Rightarrow> 0)"
  obtain lo3 where lo3: "line_chain base ?h lo3 (drop m (dropWhile (\<lambda>e. fst e < start) idx)) cur2" "lo2 \<le> lo3"
    "m = 0 \<Longrightarrow> lo3 = lo2"
    using line_chain_drop [OF c2, of m] by blast
  have f: "rb_line_indices ?rb = drop m (dropWhile (\<lambda>e. fst e < start) idx)"
    "rb_current_line_start ?rb = cur2" "rb_log_start_offset ?rb = start"
    "rb_cumulative_bytes ?rb = base + length ?h" "rb_max_line_index ?rb = rb_max_line_index rb"
    using False sc by (auto simp: write_bytes_def Let_def i(1) start_def cur2_def m_def split: option.split)
  have lim: "newline \<notin> set (seg base ?h start (lo3 - 1)) \<and> (start = 0 \<longrightarrow> lo3 = 0)"
    if "rb_max_line_index rb = None"
  proof -
    have m: "lo3 = lo2" using lo3(3) that by (simp add: m_def)
    have "newline \<notin> set (seg base hist (rb_log_start_offset rb) (lo - 1))"
      and z: "rb_log_start_offset rb = 0 \<longrightarrow> lo = 0"
      using l that by (simp_all add: lines_inv_def)
    moreover have "lo - 1 \<le> base + length hist" using line_chain_le [OF li(2)] li(3) by simp
    ultimately have "newline \<notin> set (seg base ?h start (lo - 1))"
      using seg_subset [OF st(2) order.refl, of base hist "lo - 1"] by (auto simp: seg_extend)
    then have n1: "newline \<notin> set (seg base ?h start (lo1 - 1))" by (rule lo1(4))
    have "newline \<notin> set (seg base ?h start (lo2 - 1))"
    proof (cases "lo1 < start")
      case True
      then have "seg base ?h start (lo2 - 1) = []" by (simp add: lo2_def seg_def max_def)
      then show ?thesis by simp
    qed (use n1 in \<open>simp add: lo2_def\<close>)
    moreover have "lo2 = 0" if "start = 0" using that st z lo1(5) by (simp add: lo2_def)
    ultimately show ?thesis using m by simp
  qed
  have "lines_inv base ?h lo3 ?rb"
    unfolding lines_inv_def f using lo3 lim nl cur2(1) by (auto simp: lo2_def)
  then show thesis by (rule that)
qed

lemma write_bytes_inv: "ring_inv base hist rb \<Longrightarrow> ring_inv base (hist @ data) (write_bytes data rb)"
  unfolding ring_inv_def using write_bytes_bytes_inv write_bytes_lines_inv by metis

lemma ring_new_inv: "ring_inv 0 [] (ring_new cap)" "ring_inv 0 [] (with_max_lines cap k)"
  by (auto simp: ring_inv_def bytes_inv_def lines_inv_def ring_new_def with_max_lines_def Let_def
      seg_def intro!: exI [of _ 0])

lemma ring_clear_inv: "ring_inv base hist rb \<Longrightarrow> ring_inv 0 [] (ring_clear rb)"
  by (auto simp: ring_inv_def bytes_inv_def lines_inv_def ring_clear_def seg_def intro!: exI [of _ 0])

lemma write_line_inv:
  "ring_inv base hist rb \<Longrightarrow>
     ring_inv base (hist @ line @ (if ends_with_newline line then [] else [newline])) (write_line line rb)"
  using write_bytes_inv [of base hist rb line] write_bytes_inv [of base "hist @ line" "write_bytes line rb" "[newline]"]
  by (simp add: write_line_def)

section \<open>Reading lines\<close>

text \<open>All lines that can be read: the complete ones and the one in progress.\<close>

definition all_lines :: "ContinuousRingBuffer \<Rightarrow> (nat \<times> nat) list" where
  "all_lines rb = rb_line_indices rb @
     (if rb_current_line_start rb < rb_cumulative_bytes rb
      then [(rb_current_line_start rb, rb_cumulative_bytes rb)] else [])"

definition last_n :: "nat \<Rightarrow> 'a list \<Rightarrow> 'a list" where
  "last_n n xs = drop (length xs - n) xs"

lemma selected_lines_last:
  "selected_lines max_lines rb =
     last_n (case max_lines of Some m \<Rightarrow> m | None \<Rightarrow> length (all_lines rb)) (all_lines rb)"
proof -
  let ?idx = "rb_line_indices rb" and ?tr = "rb_current_line_start rb < rb_cumulative_bytes rb"
  define tot where "tot = length ?idx + (if ?tr then 1 else 0)"
  define k where "k = min (case max_lines of Some m \<Rightarrow> m | None \<Rightarrow> tot) tot"
  have len: "length (all_lines rb) = tot" by (simp add: all_lines_def tot_def)
  have "selected_lines max_lines rb =
      (let sel = take k (drop (min (tot - k) (length ?idx)) ?idx)
       in if ?tr \<and> length sel < k then sel @ [(rb_current_line_start rb, rb_cumulative_bytes rb)] else sel)"
    unfolding selected_lines_def Let_def k_def tot_def by (rule refl)
  also have "\<dots> = drop (tot - k) (all_lines rb)"
  proof (cases ?tr)
    case True
    then have t: "tot = Suc (length ?idx)" by (simp add: tot_def)
    show ?thesis
    proof (cases "k = 0")
      case True
      then show ?thesis using t by (simp add: all_lines_def)
    next
      case False
      moreover have "k \<le> tot" by (simp add: k_def)
      moreover have "tot - k \<le> length ?idx" using False t by linarith
      ultimately show ?thesis using t True by (simp add: all_lines_def Let_def min_def)
    qed
  next
    case False
    then show ?thesis by (simp add: all_lines_def tot_def k_def Let_def min_def)
  qed
  also have "tot - k = length (all_lines rb) - (case max_lines of Some m \<Rightarrow> m | None \<Rightarrow> length (all_lines rb))"
    by (simp add: len k_def min_def split: option.split)
  finally show ?thesis by (simp add: last_n_def)
qed

text \<open>A run of adjacent segments up to the end of the history, of which all but the last are lines.\<close>

fun seg_run :: "nat \<Rightarrow> bytes \<Rightarrow> nat \<Rightarrow> (nat \<times> nat) list \<Rightarrow> bool" where
  "seg_run base hist lo [] \<longleftrightarrow> lo = base + length hist"
| "seg_run base hist lo (se # r) \<longleftrightarrow>
     fst se = lo \<and> base \<le> lo \<and> lo < snd se \<and> snd se \<le> base + length hist \<and>
     (line_at base hist lo (snd se) \<or>
      r = [] \<and> snd se = base + length hist \<and> newline \<notin> set (seg base hist lo (snd se))) \<and>
     seg_run base hist (snd se) r"

lemma seg_run_all:
  assumes "line_chain base hist lo idx cur" and "base \<le> lo" and "cur \<le> base + length hist"
    and "newline \<notin> set (seg base hist cur (base + length hist))"
  shows "seg_run base hist lo (idx @ (if cur < base + length hist then [(cur, base + length hist)] else []))"
  using assms
proof (induction idx arbitrary: lo)
  case (Cons se idx)
  then have "base \<le> snd se" "line_at base hist lo (snd se)" by (auto simp: line_at_def)
  then show ?case using Cons by (auto simp: line_at_def)
qed auto

lemma seg_run_drop:
  assumes "seg_run base hist lo all" obtains lo' where "seg_run base hist lo' (drop n all)" and "lo \<le> lo'"
proof -
  have "\<exists>lo'. seg_run base hist lo' (drop n all) \<and> lo \<le> lo'"
    using assms
  proof (induction n arbitrary: lo all)
    case (Suc n)
    show ?case
    proof (cases all)
      case (Cons se r)
      then have "seg_run base hist (snd se) r" "lo < snd se" using Suc.prems by auto
      then show ?thesis using Suc.IH [of "snd se" r] Cons by fastforce
    qed (use Suc.prems in auto)
  qed auto
  then show thesis using that by blast
qed

lemma seg_append: "base \<le> a \<Longrightarrow> a \<le> b \<Longrightarrow> b \<le> c \<Longrightarrow> seg base hist a c = seg base hist a b @ seg base hist b c"
proof -
  assume "base \<le> a" "a \<le> b" "b \<le> c"
  then have "take (b - a) (drop (a - base) (take (c - base) hist)) = drop (a - base) (take (b - base) hist)"
    and "drop (b - a) (drop (a - base) (take (c - base) hist)) = drop (b - base) (take (c - base) hist)"
    by (simp_all add: take_drop min_def)
  then show ?thesis unfolding seg_def by (metis append_take_drop_id)
qed

lemma seg_run_segs:
  "seg_run base hist lo r \<Longrightarrow>
     line_segs (seg base hist lo (base + length hist)) = map (\<lambda>se. seg base hist (fst se) (snd se)) r"
proof (induction r arbitrary: lo)
  case Nil
  then show ?case by (simp add: seg_def)
next
  case (Cons se r)
  let ?n = "base + length hist"
  have c: "fst se = lo" "base \<le> lo" "lo < snd se" "snd se \<le> ?n" "seg_run base hist (snd se) r"
    using Cons.prems by auto
  have app: "seg base hist lo ?n = seg base hist lo (snd se) @ seg base hist (snd se) ?n"
    using c by (intro seg_append) simp_all
  show ?case
  proof (cases "line_at base hist lo (snd se)")
    case True
    then obtain l where l: "seg base hist lo (snd se) = l @ [newline]" "newline \<notin> set l"
      unfolding line_at_def by blast
    then show ?thesis using Cons.IH [OF c(5)] app c(1) by (simp add: line_segs_newline)
  next
    case False
    then have e: "r = []" "snd se = ?n" "newline \<notin> set (seg base hist lo (snd se))" using Cons.prems by auto
    moreover have "seg base hist lo ?n \<noteq> []" using c e(2) by (simp add: seg_def)
    ultimately show ?thesis using c(1) by (simp add: line_segs_single)
  qed
qed

lemma seg_run_slices:
  assumes "seg_run base hist lo r" and "a0 \<le> lo" and "base \<le> a0"
  shows "concat (map (slice_line a0 (seg base hist a0 (base + length hist))) r) =
     map (\<lambda>se. strip_eol (seg base hist (fst se) (snd se))) r"
  using assms(1,2)
proof (induction r arbitrary: lo)
  case (Cons se r)
  let ?n = "base + length hist"
  have c: "fst se = lo" "base \<le> lo" "lo < snd se" "snd se \<le> ?n" "seg_run base hist (snd se) r"
    using Cons.prems by auto
  have "drop (lo - a0) (take (snd se - a0) (seg base hist a0 ?n)) = seg base hist lo (snd se)"
    using c Cons.prems(2) assms(3) by (simp add: seg_def drop_take)
  moreover have "snd se - a0 \<le> length (seg base hist a0 ?n)"
    using c assms(3) by (simp add: seg_length)
  ultimately have "slice_line a0 (seg base hist a0 ?n) se = [strip_eol (seg base hist lo (snd se))]"
    using c by (simp add: slice_line_def Let_def min_absorb1)
  then show ?case using Cons.IH [OF c(5)] c Cons.prems(2) by simp
qed simp

lemma seg_run_last: "seg_run base hist lo r \<Longrightarrow> r \<noteq> [] \<Longrightarrow> snd (last r) = base + length hist"
  by (induction r arbitrary: lo) auto

lemma concat_last_segs:
  assumes "seg_run base hist lo r"
  shows "concat (map (\<lambda>se. seg base hist (fst se) (snd se)) r) = seg base hist lo (base + length hist)"
  using seg_run_segs [OF assms] concat_line_segs by metis

lemma last_n_map: "map f (last_n n xs) = last_n n (map f xs)"
  by (simp add: last_n_def drop_map)

lemma read_line_slices_eq:
  assumes inv: "bytes_inv base hist rb" and l: "lines_inv base hist lo rb"
  shows "length (line_segs (seg base hist lo (rb_cumulative_bytes rb))) = ring_line_count rb"
    and "read_line_slices max_lines rb =
      rust_lines (utf8_lossy (concat (last_n (case max_lines of Some k \<Rightarrow> k | None \<Rightarrow> ring_line_count rb)
        (line_segs (seg base hist lo (rb_cumulative_bytes rb))))))"
proof -
  let ?n = "base + length hist" let ?S = "line_segs (seg base hist lo ?n)"
  let ?sg = "\<lambda>se. seg base hist (fst se) (snd se)"
  have cum: "rb_cumulative_bytes rb = ?n" "base \<le> rb_log_start_offset rb"
    using inv unfolding bytes_inv_def by blast+
  have "seg_run base hist lo (all_lines rb)"
    using l cum seg_run_all [of base hist lo "rb_line_indices rb" "rb_current_line_start rb"]
    by (auto simp: lines_inv_def all_lines_def split: if_splits)
  note run = this
  have S: "?S = map ?sg (all_lines rb)" by (rule seg_run_segs [OF run])
  have cnt: "length (all_lines rb) = ring_line_count rb" by (simp add: all_lines_def ring_line_count_def)
  show "length (line_segs (seg base hist lo (rb_cumulative_bytes rb))) = ring_line_count rb"
    by (simp add: cum S cnt)
  define k where "k = (case max_lines of Some k \<Rightarrow> k | None \<Rightarrow> ring_line_count rb)"
  define sel where "sel = last_n k (all_lines rb)"
  have sel: "selected_lines max_lines rb = sel"
    unfolding selected_lines_last sel_def k_def cnt by (rule refl)
  obtain lo' where lo': "seg_run base hist lo' sel" "lo \<le> lo'"
    using seg_run_drop [OF run] unfolding sel_def last_n_def by blast
  have rhs: "concat (last_n k ?S) = seg base hist lo' ?n"
    unfolding S using concat_last_segs [OF lo'(1)] by (simp add: sel_def flip: last_n_map)
  show "read_line_slices max_lines rb =
      rust_lines (utf8_lossy (concat (last_n (case max_lines of Some k \<Rightarrow> k | None \<Rightarrow> ring_line_count rb)
        (line_segs (seg base hist lo (rb_cumulative_bytes rb))))))"
  proof (cases sel)
    case Nil
    then have "seg base hist lo' ?n = []" using lo'(1) by (simp add: seg_def)
    then have "utf8_lossy (concat (last_n k ?S)) = []" using rhs by (simp only: utf8_lossy.simps)
    then show ?thesis using Nil sel by (simp add: read_line_slices_def cum rust_lines_def flip: k_def)
  next
    case (Cons se r)
    have h: "fst (hd sel) = lo'" "base \<le> lo'" "lo' < ?n"
      using lo'(1) Cons by auto
    have e: "snd (last sel) = ?n" using seg_run_last [OF lo'(1)] Cons by simp
    have "rb_log_start_offset rb \<le> lo'" using l lo'(2) by (simp add: lines_inv_def)
    then have cr: "copy_range lo' ?n rb = seg base hist lo' ?n"
      by (simp add: copy_range_seg [OF inv] cum max_absorb1)
    have "read_line_slices max_lines rb =
        (let frozen = seg base hist lo' ?n in if utf8_valid frozen
           then concat (map (slice_line lo' frozen) sel) else rust_lines (utf8_lossy frozen))"
      unfolding read_line_slices_def Let_def sel h e cr using h(3) Cons by simp
    also have "\<dots> = rust_lines (utf8_lossy (seg base hist lo' ?n))"
      using seg_run_slices [OF lo'(1) order.refl h(2)] seg_run_segs [OF lo'(1)]
      by (simp add: Let_def rust_lines_def utf8_lossy_valid comp_def)
    finally show ?thesis by (simp add: cum rhs flip: k_def)
  qed
qed

section \<open>Properties\<close>

lemma copy_range_take:
  assumes "bytes_inv 0 hist rb" and "rb_log_start_offset rb \<le> a"
  shows "copy_range a (a + n) rb = take n (drop a hist)"
proof -
  have "rb_cumulative_bytes rb = length hist" using assms(1) by (simp add: bytes_inv_def)
  then have "copy_range a (a + n) rb = take (min (a + n) (length hist) - a) (drop a hist)"
    using assms(2) by (simp add: copy_range_seg [OF assms(1)] seg_def max_absorb1 drop_take)
  also have "\<dots> = take n (drop a hist)" by (cases "a + n \<le> length hist") auto
  finally show ?thesis .
qed

lemma fold_write_inv: "ring_inv base hist rb \<Longrightarrow> ring_inv base (hist @ concat cs) (fold write_bytes cs rb)"
proof (induction cs arbitrary: hist rb)
  case (Cons c cs)
  then show ?case using Cons.IH [OF write_bytes_inv [OF Cons.prems, of c]] by simp
qed simp

lemma write_bytes_frame [simp]:
  "rb_capacity (write_bytes data rb) = rb_capacity rb"
  "rb_max_line_index (write_bytes data rb) = rb_max_line_index rb"
  by (simp_all add: write_bytes_def Let_def split_beta)

lemma fold_write_frame [simp]:
  "rb_capacity (fold write_bytes cs rb) = rb_capacity rb"
  "rb_max_line_index (fold write_bytes cs rb) = rb_max_line_index rb"
  by (induction cs arbitrary: rb) simp_all

lemma new_ring_inv:
  assumes "rb = fold write_bytes cs (ring_new cap)"
  shows "bytes_inv 0 (concat cs) rb" and "\<exists>lo. lines_inv 0 (concat cs) lo rb"
    and "rb_capacity rb = max cap 1" and "rb_cumulative_bytes rb = length (concat cs)"
    and "rb_log_start_offset rb = length (concat cs) - max cap 1" and "rb_max_line_index rb = None"
proof -
  have r: "ring_inv 0 (concat cs) rb" using fold_write_inv [OF ring_new_inv(1), of cs cap] assms by simp
  then show b: "bytes_inv 0 (concat cs) rb" and "\<exists>lo. lines_inv 0 (concat cs) lo rb"
    by (auto simp: ring_inv_def)
  show c: "rb_capacity rb = max cap 1" "rb_max_line_index rb = None"
    by (simp_all add: assms ring_new_def Let_def)
  show "rb_cumulative_bytes rb = length (concat cs)"
    "rb_log_start_offset rb = length (concat cs) - max cap 1"
    using b c by (simp_all add: bytes_inv_def)
qed



text \<open>
  The lines that are read are the most recent ones: after any sequence of writes to a new
  ring there is an offset of the retained history such that at most the rest of one overwritten
  line lies before it, none if nothing was overwritten, and reading \<open>k\<close> lines returns the last
  \<open>k\<close> lines of the history from there on, without their line ends and made valid UTF-8.
\<close>

theorem ring_reads_recent_lines:
  fixes cs :: "bytes list" and cap :: nat
  defines "hist \<equiv> concat cs" and "rb \<equiv> fold write_bytes cs (ring_new cap)"
  defines "oldest \<equiv> length hist - max cap 1"
  shows "\<exists>lo. oldest \<le> lo \<and> lo \<le> length hist \<and>
    newline \<notin> set (take (lo - 1 - oldest) (drop oldest hist)) \<and> (oldest = 0 \<longrightarrow> lo = 0) \<and>
    (\<forall>k. read_line_slices (Some k) rb =
       rust_lines (utf8_lossy (concat (last_n k (line_segs (drop lo hist))))))"
proof -
  note f = new_ring_inv [of rb cs cap, folded hist_def, OF meta_eq_to_obj_eq [OF rb_def]]
  obtain lo where l: "lines_inv 0 hist lo rb" using f(2) by blast
  have st: "rb_log_start_offset rb = oldest" using f(5) by (simp add: oldest_def)
  have "lo \<le> rb_current_line_start rb" "rb_current_line_start rb \<le> length hist"
    using l line_chain_le f(4) unfolding lines_inv_def by auto
  then have lo: "lo \<le> length hist" by simp
  have "newline \<notin> set (seg 0 hist oldest (lo - 1))" "oldest = 0 \<longrightarrow> lo = 0" "oldest \<le> lo"
    using l f(6) st by (simp_all add: lines_inv_def)
  moreover have "seg 0 hist oldest (lo - 1) = take (lo - 1 - oldest) (drop oldest hist)"
    by (simp add: seg_def drop_take)
  moreover have "seg 0 hist lo (length hist) = drop lo hist" by (simp add: seg_def)
  then have "read_line_slices (Some k) rb = rust_lines (utf8_lossy (concat (last_n k (line_segs (drop lo hist)))))" for k
    using read_line_slices_eq(2) [OF f(1) l, of "Some k"] f(4) by simp
  ultimately show ?thesis using lo by auto
qed

theorem ring_reads_recent_lines_witness:
  "read_line_slices (Some 1) (fold write_bytes [''ab'', [newline], ''cd''] (ring_new 100)) = [''cd'']"
proof -
  obtain lo where "lo = 0" "\<forall>k. read_line_slices (Some k) (fold write_bytes [''ab'', [newline], ''cd''] (ring_new 100)) =
      rust_lines (utf8_lossy (concat (last_n k (line_segs (drop lo (concat [''ab'', [newline], ''cd'']))))))"
    using ring_reads_recent_lines [of "[''ab'', [newline], ''cd'']" 100] by auto
  moreover have "line_segs (concat [''ab'', [newline], ''cd'']) = [''ab'' @ [newline], ''cd'']"
    by (simp add: newline_def)
  ultimately show ?thesis
    by (simp add: last_n_def rust_lines_def strip_eol_def ends_with_newline_def newline_def utf8_take_def
        utf8_width_def byte_in_def)
qed

text \<open>
  A client that follows the log: it polls after each write, passing the offset that the last
  call returned.
\<close>

fun follow :: "int \<Rightarrow> int \<Rightarrow> bytes list \<Rightarrow> ContinuousRingBuffer \<Rightarrow> bytes \<times> int \<times> bool" where
  "follow len off [] rb = ([], off, False)"
| "follow len off (c # cs) rb =
     (let rb = write_bytes c rb;
          (d, off, overflow) = ring_tail_bytes off len rb;
          (ds, off, overflow') = follow len off cs rb
      in (d @ ds, off, overflow \<or> overflow'))"

lemma tail_bytes_follow:
  assumes "bytes_inv 0 hist rb" and "0 < off" and "off \<le> int (length hist)"
    and "ring_tail_bytes off len rb = (d, off', False)"
  obtains n where "d = utf8_lossy (take n (drop (nat off) hist))" and "off' = off + int n"
    and "off' \<le> int (length hist)"
proof -
  let ?st = "rb_log_start_offset rb"
  have cum: "rb_cumulative_bytes rb = length hist" "0 < rb_capacity rb" "?st = length hist - rb_capacity rb"
    using assms(1) by (simp_all add: bytes_inv_def)
  have st: "\<not> off < int ?st"
  proof
    assume o: "off < int ?st"
    then have "int ?st < int (length hist)" using cum assms(2) by linarith
    then show False using o assms(2,4) by (simp add: ring_tail_bytes_def Let_def cum(1))
  qed
  define n where "n = (if max len 0 = 0 then nat (int (length hist) - off)
      else min (nat (max len 0)) (nat (int (length hist) - off)))"
  have n: "off + int n \<le> int (length hist)" using assms(3) by (auto simp: n_def)
  have cr: "copy_range (nat off) (nat (off + int n)) rb = take n (drop (nat off) hist)"
    using copy_range_take [OF assms(1), of "nat off" n] assms(2) st by (simp add: nat_add_distrib)
  have ne: "(off = 0) = False" "(off < int ?st) = False" using assms(2) st by simp_all
  have "(d, off', False) = (if int (length hist) \<le> off then ([], int (length hist), False)
      else (utf8_lossy (take n (drop (nat off) hist)), off + int n, False))"
    using assms(4) unfolding ring_tail_bytes_def Let_def cum(1) ne if_False n_def [symmetric] cr by (rule sym)
  moreover have "n = 0" "off = int (length hist)" if "int (length hist) \<le> off"
    using that assms(3) by (simp_all add: n_def)
  ultimately show thesis using that [of n] n by (auto split: if_splits)
qed

text \<open>
  Following loses nothing silently: a client that starts at a positive offset of the log and
  polls after every write gets, for ASCII output, exactly the bytes of the history between its
  first and its last offset, in order and without duplicates, unless a poll reports an overflow.
\<close>

theorem ring_follow_complete:
  assumes "bytes_inv 0 hist rb" and "0 < off" and "off \<le> int (length hist)"
    and "\<forall>b \<in> set (hist @ concat cs). byte_in 0 0x7F b"
    and "follow len off cs rb = (received, off', False)"
  shows "off' \<le> int (length (hist @ concat cs)) \<and> off \<le> off' \<and>
    received = take (nat off' - nat off) (drop (nat off) (hist @ concat cs))"
  using assms
proof (induction cs arbitrary: hist rb off received)
  case (Cons c cs)
  let ?h = "hist @ c" let ?rb = "write_bytes c rb"
  obtain d o1 v where t: "ring_tail_bytes off len ?rb = (d, o1, v)" by (metis prod_cases3)
  obtain ds o2 v' where fo: "follow len o1 cs ?rb = (ds, o2, v')" by (metis prod_cases3)
  have eq: "\<not> v" "\<not> v'" "o2 = off'" "received = d @ ds" using Cons.prems(5) t fo by auto
  have b: "bytes_inv 0 ?h ?rb" using Cons.prems(1) by (rule write_bytes_bytes_inv)
  have "off \<le> int (length ?h)" using Cons.prems(3) by simp
  then obtain n where n: "d = utf8_lossy (take n (drop (nat off) ?h))" "o1 = off + int n" "o1 \<le> int (length ?h)"
    using tail_bytes_follow [OF b Cons.prems(2)] t eq(1) by metis
  have "set (take n (drop (nat off) ?h)) \<subseteq> set ?h" by (meson order.trans set_drop_subset set_take_subset)
  then have d: "d = take n (drop (nat off) ?h)"
    unfolding n(1) using Cons.prems(4) by (intro utf8_lossy_valid utf8_valid_ascii) auto
  have ih: "off' \<le> int (length (?h @ concat cs)) \<and> o1 \<le> off' \<and>
      ds = take (nat off' - nat o1) (drop (nat o1) (?h @ concat cs))"
    using Cons.prems(2,4) fo eq n(2,3) by (intro Cons.IH [OF b]) auto
  have no1: "nat o1 = nat off + n" using n(2) Cons.prems(2) by simp
  have "nat off + n \<le> length ?h" using n(3) no1 by linarith
  then have d1: "d = take n (drop (nat off) (?h @ concat cs))" using d by (simp add: drop_append)
  define Y where "Y = drop (nat off) (?h @ concat cs)"
  have "drop (nat o1) (?h @ concat cs) = drop n Y"
    unfolding Y_def no1 drop_drop by (simp only: add.commute)
  then have "ds = take (nat off' - nat o1) (drop n Y)" using ih by simp
  then have "received = take (n + (nat off' - nat o1)) Y"
    using d1 eq(4) unfolding Y_def [symmetric] take_add by simp
  then have "received = take (n + (nat off' - nat o1)) (drop (nat off) (?h @ concat cs))"
    by (simp only: Y_def)
  moreover have "n + (nat off' - nat o1) = nat off' - nat off" using ih no1 n(2) Cons.prems(2) by linarith
  ultimately have "received = take (nat off' - nat off) (drop (nat off) (?h @ concat cs))" by (simp only:)
  moreover have "hist @ concat (c # cs) = ?h @ concat cs" by simp
  moreover have "off \<le> off'" using ih n(2) by linarith
  ultimately show ?case using ih by (simp only:)
qed simp

theorem ring_follow_complete_witness:
  "\<exists>received off'. follow 0 2 [''cd'', ''e''] (write_bytes ''ab'' (ring_new 10)) = (received, off', False) \<and>
     received = ''cde''"
proof -
  have b: "bytes_inv 0 ''ab'' (write_bytes ''ab'' (ring_new 10))"
    using write_bytes_bytes_inv [of 0 "[]" "ring_new 10" "''ab''"] ring_new_inv(1) [of 10] by (simp add: ring_inv_def)
  obtain received off' v where
    fo: "follow 0 2 [''cd'', ''e''] (write_bytes ''ab'' (ring_new 10)) = (received, off', v)" by (metis prod_cases3)
  have v: "\<not> v" "off' = 5" using fo
    by (auto simp: ring_tail_bytes_def write_bytes_def ring_new_def newline_def Let_def)
  then show ?thesis using ring_follow_complete [OF b, of 2 "[''cd'', ''e'']" 0 received off'] fo
    by (simp add: byte_in_def)
qed

section \<open>Two defects\<close>

text \<open>
  Reading the whole log stops working once the ring has wrapped around: \<open>read_bytes\<close> with
  offset 0 and length 0, which returns everything as long as nothing has been overwritten,
  returns nothing but the overflow flag as soon as the output exceeds the capacity.
\<close>

theorem ring_read_all_fails_after_wrap:
  fixes cs :: "bytes list" and cap :: nat
  defines "hist \<equiv> concat cs" and "rb \<equiv> fold write_bytes cs (ring_new cap)"
  shows "ring_read_bytes 0 0 rb =
    (if length hist \<le> max cap 1 then (utf8_lossy hist, int (length hist), False)
     else ([], int (length hist), True))"
proof -
  note f = new_ring_inv [of rb cs cap, folded hist_def, OF meta_eq_to_obj_eq [OF rb_def]]
  have "copy_range 0 (length hist) rb = hist" if "rb_log_start_offset rb = 0"
    using copy_range_take [OF f(1), of 0 "length hist"] that by simp
  moreover have "copy_range a a rb = []" for a
  proof -
    have "min a (rb_cumulative_bytes rb) \<le> max a (rb_log_start_offset rb)" by linarith
    then show ?thesis by (simp add: copy_range_def Let_def)
  qed
  ultimately show ?thesis using f(3-5) by (auto simp: ring_read_bytes_def Let_def)
qed

text \<open>
  Seeding a ring with less than the file's end that the ring could hold makes the bytes before
  the seed readable, although they were never written.
\<close>

lemma seed_exposes_unwritten_bytes:
  "snapshot_bytes (seed ''ab'' 5 (ring_new 4)) = [CHR 0x00, CHR 0x00, CHR ''a'', CHR ''b'']"
  by code_simp

end
