(* ===== verification/Memory_Logs.thy ===== *)
theory Memory_Logs
  imports Continuous_Ring
begin

text \<open>
  The in-memory logs on top of the byte ring: the line buffer of a program
  (\<open>src/src/logging/ring_buffer.rs\<close>) and the channel rotator with its live broadcast of complete
  lines (\<open>src/src/logging/in_memory_rotator.rs\<close>). A broadcast channel is represented by its
  number of receivers and the list of the messages sent on it.
\<close>

section \<open>The line buffer\<close>

record RingBuffer =
  rg_capacity_lines :: nat
  rg_inner :: ContinuousRingBuffer
  rg_receivers :: nat
  rg_sent :: "bytes list"

definition line_buffer_new :: "nat \<Rightarrow> RingBuffer" where
  "line_buffer_new capacity_lines =
     (let lines = max capacity_lines 1; byte_cap = max (lines * 512) (64 * 1024)
      in \<lparr>rg_capacity_lines = lines, rg_inner = with_max_lines byte_cap lines, rg_receivers = 0, rg_sent = []\<rparr>)"

definition with_byte_capacity :: "nat \<Rightarrow> nat option \<Rightarrow> RingBuffer" where
  "with_byte_capacity capacity_bytes max_lines =
     (let cap = max capacity_bytes 1024
      in \<lparr>rg_capacity_lines = (case max_lines of Some m \<Rightarrow> m | None \<Rightarrow> 2000),
          rg_inner = (case max_lines of Some m \<Rightarrow> with_max_lines cap m | None \<Rightarrow> ring_new cap),
          rg_receivers = 0, rg_sent = []\<rparr>)"

definition rg_send :: "bytes \<Rightarrow> RingBuffer \<Rightarrow> RingBuffer" where
  "rg_send msg rg = (if 0 < rg_receivers rg then rg\<lparr>rg_sent := rg_sent rg @ [msg]\<rparr> else rg)"

definition push :: "bytes \<Rightarrow> RingBuffer \<Rightarrow> RingBuffer" where
  "push line rg = (let rg = rg_send line rg in rg\<lparr>rg_inner := write_line line (rg_inner rg)\<rparr>)"

definition push_bytes :: "bytes \<Rightarrow> RingBuffer \<Rightarrow> RingBuffer" where
  "push_bytes data rg =
     (let rg = rg_send (utf8_lossy data) rg;
          rb = write_bytes data (rg_inner rg)
      in rg\<lparr>rg_inner := (if ends_with_newline data then rb else write_bytes [newline] rb)\<rparr>)"

definition push_prefixed :: "bytes \<Rightarrow> bytes \<Rightarrow> RingBuffer \<Rightarrow> RingBuffer" where
  "push_prefixed prefix data rg =
     (let rg = rg_send (prefix @ '': '' @ utf8_lossy data) rg;
          rb = write_bytes data (write_bytes '': '' (write_bytes prefix (rg_inner rg)))
      in rg\<lparr>rg_inner := (if ends_with_newline data then rb else write_bytes [newline] rb)\<rparr>)"

definition get_lines :: "nat option \<Rightarrow> RingBuffer \<Rightarrow> bytes list" where
  "get_lines max_lines rg = read_line_slices max_lines (rg_inner rg)"

definition line_buffer_clear :: "RingBuffer \<Rightarrow> RingBuffer" where
  "line_buffer_clear rg = rg\<lparr>rg_inner := ring_clear (rg_inner rg)\<rparr>"

definition line_buffer_subscribe :: "RingBuffer \<Rightarrow> RingBuffer" where
  "line_buffer_subscribe rg = rg\<lparr>rg_receivers := Suc (rg_receivers rg)\<rparr>"

definition line_buffer_len :: "RingBuffer \<Rightarrow> nat" where
  "line_buffer_len rg = ring_line_count (rg_inner rg)"

definition line_buffer_is_empty :: "RingBuffer \<Rightarrow> bool" where
  "line_buffer_is_empty rg = ring_is_empty (rg_inner rg)"

section \<open>The channel rotator\<close>

definition MAX_LIVE_LOG_LINE_BYTES :: nat where
  "MAX_LIVE_LOG_LINE_BYTES = 64 * 1024"

record InMemoryChannelRotator =
  cr_segment_bytes :: nat
  cr_backups :: nat
  cr_ring :: ContinuousRingBuffer
  cr_receivers :: nat
  cr_sent :: "bytes list"
  cr_pending_line :: bytes

definition usize_saturating_mul :: "nat \<Rightarrow> nat \<Rightarrow> nat" where
  "usize_saturating_mul a b = min (a * b) usize_max"

definition usize_saturating_add :: "nat \<Rightarrow> nat \<Rightarrow> nat" where
  "usize_saturating_add a b = min (a + b) usize_max"

definition channel_new :: "nat \<Rightarrow> nat \<Rightarrow> InMemoryChannelRotator" where
  "channel_new max_bytes backups =
     (let segment_bytes = max max_bytes 1;
          total_capacity = usize_saturating_mul segment_bytes (usize_saturating_add backups 1)
      in \<lparr>cr_segment_bytes = segment_bytes, cr_backups = backups, cr_ring = ring_new total_capacity,
          cr_receivers = 0, cr_sent = [], cr_pending_line = []\<rparr>)"

definition with_total_capacity :: "nat \<Rightarrow> nat \<Rightarrow> InMemoryChannelRotator" where
  "with_total_capacity total_capacity backups =
     (let segment_count = max (usize_saturating_add backups 1) 1;
          min_total = usize_saturating_mul segment_count 1024;
          safe_capacity = max total_capacity min_total;
          segment_bytes = max (safe_capacity div segment_count) 1024
      in \<lparr>cr_segment_bytes = segment_bytes, cr_backups = backups, cr_ring = ring_new safe_capacity,
          cr_receivers = 0, cr_sent = [], cr_pending_line = []\<rparr>)"

text \<open>The loop over the newlines of the pending data: the complete lines and the rest.\<close>

function split_complete :: "bytes \<Rightarrow> bytes list \<times> bytes" where
  "split_complete p =
     (case split_once newline p of
        None \<Rightarrow> ([], p)
      | Some (line, rest) \<Rightarrow> (let (lines, rest) = split_complete rest in (line # lines, rest)))"
  by pat_completeness auto
termination
proof (relation "measure length")
  fix p x and a b :: bytes
  assume "split_once newline p = Some x" "(a, b) = x"
  then show "(b, p) \<in> measure length" by (auto dest: split_once_SomeD)
qed simp

declare split_complete.simps [simp del]

definition broadcast_chunk :: "bytes \<Rightarrow> InMemoryChannelRotator \<Rightarrow> InMemoryChannelRotator" where
  "broadcast_chunk data cr =
     (let has_receivers = 0 < cr_receivers cr
      in if data = [] \<or> \<not> has_receivers \<and> cr_pending_line cr = [] then cr
         else (let (lines, rest) = split_complete (cr_pending_line cr @ data);
                   texts = (if has_receivers then map (\<lambda>l. utf8_lossy (strip_cr l)) lines else []);
                   overlong = MAX_LIVE_LOG_LINE_BYTES < length rest;
                   flushed = (if overlong \<and> has_receivers then [utf8_lossy rest] else [])
               in cr\<lparr>cr_sent := cr_sent cr @ texts @ flushed,
                     cr_pending_line := (if overlong then [] else rest)\<rparr>))"

definition flush_broadcast :: "InMemoryChannelRotator \<Rightarrow> InMemoryChannelRotator" where
  "flush_broadcast cr =
     (if cr_pending_line cr = [] then cr
      else cr\<lparr>cr_sent := cr_sent cr @ (if 0 < cr_receivers cr then [utf8_lossy (cr_pending_line cr)] else []),
              cr_pending_line := []\<rparr>)"

definition append_bytes :: "bytes \<Rightarrow> InMemoryChannelRotator \<Rightarrow> InMemoryChannelRotator" where
  "append_bytes data cr =
     (if data = [] then cr
      else (let cr = broadcast_chunk data cr in cr\<lparr>cr_ring := write_bytes data (cr_ring cr)\<rparr>))"

definition append_line :: "bytes \<Rightarrow> InMemoryChannelRotator \<Rightarrow> InMemoryChannelRotator" where
  "append_line line cr =
     (let cr = (if 0 < cr_receivers cr then cr\<lparr>cr_sent := cr_sent cr @ [line]\<rparr> else cr)
      in cr\<lparr>cr_ring := write_line line (cr_ring cr)\<rparr>)"

definition channel_clear :: "InMemoryChannelRotator \<Rightarrow> InMemoryChannelRotator" where
  "channel_clear cr = cr\<lparr>cr_ring := ring_clear (cr_ring cr), cr_pending_line := []\<rparr>"

definition channel_subscribe :: "InMemoryChannelRotator \<Rightarrow> InMemoryChannelRotator" where
  "channel_subscribe cr = cr\<lparr>cr_receivers := Suc (cr_receivers cr)\<rparr>"

datatype LogChannel = Stdout | Stderr

record InMemoryLogRotator =
  ir_stdout :: InMemoryChannelRotator
  ir_stderr :: InMemoryChannelRotator

definition channel_of :: "LogChannel \<Rightarrow> InMemoryLogRotator \<Rightarrow> InMemoryChannelRotator" where
  "channel_of ch ir = (case ch of Stdout \<Rightarrow> ir_stdout ir | Stderr \<Rightarrow> ir_stderr ir)"

definition rotator_clear :: "LogChannel option \<Rightarrow> InMemoryLogRotator \<Rightarrow> InMemoryLogRotator" where
  "rotator_clear channel ir =
     (case channel of
        Some Stdout \<Rightarrow> ir\<lparr>ir_stdout := channel_clear (ir_stdout ir)\<rparr>
      | Some Stderr \<Rightarrow> ir\<lparr>ir_stderr := channel_clear (ir_stderr ir)\<rparr>
      | None \<Rightarrow> ir\<lparr>ir_stdout := channel_clear (ir_stdout ir), ir_stderr := channel_clear (ir_stderr ir)\<rparr>)"

definition write_chunk :: "LogChannel \<Rightarrow> bytes \<Rightarrow> InMemoryLogRotator \<Rightarrow> InMemoryLogRotator" where
  "write_chunk channel data ir =
     (case channel of
        Stdout \<Rightarrow> ir\<lparr>ir_stdout := append_bytes data (ir_stdout ir)\<rparr>
      | Stderr \<Rightarrow> ir\<lparr>ir_stderr := append_bytes data (ir_stderr ir)\<rparr>)"

definition rotator_flush :: "InMemoryLogRotator \<Rightarrow> InMemoryLogRotator" where
  "rotator_flush ir =
     ir\<lparr>ir_stdout := flush_broadcast (ir_stdout ir), ir_stderr := flush_broadcast (ir_stderr ir)\<rparr>"

section \<open>The live broadcast\<close>

lemma split_complete_rest: "newline \<notin> set r \<Longrightarrow> split_complete r = ([], r)"
proof -
  assume "newline \<notin> set r"
  then have "split_once newline r = None" by (simp add: split_once_None_iff)
  then show ?thesis by (simp add: split_complete.simps)
qed

lemma split_complete_append:
  "split_complete (p @ q) =
     (let (ls, r) = split_complete p; (ls', r') = split_complete (r @ q) in (ls @ ls', r'))"
proof (induction p rule: split_complete.induct)
  case (1 p)
  show ?case
  proof (cases "split_once newline p")
    case None
    then have "split_complete p = ([], p)" by (simp add: split_complete.simps)
    then show ?thesis by (simp add: split_beta)
  next
    case (Some x)
    obtain l rest where x: "x = (l, rest)" by fastforce
    then have p: "p = l @ newline # rest" "newline \<notin> set l" using Some split_once_SomeD by fastforce+
    have "split_once newline (p @ q) = Some (l, rest @ q)" using p by (simp add: split_once_append)
    then have "split_complete (p @ q) = (let (ls, r) = split_complete (rest @ q) in (l # ls, r))"
      by (subst split_complete.simps) simp
    moreover have "split_complete p = (let (ls, r) = split_complete rest in (l # ls, r))"
      using Some x by (subst split_complete.simps) simp
    ultimately show ?thesis using "1.IH" [OF Some x [symmetric]] by (simp add: split_beta Let_def)
  qed
qed

lemma split_complete_spec:
  "split_complete p = (ls, r) \<Longrightarrow>
     p = concat (map (\<lambda>l. l @ [newline]) ls) @ r \<and> newline \<notin> set r \<and> (\<forall>l \<in> set ls. newline \<notin> set l)"
proof (induction p arbitrary: ls r rule: split_complete.induct)
  case (1 p)
  show ?case
  proof (cases "split_once newline p")
    case None
    then have "newline \<notin> set p" by (simp add: split_once_None_iff)
    then show ?thesis using "1.prems" by (auto simp: split_complete_rest)
  next
    case (Some x)
    obtain l rest where x: "x = (l, rest)" by fastforce
    obtain ls' r' where s: "split_complete rest = (ls', r')" by fastforce
    have eq: "ls = l # ls'" "r = r'" using "1.prems" Some x s by (simp_all add: split_complete.simps [of p])
    have "p = l @ newline # rest" "newline \<notin> set l" using Some x split_once_SomeD by fastforce+
    then show ?thesis using "1.IH" [OF Some x [symmetric] s] eq by simp
  qed
qed

text \<open>What a subscriber receives and what stays pending, as a function of all the data.\<close>

definition live_lines :: "bytes \<Rightarrow> bytes list" where
  "live_lines data = map (\<lambda>l. utf8_lossy (strip_cr l)) (fst (split_complete data))"

lemma append_bytes_live:
  assumes "0 < cr_receivers cr" and "length (snd (split_complete (cr_pending_line cr @ data))) \<le> MAX_LIVE_LOG_LINE_BYTES"
  shows "cr_sent (append_bytes data cr) = cr_sent cr @ (if data = [] then [] else live_lines (cr_pending_line cr @ data))"
    and "cr_pending_line (append_bytes data cr) =
      (if data = [] then cr_pending_line cr else snd (split_complete (cr_pending_line cr @ data)))"
    and "cr_receivers (append_bytes data cr) = cr_receivers cr"
  using assms by (auto simp: append_bytes_def broadcast_chunk_def live_lines_def Let_def split_beta)

text \<open>
  The live broadcast does not depend on how the output is cut into chunks: subscribers
  receive every complete line exactly once, in order and without its line end, as if all the
  data had arrived at once, provided that no unfinished line exceeds the live limit; the rest
  after the last newline stays pending.
\<close>

theorem broadcast_chunk_independent:
  assumes "0 < cr_receivers cr" and "cr_pending_line cr = []"
    and "\<forall>n \<le> length cs. length (snd (split_complete (concat (take n cs)))) \<le> MAX_LIVE_LOG_LINE_BYTES"
  shows "cr_sent (fold append_bytes cs cr) = cr_sent cr @ live_lines (concat cs) \<and>
    cr_pending_line (fold append_bytes cs cr) = snd (split_complete (concat cs))"
proof -
  have "cr_sent (fold append_bytes (take n cs) cr) = cr_sent cr @ live_lines (concat (take n cs)) \<and>
      cr_pending_line (fold append_bytes (take n cs) cr) = snd (split_complete (concat (take n cs))) \<and>
      cr_receivers (fold append_bytes (take n cs) cr) = cr_receivers cr" if "n \<le> length cs" for n
    using that
  proof (induction n)
    case 0
    have "split_complete [] = ([], [])" by (simp add: split_complete_rest)
    then show ?case using assms(2) by (simp add: live_lines_def)
  next
    case (Suc n)
    let ?cr = "fold append_bytes (take n cs) cr" let ?p = "concat (take n cs)" let ?c = "cs ! n"
    have tk: "take (Suc n) cs = take n cs @ [?c]" using Suc.prems by (simp add: take_Suc_conv_app_nth)
    obtain ls r where s: "split_complete ?p = (ls, r)" by fastforce
    have ih: "cr_sent ?cr = cr_sent cr @ live_lines ?p" "cr_pending_line ?cr = r" "0 < cr_receivers ?cr"
      "cr_receivers ?cr = cr_receivers cr" using Suc s assms(1) by simp_all
    have ap: "split_complete (?p @ ?c) = (ls @ fst (split_complete (r @ ?c)), snd (split_complete (r @ ?c)))"
      using split_complete_append [of ?p ?c] s by (simp add: split_beta)
    have "length (snd (split_complete (concat (take (Suc n) cs)))) \<le> MAX_LIVE_LOG_LINE_BYTES"
      using assms(3) Suc.prems by blast
    then have le: "length (snd (split_complete (r @ ?c))) \<le> MAX_LIVE_LOG_LINE_BYTES" using ap by (simp add: tk)
    have nl: "newline \<notin> set r" using split_complete_spec [OF s] by simp
    note a = append_bytes_live [OF ih(3), unfolded ih(2), OF le]
    show ?case unfolding tk using a ih s ap nl
      by (simp add: live_lines_def split_complete_rest)
  qed
  then show ?thesis by (metis order.refl take_all_iff)
qed

theorem broadcast_chunk_independent_witness:
  "cr_sent (fold append_bytes [''ab'', ''c'' @ [carriage_return, newline] @ ''d''] (channel_subscribe (channel_new 100 0)))
     = [''abc'']"
proof -
  let ?cs = "[''ab'', ''c'' @ [carriage_return, newline] @ ''d'']"
  have s: "split_complete (concat ?cs) = ([''abc'' @ [carriage_return]], ''d'')"
    by (simp add: split_complete.simps [of "_ # _"] newline_def carriage_return_def)
  have "length (snd (split_complete (concat (take n ?cs)))) \<le> MAX_LIVE_LOG_LINE_BYTES" if "n \<le> length ?cs" for n
  proof -
    have "n = 0 \<or> n = 1 \<or> n = 2" using that by auto
    then show ?thesis using s by (auto simp: split_complete_rest MAX_LIVE_LOG_LINE_BYTES_def newline_def)
  qed
  then have "cr_sent (fold append_bytes ?cs (channel_subscribe (channel_new 100 0))) =
      cr_sent (channel_subscribe (channel_new 100 0)) @ live_lines (concat ?cs)"
    using broadcast_chunk_independent [of "channel_subscribe (channel_new 100 0)" ?cs]
    by (simp add: channel_subscribe_def channel_new_def Let_def)
  also have "\<dots> = [''abc'']"
    unfolding live_lines_def s
    by (simp add: channel_subscribe_def channel_new_def Let_def strip_cr_def utf8_take_def utf8_width_def byte_in_def)
  finally show ?thesis .
qed

end
