(* ===== verification/Log_Reader.thy ===== *)
theory Log_Reader
  imports Memory_Logs
begin

text \<open>
  Reading log files, \<open>src/src/logging/reader.rs\<close>: the byte windows of the XML-RPC calls
  \<open>readLog\<close> and \<open>tailProcessLog\<close>, reading and tailing a file or a byte slice, and the seeding of
  the in-memory log from the end of an existing file. The file system is a map from paths to
  contents; where the code can meet an input/output error, the error is an argument.
\<close>

type_synonym i64 = int

definition i64_max :: int where "i64_max = 2 ^ 63 - 1"
definition i64_min :: int where "i64_min = - (2 ^ 63)"

definition i64_saturate :: "int \<Rightarrow> int" where
  "i64_saturate x = max i64_min (min i64_max x)"

definition MAX_LOG_READ_LIMIT :: nat where
  "MAX_LOG_READ_LIMIT = 16 * 1024 * 1024"

datatype LogReadError = NoFile string | BadArguments string | IoError string

section \<open>Windows\<close>

definition compute_read_window :: "i64 \<Rightarrow> i64 \<Rightarrow> i64 \<Rightarrow> LogReadError + (i64 \<times> i64)" where
  "compute_read_window total_len offset len =
     (if offset < 0
      then (if len \<noteq> 0 then Inl (BadArguments ''length must be 0 when offset is negative'')
            else (let max_read = min (int MAX_LOG_READ_LIMIT) (max total_len 0);
                      abs_offset = min (- offset) max_read;
                      pos = max (total_len - abs_offset) 0;
                      to_read = min (total_len - pos) abs_offset
                  in Inr (pos, to_read)))
      else (if len < 0 then Inl (BadArguments ''length cannot be negative'')
            else (let pos = max 0 (min offset (max total_len 0));
                      remaining = total_len - pos;
                      to_read = (if len = 0 then remaining else min len remaining);
                      to_read = min to_read (int MAX_LOG_READ_LIMIT)
                  in Inr (pos, to_read))))"

definition compute_tail_window :: "i64 \<Rightarrow> i64 \<Rightarrow> i64 \<Rightarrow> i64 \<times> i64 \<times> bool" where
  "compute_tail_window sz offset len =
     (let off = max offset 0;
          len = max 0 (min len (int MAX_LOG_READ_LIMIT));
          overflow = i64_saturate (off + len) < sz;
          off = (if overflow then i64_saturate (sz - 1) else off);
          (off, len) =
            (if sz < i64_saturate (off + len)
             then (let len = (if i64_saturate (sz - 1) < off then 0 else len);
                       off = max (sz - len) 0
                   in (off, max (sz - off) 0))
             else (off, len));
          off = (if off < 0 then 0 else off);
          len = (if len < 0 then 0 else len)
      in (off, len, overflow))"

section \<open>Reading\<close>

definition read_bytes_from_slice :: "bytes \<Rightarrow> i64 \<Rightarrow> i64 \<Rightarrow> LogReadError + bytes" where
  "read_bytes_from_slice data offset len =
     (case compute_read_window (int (length data)) offset len of
        Inl e \<Rightarrow> Inl e
      | Inr (pos, to_read) \<Rightarrow>
          if to_read = 0 then Inr []
          else (let end = nat (pos + to_read)
                in Inr (utf8_lossy (drop (nat pos) (take (min end (length data)) data)))))"

definition tail_bytes_from_slice :: "bytes \<Rightarrow> i64 \<Rightarrow> i64 \<Rightarrow> bytes \<times> i64 \<times> bool" where
  "tail_bytes_from_slice data offset len =
     (let sz = int (length data); (off, len, overflow) = compute_tail_window sz offset len;
          slice = (if len = 0 \<or> sz \<le> off then []
                   else drop (nat off) (take (nat (min (off + len) sz)) data))
      in (utf8_lossy slice, sz, overflow))"

text \<open>A file is read to the end of the window or of the file, whichever comes first.\<close>

definition read_at :: "bytes \<Rightarrow> nat \<Rightarrow> nat \<Rightarrow> bytes" where
  "read_at data pos n = take n (drop pos data)"

definition file_read_bytes :: "string option \<Rightarrow> bytes hmap \<Rightarrow> string \<Rightarrow> i64 \<Rightarrow> i64 \<Rightarrow> LogReadError + bytes" where
  "file_read_bytes io_error files path offset len =
     (case hm_get files path of
        None \<Rightarrow> Inl (NoFile path)
      | Some data \<Rightarrow>
          (case io_error of
             Some e \<Rightarrow> Inl (IoError e)
           | None \<Rightarrow>
               (case compute_read_window (int (length data)) offset len of
                  Inl e \<Rightarrow> Inl e
                | Inr (pos, to_read) \<Rightarrow>
                    if to_read = 0 then Inr []
                    else Inr (utf8_lossy (read_at data (nat pos) (nat to_read))))))"

definition file_tail_bytes :: "string option \<Rightarrow> bytes hmap \<Rightarrow> string \<Rightarrow> i64 \<Rightarrow> i64 \<Rightarrow> bytes \<times> i64 \<times> bool" where
  "file_tail_bytes io_error files path offset len =
     (case (hm_get files path, io_error) of
        (Some data, None) \<Rightarrow>
          (let sz = int (length data); (off, len, overflow) = compute_tail_window sz offset len;
               data = (if len = 0 then [] else read_at data (nat off) (nat len))
           in (utf8_lossy data, sz, overflow))
      | _ \<Rightarrow> ([], offset, False))"

definition seed_bytes :: "bytes \<Rightarrow> nat \<Rightarrow> bytes" where
  "seed_bytes data max_seed_bytes =
     (let file_size = length data; seed_cap = max max_seed_bytes 1;
          start_pos = file_size - seed_cap;
          buf = drop start_pos data
      in if file_size = 0 then []
         else if 0 < start_pos
         then (case split_once newline buf of Some (_, rest) \<Rightarrow> rest | None \<Rightarrow> buf)
         else buf)"

definition seed_and_archive ::
  "string option \<Rightarrow> bytes hmap \<Rightarrow> string \<Rightarrow> nat \<Rightarrow> string option
     \<Rightarrow> (string + (bytes \<times> nat) option) \<times> bytes hmap" where
  "seed_and_archive io_error files path max_seed_bytes archive_suffix =
     (case hm_get files path of
        None \<Rightarrow> (Inr None, files)
      | Some data \<Rightarrow>
          (case io_error of
             Some e \<Rightarrow> (Inl e, files)
           | None \<Rightarrow>
               (Inr (Some (seed_bytes data max_seed_bytes, length data)),
                (case archive_suffix of
                   Some suffix \<Rightarrow> hm_remove path (hm_insert (path @ ''.'' @ suffix) data files)
                 | None \<Rightarrow> files))))"

definition seed_from_file ::
  "string option \<Rightarrow> string \<Rightarrow> nat \<Rightarrow> bytes hmap \<times> InMemoryChannelRotator
     \<Rightarrow> (string + nat) \<times> bytes hmap \<times> InMemoryChannelRotator" where
  "seed_from_file io_error path max_seed_bytes s =
     (let (files, cr) = s; bounded_seed = min max_seed_bytes (cr_segment_bytes cr)
      in case seed_and_archive io_error files path bounded_seed (Some ''1'') of
           (Inl e, files) \<Rightarrow> (Inl e, files, cr)
         | (Inr None, files) \<Rightarrow> (Inr 0, files, cr)
         | (Inr (Some (data, file_size)), files) \<Rightarrow>
             (Inr file_size, files, cr\<lparr>cr_ring := seed data file_size (cr_ring cr)\<rparr>))"

section \<open>Properties\<close>

lemma read_window_bounds:
  assumes "0 \<le> sz" and "compute_read_window sz offset len = Inr (pos, n)"
  shows "0 \<le> pos \<and> 0 \<le> n \<and> pos + n \<le> sz \<and> n \<le> int MAX_LOG_READ_LIMIT"
  using assms by (auto simp: compute_read_window_def Let_def MAX_LOG_READ_LIMIT_def split: if_splits)

text \<open>The window of a tail request without the saturating arithmetic.\<close>

lemma tail_window_cases:
  assumes "0 \<le> sz" and "sz < i64_max" and "offset \<le> i64_max"
  shows "compute_tail_window sz offset len =
    (let off = max offset 0; n = max 0 (min len (int MAX_LOG_READ_LIMIT))
     in if off + n < sz then (sz - max n 1, n, True)
        else if sz < off + n then (if sz \<le> off then (sz, 0, False) else (max (sz - n) 0, min n sz, False))
        else (off, n, False))"
proof -
  define off where "off = max offset 0"
  define n where "n = max 0 (min len (int MAX_LOG_READ_LIMIT))"
  have b: "0 \<le> off" "off \<le> i64_max" "0 \<le> n" using assms by (auto simp: off_def n_def i64_max_def)
  have sat: "i64_saturate x = (if x \<le> i64_max then x else i64_max)" if "i64_min \<le> x" for x
    using that by (simp add: i64_saturate_def min_def max_def i64_min_def i64_max_def)
  have s1: "i64_saturate (off + n) = (if off + n \<le> i64_max then off + n else i64_max)"
    "i64_saturate (sz - 1) = sz - 1" "i64_saturate (sz - 1 + n) = (if sz - 1 + n \<le> i64_max then sz - 1 + n else i64_max)"
    using b assms by (auto simp: sat i64_min_def i64_max_def)
  have eq: "compute_tail_window sz offset len =
    (let overflow = i64_saturate (off + n) < sz;
         off = (if overflow then i64_saturate (sz - 1) else off);
         (off, len) =
           (if sz < i64_saturate (off + n)
            then (let len = (if i64_saturate (sz - 1) < off then 0 else n); off = max (sz - len) 0
                  in (off, max (sz - off) 0))
            else (off, n));
         off = (if off < 0 then 0 else off);
         len = (if len < 0 then 0 else len)
     in (off, len, overflow))"
    unfolding compute_tail_window_def off_def n_def Let_def by (rule refl)
  consider "off + n < sz" | "off + n = sz" | "sz < off + n" by linarith
  then show ?thesis unfolding eq off_def [symmetric] n_def [symmetric]
    using b assms by cases (auto simp: Let_def s1)
qed

text \<open>
  A read of a log file stays inside the file and inside the read limit: every accepted
  \<open>readLog\<close> request yields exactly the bytes of its window, and a \<open>tailProcessLog\<close> request yields a
  window of the file that is no longer than asked for; the only rejected requests are a negative
  length and a negative offset with a length.
\<close>

theorem log_windows_in_bounds:
  fixes data :: bytes
  defines "sz \<equiv> int (length data)"
  assumes "sz < i64_max" and "i64_min \<le> offset" and "offset \<le> i64_max"
  shows "(case compute_read_window sz offset len of
       Inl _ \<Rightarrow> (offset < 0 \<and> len \<noteq> 0) \<or> (0 \<le> offset \<and> len < 0)
     | Inr (pos, n) \<Rightarrow> 0 \<le> pos \<and> 0 \<le> n \<and> pos + n \<le> sz \<and> n \<le> int MAX_LOG_READ_LIMIT \<and>
         read_bytes_from_slice data offset len = Inr (utf8_lossy (take (nat n) (drop (nat pos) data))))
    \<and> (case compute_tail_window sz offset len of
       (off, n, overflow) \<Rightarrow> 0 \<le> off \<and> 0 \<le> n \<and> off + n \<le> sz \<and> n \<le> max len 0 \<and>
         n \<le> int MAX_LOG_READ_LIMIT \<and>
         tail_bytes_from_slice data offset len = (utf8_lossy (take (nat n) (drop (nat off) data)), sz, overflow))"
proof
  have sz: "0 \<le> sz" by (simp add: sz_def)
  have slice: "drop (nat a) (take (min (nat (a + n)) (length data)) data) = take (nat n) (drop (nat a) data)"
    if "0 \<le> a" "0 \<le> n" "a + n \<le> sz" for a n
  proof -
    have "nat (a + n) = nat a + nat n" "nat a + nat n \<le> length data" using that by (auto simp: sz_def)
    then show ?thesis by (simp add: drop_take)
  qed
  show "case compute_read_window sz offset len of
       Inl _ \<Rightarrow> (offset < 0 \<and> len \<noteq> 0) \<or> (0 \<le> offset \<and> len < 0)
     | Inr (pos, n) \<Rightarrow> 0 \<le> pos \<and> 0 \<le> n \<and> pos + n \<le> sz \<and> n \<le> int MAX_LOG_READ_LIMIT \<and>
         read_bytes_from_slice data offset len = Inr (utf8_lossy (take (nat n) (drop (nat pos) data)))"
  proof (cases "compute_read_window sz offset len")
    case (Inl e)
    then show ?thesis by (auto simp: compute_read_window_def Let_def split: if_splits)
  next
    case (Inr w)
    obtain pos n where w: "w = (pos, n)" by fastforce
    note b = read_window_bounds [OF sz Inr [unfolded w]]
    have "read_bytes_from_slice data offset len = Inr (utf8_lossy (take (nat n) (drop (nat pos) data)))"
      using Inr w b by (simp add: read_bytes_from_slice_def Let_def slice flip: sz_def)
    then show ?thesis using b Inr w by simp
  qed
  obtain off n v where t: "compute_tail_window sz offset len = (off, n, v)" by (metis prod_cases3)
  define o0 where "o0 = max offset 0"
  define n0 where "n0 = max 0 (min len (int MAX_LOG_READ_LIMIT))"
  have nb: "0 \<le> o0" "0 \<le> n0" "n0 \<le> max len 0" "n0 \<le> int MAX_LOG_READ_LIMIT"
    by (simp_all add: o0_def n0_def)
  have "(off, n, v) = (if o0 + n0 < sz then (sz - max n0 1, n0, True)
      else if sz < o0 + n0 then (if sz \<le> o0 then (sz, 0, False) else (max (sz - n0) 0, min n0 sz, False))
      else (o0, n0, False))"
    using t unfolding tail_window_cases [OF sz assms(2,4)] Let_def o0_def [symmetric] n0_def [symmetric]
    by (rule sym)
  then consider "o0 + n0 < sz" "off = sz - max n0 1" "n = n0" | "off = sz" "n = 0"
    | "sz < o0 + n0" "off = max (sz - n0) 0" "n = min n0 sz" | "o0 + n0 = sz" "off = o0" "n = n0"
    by (auto split: if_splits)
  then have b: "0 \<le> off" "0 \<le> n" "off + n \<le> sz" "n \<le> max len 0" "n \<le> int MAX_LOG_READ_LIMIT"
    using nb sz by (cases; linarith)+
  have "tail_bytes_from_slice data offset len = (utf8_lossy (take (nat n) (drop (nat off) data)), sz, v)"
  proof -
    have "nat (min (off + n) sz) = min (nat (off + n)) (length data)" using b sz by (simp add: sz_def)
    then show ?thesis using t slice [of off n] b by (auto simp: tail_bytes_from_slice_def sz_def Let_def)
  qed
  then show "case compute_tail_window sz offset len of
       (off, n, overflow) \<Rightarrow> 0 \<le> off \<and> 0 \<le> n \<and> off + n \<le> sz \<and> n \<le> max len 0 \<and>
         n \<le> int MAX_LOG_READ_LIMIT \<and>
         tail_bytes_from_slice data offset len = (utf8_lossy (take (nat n) (drop (nat off) data)), sz, overflow)"
    using b t by simp
qed

theorem log_windows_in_bounds_witness:
  "(case compute_tail_window 3 1 1 of
       (off, n, overflow) \<Rightarrow> tail_bytes_from_slice ''abc'' 1 1 = (utf8_lossy (take (nat n) (drop (nat off) ''abc'')), 3, overflow))"
  using log_windows_in_bounds [of "''abc''" 1 1] by (simp add: i64_max_def i64_min_def split_beta)

text \<open>
  A tail request that reaches beyond the end of the file moves its window back: with 100 bytes
  of log, asking for 50 bytes from offset 90 returns bytes 50 to 99, not 90 to 99.
\<close>

lemma tail_window_moves_back: "compute_tail_window 100 90 50 = (50, 50, False)"
  by (simp add: compute_tail_window_def MAX_LOG_READ_LIMIT_def i64_saturate_def i64_max_def i64_min_def Let_def)

text \<open>
  After a ring has been seeded it counts as many retained bytes as it could hold of the file,
  however few bytes the seed has.
\<close>

lemma seed_byte_size:
  assumes "data \<noteq> []" and "length data \<le> file_size"
  shows "ring_byte_size (seed data file_size rb) = min (rb_capacity rb) file_size"
proof -
  have "0 < file_size" using assms by (cases data) auto
  then show ?thesis using assms
    by (auto simp: seed_def write_bytes_def ring_byte_size_def ring_clear_def Let_def split_beta)
qed

end
