(* ===== verification/Background_Tasks.thy ===== *)
theory Background_Tasks
  imports Program_Actor Rust_Text
begin

text \<open>
  Tasks that run beside the actors: the tracker of client activity that pauses the sampling of
  resource usage (\<open>src/src/manager/activity.rs\<close>), the ticker of the event listeners
  (\<open>SupervisorManagerBuilder::build\<close> in \<open>src/src/manager/supervisor.rs\<close>), and the health probes
  (\<open>src/src/manager/health.rs\<close>). The clock and the outcome of network calls are arguments.
\<close>

section \<open>Client activity\<close>

text \<open>
  The counter of observers is shared by the guards of the open streams; \<open>t_wakeups\<close> counts the calls
  of \<open>notify_waiters\<close>. Instants are durations since some origin.
\<close>

record ActivityTracker =
  t_last_activity :: duration
  t_active_observers :: nat
  t_idle_timeout_secs :: nat
  t_interval_secs :: nat
  t_enabled :: bool
  t_wakeups :: nat

definition DEFAULT_METRICS_IDLE_TIMEOUT :: duration where
  [duration_defs]: "DEFAULT_METRICS_IDLE_TIMEOUT = from_secs 30"
definition DEFAULT_METRICS_INTERVAL :: duration where
  [duration_defs]: "DEFAULT_METRICS_INTERVAL = from_secs 2"

definition with_interval :: "duration \<Rightarrow> nat \<Rightarrow> nat \<Rightarrow> bool \<Rightarrow> ActivityTracker" where
  "with_interval now idle interval enabled =
     \<lparr>t_last_activity = now, t_active_observers = 0, t_idle_timeout_secs = idle,
      t_interval_secs = max interval 1, t_enabled = enabled, t_wakeups = 0\<rparr>"

definition tracker_new :: "duration \<Rightarrow> nat \<Rightarrow> bool \<Rightarrow> ActivityTracker" where
  "tracker_new now idle enabled = with_interval now idle (as_secs DEFAULT_METRICS_INTERVAL) enabled"

definition tracker_default :: "duration \<Rightarrow> ActivityTracker" where
  "tracker_default now =
     with_interval now (as_secs DEFAULT_METRICS_IDLE_TIMEOUT) (as_secs DEFAULT_METRICS_INTERVAL) True"

definition idle_duration :: "duration \<Rightarrow> ActivityTracker \<Rightarrow> duration" where
  "idle_duration now t = now - t_last_activity t"

definition is_idle :: "duration \<Rightarrow> ActivityTracker \<Rightarrow> bool" where
  "is_idle now t \<longleftrightarrow>
     (if t_idle_timeout_secs t = 0 then False
      else from_secs (t_idle_timeout_secs t) \<le> idle_duration now t)"

definition is_metrics_active :: "duration \<Rightarrow> ActivityTracker \<Rightarrow> bool" where
  "is_metrics_active now t \<longleftrightarrow>
     (if \<not> t_enabled t then False
      else if t_active_observers t > 0 then True
      else if t_idle_timeout_secs t = 0 then True
      else idle_duration now t < from_secs (t_idle_timeout_secs t))"

definition notify_waiters :: "ActivityTracker \<Rightarrow> ActivityTracker" where
  "notify_waiters t = t\<lparr>t_wakeups := Suc (t_wakeups t)\<rparr>"

definition record_activity :: "duration \<Rightarrow> ActivityTracker \<Rightarrow> ActivityTracker" where
  "record_activity now t =
     (let was_inactive = \<not> is_metrics_active now t;
          t = t\<lparr>t_last_activity := now\<rparr>
      in if was_inactive then notify_waiters t else t)"

definition reset_activity :: "duration \<Rightarrow> ActivityTracker \<Rightarrow> ActivityTracker" where
  "reset_activity now t = notify_waiters (t\<lparr>t_last_activity := now\<rparr>)"

definition enter_stream :: "duration \<Rightarrow> ActivityTracker \<Rightarrow> ActivityTracker" where
  "enter_stream now t =
     (let was_inactive = \<not> is_metrics_active now t;
          t = t\<lparr>t_active_observers := Suc (t_active_observers t)\<rparr>;
          t = record_activity now t
      in if was_inactive then notify_waiters t else t)"

definition leave_stream :: "ActivityTracker \<Rightarrow> ActivityTracker" where
  "leave_stream t = t\<lparr>t_active_observers := t_active_observers t - 1\<rparr>"

text \<open>What clients do over time; \<open>guards\<close> is the number of streams that are open.\<close>

datatype Activity = Record | Reset | Enter | Leave

fun tracker_step :: "duration \<times> Activity \<Rightarrow> ActivityTracker \<Rightarrow> ActivityTracker" where
  "tracker_step (now, Record) t = record_activity now t"
| "tracker_step (now, Reset) t = reset_activity now t"
| "tracker_step (now, Enter) t = enter_stream now t"
| "tracker_step (now, Leave) t = leave_stream t"

fun guards :: "nat \<Rightarrow> (duration \<times> Activity) list \<Rightarrow> nat option" where
  "guards n [] = Some n"
| "guards n ((_, Enter) # as) = guards (Suc n) as"
| "guards n ((_, Leave) # as) = (if n = 0 then None else guards (n - 1) as)"
| "guards n (_ # as) = guards n as"

lemma tracker_step_frame [simp]:
  "t_enabled (tracker_step a t) = t_enabled t"
  "t_idle_timeout_secs (tracker_step a t) = t_idle_timeout_secs t"
  "t_interval_secs (tracker_step a t) = t_interval_secs t"
  by (cases "(a, t)" rule: tracker_step.cases;
      simp add: record_activity_def reset_activity_def enter_stream_def leave_stream_def
        notify_waiters_def Let_def)+

lemma tracker_step_observers:
  "t_active_observers (tracker_step (now, a) t) =
     (case a of Enter \<Rightarrow> Suc (t_active_observers t) | Leave \<Rightarrow> t_active_observers t - 1
      | _ \<Rightarrow> t_active_observers t)"
  by (cases a; simp add: record_activity_def reset_activity_def enter_stream_def leave_stream_def
      notify_waiters_def Let_def)

text \<open>The counter is the number of open streams, and while one is open the metrics are active.\<close>

lemma observers_are_guards:
  "guards (t_active_observers t) as = Some n \<Longrightarrow> t_active_observers (fold tracker_step as t) = n"
proof (induction as arbitrary: t)
  case (Cons x as)
  obtain now a where x: "x = (now, a)" by (cases x)
  show ?case using Cons.IH [of "tracker_step x t"] Cons.prems
    by (cases a) (auto simp: x tracker_step_observers split: if_splits simp del: tracker_step.simps)
qed simp

lemma open_stream_active:
  assumes "guards 0 as = Some n" and "0 < n" and "enabled"
  shows "is_metrics_active now (fold tracker_step as (with_interval start idle interval enabled))"
proof -
  let ?t = "with_interval start idle interval enabled"
  have "t_enabled (fold tracker_step as t) = t_enabled t" for t by (induction as arbitrary: t) auto
  moreover have "t_active_observers (fold tracker_step as ?t) = n"
    using assms(1) by (intro observers_are_guards) (simp add: with_interval_def)
  ultimately show ?thesis using assms(2,3) by (simp add: is_metrics_active_def with_interval_def)
qed

text \<open>No activation goes without a wake-up of the samplers that wait.\<close>

lemma activation_notifies:
  assumes "\<not> is_metrics_active now t" and "is_metrics_active now (tracker_step (now, a) t)"
  shows "t_wakeups t < t_wakeups (tracker_step (now, a) t)"
  using assms
  by (cases a) (auto simp: record_activity_def reset_activity_def enter_stream_def leave_stream_def
      notify_waiters_def Let_def is_metrics_active_def idle_duration_def split: if_splits)

text \<open>
  A sampler looks at the tracker first and registers for a wake-up afterwards. Activity in between
  is lost on it: the tracker is active from then on, so that no further activity within the idle
  timeout wakes it.
\<close>

lemma sampler_misses_activity:
  assumes "t_enabled t" and "\<not> is_metrics_active now t"
    and "now \<le> later" and "later < now + from_secs (t_idle_timeout_secs t)"
  shows "is_metrics_active later (record_activity now t) \<and>
         t_wakeups (record_activity later (record_activity now t)) = t_wakeups (record_activity now t)"
  using assms
  by (auto simp: record_activity_def notify_waiters_def Let_def is_metrics_active_def idle_duration_def
      split: if_splits)

section \<open>The ticker\<close>

type_synonym Ticker = "nat \<times> nat \<times> nat"

definition tick_bucket :: "nat \<Rightarrow> nat \<Rightarrow> nat \<Rightarrow> nat \<times> SystemEvent list" where
  "tick_bucket k now prev =
     (let sec = now div k in if sec \<noteq> prev then (sec, [Tick k now]) else (prev, []))"

definition ticker_tick :: "nat \<Rightarrow> Ticker \<Rightarrow> Ticker \<times> SystemEvent list" where
  "ticker_tick now s =
     (let (last_5, last_60, last_3600) = s;
          (last_5, e5) = tick_bucket 5 now last_5;
          (last_60, e60) = tick_bucket 60 now last_60;
          (last_3600, e3600) = tick_bucket 3600 now last_3600
      in ((last_5, last_60, last_3600), e5 @ e60 @ e3600))"

fun ticker_run :: "nat list \<Rightarrow> Ticker \<Rightarrow> SystemEvent list" where
  "ticker_run [] s = []"
| "ticker_run (now # nows) s = (let (s, es) = ticker_tick now s in es @ ticker_run nows s)"

definition tick_times :: "nat \<Rightarrow> SystemEvent list \<Rightarrow> nat list" where
  "tick_times k es = concat (map (\<lambda>e. case e of Tick k' t \<Rightarrow> if k' = k then [t] else [] | _ \<Rightarrow> []) es)"

text \<open>The reference: a tick for the first moment of every new interval.\<close>

fun interval_starts :: "nat \<Rightarrow> nat \<Rightarrow> nat list \<Rightarrow> nat list" where
  "interval_starts k prev [] = []"
| "interval_starts k prev (t # ts) =
     (if t div k = prev then interval_starts k prev ts else t # interval_starts k (t div k) ts)"

lemma ticker_reference:
  "tick_times 5 (ticker_run ts (a, b, c)) = interval_starts 5 a ts"
  "tick_times 60 (ticker_run ts (a, b, c)) = interval_starts 60 b ts"
  "tick_times 3600 (ticker_run ts (a, b, c)) = interval_starts 3600 c ts"
  by (induction ts arbitrary: a b c) (auto simp: ticker_tick_def tick_bucket_def tick_times_def Let_def)

lemma interval_starts_set: "set (interval_starts k prev ts) \<subseteq> set ts"
  by (induction k prev ts rule: interval_starts.induct) auto

lemma interval_starts_above:
  "sorted ts \<Longrightarrow> (\<And>t. t \<in> set ts \<Longrightarrow> prev \<le> t div k) \<Longrightarrow> x \<in> set (interval_starts k prev ts) \<Longrightarrow> prev < x div k"
proof (induction ts arbitrary: prev)
  case (Cons t ts)
  have ge: "t div k \<le> y div k" if "y \<in> set ts" for y using Cons.prems(1) that by (auto intro: div_le_mono)
  have l: "prev \<le> t div k" using Cons.prems(2) by simp
  show ?case
  proof (cases "t div k = prev")
    case True
    then show ?thesis using Cons.IH [of prev] Cons.prems by auto
  next
    case False
    then have "prev < t div k" using l by simp
    moreover have "t div k < x div k" if "x \<in> set (interval_starts k (t div k) ts)"
      using Cons.IH [of "t div k"] Cons.prems(1) ge that by auto
    ultimately show ?thesis using Cons.prems(3) False by auto
  qed
qed simp

text \<open>While the clock does not go back, no interval has two ticks, and they come in order.\<close>

lemma ticks_strict:
  assumes "sorted ts" shows "sorted_wrt (\<lambda>x y. x div k < y div k) (interval_starts k prev ts)"
  using assms
proof (induction ts arbitrary: prev)
  case (Cons t ts)
  have "t div k < x div k" if "x \<in> set (interval_starts k (t div k) ts)" for x
    using interval_starts_above [of ts "t div k" k x] Cons.prems that by (auto intro: div_le_mono)
  then show ?case using Cons by auto
qed simp

section \<open>Health probes\<close>

text \<open>A probe result updates the count of failures (32 bits) and may report a change.\<close>

type_synonym ProbeState = "nat \<times> HealthStatus"

definition probe_start :: ProbeState where
  "probe_start = (0, HealthStarting)"

definition probe_interval :: "HealthCheckConfig \<Rightarrow> duration" where
  "probe_interval c = max (h_interval_secs c) (from_secs 1)"

definition probe_timeout :: "HealthCheckConfig \<Rightarrow> duration" where
  "probe_timeout c = max (h_timeout_secs c) (from_secs 1)"

definition probe_result :: "HealthCheckConfig \<Rightarrow> bool \<Rightarrow> ProbeState \<Rightarrow> ProbeState \<times> HealthEvent list" where
  "probe_result c is_ok s =
     (let (failures, last_reported) = s
      in if is_ok
         then (if last_reported \<noteq> Healthy then ((0, Healthy), [EvHealthy]) else ((0, last_reported), []))
         else (let failures = (failures + 1) mod 2 ^ 32
               in if h_failure_threshold c \<le> failures \<and> last_reported \<noteq> Unhealthy
                  then ((failures, Unhealthy), [EvUnhealthy])
                  else ((failures, last_reported), [])))"

fun probe_run :: "HealthCheckConfig \<Rightarrow> bool list \<Rightarrow> ProbeState \<Rightarrow> ProbeState \<times> HealthEvent list" where
  "probe_run c [] s = (s, [])"
| "probe_run c (ok # oks) s =
     (let (s, es) = probe_result c ok s; (s, es') = probe_run c oks s in (s, es @ es'))"

fun report_status :: "HealthEvent \<Rightarrow> HealthStatus" where
  "report_status EvHealthy = Healthy"
| "report_status EvUnhealthy = Unhealthy"

lemma probe_run_append:
  "probe_run c (xs @ ys) s =
     (let (s, es) = probe_run c xs s; (s, es') = probe_run c ys s in (s, es @ es'))"
  by (induction xs arbitrary: s) (auto simp: Let_def split_beta)

text \<open>What the probe knows: the failures since the last success, and its last report.\<close>

lemma probe_failures:
  assumes "length oks < 2 ^ 32"
  shows "fst (fst (probe_run c oks probe_start)) = length (takeWhile Not (rev oks))"
  using assms
proof (induction oks rule: rev_induct)
  case (snoc ok oks)
  have "length (takeWhile Not (rev oks)) \<le> length oks"
    by (metis length_rev length_takeWhile_le)
  then show ?case using snoc
    by (auto simp: probe_run_append Let_def split_beta probe_result_def)
qed (simp add: probe_start_def)

lemma probe_reports:
  "snd (fst (probe_run c oks s)) = last (snd s # map report_status (snd (probe_run c oks s))) \<and>
   distinct_adj (snd s # map report_status (snd (probe_run c oks s)))"
proof (induction oks arbitrary: s)
  case (Cons ok oks)
  obtain s1 es where r: "probe_result c ok s = (s1, es)" by (cases "probe_result c ok s")
  have "(es = [] \<and> snd s1 = snd s) \<or> (\<exists>e. es = [e] \<and> snd s1 = report_status e \<and> snd s \<noteq> report_status e)"
    using r by (auto simp: probe_result_def Let_def split_beta split: if_splits)
  then show ?case using Cons.IH [of s1] by (auto simp: r split_beta)
qed simp

text \<open>A program is reported unhealthy exactly after the configured number of failures in a row.\<close>

lemma unhealthy_after_threshold:
  assumes "length oks + 1 < 2 ^ 32"
  shows "snd (probe_result c ok (fst (probe_run c oks probe_start))) = [EvUnhealthy] \<longleftrightarrow>
     \<not> ok \<and> h_failure_threshold c \<le> length (takeWhile Not (rev (oks @ [ok]))) \<and>
     snd (fst (probe_run c oks probe_start)) \<noteq> Unhealthy"
proof -
  have "length (takeWhile Not (rev oks)) \<le> length oks"
    by (metis length_rev length_takeWhile_le)
  then show ?thesis
    using probe_failures [of oks c] assms by (auto simp: probe_result_def Let_def split_beta)
qed

subsection \<open>The probe over HTTP\<close>

fun split_blanks :: "string \<Rightarrow> string list" where
  "split_blanks [] = []"
| "split_blanks (c # cs) =
     (if is_ascii_space c then split_blanks cs
      else (case cs of
              [] \<Rightarrow> [[c]]
            | d # _ \<Rightarrow> (if is_ascii_space d then [c] # split_blanks cs
                       else (case split_blanks cs of [] \<Rightarrow> [[c]] | w # ws \<Rightarrow> (c # w) # ws))))"

definition crlf :: string where
  "crlf = [carriage_return, newline]"

text \<open>The address to connect to and the request to send; no other scheme is probed.\<close>

definition http_probe_request :: "string \<Rightarrow> (string \<times> string) option" where
  "http_probe_request url =
     (case strip_prefix ''http://'' url of
        None \<Rightarrow> None
      | Some rest \<Rightarrow>
          (let (host_port, tail) = (case split_once (CHR ''/'') rest of Some (h, p) \<Rightarrow> (h, p) | None \<Rightarrow> (rest, ''''));
               addr = (if CHR '':'' \<in> set host_port then host_port else host_port @ '':80'')
           in Some (addr,
                ''GET /'' @ tail @ '' HTTP/1.1'' @ crlf @ ''Host: '' @ host_port @ crlf @
                ''Connection: close'' @ crlf @ ''User-Agent: rsupervisord-healthcheck'' @ crlf @ crlf)))"

text \<open>The bytes of the first read, at most 512, are taken for the start of the response.\<close>

definition http_status_of :: "bytes \<Rightarrow> nat" where
  "http_status_of buf =
     (let resp = utf8_lossy buf;
          first_line = (case rust_lines resp of [] \<Rightarrow> '''' | l # _ \<Rightarrow> l)
      in case split_blanks first_line of
           _ # code # _ \<Rightarrow> (case parse_unsigned (2 ^ 16 - 1) code of Some n \<Rightarrow> n | None \<Rightarrow> 0)
         | _ \<Rightarrow> 0)"

definition check_http :: "string \<Rightarrow> nat \<Rightarrow> (string \<Rightarrow> bool) \<Rightarrow> (string \<Rightarrow> bytes option) \<Rightarrow> bool" where
  "check_http url expected connect exchange =
     (case http_probe_request url of
        None \<Rightarrow> False
      | Some (addr, request) \<Rightarrow>
          connect addr \<and>
          (case exchange request of
             None \<Rightarrow> False
           | Some buf \<Rightarrow> buf \<noteq> [] \<and> http_status_of (take 512 buf) = expected))"

text \<open>
  The outcome of a probe: \<open>connect\<close> says whether a connection is made within the limit, \<open>exchange\<close>
  what is read in answer to a request, \<open>run\<close> whether a command ends with success.
\<close>

definition health_check ::
  "HealthCheckType \<Rightarrow> (string \<Rightarrow> bool) \<Rightarrow> (string \<Rightarrow> bytes option) \<Rightarrow> (string \<Rightarrow> bool) \<Rightarrow> bool" where
  "health_check ty connect exchange run =
     (case ty of
        Http url expected \<Rightarrow> check_http url expected connect exchange
      | HealthCheckType.Tcp endpoint \<Rightarrow> connect endpoint
      | Exec command \<Rightarrow> run command)"

end
