(* ===== verification/Manager_Handle.thy ===== *)
theory Manager_Handle
  imports Supervisor_World Log_Reader Background_Tasks
begin

text \<open>
  The handle through which the web server, the legacy interface and the watch service talk to the
  manager (\<open>ManagerHandle\<close> in \<open>src/src/manager/supervisor.rs\<close>): it looks for the programs that a
  command is about in the shared copy of the configuration, derives from them how long it waits,
  sends the command and waits for the reply. The other end of the channel is a function \<open>serve\<close>
  from the request to whether it could be sent and to the reply, which may come late or never, or
  whose sender may be dropped. The lemmas relate the search of the handle to that of the manager
  and its time limits to those of the programs.
\<close>

section \<open>Requests and their replies\<close>

definition AWAIT_STDIN :: duration where [duration_defs]: "AWAIT_STDIN = from_secs 15"
definition MANAGER_SHUTDOWN_TIMEOUT :: duration where
  [duration_defs]: "MANAGER_SHUTDOWN_TIMEOUT = from_secs 30"

text \<open>The requests that only read, and those on logs and standard input.\<close>

datatype ManagerQuery =
    GetStatus string
  | GetAllStatus
  | ReadLogs string "nat option"
  | SubscribeLogs string
  | ReadLog string LogChannel i64 i64
  | TailLog string LogChannel i64 i64
  | ClearProcessLogs string
  | ReadMainLog i64 i64
  | TailMainLog i64 i64
  | ClearMainLog
  | SendStdin string bytes
  | GetConfig string
  | GetAllConfigs

record ManagerHandle =
  h_server_identifier :: string
  h_shared_configs :: "ProgramConfig hmap"
  h_shared_pending_configs :: "ProgramConfig hmap"
  h_cancelled :: bool
  h_activity_tracker :: ActivityTracker

type_synonym ('c, 'a) service = "'c \<Rightarrow> bool \<times> 'a result option future"

definition ask_as :: "string \<Rightarrow> ('c, 'a) service \<Rightarrow> duration \<Rightarrow> 'c \<Rightarrow> 'a result" where
  "ask_as name serve limit cmd =
     (let (channel_open, reply) = serve cmd in await_reply name channel_open limit reply)"

definition ask :: "('c, 'a) service \<Rightarrow> duration \<Rightarrow> 'c \<Rightarrow> 'a result" where
  "ask = ask_as ''manager''"

section \<open>Finding the programs of a request\<close>

definition find_targets_for_program :: "ManagerHandle \<Rightarrow> string \<Rightarrow> ProgramConfig list" where
  "find_targets_for_program h name =
     (let trimmed = trim name; configs = h_shared_configs h
      in case hm_get configs trimmed of
           Some cfg \<Rightarrow> [cfg]
         | None \<Rightarrow>
             (let colon = (case split_once (CHR '':'') trimmed of
                             Some (g, p) \<Rightarrow>
                               map snd (filter (\<lambda>(p_name, cfg). group_member g p p_name cfg) configs)
                           | None \<Rightarrow> [])
              in if colon \<noteq> [] then colon
                 else sort_key c_name (filter (\<lambda>cfg. c_group cfg = trimmed) (vals configs))))"

definition find_targets_for_group :: "ManagerHandle \<Rightarrow> string \<Rightarrow> ProgramConfig list" where
  "find_targets_for_group h grp =
     (let trimmed = trim grp;
          targets = find_targets_for_program h (trimmed @ '':*'')
      in if targets \<noteq> [] then targets else find_targets_for_program h trimmed)"

section \<open>Time limits\<close>

text \<open>\<open>.max(lower).min(MAX_TIMEOUT)\<close>, and the conversion of a count to 32 bits.\<close>

definition limited :: "duration \<Rightarrow> duration \<Rightarrow> duration" where
  "limited lower d = min (max d lower) MAX_TIMEOUT"

definition as_u32 :: "nat \<Rightarrow> nat" where
  "as_u32 n = n mod 2 ^ 32"

definition start_share :: "nat \<Rightarrow> duration" where
  "start_share n =
     saturating_add
       (saturating_mul (saturating_add DEFAULT_HOOK_TIMEOUT AWAIT_QUERY) (as_u32 (max n 1)))
       AWAIT_QUERY"

definition stop_share :: "duration \<Rightarrow> duration \<Rightarrow> duration" where
  "stop_share extra grace =
     add_or MAX_TIMEOUT
       (add_or MAX_TIMEOUT (add_or MAX_TIMEOUT grace DEFAULT_HOOK_TIMEOUT) DRAIN_TIMEOUT) extra"

definition stop_shares :: "duration \<Rightarrow> duration option \<Rightarrow> ProgramConfig list \<Rightarrow> duration" where
  "stop_shares extra grace targets =
     foldl saturating_add 0
       (map (\<lambda>cfg. stop_share extra (unwrap_or grace (c_stop_wait_secs cfg))) targets)"

definition compute_start_program_timeout :: "ManagerHandle \<Rightarrow> string \<Rightarrow> duration" where
  "compute_start_program_timeout h name =
     limited AWAIT_ACTION (start_share (length (find_targets_for_program h name)))"

definition compute_stop_program_timeout ::
  "ManagerHandle \<Rightarrow> string \<Rightarrow> duration option \<Rightarrow> duration" where
  "compute_stop_program_timeout h name grace =
     (let targets = find_targets_for_program h name
      in if targets = []
         then limited AWAIT_ACTION (stop_share STOP_GRACE_EXTRA (unwrap_or grace DEFAULT_STOP_WAIT))
         else limited AWAIT_ACTION
                (saturating_add (stop_shares STOP_GRACE_EXTRA grace targets) AWAIT_QUERY))"

definition compute_restart_program_timeout ::
  "ManagerHandle \<Rightarrow> string \<Rightarrow> duration option \<Rightarrow> duration" where
  "compute_restart_program_timeout h name grace =
     (let targets = find_targets_for_program h name;
          start_dur = start_share (length targets);
          stop_dur = (if targets = []
                      then add_or MAX_TIMEOUT
                             (add_or MAX_TIMEOUT
                                (add_or MAX_TIMEOUT (unwrap_or grace DEFAULT_STOP_WAIT)
                                   (DEFAULT_HOOK_TIMEOUT * 2)) DRAIN_TIMEOUT) RESTART_GRACE_EXTRA
                      else stop_shares RESTART_GRACE_EXTRA grace targets)
      in limited AWAIT_ACTION (saturating_add stop_dur start_dur))"

definition compute_start_group_timeout :: "ManagerHandle \<Rightarrow> string \<Rightarrow> duration" where
  "compute_start_group_timeout h grp =
     limited AWAIT_GROUP (start_share (length (find_targets_for_group h grp)))"

definition compute_stop_group_timeout ::
  "ManagerHandle \<Rightarrow> string \<Rightarrow> duration option \<Rightarrow> duration" where
  "compute_stop_group_timeout h grp grace =
     (let targets = find_targets_for_group h grp
      in if targets = [] then AWAIT_GROUP
         else limited AWAIT_GROUP
                (saturating_add (stop_shares STOP_GRACE_EXTRA grace targets) AWAIT_QUERY))"

definition compute_restart_group_timeout ::
  "ManagerHandle \<Rightarrow> string \<Rightarrow> duration option \<Rightarrow> duration" where
  "compute_restart_group_timeout h grp grace =
     (let targets = find_targets_for_group h grp;
          start_dur = start_share (length targets);
          stop_dur = (if targets = [] then AWAIT_GROUP
                      else stop_shares RESTART_GRACE_EXTRA grace targets)
      in limited AWAIT_BULK (saturating_add stop_dur start_dur))"

definition compute_add_process_group_timeout :: "ManagerHandle \<Rightarrow> string \<Rightarrow> duration" where
  "compute_add_process_group_timeout h grp =
     limited AWAIT_GROUP
       (start_share (length (filter (\<lambda>cfg. c_group cfg = grp) (vals (h_shared_pending_configs h)))))"

definition start_all_timeout :: "ManagerHandle \<Rightarrow> duration" where
  "start_all_timeout h = limited AWAIT_BULK (start_share (length (h_shared_configs h)))"

definition stop_all_timeout :: "ManagerHandle \<Rightarrow> duration option \<Rightarrow> duration" where
  "stop_all_timeout h grace =
     (if h_shared_configs h = [] then AWAIT_BULK
      else limited AWAIT_BULK
             (saturating_add (stop_shares STOP_GRACE_EXTRA grace (vals (h_shared_configs h)))
                AWAIT_QUERY))"

definition reload_config_timeout :: "ManagerHandle \<Rightarrow> duration" where
  "reload_config_timeout h =
     (let per_proc = saturating_add (saturating_add DEFAULT_STOP_WAIT DEFAULT_HOOK_TIMEOUT)
                       STOP_GRACE_EXTRA
      in limited AWAIT_GROUP
           (saturating_add (saturating_mul per_proc (as_u32 (max (length (h_shared_configs h)) 1)))
              AWAIT_QUERY))"

definition restart_daemon_timeout :: "ManagerHandle \<Rightarrow> duration" where
  "restart_daemon_timeout h =
     (let per_proc = saturating_add (saturating_add DEFAULT_STOP_WAIT DEFAULT_HOOK_TIMEOUT)
                       RESTART_GRACE_EXTRA
      in limited AWAIT_BULK
           (saturating_add (saturating_mul per_proc (as_u32 (max (length (h_shared_configs h)) 1)))
              AWAIT_BULK))"

section \<open>The operations\<close>

definition client_start_program ::
  "(ManagerCommand, unit) service \<Rightarrow> ManagerHandle \<Rightarrow> string \<Rightarrow> unit result" where
  "client_start_program serve h name =
     ask serve (compute_start_program_timeout h name) (StartProgram name)"

definition client_stop_program ::
  "(ManagerCommand, unit) service \<Rightarrow> ManagerHandle \<Rightarrow> string \<Rightarrow> duration option \<Rightarrow> unit result" where
  "client_stop_program serve h name grace =
     ask serve (compute_stop_program_timeout h name grace) (StopProgram name grace)"

definition client_restart_program ::
  "(ManagerCommand, unit) service \<Rightarrow> ManagerHandle \<Rightarrow> string \<Rightarrow> duration option \<Rightarrow> unit result" where
  "client_restart_program serve h name grace =
     ask serve (compute_restart_program_timeout h name grace) (RestartProgram name grace)"

definition client_signal_program ::
  "(ManagerCommand, unit) service \<Rightarrow> string \<Rightarrow> StopSignal \<Rightarrow> unit result" where
  "client_signal_program serve name sig = ask serve AWAIT_QUERY (SignalProgram name sig)"

definition client_start_group ::
  "(ManagerCommand, string list) service \<Rightarrow> ManagerHandle \<Rightarrow> string \<Rightarrow> string list result" where
  "client_start_group serve h grp =
     ask serve (compute_start_group_timeout h grp) (StartGroup grp)"

definition client_stop_group ::
  "(ManagerCommand, string list) service \<Rightarrow> ManagerHandle \<Rightarrow> string \<Rightarrow> duration option
     \<Rightarrow> string list result" where
  "client_stop_group serve h grp grace =
     ask serve (compute_stop_group_timeout h grp grace) (StopGroup grp grace)"

definition client_restart_group ::
  "(ManagerCommand, string list) service \<Rightarrow> ManagerHandle \<Rightarrow> string \<Rightarrow> duration option
     \<Rightarrow> string list result" where
  "client_restart_group serve h grp grace =
     ask serve (compute_restart_group_timeout h grp grace) (RestartGroup grp grace)"

definition client_start_all :: "(ManagerCommand, unit) service \<Rightarrow> ManagerHandle \<Rightarrow> unit result" where
  "client_start_all serve h = ask serve (start_all_timeout h) StartAll"

definition client_stop_all ::
  "(ManagerCommand, unit) service \<Rightarrow> ManagerHandle \<Rightarrow> duration option \<Rightarrow> unit result" where
  "client_stop_all serve h grace = ask serve (stop_all_timeout h grace) (StopAll grace)"

definition client_reload_config ::
  "(ManagerCommand, ReloadSummary) service \<Rightarrow> ManagerHandle \<Rightarrow> ProgramConfig hmap result
     \<Rightarrow> LoggingConfig \<Rightarrow> ReloadSummary result" where
  "client_reload_config serve h resolved logging =
     ask serve (reload_config_timeout h) (ReloadConfig resolved logging)"

definition client_restart_daemon ::
  "(ManagerCommand, unit) service \<Rightarrow> ManagerHandle \<Rightarrow> ProgramConfig hmap result
     \<Rightarrow> LoggingConfig \<Rightarrow> nat \<Rightarrow> unit result" where
  "client_restart_daemon serve h resolved logging timestamp =
     ask serve (restart_daemon_timeout h) (RestartDaemon resolved logging timestamp)"

text \<open>Some requests are recorded as client activity first, at the given time.\<close>

definition active :: "duration \<Rightarrow> ManagerHandle \<Rightarrow> ManagerHandle" where
  "active now h = h\<lparr>h_activity_tracker := record_activity now (h_activity_tracker h)\<rparr>"

definition client_add_process_group ::
  "(ManagerCommand, bool) service \<Rightarrow> duration \<Rightarrow> string \<Rightarrow> ManagerHandle \<Rightarrow> bool result \<times> ManagerHandle" where
  "client_add_process_group serve now name h =
     (let h = active now h
      in (ask serve (compute_add_process_group_timeout h name) (AddProcessGroup name), h))"

definition client_remove_process_group ::
  "(ManagerCommand, bool) service \<Rightarrow> duration \<Rightarrow> string \<Rightarrow> ManagerHandle \<Rightarrow> bool result \<times> ManagerHandle" where
  "client_remove_process_group serve now name h =
     (let h = active now h in (ask serve AWAIT_BULK (RemoveProcessGroup name), h))"

definition client_get_status ::
  "(ManagerQuery, ProgramStatus) service \<Rightarrow> duration \<Rightarrow> string \<Rightarrow> ManagerHandle
     \<Rightarrow> ProgramStatus result \<times> ManagerHandle" where
  "client_get_status serve now name h =
     (let h = active now h in (ask serve AWAIT_QUERY (GetStatus name), h))"

text \<open>Two requests have replies that cannot be errors.\<close>

definition infallible :: "bool \<times> 'a option future \<Rightarrow> bool \<times> 'a result option future" where
  "infallible x = (fst x, map_option (\<lambda>(t, r). (t, map_option Inr r)) (snd x))"

definition client_get_all_status ::
  "(ManagerQuery \<Rightarrow> bool \<times> ProgramStatus list option future) \<Rightarrow> duration \<Rightarrow> ManagerHandle
     \<Rightarrow> ProgramStatus list result \<times> ManagerHandle" where
  "client_get_all_status serve now h =
     (let h = active now h in (ask (infallible \<circ> serve) AWAIT_QUERY GetAllStatus, h))"

definition client_get_all_configs ::
  "(ManagerQuery \<Rightarrow> bool \<times> ProgramConfig hmap option future) \<Rightarrow> ProgramConfig hmap result" where
  "client_get_all_configs serve = ask (infallible \<circ> serve) AWAIT_QUERY GetAllConfigs"

definition client_get_config ::
  "(ManagerQuery, ProgramConfig) service \<Rightarrow> string \<Rightarrow> ProgramConfig result" where
  "client_get_config serve name = ask serve AWAIT_QUERY (GetConfig name)"

definition client_read_logs ::
  "(ManagerQuery, string list) service \<Rightarrow> string \<Rightarrow> nat option \<Rightarrow> string list result" where
  "client_read_logs serve name n = ask serve AWAIT_QUERY (ReadLogs name n)"

definition client_subscribe_logs :: "(ManagerQuery, 'rx) service \<Rightarrow> string \<Rightarrow> 'rx result" where
  "client_subscribe_logs serve name = ask serve AWAIT_QUERY (SubscribeLogs name)"

definition client_read_log ::
  "(ManagerQuery, bytes \<times> i64 \<times> bool) service \<Rightarrow> string \<Rightarrow> LogChannel \<Rightarrow> i64 \<Rightarrow> i64
     \<Rightarrow> (bytes \<times> i64 \<times> bool) result" where
  "client_read_log serve name channel offset len =
     ask_as name serve AWAIT_QUERY (ReadLog name channel offset len)"

definition client_tail_log ::
  "(ManagerQuery, bytes \<times> i64 \<times> bool) service \<Rightarrow> string \<Rightarrow> LogChannel \<Rightarrow> i64 \<Rightarrow> i64
     \<Rightarrow> (bytes \<times> i64 \<times> bool) result" where
  "client_tail_log serve name channel offset len =
     ask_as name serve AWAIT_QUERY (TailLog name channel offset len)"

definition client_clear_process_logs ::
  "(ManagerQuery, unit) service \<Rightarrow> string \<Rightarrow> unit result" where
  "client_clear_process_logs serve name = ask_as name serve AWAIT_QUERY (ClearProcessLogs name)"

definition client_read_main_log ::
  "(ManagerQuery, bytes) service \<Rightarrow> i64 \<Rightarrow> i64 \<Rightarrow> bytes result" where
  "client_read_main_log serve offset len = ask serve AWAIT_QUERY (ReadMainLog offset len)"

definition client_tail_main_log ::
  "(ManagerQuery, bytes \<times> i64 \<times> bool) service \<Rightarrow> i64 \<Rightarrow> i64 \<Rightarrow> (bytes \<times> i64 \<times> bool) result" where
  "client_tail_main_log serve offset len = ask serve AWAIT_QUERY (TailMainLog offset len)"

definition client_clear_main_log :: "(ManagerQuery, unit) service \<Rightarrow> unit result" where
  "client_clear_main_log serve = ask serve AWAIT_QUERY ClearMainLog"

definition client_send_stdin :: "(ManagerQuery, unit) service \<Rightarrow> string \<Rightarrow> bytes \<Rightarrow> unit result" where
  "client_send_stdin serve name data = ask serve AWAIT_STDIN (SendStdin name data)"

text \<open>
  Clearing all logs: the history of the hub, then a request for every program of the configuration
  and one for the main log, whose outcomes are ignored. The result names the requests made.
\<close>

definition client_clear_all_process_logs ::
  "(ManagerQuery \<Rightarrow> bool \<times> ProgramConfig hmap option future) \<Rightarrow> EventHub
     \<Rightarrow> unit result \<times> EventHub \<times> ManagerQuery list" where
  "client_clear_all_process_logs serve hub =
     (let hub = hub_clear_logs hub
      in case client_get_all_configs serve of
           Inl e \<Rightarrow> (Inl e, hub, [])
         | Inr configs \<Rightarrow>
             (Inr (), hub, map (\<lambda>cfg. ClearProcessLogs (c_name cfg)) (vals configs) @ [ClearMainLog]))"

definition send_remote_comm_event :: "string \<Rightarrow> string \<Rightarrow> EventHub \<Rightarrow> bool \<times> EventHub" where
  "send_remote_comm_event type_str data hub =
     (True, publish_system (RemoteCommunication type_str data) hub)"

text \<open>
  Shutdown: the command is sent if the channel is open; its reply is awaited at most for the limit
  and ignored; then everything is cancelled. The result carries the time waited.
\<close>

definition client_shutdown ::
  "(ManagerCommand, unit) service \<Rightarrow> nat \<Rightarrow> ManagerHandle \<Rightarrow> unit result \<times> duration \<times> ManagerHandle" where
  "client_shutdown serve timestamp h =
     (let (channel_open, reply) = serve (Shutdown timestamp);
          waited = (if channel_open then timeout_elapsed (stop_all_timeout h None) reply else 0)
      in (Inr (), waited, h\<lparr>h_cancelled := True\<rparr>))"

text \<open>
  \<open>SupervisorManager::shutdown\<close>: the task of the manager is joined, unless an earlier call has done
  so, and aborted when it does not end in time. The result carries the time taken and whether the
  task was aborted.
\<close>

definition supervisor_shutdown ::
  "(ManagerCommand, unit) service \<Rightarrow> nat \<Rightarrow> unit future option \<Rightarrow> ManagerHandle
     \<Rightarrow> unit result \<times> duration \<times> bool \<times> ManagerHandle" where
  "supervisor_shutdown serve timestamp actor_handle h =
     (let (_, waited, h) = client_shutdown serve timestamp h
      in case actor_handle of
           None \<Rightarrow> (Inr (), waited, False, h)
         | Some join \<Rightarrow>
             (Inr (), waited + timeout_elapsed MANAGER_SHUTDOWN_TIMEOUT join,
              timeout MANAGER_SHUTDOWN_TIMEOUT join = None, h))"

section \<open>The search of the handle is that of the manager\<close>

text \<open>The handle shares the copies of the configuration with the manager.\<close>

definition handle_of :: "string \<Rightarrow> 'p Manager \<Rightarrow> ManagerHandle" where
  "handle_of ident s =
     \<lparr>h_server_identifier = ident, h_shared_configs = m_shared_configs s,
      h_shared_pending_configs = m_shared_pending_configs s, h_cancelled = False,
      h_activity_tracker = tracker_default 0\<rparr>"

lemma map_sort_key: "map f (sort_key f xs) = sort (map f xs)"
  by (rule sym, rule properties_for_sort) simp_all

lemma named_filter_names:
  "named_map m \<Longrightarrow> map c_name (map snd (filter P m)) = map fst (filter P m)"
  by (auto simp: named_map_def)

lemma filter_vals: "filter P (vals m) = map snd (filter (P \<circ> snd) m)"
  by (simp add: vals_def filter_map)

text \<open>What the handle finds in a configuration, and what the manager does with the same one.\<close>

lemma targets_are_matches:
  assumes "registry_ok good s" and "shared_ok s"
  shows "map c_name (find_targets_for_program (handle_of i s) name) = find_match s name"
proof -
  have n: "named_map (m_configs s)" and k: "set (keys (m_programs s)) = set (keys (m_configs s))"
    using assms(1) by (simp_all add: registry_ok_def)
  have sh: "m_shared_configs s = m_configs s" using assms(2) by (simp add: shared_ok_def)
  have "contains_key (m_programs s) (trim name) \<longleftrightarrow> hm_get (m_configs s) (trim name) \<noteq> None"
    using k by (simp add: contains_key_def hm_get_None_iff)
  moreover have "map c_name (sort_key c_name (filter (\<lambda>cfg. c_group cfg = g) (vals (m_configs s)))) =
      sort (map fst (filter (\<lambda>(n, cfg). c_group cfg = g) (m_configs s)))" for g
    by (simp only: map_sort_key filter_vals named_filter_names [OF n]) (simp add: comp_def split_def)
  moreover have "map snd (filter P (m_configs s)) = [] \<longleftrightarrow> map fst (filter P (m_configs s)) = []" for P
    by simp
  moreover note named_filter_names [OF n, unfolded split_def]
  ultimately show ?thesis
    by (cases "hm_get (m_configs s) (trim name)"; cases "split_once (CHR '':'') (trim name)")
      (simp_all add: find_targets_for_program_def find_match_def handle_of_def sh Let_def split_def
        named_map_get [OF n] del: map_map)
qed

lemma targets_subset:
  "set (find_targets_for_program h name) \<subseteq> set (vals (h_shared_configs h))"
  by (auto simp: find_targets_for_program_def Let_def vals_def hm_get_def
      split: option.splits dest: map_of_SomeD intro: image_eqI [where f = snd, rotated])

text \<open>Appending a colon and a star to a trimmed name leaves it trimmed.\<close>

lemma trim_wildcard: "trim g = g \<Longrightarrow> trim (g @ '':*'') = g @ '':*''"
  by (rule trim_fix) (use trim_ends(1) [of g] in \<open>cases g; simp add: is_ascii_space_def\<close>, simp add: is_ascii_space_def)

lemma group_targets_are_matches:
  assumes "registry_ok good s" and "shared_ok s" and "trim grp = grp"
  shows "map c_name (find_targets_for_group (handle_of i s) grp) = group_targets s grp"
proof -
  note t = targets_are_matches [OF assms(1,2), of i]
  have g: "find_targets_for_group (handle_of i s) grp =
      (if find_targets_for_program (handle_of i s) (grp @ '':*'') \<noteq> []
       then find_targets_for_program (handle_of i s) (grp @ '':*'')
       else find_targets_for_program (handle_of i s) grp)"
    by (simp add: find_targets_for_group_def assms(3) Let_def)
  show ?thesis
    by (simp add: g group_targets_def Let_def t [symmetric] del: map_is_Nil_conv)
qed

section \<open>The limits cover what the manager does\<close>

lemma foldl_saturating_add:
  "a \<le> duration_max \<Longrightarrow> foldl saturating_add a ds = min (a + sum_list ds) duration_max"
proof (induction ds arbitrary: a)
  case (Cons d ds)
  have "saturating_add a d \<le> duration_max" by (rule saturating_add_le_max)
  then show ?case using Cons by (simp add: saturating_add_def add.assoc)
qed simp

lemma stop_shares_sum:
  "stop_shares extra grace cs =
     min (sum_list (map (\<lambda>c. stop_share extra (unwrap_or grace (c_stop_wait_secs c))) cs)) duration_max"
  by (simp add: stop_shares_def foldl_saturating_add)

lemma limited_ge: "min d MAX_TIMEOUT \<le> limited lower d"
  by (simp add: limited_def)

lemma MAX_TIMEOUT_le: "MAX_TIMEOUT \<le> duration_max"
  by (simp add: duration_defs)

lemma limited_bounds: "lower \<le> MAX_TIMEOUT \<Longrightarrow> lower \<le> limited lower d \<and> limited lower d \<le> MAX_TIMEOUT"
  by (simp add: limited_def)

text \<open>
  The limits of the handle assume the default time limit of a hook. A program is within what they
  assume when its hooks have no longer limit, the wait after a kill is at most 12 seconds, and it
  stops within a day.
\<close>

definition default_hooks :: "ProgramConfig \<Rightarrow> bool" where
  "default_hooks c \<longleftrightarrow>
     c_hook_timeout_secs c \<le> DEFAULT_HOOK_TIMEOUT \<and> c_kill_wait_secs c \<le> from_secs 12 \<and>
     c_stop_wait_secs c \<le> MAX_TIMEOUT"

lemma stop_timeout_le_share:
  assumes "default_hooks c" and "grace \<le> MAX_TIMEOUT"
  shows "stop_timeout c grace \<le> stop_share STOP_GRACE_EXTRA grace"
  using assms by (simp add: default_hooks_def stop_timeout_def stop_share_def duration_defs)

lemma restart_timeout_le_share:
  assumes "default_hooks c" and "grace \<le> MAX_TIMEOUT"
  shows "unwrap_or (restart_timeout c grace) duration_max
     \<le> stop_share RESTART_GRACE_EXTRA grace + from_secs 25"
  using assms by (simp add: default_hooks_def restart_timeout_def stop_share_def duration_defs unwrap_or_def)

lemma start_timeout_le_share:
  assumes "default_hooks c" shows "unwrap_or (start_timeout c) duration_max \<le> from_secs 25"
  using assms by (simp add: default_hooks_def start_timeout_def duration_defs unwrap_or_def)

lemma start_share_ge:
  assumes "n < 2 ^ 32" shows "min (from_secs 25 * n) MAX_TIMEOUT \<le> start_share n"
proof -
  have "as_u32 (max n 1) = max n 1" using assms by (simp add: as_u32_def)
  moreover have "n \<le> max n 1" by simp
  ultimately show ?thesis unfolding start_share_def by (simp add: duration_defs) linarith
qed

text \<open>How long the manager may wait for the programs of a request, one after the other.\<close>

definition start_wait :: "'p Manager \<Rightarrow> string \<Rightarrow> duration" where
  "start_wait s n =
     (case hm_get (m_configs s) n of None \<Rightarrow> 0 | Some c \<Rightarrow> unwrap_or (start_timeout c) duration_max)"

definition stop_wait :: "duration option \<Rightarrow> 'p Manager \<Rightarrow> string \<Rightarrow> duration" where
  "stop_wait grace s n =
     (case hm_get (m_configs s) n of None \<Rightarrow> 0
      | Some c \<Rightarrow> stop_timeout c (unwrap_or grace (stop_wait_of s n)))"

definition restart_wait :: "duration option \<Rightarrow> 'p Manager \<Rightarrow> string \<Rightarrow> duration" where
  "restart_wait grace s n =
     (case hm_get (m_configs s) n of None \<Rightarrow> 0
      | Some c \<Rightarrow> unwrap_or (restart_timeout c (unwrap_or grace (stop_wait_of s n))) duration_max)"

definition total :: "(string \<Rightarrow> duration) \<Rightarrow> string list \<Rightarrow> duration" where
  "total w ns = sum_list (map w ns)"

lemma total_le_shares:
  assumes "named_map m" and "set cs \<subseteq> set (vals m)"
    and "\<And>c. c \<in> set (vals m) \<Longrightarrow> hm_get m (c_name c) = Some c \<Longrightarrow> w (c_name c) \<le> f c"
  shows "total w (map c_name cs) \<le> sum_list (map f cs)"
proof -
  have "w (c_name c) \<le> f c" if c: "c \<in> set cs" for c
  proof (rule assms(3))
    show v: "c \<in> set (vals m)" using assms(2) c by auto
    then obtain n where n: "(n, c) \<in> set m" by (auto simp: vals_def)
    then have "c_name c = n" using assms(1) by (auto simp: named_map_def)
    then show "hm_get m (c_name c) = Some c"
      using n assms(1) by (simp add: named_map_def hm_get_Some_iff)
  qed
  then show ?thesis by (auto simp: total_def comp_def intro!: sum_list_mono)
qed

lemma targets_length:
  "length (find_targets_for_program h name) \<le> max 1 (length (h_shared_configs h))"
proof -
  have f: "length (filter P xs) \<le> max (Suc 0) (length xs)" for P and xs :: "'z list"
    using length_filter_le [of P xs] by linarith
  have v: "length (vals m) = length m" for m :: "ProgramConfig hmap" by (simp add: vals_def)
  show ?thesis
    using f [of _ "vals (h_shared_configs h)"] f
    by (auto simp: find_targets_for_program_def Let_def v split: option.split)
qed

lemma stop_wait_le_share:
  assumes "named_map (m_configs s)" and "\<forall>c \<in> set (vals (m_configs s)). default_hooks c"
    and "unwrap_or grace 0 \<le> MAX_TIMEOUT"
    and "c \<in> set (vals (m_configs s))" and "hm_get (m_configs s) (c_name c) = Some c"
  shows "start_wait s (c_name c) \<le> from_secs 25"
    and "stop_wait grace s (c_name c) \<le> stop_share STOP_GRACE_EXTRA (unwrap_or grace (c_stop_wait_secs c))"
    and "restart_wait grace s (c_name c)
       \<le> stop_share RESTART_GRACE_EXTRA (unwrap_or grace (c_stop_wait_secs c)) + from_secs 25"
proof -
  have d: "default_hooks c" using assms(2,4) by auto
  then have g: "unwrap_or grace (c_stop_wait_secs c) \<le> MAX_TIMEOUT"
    using assms(3) by (cases grace) (simp_all add: default_hooks_def unwrap_or_def)
  show "start_wait s (c_name c) \<le> from_secs 25"
    using start_timeout_le_share [OF d] by (simp add: start_wait_def assms(5))
  show "stop_wait grace s (c_name c) \<le> stop_share STOP_GRACE_EXTRA (unwrap_or grace (c_stop_wait_secs c))"
    using stop_timeout_le_share [OF d g] by (simp add: stop_wait_def stop_wait_of_def assms(5))
  show "restart_wait grace s (c_name c)
      \<le> stop_share RESTART_GRACE_EXTRA (unwrap_or grace (c_stop_wait_secs c)) + from_secs 25"
    using restart_timeout_le_share [OF d g] by (simp add: restart_wait_def stop_wait_of_def assms(5))
qed

lemma sum_list_add_const:
  "sum_list (map (\<lambda>x. f x + k) xs) = sum_list (map f xs) + (k :: nat) * length xs"
  by (induction xs) simp_all

lemma min_saturating_add:
  assumes "a \<le> x + k" and "min k MAX_TIMEOUT \<le> y"
  shows "min a MAX_TIMEOUT \<le> saturating_add (min x duration_max) y"
  using assms MAX_TIMEOUT_le by (auto simp: saturating_add_def min_def split: if_splits)

text \<open>
  C25: When every hook is within the default time limit and kills are prompt, a client waits for
  starting, stopping or restarting programs at least as long as the manager may wait for all the
  programs that the name stands for, up to the cap of one day.
\<close>

theorem client_outlasts_programs:
  assumes "registry_ok good s" and "shared_ok s"
    and "\<forall>c \<in> set (vals (m_configs s)). default_hooks c"
    and "unwrap_or grace 0 \<le> MAX_TIMEOUT" and "length (m_configs s) < 2 ^ 32"
  shows "min (total (start_wait s) (find_match s name)) MAX_TIMEOUT
           \<le> compute_start_program_timeout (handle_of i s) name \<and>
         min (total (stop_wait grace s) (find_match s name)) MAX_TIMEOUT
           \<le> compute_stop_program_timeout (handle_of i s) name grace \<and>
         min (total (restart_wait grace s) (find_match s name)) MAX_TIMEOUT
           \<le> compute_restart_program_timeout (handle_of i s) name grace"
proof -
  let ?cs = "find_targets_for_program (handle_of i s) name"
  let ?g = "\<lambda>c. unwrap_or grace (c_stop_wait_secs c)"
  have m: "find_match s name = map c_name ?cs" using targets_are_matches [OF assms(1,2)] by simp
  have n: "named_map (m_configs s)" using assms(1) by (simp add: registry_ok_def)
  have sub: "set ?cs \<subseteq> set (vals (m_configs s))"
    using targets_subset [of "handle_of i s" name] assms(2) by (simp add: handle_of_def shared_ok_def)
  have len: "length ?cs < 2 ^ 32"
    using targets_length [of "handle_of i s" name] assms(2,5) by (simp add: handle_of_def shared_ok_def)
  note w = stop_wait_le_share [OF n assms(3,4)]
  have "total (start_wait s) (map c_name ?cs) \<le> sum_list (map (\<lambda>_. from_secs 25) ?cs)"
    by (rule total_le_shares [OF n sub]) (rule w(1))
  then have t1: "total (start_wait s) (map c_name ?cs) \<le> from_secs 25 * length ?cs"
    by (simp add: sum_list_triv mult.commute)
  have t2: "total (stop_wait grace s) (map c_name ?cs)
      \<le> sum_list (map (\<lambda>c. stop_share STOP_GRACE_EXTRA (?g c)) ?cs)"
    by (rule total_le_shares [OF n sub]) (rule w(2))
  have t3: "total (restart_wait grace s) (map c_name ?cs)
      \<le> sum_list (map (\<lambda>c. stop_share RESTART_GRACE_EXTRA (?g c) + from_secs 25) ?cs)"
    by (rule total_le_shares [OF n sub]) (rule w(3))
  have "min (total (start_wait s) (map c_name ?cs)) MAX_TIMEOUT \<le> start_share (length ?cs)"
    using t1 start_share_ge [OF len] by linarith
  moreover have "min (total (stop_wait grace s) (map c_name ?cs)) MAX_TIMEOUT
      \<le> saturating_add (stop_shares STOP_GRACE_EXTRA grace ?cs) AWAIT_QUERY"
    unfolding stop_shares_sum by (rule min_saturating_add [where k = 0]) (use t2 in simp_all)
  moreover have "min (total (restart_wait grace s) (map c_name ?cs)) MAX_TIMEOUT
      \<le> saturating_add (stop_shares RESTART_GRACE_EXTRA grace ?cs) (start_share (length ?cs))"
    unfolding stop_shares_sum
    by (rule min_saturating_add [OF _ start_share_ge [OF len]])
      (use t3 in \<open>simp add: sum_list_add_const\<close>)
  moreover have "?cs = [] \<Longrightarrow> total w (map c_name ?cs) = 0" for w by (simp add: total_def)
  ultimately show ?thesis
    unfolding m compute_start_program_timeout_def compute_stop_program_timeout_def
      compute_restart_program_timeout_def Let_def
    using limited_ge order_trans by (cases "?cs = []") (auto simp: limited_def)
qed

theorem client_outlasts_programs_witness:
  "min (total (start_wait demo_manager) (find_match demo_manager ''web'')) MAX_TIMEOUT
     \<le> compute_start_program_timeout (handle_of ''sup'' demo_manager) ''web''"
proof -
  have "\<forall>c \<in> set (vals (m_configs demo_manager)). default_hooks c"
    by (simp add: demo_manager_def manager_of_def demo_configs_def db_config_def web_config_def
        new_config_def default_hooks_def vals_def duration_defs)
  moreover have "length (m_configs demo_manager) < 2 ^ 32"
    by (simp add: demo_manager_def manager_of_def demo_configs_def)
  moreover have "unwrap_or None 0 \<le> MAX_TIMEOUT" by (simp add: unwrap_or_def)
  moreover have "shared_ok demo_manager" by (simp add: shared_ok_def demo_manager_def manager_of_def)
  ultimately show ?thesis
    using client_outlasts_programs [OF demo_registry, of None "''web''" "''sup''"] by blast
qed

text \<open>
  The handle finds exactly the programs that the manager acts on, in the same order: for a name
  or pattern of programs, and for a group named without blanks around it.
\<close>

theorem handle_finds_programs:
  assumes "registry_ok good s" and "shared_ok s"
  shows "map c_name (find_targets_for_program (handle_of i s) name) = find_match s name \<and>
         map c_name (find_targets_for_group (handle_of i s) (trim grp)) = group_targets s (trim grp)"
  using targets_are_matches [OF assms] group_targets_are_matches [OF assms trim_trim] by blast

theorem handle_finds_programs_witness:
  "map c_name (find_targets_for_program (handle_of ''sup'' demo_manager) ''web'') = [''web'']"
proof -
  have "find_match demo_manager ''web'' = [''web'']"
    by (simp add: find_match_def demo_manager_def manager_of_def demo_configs_def trim_def
        is_ascii_space_def contains_key_def keys_def)
  moreover have "shared_ok demo_manager" by (simp add: shared_ok_def demo_manager_def manager_of_def)
  ultimately show ?thesis
    using handle_finds_programs [OF demo_registry, of "''sup''" "''web''" "''''"] by simp
qed

section \<open>Limits and the end\<close>

lemma limits_in_bounds:
  "AWAIT_ACTION \<le> compute_start_program_timeout h name"
  "compute_start_program_timeout h name \<le> MAX_TIMEOUT"
  "AWAIT_ACTION \<le> compute_stop_program_timeout h name grace"
  "compute_stop_program_timeout h name grace \<le> MAX_TIMEOUT"
  "AWAIT_ACTION \<le> compute_restart_program_timeout h name grace"
  "compute_restart_program_timeout h name grace \<le> MAX_TIMEOUT"
  "AWAIT_GROUP \<le> compute_start_group_timeout h name"
  "compute_start_group_timeout h name \<le> MAX_TIMEOUT"
  "AWAIT_GROUP \<le> compute_stop_group_timeout h name grace"
  "compute_stop_group_timeout h name grace \<le> MAX_TIMEOUT"
  "AWAIT_BULK \<le> compute_restart_group_timeout h name grace"
  "compute_restart_group_timeout h name grace \<le> MAX_TIMEOUT"
  "AWAIT_BULK \<le> stop_all_timeout h grace" "stop_all_timeout h grace \<le> MAX_TIMEOUT"
  by (simp_all add: compute_start_program_timeout_def compute_stop_program_timeout_def
      compute_restart_program_timeout_def compute_start_group_timeout_def
      compute_stop_group_timeout_def compute_restart_group_timeout_def stop_all_timeout_def
      limited_def Let_def) (simp_all add: duration_defs)

text \<open>Shutting down always succeeds, cancels everything and ends in bounded time.\<close>

lemma client_shutdown_ends:
  "fst (client_shutdown serve ts h) = Inr ()" "h_cancelled (snd (snd (client_shutdown serve ts h)))"
  "fst (snd (client_shutdown serve ts h)) \<le> MAX_TIMEOUT"
  using timeout_elapsed_le limits_in_bounds(14) order_trans
  by (auto simp: client_shutdown_def split_beta) blast

lemma supervisor_shutdown_ends:
  "case supervisor_shutdown serve ts join h of
     (r, waited, aborted, h') \<Rightarrow>
       r = Inr () \<and> h_cancelled h' \<and> waited \<le> MAX_TIMEOUT + MANAGER_SHUTDOWN_TIMEOUT"
proof -
  note c = client_shutdown_ends [of serve ts h]
  show ?thesis
    using c(2) add_mono [OF c(3) timeout_elapsed_le] trans_le_add1 [OF c(3)]
    by (cases join) (simp_all add: supervisor_shutdown_def split_beta)
qed

text \<open>
  The handle assumes the default time limit of a hook: with a longer one configured, a stop that
  ends within the time that the program may take is reported as timed out.
\<close>

lemma client_gives_up_on_long_hook:
  assumes "c = demo_config\<lparr>c_hook_timeout_secs := from_secs 60\<rparr>"
    and "h_shared_configs h = [(''web'', c)]"
  shows "client_stop_program (\<lambda>_. (True, Some (from_secs 55, Some (Inr ())))) h ''web'' None =
           Inl (Timeout ''manager'' 52) \<and>
         from_secs 55 \<le> stop_timeout c (c_stop_wait_secs c)"
proof -
  have "find_targets_for_program h ''web'' = [c]"
    by (simp add: find_targets_for_program_def assms(2) trim_def is_ascii_space_def hm_get_def)
  moreover have "c_stop_wait_secs c = from_secs 10" "c_hook_timeout_secs c = from_secs 60"
    by (simp_all add: assms(1) demo_defs duration_defs)
  ultimately show ?thesis
    by (simp add: client_stop_program_def ask_def ask_as_def compute_stop_program_timeout_def
        stop_shares_def stop_share_def limited_def await_reply_def timeout_def stop_timeout_def
        unwrap_or_def duration_defs)
qed

end
