(* ===== verification/Manager_Logs.thy ===== *)
theory Manager_Logs
  imports Manager_Handle
begin

text \<open>
  Logs and standard input through the manager: what a program answers to requests on its logs
  (\<open>src/src/program/process.rs\<close>, \<open>src/src/eventlistener/program.rs\<close> and the defaults of
  \<open>src/src/program/traits.rs\<close>), the branches of the manager's event loop for these requests and for
  the log of the daemon itself (\<open>src/src/manager/supervisor.rs\<close>). The file system is a map from
  paths to contents; an error of reading a file is an argument.
\<close>

section \<open>The logs of a program\<close>

record ProcessLogs =
  pl_name :: string
  pl_config :: ProgramLogsConfig
  pl_ring_buffer :: RingBuffer
  pl_memory :: InMemoryLogRotator

definition no_log_file :: "string \<Rightarrow> ProgramError" where
  "no_log_file name = ReadLogFailed name ''no log file''"

fun log_read_error_text :: "LogReadError \<Rightarrow> string" where
  "log_read_error_text (NoFile p) = ''Log file does not exist: '' @ p"
| "log_read_error_text (BadArguments m) = ''Invalid log read arguments: '' @ m"
| "log_read_error_text (IoError e) = ''I/O error reading log: '' @ e"

definition resolve_channel_path :: "ProcessLogs \<Rightarrow> LogChannel \<Rightarrow> string option result" where
  "resolve_channel_path p channel =
     (case channel of
        Stderr \<Rightarrow> if l_redirect_stderr (pl_config p) then Inl (no_log_file (pl_name p))
                 else Inr (l_stderr (pl_config p))
      | Stdout \<Rightarrow> Inr (l_stdout (pl_config p)))"

definition memory_read :: "ProcessLogs \<Rightarrow> LogChannel \<Rightarrow> i64 \<Rightarrow> i64 \<Rightarrow> bytes \<times> i64 \<times> bool" where
  "memory_read p channel offset len = ring_read_bytes offset len (cr_ring (channel_of channel (pl_memory p)))"

definition memory_tail :: "ProcessLogs \<Rightarrow> LogChannel \<Rightarrow> i64 \<Rightarrow> i64 \<Rightarrow> bytes \<times> i64 \<times> bool" where
  "memory_tail p channel offset len = ring_tail_bytes offset len (cr_ring (channel_of channel (pl_memory p)))"

definition memory_bytes :: "ProcessLogs \<Rightarrow> LogChannel \<Rightarrow> nat" where
  "memory_bytes p channel = ring_byte_size (cr_ring (channel_of channel (pl_memory p)))"

definition process_read_log ::
  "string option \<Rightarrow> bytes hmap \<Rightarrow> LogChannel \<Rightarrow> i64 \<Rightarrow> i64 \<Rightarrow> ProcessLogs
     \<Rightarrow> (bytes \<times> i64 \<times> bool) result" where
  "process_read_log io_error files channel offset len p =
     (if logs_in_memory_only (pl_config p)
      then (if channel = Stderr \<and> l_redirect_stderr (pl_config p) then Inl (no_log_file (pl_name p))
            else if offset < 0 \<and> len \<noteq> 0
            then Inl (ReadLogFailed (pl_name p) ''length must be 0 when offset is negative'')
            else if offset \<ge> 0 \<and> len < 0
            then Inl (ReadLogFailed (pl_name p) ''length cannot be negative'')
            else Inr (memory_read p channel offset len))
      else (case resolve_channel_path p channel of
              Inl e \<Rightarrow> Inl e
            | Inr (Some path) \<Rightarrow>
                (if contains_key files path
                 then (case file_read_bytes io_error files path offset len of
                         Inr s \<Rightarrow> Inr (s, 0, False)
                       | Inl e \<Rightarrow> Inl (ReadLogFailed (pl_name p) (log_read_error_text e)))
                 else if memory_bytes p channel > 0 then Inr (memory_read p channel offset len)
                 else Inl (no_log_file (pl_name p)))
            | Inr None \<Rightarrow>
                (if channel = Stdout then Inr (memory_read p channel offset len)
                 else Inl (no_log_file (pl_name p)))))"

definition process_tail_log ::
  "string option \<Rightarrow> bytes hmap \<Rightarrow> LogChannel \<Rightarrow> i64 \<Rightarrow> i64 \<Rightarrow> ProcessLogs
     \<Rightarrow> (bytes \<times> i64 \<times> bool) result" where
  "process_tail_log io_error files channel offset len p =
     (if channel = Stderr \<and> l_redirect_stderr (pl_config p) then Inr ([], offset, False)
      else if logs_in_memory_only (pl_config p) then Inr (memory_tail p channel offset len)
      else (case resolve_channel_path p channel of
              Inl e \<Rightarrow> Inl e
            | Inr (Some path) \<Rightarrow>
                (if contains_key files path
                 then Inr (file_tail_bytes io_error files path offset len)
                 else if memory_bytes p channel > 0 then Inr (memory_tail p channel offset len)
                 else Inr ([], offset, False))
            | Inr None \<Rightarrow>
                (if channel = Stdout then Inr (memory_tail p channel offset len)
                 else Inr ([], offset, False))))"

text \<open>
  Clearing empties the memory, asks the backends to clear (\<open>backend\<close> is what that does to the files)
  and truncates the configured files that exist.
\<close>

definition truncate_existing :: "string option \<Rightarrow> bytes hmap \<Rightarrow> bytes hmap" where
  "truncate_existing path files =
     (case path of
        None \<Rightarrow> files
      | Some p \<Rightarrow> if contains_key files p then hm_insert p [] files else files)"

definition process_clear_logs ::
  "(bytes hmap \<Rightarrow> bytes hmap) \<Rightarrow> ProcessLogs \<times> bytes hmap \<Rightarrow> unit result \<times> ProcessLogs \<times> bytes hmap" where
  "process_clear_logs backend s =
     (let (p, files) = s;
          p = p\<lparr>pl_ring_buffer := line_buffer_clear (pl_ring_buffer p),
                pl_memory := rotator_clear (Some Stderr) (rotator_clear (Some Stdout) (pl_memory p))\<rparr>;
          files = backend files;
          files = truncate_existing (l_stdout (pl_config p)) files;
          files = truncate_existing (l_stderr (pl_config p)) files
      in (Inr (), p, files))"

text \<open>
  A program as the log requests see it. A listener has a line buffer only; the other operations are
  the defaults of the trait.
\<close>

datatype LogProgram = LogProcess ProcessLogs | LogListener RingBuffer

fun program_read_logs :: "nat option \<Rightarrow> LogProgram \<Rightarrow> bytes list" where
  "program_read_logs n (LogProcess p) = get_lines n (pl_ring_buffer p)"
| "program_read_logs n (LogListener rg) = get_lines n rg"

fun program_subscribe_logs :: "LogProgram \<Rightarrow> LogProgram" where
  "program_subscribe_logs (LogProcess p) =
     LogProcess (p\<lparr>pl_ring_buffer := line_buffer_subscribe (pl_ring_buffer p)\<rparr>)"
| "program_subscribe_logs (LogListener rg) = LogListener (line_buffer_subscribe rg)"

fun program_read_log ::
  "string option \<Rightarrow> bytes hmap \<Rightarrow> LogChannel \<Rightarrow> i64 \<Rightarrow> i64 \<Rightarrow> LogProgram
     \<Rightarrow> (bytes \<times> i64 \<times> bool) result" where
  "program_read_log io_error files ch offset len (LogProcess p) = process_read_log io_error files ch offset len p"
| "program_read_log io_error files ch offset len (LogListener rg) = Inr ([], 0, False)"

fun program_tail_log ::
  "string option \<Rightarrow> bytes hmap \<Rightarrow> LogChannel \<Rightarrow> i64 \<Rightarrow> i64 \<Rightarrow> LogProgram
     \<Rightarrow> (bytes \<times> i64 \<times> bool) result" where
  "program_tail_log io_error files ch offset len (LogProcess p) = process_tail_log io_error files ch offset len p"
| "program_tail_log io_error files ch offset len (LogListener rg) = Inr ([], 0, False)"

fun program_clear_logs ::
  "(bytes hmap \<Rightarrow> bytes hmap) \<Rightarrow> LogProgram \<times> bytes hmap \<Rightarrow> unit result \<times> LogProgram \<times> bytes hmap" where
  "program_clear_logs backend (LogProcess p, files) =
     (let (r, p, files) = process_clear_logs backend (p, files) in (r, LogProcess p, files))"
| "program_clear_logs backend (LogListener rg, files) = (Inr (), LogListener rg, files)"

section \<open>The requests at the manager\<close>

text \<open>
  The state: the manager over programs with logs, the event hub, the files, and the in-memory log
  of the daemon. \<open>backend\<close> is what clearing the backends of a program does to the files.
\<close>

record LogWorld =
  lw_manager :: "LogProgram Manager"
  lw_hub :: EventHub
  lw_files :: "bytes hmap"
  lw_main :: "InMemoryChannelRotator option"

definition find_program :: "string \<Rightarrow> 'p Manager \<Rightarrow> 'p result" where
  "find_program name s =
     (case first_match s name of
        None \<Rightarrow> Inl (NotFound name)
      | Some n \<Rightarrow> (case hm_get (m_programs s) n of None \<Rightarrow> Inl (NotFound name) | Some p \<Rightarrow> Inr p))"

text \<open>The last lines of all programs, in the order of their names.\<close>

definition merged_lines :: "nat option \<Rightarrow> LogProgram hmap \<Rightarrow> bytes list" where
  "merged_lines n programs =
     (let all = concat (map (\<lambda>(pname, prog). map (\<lambda>line. ''['' @ pname @ ''] '' @ line) (program_read_logs n prog))
                  (sort_key fst programs));
          limit = unwrap_or n (length all)
      in if limit < length all then drop (length all - limit) all else all)"

definition query_read_logs :: "string \<Rightarrow> nat option \<Rightarrow> LogWorld \<Rightarrow> bytes list result" where
  "query_read_logs name n w =
     (if name = ''all''
      then (let history = get_logs n (lw_hub w)
            in Inr (if history \<noteq> [] then map formatted_line history
                    else merged_lines n (m_programs (lw_manager w))))
      else (case find_program name (lw_manager w) of
              Inl e \<Rightarrow> Inl e
            | Inr p \<Rightarrow> Inr (program_read_logs n p)))"

definition with_program ::
  "string \<Rightarrow> (LogProgram \<times> bytes hmap \<Rightarrow> 'r result \<times> LogProgram \<times> bytes hmap) \<Rightarrow> LogWorld
     \<Rightarrow> 'r result \<times> LogWorld" where
  "with_program name f w =
     (let s = lw_manager w
      in case first_match s name of
           None \<Rightarrow> (Inl (NotFound name), w)
         | Some n \<Rightarrow>
             (case hm_get (m_programs s) n of
                None \<Rightarrow> (Inl (NotFound name), w)
              | Some p \<Rightarrow>
                  (let (r, p, files) = f (p, lw_files w)
                   in (r, w\<lparr>lw_manager := s\<lparr>m_programs := hm_insert n p (m_programs s)\<rparr>, lw_files := files\<rparr>))))"

definition query_subscribe_logs :: "string \<Rightarrow> LogWorld \<Rightarrow> unit result \<times> LogWorld" where
  "query_subscribe_logs name = with_program name (\<lambda>(p, files). (Inr (), program_subscribe_logs p, files))"

definition query_read_log ::
  "string option \<Rightarrow> string \<Rightarrow> LogChannel \<Rightarrow> i64 \<Rightarrow> i64 \<Rightarrow> LogWorld \<Rightarrow> (bytes \<times> i64 \<times> bool) result" where
  "query_read_log io_error name ch offset len w =
     (case find_program name (lw_manager w) of
        Inl e \<Rightarrow> Inl e
      | Inr p \<Rightarrow> program_read_log io_error (lw_files w) ch offset len p)"

definition query_tail_log ::
  "string option \<Rightarrow> string \<Rightarrow> LogChannel \<Rightarrow> i64 \<Rightarrow> i64 \<Rightarrow> LogWorld \<Rightarrow> (bytes \<times> i64 \<times> bool) result" where
  "query_tail_log io_error name ch offset len w =
     (case find_program name (lw_manager w) of
        Inl e \<Rightarrow> Inl e
      | Inr p \<Rightarrow> program_tail_log io_error (lw_files w) ch offset len p)"

definition query_clear_process_logs ::
  "(bytes hmap \<Rightarrow> bytes hmap) \<Rightarrow> string \<Rightarrow> LogWorld \<Rightarrow> unit result \<times> LogWorld" where
  "query_clear_process_logs backend name = with_program name (program_clear_logs backend)"

text \<open>Standard input: the outcome of the program's own operation is an argument.\<close>

definition query_send_stdin :: "('p \<Rightarrow> unit result) \<Rightarrow> string \<Rightarrow> 'p Manager \<Rightarrow> unit result" where
  "query_send_stdin send name s =
     (case find_program name s of Inl e \<Rightarrow> Inl e | Inr p \<Rightarrow> send p)"

section \<open>The log of the daemon\<close>

definition resolved_file_path :: "string \<Rightarrow> LoggingConfig \<Rightarrow> string" where
  "resolved_file_path default_path l = unwrap_or (g_file l) default_path"

definition execute_read_main_log ::
  "string option \<Rightarrow> string \<Rightarrow> i64 \<Rightarrow> i64 \<Rightarrow> LogWorld \<Rightarrow> bytes result" where
  "execute_read_main_log io_error default_path offset len w =
     (case lw_main w of
        Some cr \<Rightarrow> Inr (fst (ring_read_bytes offset len (cr_ring cr)))
      | None \<Rightarrow>
          (let path = resolved_file_path default_path (m_config_logging (lw_manager w))
           in if contains_key (lw_files w) path
              then (case file_read_bytes io_error (lw_files w) path offset len of
                      Inr s \<Rightarrow> Inr s
                    | Inl e \<Rightarrow> Inl (ReadLogFailed ''main'' (log_read_error_text e)))
              else Inr []))"

definition execute_tail_main_log ::
  "string option \<Rightarrow> string \<Rightarrow> i64 \<Rightarrow> i64 \<Rightarrow> LogWorld \<Rightarrow> (bytes \<times> i64 \<times> bool) result" where
  "execute_tail_main_log io_error default_path offset len w =
     (case lw_main w of
        Some cr \<Rightarrow> Inr (ring_tail_bytes offset len (cr_ring cr))
      | None \<Rightarrow>
          (let path = resolved_file_path default_path (m_config_logging (lw_manager w))
           in if contains_key (lw_files w) path
              then Inr (file_tail_bytes io_error (lw_files w) path offset len)
              else Inr ([], offset, False)))"

text \<open>\<open>main_backend\<close> is what clearing the rotating file of the daemon, if there is one, does.\<close>

definition execute_clear_main_log ::
  "(bytes hmap \<Rightarrow> bytes hmap) \<Rightarrow> string \<Rightarrow> LogWorld \<Rightarrow> unit result \<times> LogWorld" where
  "execute_clear_main_log main_backend default_path w =
     (let files = main_backend (lw_files w);
          path = resolved_file_path default_path (m_config_logging (lw_manager w))
      in (Inr (), w\<lparr>lw_main := map_option channel_clear (lw_main w),
                   lw_files := truncate_existing (Some path) files\<rparr>))"

text \<open>The requests that change logs, as the manager serves them one after the other.\<close>

definition serve_clear ::
  "(bytes hmap \<Rightarrow> bytes hmap) \<Rightarrow> string \<Rightarrow> ManagerQuery \<Rightarrow> LogWorld \<Rightarrow> LogWorld" where
  "serve_clear backend default_path q w =
     (case q of
        ClearProcessLogs name \<Rightarrow> snd (query_clear_process_logs backend name w)
      | ClearMainLog \<Rightarrow> snd (execute_clear_main_log backend default_path w)
      | _ \<Rightarrow> w)"

text \<open>\<open>clear_all_process_logs\<close> of the handle, with its requests served by the manager.\<close>

definition clear_everything ::
  "(bytes hmap \<Rightarrow> bytes hmap) \<Rightarrow> string \<Rightarrow> LogWorld \<Rightarrow> unit result \<times> LogWorld" where
  "clear_everything backend default_path w =
     (let (r, hub, queries) =
            client_clear_all_process_logs
              (\<lambda>_. (True, Some (0, Some (m_configs (lw_manager w))))) (lw_hub w)
      in (r, fold (serve_clear backend default_path) queries (w\<lparr>lw_hub := hub\<rparr>)))"

section \<open>Reading and clearing everything\<close>

lemma get_logs_length: "length (get_logs (Some n) h) \<le> n"
  by (simp add: get_logs_def)

text \<open>A reading of all logs returns at most as many lines as asked for.\<close>

lemma read_all_bounded:
  "query_read_logs ''all'' (Some n) w = Inr ls \<Longrightarrow> length ls \<le> n"
  using get_logs_length [of n "lw_hub w"]
  by (auto simp: query_read_logs_def merged_lines_def Let_def unwrap_or_def split: if_splits)

lemma cleared_lines: "get_lines n (line_buffer_clear rg) = []"
  by (simp add: get_lines_def line_buffer_clear_def read_line_slices_def selected_lines_def ring_clear_def Let_def)

text \<open>A program that has nothing to show, and what clearing keeps of a registry.\<close>

definition quiet :: "LogProgram \<Rightarrow> bool" where
  "quiet p \<longleftrightarrow> (\<forall>n. program_read_logs n p = [])"

definition is_process :: "LogProgram \<Rightarrow> bool" where
  "is_process p \<longleftrightarrow> (case p of LogProcess _ \<Rightarrow> True | LogListener _ \<Rightarrow> False)"

lemma process_clear_quiet:
  assumes "is_process p" and "program_clear_logs backend (p, files) = (r, p', files')"
  shows "quiet p' \<and> is_process p' \<and> r = Inr ()"
  using assms
  by (cases p) (auto simp: is_process_def quiet_def process_clear_logs_def cleared_lines Let_def)

lemma clear_named:
  assumes "hm_get (m_programs (lw_manager w)) name = Some p"
  shows "query_clear_process_logs backend name w =
     (let (r, p', files) = program_clear_logs backend (p, lw_files w)
      in (r, w\<lparr>lw_manager := (lw_manager w)\<lparr>m_programs := hm_insert name p' (m_programs (lw_manager w))\<rparr>,
             lw_files := files\<rparr>))"
proof -
  have "contains_key (m_programs (lw_manager w)) name"
    using hm_get_Some_key [OF assms] by (simp add: contains_key_def)
  then show ?thesis
    by (simp add: query_clear_process_logs_def with_program_def first_match_def assms Let_def)
qed

text \<open>All programs are processes, those of the set \<open>D\<close> are quiet, and the names are those of \<open>K\<close>.\<close>

definition cleared :: "string set \<Rightarrow> string set \<Rightarrow> EventHub \<Rightarrow> LogWorld \<Rightarrow> bool" where
  "cleared D K h w \<longleftrightarrow>
     lw_hub w = h \<and> hm_wf (m_programs (lw_manager w)) \<and> set (keys (m_programs (lw_manager w))) = K \<and>
     (\<forall>n p. hm_get (m_programs (lw_manager w)) n = Some p \<longrightarrow> is_process p \<and> (n \<in> D \<longrightarrow> quiet p))"

lemma cleared_step:
  assumes "cleared D K h w" and "m \<in> K"
  shows "cleared (insert m D) K h (serve_clear backend path (ClearProcessLogs m) w)"
proof -
  have k: "m \<in> set (keys (m_programs (lw_manager w)))" using assms by (simp add: cleared_def)
  then obtain p where p: "hm_get (m_programs (lw_manager w)) m = Some p" by (rule key_hm_getE)
  obtain r q files where q: "program_clear_logs backend (p, lw_files w) = (r, q, files)"
    by (metis prod_cases3)
  have "is_process p" using assms(1) p by (simp add: cleared_def)
  then have "quiet q \<and> is_process q" using process_clear_quiet q by blast
  then show ?thesis
    using assms k by (auto simp: serve_clear_def clear_named [OF p] q cleared_def)
qed

lemma cleared_fold:
  "cleared D K h w \<Longrightarrow> set ns \<subseteq> K \<Longrightarrow>
   cleared (D \<union> set ns) K h (fold (serve_clear backend path) (map ClearProcessLogs ns) w)"
proof (induction ns arbitrary: D w)
  case (Cons m ns)
  have "cleared (insert m D \<union> set ns) K h
      (fold (serve_clear backend path) (map ClearProcessLogs ns) (serve_clear backend path (ClearProcessLogs m) w))"
    by (rule Cons.IH [OF cleared_step [OF Cons.prems(1)]]) (use Cons.prems(2) in auto)
  then show ?case by (simp add: insert_commute)
qed simp

lemma clear_main_cleared:
  "cleared D K h w \<Longrightarrow> cleared D K h (serve_clear backend path ClearMainLog w)"
  by (simp add: cleared_def serve_clear_def execute_clear_main_log_def Let_def)

lemma merged_lines_quiet:
  assumes "\<And>m p. (m, p) \<in> set programs \<Longrightarrow> quiet p" shows "merged_lines n programs = []"
proof -
  have "concat (map (\<lambda>(pname, prog). map (\<lambda>line. ''['' @ pname @ ''] '' @ line) (program_read_logs n prog))
      (sort_key fst programs)) = []"
    using assms by (auto simp: quiet_def)
  then show ?thesis unfolding merged_lines_def Let_def by (simp only: drop_Nil if_cancel)
qed

text \<open>
  Clearing all logs through the handle succeeds, and afterwards a reading of all logs and of
  every single program is empty, provided that all programs are processes.
\<close>

theorem clear_everything_empties:
  assumes "registry_ok good (lw_manager w)"
    and "\<forall>n p. hm_get (m_programs (lw_manager w)) n = Some p \<longrightarrow> is_process p"
  shows "fst (clear_everything backend path w) = Inr () \<and>
         query_read_logs ''all'' n (snd (clear_everything backend path w)) = Inr [] \<and>
         (\<forall>m p. hm_get (m_programs (lw_manager (snd (clear_everything backend path w)))) m = Some p \<longrightarrow>
            program_read_logs n p = [])"
proof -
  let ?s = "lw_manager w" and ?h = "hub_clear_logs (lw_hub w)"
  let ?ns = "map c_name (vals (m_configs ?s))" and ?K = "set (keys (m_programs (lw_manager w)))"
  let ?w = "w\<lparr>lw_hub := ?h\<rparr>"
  have named: "named_map (m_configs ?s)" using assms(1) by (simp add: registry_ok_def)
  have "map c_name (vals (m_configs ?s)) = keys (m_configs ?s)"
    using named by (auto simp: named_map_def vals_def keys_def)
  then have K: "set ?ns = ?K" using assms(1) by (simp add: registry_ok_def)
  have a: "client_get_all_configs (\<lambda>_. (True, Some (0, Some (m_configs ?s)))) = Inr (m_configs ?s)"
    by (simp add: client_get_all_configs_def ask_def ask_as_def infallible_def await_reply_def timeout_def)
  define w' where "w' = serve_clear backend path ClearMainLog
    (fold (serve_clear backend path) (map ClearProcessLogs ?ns) ?w)"
  have e: "clear_everything backend path w = (Inr (), w')"
    by (simp add: clear_everything_def client_clear_all_process_logs_def a w'_def comp_def Let_def)
  have "cleared {} ?K ?h ?w" using assms by (simp add: cleared_def registry_ok_def)
  then have "cleared ({} \<union> set ?ns) ?K ?h w'"
    unfolding w'_def by (intro clear_main_cleared cleared_fold) (simp_all add: K del: set_map)
  then have c: "lw_hub w' = ?h" "hm_wf (m_programs (lw_manager w'))"
    and g: "hm_get (m_programs (lw_manager w')) m = Some p \<Longrightarrow> quiet p" for m p
    using K hm_get_Some_key [of "m_programs (lw_manager w')" m p] by (simp_all add: cleared_def)
  have q: "(m, p) \<in> set (m_programs (lw_manager w')) \<Longrightarrow> quiet p" for m p
    using g c(2) by (simp add: hm_get_Some_iff)
  have "get_logs n (lw_hub w') = []" by (simp add: c(1) get_logs_def hub_clear_logs_def split: option.split)
  then have "query_read_logs ''all'' n w' = Inr []"
    using merged_lines_quiet [OF q] by (simp add: query_read_logs_def)
  then show ?thesis using g by (auto simp: e quiet_def)
qed

definition demo_logs :: ProcessLogs where
  "demo_logs =
     \<lparr>pl_name = ''web'', pl_config = c_logs web_config, pl_ring_buffer = push ''up'' (line_buffer_new 4),
      pl_memory = \<lparr>ir_stdout = channel_new 1024 1, ir_stderr = channel_new 1024 1\<rparr>\<rparr>"

definition demo_log_world :: LogWorld where
  "demo_log_world =
     \<lparr>lw_manager =
        \<lparr>m_programs = [(''web'', LogProcess demo_logs)], m_configs = [(''web'', web_config)],
         m_shared_configs = [(''web'', web_config)], m_pending_configs = [], m_shared_pending_configs = [],
         m_dag = demo_graph, m_cron_table = [], m_watch_configs = [], m_is_shutting_down = False,
         m_event_pools = [], m_config_logging = demo_logging, m_events = [], m_calls = []\<rparr>,
      lw_hub = hub_new 16 64, lw_files = [], lw_main = None\<rparr>"

theorem clear_everything_empties_witness:
  "query_read_logs ''all'' None (snd (clear_everything (\<lambda>fs. fs) ''log'' demo_log_world)) = Inr []"
proof -
  have "registry_ok (\<lambda>_. True) (lw_manager demo_log_world)"
    by (simp add: registry_ok_def demo_log_world_def hm_wf_def named_map_def web_config_def new_config_def)
  moreover have "\<forall>n p. hm_get (m_programs (lw_manager demo_log_world)) n = Some p \<longrightarrow> is_process p"
    by (simp add: demo_log_world_def hm_get_Cons is_process_def)
  ultimately show ?thesis
    using clear_everything_empties [of "\<lambda>_. True" demo_log_world "\<lambda>fs. fs" "''log''" None] by simp
qed

text \<open>The logs of an event listener survive the same request, which reports success.\<close>

lemma listener_logs_survive:
  assumes "hm_get (m_programs (lw_manager w)) name = Some (LogListener rg)" and "name \<noteq> ''all''"
  shows "fst (query_clear_process_logs backend name w) = Inr () \<and>
         query_read_logs name n (snd (query_clear_process_logs backend name w)) = Inr (get_lines n rg)"
  using assms
  by (simp add: clear_named query_read_logs_def find_program_def first_match_def contains_key_def)

end
