(* ===== verification/Value_Text.thy ===== *)
theory Value_Text
  imports Program_Model Rust_Text "HOL-Library.Log_Nat"
begin

text \<open>
  Settings as texts: the conversions of \<open>src/src/serde_util.rs\<close> (numbers, sizes, modes, durations,
  addresses) and of \<open>src/src/compat/ini/values.rs\<close> (restart policies, environments, log paths, stop
  signals), with their error texts, and the readers and writers of single settings in the
  intermediate JSON tree.

  \<open>usize\<close> has 64 bits. Upper and lower case and blanks are those of ASCII. A floating point number
  is its exact value: a decimal text is rounded to 53 significant bits; the exponent range is not
  modelled, because the conversion to \<open>usize\<close> saturates long before it matters.
\<close>

unbundle bit_operations_syntax

type_synonym u32 = "32 word"
type_synonym i32 = "32 word"

section \<open>Texts\<close>

definition strip_suffix :: "string \<Rightarrow> string \<Rightarrow> string option" where
  "strip_suffix p s = map_option rev (strip_prefix (rev p) (rev s))"

lemma strip_suffix_iff: "strip_suffix p s = Some r \<longleftrightarrow> s = r @ p"
  unfolding strip_suffix_def by (auto simp: strip_prefix_iff rev_swap intro: exI [of _ "rev r"])

definition is_list_separator :: "char \<Rightarrow> bool" where
  "is_list_separator c \<longleftrightarrow> c = CHR '','' \<or> c = CHR '' '' \<or> c = CHR 0x09 \<or> c = carriage_return \<or> c = newline"

fun split_where :: "(char \<Rightarrow> bool) \<Rightarrow> string \<Rightarrow> string list" where
  "split_where P [] = [[]]"
| "split_where P (c # cs) =
     (if P c then [] # split_where P cs
      else (case split_where P cs of [] \<Rightarrow> [[c]] | y # ys \<Rightarrow> (c # y) # ys))"

definition string_to_str_list :: "string \<Rightarrow> string list" where
  "string_to_str_list s = filter (\<lambda>t. t \<noteq> []) (map trim (split_where is_list_separator s))"

definition any_ignore_case :: "string \<Rightarrow> string list \<Rightarrow> bool" where
  "any_ignore_case s names \<longleftrightarrow> (\<exists>n \<in> set names. eq_ignore_case s n)"

section \<open>Integers\<close>

text \<open>
  The integer parser of the standard library for a radix: an optional sign, then digits, with the
  checks in its order. \<open>limit\<close> bounds the magnitude.
\<close>

definition to_digit :: "nat \<Rightarrow> char \<Rightarrow> nat option" where
  "to_digit radix c =
     (let n = (of_char c :: nat);
          d = (if 48 \<le> n \<and> n \<le> 57 then n - 48
               else if 97 \<le> n \<and> n \<le> 122 then n - 87
               else if 65 \<le> n \<and> n \<le> 90 then n - 55 else radix)
      in if d < radix then Some d else None)"

fun radix_loop :: "nat \<Rightarrow> nat \<Rightarrow> string \<Rightarrow> nat \<Rightarrow> string \<Rightarrow> string + nat" where
  "radix_loop radix limit overflow acc [] = Inr acc"
| "radix_loop radix limit overflow acc (c # cs) =
     (case to_digit radix c of
        None \<Rightarrow> Inl ''invalid digit found in string''
      | Some d \<Rightarrow>
          if limit < radix * acc + d then Inl overflow
          else radix_loop radix limit overflow (radix * acc + d) cs)"

definition from_str_radix :: "nat \<Rightarrow> nat \<Rightarrow> string \<Rightarrow> string + nat" where
  "from_str_radix radix limit s =
     (if s = [] then Inl ''cannot parse integer from empty string''
      else if s = ''+'' \<or> s = ''-'' then Inl ''invalid digit found in string''
      else radix_loop radix limit ''number too large to fit in target type'' 0
             (if hd s = CHR ''+'' then tl s else s))"

definition u32_max :: nat where "u32_max = 2 ^ 32 - 1"
definition u64_max :: nat where "u64_max = 2 ^ 64 - 1"

definition parse_i32 :: "string \<Rightarrow> string + int" where
  "parse_i32 s =
     (if s \<noteq> [] \<and> s \<noteq> ''-'' \<and> hd s = CHR ''-''
      then map_sum id (\<lambda>n. - int n) (radix_loop 10 (2 ^ 31) ''number too small to fit in target type'' 0 (tl s))
      else map_sum id int (from_str_radix 10 (2 ^ 31 - 1) s))"

definition as_config :: "string \<Rightarrow> string + 'a \<Rightarrow> 'a result" where
  "as_config prefix r = map_sum (\<lambda>e. ConfigError (prefix @ e)) id r"

definition string_to_i32_list :: "string \<Rightarrow> int list result" where
  "string_to_i32_list s =
     try_map (\<lambda>token. as_config (''Invalid integer '' @ quoted token @ '' in list: '') (parse_i32 token))
       (string_to_str_list s)"

definition u64_to_i32 :: "u64 \<Rightarrow> i32" where
  "u64_to_i32 v = (if 0x7FFFFFFF < v then 0x7FFFFFFF else ucast v)"

section \<open>Booleans, modes and durations\<close>

definition string_to_bool :: "string \<Rightarrow> bool result" where
  "string_to_bool s =
     (let trimmed = trim s
      in if any_ignore_case trimmed [''1'', ''true'', ''yes'', ''on''] then Inr True
         else if any_ignore_case trimmed [''0'', ''false'', ''no'', ''off''] then Inr False
         else Inl (ConfigError (''Invalid boolean value '' @ quoted trimmed)))"

definition chmod_mask :: u32 where "chmod_mask = 0xFFF"

definition strip_octal :: "string \<Rightarrow> string option" where
  "strip_octal s = or_option (strip_prefix ''0o'' s) (strip_prefix ''0O'' s)"

definition string_to_chmod :: "string \<Rightarrow> u32 result" where
  "string_to_chmod s =
     (let trimmed = trim s
      in if trimmed = [] then Inl (ConfigError (''Invalid octal mode '' @ quoted [] @ '': empty value''))
         else map_sum id (\<lambda>n. word_of_nat n AND chmod_mask)
                (as_config (''Invalid octal mode '' @ quoted trimmed @ '': '')
                  (from_str_radix 8 u32_max (unwrap_or (strip_octal trimmed) trimmed))))"

definition string_to_umask :: "string \<Rightarrow> nat result" where
  "string_to_umask s =
     (let trimmed = trim s; octal = ''Invalid octal umask '' @ quoted trimmed @ '': ''
      in case strip_octal trimmed of
           Some rest \<Rightarrow> as_config octal (from_str_radix 8 u32_max rest)
         | None \<Rightarrow>
             if trimmed \<noteq> [] \<and> hd trimmed = CHR ''0'' \<and> 1 < length trimmed
             then as_config octal (from_str_radix 8 u32_max trimmed)
             else as_config (''Invalid umask '' @ quoted trimmed @ '': '') (from_str_radix 10 u32_max trimmed))"

fun octal_digits :: "nat \<Rightarrow> string" where
  "octal_digits n = (if n < 8 then [char_of (48 + n)] else octal_digits (n div 8) @ [char_of (48 + n mod 8)])"

declare octal_digits.simps [simp del]

definition pad_left :: "char \<Rightarrow> nat \<Rightarrow> string \<Rightarrow> string" where
  "pad_left c width s = replicate (width - length s) c @ s"

definition chmod_to_string :: "u32 \<Rightarrow> string" where
  "chmod_to_string mode = pad_left (CHR ''0'') 4 (octal_digits (unat (mode AND chmod_mask)))"

definition string_to_duration :: "string \<Rightarrow> duration result" where
  "string_to_duration s =
     map_sum id from_secs (as_config (''invalid duration '' @ quoted s @ '': '') (from_str_radix 10 u64_max s))"

definition duration_secs_to_string :: "nat \<Rightarrow> string" where
  "duration_secs_to_string secs =
     (if secs < 60 then digits_of secs @ ''s''
      else if secs < 3600 then digits_of (secs div 60) @ ''m '' @ digits_of (secs mod 60) @ ''s''
      else digits_of (secs div 3600) @ ''h '' @ digits_of (secs mod 3600 div 60) @ ''m'')"

section \<open>Sizes\<close>

datatype Float64 = NotANumber | Infinite bool | Finite rat

text \<open>The largest power of two that is not above a positive number, and rounding to 53 bits.\<close>

definition log2_floor :: "rat \<Rightarrow> int" where
  "log2_floor x =
     (let (p, q) = quotient_of x; d = bitlen p - bitlen q in if (2 :: rat) powi d \<le> x then d else d - 1)"

definition round_half_even :: "rat \<Rightarrow> int" where
  "round_half_even x =
     (let d = \<lfloor>x\<rfloor>; r = x - of_int d in if r < 1/2 \<or> (r = 1/2 \<and> even d) then d else d + 1)"

definition round53 :: "rat \<Rightarrow> rat" where
  "round53 x = (if x \<le> 0 then 0 else let u = 2 powi (log2_floor x - 52) in of_int (round_half_even (x / u)) * u)"

definition parse_exponent :: "string \<Rightarrow> int option" where
  "parse_exponent s =
     (let neg = s \<noteq> [] \<and> hd s = CHR ''-''; ds = (if s \<noteq> [] \<and> (neg \<or> hd s = CHR ''+'') then tl s else s)
      in if ds \<noteq> [] \<and> list_all is_ascii_digit ds
         then Some (if neg then - int (nat_of_digits ds) else int (nat_of_digits ds)) else None)"

definition parse_mantissa :: "string \<Rightarrow> int \<Rightarrow> rat option" where
  "parse_mantissa m e =
     (let (i, f) = unwrap_or (split_once (CHR ''.'') m) (m, [])
      in if i @ f \<noteq> [] \<and> list_all is_ascii_digit (i @ f)
         then Some (of_nat (nat_of_digits (i @ f)) * 10 powi (e - int (length f))) else None)"

definition parse_decimal :: "string \<Rightarrow> rat option" where
  "parse_decimal s =
     (case split_where (\<lambda>c. c = CHR ''e'' \<or> c = CHR ''E'') s of
        [m] \<Rightarrow> parse_mantissa m 0
      | [m, x] \<Rightarrow> Option.bind (parse_exponent x) (parse_mantissa m)
      | _ \<Rightarrow> None)"

definition parse_f64 :: "string \<Rightarrow> Float64 option" where
  "parse_f64 s =
     (let neg = s \<noteq> [] \<and> hd s = CHR ''-''; body = (if s \<noteq> [] \<and> (neg \<or> hd s = CHR ''+'') then tl s else s)
      in if any_ignore_case body [''inf'', ''infinity''] then Some (Infinite neg)
         else if eq_ignore_case body ''nan'' then Some NotANumber
         else map_option (\<lambda>x. Finite (if neg then - round53 x else round53 x)) (parse_decimal body))"

definition float_to_usize :: "Float64 \<Rightarrow> nat" where
  "float_to_usize x =
     (case x of
        NotANumber \<Rightarrow> 0
      | Infinite neg \<Rightarrow> if neg then 0 else usize_max
      | Finite r \<Rightarrow> min usize_max (nat \<lfloor>r\<rfloor>))"

text \<open>Multiplying by a power of two is exact.\<close>

definition float_scale :: "nat \<Rightarrow> Float64 \<Rightarrow> Float64" where
  "float_scale k x = (case x of Finite r \<Rightarrow> Finite (r * 2 ^ k) | _ \<Rightarrow> x)"

definition scaled_size :: "string \<Rightarrow> nat \<Rightarrow> string \<Rightarrow> nat result" where
  "scaled_size message k num =
     (case parse_f64 (trim num) of
        None \<Rightarrow> Inl (ConfigError message)
      | Some val \<Rightarrow> Inr (float_to_usize (float_scale k val)))"

definition plain_size :: "string \<Rightarrow> string \<Rightarrow> nat result" where
  "plain_size message num =
     (case parse_unsigned usize_max num of None \<Rightarrow> Inl (ConfigError message) | Some n \<Rightarrow> Inr n)"

definition string_to_bytes :: "string \<Rightarrow> nat result" where
  "string_to_bytes s =
     (let trimmed = trim s; upper = to_ascii_uppercase trimmed
      in if trimmed = [] then Inl (ConfigError ''Byte size string cannot be empty'')
         else case or_option (strip_suffix ''GB'' upper) (strip_suffix ''G'' upper) of
           Some num \<Rightarrow> scaled_size (''Invalid gigabyte value: '' @ quoted trimmed) 30 num
         | None \<Rightarrow> (case or_option (strip_suffix ''MB'' upper) (strip_suffix ''M'' upper) of
           Some num \<Rightarrow> scaled_size (''Invalid megabyte value: '' @ quoted trimmed) 20 num
         | None \<Rightarrow> (case or_option (strip_suffix ''KB'' upper) (strip_suffix ''K'' upper) of
           Some num \<Rightarrow> scaled_size (''Invalid kilobyte value: '' @ quoted trimmed) 10 num
         | None \<Rightarrow> (case strip_suffix ''B'' upper of
           Some num \<Rightarrow> plain_size (''Invalid byte value: '' @ quoted trimmed) (trim num)
         | None \<Rightarrow> plain_size (''Invalid numeric byte value: '' @ quoted trimmed) upper))))"

definition bytes_to_string :: "nat \<Rightarrow> string" where
  "bytes_to_string n =
     (if 0 < n \<and> 2 ^ 30 dvd n then digits_of (n div 2 ^ 30) @ ''GB''
      else if 0 < n \<and> 2 ^ 20 dvd n then digits_of (n div 2 ^ 20) @ ''MB''
      else if 0 < n \<and> 2 ^ 10 dvd n then digits_of (n div 2 ^ 10) @ ''KB''
      else digits_of n @ ''B'')"

section \<open>Addresses and percent encoding\<close>

definition normalize_http_bind :: "string \<Rightarrow> string" where
  "normalize_http_bind bind =
     (let trimmed = trim bind
      in if trimmed = [] then []
         else case strip_prefix ''*'' trimmed of
           Some port \<Rightarrow> ''0.0.0.0:'' @ unwrap_or (strip_prefix '':'' port) port
         | None \<Rightarrow> (case strip_prefix '':'' trimmed of
           Some port \<Rightarrow> ''0.0.0.0:'' @ port
         | None \<Rightarrow> if list_all is_ascii_digit trimmed then ''0.0.0.0:'' @ trimmed else trimmed))"

fun percent_bytes :: "bytes \<Rightarrow> bytes" where
  "percent_bytes [] = []"
| "percent_bytes (b # cs) =
     (if b = CHR ''%'' then
        (case cs of
           h1 # h2 # rest \<Rightarrow>
             (case from_str_radix 16 255 [h1, h2] of
                Inr val \<Rightarrow> char_of val # percent_bytes rest
              | Inl _ \<Rightarrow> CHR ''%'' # h1 # h2 # percent_bytes rest)
         | _ \<Rightarrow> CHR ''%'' # cs)
      else (if b = CHR ''+'' then CHR '' '' else b) # percent_bytes cs)"

definition percent_decode_string :: "string \<Rightarrow> string" where
  "percent_decode_string s = (let bs = percent_bytes s in if utf8_valid bs then bs else s)"

section \<open>Digits\<close>

definition digit_text :: "string \<Rightarrow> bool" where
  "digit_text s \<longleftrightarrow> s \<noteq> [] \<and> list_all is_ascii_digit s"

lemma digit_text_digits_of [simp]: "digit_text (digits_of n)"
  using digits_of_digits [of _ n] by (simp add: digit_text_def list_all_iff)

lemma digit_char:
  assumes "is_ascii_digit c"
  shows "\<not> is_ascii_space c" "to_upper_char c = c" "to_lower_char c = c"
    and "48 \<le> (of_char c :: nat)" "(of_char c :: nat) \<le> 57"
  using assms
  by (simp_all add: is_ascii_digit_def byte_in_def is_ascii_space_def to_upper_char_def to_lower_char_def Let_def)

lemma trim_no_space: "list_all (\<lambda>c. \<not> is_ascii_space c) s \<Longrightarrow> trim s = s"
  by (rule trim_fix) (auto simp: list_all_iff)

lemma digit_neq: "is_ascii_digit c \<Longrightarrow> (of_char d :: nat) < 48 \<or> 57 < (of_char d :: nat) \<Longrightarrow> c \<noteq> d"
  by (auto simp: is_ascii_digit_def byte_in_def)

lemma digit_text_case:
  assumes "digit_text s" shows "to_ascii_uppercase s = s" "to_ascii_lowercase s = s" "trim s = s"
proof -
  have d: "is_ascii_digit c" if "c \<in> set s" for c using assms that by (simp add: digit_text_def list_all_iff)
  show "to_ascii_uppercase s = s" "to_ascii_lowercase s = s"
    using d digit_char(2,3) by (simp_all add: to_ascii_uppercase_def to_ascii_lowercase_def map_idI)
  show "trim s = s" using d digit_char(1) by (simp add: trim_no_space list_all_iff)
qed

lemma digit_text_no:
  assumes "digit_text s" and "(of_char d :: nat) < 48 \<or> 57 < (of_char d :: nat)"
  shows "d \<notin> set s" "hd s \<noteq> d"
  using assms digit_neq [of _ d] by (auto simp: digit_text_def list_all_iff)

section \<open>Modes\<close>

lemma radix_loop_append:
  "radix_loop r l ov acc (xs @ ys) =
     (case radix_loop r l ov acc xs of Inl e \<Rightarrow> Inl e | Inr a \<Rightarrow> radix_loop r l ov a ys)"
  by (induction xs arbitrary: acc) (auto split: option.split)

lemma octal_char: "d < 8 \<Longrightarrow> to_digit 8 (char_of (48 + d)) = Some d \<and> is_ascii_digit (char_of (48 + d))"
  by (simp add: to_digit_def is_ascii_digit_def byte_in_def)

lemma octal_digits_value: "n \<le> limit \<Longrightarrow> radix_loop 8 limit ov 0 (octal_digits n) = Inr n"
proof (induction n rule: octal_digits.induct)
  case (1 n)
  show ?case
  proof (cases "n < 8")
    case True
    then show ?thesis using 1(2) octal_char [of n] by (subst octal_digits.simps) simp
  next
    case False
    then have "radix_loop 8 limit ov 0 (octal_digits (n div 8)) = Inr (n div 8)" using 1 by simp
    moreover have "8 * (n div 8) + n mod 8 = n" by simp
    ultimately show ?thesis
      using 1(2) False octal_char [of "n mod 8"] by (subst octal_digits.simps) (simp add: radix_loop_append)
  qed
qed

lemma octal_digits_text: "digit_text (octal_digits n)"
proof (induction n rule: octal_digits.induct)
  case (1 n)
  then show ?case
    using octal_char [of n] octal_char [of "n mod 8"]
    by (subst octal_digits.simps) (auto simp: digit_text_def)
qed

lemma octal_zeros: "radix_loop 8 limit ov 0 (replicate k (CHR ''0'')) = Inr 0"
  by (induction k) (simp_all add: to_digit_def)

lemma digits_strip_octal: "digit_text s \<Longrightarrow> strip_octal s = None"
proof -
  assume d: "digit_text s"
  have "strip_prefix (CHR ''0'' # [c]) s = None" if c: "57 < (of_char c :: nat)" for c
  proof (cases "strip_prefix (CHR ''0'' # [c]) s")
    case (Some r)
    then have "c \<in> set s" by (simp add: strip_prefix_iff)
    then show ?thesis using digit_text_no(1) [OF d, of c] c by simp
  qed
  from this [of "CHR ''o''"] this [of "CHR ''O''"] show "strip_octal s = None" by (simp add: strip_octal_def or_option_def)
qed

lemma from_str_radix_digits:
  assumes "digit_text s" shows "from_str_radix r limit s = radix_loop r limit ''number too large to fit in target type'' 0 s"
proof -
  have "hd s \<noteq> CHR ''+''" "s \<noteq> ''+''" "s \<noteq> ''-''" "s \<noteq> []"
    using digit_text_no(2) [OF assms, of "CHR ''+''"] digit_text_no(2) [OF assms, of "CHR ''-''"] assms
    by (auto simp: digit_text_def)
  then show ?thesis by (simp add: from_str_radix_def)
qed

lemma masked_mode: "unat (mode AND chmod_mask) \<le> 4095"
  using word_and_le1 [of mode chmod_mask] unfolding word_le_nat_alt chmod_mask_def by simp

lemma chmod_roundtrip: "string_to_chmod (chmod_to_string mode) = Inr (mode AND chmod_mask)"
proof -
  define n where "n = unat (mode AND chmod_mask)"
  define s where "s = chmod_to_string mode"
  have n: "n \<le> u32_max" using masked_mode [of mode] by (simp add: n_def u32_max_def)
  have s: "s = replicate (4 - length (octal_digits n)) (CHR ''0'') @ octal_digits n"
    by (simp add: s_def chmod_to_string_def pad_left_def n_def)
  have "is_ascii_digit (CHR ''0'')" by (simp add: is_ascii_digit_def byte_in_def)
  then have d: "digit_text s" using octal_digits_text [of n] by (auto simp: digit_text_def s list_all_iff)
  have "radix_loop 8 u32_max ov 0 s = Inr n" for ov
    unfolding s radix_loop_append octal_zeros using octal_digits_value [OF n] by simp
  then have "from_str_radix 8 u32_max s = Inr n" using from_str_radix_digits [OF d] by simp
  moreover have "s \<noteq> []" using d by (simp add: digit_text_def)
  ultimately have "string_to_chmod s = Inr (word_of_nat n AND chmod_mask)"
    by (simp add: string_to_chmod_def digit_text_case(3) [OF d] digits_strip_octal [OF d] unwrap_or_def as_config_def)
  then show ?thesis by (simp add: s_def n_def)
qed

section \<open>Sizes survive\<close>

lemma round53_exact:
  assumes "n < 2 ^ 53" shows "round53 (of_nat n) = of_nat n"
proof (cases "n = 0")
  case False
  define e where "e = log2_floor (of_nat n)"
  define m where "m = int n * 2 ^ nat (52 - e)"
  have "bitlen (int n) \<le> 53"
    using assms by (intro bitlen_le_iff_power [THEN iffD2]) (simp_all, presburger?)
  then have e: "e \<le> 52"
    by (auto simp: e_def log2_floor_def Let_def bitlen_def floorlog_def)
  have u: "(2 :: rat) powi (e - 52) = 1 / 2 ^ nat (52 - e)"
    using e by (simp add: power_int_def field_simps)
  have q: "(of_nat n :: rat) / (2 powi (e - 52)) = of_int m"
    by (simp add: u m_def)
  have "round_half_even (of_int m) = m" by (simp add: round_half_even_def)
  then have "round53 (of_nat n) = of_int m * 2 powi (e - 52)"
    using False by (simp add: round53_def Let_def e_def [symmetric] q)
  also have "\<dots> = of_nat n" by (simp add: u m_def)
  finally show ?thesis .
qed (simp add: round53_def)

lemma split_where_none: "\<forall>c \<in> set s. \<not> P c \<Longrightarrow> split_where P s = [s]"
  by (induction s) auto

lemma parse_f64_digits:
  assumes "n < 2 ^ 53" shows "parse_f64 (digits_of n) = Some (Finite (of_nat n))"
proof -
  define s where "s = digits_of n"
  have d: "digit_text s" by (simp add: s_def)
  have no: "c \<notin> set s \<and> hd s \<noteq> c" if "(of_char c :: nat) < 48 \<or> 57 < (of_char c :: nat)" for c
    using digit_text_no [OF d that] by simp
  have "s \<noteq> ''inf''" "s \<noteq> ''infinity''" "s \<noteq> ''nan''"
    using no [of "CHR ''i''"] no [of "CHR ''n''"] by auto
  moreover have "to_ascii_lowercase ''inf'' = ''inf''" "to_ascii_lowercase ''infinity'' = ''infinity''"
    "to_ascii_lowercase ''nan'' = ''nan''" by code_simp+
  ultimately have "\<not> any_ignore_case s [''inf'', ''infinity'']" "\<not> eq_ignore_case s ''nan''"
    by (simp_all add: any_ignore_case_def eq_ignore_case_def digit_text_case(2) [OF d])
  moreover have "split_where (\<lambda>c. c = CHR ''e'' \<or> c = CHR ''E'') s = [s]"
    using no [of "CHR ''e''"] no [of "CHR ''E''"] by (intro split_where_none) auto
  moreover have "parse_mantissa s 0 = Some (of_nat n)"
    using no [of "CHR ''.''"] d
    by (simp add: parse_mantissa_def split_once_None_iff [THEN iffD2] unwrap_or_def digit_text_def)
       (simp add: s_def nat_of_digits_digits_of)
  moreover have "hd s \<noteq> CHR ''-''" "hd s \<noteq> CHR ''+''" using no by simp_all
  ultimately have "parse_f64 s = Some (Finite (of_nat n))"
    using round53_exact [OF assms] by (simp add: parse_f64_def parse_decimal_def Let_def)
  then show ?thesis by (simp add: s_def)
qed

lemma strip_suffix_end:
  "strip_suffix p (s @ p) = Some s"
  "last p \<noteq> last q \<Longrightarrow> p \<noteq> [] \<Longrightarrow> q \<noteq> [] \<Longrightarrow> strip_suffix p (s @ q) = None"
proof -
  show "strip_suffix p (s @ p) = Some s" by (simp add: strip_suffix_iff)
  assume a: "last p \<noteq> last q" "p \<noteq> []" "q \<noteq> []"
  show "strip_suffix p (s @ q) = None"
  proof (cases "strip_suffix p (s @ q)")
    case (Some r)
    then have "s @ q = r @ p" by (simp add: strip_suffix_iff)
    then have "last (s @ q) = last (r @ p)" by simp
    then show ?thesis using a by simp
  qed
qed

text \<open>The parse of a printed number with the letters of a unit.\<close>

lemma unit_text:
  assumes "digit_text ds" and "list_all (\<lambda>c. \<not> is_ascii_space c \<and> to_upper_char c = c) u"
  shows "trim (ds @ u) = ds @ u" "to_ascii_uppercase (ds @ u) = ds @ u" "ds @ u \<noteq> []"
  using assms digit_text_case(2) [OF assms(1)] digit_char(1,2)
  by (auto simp: digit_text_def list_all_iff to_ascii_uppercase_def map_idI intro!: trim_no_space)

lemma digits_before_B:
  assumes "digit_text ds" and "57 < (of_char c :: nat)"
  shows "strip_suffix [c, CHR ''B''] (ds @ ''B'') = None"
proof (cases "strip_suffix [c, CHR ''B''] (ds @ ''B'')")
  case (Some r)
  then have "ds @ ''B'' = (r @ [c]) @ ''B''" by (simp add: strip_suffix_iff)
  then have "c \<in> set ds" by (simp only: append_same_eq) simp
  then show ?thesis using digit_text_no(1) [OF assms(1), of c] assms(2) by simp
qed simp

lemma scaled_size_digits:
  assumes "n < 2 ^ 53" and "n * 2 ^ k \<le> usize_max"
  shows "scaled_size msg k (digits_of n) = Inr (n * 2 ^ k)"
proof -
  have "trim (digits_of n) = digits_of n" by (simp add: digit_text_case(3))
  moreover have "nat \<lfloor>(of_nat n :: rat) * 2 ^ k\<rfloor> = n * 2 ^ k"
    by (metis floor_of_nat of_nat_mult of_nat_numeral of_nat_power nat_int)
  ultimately show ?thesis
    using assms(2) by (simp add: scaled_size_def parse_f64_digits [OF assms(1)] float_scale_def float_to_usize_def)
qed

lemma bytes_text_cases:
  fixes n :: nat
  obtains (scaled) k u where "(k, u) \<in> {(30, ''GB''), (20, ''MB''), (10, ''KB'')}" "2 ^ k dvd n"
      "bytes_to_string n = digits_of (n div 2 ^ k) @ u"
  | (plain) "bytes_to_string n = digits_of n @ ''B''"
proof -
  consider "0 < n \<and> 2 ^ 30 dvd n" | "\<not> (0 < n \<and> 2 ^ 30 dvd n)" "0 < n \<and> 2 ^ 20 dvd n"
    | "\<not> (0 < n \<and> 2 ^ 30 dvd n)" "\<not> (0 < n \<and> 2 ^ 20 dvd n)" "0 < n \<and> 2 ^ 10 dvd n"
    | "\<not> (0 < n \<and> 2 ^ 30 dvd n)" "\<not> (0 < n \<and> 2 ^ 20 dvd n)" "\<not> (0 < n \<and> 2 ^ 10 dvd n)"
    by argo
  then show thesis
  proof cases
    case 1 show ?thesis by (rule scaled [of 30 "''GB''"]) (simp, use 1 in blast, simp only: bytes_to_string_def if_P [OF 1])
  next
    case 2 show ?thesis
      by (rule scaled [of 20 "''MB''"]) (simp, use 2(2) in blast, simp only: bytes_to_string_def if_not_P [OF 2(1)] if_P [OF 2(2)])
  next
    case 3 show ?thesis
      by (rule scaled [of 10 "''KB''"]) (simp, use 3(3) in blast, simp only: bytes_to_string_def if_not_P [OF 3(1)] if_not_P [OF 3(2)] if_P [OF 3(3)])
  next
    case 4 show ?thesis by (rule plain) (simp only: bytes_to_string_def if_not_P [OF 4(1)] if_not_P [OF 4(2)] if_not_P [OF 4(3)])
  qed
qed

lemma byte_size_roundtrip:
  assumes "n < 2 ^ 63" shows "string_to_bytes (bytes_to_string n) = Inr n"
proof (cases n rule: bytes_text_cases)
  case (scaled k u)
  let ?m = "n div 2 ^ k"
  have k: "k \<in> {10, 20, 30}" using scaled(1) by auto
  have "n div 2 ^ k \<le> n div 2 ^ 10" using k by (auto intro!: div_le_mono2)
  also have "\<dots> < 2 ^ 53" using assms by (simp add: less_mult_imp_div_less)
  finally have m: "?m < 2 ^ 53" .
  have n: "?m * 2 ^ k = n" using scaled(2) by simp
  have "scaled_size msg k (digits_of ?m) = Inr n" for msg
    using scaled_size_digits [OF m, of k msg] n assms by (simp add: usize_max_def)
  moreover have "list_all (\<lambda>c. \<not> is_ascii_space c \<and> to_upper_char c = c) u"
    using scaled(1) by (auto simp: is_ascii_space_def to_upper_char_def Let_def)
  note unit_text [OF digit_text_digits_of this, of ?m]
  moreover have u: "u = ''GB'' \<and> k = 30 \<or> u = ''MB'' \<and> k = 20 \<or> u = ''KB'' \<and> k = 10" using scaled(1) by auto
  moreover have "strip_suffix ''GB'' (ds @ ''MB'') = None" "strip_suffix ''GB'' (ds @ ''KB'') = None"
     "strip_suffix ''MB'' (ds @ ''KB'') = None" for ds
    by (auto simp: strip_suffix_def rev_append)
  ultimately show ?thesis
    unfolding scaled(3) string_to_bytes_def Let_def
    by (elim disjE; clarify) (simp_all add: or_option_def strip_suffix_end)
next
  case plain
  have "list_all (\<lambda>c. \<not> is_ascii_space c \<and> to_upper_char c = c) ''B''"
    by (auto simp: is_ascii_space_def to_upper_char_def Let_def)
  note unit_text [OF digit_text_digits_of this, of n]
  moreover have "strip_suffix [c, CHR ''B''] (digits_of n @ ''B'') = None" if "57 < (of_char c :: nat)" for c
    using digits_before_B [OF digit_text_digits_of that] .
  ultimately show ?thesis
    using assms unfolding plain string_to_bytes_def Let_def
    by (simp add: or_option_def strip_suffix_end plain_size_def usize_max_def digit_text_case(3))
qed

end
