(* ===== verification/Server_Auth.thy ===== *)
theory Server_Auth
  imports Value_Text
begin

text \<open>
  Authentication of the web interface (\<open>src/src/server/auth.rs\<close>): credentials, the store of sessions
  with its sliding expiry, the decision whether a request is authorised, and the middleware that
  guards the API and the legacy interface. The decoder of Base64, the SHA-1 digest, the source of
  randomness and the clock are arguments. Headers are pairs of a lower-case name and a value.
\<close>

section \<open>Credentials\<close>

definition SESSION_COOKIE_NAME :: string where
  "SESSION_COOKIE_NAME = ''rsupervisord_session''"

definition SESSION_TTL :: duration where
  [duration_defs]: "SESSION_TTL = from_secs (7 * 24 * 60 * 60)"

record BasicAuthConfig =
  ba_username :: string
  ba_password :: string

definition basic_auth_new :: "string option \<Rightarrow> string option \<Rightarrow> BasicAuthConfig option" where
  "basic_auth_new username password =
     (let u = unwrap_or username ''''; p = unwrap_or password ''''
      in if u = [] \<and> p = [] then None else Some \<lparr>ba_username = u, ba_password = p\<rparr>)"

text \<open>The bytes are compared without leaving the loop early.\<close>

definition byte_of :: "char \<Rightarrow> 8 word" where
  "byte_of c = of_nat (of_char c)"

definition constant_time_eq :: "string \<Rightarrow> string \<Rightarrow> bool" where
  "constant_time_eq a b =
     (if length a \<noteq> length b then False
      else foldl (\<lambda>diff (x, y). or diff (xor (byte_of x) (byte_of y))) 0 (zip a b) = 0)"

definition hex_digit :: "nat \<Rightarrow> char" where
  "hex_digit n = (if n < 10 then char_of (48 + n) else char_of (87 + n))"

definition hex_byte :: "char \<Rightarrow> string" where
  "hex_byte c = (let n = (of_char c :: nat) in [hex_digit (n div 16), hex_digit (n mod 16)])"

definition hex_text :: "bytes \<Rightarrow> string" where
  "hex_text bs = concat (map hex_byte bs)"

definition verify :: "(bytes \<Rightarrow> bytes) \<Rightarrow> BasicAuthConfig \<Rightarrow> string \<Rightarrow> string \<Rightarrow> bool" where
  "verify sha1 auth candidate_user candidate_pass =
     (if \<not> constant_time_eq (ba_username auth) candidate_user then False
      else (case or_option (strip_prefix ''{SHA}'' (ba_password auth)) (strip_prefix ''{sha}'' (ba_password auth)) of
              Some expected_sha \<Rightarrow>
                constant_time_eq (hex_text (sha1 candidate_pass)) (to_ascii_lowercase (trim expected_sha))
            | None \<Rightarrow> constant_time_eq (ba_password auth) candidate_pass))"

definition extract_basic_auth :: "(string \<Rightarrow> bytes option) \<Rightarrow> string \<Rightarrow> (string \<times> string) option" where
  "extract_basic_auth b64_decode auth_header =
     (let trimmed = trim auth_header
      in case or_option (strip_prefix ''Basic '' trimmed) (strip_prefix ''basic '' trimmed) of
           None \<Rightarrow> None
         | Some payload \<Rightarrow>
             (case b64_decode (trim payload) of
                None \<Rightarrow> None
              | Some decoded \<Rightarrow>
                  if utf8_valid decoded then split_once (CHR '':'') decoded else None))"

section \<open>Sessions\<close>

type_synonym SessionStore = "duration hmap"

text \<open>\<open>None\<close> when no randomness is available.\<close>

definition create_session :: "bytes option \<Rightarrow> duration \<Rightarrow> SessionStore \<Rightarrow> string option \<times> SessionStore" where
  "create_session random now store =
     (case random of
        None \<Rightarrow> (None, store)
      | Some buf \<Rightarrow> (let sid = hex_text buf in (Some sid, hm_insert sid (now + SESSION_TTL) store)))"

definition validate_session :: "string \<Rightarrow> duration \<Rightarrow> SessionStore \<Rightarrow> bool \<times> SessionStore" where
  "validate_session sid now store =
     (if sid = [] then (False, store)
      else (let store = filter (\<lambda>(_, expires_at). now < expires_at) store
            in case hm_get store sid of
                 Some entry \<Rightarrow>
                   if now < entry then (True, hm_insert sid (now + SESSION_TTL) store)
                   else (False, hm_remove sid store)
               | None \<Rightarrow> (False, store)))"

definition invalidate_session :: "string \<Rightarrow> SessionStore \<Rightarrow> SessionStore" where
  "invalidate_session sid store = hm_remove sid store"

section \<open>Authorisation\<close>

record AuthAttempts =
  at_basic :: "(string \<times> string) option"
  at_token :: "string option"
  at_session :: "string option"

record ServerAuthState =
  sa_basic_auth :: "BasicAuthConfig option"
  sa_auth_token :: "string option"
  sa_sessions :: SessionStore

definition auth_state_new :: "BasicAuthConfig option \<Rightarrow> string option \<Rightarrow> SessionStore \<Rightarrow> ServerAuthState" where
  "auth_state_new basic_auth auth_token sessions =
     \<lparr>sa_basic_auth = basic_auth,
      sa_auth_token = (case auth_token of Some t \<Rightarrow> if t \<noteq> [] then Some t else None | None \<Rightarrow> None),
      sa_sessions = sessions\<rparr>"

definition is_auth_configured :: "ServerAuthState \<Rightarrow> bool" where
  "is_auth_configured st \<longleftrightarrow> sa_basic_auth st \<noteq> None \<or> sa_auth_token st \<noteq> None"

definition token_matches :: "ServerAuthState \<Rightarrow> AuthAttempts \<Rightarrow> bool" where
  "token_matches st att =
     (case (sa_auth_token st, at_token att) of
        (Some expected, Some candidate) \<Rightarrow> constant_time_eq expected candidate
      | _ \<Rightarrow> False)"

definition basic_matches :: "(bytes \<Rightarrow> bytes) \<Rightarrow> ServerAuthState \<Rightarrow> AuthAttempts \<Rightarrow> bool" where
  "basic_matches sha1 st att =
     (case (sa_basic_auth st, at_basic att) of
        (Some basic, Some (user, pass)) \<Rightarrow> verify sha1 basic user pass
      | _ \<Rightarrow> False)"

definition authorize ::
  "(bytes \<Rightarrow> bytes) \<Rightarrow> duration \<Rightarrow> AuthAttempts \<Rightarrow> ServerAuthState \<Rightarrow> bool \<times> ServerAuthState" where
  "authorize sha1 now att st =
     (if \<not> is_auth_configured st then (True, st)
      else (let (live, st) = (case at_session att of
                                Some sid \<Rightarrow> (let (ok, store) = validate_session sid now (sa_sessions st)
                                           in (ok, st\<lparr>sa_sessions := store\<rparr>))
                              | None \<Rightarrow> (False, st))
            in if live then (True, st)
               else if token_matches st att then (True, st)
               else if basic_matches sha1 st att then (True, st)
               else (False, st)))"

section \<open>Requests\<close>

record HttpRequest =
  rq_scheme :: "string option"
  rq_path :: string
  rq_query :: "string option"
  rq_headers :: "(string \<times> bytes) list"

text \<open>\<open>HeaderValue::to_str\<close>: visible ASCII, blanks and tabs.\<close>

definition header_text :: "string \<Rightarrow> HttpRequest \<Rightarrow> string option" where
  "header_text name req =
     (case map_of (rq_headers req) name of
        None \<Rightarrow> None
      | Some v \<Rightarrow> if \<forall>c \<in> set v. byte_in 32 126 c \<or> c = CHR 0x09 then Some v else None)"

definition session_cookie_part :: "string \<Rightarrow> string option" where
  "session_cookie_part part =
     (case split_once (CHR ''='') (trim part) of
        Some (name, v) \<Rightarrow> if trim name = SESSION_COOKIE_NAME \<and> v \<noteq> [] then Some v else None
      | None \<Rightarrow> None)"

text \<open>The first element on which a function is defined.\<close>

fun find_map :: "('a \<Rightarrow> 'b option) \<Rightarrow> 'a list \<Rightarrow> 'b option" where
  "find_map f [] = None"
| "find_map f (x # xs) = (case f x of Some y \<Rightarrow> Some y | None \<Rightarrow> find_map f xs)"

definition session_id_from_headers :: "HttpRequest \<Rightarrow> string option" where
  "session_id_from_headers req =
     (case header_text ''cookie'' req of
        None \<Rightarrow> None
      | Some cookie \<Rightarrow> find_map session_cookie_part (split_all (CHR '';'') cookie))"

definition query_token :: "string \<Rightarrow> string option" where
  "query_token query =
     find_map (\<lambda>pair. case split_once (CHR ''='') pair of
                        Some (k, v) \<Rightarrow> if k = ''token'' then Some (percent_decode_string v) else None
                      | None \<Rightarrow> None)
       (split_all (CHR ''&'') query)"

definition starts_with :: "string \<Rightarrow> string \<Rightarrow> bool" where
  "starts_with p s \<longleftrightarrow> strip_prefix p s \<noteq> None"

definition header_token :: "string \<Rightarrow> string option" where
  "header_token trimmed =
     (case or_option (strip_prefix ''Bearer '' trimmed) (strip_prefix ''bearer '' trimmed) of
        Some token \<Rightarrow> Some (trim token)
      | None \<Rightarrow>
          if \<not> starts_with ''Basic '' trimmed \<and> \<not> starts_with ''basic '' trimmed then Some trimmed
          else None)"

definition attempts_from_request :: "(string \<Rightarrow> bytes option) \<Rightarrow> HttpRequest \<Rightarrow> AuthAttempts" where
  "attempts_from_request b64_decode req =
     (let auth = map_option trim (header_text ''authorization'' req);
          basic = (case auth of Some t \<Rightarrow> extract_basic_auth b64_decode t | None \<Rightarrow> None);
          token = (case auth of Some t \<Rightarrow> header_token t | None \<Rightarrow> None);
          token = (case token of
                     Some t \<Rightarrow> Some t
                   | None \<Rightarrow> (case rq_query req of Some q \<Rightarrow> query_token q | None \<Rightarrow> None))
      in \<lparr>at_basic = basic, at_token = token, at_session = session_id_from_headers req\<rparr>)"

definition request_is_https :: "HttpRequest \<Rightarrow> bool" where
  "request_is_https req \<longleftrightarrow>
     rq_scheme req = Some ''https'' \<or>
     (case header_text ''x-forwarded-proto'' req of Some v \<Rightarrow> eq_ignore_case v ''https'' | None \<Rightarrow> False)"

definition build_session_cookie :: "string \<Rightarrow> HttpRequest \<Rightarrow> string" where
  "build_session_cookie session_id req =
     SESSION_COOKIE_NAME @ ''='' @ session_id @ ''; Path=/; HttpOnly; SameSite=Strict; Max-Age='' @
     digits_of (as_secs SESSION_TTL) @ (if request_is_https req then ''; Secure'' else '''')"

definition build_clear_cookie :: "HttpRequest \<Rightarrow> string" where
  "build_clear_cookie req =
     SESSION_COOKIE_NAME @ ''=; Path=/; HttpOnly; SameSite=Strict; Max-Age=0'' @
     (if request_is_https req then ''; Secure'' else '''')"

text \<open>\<open>HeaderValue::from_str\<close> refuses control characters other than the tab.\<close>

definition header_value_or_invalid :: "string \<Rightarrow> string" where
  "header_value_or_invalid v =
     (if \<forall>c \<in> set v. (32 \<le> (of_char c :: nat) \<and> of_char c \<noteq> (127 :: nat)) \<or> c = CHR 0x09 then v
      else ''invalid=1'')"

definition issue_session_cookie :: "string \<Rightarrow> HttpRequest \<Rightarrow> string \<times> string" where
  "issue_session_cookie session_id req =
     (''set-cookie'', header_value_or_invalid (build_session_cookie session_id req))"

definition clear_session_cookie :: "HttpRequest \<Rightarrow> string \<times> string" where
  "clear_session_cookie req = (''set-cookie'', header_value_or_invalid (build_clear_cookie req))"

section \<open>The middleware\<close>

definition is_protected_path :: "string \<Rightarrow> bool" where
  "is_protected_path path \<longleftrightarrow> starts_with ''/api/'' path \<or> path = ''/RPC2''"

definition is_public_auth_path :: "string \<Rightarrow> bool" where
  "is_public_auth_path path \<longleftrightarrow>
     path \<in> {''/api/v1/auth/config'', ''/api/v1/auth/login'', ''/api/v1/auth/logout''}"

datatype MiddlewareResult = RunNext | Refused nat "(string \<times> string) list" string

definition http_auth_middleware ::
  "(string \<Rightarrow> bytes option) \<Rightarrow> (bytes \<Rightarrow> bytes) \<Rightarrow> duration \<Rightarrow> HttpRequest \<Rightarrow> ServerAuthState
     \<Rightarrow> MiddlewareResult \<times> ServerAuthState" where
  "http_auth_middleware b64_decode sha1 now req st =
     (let path = rq_path req
      in if \<not> is_protected_path path \<or> is_public_auth_path path then (RunNext, st)
         else (let (ok, st) = authorize sha1 now (attempts_from_request b64_decode req) st
               in if ok then (RunNext, st)
                  else (let error = (if sa_basic_auth st \<noteq> None
                                     then ''Unauthorized: Invalid basic authentication credentials''
                                     else ''Unauthorized: Invalid token'');
                            headers = (''content-type'', ''application/json'') #
                              (if path = ''/RPC2'' \<and> sa_basic_auth st \<noteq> None
                               then [(''www-authenticate'', ''Basic realm='' @ [CHR 0x22] @ ''supervisor'' @ [CHR 0x22])]
                               else [])
                        in (Refused 401 headers
                              (''{'' @ [CHR 0x22] @ ''success'' @ [CHR 0x22] @ '':false,'' @ [CHR 0x22] @ ''error'' @
                               [CHR 0x22] @ '':'' @ [CHR 0x22] @ error @ [CHR 0x22] @ ''}''), st))))"

section \<open>The comparison decides equality\<close>

lemma byte_of_eq_iff [simp]: "byte_of x = byte_of y \<longleftrightarrow> x = y"
proof
  assume "byte_of x = byte_of y"
  then have "unat (byte_of x) = unat (byte_of y)" by simp
  moreover have "unat (byte_of c) = of_char c" for c
    unfolding byte_of_def using of_char_of [where 'a = nat, of "of_char c"]
    by (simp add: unat_of_nat take_bit_eq_mod) 
  ultimately show "x = y" by (simp add: of_char_eq_iff)
qed simp

lemma word_or_zero: "or a b = 0 \<longleftrightarrow> a = 0 \<and> b = (0 :: 8 word)"
  by (auto simp: bit_eq_iff bit_or_iff)

lemma word_xor_zero: "xor a b = 0 \<longleftrightarrow> a = (b :: 8 word)"
  by (auto simp: bit_eq_iff bit_xor_iff)

lemma fold_or_zero:
  "foldl (\<lambda>diff (x, y). or diff (xor (byte_of x) (byte_of y))) d ps = 0 \<longleftrightarrow>
     d = 0 \<and> (\<forall>(x, y) \<in> set ps. x = y)"
  by (induction ps arbitrary: d) (auto simp: word_or_zero word_xor_zero)

lemma constant_time_eq_iff [simp]: "constant_time_eq a b \<longleftrightarrow> a = b"
proof -
  have "(\<forall>(x, y) \<in> set (zip a b). x = y) \<longleftrightarrow> a = b" if "length a = length b"
    using that by (induction a b rule: list_induct2) auto
  then show ?thesis by (auto simp: constant_time_eq_def fold_or_zero)
qed

section \<open>Sessions expire by inactivity only\<close>

text \<open>What clients do with sessions, at given times; a session is created with its random identifier.\<close>

datatype SessionAct = SessionCreated bytes | SessionChecked string | SessionEnded string

definition session_act :: "duration \<times> SessionAct \<Rightarrow> SessionStore \<Rightarrow> bool \<times> SessionStore" where
  "session_act ta store =
     (case ta of
        (now, SessionCreated buf) \<Rightarrow> (True, snd (create_session (Some buf) now store))
      | (now, SessionChecked sid) \<Rightarrow> validate_session sid now store
      | (now, SessionEnded sid) \<Rightarrow> (True, invalidate_session sid store))"

fun session_run :: "(duration \<times> SessionAct) list \<Rightarrow> SessionStore \<Rightarrow> bool list" where
  "session_run [] store = []"
| "session_run (ta # tas) store = (let (r, store) = session_act ta store in r # session_run tas store)"

text \<open>
  The contract: a session lives until it is ended or until a whole lifetime passes after its
  creation or its last successful check. Nothing is pruned here.
\<close>

definition session_spec ::
  "duration \<times> SessionAct \<Rightarrow> (string \<rightharpoonup> duration) \<Rightarrow> bool \<times> (string \<rightharpoonup> duration)" where
  "session_spec ta touched =
     (case ta of
        (now, SessionCreated buf) \<Rightarrow> (True, touched(hex_text buf \<mapsto> now))
      | (now, SessionChecked sid) \<Rightarrow>
          (if sid \<noteq> [] \<and> (case touched sid of Some t \<Rightarrow> now < t + SESSION_TTL | None \<Rightarrow> False)
           then (True, touched(sid \<mapsto> now)) else (False, touched))
      | (now, SessionEnded sid) \<Rightarrow> (True, touched(sid := None)))"

fun spec_run :: "(duration \<times> SessionAct) list \<Rightarrow> (string \<rightharpoonup> duration) \<Rightarrow> bool list" where
  "spec_run [] m = []"
| "spec_run (ta # tas) m = (let (r, m) = session_spec ta m in r # spec_run tas m)"

text \<open>The store has a session that has been touched, unless it is expired and pruned.\<close>

definition sessions_match :: "duration \<Rightarrow> SessionStore \<Rightarrow> (string \<rightharpoonup> duration) \<Rightarrow> bool" where
  "sessions_match now store m \<longleftrightarrow> hm_wf store \<and>
     (\<forall>sid e. hm_get store sid = Some e \<longrightarrow> (\<exists>t. m sid = Some t \<and> e = t + SESSION_TTL)) \<and>
     (\<forall>sid t. m sid = Some t \<and> now < t + SESSION_TTL \<longrightarrow> hm_get store sid = Some (t + SESSION_TTL))"

lemma hm_get_filter:
  "hm_wf m \<Longrightarrow> hm_get (filter (\<lambda>(_, v). P v) m) k =
     (case hm_get m k of Some v \<Rightarrow> if P v then Some v else None | None \<Rightarrow> None)"
proof (induction m)
  case (Cons e m)
  obtain k' v' where e: "e = (k', v')" by (cases e)
  have wf: "hm_wf m" and k': "k' \<notin> set (keys m)" using Cons.prems by (simp_all add: hm_wf_def e)
  have "hm_get m k' = None" using k' by (simp add: hm_get_None_iff)
  then show ?case using Cons.IH [OF wf] by (auto simp: e hm_get_Cons)
qed simp

lemma hm_wf_filter: "hm_wf m \<Longrightarrow> hm_wf (filter P m)"
  by (auto simp: hm_wf_def keys_def intro: distinct_map_filter)

lemma validate_live:
  assumes "hm_wf store"
  shows "validate_session sid now store =
     (if sid \<noteq> [] \<and> (case hm_get store sid of Some e \<Rightarrow> now < e | None \<Rightarrow> False)
      then (True, hm_insert sid (now + SESSION_TTL) (filter (\<lambda>(_, e). now < e) store))
      else (False, if sid = [] then store else filter (\<lambda>(_, e). now < e) store))"
  using hm_get_filter [OF assms, of "\<lambda>e. now < e" sid]
  by (auto simp: validate_session_def Let_def split: option.split)

lemma session_act_match:
  assumes "sessions_match now store m" and "now \<le> t"
    and "session_act (t, a) store = (r, store')" and "session_spec (t, a) m = (r', m')"
  shows "r = r' \<and> sessions_match t store' m'"
proof -
  have wf: "hm_wf store"
    and g1: "\<And>sid e. hm_get store sid = Some e \<Longrightarrow> \<exists>u. m sid = Some u \<and> e = u + SESSION_TTL"
    and g2: "\<And>sid u. m sid = Some u \<Longrightarrow> t < u + SESSION_TTL \<Longrightarrow> hm_get store sid = Some (u + SESSION_TTL)"
    using assms(1,2) by (auto simp: sessions_match_def)
  show ?thesis
  proof (cases a)
    case (SessionCreated buf)
    then show ?thesis using assms(3,4) wf g1 g2
      by (auto simp: session_act_def session_spec_def create_session_def Let_def sessions_match_def)
  next
    case (SessionEnded sid)
    then show ?thesis using assms(3,4) wf g1 g2
      by (auto simp: session_act_def session_spec_def invalidate_session_def sessions_match_def)
  next
    case (SessionChecked sid)
    have f: "hm_get (filter (\<lambda>(_, e). t < e) store) s =
        (case hm_get store s of Some e \<Rightarrow> if t < e then Some e else None | None \<Rightarrow> None)" for s
      by (rule hm_get_filter [OF wf])
    have live: "(case hm_get store sid of Some e \<Rightarrow> t < e | None \<Rightarrow> False) \<longleftrightarrow>
        (case m sid of Some u \<Rightarrow> t < u + SESSION_TTL | None \<Rightarrow> False)"
      using g1 [of sid] g2 [of sid] by (cases "hm_get store sid"; cases "m sid") auto
    have wf': "hm_wf (filter (\<lambda>(_, e). t < e) store)" using wf by (rule hm_wf_filter)
    have fm: "sessions_match t (filter (\<lambda>(_, e). t < e) store) m"
      using g1 g2 wf' by (auto simp: sessions_match_def f split: option.splits if_splits)
    moreover have "sessions_match t store m" using wf g1 g2 by (auto simp: sessions_match_def)
    moreover have "sessions_match t (hm_insert sid (t + SESSION_TTL) (filter (\<lambda>(_, e). t < e) store)) (m(sid \<mapsto> t))"
      using fm by (auto simp: sessions_match_def)
    ultimately show ?thesis
      using assms(3,4) by (auto simp: SessionChecked session_act_def session_spec_def validate_live [OF wf] live split: if_splits)
  qed
qed

lemma session_run_match:
  "sessions_match now store m \<Longrightarrow> sorted (now # map fst tas) \<Longrightarrow> session_run tas store = spec_run tas m"
proof (induction tas arbitrary: now store m)
  case (Cons ta tas)
  obtain t a where ta: "ta = (t, a)" by (cases ta)
  obtain r s' where 1: "session_act (t, a) store = (r, s')" by (cases "session_act (t, a) store")
  obtain r' m' where 2: "session_spec (t, a) m = (r', m')" by (cases "session_spec (t, a) m")
  have "r = r' \<and> sessions_match t s' m'"
    by (rule session_act_match [OF Cons.prems(1) _ 1 2]) (use Cons.prems(2) ta in simp)
  then show ?case using Cons.IH [of t s' m'] Cons.prems(2) by (simp add: ta 1 2)
qed simp

text \<open>
  C27: Whatever clients do, in whatever order, a session check succeeds exactly when the session was
  created or successfully checked less than a lifetime ago and not ended since: pruning expired
  entries of the store is never visible.
\<close>

theorem sessions_refine:
  assumes "sorted (map fst tas)"
  shows "session_run tas [] = spec_run tas (\<lambda>_. None)"
proof -
  have "sessions_match 0 [] (\<lambda>_. None)" by (simp add: sessions_match_def hm_wf_def)
  then show ?thesis by (rule session_run_match) (use assms in simp)
qed

theorem sessions_refine_witness:
  "session_run [(0, SessionCreated ''A''), (5, SessionChecked ''41''), (6, SessionEnded ''41''), (7, SessionChecked ''41'')] []
     = [True, True, True, False]"
proof -
  have x: "hex_text ''A'' = ''41''" by code_simp
  show ?thesis
    by (subst sessions_refine) (simp_all add: session_spec_def x SESSION_TTL_def from_secs_def)
qed

section \<open>What the middleware lets through\<close>

text \<open>What makes a request authorised: a live session, the token, or the credentials.\<close>

definition session_live :: "duration \<Rightarrow> ServerAuthState \<Rightarrow> AuthAttempts \<Rightarrow> bool" where
  "session_live now st att \<longleftrightarrow>
     (case at_session att of
        Some sid \<Rightarrow> sid \<noteq> [] \<and> (case hm_get (sa_sessions st) sid of Some e \<Rightarrow> now < e | None \<Rightarrow> False)
      | None \<Rightarrow> False)"

lemma authorize_iff:
  assumes "hm_wf (sa_sessions st)"
  shows "fst (authorize sha1 now att st) \<longleftrightarrow>
     \<not> is_auth_configured st \<or> session_live now st att \<or>
     (\<exists>t. sa_auth_token st = Some t \<and> at_token att = Some t) \<or> basic_matches sha1 st att"
  using validate_live [OF assms]
  by (auto simp: authorize_def session_live_def token_matches_def basic_matches_def Let_def split_beta
      split: option.splits)

lemma authorize_keeps:
  "hm_wf (sa_sessions st) \<Longrightarrow> hm_wf (sa_sessions (snd (authorize sha1 now att st))) \<and>
   sa_basic_auth (snd (authorize sha1 now att st)) = sa_basic_auth st \<and>
   sa_auth_token (snd (authorize sha1 now att st)) = sa_auth_token st"
  by (auto simp: authorize_def Let_def split_beta validate_live hm_wf_filter split: option.split)

text \<open>
  C26: The middleware runs a request exactly if its path is outside the API and the legacy interface,
  or one of the three login pages, or nothing is configured, or the request carries a session that
  has not expired, the configured token, or credentials that verify; otherwise it answers 401.
\<close>

theorem middleware_decision:
  assumes "hm_wf (sa_sessions st)"
  shows "(fst (http_auth_middleware b64 sha1 now req st) = RunNext \<longleftrightarrow>
           \<not> is_protected_path (rq_path req) \<or> is_public_auth_path (rq_path req) \<or>
           \<not> is_auth_configured st \<or>
           session_live now st (attempts_from_request b64 req) \<or>
           (\<exists>t. sa_auth_token st = Some t \<and> at_token (attempts_from_request b64 req) = Some t) \<or>
           basic_matches sha1 st (attempts_from_request b64 req)) \<and>
         (\<forall>code headers body. fst (http_auth_middleware b64 sha1 now req st) = Refused code headers body \<longrightarrow> code = 401)"
  using authorize_iff [OF assms, of sha1 now "attempts_from_request b64 req"]
  by (auto simp: http_auth_middleware_def Let_def split_beta split: if_splits)

definition demo_request :: HttpRequest where
  "demo_request = \<lparr>rq_scheme = None, rq_path = ''/api/v1/programs'', rq_query = Some ''a=b&token=tok'',
     rq_headers = []\<rparr>"

definition demo_auth :: ServerAuthState where
  "demo_auth = auth_state_new None (Some ''tok'') []"

theorem middleware_decision_witness:
  "fst (http_auth_middleware (\<lambda>_. None) (\<lambda>_. []) 0 demo_request demo_auth) = RunNext"
proof -
  have "hm_wf (sa_sessions demo_auth)" by (simp add: demo_auth_def auth_state_new_def hm_wf_def)
  moreover have "at_token (attempts_from_request (\<lambda>_. None) demo_request) = Some ''tok''"
    by code_simp
  moreover have "sa_auth_token demo_auth = Some ''tok''" by (simp add: demo_auth_def auth_state_new_def)
  ultimately show ?thesis
    using middleware_decision [of demo_auth "\<lambda>_. None" "\<lambda>_. []" 0 demo_request] by blast
qed

section \<open>Login\<close>

text \<open>A cookie that a browser returns after a login is read back.\<close>

definition cookie_safe :: "string \<Rightarrow> bool" where
  "cookie_safe sid \<longleftrightarrow> sid \<noteq> [] \<and> (\<forall>c \<in> set sid. byte_in 33 126 c \<and> c \<noteq> CHR '';'')"

lemma visible_not_space: "byte_in 33 126 c \<Longrightarrow> \<not> is_ascii_space c"
  by (auto simp: byte_in_def is_ascii_space_def Let_def)

lemma byte_in_weaken: "byte_in 33 126 c \<Longrightarrow> byte_in 32 126 c"
  by (simp add: byte_in_def)

lemma session_cookie_read_back:
  assumes "cookie_safe sid" and "map_of (rq_headers req) ''cookie'' = Some (SESSION_COOKIE_NAME @ ''='' @ sid)"
  shows "session_id_from_headers req = Some sid"
proof -
  let ?v = "SESSION_COOKIE_NAME @ ''='' @ sid"
  have "list_all (\<lambda>c. byte_in 32 126 c \<and> c \<noteq> CHR '';'') (SESSION_COOKIE_NAME @ ''='')" by code_simp
  then have n: "\<forall>c \<in> set (SESSION_COOKIE_NAME @ ''=''). byte_in 32 126 c \<and> c \<noteq> CHR '';''"
    by (simp only: list_all_iff)
  have i: "sid \<noteq> []" "\<forall>c \<in> set sid. byte_in 33 126 c" "CHR '';'' \<notin> set sid"
    using assms(1) unfolding cookie_safe_def by blast+
  have v: "set ?v = set (SESSION_COOKIE_NAME @ ''='') \<union> set sid" by (simp only: set_append Un_assoc)
  have "\<forall>c \<in> set ?v. byte_in 32 126 c"
    unfolding v using n i(2) byte_in_weaken by blast
  then have h: "header_text ''cookie'' req = Some ?v" by (simp add: header_text_def assms(2))
  have "CHR '';'' \<notin> set ?v" unfolding v using n i(3) by blast
  then have "split_all (CHR '';'') ?v = [?v]" by (rule split_all_single)
  moreover have "trim ?v = ?v"
  proof (rule trim_fix)
    show "\<not> is_ascii_space (hd ?v)" by (simp add: SESSION_COOKIE_NAME_def is_ascii_space_def)
    have "last ?v = last sid" "last sid \<in> set sid" using i(1) by simp_all
    then show "\<not> is_ascii_space (last ?v)" using i(2) visible_not_space by metis
  qed
  moreover have "split_once (CHR ''='') ?v = Some (SESSION_COOKIE_NAME, sid)"
    using split_once_append [of "CHR ''=''" SESSION_COOKIE_NAME sid] by (simp add: SESSION_COOKIE_NAME_def)
  moreover have "trim SESSION_COOKIE_NAME = SESSION_COOKIE_NAME" by code_simp
  ultimately show ?thesis
    using assms(1) by (simp add: session_id_from_headers_def h session_cookie_part_def cookie_safe_def)
qed

lemma hex_text_safe: "bs \<noteq> [] \<Longrightarrow> cookie_safe (hex_text bs)"
proof -
  have d: "byte_in 33 126 (hex_digit n) \<and> hex_digit n \<noteq> CHR '';''" if "n < 16" for n
  proof -
    have "(of_char (hex_digit n) :: nat) = (if n < 10 then 48 + n else 87 + n)"
      using that by (simp add: hex_digit_def)
    moreover have "(of_char (CHR '';'') :: nat) = 59" by simp
    moreover have "(if n < 10 then 48 + n else 87 + n) \<noteq> (59 :: nat)" by simp
    ultimately have "hex_digit n \<noteq> CHR '';''" by metis
    then show ?thesis
      using that \<open>of_char (hex_digit n) = _\<close> by (simp add: byte_in_def)
  qed
  have "(of_char c :: nat) div 16 < 16" for c :: char
  proof -
    have "(of_char c :: nat) < 256" by simp
    then show ?thesis using less_mult_imp_div_less [of "of_char c" 16 16] by simp
  qed
  then show "bs \<noteq> [] \<Longrightarrow> cookie_safe (hex_text bs)"
    by (cases bs) (auto simp: cookie_safe_def hex_text_def hex_byte_def Let_def d)
qed

text \<open>
  Logging in opens the API for a lifetime: a request with the cookie of a session that was created
  less than \<open>SESSION_TTL\<close> ago is authorised and renews the session.
\<close>

lemma login_grants_access:
  assumes "hm_wf (sa_sessions st)" and "buf \<noteq> []"
    and "create_session (Some buf) now (sa_sessions st) = (Some sid, store)"
    and "now' < now + SESSION_TTL"
    and "map_of (rq_headers req) ''cookie'' = Some (SESSION_COOKIE_NAME @ ''='' @ sid)"
  shows "fst (http_auth_middleware b64 sha1 now' req (st\<lparr>sa_sessions := store\<rparr>)) = RunNext"
proof -
  have s: "sid = hex_text buf" "store = hm_insert sid (now + SESSION_TTL) (sa_sessions st)"
    using assms(3) by (auto simp: create_session_def Let_def)
  have c: "cookie_safe sid" unfolding s(1) by (rule hex_text_safe [OF assms(2)])
  have "at_session (attempts_from_request b64 req) = Some sid"
    using session_cookie_read_back [OF c assms(5)] by (simp add: attempts_from_request_def Let_def)
  then have "session_live now' (st\<lparr>sa_sessions := store\<rparr>) (attempts_from_request b64 req)"
    using c assms(4) by (simp add: session_live_def s(2) cookie_safe_def)
  moreover have "hm_wf (sa_sessions (st\<lparr>sa_sessions := store\<rparr>))" using assms(1) s(2) by simp
  ultimately have "fst (authorize sha1 now' (attempts_from_request b64 req) (st\<lparr>sa_sessions := store\<rparr>))"
    by (subst authorize_iff) simp_all
  then show ?thesis by (simp add: http_auth_middleware_def Let_def split_beta)
qed

end
