(* ===== verification/Expression.thy ===== *)
theory Expression
  imports Rust_Text
begin

text \<open>
  The string templates of the configuration (\<open>src/src/config/expand.rs\<close>): expressions
  \<open>%(name)s\<close>, \<open>%(name)02d\<close> and \<open>$(name)\<close> with the escapes \<open>%%\<close> and \<open>$$\<close>, and the macros
  \<open>${NAME}\<close> and \<open>${NAME:-default}\<close> over the process environment.

  A context is the list of its variables. An error is the message it displays; the environment
  of the process is an argument.
\<close>

type_synonym variables = "string hmap"

type_synonym 'a expansion = "string + 'a"

definition expansion_error :: "string \<Rightarrow> 'a expansion" where
  "expansion_error message = Inl (''Configuration expansion error: '' @ message)"

definition with_program_context :: "string \<Rightarrow> string \<Rightarrow> nat \<Rightarrow> nat \<Rightarrow> variables \<Rightarrow> variables" where
  "with_program_context program_name group_name process_num numprocs env =
     hm_insert ''numprocs'' (digits_of numprocs)
       (hm_insert ''process_num'' (digits_of process_num)
         (hm_insert ''group_name'' group_name (hm_insert ''program_name'' program_name env)))"

definition with_defaults :: "string hmap \<Rightarrow> string \<Rightarrow> variables" where
  "with_defaults vars hostname =
     hm_insert ''host_node_name'' hostname (fold (\<lambda>(k, v). hm_insert (''ENV_'' @ k) v) vars [])"

definition with_config_dir :: "string hmap \<Rightarrow> string \<Rightarrow> string \<Rightarrow> variables" where
  "with_config_dir vars hostname dir = hm_insert ''here'' dir (with_defaults vars hostname)"

section \<open>Numbers\<close>

definition i64_limit :: nat where "i64_limit = 2 ^ 63"

text \<open>
  The loop of the standard library's integer parser: digit by digit, with the checks in its order.
  \<open>limit\<close> bounds the magnitude.
\<close>

fun parse_magnitude :: "nat \<Rightarrow> string \<Rightarrow> nat \<Rightarrow> string \<Rightarrow> nat expansion" where
  "parse_magnitude limit overflow acc [] = Inr acc"
| "parse_magnitude limit overflow acc (c # cs) =
     (if \<not> is_ascii_digit c then Inl ''invalid digit found in string''
      else if limit < 10 * acc + digit_val c then Inl overflow
      else parse_magnitude limit overflow (10 * acc + digit_val c) cs)"

definition parse_i64 :: "string \<Rightarrow> int expansion" where
  "parse_i64 s =
     (if s = [] then Inl ''cannot parse integer from empty string''
      else if s = ''+'' \<or> s = ''-'' then Inl ''invalid digit found in string''
      else if hd s = CHR ''-''
      then map_sum id (\<lambda>n. - int n) (parse_magnitude i64_limit ''number too small to fit in target type'' 0 (tl s))
      else map_sum id int
             (parse_magnitude (i64_limit - 1) ''number too large to fit in target type'' 0
               (if hd s = CHR ''+'' then tl s else s)))"

definition pad_zero :: "nat \<Rightarrow> int \<Rightarrow> string" where
  "pad_zero width i =
     (let sign = (if i < 0 then ''-'' else []); ds = digits_of (nat \<bar>i\<bar>)
      in sign @ replicate (width - length sign - length ds) (CHR ''0'') @ ds)"

definition pad_space :: "nat \<Rightarrow> int \<Rightarrow> string" where
  "pad_space width i =
     (let s = int_to_string i in replicate (width - length s) (CHR '' '') @ s)"

section \<open>Evaluation of a template\<close>

definition format_value :: "string \<Rightarrow> string \<Rightarrow> string \<Rightarrow> string \<Rightarrow> string \<Rightarrow> string expansion" where
  "format_value var_name var_val spec text context_name =
     (if spec = ''s'' then Inr var_val
      else if spec \<noteq> [] \<and> last spec \<in> {CHR ''d'', CHR ''i''}
      then (case parse_i64 (trim var_val) of
              Inl e \<Rightarrow> expansion_error
                (''Cannot convert variable '' @ [CHR 0x27] @ var_name @ [CHR 0x27] @ '' with value '' @ [CHR 0x27] @ var_val
                   @ [CHR 0x27] @ '' to integer for format '' @ [CHR 0x27] @ spec @ [CHR 0x27] @ '' in '' @ [CHR 0x27]
                   @ context_name @ [CHR 0x27] @ '': '' @ e)
            | Inr int_val \<Rightarrow>
                (let flags_width = butlast spec
                 in if flags_width = [] then Inr (int_to_string int_val)
                    else (case parse_unsigned usize_max flags_width of
                            None \<Rightarrow> expansion_error
                              (''Invalid integer format width in '' @ [CHR 0x27] @ spec @ [CHR 0x27] @ '' for format string ''
                                 @ [CHR 0x27] @ text @ [CHR 0x27])
                          | Some width \<Rightarrow>
                              Inr (if hd flags_width = CHR ''0'' then pad_zero width int_val
                                   else pad_space width int_val))))
      else expansion_error
             (''Unsupported format specifier '' @ [CHR 0x27] @ ''%'' @ spec @ [CHR 0x27] @ '' for variable '' @ [CHR 0x27]
                @ var_name @ [CHR 0x27] @ '' in '' @ [CHR 0x27] @ text @ [CHR 0x27]))"

definition malformed :: "string \<Rightarrow> string \<Rightarrow> string \<Rightarrow> 'a expansion" where
  "malformed text context_name what =
     expansion_error (''Format string '' @ [CHR 0x27] @ text @ [CHR 0x27] @ '' for '' @ [CHR 0x27] @ context_name
       @ [CHR 0x27] @ what)"

definition is_alphabetic :: "char \<Rightarrow> bool" where
  "is_alphabetic c \<longleftrightarrow> byte_in 65 90 c \<or> byte_in 97 122 c"

definition is_spec_flag :: "char \<Rightarrow> bool" where
  "is_spec_flag c \<longleftrightarrow> is_ascii_digit c \<or> c = CHR ''-'' \<or> c = CHR ''+''"

text \<open>
  The value of one expression \<open>trigger(inner)after\<close> and the text that remains: a format specifier
  after the parenthesis is consumed.
\<close>

definition eval_expression ::
  "variables \<Rightarrow> string \<Rightarrow> string \<Rightarrow> char \<Rightarrow> string \<Rightarrow> string \<Rightarrow> (string \<times> string) expansion" where
  "eval_expression env text context_name trigger inner after =
     (let var_name = trim inner
      in if var_name = []
         then malformed text context_name '' is badly formatted: empty variable name''
         else (case hm_get env var_name of
                 None \<Rightarrow>
                   if trigger = CHR ''$'' then Inr (''$('' @ inner @ '')'', after)
                   else malformed text context_name
                          ('' contains variable '' @ [CHR 0x27] @ var_name @ [CHR 0x27]
                             @ '' which cannot be expanded. Available variables: '' @ join_with '', '' (sort (keys env)))
               | Some var_val \<Rightarrow>
                   (let flags = takeWhile is_spec_flag after; rest = dropWhile is_spec_flag after
                    in if rest \<noteq> [] \<and> hd rest \<in> {CHR ''s'', CHR ''d'', CHR ''i''}
                       then map_sum id (\<lambda>out. (out, tl rest))
                              (format_value var_name var_val (flags @ [hd rest]) text context_name)
                       else if trigger = CHR ''$'' then Inr (var_val, after)
                       else if after \<noteq> [] \<and> is_alphabetic (hd after)
                       then malformed text context_name
                              ('' has unsupported format specifier '' @ [CHR 0x27] @ ''%'' @ [hd after] @ [CHR 0x27])
                       else Inr (var_val, after))))"

text \<open>The loop over the characters; the recursion ends because every step consumes one of them.\<close>

lemma split_once_length: "split_once c s = Some (a, b) \<Longrightarrow> length b < length s"
  by (drule split_once_SomeD) simp

lemma eval_expression_rest:
  assumes "eval_expression env text cn tr inner after = Inr (out, rest)"
  shows "length rest \<le> length after"
proof -
  have "length (tl (dropWhile P after)) \<le> length after" for P :: "char \<Rightarrow> bool"
    using length_dropWhile_le [of P after] by simp
  moreover have "map_sum id f x = Inr y \<Longrightarrow> \<exists>z. x = Inr z \<and> y = f z" for f :: "'a \<Rightarrow> 'b" and x :: "'c + 'a" and y
    by (cases x) auto
  ultimately show ?thesis using assms
    by (fastforce simp: eval_expression_def Let_def malformed_def expansion_error_def split: if_splits option.splits)
qed

lemma eval_rest_shorter:
  assumes "split_once c (tl cs) = Some (inner, after)" and "eval_expression env tx cn tr inner after = Inr (out, rest)"
  shows "length rest < Suc (length cs)"
proof -
  have "length after < length (tl cs)" using assms(1) by (rule split_once_length)
  then show ?thesis using eval_expression_rest [OF assms(2)] by simp
qed

function eval_chars :: "variables \<Rightarrow> string \<Rightarrow> string \<Rightarrow> string \<Rightarrow> string expansion" where
  "eval_chars env text cn [] = Inr []"
| "eval_chars env text cn (ch # rest) =
     (if (ch = CHR ''%'' \<or> ch = CHR ''$'') \<and> rest \<noteq> [] \<and> hd rest = ch
      then map_sum id (Cons ch) (eval_chars env text cn (tl rest))
      else if (ch = CHR ''%'' \<or> ch = CHR ''$'') \<and> rest \<noteq> [] \<and> hd rest = CHR ''(''
      then (case split_once (CHR '')'') (tl rest) of
              None \<Rightarrow> malformed text cn '' is badly formatted: unclosed parenthesis''
            | Some (inner, after) \<Rightarrow>
                (case eval_expression env text cn ch inner after of
                   Inl e \<Rightarrow> Inl e
                 | Inr (out, rest') \<Rightarrow> map_sum id (append out) (eval_chars env text cn rest')))
      else map_sum id (Cons ch) (eval_chars env text cn rest))"
  by pat_completeness auto
termination
  by (relation "measure (\<lambda>(_, _, _, cs). length cs)") (auto dest: eval_rest_shorter)

declare eval_chars.simps [simp del]

definition eval_named :: "variables \<Rightarrow> string \<Rightarrow> string \<Rightarrow> string expansion" where
  "eval_named env text context_name =
     (if CHR ''%'' \<notin> set text \<and> CHR ''$'' \<notin> set text then Inr text
      else eval_chars env text context_name text)"

definition eval_expr :: "variables \<Rightarrow> string \<Rightarrow> string expansion" where
  "eval_expr env text = eval_named env text ''expression''"

section \<open>Macros\<close>

text \<open>\<open>str::split_once\<close> with the separator \<open>:-\<close>.\<close>

fun split_default :: "string \<Rightarrow> (string \<times> string) option" where
  "split_default (CHR '':'' # CHR ''-'' # rest) = Some ([], rest)"
| "split_default (c # rest) = map_option (\<lambda>(a, b). (c # a, b)) (split_default rest)"
| "split_default [] = None"

definition resolve_var_expr :: "string hmap \<Rightarrow> string \<Rightarrow> string" where
  "resolve_var_expr vars expr =
     (case split_default expr of
        Some (var_name, default_val) \<Rightarrow>
          (case hm_get vars (trim var_name) of
             Some val \<Rightarrow> if val \<noteq> [] then val else default_val
           | None \<Rightarrow> default_val)
      | None \<Rightarrow> (case hm_get vars (trim expr) of Some val \<Rightarrow> val | None \<Rightarrow> []))"

function expand_line_env :: "string hmap \<Rightarrow> string \<Rightarrow> string" where
  "expand_line_env vars [] = []"
| "expand_line_env vars (ch # rest) =
     (if ch = CHR ''$'' \<and> rest \<noteq> [] \<and> hd rest = CHR ''{''
      then (case split_once (CHR ''}'') (tl rest) of
              Some (var_expr, after) \<Rightarrow> resolve_var_expr vars var_expr @ expand_line_env vars after
            | None \<Rightarrow> ''${'' @ tl rest)
      else ch # expand_line_env vars rest)"
  by pat_completeness auto
termination
proof (relation "measure (\<lambda>(_, cs). length cs)")
  fix vars :: "string hmap" and ch rest x var_expr after
  assume "split_once (CHR ''}'') (tl rest) = Some x" "(var_expr, after) = x"
  then have "length after < length (tl rest)" using split_once_length by blast
  then show "((vars, after), vars, ch # rest) \<in> measure (\<lambda>(_, cs). length cs)" by simp
qed auto

definition has_expression :: "string \<Rightarrow> bool" where
  "has_expression s \<longleftrightarrow> CHR ''%'' \<in> set s \<or> (\<exists>i < length s. take 2 (drop i s) = ''$('')"

definition expand_value_with_expr :: "string hmap \<Rightarrow> variables \<Rightarrow> string \<Rightarrow> string" where
  "expand_value_with_expr vars expr value =
     (if CHR ''$'' \<notin> set value \<and> CHR ''%'' \<notin> set value then value
      else (let env_expanded = expand_line_env vars value
            in if has_expression env_expanded
               then (case eval_expr expr env_expanded of Inr evaled \<Rightarrow> evaled | Inl _ \<Rightarrow> env_expanded)
               else env_expanded))"

definition is_comment :: "string \<Rightarrow> bool" where
  "is_comment line =
     (let trimmed = dropWhile is_ascii_space line
      in trimmed \<noteq> [] \<and> (hd trimmed = CHR ''#'' \<or> hd trimmed = CHR '';''))"

definition expand_with_expr :: "string hmap \<Rightarrow> variables \<Rightarrow> string \<Rightarrow> string" where
  "expand_with_expr vars expr raw =
     concat (map (\<lambda>line.
       if is_comment line then line
       else (let env_expanded = expand_line_env vars line
             in if has_expression env_expanded
                then (case eval_expr expr env_expanded of Inr evaled \<Rightarrow> evaled | Inl _ \<Rightarrow> env_expanded)
                else env_expanded)) (line_segs raw))"

definition expand_value :: "string hmap \<Rightarrow> string \<Rightarrow> string option \<Rightarrow> string \<Rightarrow> string" where
  "expand_value vars hostname config_dir value =
     expand_value_with_expr vars
       (case config_dir of Some dir \<Rightarrow> with_config_dir vars hostname dir | None \<Rightarrow> with_defaults vars hostname) value"

section \<open>Templates mean what they say\<close>

text \<open>A template as its author thinks of it: literal text and variables.\<close>

datatype piece = Lit string | Var string | VarDec string

fun escape :: "string \<Rightarrow> string" where
  "escape [] = []"
| "escape (c # cs) = (if c = CHR ''%'' \<or> c = CHR ''$'' then [c, c] else [c]) @ escape cs"

fun piece_text :: "piece \<Rightarrow> string" where
  "piece_text (Lit s) = escape s"
| "piece_text (Var v) = ''%('' @ v @ '')s''"
| "piece_text (VarDec v) = ''%('' @ v @ '')d''"

definition variable_name :: "string \<Rightarrow> bool" where
  "variable_name v \<longleftrightarrow> v \<noteq> [] \<and> CHR '')'' \<notin> set v \<and> \<not> is_ascii_space (hd v) \<and> \<not> is_ascii_space (last v)"

fun piece_ok :: "variables \<Rightarrow> piece \<Rightarrow> bool" where
  "piece_ok env (Lit s) = True"
| "piece_ok env (Var v) \<longleftrightarrow> variable_name v \<and> hm_get env v \<noteq> None"
| "piece_ok env (VarDec v) \<longleftrightarrow> variable_name v \<and>
     (\<exists>s n. hm_get env v = Some s \<and> parse_i64 (trim s) = Inr n)"

fun piece_value :: "variables \<Rightarrow> piece \<Rightarrow> string" where
  "piece_value env (Lit s) = s"
| "piece_value env (Var v) = the (hm_get env v)"
| "piece_value env (VarDec v) =
     (case parse_i64 (trim (the (hm_get env v))) of Inr n \<Rightarrow> int_to_string n | Inl _ \<Rightarrow> [])"

lemma eval_escape: "eval_chars env text cn (escape s @ r) = map_sum id (append s) (eval_chars env text cn r)"
proof (induction s)
  case Nil
  then show ?case by (cases "eval_chars env text cn r") simp_all
next
  case (Cons c s)
  then show ?case
    by (cases "eval_chars env text cn r") (simp_all add: eval_chars.simps split: if_splits)
qed

lemma variable_name_trim: "variable_name v \<Longrightarrow> trim v = v"
  by (rule trim_fix) (simp_all add: variable_name_def)

lemma eval_piece:
  assumes "piece_ok env p"
  shows "eval_chars env text cn (piece_text p @ r) = map_sum id (append (piece_value env p)) (eval_chars env text cn r)"
proof (cases p)
  case (Lit s)
  then show ?thesis by (simp add: eval_escape)
next
  case (Var v)
  then have v: "variable_name v" "CHR '')'' \<notin> set v" "v \<noteq> []" using assms by (simp_all add: variable_name_def)
  obtain val where val: "hm_get env v = Some val" using assms Var by auto
  have "split_once (CHR '')'') (v @ CHR '')'' # CHR ''s'' # r) = Some (v, CHR ''s'' # r)"
    by (rule split_once_append) (rule v(2))
  then show ?thesis
    using Var v val
    by (simp add: eval_chars.simps eval_expression_def variable_name_trim format_value_def is_spec_flag_def
        is_ascii_digit_def byte_in_def)
next
  case (VarDec v)
  then have v: "variable_name v" "CHR '')'' \<notin> set v" "v \<noteq> []" using assms by (auto simp: variable_name_def)
  obtain val n where val: "hm_get env v = Some val" "parse_i64 (trim val) = Inr n" using assms VarDec by auto
  have "split_once (CHR '')'') (v @ CHR '')'' # CHR ''d'' # r) = Some (v, CHR ''d'' # r)"
    by (rule split_once_append) (rule v(2))
  then show ?thesis
    using VarDec v val
    by (simp add: eval_chars.simps eval_expression_def variable_name_trim format_value_def is_spec_flag_def
        is_ascii_digit_def byte_in_def)
qed

lemma eval_pieces:
  "list_all (piece_ok env) ps \<Longrightarrow>
     eval_chars env text cn (concat (map piece_text ps)) = Inr (concat (map (piece_value env) ps))"
  by (induction ps) (simp_all add: eval_piece eval_chars.simps)

lemma escape_plain: "CHR ''%'' \<notin> set (escape s) \<Longrightarrow> CHR ''$'' \<notin> set (escape s) \<Longrightarrow> escape s = s"
  by (induction s) (auto split: if_splits)

lemma pieces_plain:
  assumes "list_all (piece_ok env) ps" and "CHR ''%'' \<notin> set (concat (map piece_text ps))"
    and "CHR ''$'' \<notin> set (concat (map piece_text ps))"
  shows "concat (map (piece_value env) ps) = concat (map piece_text ps)"
  using assms
proof (induction ps)
  case (Cons p ps)
  show ?case
  proof (cases p)
    case (Lit s)
    have "escape s = s" by (rule escape_plain) (use Cons.prems Lit in simp_all)
    then show ?thesis using Cons Lit by simp
  qed (use Cons.prems in simp_all)
qed simp

text \<open>
  A template means what it says: a text made of literal parts, in which \<open>%\<close> and \<open>$\<close> are doubled,
  and of variables of the context, as strings or as decimal numbers, evaluates to the literal parts
  with the values in place of the variables. A value is never expanded again, whatever it contains.
\<close>

theorem template_value:
  assumes "list_all (piece_ok env) ps"
  shows "eval_named env (concat (map piece_text ps)) cn = Inr (concat (map (piece_value env) ps))"
  using eval_pieces [OF assms] pieces_plain [OF assms] by (simp add: eval_named_def)

theorem template_value_witness:
  "eval_named [(''n'', '' 7''), (''v'', ''%(n)s'')] ''50%% of %(v)s: %(n)d'' ''command'' = Inr ''50% of %(n)s: 7''"
proof -
  have p: "parse_i64 (trim '' 7'') = Inr 7"
    by (simp add: trim_def is_ascii_space_def parse_i64_def i64_limit_def is_ascii_digit_def byte_in_def digit_val_def)
  have d: "digits_of 7 = ''7''" by code_simp
  from p have "list_all (piece_ok [(''n'', '' 7''), (''v'', ''%(n)s'')])
      [Lit ''50% of '', Var ''v'', Lit '': '', VarDec ''n'']"
    by (simp add: variable_name_def is_ascii_space_def hm_get_def)
  from template_value [OF this, of "''command''"] show ?thesis
    using p d by (simp add: hm_get_def int_to_string_def)
qed

text \<open>
  Values pass through two evaluations, as macros when the configuration is loaded and as templates
  when the programs are resolved. An escaped expression is therefore expanded after all.
\<close>

lemma escape_is_undone:
  assumes "vars = []"
  shows "eval_named (with_config_dir vars host ''/etc'') (expand_value vars host (Some ''/etc'') ''%%(here)s'') ''command''
    = Inr ''/etc''"
  unfolding assms
  by (simp add: expand_value_def expand_value_with_expr_def with_config_dir_def has_expression_def eval_expr_def
      eval_named_def eval_chars.simps eval_expression_def trim_def is_ascii_space_def format_value_def
      is_spec_flag_def is_ascii_digit_def byte_in_def)

end
