(* ===== verification/Rpc_Wire.thy ===== *)
theory Rpc_Wire
  imports Value_Text Expression
begin

text \<open>
  The values and messages of the legacy interface: faults and how errors become faults
  (\<open>src/src/compat/xmlrpc/fault.rs\<close>), values, the validation of method names, the reading of a call
  and the printing of a response (\<open>src/src/compat/xmlrpc/wire.rs\<close>).

  The XML reader and Base64 are third-party code: a document is the list of the events that the
  reader yields for it, and the record \<open>XmlLib\<close> holds the operations that the code calls. The
  recursive reading carries fuel; \<open>reading_enough_fuel\<close> shows that the number of events suffices.
\<close>

section \<open>Faults\<close>

datatype FaultCode =
    UnknownMethod | IncorrectParameters | BadArgumentsFault | SignatureUnsupported | ShutdownState
  | BadName | BadSignal | NoFileFault | NotExecutable | Failed | AbnormalTermination | SpawnError
  | AlreadyStarted | NotRunningFault | Success | AlreadyAdded | StillRunning | CantReread

fun fault_code :: "FaultCode \<Rightarrow> int" where
  "fault_code UnknownMethod = 1"
| "fault_code IncorrectParameters = 2"
| "fault_code BadArgumentsFault = 3"
| "fault_code SignatureUnsupported = 4"
| "fault_code ShutdownState = 6"
| "fault_code BadName = 10"
| "fault_code BadSignal = 11"
| "fault_code NoFileFault = 20"
| "fault_code NotExecutable = 21"
| "fault_code Failed = 30"
| "fault_code AbnormalTermination = 40"
| "fault_code SpawnError = 50"
| "fault_code AlreadyStarted = 60"
| "fault_code NotRunningFault = 70"
| "fault_code Success = 80"
| "fault_code AlreadyAdded = 90"
| "fault_code StillRunning = 91"
| "fault_code CantReread = 92"

fun fault_name :: "FaultCode \<Rightarrow> string" where
  "fault_name UnknownMethod = ''UNKNOWN_METHOD''"
| "fault_name IncorrectParameters = ''INCORRECT_PARAMETERS''"
| "fault_name BadArgumentsFault = ''BAD_ARGUMENTS''"
| "fault_name SignatureUnsupported = ''SIGNATURE_UNSUPPORTED''"
| "fault_name ShutdownState = ''SHUTDOWN_STATE''"
| "fault_name BadName = ''BAD_NAME''"
| "fault_name BadSignal = ''BAD_SIGNAL''"
| "fault_name NoFileFault = ''NO_FILE''"
| "fault_name NotExecutable = ''NOT_EXECUTABLE''"
| "fault_name Failed = ''FAILED''"
| "fault_name AbnormalTermination = ''ABNORMAL_TERMINATION''"
| "fault_name SpawnError = ''SPAWN_ERROR''"
| "fault_name AlreadyStarted = ''ALREADY_STARTED''"
| "fault_name NotRunningFault = ''NOT_RUNNING''"
| "fault_name Success = ''SUCCESS''"
| "fault_name AlreadyAdded = ''ALREADY_ADDED''"
| "fault_name StillRunning = ''STILL_RUNNING''"
| "fault_name CantReread = ''CANT_REREAD''"

record Fault =
  fault_number :: int
  fault_message :: string

definition fault_new :: "FaultCode \<Rightarrow> string \<Rightarrow> Fault" where
  "fault_new code message = \<lparr>fault_number = fault_code code, fault_message = message\<rparr>"

definition named_fault :: "FaultCode \<Rightarrow> string \<Rightarrow> Fault" where
  "named_fault code detail = fault_new code (fault_name code @ '': '' @ detail)"

definition unknown_method :: "string \<Rightarrow> Fault" where
  "unknown_method name = named_fault UnknownMethod (''method '' @ quoted name @ '' not found'')"

definition incorrect_params :: "string \<Rightarrow> Fault" where
  "incorrect_params = named_fault IncorrectParameters"
definition bad_name :: "string \<Rightarrow> Fault" where "bad_name = named_fault BadName"
definition bad_signal :: "string \<Rightarrow> Fault" where "bad_signal = named_fault BadSignal"
definition already_started :: "string \<Rightarrow> Fault" where "already_started = named_fault AlreadyStarted"
definition not_running :: "string \<Rightarrow> Fault" where "not_running = named_fault NotRunningFault"
definition shutdown_state :: Fault where
  "shutdown_state = fault_new ShutdownState (fault_name ShutdownState)"
definition signature_unsupported :: "string \<Rightarrow> Fault" where
  "signature_unsupported = named_fault SignatureUnsupported"
definition failed :: "string \<Rightarrow> Fault" where "failed = fault_new Failed"
definition bad_arguments :: "string \<Rightarrow> Fault" where "bad_arguments = fault_new BadArgumentsFault"
definition no_file :: "string \<Rightarrow> Fault" where "no_file = fault_new NoFileFault"
definition cant_reread :: "string \<Rightarrow> Fault" where "cant_reread = fault_new CantReread"
definition already_added :: "string \<Rightarrow> Fault" where "already_added = named_fault AlreadyAdded"
definition still_running_fault :: "string \<Rightarrow> Fault" where
  "still_running_fault = named_fault StillRunning"

definition fault_text :: "Fault \<Rightarrow> string" where
  "fault_text f = ''Fault '' @ int_to_string (fault_number f) @ '': '' @ fault_message f"

text \<open>\<open>From<ProgramError>\<close>; the texts of the system are compared in ASCII lower case.\<close>

definition mentions :: "string list \<Rightarrow> string \<Rightarrow> bool" where
  "mentions ps s \<longleftrightarrow> (\<exists>p \<in> set ps. occurs_in p (to_ascii_lowercase s))"

definition fault_of :: "ProgramError \<Rightarrow> Fault" where
  "fault_of err =
     (case err of
        NotFound name \<Rightarrow> bad_name name
      | AlreadyRunning name _ \<Rightarrow> already_started name
      | NotRunning name \<Rightarrow> not_running name
      | ShuttingDown _ \<Rightarrow> shutdown_state
      | Timeout _ _ \<Rightarrow> fault_new AbnormalTermination ''ABNORMAL_TERMINATION''
      | StartFailed name reason \<Rightarrow>
          if mentions [''not found'', ''no such file'', ''cannot find''] reason
          then fault_new SpawnError (''SPAWN_ERROR: '' @ name @ '' ('' @ reason @ '')'')
          else if mentions [''permission denied'', ''access is denied''] reason
          then fault_new NotExecutable (''NOT_EXECUTABLE: '' @ name @ '' ('' @ reason @ '')'')
          else fault_new SpawnError (''SPAWN_ERROR: '' @ name @ '' ('' @ reason @ '')'')
      | StdinWriteTimeout _ _ \<Rightarrow> fault_new NoFileFault ''NO_FILE: stdin pipe write timed out''
      | ConfigError msg \<Rightarrow> cant_reread msg
      | ReadLogFailed _ error \<Rightarrow>
          if mentions [''not exist'', ''no such file''] error then no_file error
          else if mentions [''negative'', ''bad arguments''] error then bad_arguments error
          else failed error
      | _ \<Rightarrow> failed (error_text err))"

section \<open>Values\<close>

text \<open>A structure is a list of members sorted by name, as in a \<open>BTreeMap\<close>; integers are 32-bit.\<close>

datatype RpcValue =
    RInt int
  | RBoolean bool
  | RString string
  | RDouble Float64
  | RDateTime string
  | RBase64 bytes
  | RArray "RpcValue list"
  | RStruct "(string \<times> RpcValue) list"
  | RNil

fun bt_insert :: "string \<Rightarrow> 'v \<Rightarrow> (string \<times> 'v) list \<Rightarrow> (string \<times> 'v) list" where
  "bt_insert k v [] = [(k, v)]"
| "bt_insert k v ((k', v') # m) =
     (if k < k' then (k, v) # (k', v') # m
      else if k = k' then (k, v) # m
      else (k', v') # bt_insert k v m)"

definition bt_of :: "(string \<times> 'v) list \<Rightarrow> (string \<times> 'v) list" where
  "bt_of kvs = foldl (\<lambda>m (k, v). bt_insert k v m) [] kvs"

text \<open>Casts to signed integers: of integers by wrapping, of floating point numbers by saturating.\<close>

definition cast_i32 :: "int \<Rightarrow> int" where
  "cast_i32 n = (n + 2 ^ 31) mod 2 ^ 32 - 2 ^ 31"

definition float_to_int :: "nat \<Rightarrow> Float64 \<Rightarrow> int" where
  "float_to_int bits x =
     (case x of
        NotANumber \<Rightarrow> 0
      | Infinite neg \<Rightarrow> if neg then - (2 ^ (bits - 1)) else 2 ^ (bits - 1) - 1
      | Finite r \<Rightarrow>
          max (- (2 ^ (bits - 1))) (min (2 ^ (bits - 1) - 1) (if r < 0 then \<lceil>r\<rceil> else \<lfloor>r\<rfloor>)))"

definition rpc_as_str :: "RpcValue \<Rightarrow> string option" where
  "rpc_as_str v = (case v of RString s \<Rightarrow> Some s | _ \<Rightarrow> None)"

definition rpc_as_i32 :: "RpcValue \<Rightarrow> int option" where
  "rpc_as_i32 v = (case v of RInt i \<Rightarrow> Some i | RDouble d \<Rightarrow> Some (float_to_int 32 d) | _ \<Rightarrow> None)"

definition rpc_as_i64 :: "RpcValue \<Rightarrow> int option" where
  "rpc_as_i64 v =
     (case v of
        RInt i \<Rightarrow> Some i
      | RDouble d \<Rightarrow> Some (float_to_int 64 d)
      | RString s \<Rightarrow> (case parse_i64 s of Inr n \<Rightarrow> Some n | Inl _ \<Rightarrow> None)
      | _ \<Rightarrow> None)"

definition rpc_as_bool :: "RpcValue \<Rightarrow> bool option" where
  "rpc_as_bool v = (case v of RBoolean b \<Rightarrow> Some b | _ \<Rightarrow> None)"

definition rpc_as_array :: "RpcValue \<Rightarrow> RpcValue list option" where
  "rpc_as_array v = (case v of RArray a \<Rightarrow> Some a | _ \<Rightarrow> None)"

definition rpc_as_struct :: "RpcValue \<Rightarrow> (string \<times> RpcValue) list option" where
  "rpc_as_struct v = (case v of RStruct m \<Rightarrow> Some m | _ \<Rightarrow> None)"

definition rpc_as_bytes :: "RpcValue \<Rightarrow> bytes option" where
  "rpc_as_bytes v = (case v of RBase64 b \<Rightarrow> Some b | RString s \<Rightarrow> Some s | _ \<Rightarrow> None)"

section \<open>Method names\<close>

definition starts_underscore :: "string \<Rightarrow> bool" where
  "starts_underscore s \<longleftrightarrow> s \<noteq> [] \<and> hd s = CHR ''_''"

definition validate_method_name :: "string \<Rightarrow> Fault + unit" where
  "validate_method_name name =
     (if starts_underscore name \<or> occurs_in ''..'' name then Inl (unknown_method name)
      else (case split_all (CHR ''.'') name of
              [a, b] \<Rightarrow>
                if a = [] \<or> b = [] then Inl (unknown_method name)
                else if starts_underscore a \<or> starts_underscore b then Inl (unknown_method name)
                else Inr ()
            | _ \<Rightarrow> Inl (unknown_method name)))"

section \<open>Reading\<close>

datatype XmlEvent =
    XStart string
  | XEmpty string
  | XEnd string
  | XText string
  | XError string
  | XOther

text \<open>
  The operations of the libraries: the events of a document, the raw text up to the end of an element, the replacement of
  entities, Base64, and the printing of a floating point number.
\<close>

record XmlLib =
  xl_events :: "string \<Rightarrow> XmlEvent list"
  xl_read_text :: "string \<Rightarrow> XmlEvent list \<Rightarrow> (string + string) \<times> XmlEvent list"
  xl_unescape :: "string \<Rightarrow> string + string"
  xl_decode :: "string \<Rightarrow> string + bytes"
  xl_encode :: "bytes \<Rightarrow> string"
  xl_show_double :: "Float64 \<Rightarrow> string"

definition scalar_tag :: "string \<Rightarrow> bool" where
  "scalar_tag tag \<longleftrightarrow>
     tag \<in> {''i4'', ''int'', ''boolean'', ''string'', ''double'', ''dateTime.iso8601'', ''base64''}"

definition scalar_value :: "XmlLib \<Rightarrow> string \<Rightarrow> string \<Rightarrow> Fault + RpcValue" where
  "scalar_value L tag txt =
     (if tag = ''i4'' \<or> tag = ''int''
      then (case parse_i32 (trim txt) of Inl e \<Rightarrow> Inl (incorrect_params e) | Inr n \<Rightarrow> Inr (RInt n))
      else if tag = ''boolean''
      then (if trim txt = ''1'' \<or> trim txt = ''true'' then Inr (RBoolean True)
            else if trim txt = ''0'' \<or> trim txt = ''false'' then Inr (RBoolean False)
            else Inl (incorrect_params ''Invalid boolean value''))
      else if tag = ''string'' then Inr (RString txt)
      else if tag = ''double''
      then (case parse_f64 (trim txt) of
              None \<Rightarrow> Inl (incorrect_params
                 (if trim txt = [] then ''cannot parse float from empty string'' else ''invalid float literal''))
            | Some d \<Rightarrow> Inr (RDouble d))
      else if tag = ''dateTime.iso8601'' then Inr (RDateTime txt)
      else (case xl_decode L (filter (\<lambda>c. \<not> is_ascii_space c) txt) of
              Inl e \<Rightarrow> Inl (incorrect_params e)
            | Inr b \<Rightarrow> Inr (RBase64 b)))"

type_synonym 'a reading = "((Fault + 'a) \<times> XmlEvent list) option"

text \<open>\<open>None\<close> is fuel that ran out; the bind is the operator \<open>?\<close>.\<close>

definition rd_bind :: "'a reading \<Rightarrow> ('a \<Rightarrow> XmlEvent list \<Rightarrow> 'b reading) \<Rightarrow> 'b reading" where
  "rd_bind r k =
     (case r of
        None \<Rightarrow> None
      | Some (Inl f, evs) \<Rightarrow> Some (Inl f, evs)
      | Some (Inr x, evs) \<Rightarrow> k x evs)"

definition rd_text :: "XmlLib \<Rightarrow> string \<Rightarrow> XmlEvent list \<Rightarrow> string reading" where
  "rd_text L tag evs =
     (case xl_read_text L tag evs of
        (Inl e, evs) \<Rightarrow> Some (Inl (incorrect_params e), evs)
      | (Inr txt, evs) \<Rightarrow> Some (Inr txt, evs))"

definition member_result :: "string option \<Rightarrow> RpcValue option \<Rightarrow> Fault + string \<times> RpcValue" where
  "member_result k v =
     (case k of
        None \<Rightarrow> Inl (incorrect_params ''struct member missing name'')
      | Some k \<Rightarrow> Inr (k, unwrap_or v (RString '''')))"

text \<open>
  One step of each reader, in terms of the readers that it calls. The end of the events is the end
  of the document.
\<close>

definition value_step ::
  "XmlLib \<Rightarrow> (RpcValue option \<Rightarrow> XmlEvent list \<Rightarrow> RpcValue reading) \<Rightarrow>
   ((string \<times> RpcValue) list \<Rightarrow> XmlEvent list \<Rightarrow> (string \<times> RpcValue) list reading) \<Rightarrow>
   (RpcValue list \<Rightarrow> XmlEvent list \<Rightarrow> RpcValue list reading) \<Rightarrow>
   RpcValue option \<Rightarrow> XmlEvent list \<Rightarrow> RpcValue reading" where
  "value_step L self structs arrays cur events =
     (case events of
        [] \<Rightarrow> Some (Inr (unwrap_or cur (RString '''')), [])
      | ev # evs \<Rightarrow>
     (case ev of
        XStart tag \<Rightarrow>
          if scalar_tag tag
          then rd_bind (rd_text L tag evs) (\<lambda>txt evs.
               rd_bind (Some (scalar_value L tag txt, evs)) (\<lambda>v evs. self (Some v) evs))
          else if tag = ''struct''
          then rd_bind (structs [] evs) (\<lambda>m evs. self (Some (RStruct m)) evs)
          else if tag = ''array''
          then rd_bind (arrays [] evs) (\<lambda>a evs. self (Some (RArray a)) evs)
          else self (if tag = ''nil'' then Some RNil else cur) evs
      | XEmpty tag \<Rightarrow>
          self (if tag = ''nil'' then Some RNil else if tag = ''string'' then Some (RString '''') else cur) evs
      | XText txt \<Rightarrow>
          if cur = None
          then rd_bind (Some (map_sum incorrect_params RString (xl_unescape L txt), evs))
                 (\<lambda>v evs. self (Some v) evs)
          else self cur evs
      | XEnd tag \<Rightarrow>
          if tag = ''value'' then Some (Inr (unwrap_or cur (RString '''')), evs) else self cur evs
      | XError e \<Rightarrow> Some (Inl (incorrect_params e), evs)
      | XOther \<Rightarrow> self cur evs))"

definition struct_step ::
  "((string \<times> RpcValue) list \<Rightarrow> XmlEvent list \<Rightarrow> (string \<times> RpcValue) list reading) \<Rightarrow>
   (string option \<Rightarrow> RpcValue option \<Rightarrow> XmlEvent list \<Rightarrow> (string \<times> RpcValue) reading) \<Rightarrow>
   (string \<times> RpcValue) list \<Rightarrow> XmlEvent list \<Rightarrow> (string \<times> RpcValue) list reading" where
  "struct_step self members m events =
     (case events of
        [] \<Rightarrow> Some (Inr m, [])
      | ev # evs \<Rightarrow>
     (case ev of
        XStart tag \<Rightarrow>
          if tag = ''member''
          then rd_bind (members None None evs) (\<lambda>kv evs. self (bt_insert (fst kv) (snd kv) m) evs)
          else self m evs
      | XEnd tag \<Rightarrow> if tag = ''struct'' then Some (Inr m, evs) else self m evs
      | XError e \<Rightarrow> Some (Inl (incorrect_params e), evs)
      | _ \<Rightarrow> self m evs))"

definition member_step ::
  "XmlLib \<Rightarrow> (RpcValue option \<Rightarrow> XmlEvent list \<Rightarrow> RpcValue reading) \<Rightarrow>
   (string option \<Rightarrow> RpcValue option \<Rightarrow> XmlEvent list \<Rightarrow> (string \<times> RpcValue) reading) \<Rightarrow>
   string option \<Rightarrow> RpcValue option \<Rightarrow> XmlEvent list \<Rightarrow> (string \<times> RpcValue) reading" where
  "member_step L vread self k v events =
     (case events of
        [] \<Rightarrow> Some (member_result k v, [])
      | ev # evs \<Rightarrow>
     (case ev of
        XStart tag \<Rightarrow>
          if tag = ''name''
          then rd_bind (rd_text L tag evs) (\<lambda>txt evs. self (Some txt) v evs)
          else if tag = ''value''
          then rd_bind (vread None evs) (\<lambda>x evs. self k (Some x) evs)
          else self k v evs
      | XEmpty tag \<Rightarrow> self k (if tag = ''value'' then Some (RString '''') else v) evs
      | XEnd tag \<Rightarrow> if tag = ''member'' then Some (member_result k v, evs) else self k v evs
      | XError e \<Rightarrow> Some (Inl (incorrect_params e), evs)
      | _ \<Rightarrow> self k v evs))"

definition array_step ::
  "(RpcValue option \<Rightarrow> XmlEvent list \<Rightarrow> RpcValue reading) \<Rightarrow>
   (RpcValue list \<Rightarrow> XmlEvent list \<Rightarrow> RpcValue list reading) \<Rightarrow>
   RpcValue list \<Rightarrow> XmlEvent list \<Rightarrow> RpcValue list reading" where
  "array_step vread self items events =
     (case events of
        [] \<Rightarrow> Some (Inr items, [])
      | ev # evs \<Rightarrow>
     (case ev of
        XStart tag \<Rightarrow>
          if tag = ''value''
          then rd_bind (vread None evs) (\<lambda>x evs. self (items @ [x]) evs)
          else self items evs
      | XEmpty tag \<Rightarrow> self (if tag = ''value'' then items @ [RString ''''] else items) evs
      | XEnd tag \<Rightarrow> if tag = ''array'' then Some (Inr items, evs) else self items evs
      | XError e \<Rightarrow> Some (Inl (incorrect_params e), evs)
      | _ \<Rightarrow> self items evs))"

function parse_value_element :: "XmlLib \<Rightarrow> nat \<Rightarrow> RpcValue option \<Rightarrow> XmlEvent list \<Rightarrow> RpcValue reading"
  and parse_struct :: "XmlLib \<Rightarrow> nat \<Rightarrow> (string \<times> RpcValue) list \<Rightarrow> XmlEvent list
     \<Rightarrow> (string \<times> RpcValue) list reading"
  and parse_member :: "XmlLib \<Rightarrow> nat \<Rightarrow> string option \<Rightarrow> RpcValue option \<Rightarrow> XmlEvent list
     \<Rightarrow> (string \<times> RpcValue) reading"
  and parse_array :: "XmlLib \<Rightarrow> nat \<Rightarrow> RpcValue list \<Rightarrow> XmlEvent list \<Rightarrow> RpcValue list reading" where
  "parse_value_element L 0 cur evs = None"
| "parse_value_element L (Suc n) cur evs =
     value_step L (\<lambda>c. parse_value_element L n c) (\<lambda>m. parse_struct L n m) (\<lambda>a. parse_array L n a) cur evs"
| "parse_struct L 0 m evs = None"
| "parse_struct L (Suc n) m evs =
     struct_step (\<lambda>m. parse_struct L n m) (\<lambda>k v. parse_member L n k v) m evs"
| "parse_member L 0 k v evs = None"
| "parse_member L (Suc n) k v evs =
     member_step L (\<lambda>c. parse_value_element L n c) (\<lambda>k v. parse_member L n k v) k v evs"
| "parse_array L 0 items evs = None"
| "parse_array L (Suc n) items evs =
     array_step (\<lambda>c. parse_value_element L n c) (\<lambda>a. parse_array L n a) items evs"
  by pat_completeness auto

termination
  by (relation "measure (case_sum
        (case_sum (\<lambda>(L, n, _). n) (\<lambda>(L, n, _). n)) (case_sum (\<lambda>(L, n, _). n) (\<lambda>(L, n, _). n)))")
     auto

definition param_result :: "RpcValue option \<Rightarrow> Fault + RpcValue" where
  "param_result found =
     (case found of None \<Rightarrow> Inl (incorrect_params ''param without value'') | Some v \<Rightarrow> Inr v)"

text \<open>The three readers around the values walk the events themselves; fuel as before.\<close>

primrec parse_param_value :: "XmlLib \<Rightarrow> nat \<Rightarrow> RpcValue option \<Rightarrow> XmlEvent list \<Rightarrow> RpcValue reading" where
  "parse_param_value L 0 found evs = None"
| "parse_param_value L (Suc n) found events =
     (case events of
        [] \<Rightarrow> Some (param_result found, [])
      | ev # evs \<Rightarrow>
     (case ev of
        XStart tag \<Rightarrow>
          if tag = ''value''
          then rd_bind (parse_value_element L n None evs) (\<lambda>v evs. parse_param_value L n (Some v) evs)
          else parse_param_value L n found evs
      | XEmpty tag \<Rightarrow> parse_param_value L n (if tag = ''value'' then Some (RString '''') else found) evs
      | XEnd tag \<Rightarrow>
          if tag = ''param'' then Some (param_result found, evs) else parse_param_value L n found evs
      | XError e \<Rightarrow> Some (Inl (incorrect_params e), evs)
      | _ \<Rightarrow> parse_param_value L n found evs))"

primrec parse_params :: "XmlLib \<Rightarrow> nat \<Rightarrow> RpcValue list \<Rightarrow> XmlEvent list \<Rightarrow> RpcValue list reading" where
  "parse_params L 0 ps evs = None"
| "parse_params L (Suc n) ps events =
     (case events of
        [] \<Rightarrow> Some (Inr ps, [])
      | ev # evs \<Rightarrow>
     (case ev of
        XStart tag \<Rightarrow>
          if tag = ''param''
          then rd_bind (parse_param_value L n None evs) (\<lambda>v evs. parse_params L n (ps @ [v]) evs)
          else parse_params L n ps evs
      | XEnd tag \<Rightarrow> if tag = ''params'' then Some (Inr ps, evs) else parse_params L n ps evs
      | XError e \<Rightarrow> Some (Inl (incorrect_params (''XML parse error: '' @ e)), evs)
      | _ \<Rightarrow> parse_params L n ps evs))"

record MethodCall =
  mc_name :: string
  mc_params :: "RpcValue list"

definition method_call :: "string option \<Rightarrow> RpcValue list \<Rightarrow> Fault + MethodCall" where
  "method_call name ps =
     (case name of
        None \<Rightarrow> Inl (fault_new IncorrectParameters ''Missing methodName tag'')
      | Some name \<Rightarrow>
          (case validate_method_name name of
             Inl f \<Rightarrow> Inl f
           | Inr _ \<Rightarrow> Inr \<lparr>mc_name = name, mc_params = ps\<rparr>))"

primrec parse_call ::
  "XmlLib \<Rightarrow> nat \<Rightarrow> string option \<Rightarrow> RpcValue list \<Rightarrow> XmlEvent list \<Rightarrow> MethodCall reading" where
  "parse_call L 0 name ps evs = None"
| "parse_call L (Suc n) name ps events =
     (case events of
        [] \<Rightarrow> Some (method_call name ps, [])
      | ev # evs \<Rightarrow>
     (case ev of
        XStart tag \<Rightarrow>
          if tag = ''methodName''
          then rd_bind (rd_text L tag evs) (\<lambda>txt evs. parse_call L n (Some txt) ps evs)
          else if tag = ''params''
          then rd_bind (parse_params L n [] evs) (\<lambda>ps evs. parse_call L n name ps evs)
          else parse_call L n name ps evs
      | XError e \<Rightarrow> Some (Inl (incorrect_params (''Malformed XML: '' @ e)), evs)
      | _ \<Rightarrow> parse_call L n name ps evs))"

definition parse_method_call :: "XmlLib \<Rightarrow> string \<Rightarrow> (Fault + MethodCall) option" where
  "parse_method_call L xml =
     (let evs = xl_events L xml in map_option fst (parse_call L (Suc (length evs)) None [] evs))"

section \<open>Printing\<close>

definition escape_xml_char :: "char \<Rightarrow> string" where
  "escape_xml_char c =
     (if c = CHR ''<'' then ''&lt;'' else if c = CHR ''>'' then ''&gt;''
      else if c = CHR ''&'' then ''&amp;'' else if c = CHR 0x27 then ''&apos;''
      else if c = CHR 0x22 then ''&quot;'' else [c])"

definition escape_xml :: "string \<Rightarrow> string" where
  "escape_xml s = concat (map escape_xml_char s)"

definition nl :: string where "nl = [newline]"

fun serialize_value :: "XmlLib \<Rightarrow> RpcValue \<Rightarrow> string" where
  "serialize_value L (RInt i) = ''<value><int>'' @ int_to_string i @ ''</int></value>''"
| "serialize_value L (RBoolean b) =
     ''<value><boolean>'' @ (if b then ''1'' else ''0'') @ ''</boolean></value>''"
| "serialize_value L (RString s) = ''<value><string>'' @ escape_xml s @ ''</string></value>''"
| "serialize_value L (RDouble d) = ''<value><double>'' @ xl_show_double L d @ ''</double></value>''"
| "serialize_value L (RDateTime s) =
     ''<value><dateTime.iso8601>'' @ escape_xml s @ ''</dateTime.iso8601></value>''"
| "serialize_value L (RBase64 b) = ''<value><base64>'' @ xl_encode L b @ ''</base64></value>''"
| "serialize_value L (RArray items) =
     ''<value><array><data>'' @ nl @ concat (map (\<lambda>v. serialize_value L v @ nl) items) @
     ''</data></array></value>''"
| "serialize_value L (RStruct members) =
     ''<value><struct>'' @ nl @
     concat (map (\<lambda>(k, v). ''<member>'' @ nl @ ''<name>'' @ escape_xml k @ ''</name>'' @ nl @
       serialize_value L v @ nl @ ''</member>'' @ nl) members) @
     ''</struct></value>''"
| "serialize_value L RNil = ''<value><nil/></value>''"

definition xml_declaration :: string where
  "xml_declaration = ''<?xml version='' @ [CHR 0x22] @ ''1.0'' @ [CHR 0x22] @ ''?>'' @ nl"

definition serialize_response :: "XmlLib \<Rightarrow> Fault + RpcValue \<Rightarrow> string" where
  "serialize_response L res =
     (case res of
        Inr val \<Rightarrow>
          xml_declaration @ ''<methodResponse>'' @ nl @ ''<params>'' @ nl @ ''<param>'' @ nl @
          serialize_value L val @ nl @ ''</param>'' @ nl @ ''</params>'' @ nl @ ''</methodResponse>'' @ nl
      | Inl fault \<Rightarrow>
          xml_declaration @ ''<methodResponse>'' @ nl @ ''<fault>'' @ nl @ ''<value>'' @ nl @ ''<struct>'' @ nl @
          ''<member>'' @ nl @ ''<name>faultCode</name>'' @ nl @ ''<value><int>'' @
          int_to_string (fault_number fault) @ ''</int></value>'' @ nl @ ''</member>'' @ nl @
          ''<member>'' @ nl @ ''<name>faultString</name>'' @ nl @ ''<value><string>'' @
          escape_xml (fault_message fault) @ ''</string></value>'' @ nl @ ''</member>'' @ nl @
          ''</struct>'' @ nl @ ''</value>'' @ nl @ ''</fault>'' @ nl @ ''</methodResponse>'' @ nl)"

section \<open>Reading ends\<close>

definition settles :: "XmlEvent list \<Rightarrow> 'a reading \<Rightarrow> bool" where
  "settles evs r \<longleftrightarrow> (\<exists>x evs'. r = Some (x, evs') \<and> length evs' \<le> length evs)"

text \<open>Reading the text of an element consumes events, if any.\<close>

definition text_shrinks :: "XmlLib \<Rightarrow> bool" where
  "text_shrinks L \<longleftrightarrow> (\<forall>tag evs. length (snd (xl_read_text L tag evs)) \<le> length evs)"

lemma settles_Some [simp]: "settles evs (Some (x, evs')) \<longleftrightarrow> length evs' \<le> length evs"
  by (simp add: settles_def)

lemma settles_mono: "settles evs r \<Longrightarrow> length evs \<le> length evs' \<Longrightarrow> settles evs' r"
  by (auto simp: settles_def)

lemma settles_bind:
  "settles evs r \<Longrightarrow> (\<And>x evs'. length evs' \<le> length evs \<Longrightarrow> settles evs (k x evs')) \<Longrightarrow> settles evs (rd_bind r k)"
  by (fastforce simp: settles_def rd_bind_def split: sum.splits)

lemma settles_text: "text_shrinks L \<Longrightarrow> settles evs (rd_text L tag evs)"
  by (fastforce simp: text_shrinks_def rd_text_def split: prod.splits sum.splits dest: spec [of _ tag] spec [of _ evs])

text \<open>
  A reader that settles on shorter documents; each step of a reader settles when the readers that
  it calls do.
\<close>

definition settles_below :: "nat \<Rightarrow> (XmlEvent list \<Rightarrow> 'a reading) \<Rightarrow> bool" where
  "settles_below n r \<longleftrightarrow> (\<forall>evs. length evs < n \<longrightarrow> settles evs (r evs))"

lemma settles_rest:
  "settles_below n r \<Longrightarrow> length evs < n \<Longrightarrow> length evs' \<le> length evs \<Longrightarrow> settles evs (r evs')"
  by (rule settles_mono [of evs']) (simp_all add: settles_below_def)

lemma settles_event: "settles evs r \<Longrightarrow> settles (ev # evs) r"
  by (erule settles_mono) simp

lemmas settle_rules = settles_event settles_bind settles_text settles_rest

lemma value_step_settles:
  assumes "text_shrinks L" and "\<And>c. settles_below n (self c)" and "\<And>c. settles_below n (structs c)"
    and "\<And>c. settles_below n (arrays c)" and "length events < Suc n"
  shows "settles events (value_step L self structs arrays cur events)"
proof (cases events)
  case (Cons ev evs)
  have n: "length evs < n" using assms(5) by (simp add: Cons)
  have self: "settles evs (self c evs')" if "length evs' \<le> length evs" for c evs'
    using settles_rest [OF assms(2) n that] .
  have "settles evs (if is_scalar
      then rd_bind (rd_text L tag evs) (\<lambda>txt evs. rd_bind (Some (v txt, evs)) (\<lambda>v evs. self (Some v) evs))
      else if is_struct then rd_bind (structs [] evs) (\<lambda>m evs. self (Some (RStruct m)) evs)
      else if is_array then rd_bind (arrays [] evs) (\<lambda>a evs. self (Some (RArray a)) evs)
      else self c evs)" for is_scalar is_struct is_array tag v c
    using assms(1,3,4) n
    by (simp, intro conjI impI) (intro settles_bind settles_text self; auto simp: settles_below_def intro!: settles_bind self)+
  moreover have "settles evs (if c then rd_bind (Some (x, evs)) (\<lambda>v evs. self (Some v) evs) else self cur evs)"
    for c x by (auto intro!: settles_bind self)
  moreover have "settles evs (if c then Some (x, evs) else self cur evs)" for c x by (auto intro!: self)
  ultimately show ?thesis
    unfolding value_step_def Cons list.case
    by (intro settles_event) (cases ev; simp only: XmlEvent.case; (rule self [OF order_refl])?; simp)
qed (simp add: value_step_def)

lemma struct_step_settles:
  assumes "\<And>c. settles_below n (self c)" and "\<And>k v. settles_below n (members k v)"
    and "length events < Suc n"
  shows "settles events (struct_step self members m events)"
  using assms unfolding struct_step_def
  by (cases events) (auto split: XmlEvent.split intro!: settle_rules)

lemma member_step_settles:
  assumes "text_shrinks L" and "\<And>c. settles_below n (vread c)" and "\<And>k v. settles_below n (self k v)"
    and "length events < Suc n"
  shows "settles events (member_step L vread self k v events)"
  using assms unfolding member_step_def
  by (cases events) (auto split: XmlEvent.split intro!: settle_rules)

lemma array_step_settles:
  assumes "\<And>c. settles_below n (vread c)" and "\<And>c. settles_below n (self c)"
    and "length events < Suc n"
  shows "settles events (array_step vread self items events)"
  using assms unfolding array_step_def
  by (cases events) (auto split: XmlEvent.split intro!: settle_rules)

lemma values_settle:
  assumes "text_shrinks L"
  shows "settles_below n (parse_value_element L n c) \<and> settles_below n (parse_struct L n m) \<and>
     settles_below n (parse_member L n k v) \<and> settles_below n (parse_array L n a)"
proof (induction n arbitrary: c m k v a)
  case 0
  then show ?case by (simp add: settles_below_def)
next
  case (Suc n)
  have "settles_below n (parse_value_element L n c)" "settles_below n (parse_struct L n m)"
    "settles_below n (parse_member L n k v)" "settles_below n (parse_array L n a)" for c m k v a
    using Suc by blast+
  then show ?case
    unfolding settles_below_def [of "Suc n"] parse_value_element.simps parse_struct.simps parse_member.simps
      parse_array.simps
    by (intro conjI allI impI value_step_settles [OF assms, of n] struct_step_settles [of n]
        member_step_settles [OF assms, of n] array_step_settles [of n])
qed

lemma params_settle:
  assumes "text_shrinks L"
  shows "settles_below n (parse_param_value L n found) \<and> settles_below n (parse_params L n ps) \<and>
     settles_below n (parse_call L n name ps)"
proof (induction n arbitrary: found name ps)
  case 0
  then show ?case by (simp add: settles_below_def)
next
  case (Suc n)
  have IH: "settles_below n (parse_param_value L n found)" "settles_below n (parse_params L n ps)"
    "settles_below n (parse_call L n name ps)" for found name ps
    using Suc by blast+
  have v: "settles_below n (parse_value_element L n c)" for c using values_settle [OF assms] by blast
  have "settles events (parse_param_value L (Suc n) found events)"
      "settles events (parse_params L (Suc n) ps events)"
      "settles events (parse_call L (Suc n) name ps events)" if "length events < Suc n" for events
    using IH v assms that
    by (cases events; auto split: XmlEvent.split intro!: settle_rules)+
  then show ?case by (simp only: settles_below_def) blast
qed

lemma reading_enough_fuel:
  assumes "text_shrinks L" shows "parse_method_call L xml \<noteq> None"
proof -
  have "settles_below (Suc (length evs)) (parse_call L (Suc (length evs)) None [])" for evs
    using params_settle [OF assms] by blast
  then have "settles evs (parse_call L (Suc (length evs)) None [] evs)" for evs
    unfolding settles_below_def by blast
  then show ?thesis unfolding parse_method_call_def Let_def settles_def by (metis option.simps(3) option.map_disc_iff)
qed

section \<open>Reading agrees with the grammar\<close>

text \<open>
  The contents of a \<open>value\<close> element of the XML-RPC specification, as events, and the value they
  stand for; likewise the items of an array and the members of a structure.
\<close>

definition text_of :: "XmlLib \<Rightarrow> string \<Rightarrow> XmlEvent list \<Rightarrow> string \<Rightarrow> bool" where
  "text_of L tag evs txt \<longleftrightarrow> (\<forall>rest. xl_read_text L tag (evs @ XEnd tag # rest) = (Inr txt, rest))"

inductive denotes :: "XmlLib \<Rightarrow> XmlEvent list \<Rightarrow> RpcValue \<Rightarrow> bool"
  and items :: "XmlLib \<Rightarrow> XmlEvent list \<Rightarrow> RpcValue list \<Rightarrow> bool"
  and members :: "XmlLib \<Rightarrow> XmlEvent list \<Rightarrow> (string \<times> RpcValue) list \<Rightarrow> bool" for L where
  empty: "denotes L [] (RString '''')"
| untagged: "xl_unescape L t = Inr s \<Longrightarrow> denotes L [XText t] (RString s)"
| scalar: "scalar_tag tag \<Longrightarrow> text_of L tag evs txt \<Longrightarrow> scalar_value L tag txt = Inr v \<Longrightarrow>
     denotes L (XStart tag # evs @ [XEnd tag]) v"
| empty_string: "denotes L [XEmpty ''string''] (RString '''')"
| nil: "denotes L [XEmpty ''nil''] RNil"
| array: "items L evs vs \<Longrightarrow>
     denotes L (XStart ''array'' # XStart ''data'' # evs @ [XEnd ''data'', XEnd ''array'']) (RArray vs)"
| struct: "members L evs kvs \<Longrightarrow> denotes L (XStart ''struct'' # evs @ [XEnd ''struct'']) (RStruct (bt_of kvs))"
| no_items: "items L [] []"
| item: "denotes L evs v \<Longrightarrow> items L evs' vs \<Longrightarrow>
     items L (XStart ''value'' # evs @ XEnd ''value'' # evs') (v # vs)"
| empty_item: "items L evs' vs \<Longrightarrow> items L (XEmpty ''value'' # evs') (RString '''' # vs)"
| no_members: "members L [] []"
| member: "text_of L ''name'' nevs k \<Longrightarrow> denotes L evs v \<Longrightarrow> members L evs' kvs \<Longrightarrow>
     members L (XStart ''member'' # XStart ''name'' # nevs @ XEnd ''name'' #
                XStart ''value'' # evs @ XEnd ''value'' # XEnd ''member'' # evs') ((k, v) # kvs)"

lemma rd_bind_simps [simp]:
  "rd_bind (Some (Inr x, evs)) k = k x evs" "rd_bind (Some (Inl f, evs)) k = Some (Inl f, evs)"
  "rd_bind None k = None"
  by (simp_all add: rd_bind_def)

lemma rd_text_of: "text_of L tag evs txt \<Longrightarrow> rd_text L tag (evs @ XEnd tag # rest) = Some (Inr txt, rest)"
  by (simp add: text_of_def rd_text_def)

text \<open>The tags are compared only where a step is taken.\<close>

lemma value_steps:
  "scalar_tag tag \<Longrightarrow> text_of L tag evs txt \<Longrightarrow> scalar_value L tag txt = Inr v \<Longrightarrow>
     value_step L self st ar cur (XStart tag # evs @ XEnd tag # rest) = self (Some v) rest"
  "value_step L self st ar cur (XEmpty ''string'' # rest) = self (Some (RString '''')) rest"
  "value_step L self st ar cur (XEmpty ''nil'' # rest) = self (Some RNil) rest"
  "xl_unescape L t = Inr s \<Longrightarrow> value_step L self st ar None (XText t # rest) = self (Some (RString s)) rest"
  "value_step L self st ar cur (XStart ''array'' # rest) = rd_bind (ar [] rest) (\<lambda>a evs. self (Some (RArray a)) evs)"
  "value_step L self st ar cur (XStart ''struct'' # rest) = rd_bind (st [] rest) (\<lambda>m evs. self (Some (RStruct m)) evs)"
  "value_step L self st ar cur (XEnd ''value'' # rest) = Some (Inr (unwrap_or cur (RString '''')), rest)"
  by (simp_all add: value_step_def rd_text_of) (simp_all add: scalar_tag_def)

lemma member_steps:
  "text_of L ''name'' evs k' \<Longrightarrow>
     member_step L vread self k v (XStart ''name'' # evs @ XEnd ''name'' # rest) = self (Some k') v rest"
  "member_step L vread self k v (XStart ''value'' # rest) = rd_bind (vread None rest) (\<lambda>x evs. self k (Some x) evs)"
  "member_step L vread self k v (XEnd ''member'' # rest) = Some (member_result k v, rest)"
  by (simp_all add: member_step_def rd_text_of)

lemma array_steps:
  "array_step vread self a (XStart ''value'' # rest) = rd_bind (vread None rest) (\<lambda>x evs. self (a @ [x]) evs)"
  "array_step vread self a (XEmpty ''value'' # rest) = self (a @ [RString '''']) rest"
  "array_step vread self a (XStart ''data'' # rest) = self a rest"
  "array_step vread self a (XEnd ''data'' # rest) = self a rest"
  "array_step vread self a (XEnd ''array'' # rest) = Some (Inr a, rest)"
  by (simp_all add: array_step_def)

lemma struct_steps:
  "struct_step self mem m (XStart ''member'' # rest) =
     rd_bind (mem None None rest) (\<lambda>kv evs. self (bt_insert (fst kv) (snd kv) m) evs)"
  "struct_step self mem m (XEnd ''struct'' # rest) = Some (Inr m, rest)"
  by (simp_all add: struct_step_def)

lemma fuel_Suc: "m < n \<Longrightarrow> \<exists>k. n = Suc k \<and> m \<le> k"
  by (cases n) auto

lemma two_cases: "(n = 0 \<Longrightarrow> P) \<Longrightarrow> (n = Suc 0 \<Longrightarrow> P) \<Longrightarrow> (\<And>m. n = Suc (Suc m) \<Longrightarrow> P) \<Longrightarrow> P"
  by (metis not0_implies_Suc)

lemma reads_grammar:
  "denotes L evs v \<Longrightarrow> length evs < n \<Longrightarrow>
     parse_value_element L n None (evs @ XEnd ''value'' # rest) = Some (Inr v, rest)"
  "items L evs vs \<Longrightarrow> length evs < n \<Longrightarrow>
     \<exists>k. n \<le> k + length evs \<and> parse_array L n a (evs @ rest) = parse_array L k (a @ vs) rest"
  "members L evs kvs \<Longrightarrow> length evs < n \<Longrightarrow>
     \<exists>k. n \<le> k + length evs \<and>
       parse_struct L n m (evs @ rest) = parse_struct L k (foldl (\<lambda>m (k, v). bt_insert k v m) m kvs) rest"
proof (induction arbitrary: n rest and n a rest and n m rest rule: denotes_items_members.inducts)
  case empty
  then show ?case by (auto dest!: fuel_Suc simp: value_steps unwrap_or_def)
next
  case (untagged t s)
  then show ?case by (auto dest!: fuel_Suc simp: value_steps unwrap_or_def Suc_le_eq)
next
  case (scalar tag evs t v)
  then show ?case by (auto dest!: fuel_Suc simp: value_steps unwrap_or_def Suc_le_eq)
next
  case empty_string
  then show ?case by (auto dest!: fuel_Suc simp: value_steps unwrap_or_def Suc_le_eq)
next
  case nil
  then show ?case by (auto dest!: fuel_Suc simp: value_steps unwrap_or_def Suc_le_eq)
next
  case (array evs vs)
  obtain m where n: "n = Suc (Suc m)" and m: "length evs + 3 \<le> m"
    using array.prems by (auto dest!: fuel_Suc simp: Suc_le_eq)
  let ?tl = "XEnd ''data'' # XEnd ''array'' # XEnd ''value'' # rest"
  obtain k where "m \<le> k + length evs" and p: "parse_array L m [] (evs @ ?tl) = parse_array L k vs ?tl"
    using array.IH(2) [of m "[]" ?tl] m by auto
  then obtain j where "k = Suc (Suc j)" using m by (cases k rule: two_cases) auto
  then show ?case by (simp add: n value_steps array_steps p unwrap_or_def)
next
  case (struct evs kvs)
  obtain m where n: "n = Suc (Suc m)" and m: "length evs < m"
    using struct.prems by (auto dest!: fuel_Suc simp: Suc_le_eq)
  let ?tl = "XEnd ''struct'' # XEnd ''value'' # rest"
  obtain k where "Suc m \<le> k + length evs"
      and p: "parse_struct L (Suc m) [] (evs @ ?tl) = parse_struct L k (bt_of kvs) ?tl"
    using struct.IH(2) [of "Suc m" "[]" ?tl] m by (auto simp: bt_of_def simp del: parse_struct.simps)
  then obtain j where "k = Suc j" using m by (cases k) auto
  then show ?case by (simp add: n value_steps struct_steps p unwrap_or_def del: parse_struct.simps)
      (simp add: value_steps struct_steps unwrap_or_def)
next
  case no_items
  then show ?case by auto
next
  case (item evs v evs' vs)
  obtain m where n: "n = Suc m" and m: "length evs + length evs' + 1 < m"
    using item.prems by (auto dest!: fuel_Suc simp: Suc_le_eq)
  then obtain k where "m \<le> k + length evs'"
      and "parse_array L m (a @ [v]) (evs' @ rest) = parse_array L k ((a @ [v]) @ vs) rest"
    using item.IH(4) [of m "a @ [v]" rest] by auto
  then show ?case using item.IH(2) [of m "evs' @ rest"] m
    by (intro exI [of _ k]) (simp add: n array_steps)
next
  case (empty_item evs' vs)
  obtain m where n: "n = Suc m" and m: "length evs' < m"
    using empty_item.prems by (auto dest!: fuel_Suc simp: Suc_le_eq)
  then obtain k where "m \<le> k + length evs'"
      and "parse_array L m (a @ [RString '''']) (evs' @ rest) = parse_array L k ((a @ [RString '''']) @ vs) rest"
    using empty_item.IH(2) [of m "a @ [RString '''']" rest] by auto
  then show ?case by (intro exI [of _ k]) (simp add: n array_steps)
next
  case no_members
  then show ?case by auto
next
  case (member nevs k evs v evs' kvs)
  obtain m' where n: "n = Suc (Suc (Suc (Suc m')))" and m: "length evs + length evs' < m'"
    using member.prems by (auto dest!: fuel_Suc simp: Suc_le_eq)
  let ?m = "bt_insert k v m"
  obtain j where "Suc (Suc (Suc m')) \<le> j + length evs'"
      and p: "parse_struct L (Suc (Suc (Suc m'))) ?m (evs' @ rest) =
         parse_struct L j (foldl (\<lambda>m (k, v). bt_insert k v m) ?m kvs) rest"
    using member.IH(5) [of "Suc (Suc (Suc m'))" ?m rest] m by (auto simp del: parse_struct.simps)
  have q: "parse_member L (Suc (Suc (Suc m'))) None None
      (XStart ''name'' # nevs @ XEnd ''name'' # XStart ''value'' # evs @ XEnd ''value'' # XEnd ''member'' # evs' @ rest)
    = Some (Inr (k, v), evs' @ rest)"
    using member.IH(1) member.IH(3) [of "Suc m'" "XEnd ''member'' # evs' @ rest"] m
    by (simp add: member_steps member_result_def unwrap_or_def del: parse_value_element.simps)
  show ?case
    using p q \<open>_ \<le> j + length evs'\<close>
    by (intro exI [of _ j]) (simp add: n parse_struct.simps(2) [of L "Suc (Suc (Suc m'))"] struct_steps
      del: parse_struct.simps parse_member.simps)
qed

section \<open>Method names\<close>

definition plain_part :: "string \<Rightarrow> bool" where
  "plain_part s \<longleftrightarrow> s \<noteq> [] \<and> CHR ''.'' \<notin> set s \<and> \<not> starts_underscore s"

lemma split_two: "split_all c u = [a, b] \<longleftrightarrow> u = a @ c # b \<and> c \<notin> set a \<and> c \<notin> set b"
proof
  assume s: "split_all c u = [a, b]"
  then have "u = join_with [c] [a, b]" using join_split_all [of c u] by simp
  moreover have "c \<notin> set p" if "p \<in> {a, b}" for p using split_all_no_separator [of p c u] that by (auto simp: s)
  ultimately show "u = a @ c # b \<and> c \<notin> set a \<and> c \<notin> set b" by simp
next
  assume "u = a @ c # b \<and> c \<notin> set a \<and> c \<notin> set b"
  then show "split_all c u = [a, b]" by (simp add: split_all_append split_all_single)
qed

lemma no_two_dots:
  "CHR ''.'' \<notin> set s \<Longrightarrow> \<not> occurs_in ''..'' s"
  "CHR ''.'' \<notin> set a \<Longrightarrow> CHR ''.'' \<notin> set s \<Longrightarrow> \<not> occurs_in ''..'' (a @ CHR ''.'' # s)"
proof -
  show *: "\<not> occurs_in ''..'' s" if "CHR ''.'' \<notin> set s" for s
    using that by (induction s) auto
  have "\<not> occurs_in ''..'' (CHR ''.'' # s)" if "CHR ''.'' \<notin> set s"
    using that * [OF that] by (cases s) auto
  then show "CHR ''.'' \<notin> set a \<Longrightarrow> CHR ''.'' \<notin> set s \<Longrightarrow> \<not> occurs_in ''..'' (a @ CHR ''.'' # s)"
    by (induction a) auto
qed

text \<open>A method name is accepted exactly if it has two plain parts around one dot.\<close>

lemma validate_iff:
  "validate_method_name name = Inr () \<longleftrightarrow> (\<exists>a b. name = a @ CHR ''.'' # b \<and> plain_part a \<and> plain_part b)"
  (is "?valid \<longleftrightarrow> ?parts")
proof
  assume ?valid
  then obtain a b where "split_all (CHR ''.'') name = [a, b]" "a \<noteq> []" "b \<noteq> []"
      "\<not> starts_underscore a" "\<not> starts_underscore b"
    by (auto simp: validate_method_name_def split: if_splits list.splits)
  then show ?parts by (auto simp: split_two plain_part_def)
next
  assume ?parts
  then obtain a b where ab: "name = a @ CHR ''.'' # b" "plain_part a" "plain_part b" by blast
  then have "split_all (CHR ''.'') name = [a, b]" by (simp add: split_two plain_part_def)
  moreover have "\<not> starts_underscore name" using ab by (auto simp: plain_part_def starts_underscore_def)
  ultimately show ?valid using ab no_two_dots(2) [of a b] by (simp add: validate_method_name_def plain_part_def)
qed

lemma call_name_valid:
  "parse_call L n name ps evs = Some (Inr c, rest) \<Longrightarrow> validate_method_name (mc_name c) = Inr ()"
proof (induction n arbitrary: name ps evs)
  case (Suc n)
  have name: "method_call name ps = Inr c \<Longrightarrow> ?case"
    by (auto simp: method_call_def split: option.splits sum.splits)
  have bind: "rd_bind r k = Some (Inr c, rest) \<Longrightarrow> (\<And>x evs. k x evs = Some (Inr c, rest) \<Longrightarrow> P) \<Longrightarrow> P"
    for r :: "'x reading" and k P
    by (auto simp: rd_bind_def split: option.splits sum.splits prod.splits)
  show ?case using Suc.prems name
    by (auto split: list.splits XmlEvent.splits if_splits elim!: bind intro: Suc.IH)
qed simp

section \<open>Calls\<close>

inductive arguments :: "XmlLib \<Rightarrow> XmlEvent list \<Rightarrow> RpcValue list \<Rightarrow> bool" for L where
  no_arguments: "arguments L [] []"
| argument: "denotes L evs v \<Longrightarrow> arguments L evs' vs \<Longrightarrow>
     arguments L (XStart ''param'' # XStart ''value'' # evs @ XEnd ''value'' # XEnd ''param'' # evs') (v # vs)"

lemma param_steps:
  "parse_param_value L (Suc n) found (XStart ''value'' # rest) =
     rd_bind (parse_value_element L n None rest) (\<lambda>v evs. parse_param_value L n (Some v) evs)"
  "parse_param_value L (Suc n) found (XEnd ''param'' # rest) = Some (param_result found, rest)"
  "parse_params L (Suc n) ps (XStart ''param'' # rest) =
     rd_bind (parse_param_value L n None rest) (\<lambda>v evs. parse_params L n (ps @ [v]) evs)"
  "parse_params L (Suc n) ps (XEnd ''params'' # rest) = Some (Inr ps, rest)"
  "parse_call L (Suc n) name ps [] = Some (method_call name ps, [])"
  "parse_call L (Suc n) name ps (XOther # rest) = parse_call L n name ps rest"
  "parse_call L (Suc n) name ps (XStart ''methodCall'' # rest) = parse_call L n name ps rest"
  "parse_call L (Suc n) name ps (XEnd tag # rest) = parse_call L n name ps rest"
  "text_of L ''methodName'' evs k \<Longrightarrow>
     parse_call L (Suc n) name ps (XStart ''methodName'' # evs @ XEnd ''methodName'' # rest) = parse_call L n (Some k) ps rest"
  "parse_call L (Suc n) name ps (XStart ''params'' # rest) =
     rd_bind (parse_params L n [] rest) (\<lambda>ps evs. parse_call L n name ps evs)"
  by (simp_all add: rd_text_of)

lemma reads_arguments:
  "arguments L evs vs \<Longrightarrow> length evs < n \<Longrightarrow>
     parse_params L n ps (evs @ XEnd ''params'' # rest) = Some (Inr (ps @ vs), rest)"
proof (induction arbitrary: n ps rule: arguments.induct)
  case no_arguments
  then show ?case by (auto dest!: fuel_Suc simp: param_steps simp del: parse_params.simps)
next
  case (argument evs v evs' vs)
  obtain m where n: "n = Suc (Suc (Suc m))" and m: "length evs + length evs' + 1 < m"
    using argument.prems by (auto dest!: fuel_Suc simp: Suc_le_eq)
  have "parse_value_element L (Suc m) None (evs @ XEnd ''value'' # evs'') = Some (Inr v, evs'')" for evs''
    using argument.hyps(1) by (rule reads_grammar(1)) (use m in simp)
  then show ?case using argument.IH [of "Suc (Suc m)"] m
    by (simp add: n param_steps param_result_def del: parse_value_element.simps parse_params.simps(2) parse_param_value.simps(2))
qed


text \<open>
  C24: Reading a call always ends, and a name that it accepts has exactly one dot, with a part on
  either side that is not empty and does not begin with an underscore: no private or nested
  attribute can be named.
\<close>

theorem accepted_names_plain:
  assumes "text_shrinks L"
  shows "\<exists>r. parse_method_call L xml = Some r \<and>
     (r \<in> range Inl \<or> (\<exists>a b. mc_name (projr r) = a @ CHR ''.'' # b \<and> plain_part a \<and> plain_part b))"
proof -
  obtain r where r: "parse_method_call L xml = Some r" using reading_enough_fuel [OF assms] by blast
  have "\<exists>a b. mc_name c = a @ CHR ''.'' # b \<and> plain_part a \<and> plain_part b" if "r = Inr c" for c
    using r call_name_valid
    by (auto simp: parse_method_call_def Let_def that validate_iff [symmetric] simp del: parse_call.simps)
  then show ?thesis using r by (cases r) auto
qed

section \<open>A concrete library\<close>

text \<open>A reader whose elements hold at most one text.\<close>

definition demo_read_text :: "string \<Rightarrow> XmlEvent list \<Rightarrow> (string + string) \<times> XmlEvent list" where
  "demo_read_text tag evs =
     (case evs of
        XText t # XEnd _ # rest \<Rightarrow> (Inr t, rest)
      | XEnd _ # rest \<Rightarrow> (Inr '''', rest)
      | _ \<Rightarrow> (Inl ''unexpected'', []))"

definition demo_lib :: "XmlEvent list \<Rightarrow> XmlLib" where
  "demo_lib evs =
     \<lparr>xl_events = (\<lambda>_. evs), xl_read_text = demo_read_text,
      xl_unescape = (\<lambda>s. Inr (str_replace ''&amp;'' ''&'' s)),
      xl_decode = Inr, xl_encode = id, xl_show_double = (\<lambda>_. '''')\<rparr>"

definition demo_call :: "XmlEvent list" where
  "demo_call =
     [XOther, XStart ''methodCall'', XStart ''methodName'', XText ''a.b'', XEnd ''methodName'',
      XStart ''params'', XStart ''param'', XStart ''value'', XStart ''boolean'', XText ''1'', XEnd ''boolean'',
      XEnd ''value'', XEnd ''param'', XEnd ''params'', XEnd ''methodCall'']"

lemma demo_text_of: "text_of (demo_lib evs) tag [XText t] t"
  by (simp add: text_of_def demo_lib_def demo_read_text_def)

lemma demo_shrinks: "text_shrinks (demo_lib evs)"
  by (auto simp: text_shrinks_def demo_lib_def demo_read_text_def split: list.splits XmlEvent.splits)


theorem accepted_names_plain_witness:
  "\<exists>r. parse_method_call (demo_lib demo_call) [] = Some r \<and>
     (r \<in> range Inl \<or> (\<exists>a b. mc_name (projr r) = a @ CHR ''.'' # b \<and> plain_part a \<and> plain_part b))"
  using demo_shrinks by (rule accepted_names_plain)

text \<open>
  The text of a tagged string is taken as it is in the document: entities that the response would
  print for special characters stay in the value, other than in an untagged string.
\<close>

lemma tagged_text_not_unescaped:
  assumes "text_of L ''string'' [XText t] t" and "xl_unescape L t = Inr s"
  shows "parse_value_element L 4 None (XStart ''string'' # XText t # XEnd ''string'' # XEnd ''value'' # rest)
      = Some (Inr (RString t), rest)"
    and "parse_value_element L 4 None (XText t # XEnd ''value'' # rest) = Some (Inr (RString s), rest)"
proof -
  have "scalar_tag ''string''" "scalar_value L ''string'' t = Inr (RString t)"
    by (simp_all add: scalar_tag_def scalar_value_def)
  then have d: "denotes L (XStart ''string'' # [XText t] @ [XEnd ''string'']) (RString t)"
    using assms(1) by (intro denotes_items_members.scalar)
  from reads_grammar(1) [OF d, of 4 rest]
  show "parse_value_element L 4 None (XStart ''string'' # XText t # XEnd ''string'' # XEnd ''value'' # rest)
      = Some (Inr (RString t), rest)"
    by simp
  show "parse_value_element L 4 None (XText t # XEnd ''value'' # rest) = Some (Inr (RString s), rest)"
    using reads_grammar(1) [OF denotes_items_members.untagged [OF assms(2)], of 4 rest] by simp
qed

text \<open>What a value prints is free of the characters that delimit markup.\<close>

lemma escape_xml_plain: "c \<in> set (escape_xml s) \<Longrightarrow> c \<notin> {CHR ''<'', CHR ''>'', CHR 0x27, CHR 0x22}"
  by (auto simp: escape_xml_def escape_xml_char_def split: if_splits)

end
