(* ===== verification/Ini_Values.thy ===== *)
theory Ini_Values
  imports Value_Text
begin

text \<open>
  Values of the legacy configuration format (\<open>src/src/compat/ini/values.rs\<close>): restart policies,
  environments, log paths and stop signals, and the names under which stop signals are known
  (\<open>src/src/program/config.rs\<close>).
\<close>

section \<open>Named values\<close>

text \<open>
  \<open>fallback\<close> is the parser that the enumeration library derives for the restart policy; it is tried
  last.
\<close>

definition parse_autorestart :: "(string \<Rightarrow> AutoRestartPolicy option) \<Rightarrow> string \<Rightarrow> AutoRestartPolicy result" where
  "parse_autorestart fallback s =
     (let trimmed = trim s
      in if any_ignore_case trimmed [''false'', ''no'', ''never'', ''0''] then Inr Never
         else if any_ignore_case trimmed [''true'', ''yes'', ''always'', ''1''] then Inr Always
         else if eq_ignore_case trimmed ''unexpected'' then Inr Unexpected
         else case fallback trimmed of
                Some p \<Rightarrow> Inr p
              | None \<Rightarrow> Inl (ConfigError (''Invalid autorestart policy '' @ quoted trimmed)))"

definition stop_signal_names :: "(StopSignal \<times> string list) list" where
  "stop_signal_names =
     [(Term, [''TERM'', ''SIGTERM'', ''sigterm'', ''term'']),
      (StopSignal.Int, [''INT'', ''SIGINT'', ''sigint'', ''int'']),
      (Quit, [''QUIT'', ''SIGQUIT'', ''sigquit'', ''quit'']),
      (Kill, [''KILL'', ''SIGKILL'', ''sigkill'', ''kill'']),
      (Hup, [''HUP'', ''SIGHUP'', ''sighup'', ''hup'']),
      (CtrlBreak, [''CTRL_BREAK'', ''ctrl_break'', ''ctrlbreak'', ''CTRLBREAK'']),
      (CtrlC, [''CTRL_C'', ''ctrl_c'', ''ctrlc'', ''CTRLC''])]"

definition signal_of_name :: "string \<Rightarrow> StopSignal option" where
  "signal_of_name s = map_option fst (find (\<lambda>(sig, names). s \<in> set names) stop_signal_names)"

definition parse_stop_signal :: "string \<Rightarrow> StopSignal result" where
  "parse_stop_signal s =
     (case signal_of_name (trim s) of
        Some sig \<Rightarrow> Inr sig
      | None \<Rightarrow> Inl (ConfigError (''Invalid stop signal '' @ quoted (trim s))))"

section \<open>Log paths\<close>

definition parse_log_path :: "string \<Rightarrow> string option" where
  "parse_log_path s =
     (let trimmed = trim s
      in if trimmed = [] \<or> any_ignore_case trimmed [''AUTO'', ''memory'', ''in_memory'', ''in_memory_only''] then None
         else if any_ignore_case trimmed [''NONE'', ''OFF'', ''NULL''] \<or> trimmed = ''/dev/null''
         then Some ''/dev/null''
         else Some trimmed)"

section \<open>Environments\<close>

record EnvState =
  es_env :: "string hmap"
  es_key :: string
  es_val :: string
  es_in_key :: bool
  es_quote :: "char option"
  es_escape :: bool

definition env_start :: EnvState where
  "env_start = \<lparr>es_env = [], es_key = [], es_val = [], es_in_key = True, es_quote = None, es_escape = False\<rparr>"

definition env_flush :: "EnvState \<Rightarrow> EnvState result" where
  "env_flush s =
     (let key = trim (es_key s)
      in if key \<noteq> [] \<and> es_in_key s
         then Inl (ConfigError (''Environment entry '' @ quoted key @ '' missing '' @ quoted ''='' @ '' value delimiter''))
         else Inr (s\<lparr>es_env := (if key \<noteq> [] then hm_insert key (es_val s) (es_env s) else es_env s),
                     es_key := [], es_val := [], es_in_key := True\<rparr>))"

definition push_val :: "string \<Rightarrow> EnvState \<Rightarrow> EnvState" where
  "push_val t s = s\<lparr>es_val := es_val s @ t\<rparr>"

definition push_char :: "char \<Rightarrow> EnvState \<Rightarrow> EnvState" where
  "push_char c s = (if es_in_key s then s\<lparr>es_key := es_key s @ [c]\<rparr> else push_val [c] s)"

definition unescape :: "char \<Rightarrow> string" where
  "unescape c =
     (if c = CHR ''n'' then [newline]
      else if c = CHR ''t'' then [CHR 0x09]
      else if c = CHR ''r'' then [carriage_return]
      else if c = CHR 0x22 \<or> c = CHR 0x27 \<or> c = CHR 0x5C then [c]
      else [CHR 0x5C, c])"

definition env_char :: "EnvState \<Rightarrow> char \<Rightarrow> EnvState result" where
  "env_char s ch =
     (if es_escape s then
        Inr ((if es_quote s \<noteq> None then push_val (unescape ch) s else push_char ch s)\<lparr>es_escape := False\<rparr>)
      else if ch = CHR 0x5C then Inr (s\<lparr>es_escape := True\<rparr>)
      else case es_quote s of
        Some q \<Rightarrow> Inr (if ch = q then s\<lparr>es_quote := None\<rparr> else push_val [ch] s)
      | None \<Rightarrow>
          if ch = CHR 0x27 \<or> ch = CHR 0x22 then Inr (s\<lparr>es_quote := Some ch\<rparr>)
          else if ch = CHR ''='' \<and> es_in_key s then Inr (s\<lparr>es_in_key := False\<rparr>)
          else if ch = CHR '','' then env_flush s
          else Inr (push_char ch s))"

definition parse_environment :: "string \<Rightarrow> string hmap result" where
  "parse_environment s =
     and_then (try_fold env_char s env_start) (\<lambda>st.
       if es_quote st \<noteq> None
       then Inl (ConfigError (''Unclosed quote in environment string: '' @ quoted s))
       else map_sum id es_env (env_flush st))"

section \<open>A printed environment is read back\<close>

definition escape_val_char :: "char \<Rightarrow> string" where
  "escape_val_char c =
     (if c = newline then [CHR 0x5C, CHR ''n'']
      else if c = CHR 0x22 \<or> c = CHR 0x5C then [CHR 0x5C, c] else [c])"

definition print_entry :: "string \<times> string \<Rightarrow> string" where
  "print_entry e = fst e @ ''='' @ [CHR 0x22] @ concat (map escape_val_char (snd e)) @ [CHR 0x22]"

definition print_environment :: "string hmap \<Rightarrow> string" where
  "print_environment env = join_with '','' (map print_entry env)"

definition env_key_ok :: "string \<Rightarrow> bool" where
  "env_key_ok k \<longleftrightarrow> k \<noteq> [] \<and> trim k = k \<and>
     list_all (\<lambda>c. c \<noteq> CHR ''='' \<and> c \<noteq> CHR '','' \<and> c \<noteq> CHR 0x22 \<and> c \<noteq> CHR 0x27 \<and> c \<noteq> CHR 0x5C) k"

lemma env_key_step:
  assumes "list_all (\<lambda>c. c \<noteq> CHR ''='' \<and> c \<noteq> CHR '','' \<and> c \<noteq> CHR 0x22 \<and> c \<noteq> CHR 0x27 \<and> c \<noteq> CHR 0x5C) k"
    and "es_in_key s" and "es_quote s = None" and "\<not> es_escape s"
  shows "try_fold env_char (k @ rest) s = try_fold env_char rest (s\<lparr>es_key := es_key s @ k\<rparr>)"
  using assms
  by (induction k arbitrary: s) (simp_all add: env_char_def push_char_def)

lemma env_value_step:
  assumes "es_quote s = Some (CHR 0x22)" and "\<not> es_escape s"
  shows "try_fold env_char (concat (map escape_val_char v) @ rest) s = try_fold env_char rest (push_val v s)"
  using assms
proof (induction v arbitrary: s)
  case (Cons c v)
  have same: "s\<lparr>es_val := x, es_escape := False\<rparr> = s\<lparr>es_val := x\<rparr>" for x
    using Cons.prems(2) by (cases s) simp
  have "try_fold env_char (escape_val_char c @ t) s = try_fold env_char t (push_val [c] s)" for t
    using Cons.prems
    by (cases "c = newline"; cases "c = CHR 0x22 \<or> c = CHR 0x5C")
      (auto simp: escape_val_char_def env_char_def unescape_def push_val_def newline_def same)
  moreover have "push_val v (push_val [c] s) = push_val (c # v) s" by (simp add: push_val_def)
  ultimately show ?case using Cons by (simp add: push_val_def)
qed (simp add: push_val_def)

definition between_entries :: "string hmap \<Rightarrow> EnvState" where
  "between_entries env = env_start\<lparr>es_env := env\<rparr>"

definition after_entry :: "string \<times> string \<Rightarrow> string hmap \<Rightarrow> EnvState" where
  "after_entry e env = (between_entries env)\<lparr>es_key := fst e, es_val := snd e, es_in_key := False\<rparr>"

lemma env_entry_step:
  assumes "env_key_ok (fst e)"
  shows "try_fold env_char (print_entry e @ rest) (between_entries env) = try_fold env_char rest (after_entry e env)"
proof -
  define s where "s = (between_entries env)\<lparr>es_key := fst e, es_in_key := False, es_quote := Some (CHR 0x22)\<rparr>"
  have "try_fold env_char (print_entry e @ rest) (between_entries env) =
      try_fold env_char (concat (map escape_val_char (snd e)) @ [CHR 0x22] @ rest) s"
    using assms
    by (simp add: print_entry_def env_key_ok_def env_key_step between_entries_def env_start_def env_char_def s_def)
  also have "\<dots> = try_fold env_char ([CHR 0x22] @ rest) (push_val (snd e) s)"
    by (rule env_value_step) (simp_all add: s_def between_entries_def env_start_def)
  also have "\<dots> = try_fold env_char rest (after_entry e env)"
    by (simp add: s_def env_char_def push_val_def after_entry_def between_entries_def env_start_def)
  finally show ?thesis .
qed

lemma after_entry_flush:
  assumes "env_key_ok (fst e)"
  shows "env_flush (after_entry e env) = Inr (between_entries (hm_insert (fst e) (snd e) env))"
  using assms by (simp add: env_flush_def after_entry_def between_entries_def env_start_def env_key_ok_def)

lemma env_entries_step:
  assumes "list_all (\<lambda>e. env_key_ok (fst e)) es" and "es \<noteq> []"
  shows "\<exists>st. try_fold env_char (print_environment es) (between_entries env) = Inr st \<and> es_quote st = None \<and>
           env_flush st = Inr (between_entries (fold (\<lambda>(k, v). hm_insert k v) es env))"
  using assms
proof (induction es arbitrary: env)
  case (Cons e es)
  have e: "env_key_ok (fst e)" using Cons.prems by simp
  note step = env_entry_step [OF e] and fl = after_entry_flush [OF e]
  show ?case
  proof (cases "es = []")
    case True
    have "try_fold env_char (print_entry e) (between_entries env) = Inr (after_entry e env)"
      using step [of "[]" env] by simp
    then show ?thesis
      using True fl [of env]
      by (simp add: print_environment_def case_prod_beta)
        (simp add: after_entry_def between_entries_def env_start_def)
  next
    case False
    then have p: "print_environment (e # es) = print_entry e @ '','' @ print_environment es"
      by (cases es) (simp_all add: print_environment_def)
    have "env_char (after_entry e env) (CHR '','') = env_flush (after_entry e env)"
      by (simp add: env_char_def after_entry_def between_entries_def env_start_def)
    then have "try_fold env_char (print_environment (e # es)) (between_entries env) =
        try_fold env_char (print_environment es) (between_entries (hm_insert (fst e) (snd e) env))"
      using fl [of env] unfolding p step by simp
    then show ?thesis
      using Cons.IH [of "hm_insert (fst e) (snd e) env"] Cons.prems False by (simp add: case_prod_beta)
  qed
qed simp

lemma fold_insert_distinct:
  "distinct (keys env @ keys es) \<Longrightarrow> fold (\<lambda>(k, v). hm_insert k v) es env = env @ es"
proof (induction es arbitrary: env)
  case (Cons e es)
  then have "hm_insert (fst e) (snd e) env = env @ [e]" by (auto intro: hm_insert_absent [of "fst e" _ "snd e", simplified])
  then show ?case using Cons by (simp add: case_prod_beta)
qed simp

text \<open>
  An environment that is printed with quoted values is read back as it is, whatever the values
  contain (quotes, commas, equals signs, backslashes, line ends): names are distinct, not empty,
  without blanks at their ends and without the five special characters.
\<close>

theorem environment_roundtrip:
  assumes "hm_wf env" and "list_all (\<lambda>e. env_key_ok (fst e)) env"
  shows "parse_environment (print_environment env) = Inr env"
proof (cases "env = []")
  case True
  then show ?thesis by (simp add: parse_environment_def print_environment_def env_start_def env_flush_def)
next
  case False
  have s: "env_start = between_entries []" by (simp add: between_entries_def env_start_def)
  obtain st where "try_fold env_char (print_environment env) env_start = Inr st" "es_quote st = None"
      "env_flush st = Inr (between_entries (fold (\<lambda>(k, v). hm_insert k v) env []))"
    using env_entries_step [OF assms(2) False, of "[]"] unfolding s by blast
  moreover have "fold (\<lambda>(k, v). hm_insert k v) env [] = env"
    using assms(1) fold_insert_distinct [of "[]" env] by (simp add: hm_wf_def)
  ultimately show ?thesis by (simp add: parse_environment_def) (simp add: between_entries_def)
qed

theorem environment_roundtrip_witness:
  "parse_environment (print_environment [(''A'', ''x,y=z''), (''PATH'', [CHR 0x22, CHR 0x5C, CHR 0x27])]) =
     Inr [(''A'', ''x,y=z''), (''PATH'', [CHR 0x22, CHR 0x5C, CHR 0x27])]"
  by (rule environment_roundtrip) code_simp+

text \<open>
  Blanks around a value belong to it, unlike those around a name; and a text behind the closing
  quote is appended to the value.
\<close>

lemma environment_blanks:
  "parse_environment '' A = 1 , B=2'' = Inr [(''A'', '' 1 ''), (''B'', ''2'')]"
  by code_simp

end
