(* ===== verification/Rpc_Methods.thy ===== *)
theory Rpc_Methods
  imports Rpc_Wire Manager_Handle Ini_Values
begin

text \<open>
  The methods of the legacy interface: the description of processes
  (\<open>src/src/compat/xmlrpc/types.rs\<close>), introspection and multicall (\<open>system.rs\<close>), the methods over the
  manager (\<open>supervisor.rs\<close>) and their dispatch (\<open>mod.rs\<close>).

  The operations of the manager's handle that the methods call are the fields of \<open>RpcContext\<close>, over
  a state \<open>'s\<close>; \<open>manager_context\<close> instantiates them with the manager of this development. Loading a
  configuration file, the local time and the identity of the process are fields as well.
\<close>

section \<open>Processes\<close>

fun from_program_state :: "ProgramState \<Rightarrow> int \<times> string" where
  "from_program_state Stopped = (0, ''STOPPED'')"
| "from_program_state Starting = (10, ''STARTING'')"
| "from_program_state Running = (20, ''RUNNING'')"
| "from_program_state Backoff = (30, ''BACKOFF'')"
| "from_program_state Stopping = (40, ''STOPPING'')"
| "from_program_state Exited = (100, ''EXITED'')"
| "from_program_state Fatal = (200, ''FATAL'')"

definition format_uptime :: "nat \<Rightarrow> string" where
  "format_uptime uptime_secs =
     (let days = uptime_secs div 86400;
          rem = uptime_secs mod 86400;
          hours = rem div 3600;
          mins = rem mod 3600 div 60;
          secs = rem mod 60;
          clock = digits_of hours @ '':'' @ two_digits mins @ '':'' @ two_digits secs
      in if days > 0 then digits_of days @ '' days, '' @ clock else clock)"

text \<open>\<open>local_time\<close> prints a time in seconds in the local time zone, unless it is out of range.\<close>

definition format_description ::
  "(nat \<Rightarrow> string option) \<Rightarrow> ProgramState \<Rightarrow> nat option \<Rightarrow> nat option \<Rightarrow> nat \<Rightarrow> string" where
  "format_description local_time state pid uptime_secs now_sec =
     (case state of
        Running \<Rightarrow>
          ''pid '' @ digits_of (unwrap_or pid 0) @ '', uptime '' @ format_uptime (unwrap_or uptime_secs 0)
      | Fatal \<Rightarrow> ''unknown error (try '' @ [CHR 0x22] @ ''tail'' @ [CHR 0x22] @ '')''
      | Backoff \<Rightarrow> ''unknown error (try '' @ [CHR 0x22] @ ''tail'' @ [CHR 0x22] @ '')''
      | Stopped \<Rightarrow>
          (case uptime_secs of
             Some up \<Rightarrow> unwrap_or (local_time (now_sec - up)) ''Not started''
           | None \<Rightarrow> ''Not started'')
      | Exited \<Rightarrow>
          (case uptime_secs of
             Some up \<Rightarrow> unwrap_or (local_time (now_sec - up)) ''Not started''
           | None \<Rightarrow> ''Not started'')
      | _ \<Rightarrow> '''')"

definition secs_i32 :: "nat \<Rightarrow> int" where
  "secs_i32 n = sint (u64_to_i32 (of_nat n))"

definition program_status_to_process_info ::
  "(nat \<Rightarrow> string option) \<Rightarrow> nat \<Rightarrow> ProgramStatus \<Rightarrow> string option \<Rightarrow> string option \<Rightarrow> RpcValue" where
  "program_status_to_process_info local_time now st stdout_logfile stderr_logfile =
     (let (state_code, state_name) = from_program_state (s_state st);
          start_sec = (case s_uptime_secs st of Some up \<Rightarrow> secs_i32 (now - up) | None \<Rightarrow> 0);
          stop_sec = (if is_running (s_state st) then 0 else secs_i32 now);
          stdout_path = unwrap_or stdout_logfile '''';
          stderr_path = unwrap_or stderr_logfile ''''
      in RStruct (bt_of
           [(''name'', RString (s_name st)), (''group'', RString (s_group st)),
            (''description'',
             RString (format_description local_time (s_state st) (s_pid st) (s_uptime_secs st) now)),
            (''start'', RInt start_sec), (''stop'', RInt stop_sec), (''now'', RInt (secs_i32 now)),
            (''state'', RInt state_code), (''statename'', RString state_name),
            (''spawnerr'', RString ''''), (''exitstatus'', RInt (unwrap_or (s_exit_code st) 0)),
            (''logfile'', RString stdout_path), (''stdout_logfile'', RString stdout_path),
            (''stderr_logfile'', RString stderr_path),
            (''pid'', RInt (cast_i32 (int (unwrap_or (s_pid st) 0))))]))"

definition make_process_status_struct :: "string \<Rightarrow> string \<Rightarrow> int \<Rightarrow> string \<Rightarrow> RpcValue" where
  "make_process_status_struct name grp code description =
     RStruct (bt_of [(''name'', RString name), (''group'', RString grp), (''status'', RInt code),
       (''description'', RString description)])"

definition parse_namespec :: "string \<Rightarrow> string option \<times> string" where
  "parse_namespec spec =
     (case split_once (CHR '':'') (trim spec) of
        Some (grp, prog) \<Rightarrow> (Some grp, prog)
      | None \<Rightarrow> (None, trim spec))"

section \<open>Introspection\<close>

definition ALL_METHODS :: "string list" where
  "ALL_METHODS =
     [''supervisor.addProcessGroup'', ''supervisor.clearAllProcessLogs'', ''supervisor.clearLog'',
      ''supervisor.clearProcessLog'', ''supervisor.clearProcessLogs'', ''supervisor.getAPIVersion'',
      ''supervisor.getAllConfigInfo'', ''supervisor.getAllProcessInfo'', ''supervisor.getIdentification'',
      ''supervisor.getPID'', ''supervisor.getProcessInfo'', ''supervisor.getState'',
      ''supervisor.getSupervisorVersion'', ''supervisor.getVersion'', ''supervisor.readLog'',
      ''supervisor.readMainLog'', ''supervisor.readProcessLog'', ''supervisor.readProcessStderrLog'',
      ''supervisor.readProcessStdoutLog'', ''supervisor.reloadConfig'', ''supervisor.removeProcessGroup'',
      ''supervisor.restart'', ''supervisor.sendProcessStdin'', ''supervisor.sendRemoteCommEvent'',
      ''supervisor.shutdown'', ''supervisor.signalAllProcesses'', ''supervisor.signalProcess'',
      ''supervisor.signalProcessGroup'', ''supervisor.startAllProcesses'', ''supervisor.startProcess'',
      ''supervisor.startProcessGroup'', ''supervisor.stopAllProcesses'', ''supervisor.stopProcess'',
      ''supervisor.stopProcessGroup'', ''supervisor.tailProcessLog'', ''supervisor.tailProcessStderrLog'',
      ''supervisor.tailProcessStdoutLog'', ''system.listMethods'', ''system.methodHelp'',
      ''system.methodSignature'', ''system.multicall'']"

definition list_methods :: RpcValue where
  "list_methods = RArray (map RString (sort ALL_METHODS))"

definition help_texts :: "(string \<times> string) list" where
  "help_texts =
     [(''supervisor.getAPIVersion'', ''Return the version of the RPC API used by supervisord''),
      (''supervisor.getVersion'', ''Return the version of the RPC API used by supervisord''),
      (''supervisor.getSupervisorVersion'',
       ''Return the version of the supervisord package in use by the daemon''),
      (''supervisor.getIdentification'', ''Return ident string of the supervisord daemon''),
      (''supervisor.getState'',
       ''Return current state of supervisord as a struct with statecode and statename''),
      (''supervisor.getPID'', ''Return the PID of supervisord''),
      (''supervisor.readLog'', ''Read length bytes from the main log starting at offset''),
      (''supervisor.readMainLog'', ''Read length bytes from the main log starting at offset''),
      (''supervisor.clearLog'', ''Clear the main log''),
      (''supervisor.shutdown'', ''Shut down the supervisor process''),
      (''supervisor.restart'', ''Restart the supervisor process''),
      (''supervisor.reloadConfig'',
       ''Reload configuration and report added, changed, and removed groups''),
      (''supervisor.getAllConfigInfo'', ''Get info about all available process configurations''),
      (''supervisor.getAllProcessInfo'', ''Get info about all processes from the supervisor''),
      (''supervisor.getProcessInfo'', ''Get info about a process named name''),
      (''supervisor.startProcess'', ''Start a process''),
      (''supervisor.startProcessGroup'', ''Start all processes in the group named name''),
      (''supervisor.startAllProcesses'', ''Start all processes listed in the configuration file''),
      (''supervisor.stopProcess'', ''Stop a process named name''),
      (''supervisor.stopProcessGroup'', ''Stop all processes in the group named name''),
      (''supervisor.stopAllProcesses'', ''Stop all processes listed in the configuration file''),
      (''supervisor.signalProcess'', ''Send an arbitrary UNIX signal to the process named name''),
      (''supervisor.signalProcessGroup'', ''Send a signal to all processes in the group named name''),
      (''supervisor.signalAllProcesses'', ''Send a signal to all processes in the configuration file''),
      (''supervisor.sendProcessStdin'',
       ''Send a string of characters to the standard input of the process name''),
      (''supervisor.sendRemoteCommEvent'',
       ''Send an event that will be received by event listener sub-processes''),
      (''supervisor.tailProcessStdoutLog'', ''Provides a more efficient way to tail the stdout log''),
      (''supervisor.tailProcessLog'', ''Provides a more efficient way to tail the stdout log''),
      (''supervisor.tailProcessStderrLog'', ''Provides a more efficient way to tail the stderr log''),
      (''supervisor.readProcessStdoutLog'',
       ''Read length bytes from process name''@ [CHR 0x27] @ ''s stdout log starting at offset''),
      (''supervisor.readProcessLog'',
       ''Read length bytes from process name'' @ [CHR 0x27] @ ''s stdout log starting at offset''),
      (''supervisor.readProcessStderrLog'',
       ''Read length bytes from process name'' @ [CHR 0x27] @ ''s stderr log starting at offset''),
      (''supervisor.clearProcessLogs'', ''Clear the stdout and stderr logs for the specified process''),
      (''supervisor.clearProcessLog'', ''Clear the stdout and stderr logs for the specified process''),
      (''supervisor.clearAllProcessLogs'', ''Clear all process log files''),
      (''supervisor.addProcessGroup'',
       ''Update the config for a running process group and add it to the runtime configuration''),
      (''supervisor.removeProcessGroup'', ''Remove a stopped process from the active configuration''),
      (''system.listMethods'', ''Return an array of all available methods''),
      (''system.methodHelp'', ''Return help text for a method''),
      (''system.methodSignature'', ''Return signature for a method''),
      (''system.multicall'', ''Process an array of calls, and return an array of results'')]"

definition method_help :: "string \<Rightarrow> Fault + RpcValue" where
  "method_help name =
     (if name \<notin> set ALL_METHODS then Inl (signature_unsupported name)
      else Inr (RString (unwrap_or (map_of help_texts name) ''Supervisor RPC method'')))"

definition method_signature :: "string \<Rightarrow> Fault + RpcValue" where
  "method_signature name =
     (if name \<notin> set ALL_METHODS then Inl (signature_unsupported name)
      else Inr (RArray (map RString
        (if name \<in> {''supervisor.getAPIVersion'', ''supervisor.getVersion'',
                    ''supervisor.getSupervisorVersion'', ''supervisor.getIdentification''} then [''string'']
         else if name = ''supervisor.getPID'' then [''int'']
         else if name = ''supervisor.getState'' then [''struct'']
         else if name \<in> {''supervisor.startProcess'', ''supervisor.stopProcess'',
                         ''supervisor.signalProcess''} then [''boolean'', ''string'']
         else [''array'']))))"

section \<open>Calls\<close>

text \<open>A computation over the state \<open>'s\<close> that may end in a fault; \<open>r_bind\<close> is the operator \<open>?\<close>.\<close>

type_synonym ('s, 'a) rpc = "'s \<Rightarrow> (Fault + 'a) \<times> 's"

definition r_ret :: "'a \<Rightarrow> ('s, 'a) rpc" where
  "r_ret x = (\<lambda>s. (Inr x, s))"

definition r_lift :: "Fault + 'a \<Rightarrow> ('s, 'a) rpc" where
  "r_lift r = (\<lambda>s. (r, s))"

definition r_bind :: "('s, 'a) rpc \<Rightarrow> ('a \<Rightarrow> ('s, 'b) rpc) \<Rightarrow> ('s, 'b) rpc" where
  "r_bind m k = (\<lambda>s. case m s of (Inl f, s) \<Rightarrow> (Inl f, s) | (Inr x, s) \<Rightarrow> k x s)"

text \<open>An operation of the manager, with \<open>map_err(Fault::from)\<close>.\<close>

definition r_of :: "('s \<Rightarrow> 'a result \<times> 's) \<Rightarrow> ('s, 'a) rpc" where
  "r_of m = (\<lambda>s. map_prod (map_sum fault_of id) id (m s))"

definition r_ignore :: "('s \<Rightarrow> 'a result \<times> 's) \<Rightarrow> ('s, unit) rpc" where
  "r_ignore m = (\<lambda>s. (Inr (), snd (m s)))"

record ('s, 'cfg) RpcContext =
  rc_identifier :: string
  rc_pid :: nat
  rc_now :: "'s \<Rightarrow> nat"
  rc_local_time :: "nat \<Rightarrow> string option"
  rc_config_path :: "string option"
  rc_load :: "string \<Rightarrow> string + 'cfg"
  rc_get_status :: "string \<Rightarrow> 's \<Rightarrow> ProgramStatus result \<times> 's"
  rc_get_all_status :: "'s \<Rightarrow> ProgramStatus list result \<times> 's"
  rc_get_all_configs :: "'s \<Rightarrow> ProgramConfig hmap result \<times> 's"
  rc_start_program :: "string \<Rightarrow> 's \<Rightarrow> unit result \<times> 's"
  rc_stop_program :: "string \<Rightarrow> duration option \<Rightarrow> 's \<Rightarrow> unit result \<times> 's"
  rc_restart_program :: "string \<Rightarrow> duration option \<Rightarrow> 's \<Rightarrow> unit result \<times> 's"
  rc_signal_program :: "string \<Rightarrow> StopSignal \<Rightarrow> 's \<Rightarrow> unit result \<times> 's"
  rc_start_group :: "string \<Rightarrow> 's \<Rightarrow> string list result \<times> 's"
  rc_stop_group :: "string \<Rightarrow> duration option \<Rightarrow> 's \<Rightarrow> string list result \<times> 's"
  rc_start_all :: "'s \<Rightarrow> unit result \<times> 's"
  rc_stop_all :: "duration option \<Rightarrow> 's \<Rightarrow> unit result \<times> 's"
  rc_reload_config :: "'cfg \<Rightarrow> 's \<Rightarrow> ReloadSummary result \<times> 's"
  rc_restart_daemon :: "'cfg \<Rightarrow> 's \<Rightarrow> unit result \<times> 's"
  rc_add_process_group :: "string \<Rightarrow> 's \<Rightarrow> bool result \<times> 's"
  rc_remove_process_group :: "string \<Rightarrow> 's \<Rightarrow> bool result \<times> 's"
  rc_read_log :: "string \<Rightarrow> LogChannel \<Rightarrow> i64 \<Rightarrow> i64 \<Rightarrow> 's \<Rightarrow> (bytes \<times> i64 \<times> bool) result \<times> 's"
  rc_tail_log :: "string \<Rightarrow> LogChannel \<Rightarrow> i64 \<Rightarrow> i64 \<Rightarrow> 's \<Rightarrow> (bytes \<times> i64 \<times> bool) result \<times> 's"
  rc_clear_process_logs :: "string \<Rightarrow> 's \<Rightarrow> unit result \<times> 's"
  rc_read_main_log :: "i64 \<Rightarrow> i64 \<Rightarrow> 's \<Rightarrow> bytes result \<times> 's"
  rc_tail_main_log :: "i64 \<Rightarrow> i64 \<Rightarrow> 's \<Rightarrow> (bytes \<times> i64 \<times> bool) result \<times> 's"
  rc_clear_main_log :: "'s \<Rightarrow> unit result \<times> 's"
  rc_send_stdin :: "string \<Rightarrow> bytes \<Rightarrow> 's \<Rightarrow> unit result \<times> 's"
  rc_send_remote_comm_event :: "string \<Rightarrow> string \<Rightarrow> 's \<Rightarrow> 's"
  rc_spawn_shutdown :: "'s \<Rightarrow> 's"

definition param :: "RpcValue list \<Rightarrow> nat \<Rightarrow> RpcValue option" where
  "param ps i = (if i < length ps then Some (ps ! i) else None)"

definition ok_or :: "'a option \<Rightarrow> 'e \<Rightarrow> 'e + 'a" where
  "ok_or x e = (case x of None \<Rightarrow> Inl e | Some y \<Rightarrow> Inr y)"

definition get_str_param :: "RpcValue list \<Rightarrow> nat \<Rightarrow> string \<Rightarrow> Fault + string" where
  "get_str_param ps i err_msg = ok_or (Option.bind (param ps i) rpc_as_str) (incorrect_params err_msg)"

definition i64_param :: "RpcValue list \<Rightarrow> nat \<Rightarrow> i64 \<Rightarrow> i64" where
  "i64_param ps i d = unwrap_or (Option.bind (param ps i) rpc_as_i64) d"

definition i32_param :: "RpcValue list \<Rightarrow> nat \<Rightarrow> int \<Rightarrow> int" where
  "i32_param ps i d = unwrap_or (Option.bind (param ps i) rpc_as_i32) d"

section \<open>Signals\<close>

datatype SignalSpec = Signal StopSignal | Probe

definition signal_spec_of :: "string \<Rightarrow> Fault + SignalSpec" where
  "signal_spec_of raw =
     (let trimmed = to_ascii_uppercase (trim raw)
      in if trimmed = ''0'' then Inr Probe
         else (let clean = unwrap_or (strip_prefix ''SIG'' trimmed) trimmed
               in if clean = ''1'' \<or> clean = ''HUP'' then Inr (Signal Hup)
                  else if clean = ''2'' \<or> clean = ''INT'' then Inr (Signal StopSignal.Int)
                  else if clean = ''3'' \<or> clean = ''QUIT'' then Inr (Signal Quit)
                  else if clean = ''9'' \<or> clean = ''KILL'' then Inr (Signal Kill)
                  else if clean = ''15'' \<or> clean = ''TERM'' then Inr (Signal Term)
                  else (case signal_of_name clean of
                          Some sig \<Rightarrow> Inr (Signal sig)
                        | None \<Rightarrow> Inl (bad_signal raw))))"

definition get_signal_param :: "RpcValue list \<Rightarrow> nat \<Rightarrow> Fault + SignalSpec" where
  "get_signal_param ps i =
     (case param ps i of
        Some (RString s) \<Rightarrow> signal_spec_of s
      | Some (RInt n) \<Rightarrow>
          if n = 0 then Inr Probe
          else (case map_of [(1, ''HUP''), (2, ''INT''), (3, ''QUIT''), (9, ''KILL''), (15, ''TERM'')] n of
                  Some s \<Rightarrow> signal_spec_of s
                | None \<Rightarrow> Inl (bad_signal (int_to_string n)))
      | _ \<Rightarrow> Inl (incorrect_params ''Signal must be string or integer''))"

definition execute_signal :: "('s, 'cfg) RpcContext \<Rightarrow> string \<Rightarrow> SignalSpec \<Rightarrow> ('s, unit) rpc" where
  "execute_signal C name sig =
     r_bind (r_of (rc_get_status C name)) (\<lambda>st.
       case sig of
         Probe \<Rightarrow> r_lift (if is_running (s_state st) then Inr () else Inl (not_running name))
       | Signal sg \<Rightarrow>
           if \<not> is_running (s_state st) then r_lift (Inl (not_running name))
           else r_of (rc_signal_program C name sg))"

fun signal_each ::
  "('s, 'cfg) RpcContext \<Rightarrow> SignalSpec \<Rightarrow> ProgramStatus list \<Rightarrow> 's \<Rightarrow> RpcValue list \<times> 's" where
  "signal_each C sig [] s = ([], s)"
| "signal_each C sig (st # sts) s =
     (let (res, s) = execute_signal C (s_name st) sig s;
          (code, desc) = (case res of
             Inr _ \<Rightarrow> (fault_code Success, ''OK'')
           | Inl f \<Rightarrow> (fault_number f, fault_message f));
          (results, s) = signal_each C sig sts s
      in (make_process_status_struct (s_name st) (s_group st) code desc # results, s))"

section \<open>Logs\<close>

definition tail_result :: "bytes \<times> i64 \<times> bool \<Rightarrow> RpcValue" where
  "tail_result = (\<lambda>(data, new_off, overflow). RArray [RString data, RInt (cast_i32 new_off), RBoolean overflow])"

definition tail_process_log :: "('s, 'cfg) RpcContext \<Rightarrow> RpcValue list \<Rightarrow> LogChannel \<Rightarrow> ('s, RpcValue) rpc" where
  "tail_process_log C ps channel =
     r_bind (r_lift (get_str_param ps 0 ''tailProcessLog requires name parameter'')) (\<lambda>name.
     r_bind (r_of (rc_tail_log C name channel (i64_param ps 1 0) (i64_param ps 2 4096))) (\<lambda>x.
     r_ret (tail_result x)))"

definition read_process_log :: "('s, 'cfg) RpcContext \<Rightarrow> RpcValue list \<Rightarrow> LogChannel \<Rightarrow> ('s, RpcValue) rpc" where
  "read_process_log C ps channel =
     r_bind (r_lift (get_str_param ps 0 ''readProcessLog requires name parameter'')) (\<lambda>name.
     r_bind (r_of (rc_read_log C name channel (i64_param ps 1 0) (i64_param ps 2 0))) (\<lambda>(data, _, _).
     r_ret (RString data)))"

definition read_main_log :: "('s, 'cfg) RpcContext \<Rightarrow> int \<Rightarrow> int \<Rightarrow> ('s, RpcValue) rpc" where
  "read_main_log C offset len = r_bind (r_of (rc_read_main_log C offset len)) (\<lambda>data. r_ret (RString data))"

definition tail_main_log :: "('s, 'cfg) RpcContext \<Rightarrow> RpcValue list \<Rightarrow> ('s, RpcValue) rpc" where
  "tail_main_log C ps =
     r_bind (r_of (rc_tail_main_log C (i64_param ps 0 0) (i64_param ps 1 4096))) (\<lambda>x. r_ret (tail_result x))"

text \<open>The outcome of every single clearing is ignored.\<close>

fun clear_each :: "('s, 'cfg) RpcContext \<Rightarrow> ProgramConfig list \<Rightarrow> 's \<Rightarrow> 's" where
  "clear_each C [] s = s"
| "clear_each C (cfg # cfgs) s = clear_each C cfgs (snd (rc_clear_process_logs C (c_name cfg) s))"

definition clear_all_process_logs :: "('s, 'cfg) RpcContext \<Rightarrow> ('s, RpcValue) rpc" where
  "clear_all_process_logs C =
     r_bind (r_of (rc_get_all_configs C)) (\<lambda>configs.
     r_bind (\<lambda>s. (Inr (), clear_each C (vals configs) s)) (\<lambda>_.
     r_bind (r_of (rc_get_all_status C)) (\<lambda>statuses.
     r_ret (RArray (map (\<lambda>st.
       make_process_status_struct (s_name st) (s_group st) (fault_code Success) ''OK'') statuses)))))"

section \<open>Configuration\<close>

definition stop_signal_to_int :: "StopSignal \<Rightarrow> int" where
  "stop_signal_to_int sig =
     (case sig of
        Hup \<Rightarrow> 1 | StopSignal.Int \<Rightarrow> 2 | CtrlC \<Rightarrow> 2 | Quit \<Rightarrow> 3 | CtrlBreak \<Rightarrow> 3 | Kill \<Rightarrow> 9 | Term \<Rightarrow> 15)"

definition full_command :: "ProgramConfig \<Rightarrow> string" where
  "full_command cfg =
     (if c_args cfg = [] then c_command cfg else c_command cfg @ '' '' @ join_with '' '' (c_args cfg))"

definition RNat :: "nat \<Rightarrow> RpcValue" where
  "RNat n = RInt (cast_i32 (int n))"

definition or_none :: "string option \<Rightarrow> RpcValue" where
  "or_none x = RString (unwrap_or x ''none'')"

definition config_info :: "ProgramConfig \<Rightarrow> RpcValue" where
  "config_info cfg =
     (let logs = c_logs cfg
      in RStruct (bt_of
           [(''name'', RString (c_name cfg)), (''group'', RString (c_group cfg)),
            (''group_prio'', RNat (c_group_priority cfg)), (''process_prio'', RNat (c_priority cfg)),
            (''command'', RString (full_command cfg)), (''autostart'', RBoolean (c_autostart cfg)),
            (''startsecs'', RNat (as_secs (c_start_secs cfg))),
            (''startretries'', RNat (c_start_retries cfg)), (''inuse'', RBoolean True),
            (''killasgroup'', RBoolean (c_kill_as_group cfg)),
            (''stopasgroup'', RBoolean (c_stop_as_group cfg)),
            (''redirect_stderr'', RBoolean (l_redirect_stderr logs)),
            (''stopsignal'', RInt (stop_signal_to_int (c_stop_signal cfg))),
            (''stopwaitsecs'', RNat (as_secs (c_stop_wait_secs cfg))),
            (''directory'', or_none (c_directory cfg)), (''uid'', or_none (c_user cfg)),
            (''exitcodes'', RArray (map RInt (c_exit_codes cfg))),
            (''stdout_logfile'', or_none (if is_stdout_disabled logs then None else l_stdout logs)),
            (''stderr_logfile'',
             or_none (if is_stderr_disabled logs \<or> l_redirect_stderr logs then None else l_stderr logs)),
            (''stdout_logfile_maxbytes'', RNat (effective_stdout_max_bytes logs)),
            (''stderr_logfile_maxbytes'', RNat (effective_stderr_max_bytes logs)),
            (''stdout_logfile_backups'', RNat (effective_stdout_backups logs)),
            (''stderr_logfile_backups'', RNat (effective_stderr_backups logs)),
            (''stdout_capture_maxbytes'', RInt 0), (''stderr_capture_maxbytes'', RInt 0),
            (''stdout_events_enabled'', RBoolean (l_stdout_events_enabled logs)),
            (''stderr_events_enabled'', RBoolean (l_stderr_events_enabled logs)),
            (''stdout_syslog'', RBoolean (l_stdout_syslog logs)),
            (''stderr_syslog'', RBoolean (l_stderr_syslog logs)), (''serverurl'', RString ''none'')]))"

definition struct_name :: "RpcValue \<Rightarrow> string" where
  "struct_name v = unwrap_or (Option.bind (Option.bind (rpc_as_struct v) (\<lambda>m. map_of m ''name'')) rpc_as_str) ''''"

definition get_all_config_info :: "('s, 'cfg) RpcContext \<Rightarrow> ('s, RpcValue) rpc" where
  "get_all_config_info C =
     r_bind (r_of (rc_get_all_configs C)) (\<lambda>configs.
     r_ret (RArray (sort_key struct_name (map config_info (vals configs)))))"

definition reload_config :: "('s, 'cfg) RpcContext \<Rightarrow> ('s, RpcValue) rpc" where
  "reload_config C =
     r_bind (r_lift (ok_or (rc_config_path C)
       (cant_reread ''No configuration file path specified for reload''))) (\<lambda>config_path.
     r_bind (r_lift (map_sum cant_reread id (rc_load C config_path))) (\<lambda>new_cfg.
     r_bind (r_of (rc_reload_config C new_cfg)) (\<lambda>summary.
     r_ret (RArray [RArray [RArray (map RString (rs_added summary)), RArray (map RString (rs_modified summary)),
       RArray (map RString (rs_removed summary))]]))))"

definition restart_supervisor :: "('s, 'cfg) RpcContext \<Rightarrow> ('s, RpcValue) rpc" where
  "restart_supervisor C =
     r_bind (r_lift (ok_or (rc_config_path C)
       (cant_reread ''No configuration file path specified for reload''))) (\<lambda>config_path.
     r_bind (r_lift (map_sum (\<lambda>e. cant_reread (''Invalid configuration: '' @ e)) id (rc_load C config_path)))
       (\<lambda>new_config.
     r_bind (r_of (rc_restart_daemon C new_config)) (\<lambda>_. r_ret (RBoolean True))))"

section \<open>The methods over the manager\<close>

definition get_state :: RpcValue where
  "get_state = RStruct (bt_of [(''statecode'', RInt 1), (''statename'', RString ''RUNNING'')])"

definition get_all_process_info :: "('s, 'cfg) RpcContext \<Rightarrow> ('s, RpcValue) rpc" where
  "get_all_process_info C =
     r_bind (r_of (rc_get_all_status C)) (\<lambda>statuses s.
     (Inr (RArray (map (\<lambda>st.
        program_status_to_process_info (rc_local_time C) (rc_now C s) st None None) statuses)), s))"

definition get_process_info :: "('s, 'cfg) RpcContext \<Rightarrow> RpcValue list \<Rightarrow> ('s, RpcValue) rpc" where
  "get_process_info C ps =
     r_bind (r_lift (get_str_param ps 0 ''getProcessInfo requires name parameter'')) (\<lambda>name.
     r_bind (r_of (rc_get_status C name)) (\<lambda>st s.
     (Inr (program_status_to_process_info (rc_local_time C) (rc_now C s) st None None), s)))"

definition start_process :: "('s, 'cfg) RpcContext \<Rightarrow> RpcValue list \<Rightarrow> ('s, RpcValue) rpc" where
  "start_process C ps =
     r_bind (r_lift (get_str_param ps 0 ''startProcess requires name parameter'')) (\<lambda>name.
     r_bind (r_of (rc_get_status C name)) (\<lambda>st.
     if is_running (s_state st) \<or> s_state st = Starting then r_lift (Inl (already_started name))
     else r_bind (r_of (rc_start_program C name)) (\<lambda>_. r_ret (RBoolean True))))"

definition stop_process :: "('s, 'cfg) RpcContext \<Rightarrow> RpcValue list \<Rightarrow> ('s, RpcValue) rpc" where
  "stop_process C ps =
     r_bind (r_lift (get_str_param ps 0 ''stopProcess requires name parameter'')) (\<lambda>name.
     r_bind (r_of (rc_get_status C name)) (\<lambda>st.
     if \<not> is_running (s_state st) \<and> s_state st \<noteq> Starting then r_lift (Inl (not_running name))
     else r_bind (r_of (rc_stop_program C name None)) (\<lambda>_. r_ret (RBoolean True))))"

definition restart_process :: "('s, 'cfg) RpcContext \<Rightarrow> RpcValue list \<Rightarrow> ('s, RpcValue) rpc" where
  "restart_process C ps =
     r_bind (r_lift (get_str_param ps 0 ''restartProcess requires name parameter'')) (\<lambda>name.
     r_bind (r_of (rc_restart_program C name None)) (\<lambda>_. r_ret (RBoolean True)))"

definition group_results :: "string \<Rightarrow> string list \<Rightarrow> RpcValue" where
  "group_results grp names =
     RArray (map (\<lambda>n. make_process_status_struct n grp (fault_code Success) ''OK'') names)"

definition start_process_group :: "('s, 'cfg) RpcContext \<Rightarrow> RpcValue list \<Rightarrow> ('s, RpcValue) rpc" where
  "start_process_group C ps =
     r_bind (r_lift (get_str_param ps 0 ''startProcessGroup requires group name parameter'')) (\<lambda>grp.
     r_bind (r_of (rc_start_group C grp)) (\<lambda>names. r_ret (group_results grp names)))"

definition stop_process_group :: "('s, 'cfg) RpcContext \<Rightarrow> RpcValue list \<Rightarrow> ('s, RpcValue) rpc" where
  "stop_process_group C ps =
     r_bind (r_lift (get_str_param ps 0 ''stopProcessGroup requires group name parameter'')) (\<lambda>grp.
     r_bind (r_of (rc_stop_group C grp None)) (\<lambda>names. r_ret (group_results grp names)))"

definition bulk_results :: "(ProgramState \<Rightarrow> bool) \<Rightarrow> ProgramStatus list \<Rightarrow> RpcValue" where
  "bulk_results good statuses =
     RArray (map (\<lambda>st. make_process_status_struct (s_name st) (s_group st)
       (fault_code (if good (s_state st) then Success else Failed)) ''OK'') statuses)"

definition start_all_processes :: "('s, 'cfg) RpcContext \<Rightarrow> ('s, RpcValue) rpc" where
  "start_all_processes C =
     r_bind (r_ignore (rc_start_all C)) (\<lambda>_.
     r_bind (r_of (rc_get_all_status C)) (\<lambda>statuses.
     r_ret (bulk_results (\<lambda>st. is_running st \<or> st = Starting) statuses)))"

definition stop_all_processes :: "('s, 'cfg) RpcContext \<Rightarrow> ('s, RpcValue) rpc" where
  "stop_all_processes C =
     r_bind (r_ignore (rc_stop_all C None)) (\<lambda>_.
     r_bind (r_of (rc_get_all_status C)) (\<lambda>statuses.
     r_ret (bulk_results (\<lambda>st. is_stopped_or_fatal st \<or> st = Exited) statuses)))"

definition signal_process :: "('s, 'cfg) RpcContext \<Rightarrow> RpcValue list \<Rightarrow> ('s, RpcValue) rpc" where
  "signal_process C ps =
     r_bind (r_lift (get_str_param ps 0 ''signalProcess requires name parameter'')) (\<lambda>name.
     r_bind (r_lift (get_signal_param ps 1)) (\<lambda>sig.
     r_bind (execute_signal C name sig) (\<lambda>_. r_ret (RBoolean True))))"

definition signal_process_group :: "('s, 'cfg) RpcContext \<Rightarrow> RpcValue list \<Rightarrow> ('s, RpcValue) rpc" where
  "signal_process_group C ps =
     r_bind (r_lift (get_str_param ps 0 ''signalProcessGroup requires group parameter'')) (\<lambda>grp.
     r_bind (r_lift (get_signal_param ps 1)) (\<lambda>sig.
     r_bind (r_of (rc_get_all_status C)) (\<lambda>statuses s.
     map_prod (Inr \<circ> RArray) id (signal_each C sig (filter (\<lambda>st. s_group st = grp) statuses) s))))"

definition signal_all_processes :: "('s, 'cfg) RpcContext \<Rightarrow> RpcValue list \<Rightarrow> ('s, RpcValue) rpc" where
  "signal_all_processes C ps =
     r_bind (r_lift (get_signal_param ps 0)) (\<lambda>sig.
     r_bind (r_of (rc_get_all_status C)) (\<lambda>statuses s.
     map_prod (Inr \<circ> RArray) id (signal_each C sig statuses s)))"

definition clear_process_logs :: "('s, 'cfg) RpcContext \<Rightarrow> RpcValue list \<Rightarrow> ('s, RpcValue) rpc" where
  "clear_process_logs C ps =
     r_bind (r_lift (get_str_param ps 0 ''clearProcessLogs requires name parameter'')) (\<lambda>name.
     r_bind (r_of (rc_clear_process_logs C name)) (\<lambda>_. r_ret (RBoolean True)))"

definition send_process_stdin :: "('s, 'cfg) RpcContext \<Rightarrow> RpcValue list \<Rightarrow> ('s, RpcValue) rpc" where
  "send_process_stdin C ps =
     r_bind (r_lift (get_str_param ps 0 ''sendProcessStdin requires name parameter'')) (\<lambda>name.
     r_bind (r_lift (get_str_param ps 1 ''sendProcessStdin requires chars parameter'')) (\<lambda>chars.
     r_bind (r_of (rc_send_stdin C name chars)) (\<lambda>_. r_ret (RBoolean True))))"

definition add_process_group :: "('s, 'cfg) RpcContext \<Rightarrow> RpcValue list \<Rightarrow> ('s, RpcValue) rpc" where
  "add_process_group C ps =
     r_bind (r_lift (get_str_param ps 0 ''addProcessGroup requires group name parameter'')) (\<lambda>name.
     r_bind (r_of (rc_add_process_group C name)) (\<lambda>ok.
     r_lift (if \<not> ok then Inl (already_added name) else Inr (RBoolean True))))"

definition remove_process_group :: "('s, 'cfg) RpcContext \<Rightarrow> RpcValue list \<Rightarrow> ('s, RpcValue) rpc" where
  "remove_process_group C ps =
     r_bind (r_lift (get_str_param ps 0 ''removeProcessGroup requires group name parameter'')) (\<lambda>name.
     r_bind (r_of (rc_remove_process_group C name)) (\<lambda>ok.
     r_lift (if \<not> ok then Inl (still_running_fault name) else Inr (RBoolean True))))"

definition send_comm_event :: "('s, 'cfg) RpcContext \<Rightarrow> RpcValue list \<Rightarrow> ('s, RpcValue) rpc" where
  "send_comm_event C ps =
     r_bind (r_lift (get_str_param ps 0 ''type string required'')) (\<lambda>type_str.
     r_bind (r_lift (get_str_param ps 1 ''data string required'')) (\<lambda>data s.
     (Inr (RBoolean True), rc_send_remote_comm_event C type_str data s)))"

definition supervisor_methods ::
  "('s, 'cfg) RpcContext \<Rightarrow> (string \<times> (RpcValue list \<Rightarrow> ('s, RpcValue) rpc)) list" where
  "supervisor_methods C =
     [(''supervisor.getAPIVersion'', \<lambda>_. r_ret (RString ''3.0'')),
      (''supervisor.getVersion'', \<lambda>_. r_ret (RString ''3.0'')),
      (''supervisor.getSupervisorVersion'', \<lambda>_. r_ret (RString ''1.1.3'')),
      (''supervisor.getIdentification'', \<lambda>_. r_ret (RString (rc_identifier C))),
      (''supervisor.getPID'', \<lambda>_. r_ret (RNat (rc_pid C))),
      (''supervisor.getState'', \<lambda>_. r_ret get_state),
      (''supervisor.getAllProcessInfo'', \<lambda>_. get_all_process_info C),
      (''supervisor.getProcessInfo'', get_process_info C),
      (''supervisor.startProcess'', start_process C),
      (''supervisor.stopProcess'', stop_process C),
      (''supervisor.restartProcess'', restart_process C),
      (''supervisor.startProcessGroup'', start_process_group C),
      (''supervisor.stopProcessGroup'', stop_process_group C),
      (''supervisor.startAllProcesses'', \<lambda>_. start_all_processes C),
      (''supervisor.stopAllProcesses'', \<lambda>_. stop_all_processes C),
      (''supervisor.signalProcess'', signal_process C),
      (''supervisor.signalProcessGroup'', signal_process_group C),
      (''supervisor.signalAllProcesses'', signal_all_processes C),
      (''supervisor.tailProcessStdoutLog'', \<lambda>ps. tail_process_log C ps Stdout),
      (''supervisor.tailProcessLog'', \<lambda>ps. tail_process_log C ps Stdout),
      (''supervisor.tailProcessStderrLog'', \<lambda>ps. tail_process_log C ps Stderr),
      (''supervisor.readProcessStdoutLog'', \<lambda>ps. read_process_log C ps Stdout),
      (''supervisor.readProcessLog'', \<lambda>ps. read_process_log C ps Stdout),
      (''supervisor.readProcessStderrLog'', \<lambda>ps. read_process_log C ps Stderr),
      (''supervisor.readLog'', \<lambda>ps. read_main_log C (i32_param ps 0 0) (i32_param ps 1 0)),
      (''supervisor.readMainLog'', \<lambda>ps. read_main_log C (i32_param ps 0 0) (i32_param ps 1 0)),
      (''supervisor.tailMainLog'', tail_main_log C),
      (''supervisor.clearLog'', \<lambda>_. r_bind (r_of (rc_clear_main_log C)) (\<lambda>_. r_ret (RBoolean True))),
      (''supervisor.clearProcessLogs'', clear_process_logs C),
      (''supervisor.clearProcessLog'', clear_process_logs C),
      (''supervisor.clearAllProcessLogs'', \<lambda>_. clear_all_process_logs C),
      (''supervisor.getAllConfigInfo'', \<lambda>_. get_all_config_info C),
      (''supervisor.reloadConfig'', \<lambda>_. reload_config C),
      (''supervisor.sendProcessStdin'', send_process_stdin C),
      (''supervisor.shutdown'', \<lambda>_ s. (Inr (RBoolean True), rc_spawn_shutdown C s)),
      (''supervisor.restart'', \<lambda>_. restart_supervisor C),
      (''supervisor.addProcessGroup'', add_process_group C),
      (''supervisor.removeProcessGroup'', remove_process_group C),
      (''supervisor.sendRemoteCommEvent'', send_comm_event C)]"

definition handle_supervisor_method ::
  "('s, 'cfg) RpcContext \<Rightarrow> string \<Rightarrow> RpcValue list \<Rightarrow> ('s, RpcValue) rpc" where
  "handle_supervisor_method C method ps =
     (case map_of (supervisor_methods C) method of
        Some m \<Rightarrow> m ps
      | None \<Rightarrow> r_lift (Inl (unknown_method method)))"

section \<open>Dispatch\<close>

definition fault_struct :: "int \<Rightarrow> string \<Rightarrow> RpcValue" where
  "fault_struct code message = RStruct (bt_of [(''faultCode'', RInt code), (''faultString'', RString message)])"

text \<open>\<open>dispatch\<close> is \<open>None\<close> when its fuel has run out.\<close>

type_synonym 's dispatcher = "string \<Rightarrow> RpcValue list \<Rightarrow> 's \<Rightarrow> ((Fault + RpcValue) \<times> 's) option"

definition multicall_item :: "'s dispatcher \<Rightarrow> RpcValue \<Rightarrow> 's \<Rightarrow> (RpcValue \<times> 's) option" where
  "multicall_item dispatch call s =
     (case rpc_as_struct call of
        None \<Rightarrow> Some (fault_struct 2 ''Call specification must be a struct'', s)
      | Some call_struct \<Rightarrow>
     (case Option.bind (map_of call_struct ''methodName'') rpc_as_str of
        None \<Rightarrow> Some (fault_struct 2 ''Missing methodName in multicall item'', s)
      | Some method_name \<Rightarrow>
          if method_name = ''system.multicall''
          then Some (fault_struct 2 ''Recursive multicall not allowed'', s)
          else (case dispatch method_name
                       (unwrap_or (Option.bind (map_of call_struct ''params'') rpc_as_array) []) s of
                  None \<Rightarrow> None
                | Some (Inr v, s) \<Rightarrow> Some (RArray [v], s)
                | Some (Inl f, s) \<Rightarrow> Some (fault_struct (fault_number f) (fault_message f), s))))"

fun multicall_items :: "'s dispatcher \<Rightarrow> RpcValue list \<Rightarrow> 's \<Rightarrow> (RpcValue list \<times> 's) option" where
  "multicall_items dispatch [] s = Some ([], s)"
| "multicall_items dispatch (call # calls) s =
     (case multicall_item dispatch call s of
        None \<Rightarrow> None
      | Some (v, s) \<Rightarrow>
          (case multicall_items dispatch calls s of
             None \<Rightarrow> None
           | Some (vs, s) \<Rightarrow> Some (v # vs, s)))"

definition handle_multicall :: "'s dispatcher \<Rightarrow> RpcValue list \<Rightarrow> 's \<Rightarrow> ((Fault + RpcValue) \<times> 's) option" where
  "handle_multicall dispatch ps s =
     (case ps of
        [] \<Rightarrow> Some (Inl (incorrect_params ''system.multicall requires 1 parameter: list of calls''), s)
      | p # _ \<Rightarrow>
          (case rpc_as_array p of
             None \<Rightarrow> Some (Inl (incorrect_params ''system.multicall parameter must be an array''), s)
           | Some calls \<Rightarrow> map_option (map_prod (Inr \<circ> RArray) id) (multicall_items dispatch calls s)))"

definition named_method :: "(string \<Rightarrow> Fault + RpcValue) \<Rightarrow> string \<Rightarrow> RpcValue list \<Rightarrow> Fault + RpcValue" where
  "named_method f err ps =
     (case Option.bind (param ps 0) rpc_as_str of None \<Rightarrow> Inl (incorrect_params err) | Some name \<Rightarrow> f name)"

primrec dispatch_call :: "nat \<Rightarrow> ('s, 'cfg) RpcContext \<Rightarrow> 's dispatcher" where
  "dispatch_call 0 C = (\<lambda>method ps s. None)"
| "dispatch_call (Suc n) C = (\<lambda>method ps s.
     if strip_prefix ''system.'' method \<noteq> None
     then (if method = ''system.listMethods'' then Some (Inr list_methods, s)
           else if method = ''system.methodHelp''
           then Some (named_method method_help ''system.methodHelp requires method name string'' ps, s)
           else if method = ''system.methodSignature''
           then Some (named_method method_signature ''system.methodSignature requires method name string'' ps, s)
           else if method = ''system.multicall'' then handle_multicall (dispatch_call n C) ps s
           else Some (Inl (unknown_method method), s))
     else if strip_prefix ''supervisor.'' method \<noteq> None
     then Some (handle_supervisor_method C method ps s)
     else Some (Inl (unknown_method method), s))"

text \<open>A multicall cannot contain a multicall: two levels are enough.\<close>

definition dispatch :: "('s, 'cfg) RpcContext \<Rightarrow> 's dispatcher" where
  "dispatch C = dispatch_call 2 C"

text \<open>\<open>xmlrpc_handler\<close>: the body is \<open>None\<close> if it is not valid UTF-8; the result is the text of the response.\<close>

definition xmlrpc_handler ::
  "XmlLib \<Rightarrow> ('s, 'cfg) RpcContext \<Rightarrow> string option \<Rightarrow> 's \<Rightarrow> (string \<times> 's) option" where
  "xmlrpc_handler L C body s =
     (case body of
        None \<Rightarrow> Some (serialize_response L (Inl (incorrect_params ''Request body is not valid UTF-8'')), s)
      | Some xml_str \<Rightarrow>
          if trim xml_str = []
          then Some (serialize_response L (Inl (incorrect_params ''Empty request body'')), s)
          else (case parse_method_call L xml_str of
                  None \<Rightarrow> None
                | Some (Inl fault) \<Rightarrow> Some (serialize_response L (Inl fault), s)
                | Some (Inr call) \<Rightarrow>
                    map_option (map_prod (serialize_response L) id)
                      (dispatch C (mc_name call) (mc_params call) s)))"

section \<open>Multicall\<close>

lemma dispatch_flat:
  "method \<noteq> ''system.multicall'' \<Longrightarrow> dispatch_call (Suc n) C method ps s = dispatch_call (Suc 0) C method ps s"
  "method \<noteq> ''system.multicall'' \<Longrightarrow> \<exists>r s'. dispatch_call (Suc n) C method ps s = Some (r, s')"
  by (cases "handle_supervisor_method C method ps s"; simp)+

text \<open>
  What an item of a multicall answers: a well-formed item that names another method answers what
  this method alone would have answered in the state that the items before it have left.
\<close>

inductive answers :: "('s, 'cfg) RpcContext \<Rightarrow> RpcValue \<Rightarrow> 's \<Rightarrow> RpcValue \<Rightarrow> 's \<Rightarrow> bool" for C where
  not_a_struct: "rpc_as_struct call = None \<Longrightarrow>
     answers C call s (fault_struct 2 ''Call specification must be a struct'') s"
| unnamed: "rpc_as_struct call = Some m \<Longrightarrow> Option.bind (map_of m ''methodName'') rpc_as_str = None \<Longrightarrow>
     answers C call s (fault_struct 2 ''Missing methodName in multicall item'') s"
| nested: "rpc_as_struct call = Some m \<Longrightarrow> map_of m ''methodName'' = Some (RString ''system.multicall'') \<Longrightarrow>
     answers C call s (fault_struct 2 ''Recursive multicall not allowed'') s"
| succeeded: "rpc_as_struct call = Some m \<Longrightarrow> map_of m ''methodName'' = Some (RString name) \<Longrightarrow>
     name \<noteq> ''system.multicall'' \<Longrightarrow>
     dispatch C name (unwrap_or (Option.bind (map_of m ''params'') rpc_as_array) []) s = Some (Inr v, s') \<Longrightarrow>
     answers C call s (RArray [v]) s'"
| faulted: "rpc_as_struct call = Some m \<Longrightarrow> map_of m ''methodName'' = Some (RString name) \<Longrightarrow>
     name \<noteq> ''system.multicall'' \<Longrightarrow>
     dispatch C name (unwrap_or (Option.bind (map_of m ''params'') rpc_as_array) []) s = Some (Inl f, s') \<Longrightarrow>
     answers C call s (fault_struct (fault_number f) (fault_message f)) s'"

lemma named_str: "Option.bind x rpc_as_str = Some name \<longleftrightarrow> x = Some (RString name)"
  by (cases x) (auto simp: rpc_as_str_def split: RpcValue.splits)

lemma dispatch_two: "dispatch C = dispatch_call (Suc (Suc 0)) C"
  by (simp only: dispatch_def numeral_2_eq_2)

lemma item_answers: "\<exists>v s'. multicall_item (dispatch_call (Suc n) C) call s = Some (v, s') \<and> answers C call s v s'"
proof (cases "rpc_as_struct call")
  case None
  then show ?thesis using not_a_struct by (force simp: multicall_item_def)
next
  case m: (Some m)
  show ?thesis
  proof (cases "Option.bind (map_of m ''methodName'') rpc_as_str")
    case None
    then show ?thesis using m unnamed by (force simp: multicall_item_def)
  next
    case (Some name)
    then have n: "map_of m ''methodName'' = Some (RString name)" by (simp add: named_str)
    show ?thesis
    proof (cases "name = ''system.multicall''")
      case True
      then show ?thesis using m n Some nested by (force simp: multicall_item_def)
    next
      case False
      let ?ps = "unwrap_or (Option.bind (map_of m ''params'') rpc_as_array) []"
      obtain r s' where r: "dispatch_call (Suc n) C name ?ps s = Some (r, s')"
        using dispatch_flat(2) [OF False, of n C ?ps s] by (elim exE)
      then have d: "dispatch C name ?ps s = Some (r, s')"
        unfolding dispatch_two using dispatch_flat(1) [OF False] by metis
      show ?thesis
      proof (cases r)
        case (Inl f)
        then show ?thesis using m Some False r faulted [OF m n False] d
          by (simp add: multicall_item_def del: dispatch_call.simps)
      next
        case (Inr v)
        then show ?thesis using m Some False r succeeded [OF m n False] d
          by (simp add: multicall_item_def del: dispatch_call.simps)
      qed
    qed
  qed
qed

lemma items_answer:
  "\<exists>vs states. multicall_items (dispatch_call (Suc n) C) calls s = Some (vs, last (s # states)) \<and>
     length vs = length calls \<and> length states = length calls \<and>
     (\<forall>i < length calls. answers C (calls ! i) ((s # states) ! i) (vs ! i) (states ! i))"
proof (induction calls arbitrary: s)
  case (Cons call calls)
  obtain v s' where v: "multicall_item (dispatch_call (Suc n) C) call s = Some (v, s')" "answers C call s v s'"
    using item_answers [of n C call s] by (elim exE conjE)
  obtain vs states where vs: "multicall_items (dispatch_call (Suc n) C) calls s' = Some (vs, last (s' # states))"
      "length vs = length calls" "length states = length calls"
      "\<forall>i < length calls. answers C (calls ! i) ((s' # states) ! i) (vs ! i) (states ! i)"
    using Cons by blast
  have "\<forall>i < length (call # calls). answers C ((call # calls) ! i) ((s # s' # states) ! i) ((v # vs) ! i) ((s' # states) ! i)"
    using v(2) vs(4) by (auto simp: nth_Cons split: nat.split)
  then show ?case using v(1) vs(1-3)
    by (intro exI [of _ "v # vs"] exI [of _ "s' # states"]) (simp del: dispatch_call.simps)
qed simp

lemma multicall_answers: "\<exists>r s'. handle_multicall (dispatch_call (Suc n) C) ps s = Some (r, s')"
proof (cases ps)
  case (Cons p qs)
  have "\<exists>r s'. map_option (map_prod (Inr \<circ> RArray) id) (multicall_items (dispatch_call (Suc n) C) calls s)
      = Some (r :: Fault + RpcValue, s')" for calls
    using items_answer [of n C calls s] by (elim exE conjE) (simp del: dispatch_call.simps)
  then show ?thesis by (cases "rpc_as_array p") (simp_all add: Cons handle_multicall_def del: dispatch_call.simps)
qed (simp add: handle_multicall_def)

lemma dispatch_multicall: "dispatch C ''system.multicall'' = handle_multicall (dispatch_call (Suc 0) C)"
  unfolding dispatch_two dispatch_call.simps(2) [of "Suc 0"] by (simp add: fun_eq_iff del: dispatch_call.simps)

text \<open>
  C22: A multicall always ends and never fails as a whole: it answers every item, in order, and each
  item that names another method has exactly the effect and the outcome of a call of this method in
  the state that the items before it have left, even if some of them failed; malformed and nested
  items answer a fault and change nothing.
\<close>

theorem multicall_in_order:
  "\<exists>vs states. dispatch C ''system.multicall'' (RArray calls # ps) s = Some (Inr (RArray vs), last (s # states)) \<and>
     length vs = length calls \<and> length states = length calls \<and>
     (\<forall>i < length calls. answers C (calls ! i) ((s # states) ! i) (vs ! i) (states ! i))"
proof -
  have "dispatch C ''system.multicall'' (RArray calls # ps) s =
      map_option (map_prod (Inr \<circ> RArray) id) (multicall_items (dispatch_call (Suc 0) C) calls s)"
    by (simp add: dispatch_multicall handle_multicall_def rpc_as_array_def del: dispatch_call.simps)
  moreover obtain vs states where
      "multicall_items (dispatch_call (Suc 0) C) calls s = Some (vs, last (s # states))"
      "length vs = length calls" "length states = length calls"
      "\<forall>i < length calls. answers C (calls ! i) ((s # states) ! i) (vs ! i) (states ! i)"
    using items_answer [of 0 C calls s] by (elim exE conjE)
  ultimately show ?thesis
    by (intro exI [of _ vs] exI [of _ states]) (simp only: option.map map_prod_simp comp_apply id_apply simp_thms)
qed

lemma dispatch_answers: "\<exists>r s'. dispatch C method ps s = Some (r, s')"
proof (cases "method = ''system.multicall''")
  case True
  show ?thesis unfolding True dispatch_multicall by (rule multicall_answers)
next
  case False
  then show ?thesis unfolding dispatch_two by (rule dispatch_flat(2))
qed

text \<open>Every request is answered.\<close>

lemma handler_answers:
  assumes "text_shrinks L" shows "\<exists>xml s'. xmlrpc_handler L C body s = Some (xml, s')"
proof (cases body)
  case (Some xml_str)
  obtain r where r: "parse_method_call L xml_str = Some r" using reading_enough_fuel [OF assms] by blast
  show ?thesis
  proof (cases r)
    case (Inr call)
    obtain x s' where "dispatch C (mc_name call) (mc_params call) s = Some (x, s')"
      using dispatch_answers [of C "mc_name call" "mc_params call" s] by (elim exE)
    then show ?thesis by (simp add: xmlrpc_handler_def Some r Inr)
  qed (simp add: xmlrpc_handler_def Some r)
qed (simp add: xmlrpc_handler_def)

section \<open>The contract of the manager\<close>

text \<open>A property of the state that every operation of the manager keeps is kept by every call.\<close>

definition keeps :: "('s \<Rightarrow> bool) \<Rightarrow> ('s \<Rightarrow> 'r \<times> 's) \<Rightarrow> bool" where
  "keeps I m \<longleftrightarrow> (\<forall>s. I s \<longrightarrow> I (snd (m s)))"

lemma keepsD: "keeps I m \<Longrightarrow> I s \<Longrightarrow> I (snd (m s))"
  by (simp add: keeps_def)

named_theorems keep_rules

lemma keeps_ret [keep_rules]: "keeps I (\<lambda>s. (f s, s))" "keeps I (r_ret x)" "keeps I (r_lift r)"
  by (simp_all add: keeps_def r_ret_def r_lift_def)

lemma keeps_bind [keep_rules]: "keeps I m \<Longrightarrow> (\<And>x. keeps I (k x)) \<Longrightarrow> keeps I (r_bind m k)"
  by (fastforce simp: keeps_def r_bind_def split: prod.split sum.split)

lemma keeps_of [keep_rules]: "keeps I m \<Longrightarrow> keeps I (r_of m)" "keeps I m \<Longrightarrow> keeps I (r_ignore m)"
  by (simp_all add: keeps_def r_of_def r_ignore_def)

lemma keeps_if [keep_rules]: "keeps I m \<Longrightarrow> keeps I m' \<Longrightarrow> keeps I (if b then m else m')"
  by simp

lemma keeps_map [keep_rules]: "keeps I m \<Longrightarrow> keeps I (\<lambda>s. map_prod f id (m s))"
  by (simp add: keeps_def)

lemma keeps_loaded [keep_rules]:
  "(\<And>x. r = Inr x \<Longrightarrow> keeps I (k x)) \<Longrightarrow> keeps I (r_bind (r_lift (map_sum f id r)) k)"
  by (cases r) (simp_all add: keeps_def r_bind_def r_lift_def)

locale legacy_manager =
  fixes C :: "('s, 'cfg) RpcContext" and I :: "'s \<Rightarrow> bool"
  assumes queries: "keeps I (rc_get_status C name)" "keeps I (rc_get_all_status C)" "keeps I (rc_get_all_configs C)"
    and programs: "keeps I (rc_start_program C name)" "keeps I (rc_stop_program C name grace)"
      "keeps I (rc_restart_program C name grace)" "keeps I (rc_signal_program C name sig)"
    and groups: "keeps I (rc_start_group C grp)" "keeps I (rc_stop_group C grp grace)"
      "keeps I (rc_add_process_group C grp)" "keeps I (rc_remove_process_group C grp)"
    and bulk: "keeps I (rc_start_all C)" "keeps I (rc_stop_all C grace)"
    and configs: "rc_load C path = Inr cfg \<Longrightarrow> keeps I (rc_reload_config C cfg)"
      "rc_load C path = Inr cfg \<Longrightarrow> keeps I (rc_restart_daemon C cfg)"
    and logs: "keeps I (rc_read_log C name ch offset len)" "keeps I (rc_tail_log C name ch offset len)"
      "keeps I (rc_clear_process_logs C name)" "keeps I (rc_read_main_log C offset len)"
      "keeps I (rc_tail_main_log C offset len)" "keeps I (rc_clear_main_log C)"
    and others: "keeps I (rc_send_stdin C name data)"
      "I s \<Longrightarrow> I (rc_send_remote_comm_event C ty text_data s)" "I s \<Longrightarrow> I (rc_spawn_shutdown C s)"
begin

lemmas operations = queries programs groups bulk logs others(1)

lemma execute_signal_keeps [keep_rules]: "keeps I (execute_signal C name sig)"
  unfolding execute_signal_def by (cases sig) (auto intro!: keep_rules operations)

lemma signal_each_keeps: "keeps I (signal_each C sig sts)"
proof (induction sts)
  case (Cons st sts)
  then show ?case using execute_signal_keeps [of "s_name st" sig]
    by (fastforce simp: keeps_def Let_def split: prod.split)
qed (simp add: keeps_def)

lemma clear_each_keeps: "I s \<Longrightarrow> I (clear_each C cfgs s)"
  by (induction cfgs arbitrary: s) (use logs(3) in \<open>auto simp: keeps_def\<close>)

lemma config_methods_keep: "keeps I (reload_config C)" "keeps I (restart_supervisor C)"
  unfolding reload_config_def restart_supervisor_def
  by (rule keeps_bind, rule keep_rules, rule keeps_loaded, rule keeps_bind, rule keep_rules, erule configs,
      rule keep_rules)+

lemma stepwise_methods_keep:
  "keeps I (signal_process_group C ps)" "keeps I (signal_all_processes C ps)" "keeps I (clear_all_process_logs C)"
  "keeps I (send_comm_event C ps)"
  unfolding signal_process_group_def signal_all_processes_def clear_all_process_logs_def send_comm_event_def
  by (intro keep_rules operations signal_each_keeps; simp add: keeps_def clear_each_keeps others)+

lemma spawn_keeps: "keeps I (\<lambda>s. (Inr (RBoolean True), rc_spawn_shutdown C s))"
  by (simp add: keeps_def others)

lemmas method_defs = get_all_process_info_def get_process_info_def start_process_def stop_process_def
  restart_process_def start_process_group_def stop_process_group_def start_all_processes_def
  stop_all_processes_def signal_process_def tail_process_log_def read_process_log_def read_main_log_def
  tail_main_log_def clear_process_logs_def get_all_config_info_def send_process_stdin_def
  add_process_group_def remove_process_group_def

lemma list_all_nil_cons:
  "list_all P [] \<longleftrightarrow> True" "list_all P (x # xs) \<longleftrightarrow> P x \<and> list_all P xs"
  by simp_all

lemma methods_keep: "list_all (\<lambda>nm. \<forall>ps. keeps I (snd nm ps)) (supervisor_methods C)"
  unfolding supervisor_methods_def list_all_nil_cons snd_conv method_defs split_beta
  by (intro conjI allI TrueI stepwise_methods_keep spawn_keeps config_methods_keep execute_signal_keeps keep_rules operations)

lemma method_keeps: "keeps I (handle_supervisor_method C method ps)"
proof (cases "map_of (supervisor_methods C) method")
  case (Some m)
  then have "(method, m) \<in> set (supervisor_methods C)" by (rule map_of_SomeD)
  then have "keeps I (m ps)" using methods_keep unfolding list_all_iff by (metis snd_conv)
  then show ?thesis by (simp add: handle_supervisor_method_def Some)
qed (simp add: handle_supervisor_method_def keep_rules)

lemma dispatch_flat_keeps:
  "method \<noteq> ''system.multicall'' \<Longrightarrow> I s \<Longrightarrow> dispatch C method ps s = Some (r, s') \<Longrightarrow> I s'"
  using method_keeps [of "method" ps]
  by (simp add: dispatch_two dispatch_flat(1) [of "method" "Suc 0"] keeps_def split: if_splits)
    (metis snd_conv)

lemma answers_keep: "answers C call s v s' \<Longrightarrow> I s \<Longrightarrow> I s'"
  by (induction rule: answers.induct) (auto dest: dispatch_flat_keeps)

lemma items_keep:
  assumes "I s" "length states = length calls"
    and "\<forall>i < length calls. answers C (calls ! i) ((s # states) ! i) (vs ! i) (states ! i)"
  shows "I (last (s # states))"
proof -
  have "I ((s # states) ! i)" if "i \<le> length calls" for i
    using that
  proof (induction i)
    case (Suc i)
    then have "answers C (calls ! i) ((s # states) ! i) (vs ! i) (states ! i)" using assms(3) by simp
    then have "I (states ! i)" by (rule answers_keep) (use Suc in simp)
    then show ?case by simp
  qed (simp add: assms(1))
  moreover have "last (s # states) = (s # states) ! length calls"
    using last_conv_nth [of "s # states"] assms(2) by (simp only: list.distinct length_Cons diff_Suc_1 not_False_eq_True simp_thms True_implies_equals)
  ultimately show ?thesis by simp
qed

theorem dispatch_keeps: "I s \<Longrightarrow> dispatch C method ps s = Some (r, s') \<Longrightarrow> I s'"
proof (cases "method = ''system.multicall''")
  case True
  assume s: "I s" and d: "dispatch C method ps s = Some (r, s')"
  show ?thesis
  proof (cases ps)
    case (Cons p qs)
    show ?thesis
    proof (cases "rpc_as_array p")
      case None
      then show ?thesis using s d by (simp add: True dispatch_multicall Cons handle_multicall_def del: dispatch_call.simps)
    next
      case (Some calls)
      obtain vs states where i:
          "multicall_items (dispatch_call (Suc 0) C) calls s = Some (vs, last (s # states))"
          "length states = length calls"
          "\<forall>i < length calls. answers C (calls ! i) ((s # states) ! i) (vs ! i) (states ! i)"
        using items_answer [of 0 C calls s] by (elim exE conjE)
      have "s' = last (s # states)"
        using d i(1) by (simp add: True dispatch_multicall Cons handle_multicall_def Some del: dispatch_call.simps)
      then show ?thesis using items_keep [OF s i(2,3)] by simp
    qed
  qed (use s d in \<open>simp add: True dispatch_multicall handle_multicall_def\<close>)
qed (rule dispatch_flat_keeps)

text \<open>A request, whatever its body is, keeps the property too.\<close>

theorem handler_keeps: "I s \<Longrightarrow> xmlrpc_handler L C body s = Some (xml, s') \<Longrightarrow> I s'"
  using dispatch_keeps by (auto simp: xmlrpc_handler_def split: option.splits if_splits sum.splits)

end

section \<open>Introspection agrees with the dispatch\<close>

lemma method_names:
  "map fst (supervisor_methods C) =
     [''supervisor.getAPIVersion'', ''supervisor.getVersion'', ''supervisor.getSupervisorVersion'',
      ''supervisor.getIdentification'', ''supervisor.getPID'', ''supervisor.getState'',
      ''supervisor.getAllProcessInfo'', ''supervisor.getProcessInfo'', ''supervisor.startProcess'',
      ''supervisor.stopProcess'', ''supervisor.restartProcess'', ''supervisor.startProcessGroup'',
      ''supervisor.stopProcessGroup'', ''supervisor.startAllProcesses'', ''supervisor.stopAllProcesses'',
      ''supervisor.signalProcess'', ''supervisor.signalProcessGroup'', ''supervisor.signalAllProcesses'',
      ''supervisor.tailProcessStdoutLog'', ''supervisor.tailProcessLog'', ''supervisor.tailProcessStderrLog'',
      ''supervisor.readProcessStdoutLog'', ''supervisor.readProcessLog'', ''supervisor.readProcessStderrLog'',
      ''supervisor.readLog'', ''supervisor.readMainLog'', ''supervisor.tailMainLog'', ''supervisor.clearLog'',
      ''supervisor.clearProcessLogs'', ''supervisor.clearProcessLog'', ''supervisor.clearAllProcessLogs'',
      ''supervisor.getAllConfigInfo'', ''supervisor.reloadConfig'', ''supervisor.sendProcessStdin'',
      ''supervisor.shutdown'', ''supervisor.restart'', ''supervisor.addProcessGroup'',
      ''supervisor.removeProcessGroup'', ''supervisor.sendRemoteCommEvent'']"
  unfolding supervisor_methods_def list.map fst_conv ..

definition system_methods :: "string list" where
  "system_methods = [''system.listMethods'', ''system.methodHelp'', ''system.methodSignature'', ''system.multicall'']"

text \<open>
  The list of methods names only methods that are dispatched; two methods that are dispatched are not
  listed, and have neither help nor signature.
\<close>

lemma listed_methods:
  "filter (\<lambda>m. m \<notin> set (map fst (supervisor_methods C)) \<union> set system_methods) ALL_METHODS = []"
  "filter (\<lambda>m. m \<notin> set ALL_METHODS) (map fst (supervisor_methods C) @ system_methods) =
     [''supervisor.restartProcess'', ''supervisor.tailMainLog'']"
  unfolding method_names by code_simp+

text \<open>A stop of a process that is waiting for its next start is refused, without an effect.\<close>

lemma stop_refused_in_backoff:
  assumes "rc_get_status C name s = (Inr st, s')" and "s_state st = Backoff"
  shows "stop_process C [RString name] s = (Inl (not_running name), s')"
  by (simp add: stop_process_def get_str_param_def param_def rpc_as_str_def ok_or_def r_bind_def r_lift_def
      r_of_def assms is_running_def)

text \<open>The offset in the reply of a tail is cut to 32 bits.\<close>

lemma tail_offset_wraps: "tail_result (data, 2 ^ 31, b) = RArray [RString data, RInt (- (2 ^ 31)), RBoolean b]"
  by (simp add: tail_result_def cast_i32_def)

text \<open>A start and a stop are refused exactly in complementary states; otherwise the manager decides.\<close>

lemma start_stop_gate:
  assumes "rc_get_status C name s = (Inr st, s')"
  shows "start_process C [RString name] s =
      (if s_state st \<in> {Running, Starting} then (Inl (already_started name), s')
       else map_prod (map_sum fault_of (\<lambda>_. RBoolean True)) id (rc_start_program C name s'))"
    and "stop_process C [RString name] s =
      (if s_state st \<in> {Running, Starting}
       then map_prod (map_sum fault_of (\<lambda>_. RBoolean True)) id (rc_stop_program C name None s')
       else (Inl (not_running name), s'))"
  by (cases "rc_start_program C name s'"; cases "fst (rc_start_program C name s')";
      cases "rc_stop_program C name None s'"; cases "fst (rc_stop_program C name None s')";
      force simp: start_process_def stop_process_def get_str_param_def param_def rpc_as_str_def ok_or_def
        r_bind_def r_lift_def r_of_def r_ret_def assms is_running_def)+

end
