(* ===== verification/Log_Destination.thy ===== *)
theory Log_Destination
  imports Program_Model Rust_Text
begin

text \<open>
  Log destinations (\<open>src/src/logging/destination.rs\<close>): the grammar of a destination, syslog targets,
  facilities and severities, the files a destination writes to and the backend that is built for it.
  Upper and lower case is that of ASCII. Opening a file or a socket is an argument.
\<close>

section \<open>Syslog\<close>

datatype SyslogProto = Udp | Tcp

datatype SyslogTarget = LocalSyslog | Remote SyslogProto string nat

fun proto_text :: "SyslogProto \<Rightarrow> string" where
  "proto_text Udp = ''udp''"
| "proto_text Tcp = ''tcp''"

fun target_text :: "SyslogTarget \<Rightarrow> string" where
  "target_text LocalSyslog = ''syslog''"
| "target_text (Remote proto host port) =
     ''syslog@'' @ proto_text proto @ '':'' @ host @ '':'' @ digits_of port"

datatype SyslogFacility =
    Kern | User | Mail | Daemon | Auth | SyslogFac | Lpr | News | Uucp | CronFac | Authpriv | Ftp
  | Local0 | Local1 | Local2 | Local3 | Local4 | Local5 | Local6 | Local7

fun facility_u8 :: "SyslogFacility \<Rightarrow> u8" where
  "facility_u8 Kern = 0" | "facility_u8 User = 1" | "facility_u8 Mail = 2" | "facility_u8 Daemon = 3"
| "facility_u8 Auth = 4" | "facility_u8 SyslogFac = 5" | "facility_u8 Lpr = 6" | "facility_u8 News = 7"
| "facility_u8 Uucp = 8" | "facility_u8 CronFac = 9" | "facility_u8 Authpriv = 10" | "facility_u8 Ftp = 11"
| "facility_u8 Local0 = 16" | "facility_u8 Local1 = 17" | "facility_u8 Local2 = 18" | "facility_u8 Local3 = 19"
| "facility_u8 Local4 = 20" | "facility_u8 Local5 = 21" | "facility_u8 Local6 = 22" | "facility_u8 Local7 = 23"

definition strip_log_prefix :: "string \<Rightarrow> string" where
  "strip_log_prefix s =
     (let clean = to_ascii_uppercase (trim s) in unwrap_or (strip_prefix ''LOG_'' clean) clean)"

definition facility_names :: "(string \<times> SyslogFacility) list" where
  "facility_names =
     [(''KERN'', Kern), (''USER'', User), (''MAIL'', Mail), (''DAEMON'', Daemon), (''AUTH'', Auth),
      (''SYSLOG'', SyslogFac), (''LPR'', Lpr), (''NEWS'', News), (''UUCP'', Uucp), (''CRON'', CronFac),
      (''AUTHPRIV'', Authpriv), (''FTP'', Ftp), (''LOCAL0'', Local0), (''LOCAL1'', Local1),
      (''LOCAL2'', Local2), (''LOCAL3'', Local3), (''LOCAL4'', Local4), (''LOCAL5'', Local5),
      (''LOCAL6'', Local6), (''LOCAL7'', Local7)]"

definition parse_facility :: "string \<Rightarrow> SyslogFacility result" where
  "parse_facility s =
     (case map_of facility_names (strip_log_prefix s) of
        Some f \<Rightarrow> Inr f
      | None \<Rightarrow> Inl (ConfigError (''Invalid syslog facility '' @ quoted s
          @ ''. Supported: KERN, USER, MAIL, DAEMON, AUTH, SYSLOG, LPR, NEWS, UUCP, CRON, AUTHPRIV, FTP, LOCAL0..LOCAL7'')))"

datatype SyslogSeverity = Emerg | Alert | Crit | ErrSev | Warning | Notice | Info | Debug

fun severity_u8 :: "SyslogSeverity \<Rightarrow> u8" where
  "severity_u8 Emerg = 0" | "severity_u8 Alert = 1" | "severity_u8 Crit = 2" | "severity_u8 ErrSev = 3"
| "severity_u8 Warning = 4" | "severity_u8 Notice = 5" | "severity_u8 Info = 6" | "severity_u8 Debug = 7"

definition severity_names :: "(string \<times> SyslogSeverity) list" where
  "severity_names =
     [(''EMERG'', Emerg), (''EMERGENCY'', Emerg), (''ALERT'', Alert), (''CRIT'', Crit), (''CRITICAL'', Crit),
      (''ERR'', ErrSev), (''ERROR'', ErrSev), (''WARN'', Warning), (''WARNING'', Warning),
      (''NOTICE'', Notice), (''INFO'', Info), (''DEBUG'', Debug)]"

definition parse_severity :: "string \<Rightarrow> SyslogSeverity result" where
  "parse_severity s =
     (case map_of severity_names (strip_log_prefix s) of
        Some f \<Rightarrow> Inr f
      | None \<Rightarrow> Inl (ConfigError (''Invalid syslog severity '' @ quoted s
          @ ''. Supported: EMERG, ALERT, CRIT, ERR, WARNING, NOTICE, INFO, DEBUG'')))"

section \<open>Destinations\<close>

datatype LogDestination =
    AutoDest
  | NullDest
  | DevStdout
  | DevStderr
  | FileDest string
  | SyslogDest SyslogTarget
  | Composite "LogDestination list"

definition is_alpha :: "char \<Rightarrow> bool" where
  "is_alpha c \<longleftrightarrow> byte_in 65 90 c \<or> byte_in 97 122 c"

definition split_proto :: "string \<Rightarrow> (SyslogProto \<times> string) result" where
  "split_proto address =
     (case strip_prefix ''udp:'' address of
        Some rest \<Rightarrow> Inr (Udp, rest)
      | None \<Rightarrow>
          (case strip_prefix ''tcp:'' address of
             Some rest \<Rightarrow> Inr (Tcp, rest)
           | None \<Rightarrow>
               if CHR '':'' \<in> set address \<and>
                  \<not> list_all (\<lambda>c. is_ascii_digit c \<or> c = CHR ''.'' \<or> c = CHR '':'') address
               then (case split_once (CHR '':'') address of
                       Some (first, _) \<Rightarrow>
                         if CHR ''.'' \<notin> set first \<and> list_all is_alpha first
                         then Inl (ConfigError (''Unsupported syslog protocol '' @ quoted first @ '' in ''
                                @ quoted (''syslog@'' @ address) @ ''. Only '' @ quoted ''udp'' @ '' and ''
                                @ quoted ''tcp'' @ '' are supported.''))
                         else Inr (Udp, address)
                     | None \<Rightarrow> Inr (Udp, address))
               else Inr (Udp, address)))"

definition parse_syslog_remote :: "string \<Rightarrow> LogDestination result" where
  "parse_syslog_remote address =
     (case split_proto address of
        Inl e \<Rightarrow> Inl e
      | Inr (proto, host_port) \<Rightarrow>
          (case (case rsplit_once (CHR '':'') host_port of
                   Some (h, p_str) \<Rightarrow>
                     (case parse_unsigned 65535 p_str of
                        None \<Rightarrow> Inl (ConfigError (''Invalid port '' @ quoted p_str @ '' in syslog destination ''
                                  @ quoted (''syslog@'' @ address)))
                      | Some port \<Rightarrow> Inr (trim h, port))
                 | None \<Rightarrow> Inr (trim host_port, case proto of Udp \<Rightarrow> 514 | Tcp \<Rightarrow> 6514)) of
             Inl e \<Rightarrow> Inl e
           | Inr (host, port) \<Rightarrow>
               if host = []
               then Inl (ConfigError (''Host cannot be empty in syslog destination '' @ quoted (''syslog@'' @ address)))
               else Inr (SyslogDest (Remote proto host port))))"

definition parse_single :: "string \<Rightarrow> LogDestination result" where
  "parse_single token =
     (if token = [] then Inr NullDest
      else (let lower = to_ascii_lowercase token
            in if lower \<in> {''none'', ''off'', ''null'', ''/dev/null''} then Inr NullDest
               else if lower \<in> {''auto'', ''memory''} then Inr AutoDest
               else if lower = ''/dev/stdout'' then Inr DevStdout
               else if lower = ''/dev/stderr'' then Inr DevStderr
               else if lower = ''syslog'' then Inr (SyslogDest LocalSyslog)
               else (case strip_prefix ''syslog@'' lower of
                       Some rest \<Rightarrow> parse_syslog_remote rest
                     | None \<Rightarrow> Inr (FileDest token))))"

text \<open>The first error of a list of results, or all their values.\<close>

fun collect :: "'a result list \<Rightarrow> 'a list result" where
  "collect [] = Inr []"
| "collect (Inl e # rs) = Inl e"
| "collect (Inr x # rs) = map_sum id (Cons x) (collect rs)"

definition parse_destination :: "string \<Rightarrow> LogDestination result" where
  "parse_destination s =
     (let trimmed = trim s
      in if trimmed = [] then Inr NullDest
         else if CHR '','' \<in> set trimmed
         then (let tokens = filter (\<lambda>t. t \<noteq> []) (map trim (split_all (CHR '','') trimmed))
               in if tokens = [] then Inr NullDest
                  else if length tokens = 1 then parse_single (hd tokens)
                  else map_sum id Composite (collect (map parse_single tokens)))
         else parse_single trimmed)"

fun contains_syslog :: "LogDestination \<Rightarrow> bool" where
  "contains_syslog (SyslogDest _) = True"
| "contains_syslog (Composite ds) = list_ex contains_syslog ds"
| "contains_syslog _ = False"

fun file_paths :: "LogDestination \<Rightarrow> string list" where
  "file_paths (FileDest p) = [p]"
| "file_paths (Composite ds) = concat (map file_paths ds)"
| "file_paths _ = []"

fun primary_file_path :: "LogDestination \<Rightarrow> string option" where
  "primary_file_path (FileDest p) = Some p"
| "primary_file_path (Composite (d # ds)) = primary_file_path d"
| "primary_file_path _ = None"

section \<open>Backends\<close>

datatype BackendSpec =
    NullBackend
  | StdIoBackend bool
  | RotatorBackend string nat nat bool
  | SyslogBackend SyslogTarget SyslogFacility SyslogSeverity string
  | CompositeBackend "BackendSpec list"

record BackendBuildOptions =
  bo_program_name :: string
  bo_max_bytes :: nat
  bo_backups :: nat
  bo_timestamp_suffix :: bool
  bo_syslog_facility :: "string option"
  bo_syslog_tag :: "string option"
  bo_syslog_priority :: "string option"

definition or_default :: "(string \<Rightarrow> 'a result) \<Rightarrow> 'a \<Rightarrow> string option \<Rightarrow> 'a" where
  "or_default parse d s =
     (case s of Some t \<Rightarrow> (case parse t of Inr x \<Rightarrow> x | Inl _ \<Rightarrow> d) | None \<Rightarrow> d)"

fun build_backend ::
  "(string \<Rightarrow> unit result) \<Rightarrow> (SyslogTarget \<Rightarrow> unit result) \<Rightarrow> BackendBuildOptions \<Rightarrow> LogDestination \<Rightarrow>
     BackendSpec option result" where
  "build_backend open_file connect opts NullDest = Inr (Some NullBackend)"
| "build_backend open_file connect opts AutoDest = Inr None"
| "build_backend open_file connect opts DevStdout = Inr (Some (StdIoBackend True))"
| "build_backend open_file connect opts DevStderr = Inr (Some (StdIoBackend False))"
| "build_backend open_file connect opts (FileDest path) =
     map_sum id (\<lambda>_. Some (RotatorBackend path (bo_max_bytes opts) (bo_backups opts) (bo_timestamp_suffix opts)))
       (open_file path)"
| "build_backend open_file connect opts (SyslogDest target) =
     map_sum id (\<lambda>_. Some (SyslogBackend target (or_default parse_facility Local0 (bo_syslog_facility opts))
                        (or_default parse_severity Notice (bo_syslog_priority opts))
                        (unwrap_or (bo_syslog_tag opts) (bo_program_name opts))))
       (connect target)"
| "build_backend open_file connect opts (Composite list) =
     map_sum id (\<lambda>bs. let backends = List.map_filter id bs
                      in if backends = [] then None else Some (CompositeBackend backends))
       (collect (map (build_backend open_file connect opts) list))"

section \<open>Properties\<close>

text \<open>A parsed destination has no nested lists, so every file it writes to is a member of it.\<close>

fun flat :: "LogDestination \<Rightarrow> bool" where
  "flat (Composite ds) = (2 \<le> length ds \<and> list_all (\<lambda>d. \<forall>es. d \<noteq> Composite es) ds)"
| "flat _ = True"

lemma parse_syslog_remote_shape: "parse_syslog_remote a = Inr d \<Longrightarrow> \<exists>p h n. d = SyslogDest (Remote p h n) \<and> h \<noteq> []"
  by (auto simp: parse_syslog_remote_def split: sum.splits prod.splits option.splits if_splits)

lemma parse_single_shape: "parse_single t = Inr d \<Longrightarrow> d \<noteq> Composite es"
  by (auto simp: parse_single_def Let_def dest: parse_syslog_remote_shape split: if_splits option.splits)

lemma collect_Inr: "collect rs = Inr xs \<Longrightarrow> rs = map Inr xs"
proof (induction rs arbitrary: xs rule: collect.induct)
  case (3 x rs)
  then show ?case by (cases "collect rs") auto
qed simp_all

lemma parse_destination_flat: "parse_destination s = Inr d \<Longrightarrow> flat d"
proof -
  have single: "parse_single t = Inr d \<Longrightarrow> flat d" for t using parse_single_shape by (cases d) auto
  have multi: "map_sum id Composite (collect (map parse_single ts)) = Inr d \<Longrightarrow> 2 \<le> length ts \<Longrightarrow> flat d" for ts
  proof -
    assume m: "map_sum id Composite (collect (map parse_single ts)) = Inr d" "2 \<le> length ts"
    then obtain ds where ds: "collect (map parse_single ts) = Inr ds" "d = Composite ds"
      by (cases "collect (map parse_single ts)") auto
    then have c: "map parse_single ts = map Inr ds" using collect_Inr by blast
    then have "length ds = length ts" by (metis length_map)
    moreover have "list_all (\<lambda>d. \<forall>es. d \<noteq> Composite es) ds"
      using c parse_single_shape by (auto simp: list_all_length) (metis length_map nth_map)
    ultimately show ?thesis using ds(2) m(2) by simp
  qed
  assume d: "parse_destination s = Inr d"
  define tokens where "tokens = filter (\<lambda>t. t \<noteq> []) (map trim (split_all (CHR '','') (trim s)))"
  have u: "parse_destination s =
      (if trim s = [] then Inr NullDest
       else if CHR '','' \<in> set (trim s)
       then if tokens = [] then Inr NullDest
            else if length tokens = 1 then parse_single (hd tokens)
            else map_sum id Composite (collect (map parse_single tokens))
       else parse_single (trim s))"
    by (simp only: parse_destination_def Let_def tokens_def)
  consider (none) "Inr NullDest = parse_destination s" | (one) t where "parse_single t = parse_destination s"
    | (many) "tokens \<noteq> []" "length tokens \<noteq> 1"
        "map_sum id Composite (collect (map parse_single tokens)) = parse_destination s"
    using u by metis
  then show ?thesis
  proof cases
    case none
    then have "d = NullDest" using d by simp
    then show ?thesis by simp
  next
    case one
    then show ?thesis using d single by simp
  next
    case many
    then have "2 \<le> length tokens" by (cases tokens rule: remdups_adj.cases) simp_all
    then show ?thesis using many(3) d multi by simp
  qed
qed

section \<open>The printed form of a target\<close>

definition host_ok :: "string \<Rightarrow> bool" where
  "host_ok host \<longleftrightarrow> host \<noteq> [] \<and> trim host = host \<and> to_ascii_lowercase host = host \<and> CHR '','' \<notin> set host"

fun target_ok :: "SyslogTarget \<Rightarrow> bool" where
  "target_ok LocalSyslog = True"
| "target_ok (Remote proto host port) = (host_ok host \<and> port \<le> 65535)"

lemma lower_fix: "(\<And>c. c \<in> set s \<Longrightarrow> to_lower_char c = c) \<Longrightarrow> to_ascii_lowercase s = s"
  by (simp add: to_ascii_lowercase_def map_idI)

lemma digit_plain: "is_ascii_digit c \<Longrightarrow> to_lower_char c = c \<and> \<not> is_ascii_space c \<and> c \<noteq> CHR '':'' \<and> c \<noteq> CHR '',''"
  by (auto simp: to_lower_char_def is_ascii_digit_def byte_in_def is_ascii_space_def Let_def)

lemma digits_of_plain:
  "to_ascii_lowercase (digits_of n) = digits_of n" "CHR '':'' \<notin> set (digits_of n)"
  "CHR '','' \<notin> set (digits_of n)" "\<not> is_ascii_space (last (digits_of n))"
proof -
  have d: "is_ascii_digit c" if "c \<in> set (digits_of n)" for c using that by (rule digits_of_digits)
  show "to_ascii_lowercase (digits_of n) = digits_of n" by (rule lower_fix) (use d digit_plain in blast)
  show "CHR '':'' \<notin> set (digits_of n)" "CHR '','' \<notin> set (digits_of n)" using d digit_plain by blast+
  show "\<not> is_ascii_space (last (digits_of n))" using d digit_plain by simp
qed

lemma to_ascii_lowercase_append [simp]:
  "to_ascii_lowercase (a @ b) = to_ascii_lowercase a @ to_ascii_lowercase b"
  by (simp add: to_ascii_lowercase_def)

lemma proto_text_lower [simp]: "to_ascii_lowercase (proto_text p) = proto_text p"
  by (cases p) (simp_all add: to_ascii_lowercase_def to_lower_char_def)

lemma split_proto_text: "split_proto (proto_text p @ '':'' @ r) = Inr (p, r)"
  by (cases p) (simp_all add: split_proto_def)

lemma parse_syslog_remote_text:
  assumes "host_ok host" "port \<le> 65535"
  shows "parse_syslog_remote (proto_text p @ '':'' @ host @ '':'' @ digits_of port) =
    Inr (SyslogDest (Remote p host port))"
  using assms rsplit_once_append [OF digits_of_plain(2), of host port]
  by (simp add: parse_syslog_remote_def split_proto_text [simplified] host_ok_def)

lemma target_text_plain:
  assumes "target_ok t"
  shows "trim (target_text t) = target_text t" "CHR '','' \<notin> set (target_text t)" "target_text t \<noteq> []"
    "to_ascii_lowercase (target_text t) = target_text t"
proof -
  have t: "hd (target_text t) = CHR ''s''" "target_text t \<noteq> []" by (cases t; simp)+
  have "\<not> is_ascii_space (last (target_text t))" using digits_of_plain(4) by (cases t) (auto simp: is_ascii_space_def)
  then show "trim (target_text t) = target_text t" using t by (intro trim_fix) (simp_all add: is_ascii_space_def)
  show "target_text t \<noteq> []" by (rule t)
  show "CHR '','' \<notin> set (target_text t)"
  proof (cases t)
    case (Remote p h n)
    then show ?thesis using assms digits_of_plain(3) by (cases p) (auto simp: host_ok_def)
  qed simp
  show "to_ascii_lowercase (target_text t) = target_text t"
  proof (cases t)
    case (Remote p h n)
    then show ?thesis using assms digits_of_plain(1) proto_text_lower [of p]
      by (simp add: host_ok_def to_ascii_lowercase_def to_lower_char_def)
  qed (simp add: to_ascii_lowercase_def to_lower_char_def)
qed

text \<open>
  A syslog target printed by \<open>SyslogTarget\<close>'s \<open>Display\<close> is read back by
  \<open>LogDestination::parse\<close> as the same target, for every target with a port of 16 bits and a
  host that is not empty, has no comma, no surrounding blanks and no upper-case letter (the parser
  lower-cases the whole destination).
\<close>

theorem syslog_target_roundtrip:
  "target_ok t \<Longrightarrow> parse_destination (target_text t) = Inr (SyslogDest t)"
proof -
  assume ok: "target_ok t"
  have "parse_destination (target_text t) = parse_single (target_text t)"
    using target_text_plain [OF ok] by (simp add: parse_destination_def)
  also have "\<dots> = Inr (SyslogDest t)"
  proof (cases t)
    case LocalSyslog
    then show ?thesis by (simp add: parse_single_def to_ascii_lowercase_def to_lower_char_def)
  next
    case (Remote p h n)
    then have "to_ascii_lowercase (target_text t) = target_text t" using ok by (intro target_text_plain)
    then show ?thesis using Remote ok parse_syslog_remote_text [of h n p]
      by (simp add: parse_single_def)
  qed
  finally show ?thesis .
qed

theorem syslog_target_roundtrip_witness:
  "parse_destination ''syslog@tcp:log.example.org:6514'' = Inr (SyslogDest (Remote Tcp ''log.example.org'' 6514))"
proof -
  have d: "digits_of 6514 = ''6514''" by (simp add: digits_of.simps char_of_def bit_Suc_0_iff)
  have "target_ok (Remote Tcp ''log.example.org'' 6514)"
    by (simp add: host_ok_def trim_def is_ascii_space_def to_ascii_lowercase_def to_lower_char_def)
  from syslog_target_roundtrip [OF this] show ?thesis by (simp add: d)
qed

text \<open>
  A host that is one word and no protocol in front of it cannot be given a port: the word is
  taken for an unknown protocol, although the documented form is \<open>syslog@[udp|tcp:]host[:port]\<close>.
\<close>

lemma word_host_with_port_rejected:
  assumes "host \<noteq> ''udp''" "host \<noteq> ''tcp''" "list_all is_alpha host" "host \<noteq> []"
  shows "\<exists>e. parse_syslog_remote (host @ '':'' @ port) = Inl e"
proof -
  have "CHR '':'' \<notin> set host" "CHR ''.'' \<notin> set host"
    using assms(3) by (auto simp: list_all_iff is_alpha_def byte_in_def)
  then have s: "split_once (CHR '':'') (host @ '':'' @ port) = Some (host, port)"
    using split_once_append [of "CHR '':''" host port] by simp
  have p: "strip_prefix (q @ '':'') (host @ '':'' @ port) = None" if "host \<noteq> q" "CHR '':'' \<notin> set q" for q
    using that \<open>CHR '':'' \<notin> set host\<close>
  proof (induction q arbitrary: host)
    case Nil
    then show ?case by (cases host) auto
  next
    case (Cons x q)
    then show ?case by (cases host) auto
  qed
  have "is_alpha (hd host)" using assms(3,4) by (cases host) simp_all
  then have "\<not> (is_ascii_digit (hd host) \<or> hd host = CHR ''.'' \<or> hd host = CHR '':'')"
    by (auto simp: is_alpha_def is_ascii_digit_def byte_in_def)
  then have l: "\<not> list_all (\<lambda>c. is_ascii_digit c \<or> c = CHR ''.'' \<or> c = CHR '':'') (host @ '':'' @ port)"
    using assms(4) by (cases host) simp_all
  have "split_proto (host @ '':'' @ port) \<in> range Inl"
    using p [of "''udp''"] p [of "''tcp''"] s l assms \<open>CHR ''.'' \<notin> set host\<close> by (simp add: split_proto_def)
  then show ?thesis by (auto simp: parse_syslog_remote_def)
qed

text \<open>
  Only the first member of a composite destination is looked at for the primary file, so a file
  behind another sink is not found.
\<close>

lemma primary_file_path_first_member:
  "primary_file_path (Composite [DevStdout, FileDest p]) = None"
  "file_paths (Composite [DevStdout, FileDest p]) = [p]"
  by simp_all

end
