(* ===== verification/Listener_Pool.thy ===== *)
theory Listener_Pool
  imports Event_Hub Rust_Text
begin

text \<open>
  The event notification system of \<open>src/src/eventlistener\<close>, without the listener processes: the
  known event types and the validation of subscriptions (\<open>config.rs\<close>), the names and payloads of
  the events (\<open>events.rs\<close>), the envelope and its wire format (\<open>protocol.rs\<close>), and the pool with
  its bounded buffer (\<open>pool.rs\<close>).

  The global serial number is the state of a static counter; it is passed along with the pool.
  \<open>pl_notified\<close> counts the calls of \<open>notify_waiters\<close>: a task that waits since the count was \<open>n\<close>
  is woken when the count has changed. \<open>pl_overflowed\<close> lists the events whose loss the pool has
  reported in its error log.
\<close>

section \<open>Event types\<close>

definition KNOWN_EVENT_TYPES :: "string list" where
  "KNOWN_EVENT_TYPES = sort
     [''EVENT'',
      ''PROCESS_STATE'', ''PROCESS_STATE_STARTING'', ''PROCESS_STATE_RUNNING'',
      ''PROCESS_STATE_BACKOFF'', ''PROCESS_STATE_STOPPING'', ''PROCESS_STATE_EXITED'',
      ''PROCESS_STATE_STOPPED'', ''PROCESS_STATE_FATAL'', ''PROCESS_STATE_UNKNOWN'',
      ''PROCESS_LOG'', ''PROCESS_LOG_STDOUT'', ''PROCESS_LOG_STDERR'',
      ''PROCESS_COMMUNICATION'', ''PROCESS_COMMUNICATION_STDOUT'', ''PROCESS_COMMUNICATION_STDERR'',
      ''REMOTE_COMMUNICATION'',
      ''TICK'', ''TICK_5'', ''TICK_60'', ''TICK_3600'',
      ''PROCESS_GROUP'', ''PROCESS_GROUP_ADDED'', ''PROCESS_GROUP_REMOVED'',
      ''SUPERVISOR_STATE_CHANGE'', ''SUPERVISOR_STATE_CHANGE_RUNNING'',
      ''SUPERVISOR_STATE_CHANGE_STOPPING'']"

text \<open>
  The binary search of the standard library: \<open>behind\<close> says whether an element is behind the
  target, the result is the only position that can hold it.
\<close>

function bsearch :: "('a \<Rightarrow> bool) \<Rightarrow> 'a list \<Rightarrow> nat \<Rightarrow> nat \<Rightarrow> nat" where
  "bsearch behind xs base n =
     (if n \<le> 1 then base
      else (let half = n div 2; mid = base + half
            in bsearch behind xs (if behind (xs ! mid) then base else mid) (n - half)))"
  by pat_completeness auto
termination by (relation "measure (\<lambda>(_, _, _, n). n)") auto

declare bsearch.simps [simp del]

definition binary_search_by :: "('a \<Rightarrow> 'b :: linorder) \<Rightarrow> 'b \<Rightarrow> 'a list \<Rightarrow> nat option" where
  "binary_search_by f target xs =
     (if xs = [] then None
      else (let i = bsearch (\<lambda>x. target < f x) xs 0 (length xs)
            in if f (xs ! i) = target then Some i else None))"

definition is_valid_event_type :: "string \<Rightarrow> bool" where
  "is_valid_event_type name \<longleftrightarrow>
     binary_search_by to_ascii_lowercase (to_ascii_lowercase name) KNOWN_EVENT_TYPES \<noteq> None"

definition validate_event_list :: "string list \<Rightarrow> unit result" where
  "validate_event_list events =
     (if events = []
      then Inl (ConfigError (''Event listener must declare at least one event subscription in '' @ quoted ''events''))
      else (case List.find (\<lambda>event. let clean = to_ascii_uppercase (trim event)
                                    in clean = [] \<or> \<not> is_valid_event_type clean) events of
              Some event \<Rightarrow> Inl (ConfigError (''Unknown supervisor event type '' @ quoted event))
            | None \<Rightarrow> Inr ()))"

section \<open>Names and payloads\<close>

definition or_zero :: "nat option \<Rightarrow> nat" where
  "or_zero pid = unwrap_or pid 0"

fun format_process_state_event ::
  "string \<Rightarrow> string \<Rightarrow> ProgramState \<Rightarrow> ProgramState \<Rightarrow> nat option \<Rightarrow> bool \<Rightarrow> nat \<Rightarrow> string \<times> string" where
  "format_process_state_event process_name group_name old_state new_state pid expected tries =
     (let head = ''processname:'' @ process_name @ '' groupname:'' @ group_name @ '' from_state:''
                   @ supervisor_name old_state;
          with_tries = head @ '' tries:'' @ digits_of tries;
          with_pid = head @ '' pid:'' @ digits_of (or_zero pid)
      in case new_state of
           Starting \<Rightarrow> (''PROCESS_STATE_STARTING'', with_tries)
         | Backoff \<Rightarrow> (''PROCESS_STATE_BACKOFF'', with_tries)
         | Running \<Rightarrow> (''PROCESS_STATE_RUNNING'', with_pid)
         | Stopping \<Rightarrow> (''PROCESS_STATE_STOPPING'', with_pid)
         | Stopped \<Rightarrow> (''PROCESS_STATE_STOPPED'', with_pid)
         | Exited \<Rightarrow> (''PROCESS_STATE_EXITED'',
                     head @ '' expected:'' @ (if expected then ''1'' else ''0'') @ '' pid:'' @ digits_of (or_zero pid))
         | Fatal \<Rightarrow> (''PROCESS_STATE_FATAL'', head))"

definition format_process_log_event ::
  "string \<Rightarrow> string \<Rightarrow> nat option \<Rightarrow> string \<Rightarrow> string \<Rightarrow> string \<times> string" where
  "format_process_log_event process_name group_name pid stream data =
     (let channel = (if stream = ''stderr'' then ''stderr'' else ''stdout'');
          event_name = (if channel = ''stderr'' then ''PROCESS_LOG_STDERR'' else ''PROCESS_LOG_STDOUT'')
      in (event_name,
          ''processname:'' @ process_name @ '' groupname:'' @ group_name @ '' pid:'' @ digits_of (or_zero pid)
            @ '' channel:'' @ channel @ [newline] @ data))"

definition format_tick_event :: "nat \<Rightarrow> nat \<Rightarrow> string \<times> string" where
  "format_tick_event interval when = (''TICK_'' @ digits_of interval, ''when:'' @ digits_of when)"

definition format_remote_comm_event :: "string \<Rightarrow> string \<Rightarrow> string \<times> string" where
  "format_remote_comm_event type_str data = (''REMOTE_COMMUNICATION'', ''type:'' @ type_str @ [newline] @ data)"

definition starts_with :: "string \<Rightarrow> string \<Rightarrow> bool" where
  "starts_with p s \<longleftrightarrow> strip_prefix p s \<noteq> None"

definition event_matches_subscription :: "string \<Rightarrow> string list \<Rightarrow> bool" where
  "event_matches_subscription event_name subscribed =
     (let event_upper = to_ascii_uppercase event_name
      in \<exists>sub \<in> set subscribed.
           (let sub_upper = to_ascii_uppercase (trim sub)
            in sub_upper = ''EVENT'' \<or> sub_upper = event_upper \<or> starts_with (sub_upper @ ''_'') event_upper))"

section \<open>Envelopes\<close>

record EventEnvelope =
  ev_global_serial :: u64
  ev_pool_serial :: u64
  ev_pool :: string
  ev_event_name :: string
  ev_payload :: string

definition wire_header :: "string \<Rightarrow> EventEnvelope \<Rightarrow> string" where
  "wire_header server_identifier ev =
     ''ver:3.0 server:'' @ server_identifier @ '' serial:'' @ digits_of (unat (ev_global_serial ev))
       @ '' pool:'' @ ev_pool ev @ '' poolserial:'' @ digits_of (unat (ev_pool_serial ev))
       @ '' eventname:'' @ ev_event_name ev @ '' len:'' @ digits_of (char_count (ev_payload ev))"

definition format_wire :: "string \<Rightarrow> EventEnvelope \<Rightarrow> bytes" where
  "format_wire server_identifier ev = wire_header server_identifier ev @ [newline] @ ev_payload ev"

definition next_global_serial :: "u64 \<Rightarrow> u64 \<times> u64" where
  "next_global_serial g = (g, g + 1)"

section \<open>The pool\<close>

record EventListenerPool =
  pl_name :: string
  pl_server_identifier :: string
  pl_events :: "string list"
  pl_buffer_size :: nat
  pl_serial :: u64
  pl_buffer :: "EventEnvelope list"
  pl_notified :: nat
  pl_overflowed :: "EventEnvelope list"

definition pool_new :: "string \<Rightarrow> string \<Rightarrow> string list \<Rightarrow> nat \<Rightarrow> EventListenerPool" where
  "pool_new pool_name server_identifier events buffer_size =
     \<lparr>pl_name = pool_name, pl_server_identifier = server_identifier, pl_events = events,
      pl_buffer_size = max buffer_size 1, pl_serial = 0, pl_buffer = [], pl_notified = 0,
      pl_overflowed = []\<rparr>"

definition notify_waiters :: "EventListenerPool \<Rightarrow> EventListenerPool" where
  "notify_waiters p = p\<lparr>pl_notified := Suc (pl_notified p)\<rparr>"

definition accept_event :: "string \<Rightarrow> string \<Rightarrow> u64 \<times> EventListenerPool \<Rightarrow> u64 \<times> EventListenerPool" where
  "accept_event event_name payload gp =
     (let (g, p) = gp
      in if \<not> event_matches_subscription event_name (pl_events p) then (g, p)
         else (let (global_serial, g) = next_global_serial g;
                   pool_serial = pl_serial p;
                   p = p\<lparr>pl_serial := pool_serial + 1\<rparr>;
                   envelope = \<lparr>ev_global_serial = global_serial, ev_pool_serial = pool_serial,
                               ev_pool = pl_name p, ev_event_name = event_name, ev_payload = payload\<rparr>;
                   p = (if pl_buffer_size p \<le> length (pl_buffer p)
                        then (case pl_buffer p of
                                discarded # rest \<Rightarrow>
                                  p\<lparr>pl_buffer := rest, pl_overflowed := pl_overflowed p @ [discarded]\<rparr>
                              | [] \<Rightarrow> p)
                        else p)
               in (g, notify_waiters (p\<lparr>pl_buffer := pl_buffer p @ [envelope]\<rparr>))))"

definition requeue_rejected :: "EventEnvelope \<Rightarrow> EventListenerPool \<Rightarrow> EventListenerPool" where
  "requeue_rejected envelope p =
     (let p = (if pl_buffer_size p \<le> length (pl_buffer p) \<and> pl_buffer p \<noteq> []
               then p\<lparr>pl_buffer := butlast (pl_buffer p),
                      pl_overflowed := pl_overflowed p @ [last (pl_buffer p)]\<rparr>
               else p)
      in notify_waiters (p\<lparr>pl_buffer := envelope # pl_buffer p\<rparr>))"

definition pop_next_event :: "EventListenerPool \<Rightarrow> EventEnvelope option \<times> EventListenerPool" where
  "pop_next_event p =
     (case pl_buffer p of [] \<Rightarrow> (None, p) | e # rest \<Rightarrow> (Some e, p\<lparr>pl_buffer := rest\<rparr>))"

section \<open>Events of the hub\<close>

definition group_part :: "string \<Rightarrow> string" where
  "group_part name = (case split_once (CHR '':'') name of Some (g, _) \<Rightarrow> g | None \<Rightarrow> name)"

definition program_part :: "string \<Rightarrow> string" where
  "program_part name = (case split_once (CHR '':'') name of Some (_, p) \<Rightarrow> p | None \<Rightarrow> name)"

definition group_payload :: "string \<Rightarrow> string" where
  "group_payload g = ''groupname:'' @ g @ [newline]"

fun handle_system_event :: "SystemEvent \<Rightarrow> u64 \<times> EventListenerPool \<Rightarrow> u64 \<times> EventListenerPool" where
  "handle_system_event (StateChanged name grp old_state new_state pid exit_code _ tries) gp =
     (let actual_group = (if grp = [] then group_part name else grp);
          expected = (case exit_code of Some c \<Rightarrow> c = 0 | None \<Rightarrow> True);
          (evt_name, payload) =
            format_process_state_event (program_part name) actual_group old_state new_state pid expected tries
      in accept_event evt_name payload gp)"
| "handle_system_event (Tick interval when) gp =
     (let (evt_name, payload) = format_tick_event interval when in accept_event evt_name payload gp)"
| "handle_system_event (RemoteCommunication type_str data) gp =
     (let (evt_name, payload) = format_remote_comm_event type_str data in accept_event evt_name payload gp)"
| "handle_system_event (DaemonLifecycle action _) gp =
     (if action = ''running'' then accept_event ''SUPERVISOR_STATE_CHANGE_RUNNING'' [] gp
      else if action = ''shutting_down'' then accept_event ''SUPERVISOR_STATE_CHANGE_STOPPING'' [] gp
      else gp)"
| "handle_system_event (ConfigReloaded added removed _ _) gp =
     fold (\<lambda>g. accept_event ''PROCESS_GROUP_REMOVED'' (group_payload g)) removed
       (fold (\<lambda>g. accept_event ''PROCESS_GROUP_ADDED'' (group_payload g)) added gp)"
| "handle_system_event (ProcessGroupAdded g) gp = accept_event ''PROCESS_GROUP_ADDED'' (group_payload g) gp"
| "handle_system_event (ProcessGroupRemoved g) gp = accept_event ''PROCESS_GROUP_REMOVED'' (group_payload g) gp"
| "handle_system_event _ gp = gp"

definition handle_log_entry :: "LogEntry \<Rightarrow> u64 \<times> EventListenerPool \<Rightarrow> u64 \<times> EventListenerPool" where
  "handle_log_entry entry gp =
     (if \<not> le_events_enabled entry then gp
      else (let grp = (case le_group entry of Some g \<Rightarrow> g | None \<Rightarrow> group_part (le_program entry));
                (evt_name, payload) = format_process_log_event (program_part (le_program entry)) grp
                                        (le_pid entry) (le_stream entry) (le_line entry)
            in accept_event evt_name payload gp))"

datatype HubMessage = SysMsg SystemEvent | LogMsg LogEntry | Lagged nat

fun hub_listener_step :: "HubMessage \<Rightarrow> u64 \<times> EventListenerPool \<Rightarrow> u64 \<times> EventListenerPool" where
  "hub_listener_step (SysMsg event) gp = handle_system_event event gp"
| "hub_listener_step (LogMsg entry) gp = handle_log_entry entry gp"
| "hub_listener_step (Lagged skipped) gp = gp"

text \<open>Whatever arrives from the hub reaches the pool as a sequence of calls of \<open>accept_event\<close>.\<close>

lemma hub_listener_calls: "\<exists>calls. hub_listener_step msg gp = fold (\<lambda>(n, pl). accept_event n pl) calls gp"
proof -
  have one: "\<exists>calls. accept_event n pl gp = fold (\<lambda>(n, pl). accept_event n pl) calls gp" for n pl
    by (rule exI [of _ "[(n, pl)]"]) simp
  have none: "\<exists>calls. gp = fold (\<lambda>(n, pl). accept_event n pl) calls gp"
    by (rule exI [of _ "[]"]) simp
  have sys: "\<exists>calls. handle_system_event e gp = fold (\<lambda>(n, pl). accept_event n pl) calls gp" for e
  proof (cases e)
    case (ConfigReloaded a r m u)
    let ?calls = "map (\<lambda>g. (''PROCESS_GROUP_ADDED'', group_payload g)) a @
      map (\<lambda>g. (''PROCESS_GROUP_REMOVED'', group_payload g)) r"
    show ?thesis using ConfigReloaded by (intro exI [of _ ?calls]) (simp add: fold_map comp_def)
  qed (simp_all add: one none split_beta Let_def del: format_process_state_event.simps)
  show ?thesis
    by (cases msg) (simp_all add: sys one none handle_log_entry_def split_beta Let_def)
qed

lemma hub_listener_induct:
  assumes "P gp" and "\<And>n pl g p. P (g, p) \<Longrightarrow> P (accept_event n pl (g, p))"
  shows "P (hub_listener_step msg gp)"
proof -
  obtain calls where c: "hub_listener_step msg gp = fold (\<lambda>(n, pl). accept_event n pl) calls gp"
    using hub_listener_calls by blast
  have "P (fold (\<lambda>(n, pl). accept_event n pl) calls gp)" if "P gp" for gp
    using that
  proof (induction calls arbitrary: gp)
    case (Cons c calls)
    have "P (accept_event (fst c) (snd c) gp)" using assms(2) [of "fst gp" "snd gp"] Cons.prems by simp
    then show ?case using Cons.IH by (simp add: split_beta)
  qed simp
  then show ?thesis using assms(1) c by simp
qed

section \<open>Validation of subscriptions\<close>

lemma bsearch_range:
  assumes "0 < n"
  shows "base \<le> bsearch behind xs base n \<and> bsearch behind xs base n < base + n"
  using assms
proof (induction behind xs base n rule: bsearch.induct)
  case (1 behind xs base n)
  show ?case
  proof (cases "n \<le> 1")
    case False
    let ?b = "if behind (xs ! (base + n div 2)) then base else base + n div 2"
    have "?b \<le> bsearch behind xs ?b (n - n div 2) \<and> bsearch behind xs ?b (n - n div 2) < ?b + (n - n div 2)"
      using False by (intro "1.IH") auto
    then show ?thesis using False by (subst (1 2) bsearch.simps) (auto simp: Let_def split: if_splits)
  qed (use 1 in \<open>simp add: bsearch.simps\<close>)
qed

lemma bsearch_finds:
  assumes "sorted (map f xs)" and "base + n \<le> length xs" and "base \<le> j" and "j < base + n"
    and "f (xs ! j) = (t :: 'b :: linorder)"
  shows "f (xs ! bsearch (\<lambda>x. t < f x) xs base n) = t"
  using assms(2-)
proof (induction n arbitrary: base j rule: less_induct)
  case (less n)
  show ?case
  proof (cases "n \<le> 1")
    case True
    then have "j = base" using less.prems by linarith
    then show ?thesis using True less.prems(4) by (simp add: bsearch.simps)
  next
    case False
    define half where "half = n div 2"
    define mid where "mid = base + half"
    have h: "half \<le> n - half" "0 < half" "half < n" using False by (simp_all add: half_def)
    have mono: "f (xs ! a) \<le> f (xs ! b)" if "a \<le> b" "b < length xs" for a b
      using assms(1) that sorted_nth_mono [of "map f xs" a b] by simp
    have eq: "bsearch (\<lambda>x. t < f x) xs base n =
        bsearch (\<lambda>x. t < f x) xs (if t < f (xs ! mid) then base else mid) (n - half)"
      using False by (subst bsearch.simps) (simp add: Let_def half_def mid_def)
    show ?thesis
    proof (cases "t < f (xs ! mid)")
      case True
      have "j < mid"
      proof (rule ccontr)
        assume "\<not> j < mid"
        then have "f (xs ! mid) \<le> t" using mono [of mid j] less.prems by simp
        then show False using True by simp
      qed
      then show ?thesis using less.IH [of "n - half" base j] less.prems h True
        by (simp add: eq mid_def)
    next
      case ge: False
      define k where "k = (if mid \<le> j then j else mid)"
      have "f (xs ! k) = t"
      proof (cases "mid \<le> j")
        case False
        then have "t \<le> f (xs ! mid)" using mono [of j mid] less.prems h by (simp add: mid_def)
        then show ?thesis using ge False by (simp add: k_def)
      qed (use less.prems in \<open>simp add: k_def\<close>)
      moreover have "mid \<le> k" "k < mid + (n - half)" using less.prems h by (auto simp: k_def mid_def)
      ultimately show ?thesis using less.IH [of "n - half" mid k] less.prems h ge
        by (simp add: eq mid_def)
    qed
  qed
qed

lemma binary_search_iff:
  assumes "sorted (map f xs)"
  shows "binary_search_by f t xs \<noteq> None \<longleftrightarrow> t \<in> f ` set xs"
proof (cases "xs = []")
  case False
  let ?i = "bsearch (\<lambda>x. t < f x) xs 0 (length xs)"
  have i: "?i < length xs" using bsearch_range [of "length xs" 0] False by simp
  have "f (xs ! ?i) = t \<longleftrightarrow> t \<in> f ` set xs"
  proof
    assume "f (xs ! ?i) = t"
    then show "t \<in> f ` set xs" using nth_mem [OF i] by (intro image_eqI [of t f "xs ! ?i"]) simp_all
  next
    assume "t \<in> f ` set xs"
    then obtain j where j: "j < length xs" "f (xs ! j) = t" by (auto simp: in_set_conv_nth)
    then show "f (xs ! ?i) = t" using bsearch_finds [OF assms, of 0 "length xs" j t] by simp
  qed
  then show ?thesis using False by (simp add: binary_search_by_def Let_def)
qed (simp add: binary_search_by_def)

lemma sort_by_indices:
  assumes "sort is = [0..<length xs]" and "map ((!) xs) is = ys" and "sorted ys"
  shows "sort xs = ys"
proof (rule properties_for_sort)
  have "mset ys = mset (map ((!) xs) [0..<length xs])" using assms(1,2) by (metis mset_map mset_sort)
  then show "mset ys = mset xs" by (simp only: map_nth)
qed (rule assms(3))

lemma known_event_types:
  "KNOWN_EVENT_TYPES =
     [''EVENT'', ''PROCESS_COMMUNICATION'', ''PROCESS_COMMUNICATION_STDERR'',
      ''PROCESS_COMMUNICATION_STDOUT'', ''PROCESS_GROUP'', ''PROCESS_GROUP_ADDED'',
      ''PROCESS_GROUP_REMOVED'', ''PROCESS_LOG'', ''PROCESS_LOG_STDERR'',
      ''PROCESS_LOG_STDOUT'', ''PROCESS_STATE'', ''PROCESS_STATE_BACKOFF'',
      ''PROCESS_STATE_EXITED'', ''PROCESS_STATE_FATAL'', ''PROCESS_STATE_RUNNING'',
      ''PROCESS_STATE_STARTING'', ''PROCESS_STATE_STOPPED'', ''PROCESS_STATE_STOPPING'',
      ''PROCESS_STATE_UNKNOWN'', ''REMOTE_COMMUNICATION'', ''SUPERVISOR_STATE_CHANGE'',
      ''SUPERVISOR_STATE_CHANGE_RUNNING'', ''SUPERVISOR_STATE_CHANGE_STOPPING'', ''TICK'',
      ''TICK_3600'', ''TICK_5'', ''TICK_60'']"
  unfolding KNOWN_EVENT_TYPES_def
  by (rule sort_by_indices [of "[0, 13, 15, 14, 21, 22, 23, 10, 12, 11, 1, 4, 6, 8, 3, 2, 7, 5, 9, 16, 24, 25, 26, 17, 20, 18, 19]"])
    (code_simp, code_simp, simp add: sorted2_simps del: sorted_wrt.simps sorted_simps)

lemma to_lower_char_simps:
  "to_lower_char (CHR ''A'') = CHR ''a''" "to_lower_char (CHR ''B'') = CHR ''b''"
  "to_lower_char (CHR ''C'') = CHR ''c''" "to_lower_char (CHR ''D'') = CHR ''d''"
  "to_lower_char (CHR ''E'') = CHR ''e''" "to_lower_char (CHR ''F'') = CHR ''f''"
  "to_lower_char (CHR ''G'') = CHR ''g''" "to_lower_char (CHR ''H'') = CHR ''h''"
  "to_lower_char (CHR ''I'') = CHR ''i''" "to_lower_char (CHR ''J'') = CHR ''j''"
  "to_lower_char (CHR ''K'') = CHR ''k''" "to_lower_char (CHR ''L'') = CHR ''l''"
  "to_lower_char (CHR ''M'') = CHR ''m''" "to_lower_char (CHR ''N'') = CHR ''n''"
  "to_lower_char (CHR ''O'') = CHR ''o''" "to_lower_char (CHR ''P'') = CHR ''p''"
  "to_lower_char (CHR ''Q'') = CHR ''q''" "to_lower_char (CHR ''R'') = CHR ''r''"
  "to_lower_char (CHR ''S'') = CHR ''s''" "to_lower_char (CHR ''T'') = CHR ''t''"
  "to_lower_char (CHR ''U'') = CHR ''u''" "to_lower_char (CHR ''V'') = CHR ''v''"
  "to_lower_char (CHR ''W'') = CHR ''w''" "to_lower_char (CHR ''X'') = CHR ''x''"
  "to_lower_char (CHR ''Y'') = CHR ''y''" "to_lower_char (CHR ''Z'') = CHR ''z''"
  "to_lower_char (CHR ''_'') = CHR ''_''" "to_lower_char (CHR ''0'') = CHR ''0''"
  "to_lower_char (CHR ''3'') = CHR ''3''" "to_lower_char (CHR ''5'') = CHR ''5''"
  "to_lower_char (CHR ''6'') = CHR ''6''"
  by code_simp+

lemma known_event_types_lower:
  "map to_ascii_lowercase KNOWN_EVENT_TYPES =
     [''event'', ''process_communication'', ''process_communication_stderr'',
      ''process_communication_stdout'', ''process_group'', ''process_group_added'',
      ''process_group_removed'', ''process_log'', ''process_log_stderr'',
      ''process_log_stdout'', ''process_state'', ''process_state_backoff'',
      ''process_state_exited'', ''process_state_fatal'', ''process_state_running'',
      ''process_state_starting'', ''process_state_stopped'', ''process_state_stopping'',
      ''process_state_unknown'', ''remote_communication'', ''supervisor_state_change'',
      ''supervisor_state_change_running'', ''supervisor_state_change_stopping'', ''tick'',
      ''tick_3600'', ''tick_5'', ''tick_60'']"
  unfolding known_event_types by (simp add: to_ascii_lowercase_def to_lower_char_simps)

lemma known_event_types_sorted: "sorted (map to_ascii_lowercase KNOWN_EVENT_TYPES)"
  unfolding known_event_types_lower by (simp add: sorted2_simps del: sorted_wrt.simps sorted_simps)

lemma is_valid_event_type_iff:
  "is_valid_event_type name \<longleftrightarrow> to_ascii_lowercase name \<in> to_ascii_lowercase ` set KNOWN_EVENT_TYPES"
  unfolding is_valid_event_type_def by (rule binary_search_iff [OF known_event_types_sorted])

section \<open>The wire format\<close>

text \<open>
  A reader of the protocol, as its documentation describes it: a line of \<open>key:value\<close> pairs
  separated by spaces, then as many characters of payload as the pair \<open>len\<close> says.
\<close>

definition header_fields :: "string \<Rightarrow> (string \<times> string) list" where
  "header_fields header = List.map_filter (split_once (CHR '':'')) (split_all (CHR '' '') header)"

definition number_field :: "(string \<times> string) list \<Rightarrow> string \<Rightarrow> nat option" where
  "number_field fs k = Option.bind (map_of fs k) (parse_unsigned usize_max)"

definition read_event :: "bytes \<Rightarrow> ((string \<times> EventEnvelope) \<times> bytes) option" where
  "read_event s =
     (case split_once newline s of
        None \<Rightarrow> None
      | Some (header, rest) \<Rightarrow>
          (let fs = header_fields header
           in case (map_of fs ''server'', number_field fs ''serial'', map_of fs ''pool'',
                    number_field fs ''poolserial'', map_of fs ''eventname'', number_field fs ''len'') of
                (Some sid, Some g, Some pool, Some k, Some name, Some len) \<Rightarrow>
                  (let (payload, rest) = split_chars len rest
                   in Some ((sid, \<lparr>ev_global_serial = of_nat g, ev_pool_serial = of_nat k, ev_pool = pool,
                                  ev_event_name = name, ev_payload = payload\<rparr>), rest))
              | _ \<Rightarrow> None))"

primrec read_events :: "nat \<Rightarrow> bytes \<Rightarrow> ((string \<times> EventEnvelope) list \<times> bytes) option" where
  "read_events 0 s = Some ([], s)"
| "read_events (Suc n) s =
     (case read_event s of
        None \<Rightarrow> None
      | Some (e, rest) \<Rightarrow> map_option (\<lambda>(es, r). (e # es, r)) (read_events n rest))"

definition plain_token :: "string \<Rightarrow> bool" where
  "plain_token s \<longleftrightarrow> CHR '' '' \<notin> set s \<and> newline \<notin> set s"

definition sendable :: "EventEnvelope \<Rightarrow> bool" where
  "sendable e \<longleftrightarrow> plain_token (ev_pool e) \<and> plain_token (ev_event_name e) \<and> utf8_valid (ev_payload e) \<and>
     length (ev_payload e) \<le> usize_max"

lemma plain_digits [simp]: "plain_token (digits_of n)"
  using digits_of_digits [of _ n]
  by (force simp: plain_token_def newline_def is_ascii_digit_def byte_in_def)

lemma char_count_le: "char_count s \<le> length s"
proof (induction s rule: char_count.induct)
  case (2 b bs)
  have "length (drop (snd (utf8_take b bs)) bs) \<le> length bs" by simp
  then show ?case using 2 by simp
qed simp

lemma split_once_here: "split_once c (c # b) = Some ([], b)"
  by simp

lemma header_fields_wire:
  assumes "plain_token sid" "plain_token (ev_pool e)" "plain_token (ev_event_name e)"
  shows "header_fields (wire_header sid e) =
    [(''ver'', ''3.0''), (''server'', sid), (''serial'', digits_of (unat (ev_global_serial e))),
     (''pool'', ev_pool e), (''poolserial'', digits_of (unat (ev_pool_serial e))),
     (''eventname'', ev_event_name e), (''len'', digits_of (char_count (ev_payload e)))]"
proof -
  have "split_all (CHR '' '') (wire_header sid e) =
    [''ver:3.0'', ''server:'' @ sid, ''serial:'' @ digits_of (unat (ev_global_serial e)),
     ''pool:'' @ ev_pool e, ''poolserial:'' @ digits_of (unat (ev_pool_serial e)),
     ''eventname:'' @ ev_event_name e, ''len:'' @ digits_of (char_count (ev_payload e))]"
    using assms plain_digits
    by (simp add: wire_header_def plain_token_def split_all_append split_all_single)
  then show ?thesis by (simp add: header_fields_def map_filter_simps)
qed

lemma read_event_wire:
  assumes "sendable e" and "plain_token sid"
  shows "read_event (format_wire sid e @ rest) = Some ((sid, e), rest)"
proof -
  have "newline \<notin> set (wire_header sid e)"
    using assms plain_digits by (auto simp: wire_header_def sendable_def plain_token_def newline_def)
  then have s: "split_once newline (format_wire sid e @ rest) = Some (wire_header sid e, ev_payload e @ rest)"
    by (simp add: format_wire_def split_once_append)
  have n: "unat w \<le> usize_max" for w :: u64
    using unsigned_less [of w, where 'a = nat] by (simp add: usize_max_def)
  have c: "char_count (ev_payload e) \<le> usize_max"
    using assms(1) char_count_le [of "ev_payload e"] by (simp add: sendable_def)
  have f: "header_fields (wire_header sid e) =
    [(''ver'', ''3.0''), (''server'', sid), (''serial'', digits_of (unat (ev_global_serial e))),
     (''pool'', ev_pool e), (''poolserial'', digits_of (unat (ev_pool_serial e))),
     (''eventname'', ev_event_name e), (''len'', digits_of (char_count (ev_payload e)))]"
    using assms by (intro header_fields_wire) (simp_all add: sendable_def)
  have "split_chars (char_count (ev_payload e)) (ev_payload e @ rest) = (ev_payload e, rest)"
    using assms(1) by (intro split_chars_count) (simp add: sendable_def)
  then show ?thesis by (simp add: read_event_def s f number_field_def n c)
qed

text \<open>
  C15: The wire format can be decoded: a stream that consists of any number of envelopes, one after
  the other, is read back as exactly these envelopes with the server's name, although payloads may
  contain newlines, spaces and characters of several bytes. The server's, the pool's and the events'
  names must not contain spaces or newlines.
\<close>

theorem wire_roundtrip:
  assumes "plain_token sid" and "list_all sendable es"
  shows "read_events (length es) (concat (map (format_wire sid) es) @ rest) = Some (map (Pair sid) es, rest)"
  using assms(2) by (induction es) (simp_all add: read_event_wire assms(1))

definition demo_envelopes :: "EventEnvelope list" where
  "demo_envelopes =
     [\<lparr>ev_global_serial = 7, ev_pool_serial = 0, ev_pool = ''p'', ev_event_name = ''PROCESS_LOG_STDOUT'',
       ev_payload = [CHR ''a'', newline, CHR 0xC3, CHR 0xA9]\<rparr>,
      \<lparr>ev_global_serial = 9, ev_pool_serial = 1, ev_pool = ''p'', ev_event_name = ''TICK_5'', ev_payload = ''when:5''\<rparr>]"

theorem wire_roundtrip_witness:
  "read_events 2 (concat (map (format_wire ''id'') demo_envelopes)) = Some (map (Pair ''id'') demo_envelopes, [])"
proof -
  have "plain_token ''id''" by code_simp
  moreover have "utf8_valid [CHR ''a'', newline, CHR 0xC3, CHR 0xA9]" "utf8_valid ''when:5''" by code_simp+
  then have "list_all sendable demo_envelopes"
    by (simp add: demo_envelopes_def sendable_def plain_token_def newline_def usize_max_def del: utf8_valid.simps)
  ultimately have "read_events (length demo_envelopes) (concat (map (format_wire ''id'') demo_envelopes) @ []) =
      Some (map (Pair ''id'') demo_envelopes, [])"
    by (rule wire_roundtrip)
  then show ?thesis by (simp add: demo_envelopes_def numeral_2_eq_2)
qed

end
