(* ===== verification/Config_Schema.thy ===== *)
theory Config_Schema
  imports Log_Destination Listener_Pool
begin

text \<open>
  The configuration as it is written (\<open>src/src/config/schema.rs\<close>, \<open>src/src/eventlistener/config.rs\<close>):
  the records of the raw sections, their validation, and the connection settings that the client
  derives from the server section.

  A hash map is the list of its entries in the order of iteration. A path is its text. The fields of
  \<open>SupervisorConfig\<close> that only the daemon's startup reads (threads, process limits) are left out.
\<close>

section \<open>Constants\<close>

definition MAX_PRIORITY :: nat where "MAX_PRIORITY = 999"
definition DEFAULT_GROUP_PRIORITY :: nat where "DEFAULT_GROUP_PRIORITY = 999"
definition DEFAULT_START :: duration where [duration_defs]: "DEFAULT_START = from_secs 1"
definition DEFAULT_START_RETRIES :: nat where "DEFAULT_START_RETRIES = 3"
definition DEFAULT_RESTART_PAUSE :: duration where [duration_defs]: "DEFAULT_RESTART_PAUSE = from_secs 0"
definition DEFAULT_RESTART_DEBOUNCE :: duration where [duration_defs]: "DEFAULT_RESTART_DEBOUNCE = from_secs 5"
definition DEFAULT_KILL_WAIT :: duration where [duration_defs]: "DEFAULT_KILL_WAIT = from_secs 2"
definition UDS_CHMOD_UNELEVATED :: nat where "UDS_CHMOD_UNELEVATED = 511"
definition UDS_CHMOD :: "bool \<Rightarrow> nat" where "UDS_CHMOD windows = (if windows then 504 else 448)"

section \<open>Raw sections\<close>

record ServerConfig =
  sv_uds_path :: string
  sv_uds_chmod :: "nat option"
  sv_uds_username :: "string option"
  sv_uds_password :: "string option"
  sv_http_bind :: "string option"
  sv_username :: "string option"
  sv_password :: "string option"
  sv_auth_token :: "string option"
  sv_identifier :: "string option"
  sv_path_translation :: bool
  sv_allow_unelevated :: bool
  sv_ctl_defaults :: bool

record ProgramLogsConfigRaw =
  lr_enabled :: "LogMode option"
  lr_stdout :: "string option"
  lr_stderr :: "string option"
  lr_buffer_size :: "nat option"
  lr_max_bytes :: "nat option"
  lr_backups :: "nat option"
  lr_stdout_max_bytes :: "nat option"
  lr_stderr_max_bytes :: "nat option"
  lr_stdout_backups :: "nat option"
  lr_stderr_backups :: "nat option"
  lr_stdout_timestamp_suffix :: "bool option"
  lr_stderr_timestamp_suffix :: "bool option"
  lr_stdout_syslog :: "bool option"
  lr_stderr_syslog :: "bool option"
  lr_syslog_facility :: "string option"
  lr_syslog_tag :: "string option"
  lr_syslog_stdout_priority :: "string option"
  lr_syslog_stderr_priority :: "string option"
  lr_redirect_stderr :: "bool option"
  lr_stdout_events_enabled :: "bool option"
  lr_stderr_events_enabled :: "bool option"

record ProgramDefaults =
  pd_autostart :: "bool option"
  pd_autorestart :: "AutoRestartPolicy option"
  pd_start_secs :: "duration option"
  pd_start_retries :: "nat option"
  pd_restart_pause_secs :: "duration option"
  pd_stop_signal :: "StopSignal option"
  pd_stop_wait_secs :: "duration option"
  pd_priority :: "nat option"
  pd_logs :: "ProgramLogsConfigRaw option"
  pd_health_check :: "HealthCheckConfig option"
  pd_pre_start :: "string option"
  pd_pre_stop :: "string option"
  pd_pre_start_ignore_failure :: "bool option"
  pd_hook_timeout_secs :: "duration option"
  pd_numprocs :: "nat option"
  pd_numprocs_start :: "nat option"
  pd_process_name :: "string option"
  pd_restart_when_binary_changed :: "bool option"
  pd_restart_signal_when_binary_changed :: "StopSignal option"
  pd_restart_cmd_when_binary_changed :: "string option"
  pd_restart_directory_monitor :: "string option"
  pd_restart_file_pattern :: "string option"
  pd_restart_signal_when_file_changed :: "StopSignal option"
  pd_restart_cmd_when_file_changed :: "string option"
  pd_restart_debounce_secs :: "duration option"
  pd_env_files :: "string list option"
  pd_kill_wait_secs :: "duration option"
  pd_stop_as_group :: "bool option"
  pd_kill_as_group :: "bool option"

record ProgramConfigRaw =
  pr_command :: string
  pr_args :: "string list"
  pr_directory :: "string option"
  pr_user :: "string option"
  pr_environment :: "string hmap"
  pr_priority :: "nat option"
  pr_depends_on :: "string list"
  pr_autostart :: "bool option"
  pr_autorestart :: "AutoRestartPolicy option"
  pr_start_secs :: "duration option"
  pr_start_retries :: "nat option"
  pr_restart_pause_secs :: "duration option"
  pr_stop_signal :: "StopSignal option"
  pr_stop_wait_secs :: "duration option"
  pr_exit_codes :: "int list option"
  pr_umask :: "nat option"
  pr_logs :: "ProgramLogsConfigRaw option"
  pr_health_check :: "HealthCheckConfig option"
  pr_group :: "string option"
  pr_cron :: "string option"
  pr_cron_stop :: "string option"
  pr_pre_start :: "string option"
  pr_pre_stop :: "string option"
  pr_pre_start_ignore_failure :: "bool option"
  pr_hook_timeout_secs :: "duration option"
  pr_numprocs :: "nat option"
  pr_numprocs_start :: "nat option"
  pr_process_name :: "string option"
  pr_restart_when_binary_changed :: "bool option"
  pr_restart_signal_when_binary_changed :: "StopSignal option"
  pr_restart_cmd_when_binary_changed :: "string option"
  pr_restart_directory_monitor :: "string option"
  pr_restart_file_pattern :: "string option"
  pr_restart_signal_when_file_changed :: "StopSignal option"
  pr_restart_cmd_when_file_changed :: "string option"
  pr_restart_debounce_secs :: "duration option"
  pr_stdout_events_enabled :: "bool option"
  pr_stderr_events_enabled :: "bool option"
  pr_env_files :: "string list option"
  pr_kill_wait_secs :: "duration option"
  pr_stop_as_group :: "bool option"
  pr_kill_as_group :: "bool option"

record GroupConfigRaw =
  gr_programs :: "string list"
  gr_priority :: "nat option"

record EventListenerConfigRaw =
  er_command :: string
  er_args :: "string list"
  er_events :: "string list"
  er_buffer_size :: nat
  er_result_handler :: string
  er_priority :: int
  er_numprocs :: "nat option"
  er_numprocs_start :: "nat option"
  er_process_name :: "string option"
  er_autostart :: "bool option"
  er_autorestart :: "AutoRestartPolicy option"
  er_start_secs :: "duration option"
  er_start_retries :: "nat option"
  er_stop_signal :: "StopSignal option"
  er_stop_wait_secs :: "duration option"
  er_directory :: "string option"
  er_user :: "string option"
  er_environment :: "string hmap"
  er_umask :: "nat option"
  er_stdout_logfile :: "string option"
  er_stderr_logfile :: "string option"
  er_redirect_stderr :: "bool option"
  er_env_files :: "string list option"
  er_stop_as_group :: "bool option"
  er_kill_as_group :: "bool option"

record CtlConfig =
  ct_serverurl :: "string option"
  ct_username :: "string option"
  ct_password :: "string option"
  ct_auth_token :: "string option"
  ct_no_color :: "bool option"

record SupervisorConfig =
  sc_no_color :: bool
  sc_server :: ServerConfig
  sc_logging :: LoggingConfig
  sc_program_defaults :: ProgramDefaults
  sc_groups :: "GroupConfigRaw hmap"
  sc_programs :: "ProgramConfigRaw hmap"
  sc_event_listeners :: "EventListenerConfigRaw hmap"
  sc_environment :: "string hmap"
  sc_pidfile :: "string option"
  sc_loglevel :: "string option"
  sc_ctl :: "CtlConfig option"
  sc_config_dir :: "string option"

section \<open>Client and server settings\<close>

definition resolved_uds_chmod :: "bool \<Rightarrow> ServerConfig \<Rightarrow> nat" where
  "resolved_uds_chmod windows sv =
     unwrap_or (sv_uds_chmod sv) (if sv_allow_unelevated sv then UDS_CHMOD_UNELEVATED else UDS_CHMOD windows)"

definition logging_buffer_size :: "LoggingConfig \<Rightarrow> nat" where
  "logging_buffer_size lg =
     (case g_buffer_size lg of
        Some sz \<Rightarrow> if sz > 0 then sz else DEFAULT_IN_MEMORY_LOG_BUFFER_SIZE
      | None \<Rightarrow> DEFAULT_IN_MEMORY_LOG_BUFFER_SIZE)"

definition nonempty_bind :: "ServerConfig \<Rightarrow> string option" where
  "nonempty_bind sv = (case sv_http_bind sv of Some b \<Rightarrow> if b = [] then None else Some b | None \<Rightarrow> None)"

definition starts_with :: "string \<Rightarrow> string \<Rightarrow> bool" where
  "starts_with p s \<longleftrightarrow> strip_prefix p s \<noteq> None"

definition fill_from_server :: "ServerConfig \<Rightarrow> CtlConfig \<Rightarrow> CtlConfig" where
  "fill_from_server sv ctl =
     (let url = (case ct_serverurl ctl of
                   Some u \<Rightarrow> u
                 | None \<Rightarrow> (case nonempty_bind sv of Some bind \<Rightarrow> ''http://'' @ bind | None \<Rightarrow> sv_uds_path sv));
          is_tcp = (starts_with ''http://'' url \<or> starts_with ''tcp://'' url)
      in ctl\<lparr>ct_serverurl := Some url,
             ct_username := or_option (ct_username ctl) (if is_tcp then sv_username sv else sv_uds_username sv),
             ct_password := or_option (ct_password ctl) (if is_tcp then sv_password sv else sv_uds_password sv),
             ct_auth_token := or_option (ct_auth_token ctl) (sv_auth_token sv)\<rparr>)"

definition vec_from_server :: "ServerConfig \<Rightarrow> CtlConfig list" where
  "vec_from_server sv =
     \<lparr>ct_serverurl = Some (sv_uds_path sv), ct_username = sv_uds_username sv, ct_password = sv_uds_password sv,
      ct_auth_token = sv_auth_token sv, ct_no_color = None\<rparr> #
     (case nonempty_bind sv of
        Some bind \<Rightarrow>
          [\<lparr>ct_serverurl = Some (''http://'' @ bind), ct_username = sv_username sv, ct_password = sv_password sv,
            ct_auth_token = sv_auth_token sv, ct_no_color = None\<rparr>]
      | None \<Rightarrow> [])"

definition fill_ctl_defaults :: "SupervisorConfig \<Rightarrow> SupervisorConfig" where
  "fill_ctl_defaults cfg =
     (if \<not> sv_ctl_defaults (sc_server cfg) then cfg
      else cfg\<lparr>sc_ctl := map_option (fill_from_server (sc_server cfg)) (sc_ctl cfg)\<rparr>)"

definition is_daemon_no_color :: "SupervisorConfig \<Rightarrow> bool" where
  "is_daemon_no_color cfg = unwrap_or (g_no_color (sc_logging cfg)) (sc_no_color cfg)"

definition is_ctl_no_color :: "SupervisorConfig \<Rightarrow> bool" where
  "is_ctl_no_color cfg = unwrap_or (Option.bind (sc_ctl cfg) ct_no_color) (sc_no_color cfg)"

definition is_no_color :: "SupervisorConfig \<Rightarrow> bool" where
  "is_no_color cfg \<longleftrightarrow>
     sc_no_color cfg \<or> unwrap_or (g_no_color (sc_logging cfg)) False \<or>
     unwrap_or (Option.bind (sc_ctl cfg) ct_no_color) False"

lemma fill_from_server_idem: "fill_from_server sv (fill_from_server sv ctl) = fill_from_server sv ctl"
  by (cases ctl) (auto simp: fill_from_server_def Let_def or_option_def split: option.splits)

section \<open>Validation\<close>

text \<open>
  What validation and resolution take from the platform and the libraries: the platform's kind, the
  environment and host name of the process, the splitting of a command line, the default log path
  of a program for a configuration directory, the default stop signal, and the error of the cron
  parser, if any.
\<close>

record Platform =
  pf_windows :: bool
  pf_vars :: "string hmap"
  pf_hostname :: string
  pf_split :: "string \<Rightarrow> string + string list"
  pf_default_log :: "string option \<Rightarrow> string \<Rightarrow> string"
  pf_default_signal :: StopSignal
  pf_cron_error :: "string \<Rightarrow> string option"

definition log_setting ::
  "(ProgramLogsConfigRaw \<Rightarrow> 'a option) \<Rightarrow> ProgramLogsConfigRaw option \<Rightarrow> ProgramLogsConfigRaw option \<Rightarrow> 'a option" where
  "log_setting f raw_logs def_logs = or_option (Option.bind raw_logs f) (Option.bind def_logs f)"

definition check_setting :: "('a \<Rightarrow> 'b result) \<Rightarrow> (string \<Rightarrow> string) \<Rightarrow> 'a option \<Rightarrow> unit result" where
  "check_setting parse message x =
     (case x of
        None \<Rightarrow> Inr ()
      | Some v \<Rightarrow> (case parse v of Inl e \<Rightarrow> Inl (ConfigError (message (error_text e))) | Inr _ \<Rightarrow> Inr ()))"

definition validate_dest :: "bool \<Rightarrow> (string \<Rightarrow> string) \<Rightarrow> string \<Rightarrow> string \<Rightarrow> unit result" where
  "validate_dest windows message not_supported s =
     (case parse_destination s of
        Inl e \<Rightarrow> Inl (ConfigError (message (error_text e)))
      | Inr dest \<Rightarrow> ensure (\<not> (windows \<and> contains_syslog dest)) (ConfigError not_supported))"

definition validate_stream :: "bool \<Rightarrow> string \<Rightarrow> string \<Rightarrow> string option \<Rightarrow> unit result" where
  "validate_stream windows name stream path =
     (case path of
        None \<Rightarrow> Inr ()
      | Some s \<Rightarrow> validate_dest windows
          (\<lambda>e. ''Program '' @ quoted name @ '' invalid '' @ stream @ '' log destination '' @ quoted s @ '': '' @ e)
          (''Program '' @ quoted name @ '' '' @ stream @ '' log destination '' @ quoted s
             @ '' uses syslog, which is not supported on Windows'') s)"

definition program_logs_checks :: "bool \<Rightarrow> ProgramDefaults \<Rightarrow> string \<Rightarrow> ProgramConfigRaw \<Rightarrow> unit result list" where
  "program_logs_checks windows defaults name raw =
     (let rl = pr_logs raw; dl = pd_logs defaults;
          message = (\<lambda>e. ''Program '' @ quoted name @ '': '' @ e)
      in [check_setting parse_facility message (log_setting lr_syslog_facility rl dl),
          check_setting parse_severity message (log_setting lr_syslog_stdout_priority rl dl),
          check_setting parse_severity message (log_setting lr_syslog_stderr_priority rl dl),
          validate_stream windows name ''stdout'' (log_setting lr_stdout rl dl),
          validate_stream windows name ''stderr'' (log_setting lr_stderr rl dl),
          ensure (\<not> (windows \<and> (unwrap_or (log_setting lr_stdout_syslog rl dl) False \<or>
                               unwrap_or (log_setting lr_stderr_syslog rl dl) False)))
            (ConfigError (''Program '' @ quoted name
               @ '' stdout_syslog/stderr_syslog is not supported on Windows''))])"

definition priority_check :: "string \<Rightarrow> nat \<Rightarrow> unit result" where
  "priority_check name priority =
     ensure (priority \<le> MAX_PRIORITY)
       (ConfigError (''Program '' @ quoted name @ '' priority '' @ digits_of priority @ '' must be in range [0, 999]''))"

definition validate_program :: "Platform \<Rightarrow> ProgramDefaults \<Rightarrow> string \<times> ProgramConfigRaw \<Rightarrow> unit result" where
  "validate_program pf defaults entry =
     (let (name, raw) = entry;
          stop_wait = unwrap_or (or_option (pr_stop_wait_secs raw) (pd_stop_wait_secs defaults)) DEFAULT_STOP_WAIT;
          numprocs = unwrap_or (or_option (pr_numprocs raw) (pd_numprocs defaults)) 1
      in run_checks
           ([ensure (trim (pr_command raw) \<noteq> [])
               (ConfigError (''Program '' @ quoted name @ '' command cannot be empty'')),
             priority_check name (unwrap_or (or_option (pr_priority raw) (pd_priority defaults)) DEFAULT_PRIORITY),
             ensure (stop_wait \<le> MAX_TIMEOUT)
               (ConfigError (''Program '' @ quoted name @ '' stop_wait_secs '' @ digits_of (as_secs stop_wait)
                  @ '' exceeds maximum 86400'')),
             validate_cron (pf_cron_error pf) name (pr_cron raw),
             validate_cron (pf_cron_error pf) name (pr_cron_stop raw),
             ensure (numprocs \<noteq> 0)
               (ConfigError (''Program '' @ quoted name @ '' numprocs must be greater than 0'')),
             (case or_option (pr_process_name raw) (pd_process_name defaults) of
                Some template \<Rightarrow>
                  ensure (\<not> (1 < numprocs \<and> \<not> occurs_in ''process_num'' template))
                    (ConfigError (''Program '' @ quoted name @ '' with numprocs > 1 specifies process_name ''
                       @ quoted template @ '' which does not contain '' @ quoted ''process_num''))
              | None \<Rightarrow> Inr ())]
            @ program_logs_checks (pf_windows pf) defaults name raw))"

definition validate_main_log :: "bool \<Rightarrow> LoggingConfig \<Rightarrow> unit result" where
  "validate_main_log windows lg =
     (case g_file lg of
        None \<Rightarrow> Inr ()
      | Some s \<Rightarrow> validate_dest windows
          (\<lambda>e. ''Invalid daemon log destination '' @ quoted s @ '': '' @ e)
          (''Daemon log destination '' @ quoted s @ '' uses syslog, which is not supported on Windows'') s)"

definition validate_group :: "ProgramConfigRaw hmap \<Rightarrow> string \<times> GroupConfigRaw \<Rightarrow> unit result" where
  "validate_group programs entry =
     (let (name, gc) = entry
      in run_checks
           ((case gr_priority gc of
               Some p \<Rightarrow> ensure (p \<le> MAX_PRIORITY)
                 (ConfigError (''Group '' @ quoted name @ '' priority '' @ digits_of p @ '' must be in range [0, 999]''))
             | None \<Rightarrow> Inr ()) #
            map (\<lambda>prog. ensure (contains_key programs prog)
                   (ConfigError (''Group '' @ quoted name @ '' references unknown program '' @ quoted prog)))
              (gr_programs gc)))"

definition validate_listener :: "string \<times> EventListenerConfigRaw \<Rightarrow> unit result" where
  "validate_listener entry =
     (let (name, er) = entry
      in run_checks
           [ensure (trim (er_command er) \<noteq> [])
              (ConfigError (''EventListener '' @ quoted name @ '' command cannot be empty'')),
            validate_event_list (er_events er),
            ensure (1 \<le> er_buffer_size er)
              (ConfigError (''EventListener '' @ quoted name @ '' buffer_size must be >= 1'')),
            ensure (er_redirect_stderr er \<noteq> Some True)
              (ConfigError (''EventListener '' @ quoted name
                 @ '' redirect_stderr cannot be true (violates wire protocol)''))])"

definition validate_config :: "Platform \<Rightarrow> SupervisorConfig \<Rightarrow> unit result" where
  "validate_config pf cfg =
     run_checks
       (map (validate_program pf (sc_program_defaults cfg)) (sc_programs cfg)
        @ [validate_main_log (pf_windows pf) (sc_logging cfg)]
        @ map (validate_group (sc_programs cfg)) (sc_groups cfg)
        @ map validate_listener (sc_event_listeners cfg))"

lemma validate_config_parts:
  assumes "validate_config pf cfg = Inr u"
  shows "e \<in> set (sc_programs cfg) \<Longrightarrow> validate_program pf (sc_program_defaults cfg) e = Inr ()"
    and "g \<in> set (sc_groups cfg) \<Longrightarrow> validate_group (sc_programs cfg) g = Inr ()"
    and "l \<in> set (sc_event_listeners cfg) \<Longrightarrow> validate_listener l = Inr ()"
  using assms by (auto simp: validate_config_def run_checks_Inr list_all_iff simp del: run_checks.simps)

lemma validate_program_ok:
  assumes "validate_program pf defaults (name, raw) = Inr u"
  shows "trim (pr_command raw) \<noteq> []"
    and "unwrap_or (or_option (pr_priority raw) (pd_priority defaults)) DEFAULT_PRIORITY \<le> MAX_PRIORITY"
    and "unwrap_or (or_option (pr_numprocs raw) (pd_numprocs defaults)) 1 \<noteq> 0"
    and "unwrap_or (or_option (pr_stop_wait_secs raw) (pd_stop_wait_secs defaults)) DEFAULT_STOP_WAIT \<le> MAX_TIMEOUT"
  using assms by (auto simp: validate_program_def Let_def run_checks_Inr ensure_Inr priority_check_def simp del: run_checks.simps)

section \<open>Loading a YAML text\<close>

definition is_on :: "LogMode \<Rightarrow> bool" where
  "is_on mode \<longleftrightarrow> mode = LogOn"

text \<open>
  The default paths for a configuration directory are arguments, as are the YAML parser and the
  translation of the paths.
\<close>

definition apply_default_paths ::
  "(string option \<Rightarrow> string) \<Rightarrow> (string option \<Rightarrow> string) \<Rightarrow> SupervisorConfig \<Rightarrow> SupervisorConfig" where
  "apply_default_paths default_uds default_log cfg =
     (let sv = sc_server cfg; lg = sc_logging cfg; dir = sc_config_dir cfg
      in cfg\<lparr>sc_server := (if sv_uds_path sv = default_uds None then sv\<lparr>sv_uds_path := default_uds dir\<rparr> else sv),
             sc_logging := (if is_on (g_enabled lg) \<and> g_file lg = None
                            then lg\<lparr>g_file := Some (default_log dir)\<rparr> else lg)\<rparr>)"

definition default_log_level :: string where "default_log_level = ''info''"

definition yaml_defaults :: "string option \<Rightarrow> SupervisorConfig \<Rightarrow> SupervisorConfig" where
  "yaml_defaults dir cfg =
     (let sv = sc_server cfg;
          sv = sv\<lparr>sv_uds_username := or_option (sv_uds_username sv) (sv_username sv),
                  sv_uds_password := or_option (sv_uds_password sv) (sv_password sv)\<rparr>;
          lg = sc_logging cfg;
          lg = (case sc_loglevel cfg of
                  Some lvl \<Rightarrow> if g_level lg = default_log_level then lg\<lparr>g_level := lvl\<rparr> else lg
                | None \<Rightarrow> lg)
      in cfg\<lparr>sc_server := sv, sc_logging := lg, sc_loglevel := None, sc_config_dir := dir\<rparr>)"

definition from_yaml_str ::
  "Platform \<Rightarrow> (string option \<Rightarrow> string) \<Rightarrow> (string option \<Rightarrow> string) \<Rightarrow>
   (string \<Rightarrow> string + SupervisorConfig) \<Rightarrow> (SupervisorConfig \<Rightarrow> SupervisorConfig result) \<Rightarrow>
   string \<Rightarrow> string option \<Rightarrow> SupervisorConfig result" where
  "from_yaml_str pf default_uds default_log parse translate_paths content dir =
     and_then (map_sum (\<lambda>e. ConfigError (''Failed to parse YAML configuration: '' @ e)) id (parse content))
       (\<lambda>cfg. and_then (translate_paths (apply_default_paths default_uds default_log (yaml_defaults dir cfg)))
         (\<lambda>cfg. and_then (validate_config pf cfg) (\<lambda>_. Inr (fill_ctl_defaults cfg))))"

end
