(* ===== verification/Rust_Path.thy ===== *)
theory Rust_Path
  imports Rust_Text
begin

text \<open>
  Paths of Unix: the components that \<open>std::path\<close> sees in a path, by which paths are also compared,
  the joining of two paths, and the lexical normalisation of \<open>src/src/platform/traits.rs\<close>. A path
  is its text; a path prefix occurs on Windows only.
\<close>

section \<open>Components\<close>

datatype Component = RootDir | CurDir | ParentDir | Normal string

definition component_of :: "string \<Rightarrow> Component" where
  "component_of s = (if s = ''.'' then CurDir else if s = ''..'' then ParentDir else Normal s)"

fun component_text :: "Component \<Rightarrow> string" where
  "component_text RootDir = ''/''"
| "component_text CurDir = ''.''"
| "component_text ParentDir = ''..''"
| "component_text (Normal s) = s"

definition components :: "string \<Rightarrow> Component list" where
  "components p =
     (let cs = map component_of (filter (\<lambda>s. s \<noteq> []) (split_all (CHR ''/'') p))
      in if p \<noteq> [] \<and> hd p = CHR ''/'' then RootDir # filter (\<lambda>c. c \<noteq> CurDir) cs
         else (case cs of [] \<Rightarrow> [] | c # cs' \<Rightarrow> c # filter (\<lambda>c. c \<noteq> CurDir) cs'))"

definition same_path :: "string \<Rightarrow> string \<Rightarrow> bool" where
  "same_path p q \<longleftrightarrow> components p = components q"

lemma same_path_refl [simp]: "same_path p p"
  by (simp add: same_path_def)

fun separated :: "string list \<Rightarrow> string" where
  "separated [] = []"
| "separated [x] = x"
| "separated (x # y # zs) = x @ ''/'' @ separated (y # zs)"

text \<open>A path is collected from components by pushing one after the other.\<close>

fun collect_path :: "Component list \<Rightarrow> string" where
  "collect_path (RootDir # cs) = ''/'' @ separated (map component_text cs)"
| "collect_path cs = separated (map component_text cs)"

definition is_absolute :: "string \<Rightarrow> bool" where
  "is_absolute p \<longleftrightarrow> p \<noteq> [] \<and> hd p = CHR ''/''"

definition path_join :: "string \<Rightarrow> string \<Rightarrow> string" where
  "path_join base p =
     (if is_absolute p then p
      else if base = [] \<or> last base = CHR ''/'' then base @ p
      else base @ ''/'' @ p)"

section \<open>Normalisation\<close>

definition norm_step :: "bool \<times> Component list \<Rightarrow> Component \<Rightarrow> bool \<times> Component list" where
  "norm_step s c =
     (let (has_root, stack) = s
      in case c of
           RootDir \<Rightarrow> (True, RootDir # stack)
         | CurDir \<Rightarrow> (has_root, stack)
         | Normal n \<Rightarrow> (has_root, Normal n # stack)
         | ParentDir \<Rightarrow>
             (case stack of
                Normal _ # rest \<Rightarrow> (has_root, rest)
              | RootDir # _ \<Rightarrow> (has_root, stack)
              | ParentDir # _ \<Rightarrow> (has_root, ParentDir # stack)
              | CurDir # _ \<Rightarrow> (has_root, stack)
              | [] \<Rightarrow> (has_root, if has_root then [] else [ParentDir])))"

definition norm_components :: "Component list \<Rightarrow> Component list" where
  "norm_components cs = rev (snd (foldl norm_step (False, []) cs))"

definition lexical_norm_path :: "string \<Rightarrow> string" where
  "lexical_norm_path p =
     (if p = [] then []
      else (let cs = norm_components (components p) in if cs = [] then ''.'' else collect_path cs))"

text \<open>A normal form: an optional root, then for a relative path leading parents, then plain names.\<close>

definition plain :: "Component \<Rightarrow> bool" where
  "plain c \<longleftrightarrow> (\<exists>n. c = Normal n \<and> n \<noteq> [] \<and> n \<noteq> ''.'' \<and> n \<noteq> ''..'' \<and> CHR ''/'' \<notin> set n)"

definition canonical :: "Component list \<Rightarrow> bool" where
  "canonical cs \<longleftrightarrow>
     (\<exists>ns. list_all plain ns \<and> (cs = RootDir # ns \<or> (\<exists>k. cs = replicate k ParentDir @ ns)))"

lemma filter_plain: "list_all plain ns \<Longrightarrow> filter (\<lambda>c. c \<noteq> CurDir) ns = ns"
  by (induction ns) (auto simp: plain_def)

lemma norm_plain: "list_all plain ns \<Longrightarrow> foldl norm_step (r, st) ns = (r, rev ns @ st)"
proof (induction ns arbitrary: st)
  case (Cons c ns)
  then show ?case by (auto simp: norm_step_def plain_def)
qed simp

lemma norm_parents: "foldl norm_step (False, replicate j ParentDir) (replicate k ParentDir) =
    (False, replicate (k + j) ParentDir)"
proof (induction k arbitrary: j)
  case (Suc k)
  have "norm_step (False, replicate j ParentDir) ParentDir = (False, replicate (Suc j) ParentDir)"
    by (cases j) (simp_all add: norm_step_def)
  then show ?case using Suc [of "Suc j"] by simp
qed simp

lemma norm_canonical: "canonical cs \<Longrightarrow> norm_components cs = cs"
  unfolding canonical_def
proof (elim exE conjE disjE)
  fix ns assume "list_all plain ns" "cs = RootDir # ns"
  then show ?thesis using norm_plain by (simp add: norm_components_def norm_step_def)
next
  fix ns k assume "list_all plain ns" "cs = replicate k ParentDir @ ns"
  then show ?thesis using norm_plain norm_parents [of 0 k] by (simp add: norm_components_def)
qed

lemma norm_components_canonical:
  assumes "list_all (\<lambda>c. plain c \<or> c = ParentDir \<or> c = CurDir) cs"
  shows "canonical (norm_components cs)" "canonical (norm_components (RootDir # cs))"
proof -
  define good where "good s \<longleftrightarrow>
      (\<exists>ns. list_all plain ns \<and>
         (if fst s then snd s = rev ns @ [RootDir] else \<exists>k. snd s = rev ns @ replicate k ParentDir))" for s
  have step: "good (norm_step s c)" if g: "good s" and d: "plain c \<or> c = ParentDir \<or> c = CurDir" for s c
  proof -
    obtain r st where s: "s = (r, st)" by fastforce
    obtain ns where ns: "list_all plain ns"
      "if r then st = rev ns @ [RootDir] else \<exists>k. st = rev ns @ replicate k ParentDir"
      using g unfolding s good_def fst_conv snd_conv by blast
    consider (name) n where "c = Normal n" "plain c" | (up) "c = ParentDir" | (cur) "c = CurDir"
      using d unfolding plain_def by auto
    then show ?thesis
    proof cases
      case name
      then have "list_all plain (ns @ [c])" using ns(1) by simp
      then show ?thesis using name(1) s ns(2) unfolding good_def norm_step_def
        by (intro exI [of _ "ns @ [c]"]) (auto split: if_splits)
    next
      case cur
      then show ?thesis using g s by (simp add: norm_step_def)
    next
      case up
      show ?thesis
      proof (cases ns rule: rev_cases)
        case Nil
        show ?thesis
        proof (cases r)
          case True
          then show ?thesis using Nil ns(2) s up by (auto simp: good_def norm_step_def)
        next
          case False
          then obtain k where k: "st = replicate k ParentDir" using Nil ns(2) by auto
          have "norm_step s c = (False, replicate (Suc k) ParentDir)"
            using False k s up by (cases k) (simp_all add: norm_step_def)
          moreover have "\<exists>ns j. list_all plain ns \<and> replicate (Suc k) ParentDir = rev ns @ replicate j ParentDir"
            by (intro exI [of _ "[]"] exI [of _ "Suc k"]) simp
          ultimately show ?thesis by (auto simp: good_def)
        qed
      next
        case (snoc ns' n)
        then obtain x where x: "n = Normal x" "list_all plain ns'" using ns(1) by (auto simp: plain_def)
        then show ?thesis using snoc ns(2) s up unfolding good_def norm_step_def
          by (intro exI [of _ ns']) (auto split: if_splits)
      qed
    qed
  qed
  have fold: "good (foldl norm_step s cs)" if "good s" for s
    using that assms
  proof (induction cs arbitrary: s)
    case (Cons c cs)
    then show ?case using step by simp
  qed simp
  have done_ok: "canonical (rev (snd s))" if g: "good s" for s
  proof -
    obtain ns where ns: "list_all plain ns"
      "if fst s then snd s = rev ns @ [RootDir] else \<exists>k. snd s = rev ns @ replicate k ParentDir"
      using g unfolding good_def by blast
    then show ?thesis unfolding canonical_def by (intro exI [of _ ns]) (auto split: if_splits)
  qed
  have "good (False, [])" unfolding good_def by (intro exI [of _ "[]"]) simp
  then show "canonical (norm_components cs)" using fold done_ok by (simp add: norm_components_def)
  have "good (True, [RootDir])" unfolding good_def by (intro exI [of _ "[]"]) simp
  then show "canonical (norm_components (RootDir # cs))"
    using fold done_ok by (simp add: norm_components_def norm_step_def)
qed

lemma components_shape:
  obtains cs where "list_all (\<lambda>c. plain c \<or> c = ParentDir \<or> c = CurDir) cs"
    and "components p = (if is_absolute p then RootDir # cs else cs)"
proof -
  define parts where "parts = map component_of (filter (\<lambda>s. s \<noteq> []) (split_all (CHR ''/'') p))"
  have parts: "list_all (\<lambda>c. plain c \<or> c = ParentDir \<or> c = CurDir) parts"
    using split_all_no_separator by (fastforce simp: parts_def list_all_iff component_of_def plain_def)
  define cs where "cs = (if is_absolute p then filter (\<lambda>c. c \<noteq> CurDir) parts
      else case parts of [] \<Rightarrow> [] | c # cs' \<Rightarrow> c # filter (\<lambda>c. c \<noteq> CurDir) cs')"
  have "list_all (\<lambda>c. plain c \<or> c = ParentDir \<or> c = CurDir) cs"
    using parts by (auto simp: cs_def list_all_iff split: list.split)
  moreover have "components p = (if is_absolute p then RootDir # cs else cs)"
    by (simp add: components_def parts_def [symmetric] cs_def is_absolute_def Let_def)
  ultimately show thesis by (rule that)
qed

lemma split_all_separated:
  assumes "xs \<noteq> []" and "\<And>x. x \<in> set xs \<Longrightarrow> CHR ''/'' \<notin> set x"
  shows "split_all (CHR ''/'') (separated xs) = xs"
  using assms
proof (induction xs rule: separated.induct)
  case (2 x)
  then show ?case by (simp add: split_all_single)
next
  case (3 x y zs)
  then show ?case using split_all_append [of "CHR ''/''" x] by simp
qed simp

lemma canonical_text:
  assumes "canonical cs" and "cs \<noteq> []"
  shows "components (collect_path cs) = cs" and "is_absolute (collect_path cs) \<longleftrightarrow> hd cs = RootDir"
proof -
  have names: "components (separated (map component_text cs)) = cs \<and> \<not> is_absolute (separated (map component_text cs))"
    and root: "components (''/'' @ separated (map component_text cs)) = RootDir # cs"
    if l: "list_all (\<lambda>c. plain c \<or> c = ParentDir) cs" "cs \<noteq> []" for cs
  proof -
    have t: "component_text c \<noteq> [] \<and> CHR ''/'' \<notin> set (component_text c) \<and> component_of (component_text c) = c
        \<and> c \<noteq> CurDir" if "c \<in> set cs" for c
      using that l(1) by (auto simp: list_all_iff plain_def component_of_def)
    have s: "split_all (CHR ''/'') (separated (map component_text cs)) = map component_text cs"
      using t that by (intro split_all_separated) auto
    have f: "filter (\<lambda>s. s \<noteq> []) (map component_text cs) = map component_text cs"
      using t by (auto simp: filter_id_conv)
    have m: "map (component_of \<circ> component_text) cs = cs" using t by (simp add: map_idI)
    have c: "filter (\<lambda>c. c \<noteq> CurDir) cs = cs" using t by (auto simp: filter_id_conv)
    obtain d ds where d: "cs = d # ds" using l(2) by (cases cs) auto
    have dt: "component_text d \<noteq> []" "hd (component_text d) \<noteq> CHR ''/''"
      using t [of d] d by (auto simp: hd_in_set) (metis hd_in_set)
    have h: "\<not> is_absolute (separated (map component_text cs))"
      using d dt by (cases ds) (simp_all add: is_absolute_def hd_append)
    show "components (separated (map component_text cs)) = cs \<and> \<not> is_absolute (separated (map component_text cs))"
      using h s f m d t by (simp add: components_def is_absolute_def Let_def filter_id_conv del: filter.simps(2))
    have "split_all (CHR ''/'') (CHR ''/'' # separated (map component_text cs)) = [] # map component_text cs"
      using s by simp
    then show "components (''/'' @ separated (map component_text cs)) = RootDir # cs"
      using f m c by (simp add: components_def)
  qed
  obtain ns where ns: "list_all plain ns" "cs = RootDir # ns \<or> (\<exists>k. cs = replicate k ParentDir @ ns)"
    using assms(1) canonical_def by blast
  have p: "list_all (\<lambda>c. plain c \<or> c = ParentDir) (replicate k ParentDir @ ns)" for k
    using ns(1) by (auto simp: list_all_iff)
  have "components (collect_path cs) = cs \<and> (is_absolute (collect_path cs) \<longleftrightarrow> hd cs = RootDir)"
  proof (cases "cs = RootDir # ns")
    case True
    have "components (''/'' @ separated (map component_text ns)) = RootDir # ns"
    proof (cases "ns = []")
      case True
      then show ?thesis by (simp add: components_def)
    next
      case False
      then show ?thesis using root [of ns] p [of 0] by simp
    qed
    then show ?thesis using True by (simp add: is_absolute_def)
  next
    case False
    then obtain k where k: "cs = replicate k ParentDir @ ns" using ns(2) by blast
    then have l: "list_all (\<lambda>c. plain c \<or> c = ParentDir) cs" using p by simp
    then have "hd cs \<noteq> RootDir" using assms(2) by (cases cs) (auto simp: plain_def)
    then have "collect_path cs = separated (map component_text cs)" using assms(2) by (cases cs rule: collect_path.cases) auto
    then show ?thesis using names [OF l assms(2)] \<open>hd cs \<noteq> RootDir\<close> by simp
  qed
  then show "components (collect_path cs) = cs" "is_absolute (collect_path cs) \<longleftrightarrow> hd cs = RootDir" by simp_all
qed

text \<open>Normalising once is enough, and a path stays absolute or relative.\<close>

lemma norm_components_of_path: "canonical (norm_components (components p))"
  by (rule components_shape [of p]) (auto intro: norm_components_canonical)

lemma lexical_norm_path_idem: "lexical_norm_path (lexical_norm_path p) = lexical_norm_path p"
proof (cases "p = [] \<or> norm_components (components p) = []")
  case True
  then show ?thesis
    by (auto simp: lexical_norm_path_def components_def component_of_def norm_components_def norm_step_def)
next
  case False
  define cs where "cs = norm_components (components p)"
  have c: "canonical cs" "cs \<noteq> []" using False norm_components_of_path cs_def by auto
  then have "components (collect_path cs) = cs" by (rule canonical_text)
  moreover have "collect_path cs \<noteq> []" using calculation c(2) by (auto simp: components_def)
  ultimately have "lexical_norm_path (collect_path cs) = collect_path cs"
    using norm_canonical c by (simp add: lexical_norm_path_def)
  then show ?thesis using False by (simp add: lexical_norm_path_def cs_def [symmetric])
qed

end
