(* ===== verification/Config_Resolve.thy ===== *)
theory Config_Resolve
  imports Config_Schema Config_Diff Dependency_Dag Expression Rust_Path "HOL-Library.Code_Target_Nat"
begin

text \<open>
  The resolution of the raw configuration into one \<open>ProgramConfig\<close> per process instance
  (\<open>SupervisorConfig::resolve_programs\<close> of \<open>src/src/config/schema.rs\<close>): instance names, inheritance
  of the program defaults, evaluation of templates, dependencies on all instances of a program,
  event listener pools, and the check that no log file is shared with a rotating stream.
\<close>

section \<open>Instances\<close>

definition as_config_error :: "'a expansion \<Rightarrow> 'a result" where
  "as_config_error x = map_sum ConfigError id x"

lemma as_config_error_Inr [result_iff]: "as_config_error x = Inr y \<longleftrightarrow> x = Inr y"
  by (cases x) (simp_all add: as_config_error_def)

lemma try_map_pure [simp]: "try_map (\<lambda>k. Inr (f k)) ks = Inr (map f ks)"
  by (induction ks) simp_all

definition base_context :: "Platform \<Rightarrow> SupervisorConfig \<Rightarrow> variables" where
  "base_context pf cfg =
     with_config_dir (pf_vars pf) (pf_hostname pf) (unwrap_or (sc_config_dir cfg) ''.'')"

definition instance_names ::
  "Platform \<Rightarrow> SupervisorConfig \<Rightarrow> string \<Rightarrow> string \<Rightarrow> nat \<Rightarrow> nat \<Rightarrow> string option \<Rightarrow> string list result" where
  "instance_names pf cfg base grp numprocs numprocs_start template =
     (if numprocs = 1 \<and> template = None then Inr [base]
      else try_map (\<lambda>idx.
             let process_num = numprocs_start + idx
             in case template of
                  Some t \<Rightarrow>
                    as_config_error (eval_named
                      (with_program_context base grp process_num numprocs (base_context pf cfg)) t ''process_name'')
                | None \<Rightarrow> Inr (base @ '':'' @ digits_of process_num)) [0..<numprocs])"

definition group_of :: "SupervisorConfig \<Rightarrow> string \<Rightarrow> ProgramConfigRaw \<Rightarrow> string" where
  "group_of cfg base raw =
     (case pr_group raw of
        Some g \<Rightarrow> g
      | None \<Rightarrow> (case List.find (\<lambda>(g, gc). base \<in> set (gr_programs gc)) (sc_groups cfg) of
                   Some (g, _) \<Rightarrow> g
                 | None \<Rightarrow> base))"

definition numprocs_of :: "SupervisorConfig \<Rightarrow> ProgramConfigRaw \<Rightarrow> nat" where
  "numprocs_of cfg raw = unwrap_or (or_option (pr_numprocs raw) (pd_numprocs (sc_program_defaults cfg))) 1"

definition numprocs_start_of :: "SupervisorConfig \<Rightarrow> ProgramConfigRaw \<Rightarrow> nat" where
  "numprocs_start_of cfg raw =
     unwrap_or (or_option (pr_numprocs_start raw) (pd_numprocs_start (sc_program_defaults cfg))) 0"

definition program_instance_names :: "Platform \<Rightarrow> SupervisorConfig \<Rightarrow> string \<times> ProgramConfigRaw \<Rightarrow> string list result" where
  "program_instance_names pf cfg entry =
     (let (base, raw) = entry
      in instance_names pf cfg base (group_of cfg base raw) (numprocs_of cfg raw) (numprocs_start_of cfg raw)
           (or_option (pr_process_name raw) (pd_process_name (sc_program_defaults cfg))))"

text \<open>The first phase: the instances of every program.\<close>

definition program_instances :: "Platform \<Rightarrow> SupervisorConfig \<Rightarrow> (string \<times> string list) list result" where
  "program_instances pf cfg =
     try_map (\<lambda>entry. and_then (program_instance_names pf cfg entry) (\<lambda>ns. Inr (fst entry, ns))) (sc_programs cfg)"

section \<open>One instance\<close>

definition instance_context ::
  "Platform \<Rightarrow> SupervisorConfig \<Rightarrow> string hmap \<Rightarrow> string \<Rightarrow> string \<Rightarrow> nat \<Rightarrow> nat \<Rightarrow> variables" where
  "instance_context pf cfg environment base grp process_num numprocs =
     fold (\<lambda>(k, v). hm_insert (''ENV_'' @ k) v) environment
       (fold (\<lambda>(k, v). hm_insert (''ENV_'' @ k) v) (sc_environment cfg)
         (with_program_context base grp process_num numprocs (base_context pf cfg)))"

definition eval_field :: "variables \<Rightarrow> string \<Rightarrow> string \<Rightarrow> string result" where
  "eval_field expr field text = as_config_error (eval_named expr text field)"

definition resolve_command ::
  "Platform \<Rightarrow> variables \<Rightarrow> string \<Rightarrow> string list \<Rightarrow> (string \<times> string list) result" where
  "resolve_command pf expr command args =
     and_then (eval_field expr ''command'' command) (\<lambda>raw_cmd.
       if args = []
       then (case pf_split pf raw_cmd of
               Inr (cmd # parts) \<Rightarrow> Inr (cmd, parts)
             | _ \<Rightarrow> Inr (raw_cmd, []))
       else and_then (try_map (eval_field expr ''args'') args) (\<lambda>evaled. Inr (raw_cmd, evaled)))"

definition resolve_environment :: "variables \<Rightarrow> (string \<Rightarrow> string) \<Rightarrow> string hmap \<Rightarrow> (string, string) fmap result" where
  "resolve_environment expr field environment =
     and_then (try_map (\<lambda>(k, v). and_then (eval_field expr (field k) v) (\<lambda>w. Inr (k, w))) environment)
       (\<lambda>entries. Inr (fmap_of_list entries))"

definition resolve_logs ::
  "Platform \<Rightarrow> SupervisorConfig \<Rightarrow> variables \<Rightarrow> ProgramConfigRaw \<Rightarrow> string \<Rightarrow> ProgramLogsConfig result" where
  "resolve_logs pf cfg expr raw instance_name =
     (let rl = pr_logs raw; dl = pd_logs (sc_program_defaults cfg);
          enabled = unwrap_or (log_setting lr_enabled rl dl) LogOn
      in and_then
           (case log_setting lr_stdout rl dl of
              Some s \<Rightarrow> and_then (eval_field expr ''stdout_logfile'' s) (\<lambda>p. Inr (Some p))
            | None \<Rightarrow> Inr (if enabled = LogOn then Some (pf_default_log pf (sc_config_dir cfg) instance_name)
                          else None))
           (\<lambda>stdout. and_then (try_option (eval_field expr ''stderr_logfile'') (log_setting lr_stderr rl dl))
             (\<lambda>stderr. Inr
               \<lparr>l_enabled = enabled, l_stdout = stdout, l_stderr = stderr,
                l_buffer_size = log_setting lr_buffer_size rl dl,
                l_max_bytes = log_setting lr_max_bytes rl dl,
                l_backups = log_setting lr_backups rl dl,
                l_stdout_max_bytes = log_setting lr_stdout_max_bytes rl dl,
                l_stderr_max_bytes = log_setting lr_stderr_max_bytes rl dl,
                l_stdout_backups = log_setting lr_stdout_backups rl dl,
                l_stderr_backups = log_setting lr_stderr_backups rl dl,
                l_stdout_timestamp_suffix = unwrap_or (log_setting lr_stdout_timestamp_suffix rl dl) False,
                l_stderr_timestamp_suffix = unwrap_or (log_setting lr_stderr_timestamp_suffix rl dl) False,
                l_stdout_syslog = unwrap_or (log_setting lr_stdout_syslog rl dl) False,
                l_stderr_syslog = unwrap_or (log_setting lr_stderr_syslog rl dl) False,
                l_syslog_facility = log_setting lr_syslog_facility rl dl,
                l_syslog_tag = log_setting lr_syslog_tag rl dl,
                l_syslog_stdout_priority = log_setting lr_syslog_stdout_priority rl dl,
                l_syslog_stderr_priority = log_setting lr_syslog_stderr_priority rl dl,
                l_redirect_stderr = unwrap_or (log_setting lr_redirect_stderr rl dl) False,
                l_stdout_events_enabled =
                  unwrap_or (or_option (Option.bind rl lr_stdout_events_enabled) (pr_stdout_events_enabled raw)) False,
                l_stderr_events_enabled =
                  unwrap_or (or_option (Option.bind rl lr_stderr_events_enabled) (pr_stderr_events_enabled raw)) False\<rparr>)))"

definition resolve_health :: "variables \<Rightarrow> HealthCheckConfig \<Rightarrow> HealthCheckConfig result" where
  "resolve_health expr hc =
     and_then
       (case h_check_type hc of
          Http url status \<Rightarrow> and_then (eval_field expr ''health_check.http.url'' url) (\<lambda>u. Inr (Http u status))
        | HealthCheckType.Tcp endpoint \<Rightarrow>
            and_then (eval_field expr ''health_check.tcp.endpoint'' endpoint) (\<lambda>e. Inr (HealthCheckType.Tcp e))
        | Exec command \<Rightarrow> and_then (eval_field expr ''health_check.exec.command'' command) (\<lambda>c. Inr (Exec c)))
       (\<lambda>ct. Inr (hc\<lparr>h_check_type := ct\<rparr>))"

definition resolve_depends :: "(string \<times> string list) list \<Rightarrow> string list \<Rightarrow> string list" where
  "resolve_depends instances deps =
     concat (map (\<lambda>dep. case hm_get instances dep of Some ns \<Rightarrow> ns | None \<Rightarrow> [dep]) deps)"

definition group_flags :: "string \<Rightarrow> bool option \<Rightarrow> bool option \<Rightarrow> (bool \<times> bool) result" where
  "group_flags who stop kill =
     (let stop_as_group = unwrap_or stop False; kill_as_group = unwrap_or kill stop_as_group
      in if stop_as_group \<and> \<not> kill_as_group
         then Inl (ConfigError (who @ '' cannot set stop_as_group=true and kill_as_group=false''))
         else Inr (stop_as_group, kill_as_group))"

definition resolve_instance ::
  "Platform \<Rightarrow> SupervisorConfig \<Rightarrow> (string \<times> string list) list \<Rightarrow> string \<Rightarrow> ProgramConfigRaw \<Rightarrow> nat \<Rightarrow> string \<Rightarrow>
   ProgramConfig result" where
  "resolve_instance pf cfg instances base raw idx instance_name =
     (let d = sc_program_defaults cfg;
          grp = group_of cfg base raw;
          expr = instance_context pf cfg (pr_environment raw) base grp (numprocs_start_of cfg raw + idx)
                   (numprocs_of cfg raw)
      in and_then (resolve_command pf expr (pr_command raw) (pr_args raw)) (\<lambda>(command, args).
         and_then (try_option (eval_field expr ''directory'') (pr_directory raw)) (\<lambda>directory.
         and_then (resolve_environment expr (\<lambda>_. ''environment'') (pr_environment raw)) (\<lambda>environment.
         and_then (resolve_logs pf cfg expr raw instance_name) (\<lambda>logs.
         and_then (try_option (resolve_health expr) (or_option (pr_health_check raw) (pd_health_check d))) (\<lambda>health.
         and_then (try_option (eval_field expr ''pre_start'') (or_option (pr_pre_start raw) (pd_pre_start d))) (\<lambda>pre_start.
         and_then (try_option (eval_field expr ''pre_stop'') (or_option (pr_pre_stop raw) (pd_pre_stop d))) (\<lambda>pre_stop.
         and_then (try_option (eval_field expr ''restart_cmd_when_binary_changed'')
             (or_option (pr_restart_cmd_when_binary_changed raw) (pd_restart_cmd_when_binary_changed d))) (\<lambda>cmd_binary.
         and_then (try_option (eval_field expr ''restart_directory_monitor'')
             (or_option (pr_restart_directory_monitor raw) (pd_restart_directory_monitor d))) (\<lambda>monitor.
         and_then (try_option (eval_field expr ''restart_cmd_when_file_changed'')
             (or_option (pr_restart_cmd_when_file_changed raw) (pd_restart_cmd_when_file_changed d))) (\<lambda>cmd_file.
         and_then (group_flags (''Program '' @ quoted base) (or_option (pr_stop_as_group raw) (pd_stop_as_group d))
             (or_option (pr_kill_as_group raw) (pd_kill_as_group d))) (\<lambda>(stop_as_group, kill_as_group).
         Inr \<lparr>c_name = instance_name, c_command = command, c_args = args, c_directory = directory,
              c_user = pr_user raw, c_environment = environment,
              c_priority = unwrap_or (or_option (pr_priority raw) (pd_priority d)) DEFAULT_PRIORITY,
              c_depends_on = resolve_depends instances (pr_depends_on raw),
              c_autostart = unwrap_or (or_option (pr_autostart raw) (pd_autostart d)) (pr_cron raw = None),
              c_autorestart = unwrap_or (or_option (pr_autorestart raw) (pd_autorestart d)) Unexpected,
              c_start_secs = unwrap_or (or_option (pr_start_secs raw) (pd_start_secs d)) DEFAULT_START,
              c_start_retries = unwrap_or (or_option (pr_start_retries raw) (pd_start_retries d)) DEFAULT_START_RETRIES,
              c_restart_pause_secs =
                unwrap_or (or_option (pr_restart_pause_secs raw) (pd_restart_pause_secs d)) DEFAULT_RESTART_PAUSE,
              c_stop_signal = unwrap_or (or_option (pr_stop_signal raw) (pd_stop_signal d)) (pf_default_signal pf),
              c_stop_wait_secs = unwrap_or (or_option (pr_stop_wait_secs raw) (pd_stop_wait_secs d)) DEFAULT_STOP_WAIT,
              c_exit_codes = unwrap_or (pr_exit_codes raw) [0], c_umask = pr_umask raw, c_logs = logs,
              c_health_check = health, c_group = grp,
              c_group_priority =
                unwrap_or (Option.bind (hm_get (sc_groups cfg) grp) gr_priority) DEFAULT_GROUP_PRIORITY,
              c_cron = pr_cron raw, c_cron_stop = pr_cron_stop raw, c_pre_start = pre_start, c_pre_stop = pre_stop,
              c_pre_start_ignore_failure =
                unwrap_or (or_option (pr_pre_start_ignore_failure raw) (pd_pre_start_ignore_failure d)) False,
              c_hook_timeout_secs =
                unwrap_or (or_option (pr_hook_timeout_secs raw) (pd_hook_timeout_secs d)) DEFAULT_HOOK_TIMEOUT,
              c_restart_when_binary_changed =
                unwrap_or (or_option (pr_restart_when_binary_changed raw) (pd_restart_when_binary_changed d)) False,
              c_restart_signal_when_binary_changed =
                or_option (pr_restart_signal_when_binary_changed raw) (pd_restart_signal_when_binary_changed d),
              c_restart_cmd_when_binary_changed = cmd_binary, c_restart_directory_monitor = monitor,
              c_restart_file_pattern = or_option (pr_restart_file_pattern raw) (pd_restart_file_pattern d),
              c_restart_signal_when_file_changed =
                or_option (pr_restart_signal_when_file_changed raw) (pd_restart_signal_when_file_changed d),
              c_restart_cmd_when_file_changed = cmd_file,
              c_restart_debounce_secs =
                unwrap_or (or_option (pr_restart_debounce_secs raw) (pd_restart_debounce_secs d))
                  DEFAULT_RESTART_DEBOUNCE,
              c_env_files = unwrap_or (or_option (pr_env_files raw) (pd_env_files d)) [],
              c_kill_wait_secs = unwrap_or (or_option (pr_kill_wait_secs raw) (pd_kill_wait_secs d)) DEFAULT_KILL_WAIT,
              c_stop_as_group = stop_as_group, c_kill_as_group = kill_as_group,
              c_event_listener = None\<rparr>))))))))))))"

section \<open>One listener process\<close>

definition listener_names :: "Platform \<Rightarrow> SupervisorConfig \<Rightarrow> string \<times> EventListenerConfigRaw \<Rightarrow> string list result" where
  "listener_names pf cfg entry =
     (let (name, er) = entry
      in instance_names pf cfg name name (unwrap_or (er_numprocs er) 1) (unwrap_or (er_numprocs_start er) 0)
           (er_process_name er))"

definition listener_config :: "string \<Rightarrow> EventListenerConfigRaw \<Rightarrow> EventListenerConfig" where
  "listener_config name er =
     \<lparr>e_pool_name = name, e_events = er_events er, e_buffer_size = max (er_buffer_size er) 1,
      e_result_handler = er_result_handler er\<rparr>"

definition resolve_listener ::
  "Platform \<Rightarrow> SupervisorConfig \<Rightarrow> string \<Rightarrow> EventListenerConfigRaw \<Rightarrow> nat \<Rightarrow> string \<Rightarrow> ProgramConfig result" where
  "resolve_listener pf cfg name er idx instance_name =
     (let expr = instance_context pf cfg (er_environment er) name name (unwrap_or (er_numprocs_start er) 0 + idx)
                   (unwrap_or (er_numprocs er) 1)
      in and_then (resolve_command pf expr (er_command er) (er_args er)) (\<lambda>(command, args).
         and_then (try_option (eval_field expr ''directory'') (er_directory er)) (\<lambda>directory.
         and_then (resolve_environment expr (\<lambda>k. ''environment.'' @ k) (er_environment er)) (\<lambda>environment.
         and_then (try_option (eval_field expr ''stderr_logfile'') (er_stderr_logfile er)) (\<lambda>stderr.
         and_then (group_flags (''Event listener '' @ quoted name) (er_stop_as_group er) (er_kill_as_group er))
           (\<lambda>(stop_as_group, kill_as_group).
         Inr \<lparr>c_name = instance_name, c_command = command, c_args = args, c_directory = directory,
              c_user = er_user er, c_environment = environment,
              c_priority = (if er_priority er < 0 then 0 else nat (er_priority er)), c_depends_on = [],
              c_autostart = unwrap_or (er_autostart er) True,
              c_autorestart = unwrap_or (er_autorestart er) Unexpected,
              c_start_secs = unwrap_or (er_start_secs er) DEFAULT_START,
              c_start_retries = unwrap_or (er_start_retries er) DEFAULT_START_RETRIES,
              c_restart_pause_secs = DEFAULT_RESTART_PAUSE,
              c_stop_signal = unwrap_or (er_stop_signal er) (pf_default_signal pf),
              c_stop_wait_secs = unwrap_or (er_stop_wait_secs er) DEFAULT_STOP_WAIT, c_exit_codes = [0],
              c_umask = er_umask er,
              c_logs = default_logs\<lparr>l_enabled := LogOn, l_stdout := None, l_stderr := stderr\<rparr>,
              c_health_check = None, c_group = name, c_group_priority = 0, c_cron = None, c_cron_stop = None,
              c_pre_start = None, c_pre_stop = None, c_pre_start_ignore_failure = False,
              c_hook_timeout_secs = DEFAULT_HOOK_TIMEOUT, c_restart_when_binary_changed = False,
              c_restart_signal_when_binary_changed = None, c_restart_cmd_when_binary_changed = None,
              c_restart_directory_monitor = None, c_restart_file_pattern = None,
              c_restart_signal_when_file_changed = None, c_restart_cmd_when_file_changed = None,
              c_restart_debounce_secs = DEFAULT_RESTART_DEBOUNCE, c_env_files = unwrap_or (er_env_files er) [],
              c_kill_wait_secs = DEFAULT_KILL_WAIT, c_stop_as_group = stop_as_group,
              c_kill_as_group = kill_as_group, c_event_listener = Some (listener_config name er)\<rparr>))))))"

section \<open>All instances\<close>

definition insert_new :: "(string \<Rightarrow> string) \<Rightarrow> ProgramConfig hmap \<Rightarrow> string \<Rightarrow> ProgramConfig \<Rightarrow> ProgramConfig hmap result" where
  "insert_new message resolved name prog =
     (if contains_key resolved name then Inl (ConfigError (message name))
      else Inr (hm_insert name prog resolved))"

definition duplicate_program :: "string \<Rightarrow> string" where
  "duplicate_program name = ''Duplicate program instance name '' @ quoted name @ '' produced during expansion''"

definition duplicate_listener :: "string \<Rightarrow> string" where
  "duplicate_listener name = ''Duplicate program/eventlistener instance name '' @ quoted name"

definition resolve_all_instances ::
  "(nat \<Rightarrow> string \<Rightarrow> ProgramConfig result) \<Rightarrow> (string \<Rightarrow> string) \<Rightarrow> string list \<Rightarrow> ProgramConfig hmap \<Rightarrow>
   ProgramConfig hmap result" where
  "resolve_all_instances build_one message names resolved =
     try_fold (\<lambda>acc (idx, name). and_then (build_one idx name) (insert_new message acc name))
       (enumerate 0 names) resolved"

definition resolve_program ::
  "Platform \<Rightarrow> SupervisorConfig \<Rightarrow> (string \<times> string list) list \<Rightarrow> ProgramConfig hmap \<Rightarrow>
   string \<times> ProgramConfigRaw \<Rightarrow> ProgramConfig hmap result" where
  "resolve_program pf cfg instances resolved entry =
     (let (base, raw) = entry
      in and_then (priority_check base
             (unwrap_or (or_option (pr_priority raw) (pd_priority (sc_program_defaults cfg))) DEFAULT_PRIORITY))
           (\<lambda>_. resolve_all_instances (resolve_instance pf cfg instances base raw) duplicate_program
                  (unwrap_or (hm_get instances base) []) resolved))"

definition resolve_listener_pool ::
  "Platform \<Rightarrow> SupervisorConfig \<Rightarrow> ProgramConfig hmap \<Rightarrow> string \<times> EventListenerConfigRaw \<Rightarrow>
   ProgramConfig hmap result" where
  "resolve_listener_pool pf cfg resolved entry =
     and_then (listener_names pf cfg entry)
       (\<lambda>names. resolve_all_instances (resolve_listener pf cfg (fst entry) (snd entry)) duplicate_listener names resolved)"

section \<open>Shared log files\<close>

text \<open>The file streams: path, name of the stream, whether it rotates.\<close>

definition streams_of :: "string \<Rightarrow> string \<Rightarrow> bool \<Rightarrow> (string \<times> string \<times> bool) list" where
  "streams_of path name rotating =
     (case parse_destination path of
        Inr dest \<Rightarrow> map (\<lambda>p. (p, name, rotating)) (file_paths dest)
      | Inl _ \<Rightarrow> [])"

definition daemon_streams :: "LoggingConfig \<Rightarrow> (string \<times> string \<times> bool) list" where
  "daemon_streams lg =
     (case g_file lg of
        Some p \<Rightarrow> streams_of p ''daemon:main'' (0 < unwrap_or (g_max_bytes lg) DEFAULT_LOG_MAX_BYTES)
      | None \<Rightarrow> [])"

definition program_streams :: "string \<times> ProgramConfig \<Rightarrow> (string \<times> string \<times> bool) list" where
  "program_streams entry =
     (let (name, prog) = entry; l = c_logs prog
      in if l_enabled l = LogOff then []
         else (case l_stdout l of
                 Some p \<Rightarrow> streams_of p (name @ '':stdout'') (0 < effective_stdout_max_bytes l)
               | None \<Rightarrow> []) @
              (if l_redirect_stderr l then []
               else (case l_stderr l of
                       Some p \<Rightarrow> streams_of p (name @ '':stderr'') (0 < effective_stderr_max_bytes l)
                     | None \<Rightarrow> [])))"

definition file_streams :: "SupervisorConfig \<Rightarrow> ProgramConfig hmap \<Rightarrow> (string \<times> string \<times> bool) list" where
  "file_streams cfg resolved = daemon_streams (sc_logging cfg) @ concat (map program_streams resolved)"

definition check_shared_files :: "(string \<times> string \<times> bool) list \<Rightarrow> unit result" where
  "check_shared_files streams =
     (case List.find (\<lambda>(p, _). let g = filter (\<lambda>(q, _). same_path p q) streams
                               in 1 < length g \<and> list_ex (\<lambda>(_, _, r). r) g) streams of
        Some (p, _) \<Rightarrow>
          Inl (ConfigError (''Duplicate log file path '' @ quoted p @ '' configured for multiple streams (''
            @ debug_list (map (fst \<circ> snd) (filter (\<lambda>(q, _). same_path p q) streams))
            @ '') with rotation enabled. Set '' @ quoted ''redirect_stderr: true''
            @ '' to combine stdout and stderr, or configure distinct log paths to avoid competing rotators.''))
      | None \<Rightarrow> Inr ())"

definition resolve_programs :: "Platform \<Rightarrow> SupervisorConfig \<Rightarrow> ProgramConfig hmap result" where
  "resolve_programs pf cfg =
     and_then (program_instances pf cfg) (\<lambda>instances.
       and_then (try_fold (resolve_program pf cfg instances) (sc_programs cfg) []) (\<lambda>progs.
         and_then (try_fold (resolve_listener_pool pf cfg) (sc_event_listeners cfg) progs) (\<lambda>resolved.
           and_then (check_shared_files (file_streams cfg resolved)) (\<lambda>_. Inr resolved))))"

section \<open>What a resolved configuration consists of\<close>

lemma resolve_instance_fields:
  assumes "resolve_instance pf cfg instances base raw i n = Inr c"
  shows "c_name c = n" "c_depends_on c = resolve_depends instances (pr_depends_on raw)"
    "c_group c = group_of cfg base raw" "c_stop_as_group c \<Longrightarrow> c_kill_as_group c" "c_event_listener c = None"
    "c_priority c = unwrap_or (or_option (pr_priority raw) (pd_priority (sc_program_defaults cfg))) DEFAULT_PRIORITY"
  using assms unfolding resolve_instance_def Let_def and_then_Inr
  by (auto simp: and_then_Inr group_flags_def Let_def split: if_splits)

lemma resolve_listener_fields:
  assumes "resolve_listener pf cfg name er i n = Inr c"
  shows "c_name c = n" "c_depends_on c = []" "c_group c = name" "c_stop_as_group c \<Longrightarrow> c_kill_as_group c"
    "c_event_listener c = Some (listener_config name er)" "l_stdout (c_logs c) = None"
  using assms unfolding resolve_listener_def Let_def and_then_Inr
  by (auto simp: and_then_Inr group_flags_def Let_def split: if_splits)

lemma resolve_all_instances_from:
  assumes "try_fold (\<lambda>acc (idx, name). and_then (f idx name) (insert_new message acc name)) (enumerate k names) acc = Inr m"
  shows "\<exists>new. m = acc @ new \<and> map fst new = names \<and> (\<forall>(n, c) \<in> set new. \<exists>i. f i n = Inr c) \<and>
    (hm_wf acc \<longrightarrow> hm_wf m)"
  using assms
proof (induction names arbitrary: k acc)
  case (Cons n names)
  then obtain c acc' where c: "f k n = Inr c" "insert_new message acc n c = Inr acc'"
    "try_fold (\<lambda>acc (idx, name). and_then (f idx name) (insert_new message acc name)) (enumerate (Suc k) names) acc' = Inr m"
    by (auto simp: and_then_Inr)
  then have a: "acc' = hm_insert n c acc" "n \<notin> set (keys acc)"
    by (auto simp: insert_new_def contains_key_def split: if_splits)
  from Cons.IH [OF c(3)] obtain new where "m = acc' @ new" "map fst new = names"
    "\<forall>(n, c) \<in> set new. \<exists>i. f i n = Inr c" "hm_wf acc' \<longrightarrow> hm_wf m" by blast
  moreover have "hm_wf acc \<longrightarrow> hm_wf acc'" using a(1) by simp
  ultimately show ?case using a c(1) by (intro exI [of _ "(n, c) # new"]) (auto simp: hm_insert_absent)
qed simp

lemma resolve_all_instances_ok:
  assumes "resolve_all_instances f message names acc = Inr m"
  shows "\<exists>new. m = acc @ new \<and> map fst new = names \<and> (\<forall>(n, c) \<in> set new. \<exists>i. f i n = Inr c) \<and>
    (hm_wf acc \<longrightarrow> hm_wf m)"
  using assms unfolding resolve_all_instances_def by (rule resolve_all_instances_from)

lemma try_fold_extends:
  assumes "try_fold g es acc = Inr m"
    and step: "\<And>acc e m. g acc e = Inr m \<Longrightarrow> \<exists>new. m = acc @ new \<and> Q e new \<and> (hm_wf acc \<longrightarrow> hm_wf m)"
  shows "\<exists>news. m = acc @ concat news \<and> list_all2 Q es news \<and> (hm_wf acc \<longrightarrow> hm_wf m)"
  using assms(1)
proof (induction es arbitrary: acc)
  case Nil
  then show ?case by (intro exI [of _ "[]"]) simp
next
  case (Cons e es)
  then obtain acc' where c: "g acc e = Inr acc'" "try_fold g es acc' = Inr m" by (auto simp: and_then_Inr)
  obtain new where n: "acc' = acc @ new" "Q e new" "hm_wf acc \<longrightarrow> hm_wf acc'" using step [OF c(1)] by blast
  obtain news where "m = acc' @ concat news" "list_all2 Q es news" "hm_wf acc' \<longrightarrow> hm_wf m"
    using Cons.IH [OF c(2)] by blast
  then show ?case using n by (intro exI [of _ "new # news"]) simp
qed

definition program_block ::
  "Platform \<Rightarrow> SupervisorConfig \<Rightarrow> (string \<times> string list) list \<Rightarrow> string \<times> ProgramConfigRaw \<Rightarrow>
   ProgramConfig hmap \<Rightarrow> bool" where
  "program_block pf cfg instances entry new \<longleftrightarrow>
     map fst new = unwrap_or (hm_get instances (fst entry)) [] \<and>
     unwrap_or (or_option (pr_priority (snd entry)) (pd_priority (sc_program_defaults cfg))) DEFAULT_PRIORITY \<le> MAX_PRIORITY \<and>
     (\<forall>(n, c) \<in> set new. \<exists>i. resolve_instance pf cfg instances (fst entry) (snd entry) i n = Inr c)"

definition listener_block ::
  "Platform \<Rightarrow> SupervisorConfig \<Rightarrow> string \<times> EventListenerConfigRaw \<Rightarrow> ProgramConfig hmap \<Rightarrow> bool" where
  "listener_block pf cfg entry new \<longleftrightarrow>
     listener_names pf cfg entry = Inr (map fst new) \<and>
     (\<forall>(n, c) \<in> set new. \<exists>i. resolve_listener pf cfg (fst entry) (snd entry) i n = Inr c)"

lemma resolve_programs_blocks:
  assumes "resolve_programs pf cfg = Inr m"
  obtains instances pbs lbs where "program_instances pf cfg = Inr instances"
    and "m = concat pbs @ concat lbs" and "hm_wf m"
    and "list_all2 (program_block pf cfg instances) (sc_programs cfg) pbs"
    and "list_all2 (listener_block pf cfg) (sc_event_listeners cfg) lbs"
    and "check_shared_files (file_streams cfg m) = Inr ()"
proof -
  obtain instances progs where i: "program_instances pf cfg = Inr instances"
    and p: "try_fold (resolve_program pf cfg instances) (sc_programs cfg) [] = Inr progs"
    and l: "try_fold (resolve_listener_pool pf cfg) (sc_event_listeners cfg) progs = Inr m"
    and s: "check_shared_files (file_streams cfg m) = Inr ()"
    using assms by (auto simp: resolve_programs_def and_then_Inr)
  have ps: "\<exists>new. m = acc @ new \<and> program_block pf cfg instances e new \<and> (hm_wf acc \<longrightarrow> hm_wf m)"
    if h: "resolve_program pf cfg instances acc e = Inr m" for acc e m
  proof -
    obtain base raw where e: "e = (base, raw)" by fastforce
    have "unwrap_or (or_option (pr_priority raw) (pd_priority (sc_program_defaults cfg))) DEFAULT_PRIORITY \<le> MAX_PRIORITY"
      and "resolve_all_instances (resolve_instance pf cfg instances base raw) duplicate_program
             (unwrap_or (hm_get instances base) []) acc = Inr m"
      using h e by (auto simp: resolve_program_def and_then_Inr priority_check_def ensure_Inr)
    then show ?thesis using resolve_all_instances_ok e by (fastforce simp: program_block_def)
  qed
  have ls: "\<exists>new. m = acc @ new \<and> listener_block pf cfg e new \<and> (hm_wf acc \<longrightarrow> hm_wf m)"
    if h: "resolve_listener_pool pf cfg acc e = Inr m" for acc e m
  proof -
    obtain names where "listener_names pf cfg e = Inr names"
      "resolve_all_instances (resolve_listener pf cfg (fst e) (snd e)) duplicate_listener names acc = Inr m"
      using h by (auto simp: resolve_listener_pool_def and_then_Inr)
    then show ?thesis using resolve_all_instances_ok by (fastforce simp: listener_block_def)
  qed
  obtain pbs where pb: "progs = concat pbs" "list_all2 (program_block pf cfg instances) (sc_programs cfg) pbs" "hm_wf progs"
    using try_fold_extends [where Q = "program_block pf cfg instances", OF p ps] by (auto simp: hm_wf_def keys_def)
  obtain lbs where lb: "m = progs @ concat lbs" "list_all2 (listener_block pf cfg) (sc_event_listeners cfg) lbs" "hm_wf m"
    using try_fold_extends [where Q = "listener_block pf cfg", OF l ls] pb(3) by auto
  show thesis using that i pb lb s by blast
qed

text \<open>The instances of a program.\<close>

definition instances_of :: "(string \<times> string list) list \<Rightarrow> string \<Rightarrow> string list" where
  "instances_of instances base = unwrap_or (hm_get instances base) []"

lemma program_instances_keys:
  assumes "program_instances pf cfg = Inr instances"
  shows "keys instances = keys (sc_programs cfg)"
    and "list_all2 (\<lambda>entry i. program_instance_names pf cfg entry = Inr (snd i)) (sc_programs cfg) instances"
proof -
  have l: "list_all2 (\<lambda>entry i. and_then (program_instance_names pf cfg entry) (\<lambda>ns. Inr (fst entry, ns)) = Inr i)
      (sc_programs cfg) instances"
    using assms by (simp add: program_instances_def try_map_Inr)
  then have "list_all2 (\<lambda>entry i. fst i = fst entry \<and> program_instance_names pf cfg entry = Inr (snd i))
      (sc_programs cfg) instances"
    by (rule list_all2_mono) (auto simp: and_then_Inr)
  then show "keys instances = keys (sc_programs cfg)"
    and "list_all2 (\<lambda>entry i. program_instance_names pf cfg entry = Inr (snd i)) (sc_programs cfg) instances"
    by (auto simp: keys_def list_all2_conv_all_nth intro: nth_equalityI)
qed

lemma instances_of_entry:
  assumes "program_instances pf cfg = Inr instances" and "hm_wf (sc_programs cfg)"
    and "(base, raw) \<in> set (sc_programs cfg)"
  shows "program_instance_names pf cfg (base, raw) = Inr (instances_of instances base)"
proof -
  have k: "keys instances = keys (sc_programs cfg)" by (rule program_instances_keys [OF assms(1)])
  then have wf: "hm_wf instances" using assms(2) by (simp add: hm_wf_def)
  obtain i where i: "i < length (sc_programs cfg)" "sc_programs cfg ! i = (base, raw)"
    using assms(3) by (metis in_set_conv_nth)
  have len: "length instances = length (sc_programs cfg)" using k by (metis keys_def length_map)
  have "map fst instances ! i = map fst (sc_programs cfg) ! i" using k by (simp add: keys_def)
  then have "fst (instances ! i) = base" using i len by simp
  then have "(base, snd (instances ! i)) \<in> set instances" using nth_mem [of i instances] i(1) len by (cases "instances ! i") simp
  then have "instances_of instances base = snd (instances ! i)"
    using wf by (simp add: instances_of_def unwrap_or_def flip: hm_get_Some_iff)
  moreover have "program_instance_names pf cfg (base, raw) = Inr (snd (instances ! i))"
    using program_instances_keys(2) [OF assms(1)] i by (auto simp: list_all2_conv_all_nth)
  ultimately show ?thesis by simp
qed

lemma instance_names_length:
  "instance_names pf cfg base grp k start template = Inr ns \<Longrightarrow> length ns = k"
  by (auto simp: instance_names_def try_map_Inr list_all2_conv_all_nth split: if_splits)

lemma program_entries:
  assumes "list_all2 (program_block pf cfg instances) ps pbs"
  shows "map fst (concat pbs) = concat (map (instances_of instances \<circ> fst) ps)"
    and "(n, c) \<in> set (concat pbs) \<Longrightarrow>
      \<exists>base raw i. (base, raw) \<in> set ps \<and> n \<in> set (instances_of instances base) \<and>
        resolve_instance pf cfg instances base raw i n = Inr c"
proof -
  show "map fst (concat pbs) = concat (map (instances_of instances \<circ> fst) ps)"
    using assms by (induction rule: list_all2_induct) (auto simp: program_block_def instances_of_def)
  show "\<exists>base raw i. (base, raw) \<in> set ps \<and> n \<in> set (instances_of instances base) \<and>
      resolve_instance pf cfg instances base raw i n = Inr c" if "(n, c) \<in> set (concat pbs)"
    using assms that
  proof (induction rule: list_all2_induct)
    case (Cons e es b bs)
    obtain base raw where e: "e = (base, raw)" by fastforce
    show ?case
    proof (cases "(n, c) \<in> set b")
      case True
      have b: "map fst b = instances_of instances base"
        and r: "\<forall>(n, c) \<in> set b. \<exists>i. resolve_instance pf cfg instances base raw i n = Inr c"
        using Cons.hyps(1) unfolding program_block_def instances_of_def e fst_conv snd_conv by blast+
      have "n \<in> set (map fst b)" using True by force
      moreover obtain i where "resolve_instance pf cfg instances base raw i n = Inr c" using r True by blast
      ultimately show ?thesis using b e by (intro exI [of _ base] exI [of _ raw] exI [of _ i]) simp
    next
      case False
      then show ?thesis using Cons.IH Cons.prems by auto
    qed
  qed simp
qed

lemma listener_entries:
  assumes "list_all2 (listener_block pf cfg) ls lbs"
  shows "list_all2 (\<lambda>e b. listener_names pf cfg e = Inr (map fst b)) ls lbs"
    and "(n, c) \<in> set (concat lbs) \<Longrightarrow>
      \<exists>name er i. (name, er) \<in> set ls \<and> resolve_listener pf cfg name er i n = Inr c"
proof -
  show "list_all2 (\<lambda>e b. listener_names pf cfg e = Inr (map fst b)) ls lbs"
    using assms by (rule list_all2_mono) (simp add: listener_block_def)
  show "\<exists>name er i. (name, er) \<in> set ls \<and> resolve_listener pf cfg name er i n = Inr c"
    if "(n, c) \<in> set (concat lbs)"
    using assms that
  proof (induction rule: list_all2_induct)
    case (Cons e es b bs)
    obtain name er where e: "e = (name, er)" by fastforce
    show ?case
    proof (cases "(n, c) \<in> set b")
      case True
      have "\<forall>(n, c) \<in> set b. \<exists>i. resolve_listener pf cfg name er i n = Inr c"
        using Cons.hyps(1) unfolding listener_block_def e fst_conv snd_conv by blast
      then obtain i where "resolve_listener pf cfg name er i n = Inr c" using True by blast
      then show ?thesis using e by (intro exI [of _ name] exI [of _ er] exI [of _ i]) simp
    next
      case False
      then show ?thesis using Cons.IH Cons.prems by auto
    qed
  qed simp
qed

section \<open>Properties\<close>

definition config_typed :: "ProgramConfig \<Rightarrow> bool" where
  "config_typed c \<longleftrightarrow>
     (c_stop_as_group c \<longrightarrow> c_kill_as_group c) \<and>
     (case c_event_listener c of
        None \<Rightarrow> c_priority c \<le> MAX_PRIORITY
      | Some el \<Rightarrow> 1 \<le> e_buffer_size el \<and> e_pool_name el = c_group c \<and> c_depends_on c = [] \<and>
                  l_stdout (c_logs c) = None)"

lemma resolved_entries:
  assumes "resolve_programs pf cfg = Inr m"
  shows "hm_wf m" and "(n, c) \<in> set m \<Longrightarrow> c_name c = n \<and> config_typed c"
proof -
  obtain instances pbs lbs where i: "program_instances pf cfg = Inr instances"
    and m: "m = concat pbs @ concat lbs" "hm_wf m"
    and p: "list_all2 (program_block pf cfg instances) (sc_programs cfg) pbs"
    and l: "list_all2 (listener_block pf cfg) (sc_event_listeners cfg) lbs"
    by (rule resolve_programs_blocks [OF assms])
  have prio: "unwrap_or (or_option (pr_priority raw) (pd_priority (sc_program_defaults cfg))) DEFAULT_PRIORITY \<le> MAX_PRIORITY"
    if "(base, raw) \<in> set (sc_programs cfg)" for base raw
    using p that unfolding list_all2_conv_all_nth program_block_def by (metis in_set_conv_nth snd_conv)
  show "hm_wf m" by (rule m(2))
  show "c_name c = n \<and> config_typed c" if "(n, c) \<in> set m"
  proof -
    consider "(n, c) \<in> set (concat pbs)" | "(n, c) \<in> set (concat lbs)" using \<open>(n, c) \<in> set m\<close> m(1) by auto
    then show ?thesis
    proof cases
      case 1
      then obtain base raw i where b: "(base, raw) \<in> set (sc_programs cfg)"
        "resolve_instance pf cfg instances base raw i n = Inr c"
        using program_entries(2) [OF p] by blast
      then show ?thesis using resolve_instance_fields [OF b(2)] prio [OF b(1)] by (simp add: config_typed_def)
    next
      case 2
      then obtain name er i where b: "resolve_listener pf cfg name er i n = Inr c"
        using listener_entries(2) [OF l] by blast
      then show ?thesis using resolve_listener_fields [OF b] by (simp add: config_typed_def listener_config_def)
    qed
  qed
qed

lemma resolved_named: "resolve_programs pf cfg = Inr m \<Longrightarrow> named_map m"
  using resolved_entries by (fastforce simp: named_map_def)


text \<open>
  The instances of a resolved configuration are, in order, those of the programs and then those
  of the listener pools, nothing else and none twice: a program has exactly \<open>numprocs\<close> of them, and
  without a name template they are its own name, or its name with the numbers from \<open>numprocs_start\<close>.
\<close>

theorem resolved_instances:
  assumes "resolve_programs pf cfg = Inr m" and "hm_wf (sc_programs cfg)"
  shows "\<exists>instances lns. program_instances pf cfg = Inr instances \<and>
      list_all2 (\<lambda>e ns. listener_names pf cfg e = Inr ns) (sc_event_listeners cfg) lns \<and>
      keys m = concat (map (instances_of instances) (keys (sc_programs cfg))) @ concat lns \<and> distinct (keys m) \<and>
      (\<forall>(base, raw) \<in> set (sc_programs cfg).
         length (instances_of instances base) = numprocs_of cfg raw \<and>
         (or_option (pr_process_name raw) (pd_process_name (sc_program_defaults cfg)) = None \<longrightarrow>
            instances_of instances base =
              (if numprocs_of cfg raw = 1 then [base]
               else map (\<lambda>k. base @ '':'' @ digits_of (numprocs_start_of cfg raw + k)) [0..<numprocs_of cfg raw])))"
proof -
  obtain instances pbs lbs where i: "program_instances pf cfg = Inr instances"
    and m: "m = concat pbs @ concat lbs" "hm_wf m"
    and p: "list_all2 (program_block pf cfg instances) (sc_programs cfg) pbs"
    and l: "list_all2 (listener_block pf cfg) (sc_event_listeners cfg) lbs"
    by (rule resolve_programs_blocks [OF assms(1)])
  have "keys m = concat (map (instances_of instances) (keys (sc_programs cfg))) @ concat (map (map fst) lbs)"
    using m(1) program_entries(1) [OF p] by (simp add: keys_def map_concat)
  moreover have "list_all2 (\<lambda>e ns. listener_names pf cfg e = Inr ns) (sc_event_listeners cfg) (map (map fst) lbs)"
    using listener_entries(1) [OF l] by (simp add: list_all2_map2)
  moreover have "length (instances_of instances base) = numprocs_of cfg raw \<and>
      (or_option (pr_process_name raw) (pd_process_name (sc_program_defaults cfg)) = None \<longrightarrow>
         instances_of instances base =
           (if numprocs_of cfg raw = 1 then [base]
            else map (\<lambda>k. base @ '':'' @ digits_of (numprocs_start_of cfg raw + k)) [0..<numprocs_of cfg raw]))"
    if e: "(base, raw) \<in> set (sc_programs cfg)" for base raw
  proof -
    have n: "instance_names pf cfg base (group_of cfg base raw) (numprocs_of cfg raw) (numprocs_start_of cfg raw)
        (or_option (pr_process_name raw) (pd_process_name (sc_program_defaults cfg))) = Inr (instances_of instances base)"
      using instances_of_entry [OF i assms(2) e] by (simp add: program_instance_names_def)
    show ?thesis using n instance_names_length [OF n]
      by (auto simp: instance_names_def Let_def split: if_splits)
  qed
  ultimately show ?thesis using i m(2) unfolding hm_wf_def
    by (intro exI [of _ instances] exI [of _ "map (map fst) lbs"]) auto
qed

text \<open>The dependencies between the programs as they are written.\<close>

definition depends_rel :: "SupervisorConfig \<Rightarrow> (string \<times> string) set" where
  "depends_rel cfg = {(b, a). \<exists>raw. (a, raw) \<in> set (sc_programs cfg) \<and> b \<in> set (pr_depends_on raw)}"

lemma distinct_concat_owner:
  "distinct ks \<Longrightarrow> distinct (concat (map f ks)) \<Longrightarrow> n \<in> set (f a) \<Longrightarrow> n \<in> set (f b) \<Longrightarrow> a \<in> set ks \<Longrightarrow>
     b \<in> set ks \<Longrightarrow> a = b"
  by (induction ks) fastforce+

lemma trancl_image:
  assumes "(x, y) \<in> S\<^sup>+" and "\<And>x y. (x, y) \<in> S \<Longrightarrow> (f x, f y) \<in> R"
  shows "(f x, f y) \<in> R\<^sup>+"
  using assms(1)
proof (induction rule: trancl_induct)
  case (base y)
  then show ?case using assms(2) by blast
next
  case (step y z)
  then show ?case using assms(2) by (meson trancl.trancl_into_trancl)
qed

lemma resolved_dependencies:
  assumes res: "resolve_programs pf cfg = Inr m" and wf: "hm_wf (sc_programs cfg)"
    and known: "\<And>a raw. (a, raw) \<in> set (sc_programs cfg) \<Longrightarrow> set (pr_depends_on raw) \<subseteq> set (keys (sc_programs cfg))"
    and i: "program_instances pf cfg = Inr instances"
  shows "deps_known m"
    and "dep_rel m = {(d, n). \<exists>b a. (b, a) \<in> depends_rel cfg \<and> d \<in> set (instances_of instances b) \<and>
                                    n \<in> set (instances_of instances a)}"
proof -
  obtain pbs lbs where m: "m = concat pbs @ concat lbs" "hm_wf m"
    and p: "list_all2 (program_block pf cfg instances) (sc_programs cfg) pbs"
    and l: "list_all2 (listener_block pf cfg) (sc_event_listeners cfg) lbs"
    using resolve_programs_blocks [OF res] i by (metis Inr_inject)
  have get: "hm_get instances b = Some (instances_of instances b)" if "b \<in> set (keys (sc_programs cfg))" for b
  proof -
    have "hm_get instances b \<noteq> None" using that program_instances_keys(1) [OF i] hm_get_None_iff by metis
    then show ?thesis by (auto simp: instances_of_def unwrap_or_def)
  qed
  have deps: "set (resolve_depends instances (pr_depends_on raw)) =
      {d. \<exists>b \<in> set (pr_depends_on raw). d \<in> set (instances_of instances b)}"
    if "(a, raw) \<in> set (sc_programs cfg)" for a raw
    using known [OF that] get by (auto simp: resolve_depends_def) (metis option.simps(5) subsetD)+
  have kp: "set (instances_of instances b) \<subseteq> set (keys m)" if "b \<in> set (keys (sc_programs cfg))" for b
    using that m(1) program_entries(1) [OF p] by (auto simp: keys_def)
  have entry: "(\<exists>a raw. (a, raw) \<in> set (sc_programs cfg) \<and> n \<in> set (instances_of instances a) \<and>
        c_depends_on c = resolve_depends instances (pr_depends_on raw)) \<or> c_depends_on c = []"
    if "(n, c) \<in> set m" for n c
    using that m(1) program_entries(2) [OF p] listener_entries(2) [OF l] resolve_instance_fields(2) resolve_listener_fields(2)
    by (metis Un_iff set_append)
  show "deps_known m"
    unfolding deps_known_def
  proof (clarify)
    fix n c d assume e: "(n, c) \<in> set m" "d \<in> set (c_depends_on c)"
    then obtain a raw where "(a, raw) \<in> set (sc_programs cfg)" "d \<in> set (resolve_depends instances (pr_depends_on raw))"
      using entry by fastforce
    then show "d \<in> set (keys m)" using deps known kp by blast
  qed
  show "dep_rel m = {(d, n). \<exists>b a. (b, a) \<in> depends_rel cfg \<and> d \<in> set (instances_of instances b) \<and>
      n \<in> set (instances_of instances a)}" (is "_ = ?R")
  proof (intro set_eqI iffI; clarify)
    fix d n assume "(d, n) \<in> dep_rel m"
    then obtain c where c: "(n, c) \<in> set m" "d \<in> set (c_depends_on c)"
      using m(2) by (cases "hm_get m n") (auto simp: dep_rel_def deps_of_def hm_get_Some_iff)
    then obtain a raw where "(a, raw) \<in> set (sc_programs cfg)" "n \<in> set (instances_of instances a)"
      "d \<in> set (resolve_depends instances (pr_depends_on raw))" using entry by fastforce
    then show "\<exists>b a. (b, a) \<in> depends_rel cfg \<and> d \<in> set (instances_of instances b) \<and> n \<in> set (instances_of instances a)"
      using deps unfolding depends_rel_def by blast
  next
    fix d n b a assume ba: "(b, a) \<in> depends_rel cfg" "d \<in> set (instances_of instances b)" "n \<in> set (instances_of instances a)"
    then obtain raw where r: "(a, raw) \<in> set (sc_programs cfg)" "b \<in> set (pr_depends_on raw)" by (auto simp: depends_rel_def)
    have "distinct (concat (map (instances_of instances) (keys (sc_programs cfg))))"
      using m program_entries(1) [OF p] by (simp add: hm_wf_def keys_def)
    then have disj: "a' = a" if "a' \<in> set (keys (sc_programs cfg))" "n \<in> set (instances_of instances a')" for a'
    proof -
      have "a \<in> set (keys (sc_programs cfg))" using r(1) by (force simp: keys_def)
      then show ?thesis
        using wf that ba(3) \<open>distinct (concat _)\<close> unfolding hm_wf_def by (intro distinct_concat_owner [of _ _ n])
    qed
    have "n \<in> set (map fst (concat pbs))" using r(1) ba(3) program_entries(1) [OF p] by force
    then obtain e where "e \<in> set (concat pbs)" "fst e = n" unfolding list.set_map by blast
    then obtain c where c: "(n, c) \<in> set (concat pbs)" by (metis prod.collapse)
    then obtain a' raw' i where e: "(a', raw') \<in> set (sc_programs cfg)" "n \<in> set (instances_of instances a')"
      "resolve_instance pf cfg instances a' raw' i n = Inr c" using program_entries(2) [OF p] by blast
    have "a' = a" using disj e(1,2) by (force simp: keys_def)
    then have "raw' = raw" using e(1) r(1) wf by (metis hm_get_Some_iff option.inject)
    then have "d \<in> set (c_depends_on c)"
      using deps [OF r(1)] r(2) ba(2) resolve_instance_fields(2) [OF e(3)] by auto
    moreover have "deps_of m n = c_depends_on c" using c m(1) by (intro deps_of_entry [OF m(2)]) simp
    ultimately show "(d, n) \<in> dep_rel m" by (simp add: dep_rel_def)
  qed
qed

text \<open>
  C29: If every program depends on programs of the configuration only, and not on itself through
  others, then the dependency graph of the resolved configuration can be built: every instance of a
  program depends on exactly the instances of the programs it names, no dependency is unknown, and
  the expansion introduces no cycle.
\<close>

theorem resolved_graph_builds:
  assumes res: "resolve_programs pf cfg = Inr m" and wf: "hm_wf (sc_programs cfg)"
    and known: "\<And>a raw. (a, raw) \<in> set (sc_programs cfg) \<Longrightarrow> set (pr_depends_on raw) \<subseteq> set (keys (sc_programs cfg))"
    and ac: "acyclic (depends_rel cfg)"
    and iter: "\<And>m. mset (iter m) = mset m" and cyc: "\<And>nodes es. is_cyclic nodes es \<longleftrightarrow> \<not> acyclic (set es)"
  shows "\<exists>instances g. program_instances pf cfg = Inr instances \<and> build iter is_cyclic m = Some (Inr g) \<and>
    dep_rel m = {(d, n). \<exists>b a. (b, a) \<in> depends_rel cfg \<and> d \<in> set (instances_of instances b) \<and>
                               n \<in> set (instances_of instances a)}"
proof -
  obtain instances pbs lbs where i: "program_instances pf cfg = Inr instances"
    and m: "m = concat pbs @ concat lbs" "hm_wf m"
    and p: "list_all2 (program_block pf cfg instances) (sc_programs cfg) pbs"
    by (rule resolve_programs_blocks [OF res])
  have deps: "deps_known m"
      "dep_rel m = {(d, n). \<exists>b a. (b, a) \<in> depends_rel cfg \<and> d \<in> set (instances_of instances b) \<and>
                                  n \<in> set (instances_of instances a)}"
    by (rule resolved_dependencies [OF res wf _ i]; rule known; assumption)+
  have dist: "distinct (concat (map (instances_of instances) (keys (sc_programs cfg))))"
    using m program_entries(1) [OF p] by (simp add: hm_wf_def keys_def)
  have uniq: "a = b" if "n \<in> set (instances_of instances a)" "n \<in> set (instances_of instances b)"
      "a \<in> set (keys (sc_programs cfg))" "b \<in> set (keys (sc_programs cfg))" for n a b
    using that wf dist unfolding hm_wf_def by (intro distinct_concat_owner [of _ _ n])
  define owner where "owner n = (SOME a. a \<in> set (keys (sc_programs cfg)) \<and> n \<in> set (instances_of instances a))" for n
  have own: "owner n = a" if "n \<in> set (instances_of instances a)" "a \<in> set (keys (sc_programs cfg))" for n a
    unfolding owner_def using that uniq by (intro some_equality) blast+
  have edge: "(owner d, owner n) \<in> depends_rel cfg" if h: "(d, n) \<in> dep_rel m" for d n
  proof -
    obtain b a where ba: "(b, a) \<in> depends_rel cfg" "d \<in> set (instances_of instances b)" "n \<in> set (instances_of instances a)"
      using h deps(2) by blast
    then have "a \<in> set (keys (sc_programs cfg))" "b \<in> set (keys (sc_programs cfg))"
      using known by (force simp: depends_rel_def keys_def)+
    then show ?thesis using ba own by simp
  qed
  have "acyclic (dep_rel m)"
  proof (rule acyclicI, intro allI notI)
    fix n assume "(n, n) \<in> (dep_rel m)\<^sup>+"
    then have "(owner n, owner n) \<in> (depends_rel cfg)\<^sup>+" using edge by (rule trancl_image)
    then show False using ac by (simp add: acyclic_def)
  qed
  moreover from this have "\<not> is_cyclic (keys m) (edges_of m)" by (simp add: cyc set_edges_of [OF m(2)])
  ultimately obtain g where "build iter is_cyclic m = Some (Inr g)"
    using build_ok_acyclic [OF m(2) iter deps(1)] by blast
  then show ?thesis using i deps(2) by blast
qed

lemma two_matches:
  assumes "i < j" "j < length xs" "P (xs ! i)" "P (xs ! j)"
  shows "1 < length (filter P xs)"
proof -
  have "{i, j} \<subseteq> {k. k < length xs \<and> P (xs ! k)}" using assms by auto
  then have "card {i, j} \<le> card {k. k < length xs \<and> P (xs ! k)}" by (intro card_mono) auto
  then show ?thesis using assms(1) by (simp add: length_filter_conv_card)
qed


text \<open>
  The number of processes of a listener pool is not validated, unlike that of a program: with zero
  processes the pool is accepted and vanishes.
\<close>

lemma listener_without_processes:
  "validate_listener (name, er\<lparr>er_numprocs := Some 0\<rparr>) = validate_listener (name, er) \<and>
   listener_names pf cfg (name, er\<lparr>er_numprocs := Some 0\<rparr>) = Inr []"
  by (simp add: validate_listener_def listener_names_def instance_names_def unwrap_or_def)

section \<open>An example\<close>

definition no_defaults :: ProgramDefaults where
  "no_defaults =
     \<lparr>pd_autostart = None, pd_autorestart = None, pd_start_secs = None, pd_start_retries = None,
      pd_restart_pause_secs = None, pd_stop_signal = None, pd_stop_wait_secs = None, pd_priority = None,
      pd_logs = None, pd_health_check = None, pd_pre_start = None, pd_pre_stop = None,
      pd_pre_start_ignore_failure = None, pd_hook_timeout_secs = None, pd_numprocs = None,
      pd_numprocs_start = None, pd_process_name = None, pd_restart_when_binary_changed = None,
      pd_restart_signal_when_binary_changed = None, pd_restart_cmd_when_binary_changed = None,
      pd_restart_directory_monitor = None, pd_restart_file_pattern = None,
      pd_restart_signal_when_file_changed = None, pd_restart_cmd_when_file_changed = None,
      pd_restart_debounce_secs = None, pd_env_files = None, pd_kill_wait_secs = None,
      pd_stop_as_group = None, pd_kill_as_group = None\<rparr>"

definition bare_program :: "string \<Rightarrow> string list \<Rightarrow> nat \<Rightarrow> ProgramConfigRaw" where
  "bare_program command deps numprocs =
     \<lparr>pr_command = command, pr_args = [], pr_directory = None, pr_user = None, pr_environment = [],
      pr_priority = None, pr_depends_on = deps, pr_autostart = None, pr_autorestart = None,
      pr_start_secs = None, pr_start_retries = None, pr_restart_pause_secs = None, pr_stop_signal = None,
      pr_stop_wait_secs = None, pr_exit_codes = None, pr_umask = None, pr_logs = None,
      pr_health_check = None, pr_group = None, pr_cron = None, pr_cron_stop = None, pr_pre_start = None,
      pr_pre_stop = None, pr_pre_start_ignore_failure = None, pr_hook_timeout_secs = None,
      pr_numprocs = Some numprocs, pr_numprocs_start = None, pr_process_name = None,
      pr_restart_when_binary_changed = None, pr_restart_signal_when_binary_changed = None,
      pr_restart_cmd_when_binary_changed = None, pr_restart_directory_monitor = None,
      pr_restart_file_pattern = None, pr_restart_signal_when_file_changed = None,
      pr_restart_cmd_when_file_changed = None, pr_restart_debounce_secs = None,
      pr_stdout_events_enabled = None, pr_stderr_events_enabled = None, pr_env_files = None,
      pr_kill_wait_secs = None, pr_stop_as_group = None, pr_kill_as_group = None\<rparr>"

definition bare_listener :: "string \<Rightarrow> EventListenerConfigRaw" where
  "bare_listener command =
     \<lparr>er_command = command, er_args = [], er_events = [''TICK_5''], er_buffer_size = 10,
      er_result_handler = ''default'', er_priority = - 1, er_numprocs = None, er_numprocs_start = None,
      er_process_name = None, er_autostart = None, er_autorestart = None, er_start_secs = None,
      er_start_retries = None, er_stop_signal = None, er_stop_wait_secs = None, er_directory = None,
      er_user = None, er_environment = [], er_umask = None, er_stdout_logfile = None,
      er_stderr_logfile = Some ''/log/mon.err'', er_redirect_stderr = None, er_env_files = None,
      er_stop_as_group = None, er_kill_as_group = None\<rparr>"

definition ex_platform :: Platform where
  "ex_platform =
     \<lparr>pf_windows = False, pf_vars = [], pf_hostname = ''host'',
      pf_split = (\<lambda>s. Inr (split_all (CHR '' '') s)),
      pf_default_log = (\<lambda>_ n. ''/log/'' @ n @ ''.log''), pf_default_signal = Term,
      pf_cron_error = (\<lambda>_. None)\<rparr>"

definition ex_web :: ProgramConfigRaw where
  "ex_web = bare_program ''web -p %(process_num)d'' [''db''] 2"

definition ex_config :: SupervisorConfig where
  "ex_config =
     \<lparr>sc_no_color = False,
      sc_server = \<lparr>sv_uds_path = ''/run/s'', sv_uds_chmod = None, sv_uds_username = None, sv_uds_password = None,
                   sv_http_bind = None, sv_username = None, sv_password = None, sv_auth_token = None,
                   sv_identifier = None, sv_path_translation = True, sv_allow_unelevated = False,
                   sv_ctl_defaults = True\<rparr>,
      sc_logging = \<lparr>g_enabled = LogOn, g_file = Some ''/log/daemon.log'', g_level = ''info'',
                    g_buffer_size = None, g_max_bytes = Some 1000, g_backups = 10,
                    g_timestamp_suffix = False, g_silent = False, g_no_color = None\<rparr>,
      sc_program_defaults = no_defaults, sc_groups = [],
      sc_programs = [(''db'', bare_program ''db'' [] 1), (''web'', ex_web)],
      sc_event_listeners = [(''mon'', bare_listener ''mon'')],
      sc_environment = [], sc_pidfile = None, sc_loglevel = None, sc_ctl = None, sc_config_dir = None\<rparr>"

definition ex_resolved :: "ProgramConfig hmap" where
  "ex_resolved = (case resolve_programs ex_platform ex_config of Inr m \<Rightarrow> m | Inl _ \<Rightarrow> [])"

lemma ex_keys: "keys ex_resolved = [''db'', ''web:0'', ''web:1'', ''mon'']"
  by code_simp

lemma ex_resolves: "resolve_programs ex_platform ex_config = Inr ex_resolved"
  using ex_keys by (auto simp: ex_resolved_def keys_def split: sum.splits)

lemma ex_streams:
  "file_streams ex_config ex_resolved =
     [(''/log/daemon.log'', ''daemon:main'', True), (''/log/db.log'', ''db:stdout'', True),
      (''/log/web:0.log'', ''web:0:stdout'', True), (''/log/web:1.log'', ''web:1:stdout'', True),
      (''/log/mon.err'', ''mon:stderr'', True)]"
  by code_simp

lemma ex_programs: "sc_programs ex_config = [(''db'', bare_program ''db'' [] 1), (''web'', ex_web)]"
  by (simp add: ex_config_def)

lemma ex_depends: "pr_depends_on (bare_program c deps k) = deps" "pr_depends_on ex_web = [''db'']"
  by (simp_all add: bare_program_def ex_web_def)

lemma ex_programs_wf: "hm_wf (sc_programs ex_config)"
  by (simp add: ex_config_def hm_wf_def)


theorem resolved_instances_witness:
  "\<exists>instances. program_instances ex_platform ex_config = Inr instances \<and>
     instances_of instances ''web'' = [''web:0'', ''web:1'']"
proof -
  have d: "digits_of 0 = ''0''" "digits_of (Suc 0) = ''1''" by code_simp+
  obtain instances where i: "program_instances ex_platform ex_config = Inr instances"
    and all: "\<forall>(base, raw) \<in> set (sc_programs ex_config).
       length (instances_of instances base) = numprocs_of ex_config raw \<and>
       (or_option (pr_process_name raw) (pd_process_name (sc_program_defaults ex_config)) = None \<longrightarrow>
          instances_of instances base =
            (if numprocs_of ex_config raw = 1 then [base]
             else map (\<lambda>k. base @ '':'' @ digits_of (numprocs_start_of ex_config raw + k)) [0..<numprocs_of ex_config raw]))"
    using resolved_instances [OF ex_resolves ex_programs_wf] by blast
  have w: "(''web'', ex_web) \<in> set (sc_programs ex_config)" by (simp add: ex_config_def)
  have n: "numprocs_of ex_config ex_web = 2" "numprocs_start_of ex_config ex_web = 0"
    "or_option (pr_process_name ex_web) (pd_process_name (sc_program_defaults ex_config)) = None"
    by code_simp+
  have "[0..<2] = [0, Suc 0]" by (simp add: upt_rec)
  then have "instances_of instances ''web'' = [''web:0'', ''web:1'']"
    using bspec [OF all w, unfolded prod.case n] d by simp
  then show ?thesis using i by blast
qed

theorem resolved_graph_builds_witness:
  "\<exists>g. build rev (\<lambda>_ es. \<not> acyclic (set es)) ex_resolved = Some (Inr g)"
proof -
  have "depends_rel ex_config = {(''db'', ''web'')}"
    by (auto simp: depends_rel_def ex_programs ex_depends)
  then have "acyclic (depends_rel ex_config)" by (simp add: acyclic_insert) (simp add: acyclic_def)
  moreover have "set (pr_depends_on raw) \<subseteq> set (keys (sc_programs ex_config))"
    if "(a, raw) \<in> set (sc_programs ex_config)" for a raw
    using that by (auto simp: ex_programs ex_depends)
  ultimately show ?thesis
    using resolved_graph_builds [OF ex_resolves ex_programs_wf, of rev "\<lambda>_ es. \<not> acyclic (set es)"] by auto
qed


end
