(* ===== verification/Rpc_World.thy ===== *)
theory Rpc_World
  imports Rpc_Methods Config_Resolve Manager_Logs
begin

text \<open>
  The legacy interface over the manager of this development: the operations that the methods call are
  the commands and queries of the manager, answered in time; a configuration is resolved as the
  manager resolves it. The logs, the event hub, the clock and the tasks that run later are a second
  part of the state, with the operations of the context \<open>base\<close> over it.
\<close>

section \<open>The context of the manager\<close>

text \<open>A command has a reply of its own kind; another kind would be a reply channel that is gone.\<close>

definition gone :: "'a result" where "gone = Inl (ChannelClosed ''manager'')"

definition unit_reply :: "Reply \<Rightarrow> unit result" where
  "unit_reply r = (case r of RUnit x \<Rightarrow> x | _ \<Rightarrow> gone)"

definition names_reply :: "Reply \<Rightarrow> string list result" where
  "names_reply r = (case r of RNames x \<Rightarrow> x | _ \<Rightarrow> gone)"

definition bool_reply :: "Reply \<Rightarrow> bool result" where
  "bool_reply r = (case r of RBool x \<Rightarrow> x | _ \<Rightarrow> gone)"

definition summary_reply :: "Reply \<Rightarrow> ReloadSummary result" where
  "summary_reply r = (case r of RSummary x \<Rightarrow> x | _ \<Rightarrow> gone)"

type_synonym 'l rpc_world = "AnyProgram Manager \<times> 'l"

definition commanded ::
  "Host \<Rightarrow> (Reply \<Rightarrow> 'a result) \<Rightarrow> ManagerCommand \<Rightarrow> 'l rpc_world \<Rightarrow> 'a result \<times> 'l rpc_world" where
  "commanded h f cmd =
     (\<lambda>(m, l). let (r, _, m') = manager_command (supervisor_world h) cmd m in (f r, m', l))"

definition asked :: "(AnyProgram Manager \<Rightarrow> 'a) \<Rightarrow> 'l rpc_world \<Rightarrow> 'a \<times> 'l rpc_world" where
  "asked f = (\<lambda>(m, l). (f m, m, l))"

definition aside :: "('l \<Rightarrow> 'a \<times> 'l) \<Rightarrow> 'l rpc_world \<Rightarrow> 'a \<times> 'l rpc_world" where
  "aside f = (\<lambda>(m, l). let (r, l') = f l in (r, m, l'))"

definition manager_context ::
  "Host \<Rightarrow> (datetime \<Rightarrow> string) \<Rightarrow> Platform \<Rightarrow> ('l, SupervisorConfig) RpcContext
     \<Rightarrow> ('l rpc_world, SupervisorConfig) RpcContext" where
  "manager_context h fmt pf base =
     \<lparr>rc_identifier = rc_identifier base, rc_pid = rc_pid base, rc_now = rc_now base \<circ> snd,
      rc_local_time = rc_local_time base, rc_config_path = rc_config_path base, rc_load = rc_load base,
      rc_get_status = (\<lambda>name. asked (get_status fmt (supervisor_world h) name)),
      rc_get_all_status = asked (Inr \<circ> get_all_status fmt (supervisor_world h)),
      rc_get_all_configs = asked (Inr \<circ> m_configs),
      rc_start_program = (\<lambda>name. commanded h unit_reply (StartProgram name)),
      rc_stop_program = (\<lambda>name grace. commanded h unit_reply (StopProgram name grace)),
      rc_restart_program = (\<lambda>name grace. commanded h unit_reply (RestartProgram name grace)),
      rc_signal_program = (\<lambda>name sig. commanded h unit_reply (SignalProgram name sig)),
      rc_start_group = (\<lambda>grp. commanded h names_reply (StartGroup grp)),
      rc_stop_group = (\<lambda>grp grace. commanded h names_reply (StopGroup grp grace)),
      rc_start_all = commanded h unit_reply StartAll,
      rc_stop_all = (\<lambda>grace. commanded h unit_reply (StopAll grace)),
      rc_reload_config = (\<lambda>cfg. commanded h summary_reply (ReloadConfig (resolve_programs pf cfg) (sc_logging cfg))),
      rc_restart_daemon = (\<lambda>cfg (m, l). commanded h unit_reply
         (RestartDaemon (resolve_programs pf cfg) (sc_logging cfg) (rc_now base l)) (m, l)),
      rc_add_process_group = (\<lambda>grp. commanded h bool_reply (AddProcessGroup grp)),
      rc_remove_process_group = (\<lambda>grp. commanded h bool_reply (RemoveProcessGroup grp)),
      rc_read_log = (\<lambda>name ch offset len. aside (rc_read_log base name ch offset len)),
      rc_tail_log = (\<lambda>name ch offset len. aside (rc_tail_log base name ch offset len)),
      rc_clear_process_logs = (\<lambda>name. aside (rc_clear_process_logs base name)),
      rc_read_main_log = (\<lambda>offset len. aside (rc_read_main_log base offset len)),
      rc_tail_main_log = (\<lambda>offset len. aside (rc_tail_main_log base offset len)),
      rc_clear_main_log = aside (rc_clear_main_log base),
      rc_send_stdin = (\<lambda>name data. aside (rc_send_stdin base name data)),
      rc_send_remote_comm_event = (\<lambda>ty data. map_prod id (rc_send_remote_comm_event base ty data)),
      rc_spawn_shutdown = map_prod id (rc_spawn_shutdown base)\<rparr>"

section \<open>Every request leaves a reachable manager\<close>

abbreviation world_reachable :: "'l rpc_world \<Rightarrow> bool" where
  "world_reachable s \<equiv> manager_reachable (range supervisor_world) program_evolve (fst s)"

lemma commanded_keeps: "resolved_ok cmd \<Longrightarrow> keeps world_reachable (commanded h f cmd)"
  by (auto simp: keeps_def commanded_def Let_def split: prod.split intro: manager_served)

lemma queries_keep: "keeps world_reachable (asked g)" "keeps world_reachable (aside f)"
  by (auto simp: keeps_def asked_def aside_def Let_def split: prod.split)

lemma config_commands_ok:
  "resolved_ok (ReloadConfig (resolve_programs pf cfg) lg)"
  "resolved_ok (RestartDaemon (resolve_programs pf cfg) lg ts)"
  by (auto simp: resolved_ok_def resolved_named split: sum.split)

interpretation lm: legacy_manager "manager_context h fmt pf base" world_reachable
proof unfold_locales
  fix cfg
  show "keeps world_reachable (rc_restart_daemon (manager_context h fmt pf base) cfg)"
    using keepsD [OF commanded_keeps [OF config_commands_ok(2)], of "(a, b)" for a b]
    by (auto simp: manager_context_def keeps_def)
qed (simp_all add: manager_context_def queries_keep commanded_keeps config_commands_ok, simp_all add: resolved_ok_def commanded_keeps)


section \<open>A concrete request\<close>

definition demo_base :: "(unit, SupervisorConfig) RpcContext" where
  "demo_base =
     \<lparr>rc_identifier = ''supervisor'', rc_pid = 1, rc_now = (\<lambda>_. 0), rc_local_time = (\<lambda>_. None),
      rc_config_path = None, rc_load = (\<lambda>_. Inl ''no file''),
      rc_get_status = (\<lambda>_ s. (gone, s)), rc_get_all_status = Pair gone, rc_get_all_configs = Pair gone,
      rc_start_program = (\<lambda>_. Pair gone), rc_stop_program = (\<lambda>_ _. Pair gone),
      rc_restart_program = (\<lambda>_ _. Pair gone), rc_signal_program = (\<lambda>_ _. Pair gone),
      rc_start_group = (\<lambda>_. Pair gone), rc_stop_group = (\<lambda>_ _. Pair gone), rc_start_all = Pair gone,
      rc_stop_all = (\<lambda>_. Pair gone), rc_reload_config = (\<lambda>_. Pair gone), rc_restart_daemon = (\<lambda>_. Pair gone),
      rc_add_process_group = (\<lambda>_. Pair gone), rc_remove_process_group = (\<lambda>_. Pair gone),
      rc_read_log = (\<lambda>_ _ _ _. Pair gone), rc_tail_log = (\<lambda>_ _ _ _. Pair gone),
      rc_clear_process_logs = (\<lambda>_. Pair gone), rc_read_main_log = (\<lambda>_ _. Pair gone),
      rc_tail_main_log = (\<lambda>_ _. Pair gone), rc_clear_main_log = Pair gone, rc_send_stdin = (\<lambda>_ _. Pair gone),
      rc_send_remote_comm_event = (\<lambda>_ _ s. s), rc_spawn_shutdown = (\<lambda>s. s)\<rparr>"

lemma demo_reachable: "manager_reachable (range supervisor_world) program_evolve demo_manager"
  using demo_built demo_named by (intro manager_built [of demo_world]) simp_all


text \<open>A program without a log file answers a tail with the general fault, not with that of a missing file.\<close>

lemma no_log_file_fault: "fault_number (fault_of (no_log_file name)) = fault_code Failed"
proof -
  have "\<not> mentions [''not exist'', ''no such file''] ''no log file''" by code_simp
  moreover have "\<not> mentions [''negative'', ''bad arguments''] ''no log file''" by code_simp
  ultimately show ?thesis by (simp add: fault_of_def no_log_file_def failed_def fault_new_def)
qed

text \<open>A multicall of an item that is no structure and of a nested multicall.\<close>

theorem multicall_in_order_witness:
  "\<exists>vs s'. dispatch demo_base ''system.multicall''
       [RArray [RNil, RStruct [(''methodName'', RString ''system.multicall'')]]] () = Some (Inr (RArray vs), s') \<and>
     vs ! 1 = fault_struct 2 ''Recursive multicall not allowed''"
proof -
  let ?calls = "[RNil, RStruct [(''methodName'', RString ''system.multicall'')]]"
  obtain vs states where m:
      "dispatch demo_base ''system.multicall'' [RArray ?calls] () = Some (Inr (RArray vs), last (() # states))"
      "\<forall>i < length ?calls. answers demo_base (?calls ! i) ((() # states) ! i) (vs ! i) (states ! i)"
    using multicall_in_order [of demo_base ?calls "[]" "()"] by (elim exE conjE)
  have "answers demo_base (?calls ! 1) ((() # states) ! 1) (vs ! 1) (states ! 1)"
    by (rule m(2) [rule_format]) simp
  then have "vs ! 1 = fault_struct 2 ''Recursive multicall not allowed''"
    by (cases rule: answers.cases) (auto simp: rpc_as_struct_def rpc_as_str_def)
  then show ?thesis using m(1) by blast
qed

end
