(* ===== verification/Log_Rotator.thy ===== *)
theory Log_Rotator
  imports Rust_Text
begin

text \<open>
  The rotating log file, \<open>src/src/logging/rotator.rs\<close>: appending with rotation to numbered or
  time-stamped backups, the append-only fallback when an operation fails, recovery from it, and
  clearing. The files are a map from paths to contents. Every operation of the file system may
  fail: \<open>fs_fail\<close> says for the \<open>n\<close>-th operation whether it does, with the number of bytes that a
  failed write still got out. The warnings that the code prints are left out.
\<close>

section \<open>The file system\<close>

record Fs =
  fs_files :: "bytes hmap"
  fs_fail :: "nat \<Rightarrow> (nat \<times> string) option"
  fs_ops :: nat

type_synonym 'a io = "(string + 'a) \<times> Fs"

definition fs_exists :: "string \<Rightarrow> Fs \<Rightarrow> bool" where
  "fs_exists path fs \<longleftrightarrow> contains_key (fs_files fs) path"

definition fs_try :: "(bytes hmap \<Rightarrow> bytes hmap) \<Rightarrow> (nat \<Rightarrow> bytes hmap \<Rightarrow> bytes hmap) \<Rightarrow> Fs \<Rightarrow> unit io" where
  "fs_try success failure fs =
     (let f = fs_fail fs (fs_ops fs); fs = fs\<lparr>fs_ops := Suc (fs_ops fs)\<rparr>
      in case f of
           None \<Rightarrow> (Inr (), fs\<lparr>fs_files := success (fs_files fs)\<rparr>)
         | Some (n, e) \<Rightarrow> (Inl e, fs\<lparr>fs_files := failure n (fs_files fs)\<rparr>))"

definition open_append :: "string \<Rightarrow> Fs \<Rightarrow> unit io" where
  "open_append path =
     fs_try (\<lambda>m. if contains_key m path then m else hm_insert path [] m) (\<lambda>_ m. m)"

definition open_truncate :: "string \<Rightarrow> Fs \<Rightarrow> unit io" where
  "open_truncate path = fs_try (hm_insert path []) (\<lambda>_ m. m)"

definition append_data :: "string \<Rightarrow> bytes \<Rightarrow> bytes hmap \<Rightarrow> bytes hmap" where
  "append_data path data m =
     (case hm_get m path of Some old \<Rightarrow> hm_insert path (old @ data) m | None \<Rightarrow> m)"

definition file_write_all :: "string \<Rightarrow> bytes \<Rightarrow> Fs \<Rightarrow> unit io" where
  "file_write_all path data = fs_try (append_data path data) (\<lambda>n. append_data path (take n data))"

definition remove_file :: "string \<Rightarrow> Fs \<Rightarrow> unit io" where
  "remove_file path = fs_try (hm_remove path) (\<lambda>_ m. m)"

definition rename_file :: "string \<Rightarrow> string \<Rightarrow> Fs \<Rightarrow> unit io" where
  "rename_file src dst =
     fs_try (\<lambda>m. case hm_get m src of Some d \<Rightarrow> hm_insert dst d (hm_remove src m) | None \<Rightarrow> m) (\<lambda>_ m. m)"

definition metadata_len :: "string \<Rightarrow> Fs \<Rightarrow> nat \<times> Fs" where
  "metadata_len path fs =
     (case fs_try id (\<lambda>_. id) fs of
        (Inr _, fs) \<Rightarrow> (case hm_get (fs_files fs) path of Some d \<Rightarrow> length d | None \<Rightarrow> 0, fs)
      | (Inl _, fs) \<Rightarrow> (0, fs))"

section \<open>The rotator\<close>

datatype RotatorInner = Active bool nat | Fallback nat

record LogRotator =
  lr_path :: string
  lr_max_bytes :: nat
  lr_backups :: nat
  lr_timestamp_suffix :: bool
  lr_inner :: RotatorInner

definition backup_path :: "string \<Rightarrow> nat \<Rightarrow> string" where
  "backup_path path i = path @ ''.'' @ digits_of i"

definition build_inner :: "string \<Rightarrow> nat \<Rightarrow> Fs \<Rightarrow> RotatorInner io" where
  "build_inner path max_bytes fs =
     (case open_append path fs of
        (Inl e, fs) \<Rightarrow> (Inl e, fs)
      | (Inr _, fs) \<Rightarrow>
          if 0 < max_bytes
          then (let (n, fs) = metadata_len path fs in (Inr (Active True n), fs))
          else (Inr (Active True 0), fs))"

text \<open>Opening a rotator; the directory of the file exists already or is created before.\<close>

definition rotator_open :: "string \<Rightarrow> nat \<Rightarrow> nat \<Rightarrow> bool \<Rightarrow> Fs \<Rightarrow> LogRotator io" where
  "rotator_open path max_bytes backups timestamp_suffix fs =
     (case build_inner path max_bytes fs of
        (Inl e, fs) \<Rightarrow> (Inl e, fs)
      | (Inr inner, fs) \<Rightarrow>
          (Inr \<lparr>lr_path = path, lr_max_bytes = max_bytes, lr_backups = backups,
                lr_timestamp_suffix = timestamp_suffix, lr_inner = inner\<rparr>, fs))"

text \<open>Numbered backups: every backup moves up by one, from the oldest to the newest.\<close>

fun shift_backups :: "string \<Rightarrow> nat \<Rightarrow> Fs \<Rightarrow> unit io" where
  "shift_backups path 0 fs = (Inr (), fs)"
| "shift_backups path (Suc i) fs =
     (let src = backup_path path (Suc i); dst = backup_path path (Suc (Suc i))
      in if fs_exists src fs
         then (case (if fs_exists dst fs then remove_file dst fs else (Inr (), fs)) of
                 (Inl e, fs) \<Rightarrow> (Inl e, fs)
               | (Inr _, fs) \<Rightarrow>
                   (case rename_file src dst fs of
                      (Inl e, fs) \<Rightarrow> (Inl e, fs)
                    | (Inr _, fs) \<Rightarrow> shift_backups path i fs))
         else shift_backups path i fs)"

definition remove_existing :: "string \<Rightarrow> Fs \<Rightarrow> unit io" where
  "remove_existing path fs = (if fs_exists path fs then remove_file path fs else (Inr (), fs))"

definition rotate_numeric :: "string \<Rightarrow> nat \<Rightarrow> Fs \<Rightarrow> unit io" where
  "rotate_numeric path backups fs =
     (case remove_existing (backup_path path backups) fs of
        (Inl e, fs) \<Rightarrow> (Inl e, fs)
      | (Inr _, fs) \<Rightarrow>
          (case shift_backups path (backups - 1) fs of
             (Inl e, fs) \<Rightarrow> (Inl e, fs)
           | (Inr _, fs) \<Rightarrow>
               (case remove_existing (backup_path path 1) fs of
                  (Inl e, fs) \<Rightarrow> (Inl e, fs)
                | (Inr _, fs) \<Rightarrow> rename_file path (backup_path path 1) fs)))"

text \<open>
  Time-stamped backups: the first free name of the current second, then the names in excess are
  removed, smallest first. The search for a free counter ends among as many candidates as there
  are files.
\<close>

definition timestamp_target :: "string \<Rightarrow> string \<Rightarrow> Fs \<Rightarrow> string" where
  "timestamp_target path ts fs =
     (let target = path @ ''.'' @ ts
      in if fs_exists target fs
         then (case List.find (\<lambda>counter. \<not> fs_exists (target @ ''-'' @ digits_of counter) fs)
                      [1..<length (fs_files fs) + 2] of
                 Some counter \<Rightarrow> target @ ''-'' @ digits_of counter
               | None \<Rightarrow> target)
         else target)"

definition backup_names :: "string \<Rightarrow> Fs \<Rightarrow> string list" where
  "backup_names path fs =
     sort (filter (\<lambda>name. case strip_prefix (path @ ''.'') name of
                            Some rest \<Rightarrow> CHR ''/'' \<notin> set rest | None \<Rightarrow> False) (keys (fs_files fs)))"

definition rotate_timestamp :: "string \<Rightarrow> nat \<Rightarrow> string \<Rightarrow> Fs \<Rightarrow> unit io" where
  "rotate_timestamp path backups ts fs =
     (case rename_file path (timestamp_target path ts fs) fs of
        (Inl e, fs) \<Rightarrow> (Inl e, fs)
      | (Inr _, fs) \<Rightarrow>
          (let names = backup_names path fs
           in (Inr (), fold (\<lambda>name fs. snd (remove_file name fs)) (take (length names - backups) names) fs)))"

definition rotate_on_disk :: "string \<Rightarrow> nat \<Rightarrow> bool \<Rightarrow> string \<Rightarrow> Fs \<Rightarrow> unit io" where
  "rotate_on_disk path backups timestamp_suffix ts fs =
     (if \<not> fs_exists path fs then (Inr (), fs)
      else if backups = 0 then (Inr (), snd (remove_file path fs))
      else if timestamp_suffix then rotate_timestamp path backups ts fs
      else rotate_numeric path backups fs)"

type_synonym rotator_result = "(string + unit) \<times> LogRotator \<times> Fs"

definition write_fallback :: "bytes \<Rightarrow> LogRotator \<Rightarrow> Fs \<Rightarrow> rotator_result" where
  "write_fallback data r fs =
     (case open_append (lr_path r) fs of
        (Inl e, fs) \<Rightarrow> (Inl e, r, fs)
      | (Inr _, fs) \<Rightarrow>
          (case file_write_all (lr_path r) data fs of
             (Inl e, fs) \<Rightarrow> (Inl e, r, fs)
           | (Inr _, fs) \<Rightarrow> (Inr (), r\<lparr>lr_inner := Fallback 0\<rparr>, fs)))"

definition handle_missing :: string where
  "handle_missing = ''file handle missing''"

function write_loop :: "string \<Rightarrow> bool \<Rightarrow> nat \<Rightarrow> bytes \<Rightarrow> LogRotator \<Rightarrow> Fs \<Rightarrow> rotator_result" where
  "write_loop ts file sz data r fs =
     (let path = lr_path r; max_bytes = lr_max_bytes r; active = (\<lambda>f n. r\<lparr>lr_inner := Active f n\<rparr>)
      in if data = [] \<or> max_bytes = 0 then (Inr (), active file sz, fs)
         else if max_bytes < sz + length data
         then (let bytes_left = max_bytes - sz
               in if 0 < bytes_left \<and> \<not> file then (Inl handle_missing, active file sz, fs)
                  else (case (if 0 < bytes_left then file_write_all path (take bytes_left data) fs
                              else (Inr (), fs)) of
                          (Inl e, fs) \<Rightarrow> write_fallback data (active file sz) fs
                        | (Inr _, fs) \<Rightarrow>
                            (let sz = sz + bytes_left; data = drop bytes_left data
                             in case rotate_on_disk path (lr_backups r) (lr_timestamp_suffix r) ts fs of
                                  (Inl e, fs) \<Rightarrow> write_fallback data (active False sz) fs
                                | (Inr _, fs) \<Rightarrow>
                                    (case open_truncate path fs of
                                       (Inl e, fs) \<Rightarrow> write_fallback data (active False sz) fs
                                     | (Inr _, fs) \<Rightarrow> write_loop ts True 0 data r fs))))
         else if \<not> file then (Inl handle_missing, active file sz, fs)
         else (case file_write_all path data fs of
                 (Inl e, fs) \<Rightarrow> write_fallback data (active file sz) fs
               | (Inr _, fs) \<Rightarrow> (Inr (), active True (sz + length data), fs)))"
  by pat_completeness auto
termination
  by (relation "measures [\<lambda>(ts, file, sz, data, r, fs). length data, \<lambda>(ts, file, sz, data, r, fs). sz]")
    (auto split: if_splits)

declare write_loop.simps [simp del]

text \<open>Every 50th write in fallback mode tries to return to rotation.\<close>

definition try_recover :: "LogRotator \<Rightarrow> Fs \<Rightarrow> LogRotator \<times> Fs" where
  "try_recover r fs =
     (case lr_inner r of
        Fallback writes \<Rightarrow>
          if 50 \<le> Suc writes
          then (case build_inner (lr_path r) (lr_max_bytes r) fs of
                  (Inr recovered, fs) \<Rightarrow> (r\<lparr>lr_inner := recovered\<rparr>, fs)
                | (Inl _, fs) \<Rightarrow> (r\<lparr>lr_inner := Fallback 0\<rparr>, fs))
          else (r\<lparr>lr_inner := Fallback (Suc writes)\<rparr>, fs)
      | Active _ _ \<Rightarrow> (r, fs))"

definition rotator_write_all :: "string \<Rightarrow> bytes \<Rightarrow> LogRotator \<Rightarrow> Fs \<Rightarrow> rotator_result" where
  "rotator_write_all ts data r fs =
     (let (r, fs) = try_recover r fs; path = lr_path r
      in case lr_inner r of
           Active file sz \<Rightarrow>
             if lr_max_bytes r = 0
             then (if \<not> file then (Inl handle_missing, r, fs)
                   else (case file_write_all path data fs of
                           (Inl e, fs) \<Rightarrow> write_fallback data r fs
                         | (Inr _, fs) \<Rightarrow> (Inr (), r\<lparr>lr_inner := Active file (sz + length data)\<rparr>, fs)))
             else write_loop ts file sz data r fs
         | Fallback _ \<Rightarrow>
             (case file_write_all path data fs of
                (Inl e, fs) \<Rightarrow> write_fallback data r fs
              | (Inr _, fs) \<Rightarrow> (Inr (), r, fs)))"

definition rotator_write_line :: "string \<Rightarrow> bytes \<Rightarrow> LogRotator \<Rightarrow> Fs \<Rightarrow> rotator_result" where
  "rotator_write_line ts line r fs = rotator_write_all ts (line @ [newline]) r fs"

definition log_rotator_clear :: "LogRotator \<Rightarrow> Fs \<Rightarrow> rotator_result" where
  "log_rotator_clear r fs =
     (case open_truncate (lr_path r) fs of
        (Inl e, fs) \<Rightarrow> (Inl e, r, fs)
      | (Inr _, fs) \<Rightarrow>
          (case build_inner (lr_path r) (lr_max_bytes r) fs of
             (Inr inner, fs) \<Rightarrow> (Inr (), r\<lparr>lr_inner := inner\<rparr>, fs)
           | (Inl _, fs) \<Rightarrow>
               (case open_append (lr_path r) fs of
                  (Inl e, fs) \<Rightarrow> (Inl e, r, fs)
                | (Inr _, fs) \<Rightarrow> (Inr (), r\<lparr>lr_inner := Fallback 0\<rparr>, fs))))"

section \<open>Operations that do not fail\<close>

definition nofail :: "Fs \<Rightarrow> bool" where
  "nofail fs \<longleftrightarrow> (\<forall>n. fs_fail fs n = None)"

definition fs_next :: "Fs \<Rightarrow> bytes hmap \<Rightarrow> Fs" where
  "fs_next fs m = fs\<lparr>fs_ops := Suc (fs_ops fs), fs_files := m\<rparr>"

abbreviation file_at :: "Fs \<Rightarrow> string \<Rightarrow> bytes option" where
  "file_at fs path \<equiv> hm_get (fs_files fs) path"

lemma fs_next_simps [simp]: "fs_files (fs_next fs m) = m" "nofail (fs_next fs m) = nofail fs"
  by (simp_all add: fs_next_def nofail_def)

lemma fs_try_ok: "nofail fs \<Longrightarrow> fs_try f g fs = (Inr (), fs_next fs (f (fs_files fs)))"
  by (simp add: fs_try_def nofail_def fs_next_def Let_def)

lemma fs_exists_iff: "fs_exists p fs \<longleftrightarrow> file_at fs p \<noteq> None"
  by (simp add: fs_exists_def contains_key_def hm_get_None_iff)

lemmas fs_op_defs = open_append_def open_truncate_def file_write_all_def remove_file_def rename_file_def

lemma backup_path_inject [simp]: "backup_path p i = backup_path p j \<longleftrightarrow> i = j"
  by (simp add: backup_path_def)

lemma backup_path_neq [simp]: "backup_path p i \<noteq> p" "p \<noteq> backup_path p i"
  by (simp_all add: backup_path_def)

lemma file_at_append:
  "hm_get (append_data p d m) q = (if q = p then map_option (\<lambda>x. x @ d) (hm_get m p) else hm_get m q)"
  by (auto simp: append_data_def split: option.split)

lemma file_at_rename:
  "hm_get (case hm_get m a of Some d \<Rightarrow> hm_insert b d (hm_remove a m) | None \<Rightarrow> m) q =
     (if hm_get m a = None then hm_get m q
      else if q = b then hm_get m a else if q = a then None else hm_get m q)"
  by (auto split: option.split)

lemma shift_backups_ok:
  assumes "nofail fs" and "file_at fs (backup_path p (Suc k)) = None"
  shows "\<exists>fs'. shift_backups p k fs = (Inr (), fs') \<and> nofail fs' \<and> file_at fs' (backup_path p 1) = None \<and>
     (\<forall>j. 2 \<le> j \<and> j \<le> Suc k \<longrightarrow> file_at fs' (backup_path p j) = file_at fs (backup_path p (j - 1))) \<and>
     (\<forall>q. (\<forall>j. 1 \<le> j \<and> j \<le> Suc k \<longrightarrow> q \<noteq> backup_path p j) \<longrightarrow> file_at fs' q = file_at fs q)"
  using assms
proof (induction k arbitrary: fs)
  case (Suc i)
  let ?b = "backup_path p"
  define fs1 where "fs1 = (if fs_exists (?b (Suc i)) fs
      then snd (rename_file (?b (Suc i)) (?b (Suc (Suc i))) fs) else fs)"
  have st: "shift_backups p (Suc i) fs = shift_backups p i fs1"
    using Suc.prems by (simp add: fs1_def fs_exists_iff fs_op_defs fs_try_ok Let_def)
  have nf: "nofail fs1" using Suc.prems(1) by (simp add: fs1_def fs_op_defs fs_try_ok)
  have f1: "file_at fs1 q = (if q = ?b (Suc (Suc i)) then file_at fs (?b (Suc i))
      else if q = ?b (Suc i) then None else file_at fs q)" for q
    using Suc.prems by (auto simp: fs1_def fs_exists_iff fs_op_defs fs_try_ok file_at_rename)
  obtain fs' where fs': "shift_backups p i fs1 = (Inr (), fs')" "nofail fs'" "file_at fs' (?b 1) = None"
    and mid: "\<And>j. 2 \<le> j \<Longrightarrow> j \<le> Suc i \<Longrightarrow> file_at fs' (?b j) = file_at fs1 (?b (j - 1))"
    and oth: "\<And>q. (\<And>j. 1 \<le> j \<Longrightarrow> j \<le> Suc i \<Longrightarrow> q \<noteq> ?b j) \<Longrightarrow> file_at fs' q = file_at fs1 q"
    using Suc.IH [OF nf] f1 by auto
  have "file_at fs' (?b j) = file_at fs (?b (j - 1))" if "2 \<le> j" "j \<le> Suc (Suc i)" for j
  proof (cases "j = Suc (Suc i)")
    case True
    then show ?thesis using oth [of "?b (Suc (Suc i))"] f1 by auto
  next
    case False
    then show ?thesis using mid [of j] that f1 by auto
  qed
  moreover have "file_at fs' q = file_at fs q" if "\<forall>j. 1 \<le> j \<and> j \<le> Suc (Suc i) \<longrightarrow> q \<noteq> ?b j" for q
    using that oth [of q] f1 [of q] by auto
  ultimately show ?case using st fs' by auto
qed auto

text \<open>The files of a rotator, from the current one to the oldest backup.\<close>

definition rot_name :: "string \<Rightarrow> nat \<Rightarrow> string" where
  "rot_name p i = (if i = 0 then p else backup_path p i)"

lemma rot_name_inject [simp]: "rot_name p i = rot_name p j \<longleftrightarrow> i = j"
  by (simp add: rot_name_def)

lemma rot_name_0 [simp]: "rot_name p 0 = p"
  by (simp add: rot_name_def)

lemma rotate_ok:
  assumes "nofail fs" and "file_at fs p = Some d"
  shows "\<exists>fs1 fs'. rotate_on_disk p n False ts fs = (Inr (), fs1) \<and> open_truncate p fs1 = (Inr (), fs') \<and>
     nofail fs' \<and> file_at fs' p = Some [] \<and> (\<forall>i < n. file_at fs' (rot_name p (Suc i)) = file_at fs (rot_name p i))"
proof (cases "n = 0")
  case True
  then show ?thesis using assms
    by (simp add: rotate_on_disk_def fs_exists_iff fs_op_defs fs_try_ok)
next
  case False
  let ?b = "backup_path p"
  define fs0 where "fs0 = snd (remove_existing (?b n) fs)"
  have r0: "remove_existing (?b n) fs = (Inr (), fs0)" "nofail fs0"
    "file_at fs0 q = (if q = ?b n then None else file_at fs q)" for q
    using assms(1) by (auto simp: fs0_def remove_existing_def fs_exists_iff fs_op_defs fs_try_ok)
  obtain fs2 where fs2: "shift_backups p (n - 1) fs0 = (Inr (), fs2)" "nofail fs2" "file_at fs2 (?b 1) = None"
    and mid: "\<And>j. 2 \<le> j \<Longrightarrow> j \<le> n \<Longrightarrow> file_at fs2 (?b j) = file_at fs0 (?b (j - 1))"
    and oth: "\<And>q. (\<And>j. 1 \<le> j \<Longrightarrow> j \<le> n \<Longrightarrow> q \<noteq> ?b j) \<Longrightarrow> file_at fs2 q = file_at fs0 q"
    using shift_backups_ok [of fs0 p "n - 1"] r0 False by auto
  have p2: "file_at fs2 p = Some d" using oth [of p] r0(3) assms(2) by simp
  define fs1 where "fs1 = snd (rename_file p (?b 1) fs2)"
  have r1: "rotate_on_disk p n False ts fs = (Inr (), fs1)"
    using assms False r0(1) fs2
    by (simp add: rotate_on_disk_def rotate_numeric_def fs_exists_iff remove_existing_def [of "?b 1"]
        remove_existing_def [of "?b (Suc 0)"] fs1_def fs_op_defs fs_try_ok)
  have nf1: "nofail fs1" using fs2(2) by (simp add: fs1_def fs_op_defs fs_try_ok)
  have f1: "file_at fs1 q = (if q = ?b 1 then Some d else if q = p then None else file_at fs2 q)" for q
    using fs2(2) p2 by (simp add: fs1_def fs_op_defs fs_try_ok file_at_rename)
  define fs' where "fs' = snd (open_truncate p fs1)"
  have r': "open_truncate p fs1 = (Inr (), fs')" "nofail fs'"
    using nf1 by (simp_all add: fs'_def fs_op_defs fs_try_ok)
  have f': "file_at fs' q = (if q = p then Some [] else file_at fs1 q)" for q
    using nf1 by (simp add: fs'_def fs_op_defs fs_try_ok)
  have "file_at fs' (rot_name p (Suc i)) = file_at fs (rot_name p i)" if "i < n" for i
  proof (cases "i = 0")
    case True
    then show ?thesis using f' f1 assms(2) by (simp add: rot_name_def)
  next
    case False
    then show ?thesis using that mid [of "Suc i"] r0(3) f' f1 by (simp add: rot_name_def)
  qed
  then show ?thesis using r1 r' f' by auto
qed

section \<open>Writing keeps the recent output\<close>

definition content :: "Fs \<Rightarrow> string \<Rightarrow> bytes" where
  "content fs p = (case file_at fs p of Some d \<Rightarrow> d | None \<Rightarrow> [])"

text \<open>The log as a stream, from the oldest backup to the current file.\<close>

definition stream :: "string \<Rightarrow> nat \<Rightarrow> Fs \<Rightarrow> bytes" where
  "stream p n fs = concat (map (\<lambda>i. content fs (rot_name p i)) (rev [0..<Suc n]))"

text \<open>A backup is only followed by an older one when it is full.\<close>

definition full_chain :: "string \<Rightarrow> nat \<Rightarrow> nat \<Rightarrow> Fs \<Rightarrow> bool" where
  "full_chain p n max_bytes fs \<longleftrightarrow>
     (\<forall>i. 1 \<le> i \<and> i < n \<and> content fs (rot_name p (Suc i)) \<noteq> [] \<longrightarrow> max_bytes \<le> length (content fs (rot_name p i)))"

lemma stream_append:
  assumes "content fs' p = content fs p @ data" and "\<And>i. 1 \<le> i \<Longrightarrow> i \<le> n \<Longrightarrow> content fs' (rot_name p i) = content fs (rot_name p i)"
  shows "stream p n fs' = stream p n fs @ data"
proof -
  have s: "stream p n f = concat (map (\<lambda>i. content f (rot_name p i)) (rev [1..<Suc n])) @ content f p" for f
  proof -
    have "[0..<Suc n] = 0 # [1..<Suc n]" by (rule upt_conv_Cons [of 0 "Suc n", unfolded One_nat_def [symmetric]]) simp
    then show ?thesis by (simp add: stream_def)
  qed
  have "map (\<lambda>i. content fs' (rot_name p i)) (rev [1..<Suc n]) = map (\<lambda>i. content fs (rot_name p i)) (rev [1..<Suc n])"
    using assms(2) by (intro map_cong) auto
  then show ?thesis by (simp only: s assms(1) append_assoc)
qed

lemma stream_rotate:
  assumes "content fs' p = []" and "\<And>i. i < n \<Longrightarrow> content fs' (rot_name p (Suc i)) = content fs (rot_name p i)"
  shows "stream p n fs = content fs (rot_name p n) @ stream p n fs'"
    and "stream p n fs' = concat (map (\<lambda>i. content fs (rot_name p i)) (rev [0..<n]))"
proof -
  have "map (\<lambda>i. content fs' (rot_name p i)) (rev [0..<Suc n]) =
      map (\<lambda>i. content fs (rot_name p i)) (rev [0..<n]) @ [content fs' p]"
  proof -
    have "[0..<Suc n] = 0 # map Suc [0..<n]" by (simp add: upt_conv_Cons map_Suc_upt)
    then have "map (\<lambda>i. content fs' (rot_name p i)) (rev [0..<Suc n]) =
        map (\<lambda>i. content fs' (rot_name p (Suc i))) (rev [0..<n]) @ [content fs' p]"
      by (simp add: rev_map comp_def)
    moreover have "map (\<lambda>i. content fs' (rot_name p (Suc i))) (rev [0..<n]) =
        map (\<lambda>i. content fs (rot_name p i)) (rev [0..<n])"
      using assms(2) by (intro map_cong) auto
    ultimately show ?thesis by simp
  qed
  then show s: "stream p n fs' = concat (map (\<lambda>i. content fs (rot_name p i)) (rev [0..<n]))"
    using assms(1) by (simp add: stream_def)
  show "stream p n fs = content fs (rot_name p n) @ stream p n fs'"
    unfolding s by (simp add: stream_def)
qed

lemma full_files_length:
  "(\<And>i. i < n \<Longrightarrow> m \<le> length (f i)) \<Longrightarrow> n * m \<le> length (concat (map f (rev [0..<n])))"
proof (induction n)
  case (Suc n)
  then have "n * m \<le> length (concat (map f (rev [0..<n])))" "m \<le> length (f n)" by simp_all
  then show ?case by simp
qed simp

lemma full_chain_down:
  assumes "full_chain p n m fs" and "0 < m" and "content fs (rot_name p n) \<noteq> []" and "1 \<le> i" and "i < n"
  shows "m \<le> length (content fs (rot_name p i))"
proof -
  have "content fs (rot_name p (n - k)) \<noteq> []" if "k < n" for k
    using that
  proof (induction k)
    case (Suc k)
    then have "content fs (rot_name p (Suc (n - Suc k))) \<noteq> []" by (simp add: Suc_diff_Suc)
    then have "m \<le> length (content fs (rot_name p (n - Suc k)))"
      using assms(1) Suc.prems by (auto simp: full_chain_def)
    then show ?case using assms(2) by auto
  qed (use assms(3) in simp)
  from this [of "n - Suc i"] assms(4,5) have "content fs (rot_name p (Suc i)) \<noteq> []" by (simp add: Suc_diff_Suc)
  then show ?thesis using assms(1,4,5) by (simp add: full_chain_def)
qed

definition rotator_sound :: "LogRotator \<Rightarrow> Fs \<Rightarrow> bool" where
  "rotator_sound r fs \<longleftrightarrow>
     0 < lr_max_bytes r \<and> \<not> lr_timestamp_suffix r \<and>
     (\<exists>sz. lr_inner r = Active True sz \<and> sz \<le> lr_max_bytes r \<and>
        (\<exists>d. file_at fs (lr_path r) = Some d \<and> length d = sz)) \<and>
     full_chain (lr_path r) (lr_backups r) (lr_max_bytes r) fs"

definition keeps_recent :: "bytes \<Rightarrow> bytes \<Rightarrow> nat \<Rightarrow> bool" where
  "keeps_recent written kept guaranteed \<longleftrightarrow>
     (\<exists>k \<le> length written. kept = drop k written \<and> (k = 0 \<or> guaranteed \<le> length kept))"

lemma keeps_recent_trans:
  assumes "keeps_recent a b g" and "keeps_recent (b @ x) c g" shows "keeps_recent (a @ x) c g"
proof -
  obtain k where k: "k \<le> length a" "b = drop k a" "k = 0 \<or> g \<le> length b"
    using assms(1) by (auto simp: keeps_recent_def)
  obtain j where j: "j \<le> length (b @ x)" "c = drop j (b @ x)" "j = 0 \<or> g \<le> length c"
    using assms(2) by (auto simp: keeps_recent_def)
  have "b @ x = drop k (a @ x)" using k(1,2) by simp
  then have "c = drop (j + k) (a @ x)" using j(2) by (simp only: drop_drop)
  moreover have "j + k \<le> length (a @ x)" using j(1) k(1,2) by simp
  moreover have "j + k = 0 \<or> g \<le> length c"
    using k(3) j(2,3) by (cases "j = 0") auto
  ultimately show ?thesis unfolding keeps_recent_def by blast
qed

lemma write_loop_ok:
  assumes "nofail fs" and "\<not> lr_timestamp_suffix r" and "0 < lr_max_bytes r" and "file_at fs (lr_path r) = Some d"
    and "full_chain (lr_path r) (lr_backups r) (lr_max_bytes r) fs" and "length d \<le> lr_max_bytes r"
  shows "\<exists>fs' sz. write_loop ts True (length d) data r fs = (Inr (), r\<lparr>lr_inner := Active True sz\<rparr>, fs') \<and>
     nofail fs' \<and> rotator_sound (r\<lparr>lr_inner := Active True sz\<rparr>) fs' \<and>
     keeps_recent (stream (lr_path r) (lr_backups r) fs @ data) (stream (lr_path r) (lr_backups r) fs')
       (lr_backups r * lr_max_bytes r)"
  using assms
proof (induction "2 * length data + (if d = [] then 0 else 1)" arbitrary: d data fs rule: less_induct)
  case less
  let ?p = "lr_path r" let ?m = "lr_max_bytes r" let ?n = "lr_backups r"
  define app where "app x = fs_next fs (append_data ?p x (fs_files fs))" for x
  have wr: "file_write_all ?p x fs = (Inr (), app x)" for x
    using less.prems(1) by (simp add: file_write_all_def fs_try_ok app_def)
  have app: "nofail (app x)" "file_at (app x) ?p = Some (d @ x)" "q \<noteq> ?p \<Longrightarrow> file_at (app x) q = file_at fs q" for x q
    using less.prems(1,4) by (simp_all add: app_def file_at_append)
  have rn: "rot_name ?p i \<noteq> ?p" if "1 \<le> i" for i using that by (simp add: rot_name_def)
  have apc: "content (app x) (rot_name ?p i) = content fs (rot_name ?p i)" if "1 \<le> i" for x i
    using app(3) rn [OF that] by (simp add: content_def)
  have chain: "full_chain ?p ?n ?m (app x)" for x
    using less.prems(5) by (simp add: full_chain_def apc)
  have str: "stream ?p ?n (app x) = stream ?p ?n fs @ x" for x
    using less.prems(4) app(2) apc by (intro stream_append) (simp_all add: content_def)
  show ?case
  proof (cases "data = [] \<or> length d + length data \<le> ?m")
    case True
    define fs' where "fs' = (if data = [] then fs else app data)"
    have "write_loop ts True (length d) data r fs = (Inr (), r\<lparr>lr_inner := Active True (length d + length data)\<rparr>, fs')"
      using True less.prems(3) by (subst write_loop.simps) (auto simp: Let_def wr fs'_def)
    moreover have "stream ?p ?n fs' = stream ?p ?n fs @ data" using str by (simp add: fs'_def)
    then have "keeps_recent (stream ?p ?n fs @ data) (stream ?p ?n fs') (?n * ?m)"
      unfolding keeps_recent_def by (intro exI [of _ 0]) simp
    moreover have "nofail fs'" "rotator_sound (r\<lparr>lr_inner := Active True (length d + length data)\<rparr>) fs'"
      using True less.prems app chain by (auto simp: fs'_def rotator_sound_def)
    ultimately show ?thesis by blast
  next
    case False
    define left where "left = ?m - length d"
    define fs0 where "fs0 = (if 0 < left then app (take left data) else fs)"
    have f0: "nofail fs0" "file_at fs0 ?p = Some (d @ take left data)" "full_chain ?p ?n ?m fs0"
      "stream ?p ?n fs0 = stream ?p ?n fs @ take left data"
      using less.prems app chain str by (auto simp: fs0_def)
    have len: "length (d @ take left data) = ?m" "length (drop left data) < length data \<or> left = 0" "left \<le> length data"
      using False less.prems(6) by (auto simp: left_def)
    obtain fs1 fs2 where rot: "rotate_on_disk ?p ?n False ts fs0 = (Inr (), fs1)" "open_truncate ?p fs1 = (Inr (), fs2)"
      "nofail fs2" "file_at fs2 ?p = Some []"
      "\<And>i. i < ?n \<Longrightarrow> file_at fs2 (rot_name ?p (Suc i)) = file_at fs0 (rot_name ?p i)"
      using rotate_ok [OF f0(1,2), of ?n ts] by blast
    have c2: "content fs2 ?p = []" "\<And>i. i < ?n \<Longrightarrow> content fs2 (rot_name ?p (Suc i)) = content fs0 (rot_name ?p i)"
      using rot(4,5) by (simp_all add: content_def)
    have c0: "length (content fs0 ?p) = ?m" using f0(2) len(1) by (simp add: content_def)
    have chain2: "full_chain ?p ?n ?m fs2"
      unfolding full_chain_def
    proof (intro allI impI)
      fix i
      assume i: "1 \<le> i \<and> i < ?n \<and> content fs2 (rot_name ?p (Suc i)) \<noteq> []"
      have "?m \<le> length (content fs0 (rot_name ?p (i - 1)))"
      proof (cases "i = 1")
        case False
        then have "1 \<le> i - 1 \<and> i - 1 < ?n \<and> content fs0 (rot_name ?p (Suc (i - 1))) \<noteq> []"
          using i c2(2) [of i] by auto
        then show ?thesis using f0(3) unfolding full_chain_def by blast
      qed (use c0 in simp)
      moreover have "i - 1 < ?n" using i by linarith
      ultimately show "?m \<le> length (content fs2 (rot_name ?p i))" using c2(2) [of "i - 1"] i by simp
    qed
    note st = stream_rotate [OF c2]
    have kept: "keeps_recent (stream ?p ?n fs0) (stream ?p ?n fs2) (?n * ?m)"
    proof (cases "content fs0 (rot_name ?p ?n) = []")
      case True
      then show ?thesis unfolding keeps_recent_def using st(1) by (intro exI [of _ 0]) simp
    next
      case False
      have "?m \<le> length (content fs0 (rot_name ?p i))" if "i < ?n" for i
        using full_chain_down [OF f0(3) less.prems(3) False] c0 that by (cases "i = 0") auto
      then have "?n * ?m \<le> length (stream ?p ?n fs2)"
        using full_files_length [of ?n ?m "\<lambda>i. content fs0 (rot_name ?p i)"] st(2) by simp
      then show ?thesis unfolding keeps_recent_def using st(1)
        by (intro exI [of _ "length (content fs0 (rot_name ?p ?n))"]) simp
    qed
    have loop: "write_loop ts True (length d) data r fs = write_loop ts True 0 (drop left data) r fs2"
      using False less.prems(2,3) wr rot(1,2)
      by (subst write_loop.simps) (auto simp: Let_def fs0_def left_def)
    have "\<exists>fs' sz. write_loop ts True 0 (drop left data) r fs2 = (Inr (), r\<lparr>lr_inner := Active True sz\<rparr>, fs') \<and>
       nofail fs' \<and> rotator_sound (r\<lparr>lr_inner := Active True sz\<rparr>) fs' \<and>
       keeps_recent (stream ?p ?n fs2 @ drop left data) (stream ?p ?n fs') (?n * ?m)"
    proof -
      have "2 * length (drop left data) + (if ([] :: bytes) = [] then 0 else 1) < 2 * length data + (if d = [] then 0 else 1)"
        using False less.prems(3) len(2) by (auto simp: left_def)
      from less.hyps [OF this rot(3) less.prems(2,3) rot(4) chain2] show ?thesis by simp
    qed
    then obtain fs' sz where w: "write_loop ts True 0 (drop left data) r fs2 = (Inr (), r\<lparr>lr_inner := Active True sz\<rparr>, fs')"
      "nofail fs'" "rotator_sound (r\<lparr>lr_inner := Active True sz\<rparr>) fs'"
      "keeps_recent (stream ?p ?n fs2 @ drop left data) (stream ?p ?n fs') (?n * ?m)" by blast
    have "keeps_recent (stream ?p ?n fs0 @ drop left data) (stream ?p ?n fs') (?n * ?m)"
      using keeps_recent_trans [OF kept w(4)] .
    then show ?thesis using loop w f0(4) by auto
  qed
qed


definition demo_fs :: Fs where
  "demo_fs = \<lparr>fs_files = [(''log'', ''abc'')], fs_fail = (\<lambda>_. None), fs_ops = 0\<rparr>"

definition demo_rotator :: LogRotator where
  "demo_rotator = \<lparr>lr_path = ''log'', lr_max_bytes = 4, lr_backups = 1, lr_timestamp_suffix = False,
     lr_inner = Active True 3\<rparr>"


section \<open>Failures\<close>

text \<open>A rotator without an open file has filled its current one, so the next write rotates.\<close>

definition handle_ok :: "LogRotator \<Rightarrow> bool" where
  "handle_ok r \<longleftrightarrow> (\<forall>sz. lr_inner r = Active False sz \<longrightarrow> 0 < lr_max_bytes r \<and> lr_max_bytes r \<le> sz)"

definition fs_errors :: "Fs \<Rightarrow> string set" where
  "fs_errors fs = {e. \<exists>n k. fs_fail fs n = Some (k, e)}"

definition io_ok :: "Fs \<Rightarrow> (string + 'a) \<times> Fs \<Rightarrow> bool" where
  "io_ok fs r \<longleftrightarrow> fs_fail (snd r) = fs_fail fs \<and> (\<forall>e. fst r = Inl e \<longrightarrow> e \<in> fs_errors fs)"

lemma fs_try_io: "io_ok fs (fs_try f g fs)"
  by (auto simp: io_ok_def fs_errors_def fs_try_def Let_def split: option.split)

lemma io_ok_ops:
  "io_ok fs (open_append p fs)" "io_ok fs (open_truncate p fs)" "io_ok fs (file_write_all p d fs)"
  "io_ok fs (remove_file p fs)" "io_ok fs (rename_file p q fs)"
  by (simp_all add: fs_op_defs fs_try_io)

lemma io_ok_bind:
  assumes "io_ok fs r" and "\<And>x fs'. r = (Inr x, fs') \<Longrightarrow> fs_fail fs' = fs_fail fs \<Longrightarrow> io_ok fs' (f x fs')"
  shows "io_ok fs (case r of (Inl e, fs') \<Rightarrow> (Inl e, fs') | (Inr x, fs') \<Rightarrow> f x fs')"
  using assms by (cases r, cases "fst r") (auto simp: io_ok_def fs_errors_def)

lemma io_ok_return [simp]: "io_ok fs (Inr x, fs)"
  by (simp add: io_ok_def)

lemma shift_backups_io: "io_ok fs (shift_backups p k fs)"
proof (induction k arbitrary: fs)
  case (Suc k)
  then show ?case unfolding shift_backups.simps Let_def
    by (auto intro!: io_ok_bind io_ok_ops)
qed simp

lemma rotate_io: "io_ok fs (rotate_on_disk p n b ts fs)"
proof -
  have rm: "io_ok fs (remove_existing q fs)" for q fs by (simp add: remove_existing_def io_ok_ops)
  have "fs_fail (fold (\<lambda>name fs. snd (remove_file name fs)) ns fs) = fs_fail fs" for ns fs
    using io_ok_ops(4) by (induction ns arbitrary: fs) (simp_all add: io_ok_def)
  then have ts: "io_ok fs (rotate_timestamp p n ts fs)" for fs
    unfolding rotate_timestamp_def Let_def by (intro io_ok_bind io_ok_ops) (simp add: io_ok_def)
  have num: "io_ok fs (rotate_numeric p n fs)" for fs
    unfolding rotate_numeric_def by (intro io_ok_bind rm shift_backups_io io_ok_ops)
  have "io_ok fs (Inr (), snd (remove_file p fs))" using io_ok_ops(4) [of fs p] by (simp add: io_ok_def)
  then show ?thesis using ts num by (simp add: rotate_on_disk_def)
qed

lemma io_ok_cases:
  assumes "io_ok fs r" obtains e fs' where "r = (Inl e, fs')" "e \<in> fs_errors fs" "fs_fail fs' = fs_fail fs"
  | x fs' where "r = (Inr x, fs')" "fs_fail fs' = fs_fail fs"
  using assms by (cases r, cases "fst r") (auto simp: io_ok_def)

definition outcome_ok :: "Fs \<Rightarrow> rotator_result \<Rightarrow> bool" where
  "outcome_ok fs res \<longleftrightarrow> handle_ok (fst (snd res)) \<and> (\<forall>e. fst res = Inl e \<longrightarrow> e \<in> fs_errors fs)"

lemma write_fallback_outcome: "handle_ok r \<Longrightarrow> outcome_ok fs (write_fallback data r fs)"
proof -
  assume h: "handle_ok r"
  from io_ok_ops(1) [of fs "lr_path r"] show ?thesis
  proof (cases rule: io_ok_cases)
    case (1 e fs1)
    then show ?thesis using h by (simp add: write_fallback_def outcome_ok_def)
  next
    case (2 x fs1)
    from io_ok_ops(3) [of fs1 "lr_path r" data] show ?thesis
      by (cases rule: io_ok_cases) (use 2 h in \<open>auto simp: write_fallback_def outcome_ok_def handle_ok_def fs_errors_def\<close>)
  qed
qed

lemma outcome_ok_fail: "outcome_ok fs' res \<Longrightarrow> fs_fail fs' = fs_fail fs \<Longrightarrow> outcome_ok fs res"
  by (simp add: outcome_ok_def fs_errors_def)

lemma fallback_outcome:
  "handle_ok r \<Longrightarrow> fs_fail fs' = fs_fail fs \<Longrightarrow> outcome_ok fs (write_fallback data r fs')"
  by (rule outcome_ok_fail [OF write_fallback_outcome])

lemma write_loop_outcome:
  assumes "0 < lr_max_bytes r" and "fl \<or> lr_max_bytes r \<le> sz"
  shows "outcome_ok fs (write_loop ts fl sz data r fs)"
  using assms
proof (induction ts fl sz data r fs rule: write_loop.induct)
  case (1 ts fl sz data r fs)
  let ?p = "lr_path r" let ?m = "lr_max_bytes r" let ?left = "?m - sz"
  have ha: "handle_ok (r\<lparr>lr_inner := Active fl sz\<rparr>)" using "1.prems" by (auto simp: handle_ok_def)
  show ?case
  proof (cases "data \<noteq> [] \<and> ?m < sz + length data")
    case False
    show ?thesis
    proof (cases "data = []")
      case True
      then show ?thesis using ha by (subst write_loop.simps) (simp add: outcome_ok_def Let_def)
    next
      case d: False
      then have f: "fl" using False "1.prems" by (cases data) auto
      have g: "\<not> (data = [] \<or> ?m = 0)" "\<not> ?m < sz + length data" "\<not> \<not> fl"
        using d False f "1.prems" by auto
      have eq: "write_loop ts fl sz data r fs =
          (case file_write_all ?p data fs of
             (Inl e, fs) \<Rightarrow> write_fallback data (r\<lparr>lr_inner := Active fl sz\<rparr>) fs
           | (Inr _, fs) \<Rightarrow> (Inr (), r\<lparr>lr_inner := Active True (sz + length data)\<rparr>, fs))"
        using g f by (subst write_loop.simps) (simp only: Let_def if_False if_True)
      from io_ok_ops(3) [of fs ?p data] show ?thesis
      proof (cases rule: io_ok_cases)
        case (1 e fs1)
        then show ?thesis using fallback_outcome [OF ha, of fs1 fs] by (simp add: eq)
      next
        case (2 x fs1)
        then show ?thesis by (simp add: eq outcome_ok_def handle_ok_def)
      qed
    qed
  next
    case True
    then have g: "\<not> (data = [] \<or> ?m = 0)" "?m < sz + length data" using "1.prems" by auto
    have nm: "\<not> (0 < ?left \<and> \<not> fl)" using "1.prems" by auto
    have hc: "handle_ok (r\<lparr>lr_inner := Active False (sz + ?left)\<rparr>)" using "1.prems" by (auto simp: handle_ok_def)
    define w where "w = (if 0 < ?left then file_write_all ?p (take ?left data) fs else (Inr (), fs))"
    have eq: "write_loop ts fl sz data r fs =
        (case w of (Inl e, fs) \<Rightarrow> write_fallback data (r\<lparr>lr_inner := Active fl sz\<rparr>) fs
         | (Inr _, fs) \<Rightarrow>
            (case rotate_on_disk ?p (lr_backups r) (lr_timestamp_suffix r) ts fs of
               (Inl e, fs) \<Rightarrow> write_fallback (drop ?left data) (r\<lparr>lr_inner := Active False (sz + ?left)\<rparr>) fs
             | (Inr _, fs) \<Rightarrow>
                 (case open_truncate ?p fs of
                    (Inl e, fs) \<Rightarrow> write_fallback (drop ?left data) (r\<lparr>lr_inner := Active False (sz + ?left)\<rparr>) fs
                  | (Inr _, fs) \<Rightarrow> write_loop ts True 0 (drop ?left data) r fs)))"
      using g nm by (subst write_loop.simps) (simp only: Let_def if_False if_True w_def)
    have "io_ok fs w" by (simp add: w_def io_ok_ops)
    then show ?thesis
    proof (cases rule: io_ok_cases)
      case (1 e fs1)
      then show ?thesis using fallback_outcome [OF ha, of fs1 fs] by (simp add: eq)
    next
      case w: (2 x fs1)
      from rotate_io [of fs1 ?p "lr_backups r" "lr_timestamp_suffix r" ts] show ?thesis
      proof (cases rule: io_ok_cases)
        case (1 e fs2)
        then show ?thesis using w fallback_outcome [OF hc, of fs2 fs] by (simp add: eq)
      next
        case r: (2 x fs2)
        from io_ok_ops(2) [of fs2 ?p] show ?thesis
        proof (cases rule: io_ok_cases)
          case (1 e fs3)
          then show ?thesis using w r fallback_outcome [OF hc, of fs3 fs] by (simp add: eq)
        next
          case t: (2 x fs3)
          have "outcome_ok fs3 (write_loop ts True 0 (drop ?left data) r fs3)"
            using "1.prems" r t
            by (intro "1.IH" [OF refl refl refl g refl nm w(1) [unfolded w_def, symmetric] refl refl refl]) auto
          then have "outcome_ok fs (write_loop ts True 0 (drop ?left data) r fs3)"
            by (rule outcome_ok_fail) (use w r t in simp)
          then show ?thesis using w r t by (simp add: eq)
        qed
      qed
    qed
  qed
qed

lemma metadata_len_fail [simp]: "fs_fail (snd (metadata_len p fs)) = fs_fail fs"
  by (auto simp: metadata_len_def fs_try_def Let_def split: option.split)

lemma build_inner_cases:
  obtains e fs' where "build_inner p n fs = (Inl e, fs')" "e \<in> fs_errors fs" "fs_fail fs' = fs_fail fs"
  | sz fs' where "build_inner p n fs = (Inr (Active True sz), fs')" "fs_fail fs' = fs_fail fs"
  using io_ok_ops(1) [of fs p]
proof (cases rule: io_ok_cases)
  case (1 e fs1)
  then show ?thesis using that(1) by (simp add: build_inner_def)
next
  case (2 x fs1)
  obtain len fs2 where "metadata_len p fs1 = (len, fs2)" "fs_fail fs2 = fs_fail fs1"
    using metadata_len_fail [of p fs1] by (cases "metadata_len p fs1") simp
  then show ?thesis using 2
    by (intro that(2) [of "if 0 < n then len else 0" "if 0 < n then fs2 else fs1"]) (simp_all add: build_inner_def)
qed

lemma try_recover_outcome:
  assumes "handle_ok r"
  shows "handle_ok (fst (try_recover r fs)) \<and> fs_fail (snd (try_recover r fs)) = fs_fail fs"
proof (cases "lr_inner r")
  case (Active f sz)
  then show ?thesis using assms by (simp add: try_recover_def)
next
  case (Fallback n)
  then show ?thesis
    by (cases rule: build_inner_cases [of "lr_path r" "lr_max_bytes r" fs])
      (simp_all add: try_recover_def handle_ok_def)
qed

lemma write_direct_outcome:
  assumes "handle_ok r" and "\<And>fs'. handle_ok (g fs')"
  shows "outcome_ok fs (case file_write_all p data fs of (Inl e, fs) \<Rightarrow> write_fallback data r fs
     | (Inr _, fs) \<Rightarrow> (Inr (), g fs, fs))"
  using io_ok_ops(3) [of fs p data]
proof (cases rule: io_ok_cases)
  case (1 e fs1)
  then show ?thesis using fallback_outcome [OF assms(1), of fs1 fs] by simp
next
  case (2 x fs1)
  then show ?thesis using assms(2) by (simp add: outcome_ok_def)
qed

lemma handle_ok_start:
  "fst (rotator_open p n b t fs) = Inr r \<Longrightarrow> handle_ok r"
  "handle_ok r \<Longrightarrow> handle_ok (fst (snd (log_rotator_clear r fs)))"
proof -
  show "fst (rotator_open p n b t fs) = Inr r \<Longrightarrow> handle_ok r"
    by (cases rule: build_inner_cases [of p n fs]) (auto simp: rotator_open_def handle_ok_def)
next
  assume h: "handle_ok r"
  obtain x fs1 where t: "open_truncate (lr_path r) fs = (x, fs1)" by fastforce
  obtain y fs3 where a: "open_append (lr_path r) (snd (build_inner (lr_path r) (lr_max_bytes r) fs1)) = (y, fs3)"
    by fastforce
  show "handle_ok (fst (snd (log_rotator_clear r fs)))"
    using h t a by (cases x; cases y; cases rule: build_inner_cases [of "lr_path r" "lr_max_bytes r" fs1])
      (auto simp: log_rotator_clear_def handle_ok_def)
qed

text \<open>
  A write to the rotating log survives failures of the file system. Whatever operation fails, an error that
  the write reports is one that the file system gave: the internal error of a missing file handle is never
  reported, because a rotator that lost its handle in a failed rotation has filled its file and rotates again
  before it writes. The condition on the rotator holds after opening and clearing it, and after
  every write.
\<close>

theorem rotator_write_failures:
  assumes "handle_ok r"
  shows "handle_ok (fst (snd (rotator_write_all ts data r fs))) \<and>
    (\<forall>e. fst (rotator_write_all ts data r fs) = Inl e \<longrightarrow> e \<in> fs_errors fs)"
proof -
  obtain r' fs' where rec: "try_recover r fs = (r', fs')" "handle_ok r'" "fs_fail fs' = fs_fail fs"
    using try_recover_outcome [OF assms, of fs] by (cases "try_recover r fs") simp
  have "outcome_ok fs' (rotator_write_all ts data r fs)"
  proof (cases "lr_inner r'")
    case (Fallback n)
    then show ?thesis using write_direct_outcome [OF rec(2), of "\<lambda>_. r'" fs' data "lr_path r'"] rec(1,2)
      by (simp add: rotator_write_all_def)
  next
    case (Active f sz)
    show ?thesis
    proof (cases "lr_max_bytes r' = 0")
      case True
      then have f using rec(2) Active by (auto simp: handle_ok_def)
      then show ?thesis
        using True Active rec(1)
          write_direct_outcome [OF rec(2), of "\<lambda>_. r'\<lparr>lr_inner := Active True (sz + length data)\<rparr>" fs' data "lr_path r'"]
        by (simp add: rotator_write_all_def handle_ok_def)
    next
      case False
      then have "outcome_ok fs' (write_loop ts f sz data r' fs')"
        using Active rec(2) by (intro write_loop_outcome) (auto simp: handle_ok_def)
      then show ?thesis using False Active rec(1) by (simp add: rotator_write_all_def)
    qed
  qed
  then have "outcome_ok fs (rotator_write_all ts data r fs)" by (rule outcome_ok_fail) (rule rec(3))
  then show ?thesis by (simp add: outcome_ok_def)
qed

text \<open>The disk is full from the second operation on.\<close>

definition full_disk :: Fs where
  "full_disk = demo_fs\<lparr>fs_fail := (\<lambda>n. if n = 0 then None else Some (0, ''no space left''))\<rparr>"

theorem rotator_write_failures_witness:
  "fst (rotator_write_all [] ''defghi'' demo_rotator full_disk) = Inl ''no space left'' \<and>
   handle_ok (fst (snd (rotator_write_all [] ''defghi'' demo_rotator full_disk))) \<and>
   ''no space left'' \<in> fs_errors full_disk"
proof -
  have h: "handle_ok demo_rotator" by (simp add: handle_ok_def demo_rotator_def)
  have e: "fst (rotator_write_all [] ''defghi'' demo_rotator full_disk) = Inl ''no space left''"
    by code_simp
  show ?thesis
    using e rotator_write_failures [OF h, of "[]" "''defghi''" full_disk] by simp
qed

end
