(* ===== verification/Listener_Program.thy ===== *)
theory Listener_Program
  imports Listener_Pool "HOL-Library.Sublist" "HOL-Library.Code_Target_Nat"
begin

text \<open>
  The listener processes of an event pool (\<open>src/src/eventlistener/program.rs\<close>): the task that
  speaks the READY/RESULT protocol with one process, and the tasks of a pool running concurrently
  with the arrival of events.

  A task is a record with the unread output of its process, everything written to the process's
  standard input, and its protocol state. In the state \<open>Ready\<close> it waits at one of four points,
  \<open>ReadyPhase\<close>: before it looks for an event, between finding none and registering for a
  notification, registered, and while it writes an event. Each of these is a point at which other
  tasks can run, so the interleavings of the model are those of the program's threads. A read that
  is still incomplete when an event is taken is abandoned with what it has consumed.

  \<open>ln_acked\<close> and \<open>ln_lost\<close> are history variables: the events the process has acknowledged, and
  those that were in its hands when the task was cancelled.
\<close>

section \<open>The protocol task\<close>

datatype ListenerState = Acknowledged | Ready | Busy | UnknownState

datatype ProcessResult = ResultOk | Rejected | ProtocolError

definition evaluate_result :: "string \<Rightarrow> ProcessResult" where
  "evaluate_result body = (if trim body = ''OK'' then ResultOk else Rejected)"

definition EVENT_LISTENER_MAX_RESULT_BYTES :: nat where
  "EVENT_LISTENER_MAX_RESULT_BYTES = 1048576"

datatype ReadyPhase = Polling | Registering | WaitingSince nat | Writing EventEnvelope

record Listener =
  ln_state :: ListenerState
  ln_phase :: ReadyPhase
  ln_current :: "EventEnvelope option"
  ln_input :: bytes
  ln_eof :: bool
  ln_output :: bytes
  ln_ended :: bool
  ln_acked :: "EventEnvelope list"
  ln_lost :: "EventEnvelope list"

definition listener_new :: Listener where
  "listener_new = \<lparr>ln_state = Acknowledged, ln_phase = Polling, ln_current = None, ln_input = [],
     ln_eof = False, ln_output = [], ln_ended = False, ln_acked = [], ln_lost = []\<rparr>"

text \<open>
  \<open>read_line\<close>: a line with its newline, or the rest at the end of the stream; it fails on bytes
  that are not UTF-8, and does not return as long as the line is incomplete.
\<close>

datatype LineRead = Pending | EndOfFile | Line bytes | ReadError

definition read_line :: "bool \<Rightarrow> bytes \<Rightarrow> LineRead \<times> bytes" where
  "read_line eof input =
     (case split_once newline input of
        Some (a, rest) \<Rightarrow> (if utf8_valid (a @ [newline]) then Line (a @ [newline]) else ReadError, rest)
      | None \<Rightarrow>
          if \<not> eof then (Pending, input)
          else if input = [] then (EndOfFile, [])
          else (if utf8_valid input then Line input else ReadError, []))"

type_synonym task = "EventListenerPool \<times> Listener"

definition requeue_current :: "task \<Rightarrow> task" where
  "requeue_current t =
     (let (p, l) = t
      in case ln_current l of
           Some env \<Rightarrow> (requeue_rejected env p, l\<lparr>ln_current := None\<rparr>)
         | None \<Rightarrow> (p, l))"

text \<open>The end of the task, after the end of the stream or an I/O error.\<close>

definition end_task :: "task \<Rightarrow> task" where
  "end_task t = (let (p, l) = requeue_current t in (p, l\<lparr>ln_ended := True\<rparr>))"

definition enter_unknown :: "task \<Rightarrow> task" where
  "enter_unknown t = (let (p, l) = requeue_current t in (p, l\<lparr>ln_state := UnknownState\<rparr>))"

definition on_acknowledged :: "task \<Rightarrow> task option" where
  "on_acknowledged t =
     (let (p, l) = t; (r, rest) = read_line (ln_eof l) (ln_input l); l' = l\<lparr>ln_input := rest\<rparr>
      in case r of
           Pending \<Rightarrow> None
         | EndOfFile \<Rightarrow> Some (end_task (p, l'))
         | ReadError \<Rightarrow> Some (end_task (p, l'))
         | Line line \<Rightarrow>
             if trim line = ''READY''
             then Some (notify_waiters p, l'\<lparr>ln_state := Ready, ln_phase := Polling\<rparr>)
             else Some (p, l'\<lparr>ln_state := UnknownState\<rparr>))"

definition on_ready :: "task \<Rightarrow> task option" where
  "on_ready t =
     (let (p, l) = t; (r, rest) = read_line (ln_eof l) (ln_input l); l' = l\<lparr>ln_input := rest\<rparr>
      in case r of
           Pending \<Rightarrow> None
         | EndOfFile \<Rightarrow> Some (end_task (p, l'))
         | ReadError \<Rightarrow> Some (end_task (p, l'))
         | Line line \<Rightarrow> Some (p, l'\<lparr>ln_state := UnknownState\<rparr>))"

definition trim_end_eol :: "bytes \<Rightarrow> bytes" where
  "trim_end_eol s = rev (dropWhile (\<lambda>c. c = carriage_return \<or> c = newline) (rev s))"

definition on_result :: "bytes \<Rightarrow> task \<Rightarrow> task" where
  "on_result body t =
     (let (p, l) = t
      in if evaluate_result (utf8_lossy body) = ResultOk
         then (p, l\<lparr>ln_acked := ln_acked l @ (case ln_current l of Some env \<Rightarrow> [env] | None \<Rightarrow> []),
                    ln_current := None, ln_state := Acknowledged\<rparr>)
         else (let (p, l) = requeue_current (p, l) in (p, l\<lparr>ln_state := Acknowledged\<rparr>)))"

definition on_busy :: "task \<Rightarrow> task option" where
  "on_busy t =
     (let (p, l) = t; (r, rest) = read_line (ln_eof l) (ln_input l); l' = l\<lparr>ln_input := rest\<rparr>
      in case r of
           Pending \<Rightarrow> None
         | EndOfFile \<Rightarrow> Some (end_task (p, l'))
         | ReadError \<Rightarrow> Some (end_task (p, l'))
         | Line line \<Rightarrow>
             (case strip_prefix ''RESULT '' (trim_end_eol line) of
                None \<Rightarrow> Some (enter_unknown (p, l'))
              | Some len_str \<Rightarrow>
                  (case parse_unsigned usize_max (trim len_str) of
                     None \<Rightarrow> Some (enter_unknown (p, l'))
                   | Some expected_len \<Rightarrow>
                       if EVENT_LISTENER_MAX_RESULT_BYTES < expected_len
                       then Some (enter_unknown (p, l'))
                       else if expected_len \<le> length rest
                       then Some (on_result (take expected_len rest) (p, l'\<lparr>ln_input := drop expected_len rest\<rparr>))
                       else if ln_eof l
                       then Some (enter_unknown (p, l'\<lparr>ln_input := []\<rparr>))
                       else None)))"

text \<open>What the task does with the output of its process.\<close>

definition react :: "task \<Rightarrow> task option" where
  "react t =
     (let (p, l) = t
      in if ln_ended l then None
         else (case ln_state l of
                 Acknowledged \<Rightarrow> on_acknowledged t
               | Ready \<Rightarrow> (case ln_phase l of Polling \<Rightarrow> on_ready t | WaitingSince _ \<Rightarrow> on_ready t | _ \<Rightarrow> None)
               | Busy \<Rightarrow> on_busy t
               | UnknownState \<Rightarrow> None))"

text \<open>Looking for an event; the pending read has been polled before and has found no complete line.\<close>

definition awake :: "EventListenerPool \<Rightarrow> Listener \<Rightarrow> bool" where
  "awake p l = (case ln_phase l of Polling \<Rightarrow> True | WaitingSince n \<Rightarrow> pl_notified p \<noteq> n | _ \<Rightarrow> False)"

definition poll_event :: "task \<Rightarrow> task option" where
  "poll_event t =
     (let (p, l) = t
      in if \<not> ln_ended l \<and> ln_state l = Ready \<and> awake p l \<and> fst (read_line (ln_eof l) (ln_input l)) = Pending
         then (case pop_next_event p of
                 (Some env, p) \<Rightarrow> Some (p, l\<lparr>ln_phase := Writing env, ln_input := []\<rparr>)
               | (None, p) \<Rightarrow> Some (p, l\<lparr>ln_phase := Registering\<rparr>))
         else None)"

definition register_waiter :: "task \<Rightarrow> task option" where
  "register_waiter t =
     (let (p, l) = t
      in if \<not> ln_ended l \<and> ln_state l = Ready \<and> ln_phase l = Registering
         then Some (p, l\<lparr>ln_phase := WaitingSince (pl_notified p)\<rparr>) else None)"

definition write_event :: "bool \<Rightarrow> task \<Rightarrow> task option" where
  "write_event ok t =
     (let (p, l) = t
      in if ln_ended l \<or> ln_state l \<noteq> Ready then None
         else (case ln_phase l of
                 Writing env \<Rightarrow>
                   if ok
                   then Some (p, l\<lparr>ln_output := ln_output l @ format_wire (pl_server_identifier p) env,
                                   ln_current := Some env, ln_state := Busy, ln_phase := Polling\<rparr>)
                   else Some (end_task (requeue_rejected env p, l\<lparr>ln_phase := Polling\<rparr>))
               | _ \<Rightarrow> None))"

definition read_failure :: "task \<Rightarrow> task option" where
  "read_failure t =
     (let (p, l) = t
      in if ln_ended l \<or> ln_state l = UnknownState \<or> (case ln_phase l of Writing _ \<Rightarrow> True | Registering \<Rightarrow> True | _ \<Rightarrow> False) then None
         else Some (end_task (p, l)))"

text \<open>The cancellation of the task, when its process is stopped: whatever it was doing is dropped.\<close>

definition in_flight :: "Listener \<Rightarrow> EventEnvelope list" where
  "in_flight l =
     (case ln_current l of Some env \<Rightarrow> [env] | None \<Rightarrow> []) @
     (case ln_phase l of Writing env \<Rightarrow> [env] | _ \<Rightarrow> [])"

definition cancel_task :: "task \<Rightarrow> task option" where
  "cancel_task t =
     (let (p, l) = t
      in if ln_ended l then None
         else Some (p, l\<lparr>ln_ended := True, ln_lost := ln_lost l @ in_flight l, ln_current := None,
                         ln_phase := Polling\<rparr>))"

section \<open>A pool with its listeners\<close>

record ListenerSystem =
  sy_serial :: u64
  sy_pool :: EventListenerPool
  sy_listeners :: "Listener list"

datatype SystemLabel =
    Hub HubMessage
  | Spawn
  | Feed nat bytes
  | CloseOutput nat
  | React nat
  | Poll nat
  | Register nat
  | WriteDone nat bool
  | ReadFailure nat
  | Cancel nat

definition on_task :: "nat \<Rightarrow> (task \<Rightarrow> task option) \<Rightarrow> ListenerSystem \<Rightarrow> ListenerSystem option" where
  "on_task i f s =
     (if i < length (sy_listeners s)
      then map_option (\<lambda>(p, l). s\<lparr>sy_pool := p, sy_listeners := (sy_listeners s)[i := l]\<rparr>)
             (f (sy_pool s, sy_listeners s ! i))
      else None)"

fun sys_step :: "SystemLabel \<Rightarrow> ListenerSystem \<Rightarrow> ListenerSystem option" where
  "sys_step (Hub msg) s =
     (let (g, p) = hub_listener_step msg (sy_serial s, sy_pool s) in Some (s\<lparr>sy_serial := g, sy_pool := p\<rparr>))"
| "sys_step Spawn s = Some (s\<lparr>sy_listeners := sy_listeners s @ [listener_new]\<rparr>)"
| "sys_step (Feed i bs) s =
     on_task i (\<lambda>(p, l). if ln_eof l then None else Some (p, l\<lparr>ln_input := ln_input l @ bs\<rparr>)) s"
| "sys_step (CloseOutput i) s = on_task i (\<lambda>(p, l). Some (p, l\<lparr>ln_eof := True\<rparr>)) s"
| "sys_step (React i) s = on_task i react s"
| "sys_step (Poll i) s = on_task i poll_event s"
| "sys_step (Register i) s = on_task i register_waiter s"
| "sys_step (WriteDone i ok) s = on_task i (write_event ok) s"
| "sys_step (ReadFailure i) s = on_task i read_failure s"
| "sys_step (Cancel i) s = on_task i cancel_task s"

abbreviation sys_run :: "SystemLabel list \<Rightarrow> ListenerSystem \<Rightarrow> ListenerSystem option" where
  "sys_run \<equiv> run_steps sys_step"

definition sys_init :: "u64 \<Rightarrow> EventListenerPool \<Rightarrow> ListenerSystem" where
  "sys_init g p = \<lparr>sy_serial = g, sy_pool = p, sy_listeners = []\<rparr>"

section \<open>Every event is accounted for\<close>

text \<open>Where the events of a pool can be: in the buffer, reported as lost, or with a listener.\<close>

definition pool_places :: "EventListenerPool \<Rightarrow> EventEnvelope list" where
  "pool_places p = pl_buffer p @ pl_overflowed p"

definition task_places :: "Listener \<Rightarrow> EventEnvelope list" where
  "task_places l = in_flight l @ ln_acked l @ ln_lost l"

definition pool_ok :: "EventListenerPool \<Rightarrow> bool" where
  "pool_ok p \<longleftrightarrow> 0 < pl_buffer_size p \<and> length (pl_buffer p) \<le> pl_buffer_size p"

definition task_ok :: "Listener \<Rightarrow> bool" where
  "task_ok l \<longleftrightarrow> (ln_current l \<noteq> None \<longrightarrow> ln_state l = Busy \<and> \<not> ln_ended l) \<and>
     (\<forall>env. ln_phase l = Writing env \<longrightarrow> ln_state l = Ready \<and> \<not> ln_ended l)"

definition conserves :: "task \<Rightarrow> task \<Rightarrow> bool" where
  "conserves t t' \<longleftrightarrow>
     mset (pool_places (fst t')) + mset (task_places (snd t')) = mset (pool_places (fst t)) + mset (task_places (snd t)) \<and>
     pl_serial (fst t') = pl_serial (fst t) \<and> pl_buffer_size (fst t') = pl_buffer_size (fst t) \<and> (pool_ok (fst t) \<longrightarrow> pool_ok (fst t')) \<and> task_ok (snd t')"

lemma requeue_places: "mset (pool_places (requeue_rejected env p)) = add_mset env (mset (pool_places p))"
proof -
  have "add_mset (last xs) (mset (butlast xs)) = mset xs" if "xs \<noteq> []" for xs :: "EventEnvelope list"
    using append_butlast_last_id [OF that] by (metis add.right_neutral mset.simps(1,2) mset_append union_mset_add_mset_right)
  then show ?thesis by (simp add: pool_places_def requeue_rejected_def notify_waiters_def Let_def)
qed

lemma requeue_frame [simp]:
  "pl_serial (requeue_rejected env p) = pl_serial p"
  "pl_buffer_size (requeue_rejected env p) = pl_buffer_size p"
  "pl_server_identifier (requeue_rejected env p) = pl_server_identifier p"
  by (simp_all add: requeue_rejected_def notify_waiters_def Let_def)

lemma requeue_pool_ok: "pool_ok p \<Longrightarrow> pool_ok (requeue_rejected env p)"
  by (auto simp: pool_ok_def requeue_rejected_def notify_waiters_def Let_def)

lemma in_flight_simps [simp]:
  "in_flight (l\<lparr>ln_input := i\<rparr>) = in_flight l" "in_flight (l\<lparr>ln_state := st\<rparr>) = in_flight l"
  "in_flight (l\<lparr>ln_eof := b\<rparr>) = in_flight l" "in_flight (l\<lparr>ln_ended := b\<rparr>) = in_flight l"
  "in_flight (l\<lparr>ln_acked := xs\<rparr>) = in_flight l" "in_flight (l\<lparr>ln_output := i\<rparr>) = in_flight l"
  by (simp_all add: in_flight_def)

lemma requeue_current_conserves:
  assumes "task_ok l" and "requeue_current (p, l) = (p', l')"
  shows "conserves (p, l) (p', l') \<and> ln_current l' = None \<and> ln_phase l' = ln_phase l \<and>
    ln_state l' = ln_state l \<and> ln_ended l' = ln_ended l"
  using assms
  by (auto simp: requeue_current_def conserves_def task_places_def in_flight_def task_ok_def requeue_places
      requeue_pool_ok split: option.splits)

lemma conserves_input:
  "conserves (p, l\<lparr>ln_input := i\<rparr>) t \<longleftrightarrow> conserves (p, l) t"
  by (simp add: conserves_def task_places_def)

lemma task_ok_input [simp]: "task_ok (l\<lparr>ln_input := i\<rparr>) = task_ok l"
  by (simp add: task_ok_def)

lemma end_task_conserves:
  assumes "task_ok l" and "\<nexists>env. ln_phase l = Writing env"
  shows "conserves (p, l) (end_task (p, l))"
proof -
  obtain p' l' where "requeue_current (p, l) = (p', l')" by fastforce
  then show ?thesis using requeue_current_conserves [OF assms(1), of p p' l'] assms
    by (auto simp: end_task_def conserves_def task_places_def task_ok_def)
qed

lemma enter_unknown_conserves:
  assumes "task_ok l" and "\<nexists>env. ln_phase l = Writing env"
  shows "conserves (p, l) (enter_unknown (p, l))"
proof -
  obtain p' l' where "requeue_current (p, l) = (p', l')" by fastforce
  then show ?thesis using requeue_current_conserves [OF assms(1), of p p' l'] assms
    by (auto simp: enter_unknown_def conserves_def task_places_def task_ok_def)
qed

lemma on_result_conserves:
  assumes "task_ok l" and "ln_state l = Busy" and "\<not> ln_ended l"
  shows "conserves (p, l) (on_result body (p, l))"
proof -
  obtain p' l' where "requeue_current (p, l) = (p', l')" by fastforce
  then show ?thesis using requeue_current_conserves [OF assms(1), of p p' l'] assms
    by (auto simp: on_result_def conserves_def task_places_def task_ok_def in_flight_def
        split: option.splits ReadyPhase.splits)
qed

lemma state_conserves:
  "task_ok l \<Longrightarrow> ln_current l = None \<Longrightarrow> \<nexists>env. ln_phase l = Writing env \<Longrightarrow>
     conserves (p, l) (p, l\<lparr>ln_state := st\<rparr>)"
  by (simp add: conserves_def task_places_def task_ok_def)

lemmas conserves_intros = end_task_conserves enter_unknown_conserves on_result_conserves state_conserves

lemma on_acknowledged_conserves:
  assumes "task_ok l" and "ln_state l = Acknowledged" and "on_acknowledged (p, l) = Some t"
  shows "conserves (p, l) t"
proof -
  obtain r rest where rd: "read_line (ln_eof l) (ln_input l) = (r, rest)" by fastforce
  let ?l = "l\<lparr>ln_input := rest\<rparr>"
  have ok: "task_ok ?l" "\<nexists>env. ln_phase ?l = Writing env" "ln_current ?l = None"
    using assms(1,2) by (auto simp: task_ok_def)
  have "conserves (p, ?l) (notify_waiters p, ?l\<lparr>ln_state := Ready, ln_phase := Polling\<rparr>)"
    using ok by (auto simp: conserves_def task_places_def in_flight_def task_ok_def pool_places_def
        notify_waiters_def pool_ok_def split: ReadyPhase.splits)
  then have "conserves (p, ?l) t"
    using assms(3) rd ok
    by (cases r) (auto simp: on_acknowledged_def Let_def intro: conserves_intros split: if_splits)
  then show ?thesis by (simp add: conserves_input)
qed

lemma on_ready_conserves:
  assumes "task_ok l" and "ln_state l = Ready" and "\<nexists>env. ln_phase l = Writing env"
    and "on_ready (p, l) = Some t"
  shows "conserves (p, l) t"
proof -
  obtain r rest where rd: "read_line (ln_eof l) (ln_input l) = (r, rest)" by fastforce
  let ?l = "l\<lparr>ln_input := rest\<rparr>"
  have ok: "task_ok ?l" "\<nexists>env. ln_phase ?l = Writing env" "ln_current ?l = None"
    using assms(1-3) by (auto simp: task_ok_def)
  have "conserves (p, ?l) t"
    using assms(4) rd ok by (cases r) (auto simp: on_ready_def Let_def intro: conserves_intros)
  then show ?thesis by (simp add: conserves_input)
qed

lemma on_busy_conserves:
  assumes "task_ok l" and "ln_state l = Busy" and "\<not> ln_ended l" and "on_busy (p, l) = Some t"
  shows "conserves (p, l) t"
proof -
  obtain r rest where rd: "read_line (ln_eof l) (ln_input l) = (r, rest)" by fastforce
  have ok: "task_ok (l\<lparr>ln_input := i\<rparr>)" "\<nexists>env. ln_phase (l\<lparr>ln_input := i\<rparr>) = Writing env" for i
    using assms(1,2) by (auto simp: task_ok_def)
  have e: "conserves (p, l) (end_task (p, l\<lparr>ln_input := i\<rparr>))"
    "conserves (p, l) (enter_unknown (p, l\<lparr>ln_input := i\<rparr>))"
    "conserves (p, l) (on_result body (p, l\<lparr>ln_input := i\<rparr>))" for i body
    using conserves_intros(1,2) [OF ok, of p i] conserves_intros(3) [OF ok(1), of i p body] assms(2,3)
    by (simp_all add: conserves_input)
  show ?thesis
    using assms(4) rd by (auto simp: on_busy_def Let_def e split: LineRead.splits option.splits if_splits)
qed

lemma react_conserves: "task_ok l \<Longrightarrow> react (p, l) = Some t \<Longrightarrow> conserves (p, l) t"
  by (auto simp: react_def intro: on_acknowledged_conserves on_ready_conserves on_busy_conserves
      split: if_splits ListenerState.splits ReadyPhase.splits)

lemma poll_event_conserves: "task_ok l \<Longrightarrow> poll_event (p, l) = Some t \<Longrightarrow> conserves (p, l) t"
  by (auto simp: poll_event_def pop_next_event_def conserves_def pool_places_def task_places_def in_flight_def
      task_ok_def pool_ok_def awake_def split: if_splits list.splits ReadyPhase.splits option.splits)

lemma register_waiter_conserves: "task_ok l \<Longrightarrow> register_waiter (p, l) = Some t \<Longrightarrow> conserves (p, l) t"
  by (auto simp: register_waiter_def conserves_def task_places_def in_flight_def task_ok_def split: if_splits)

lemma write_event_conserves:
  assumes "task_ok l" and "write_event ok (p, l) = Some t"
  shows "conserves (p, l) t"
proof -
  obtain env where w: "ln_phase l = Writing env" "ln_state l = Ready" "\<not> ln_ended l"
    using assms(2) by (auto simp: write_event_def split: if_splits ReadyPhase.splits)
  have c: "ln_current l = None" using assms(1) w(2) by (auto simp: task_ok_def)
  have "conserves (requeue_rejected env p, l\<lparr>ln_phase := Polling\<rparr>)
      (end_task (requeue_rejected env p, l\<lparr>ln_phase := Polling\<rparr>))"
    using assms(1) by (intro end_task_conserves) (auto simp: task_ok_def)
  moreover have "mset (task_places l) = add_mset env (mset (task_places (l\<lparr>ln_phase := Polling\<rparr>)))"
    using w c by (simp add: task_places_def in_flight_def)
  ultimately show ?thesis
    using assms w c
    by (cases ok) (auto simp: write_event_def conserves_def requeue_places requeue_pool_ok
        task_places_def in_flight_def task_ok_def)
qed

lemma read_failure_conserves: "task_ok l \<Longrightarrow> read_failure (p, l) = Some t \<Longrightarrow> conserves (p, l) t"
  by (auto simp: read_failure_def intro: conserves_intros split: if_splits ReadyPhase.splits)

lemma cancel_task_conserves: "task_ok l \<Longrightarrow> cancel_task (p, l) = Some t \<Longrightarrow> conserves (p, l) t"
  by (auto simp: cancel_task_def conserves_def task_places_def in_flight_def task_ok_def
      split: if_splits option.splits ReadyPhase.splits)

lemmas task_conserves = react_conserves poll_event_conserves register_waiter_conserves
  write_event_conserves read_failure_conserves cancel_task_conserves

definition sys_places :: "ListenerSystem \<Rightarrow> EventEnvelope list" where
  "sys_places s = pool_places (sy_pool s) @ concat (map task_places (sy_listeners s))"

definition numbered :: "u64 \<Rightarrow> EventEnvelope multiset \<Rightarrow> bool" where
  "numbered next es \<longleftrightarrow> (\<exists>n. next = of_nat n \<and> image_mset ev_pool_serial es = image_mset of_nat (mset [0..<n]))"

definition sys_inv :: "nat \<Rightarrow> ListenerSystem \<Rightarrow> bool" where
  "sys_inv k s \<longleftrightarrow> pool_ok (sy_pool s) \<and> pl_buffer_size (sy_pool s) = k \<and> list_all task_ok (sy_listeners s) \<and>
     numbered (pl_serial (sy_pool s)) (mset (sys_places s))"

lemma accept_event_cases:
  obtains "accept_event n pl (g, p) = (g, p)"
  | e p' where "accept_event n pl (g, p) = (g + 1, p')" "ev_pool_serial e = pl_serial p"
      "pl_serial p' = pl_serial p + 1" "mset (pool_places p') = add_mset e (mset (pool_places p))"
      "pool_ok p \<Longrightarrow> pool_ok p'" "pl_buffer_size p' = pl_buffer_size p"
      "pl_buffer p' = (if pl_buffer_size p \<le> length (pl_buffer p) then tl (pl_buffer p) else pl_buffer p) @ [e]"
proof (cases "event_matches_subscription n (pl_events p)")
  case True
  define e where "e = \<lparr>ev_global_serial = g, ev_pool_serial = pl_serial p, ev_pool = pl_name p,
    ev_event_name = n, ev_payload = pl\<rparr>"
  define p' where "p' = snd (accept_event n pl (g, p))"
  note def = p'_def accept_event_def True Let_def notify_waiters_def next_global_serial_def e_def [symmetric]
  show ?thesis
  proof (rule that(2) [of p' e])
    show "accept_event n pl (g, p) = (g + 1, p')" "pl_serial p' = pl_serial p + 1"
      "pl_buffer_size p' = pl_buffer_size p"
      by (simp_all add: def split: list.split)
    show "ev_pool_serial e = pl_serial p" by (simp add: e_def)
    show "mset (pool_places p') = add_mset e (mset (pool_places p))"
      by (simp add: def pool_places_def split: list.split)
    show "pool_ok p \<Longrightarrow> pool_ok p'" by (auto simp: def pool_ok_def split: list.split)
    show "pl_buffer p' = (if pl_buffer_size p \<le> length (pl_buffer p) then tl (pl_buffer p) else pl_buffer p) @ [e]"
      by (simp add: def split: list.split)
  qed
qed (simp add: that(1) accept_event_def)

lemma numbered_add: "numbered k es \<Longrightarrow> ev_pool_serial e = k \<Longrightarrow> numbered (k + 1) (add_mset e es)"
  unfolding numbered_def
proof (elim exE conjE)
  fix n assume "k = of_nat n" "image_mset ev_pool_serial es = image_mset of_nat (mset [0..<n])" "ev_pool_serial e = k"
  then show "\<exists>n. k + 1 = of_nat n \<and> image_mset ev_pool_serial (add_mset e es) = image_mset of_nat (mset [0..<n])"
    by (intro exI [of _ "Suc n"]) simp
qed

lemma on_task_inv:
  assumes "sys_inv k s" and "on_task i f s = Some s'"
    and "\<And>p l t. task_ok l \<Longrightarrow> f (p, l) = Some t \<Longrightarrow> conserves (p, l) t"
  shows "sys_inv k s'"
proof -
  let ?l = "sy_listeners s ! i"
  obtain p' l' where i: "i < length (sy_listeners s)" and f: "f (sy_pool s, ?l) = Some (p', l')"
    and s': "s' = s\<lparr>sy_pool := p', sy_listeners := (sy_listeners s)[i := l']\<rparr>"
    using assms(2) by (auto simp: on_task_def split: if_splits)
  have tk: "list_all task_ok (sy_listeners s)" using assms(1) by (simp add: sys_inv_def)
  then have "task_ok ?l" using i by (simp add: list_all_length)
  then have c: "conserves (sy_pool s, ?l) (p', l')" using assms(3) f by blast
  have "mset (sys_places s') + mset (task_places ?l) = mset (sys_places s) + mset (task_places ?l)"
  proof -
    have "mset (sys_places s') + mset (task_places ?l) =
        mset (pool_places p') + (mset (concat (map task_places ((sy_listeners s)[i := l']))) + mset (task_places ?l))"
      by (simp add: s' sys_places_def ac_simps)
    also have "\<dots> = mset (pool_places p') + mset (task_places l') + mset (concat (map task_places (sy_listeners s)))"
      unfolding mset_concat_update [OF i] by (simp add: ac_simps)
    also have "mset (pool_places p') + mset (task_places l') = mset (pool_places (sy_pool s)) + mset (task_places ?l)"
      using c by (simp add: conserves_def)
    finally show ?thesis by (simp add: sys_places_def ac_simps)
  qed
  then have "mset (sys_places s') = mset (sys_places s)" by simp
  then show ?thesis using assms(1) c tk i s'
    by (auto simp: sys_inv_def conserves_def list_all_iff dest!: set_update_subset_insert [THEN subsetD])
qed

lemma hub_step_inv:
  assumes "sys_inv k s" and "sys_step (Hub msg) s = Some s'"
  shows "sys_inv k s'"
proof -
  let ?P = "\<lambda>(g, p). sys_inv k (s\<lparr>sy_serial := g, sy_pool := p\<rparr>)"
  have "?P (hub_listener_step msg (sy_serial s, sy_pool s))"
  proof (rule hub_listener_induct)
    fix n pl g p assume inv: "?P (g, p)"
    show "?P (accept_event n pl (g, p))"
    proof (cases rule: accept_event_cases [of n pl g p])
      case (2 e p')
      then show ?thesis using inv by (auto simp: sys_inv_def sys_places_def numbered_add)
    qed (use inv in \<open>simp add: sys_inv_def sys_places_def\<close>)
  qed (use assms(1) in simp)
  then show ?thesis using assms(2) by (auto simp: split_beta)
qed

lemma sys_step_inv:
  assumes "sys_inv k s" and "sys_step a s = Some s'"
  shows "sys_inv k s'"
proof (cases a)
  case (Hub msg)
  then show ?thesis using hub_step_inv assms by simp
next
  case Spawn
  have "task_ok listener_new" "task_places listener_new = []"
    by (simp_all add: listener_new_def task_ok_def task_places_def in_flight_def)
  then show ?thesis using assms Spawn by (auto simp: sys_inv_def sys_places_def)
next
  case (Feed i bs)
  then show ?thesis using assms
    by (auto simp: conserves_def task_places_def task_ok_def elim!: on_task_inv split: if_splits)
next
  case (CloseOutput i)
  then show ?thesis using assms
    by (auto simp: conserves_def task_places_def task_ok_def elim!: on_task_inv split: if_splits)
qed (use assms in \<open>auto elim!: on_task_inv intro: task_conserves\<close>)

interpretation conserved: step_invariant sys_step "\<lambda>_. True" "sys_inv k"
  by unfold_locales (rule sys_step_inv)

lemma in_flight_le: "task_ok l \<Longrightarrow> length (in_flight l) \<le> 1"
  by (auto simp: in_flight_def task_ok_def split: option.split ReadyPhase.split)

text \<open>Only a cancellation drops an event.\<close>

definition no_loss :: "ListenerSystem \<Rightarrow> bool" where
  "no_loss s \<longleftrightarrow> list_all (\<lambda>l. ln_lost l = []) (sy_listeners s)"

lemma requeue_lost:
  "ln_lost (snd (requeue_current t)) = ln_lost (snd t)"
  "ln_lost (snd (end_task t)) = ln_lost (snd t)" "ln_lost (snd (enter_unknown t)) = ln_lost (snd t)"
  "ln_lost (snd (on_result body t)) = ln_lost (snd t)"
  by (simp_all add: requeue_current_def end_task_def enter_unknown_def on_result_def split_beta
      split: option.split)

lemma react_lost: "react (p, l) = Some t \<Longrightarrow> ln_lost (snd t) = ln_lost l"
proof -
  obtain r rest where rd: "read_line (ln_eof l) (ln_input l) = (r, rest)" by fastforce
  assume "react (p, l) = Some t"
  then show ?thesis
    by (auto simp: react_def on_acknowledged_def on_ready_def on_busy_def Let_def rd requeue_lost
        split: if_splits ListenerState.splits ReadyPhase.splits LineRead.splits option.splits)
qed

lemma task_lost:
  "poll_event (p, l) = Some t \<Longrightarrow> ln_lost (snd t) = ln_lost l"
  "register_waiter (p, l) = Some t \<Longrightarrow> ln_lost (snd t) = ln_lost l"
  "write_event ok (p, l) = Some t \<Longrightarrow> ln_lost (snd t) = ln_lost l"
  "read_failure (p, l) = Some t \<Longrightarrow> ln_lost (snd t) = ln_lost l"
  by (auto simp: poll_event_def register_waiter_def write_event_def read_failure_def requeue_lost
      split: if_splits ReadyPhase.splits option.splits prod.splits)

lemma on_task_no_loss:
  assumes "no_loss s" and "on_task i f s = Some s'"
    and "\<And>p l t. f (p, l) = Some t \<Longrightarrow> ln_lost (snd t) = ln_lost l"
  shows "no_loss s'"
proof -
  obtain p' l' where i: "i < length (sy_listeners s)" and f: "f (sy_pool s, sy_listeners s ! i) = Some (p', l')"
    and s': "s' = s\<lparr>sy_pool := p', sy_listeners := (sy_listeners s)[i := l']\<rparr>"
    using assms(2) by (auto simp: on_task_def split: if_splits)
  have "ln_lost l' = []" using assms(3) [OF f] assms(1) i by (simp add: no_loss_def list_all_length)
  then show ?thesis using assms(1) s'
    by (auto simp: no_loss_def list_all_iff dest!: set_update_subset_insert [THEN subsetD])
qed

lemma no_loss_frame [simp]:
  "no_loss (s\<lparr>sy_serial := g, sy_pool := p\<rparr>) = no_loss s"
  "no_loss (s\<lparr>sy_listeners := sy_listeners s @ [listener_new]\<rparr>) = no_loss s"
  by (simp_all add: no_loss_def listener_new_def)

interpretation lossless: step_invariant sys_step "\<lambda>a. \<nexists>i. a = Cancel i" no_loss
proof
  fix a s s' assume "\<nexists>i. a = Cancel i" "no_loss s" "sys_step a s = Some s'"
  then show "no_loss s'"
  proof (cases a)
    case (Hub msg)
    then show ?thesis using \<open>no_loss s\<close> \<open>sys_step a s = Some s'\<close> by (auto simp: split_beta)
  next
    case Spawn
    then show ?thesis using \<open>no_loss s\<close> \<open>sys_step a s = Some s'\<close> by auto
  qed (auto elim!: on_task_no_loss intro: react_lost task_lost split: if_splits)
qed

section \<open>Order\<close>

text \<open>
  The events that a listener has acknowledged, holds and will receive, in this order. No step of
  its task adds to this sequence or changes the order of its elements.
\<close>

definition event_sequence :: "task \<Rightarrow> EventEnvelope list" where
  "event_sequence t = ln_acked (snd t) @ in_flight (snd t) @ pl_buffer (fst t)"

lemma requeue_buffer: "subseq (pl_buffer (requeue_rejected env p)) (env # pl_buffer p)"
proof -
  have "subseq (butlast xs) xs" for xs :: "EventEnvelope list"
    by (metis butlast_conv_take append_take_drop_id subseq_order.order_refl subseq_rev_drop_many)
  then show ?thesis by (simp add: requeue_rejected_def notify_waiters_def Let_def)
qed

lemma requeue_current_sequence:
  assumes "requeue_current (p, l) = (p', l')" and "\<nexists>env. ln_phase l = Writing env"
  shows "subseq (event_sequence (p', l')) (event_sequence (p, l)) \<and> in_flight l' = [] \<and> ln_phase l' = ln_phase l"
  using assms requeue_buffer
  by (auto simp: requeue_current_def event_sequence_def in_flight_def subseq_append'
      split: option.splits ReadyPhase.splits)

lemma event_sequence_simps [simp]:
  "event_sequence (p, l\<lparr>ln_input := i\<rparr>) = event_sequence (p, l)"
  "event_sequence (p, l\<lparr>ln_state := st\<rparr>) = event_sequence (p, l)"
  "event_sequence (p, l\<lparr>ln_ended := b\<rparr>) = event_sequence (p, l)"
  "event_sequence (p, l\<lparr>ln_eof := b\<rparr>) = event_sequence (p, l)"
  "event_sequence (notify_waiters p, l) = event_sequence (p, l)"
  by (simp_all add: event_sequence_def notify_waiters_def)

lemma end_sequence:
  assumes "\<nexists>env. ln_phase l = Writing env"
  shows "subseq (event_sequence (end_task (p, l))) (event_sequence (p, l))"
    "subseq (event_sequence (enter_unknown (p, l))) (event_sequence (p, l))"
    "subseq (event_sequence (on_result body (p, l))) (event_sequence (p, l))"
proof -
  obtain p' l' where r: "requeue_current (p, l) = (p', l')" by fastforce
  show "subseq (event_sequence (end_task (p, l))) (event_sequence (p, l))"
    "subseq (event_sequence (enter_unknown (p, l))) (event_sequence (p, l))"
    using requeue_current_sequence [OF r assms] by (simp_all add: end_task_def enter_unknown_def r)
  have "event_sequence (p, l\<lparr>ln_acked := ln_acked l @ (case ln_current l of Some env \<Rightarrow> [env] | None \<Rightarrow> []),
      ln_current := None, ln_state := Acknowledged\<rparr>) = event_sequence (p, l)"
    using assms by (auto simp: event_sequence_def in_flight_def split: option.split ReadyPhase.split)
  then show "subseq (event_sequence (on_result body (p, l))) (event_sequence (p, l))"
    using requeue_current_sequence [OF r assms] by (auto simp: on_result_def r Let_def)
qed

lemma react_sequence:
  assumes "task_ok l" and "react (p, l) = Some t"
  shows "subseq (event_sequence t) (event_sequence (p, l))"
proof -
  obtain r rest where rd: "read_line (ln_eof l) (ln_input l) = (r, rest)" by fastforce
  have ph: "\<nexists>env. ln_phase l = Writing env"
    using assms by (auto simp: react_def task_ok_def split: if_splits ListenerState.splits ReadyPhase.splits)
  then have e: "subseq (event_sequence (end_task (p, l\<lparr>ln_input := i\<rparr>))) (event_sequence (p, l))"
    "subseq (event_sequence (enter_unknown (p, l\<lparr>ln_input := i\<rparr>))) (event_sequence (p, l))"
    "subseq (event_sequence (on_result body (p, l\<lparr>ln_input := i\<rparr>))) (event_sequence (p, l))" for i body
    using end_sequence [where l = "l\<lparr>ln_input := i\<rparr>" and p = p] by simp_all
  have "in_flight (l\<lparr>ln_phase := Polling\<rparr>) = in_flight l"
    using ph by (auto simp: in_flight_def split: ReadyPhase.split)
  then have "event_sequence (notify_waiters p, l\<lparr>ln_input := i, ln_state := st, ln_phase := Polling\<rparr>) = event_sequence (p, l)"
    for i st by (simp add: event_sequence_def notify_waiters_def in_flight_def)
  then show ?thesis using assms(2) e
    by (auto simp: react_def on_acknowledged_def on_ready_def on_busy_def Let_def rd
        split: if_splits ListenerState.splits ReadyPhase.splits LineRead.splits option.splits)
qed

lemma poll_event_sequence:
  assumes "task_ok l" and "poll_event (p, l) = Some t"
  shows "subseq (event_sequence t) (event_sequence (p, l))"
proof -
  have ph: "\<nexists>env. ln_phase l = Writing env" and c: "ln_current l = None"
    using assms by (auto simp: poll_event_def awake_def task_ok_def split: if_splits ReadyPhase.splits)
  have "in_flight l = []" using ph c by (auto simp: in_flight_def split: ReadyPhase.split)
  then show ?thesis using assms(2) c
    by (cases "pl_buffer p") (auto simp: poll_event_def pop_next_event_def event_sequence_def in_flight_def split: if_splits)
qed

lemma register_waiter_sequence:
  "register_waiter (p, l) = Some t \<Longrightarrow> subseq (event_sequence t) (event_sequence (p, l))"
  by (auto simp: register_waiter_def event_sequence_def in_flight_def split: if_splits)

lemma read_failure_sequence:
  "read_failure (p, l) = Some t \<Longrightarrow> subseq (event_sequence t) (event_sequence (p, l))"
  by (auto simp: read_failure_def intro!: end_sequence split: if_splits ReadyPhase.splits)

lemma cancel_task_sequence:
  assumes "cancel_task (p, l) = Some t"
  shows "subseq (event_sequence t) (event_sequence (p, l))"
proof -
  have "event_sequence t = ln_acked l @ pl_buffer p"
    using assms by (auto simp: cancel_task_def event_sequence_def in_flight_def split: if_splits)
  then show ?thesis by (simp add: event_sequence_def subseq_append' subseq_drop_many)
qed

lemma write_event_sequence:
  assumes "task_ok l" and "write_event ok (p, l) = Some t"
  shows "subseq (event_sequence t) (event_sequence (p, l))"
proof -
  obtain env where w: "ln_phase l = Writing env" "ln_state l = Ready" "\<not> ln_ended l"
    using assms(2) by (auto simp: write_event_def split: if_splits ReadyPhase.splits)
  have c: "ln_current l = None" using assms(1) w(2) by (auto simp: task_ok_def)
  have "subseq (event_sequence (end_task (requeue_rejected env p, l\<lparr>ln_phase := Polling\<rparr>)))
      (event_sequence (requeue_rejected env p, l\<lparr>ln_phase := Polling\<rparr>))"
    by (rule end_sequence(1)) simp
  also have "subseq \<dots> (event_sequence (p, l))"
    using requeue_buffer [of env p] w c by (simp add: event_sequence_def in_flight_def subseq_append')
  finally show ?thesis using assms w c
    by (cases ok) (auto simp: write_event_def event_sequence_def in_flight_def)
qed

lemmas task_sequence = react_sequence poll_event_sequence register_waiter_sequence read_failure_sequence
  cancel_task_sequence write_event_sequence

definition in_order :: "EventEnvelope list \<Rightarrow> u64 \<Rightarrow> bool" where
  "in_order es next \<longleftrightarrow>
     (\<exists>n ks. next = of_nat n \<and> map ev_pool_serial es = map of_nat ks \<and> sorted_wrt (<) (ks @ [n :: nat]))"

lemma in_order_subseq:
  assumes "in_order es k" and "subseq es' es"
  shows "in_order es' k"
proof -
  obtain n ks where ks: "k = of_nat n" "map ev_pool_serial es = map of_nat ks" "sorted_wrt (<) (ks @ [n])"
    using assms(1) by (auto simp: in_order_def)
  obtain N where N: "es' = nths es N" using assms(2) by (auto simp: subseq_conv_nths)
  have "map ev_pool_serial es' = map of_nat (nths ks N)" using ks(2) N by (metis nths_map)
  moreover have "sorted_wrt (<) (nths ks N @ [n])"
    using ks(3) by (auto simp: sorted_wrt_append strict_sorted_iff sorted_nths distinct_nthsI dest: in_set_nthsD)
  ultimately show ?thesis using ks(1) unfolding in_order_def by blast
qed

lemma in_order_snoc: "in_order es k \<Longrightarrow> ev_pool_serial e = k \<Longrightarrow> in_order (es @ [e]) (k + 1)"
  unfolding in_order_def
proof (elim exE conjE)
  fix n ks assume "k = of_nat n" "map ev_pool_serial es = map of_nat ks" "sorted_wrt (<) (ks @ [n])" "ev_pool_serial e = k"
  then show "\<exists>n ks. k + 1 = of_nat n \<and> map ev_pool_serial (es @ [e]) = map of_nat ks \<and> sorted_wrt (<) (ks @ [n])"
    by (intro exI [of _ "Suc n"] exI [of _ "ks @ [n]"]) (auto simp: sorted_wrt_append)
qed

definition single_ordered :: "ListenerSystem \<Rightarrow> bool" where
  "single_ordered s \<longleftrightarrow>
     (\<exists>l. sy_listeners s = [l] \<and> task_ok l \<and> in_order (event_sequence (sy_pool s, l)) (pl_serial (sy_pool s)))"

lemma on_task_ordered:
  assumes "single_ordered s" and "on_task i f s = Some s'"
    and "\<And>p l t. task_ok l \<Longrightarrow> f (p, l) = Some t \<Longrightarrow> conserves (p, l) t \<and> subseq (event_sequence t) (event_sequence (p, l))"
  shows "single_ordered s'"
proof -
  obtain l where l: "sy_listeners s = [l]" "task_ok l" "in_order (event_sequence (sy_pool s, l)) (pl_serial (sy_pool s))"
    using assms(1) by (auto simp: single_ordered_def)
  obtain p' l' where f: "f (sy_pool s, l) = Some (p', l')" and s': "s' = s\<lparr>sy_pool := p', sy_listeners := [l']\<rparr>"
    using assms(2) l(1) by (auto simp: on_task_def split: if_splits)
  show ?thesis using assms(3) [OF l(2) f] l s' in_order_subseq by (auto simp: single_ordered_def conserves_def)
qed

lemma hub_step_ordered:
  assumes "single_ordered s" and "sys_step (Hub msg) s = Some s'"
  shows "single_ordered s'"
proof -
  let ?P = "\<lambda>(g, p). single_ordered (s\<lparr>sy_serial := g, sy_pool := p\<rparr>)"
  have "?P (hub_listener_step msg (sy_serial s, sy_pool s))"
  proof (rule hub_listener_induct)
    fix n pl g p assume inv: "?P (g, p)"
    then obtain l where l: "sy_listeners s = [l]" "task_ok l" "in_order (event_sequence (p, l)) (pl_serial p)"
      by (auto simp: single_ordered_def)
    show "?P (accept_event n pl (g, p))"
    proof (cases rule: accept_event_cases [of n pl g p])
      case (2 e p')
      have "subseq (event_sequence (p', l)) (event_sequence (p, l) @ [e])"
        unfolding event_sequence_def using 2(7) by (cases "pl_buffer p") (auto simp: subseq_append')
      then have "in_order (event_sequence (p', l)) (pl_serial p')"
        using in_order_snoc [OF l(3) 2(2)] 2(3) in_order_subseq by simp
      then show ?thesis using 2(1) l(1,2) by (simp add: single_ordered_def)
    qed (use inv in simp)
  qed (use assms(1) in \<open>simp add: single_ordered_def\<close>)
  then show ?thesis using assms(2) by (auto simp: split_beta)
qed

interpretation ordered: step_invariant sys_step "\<lambda>a. a \<noteq> Spawn" single_ordered
proof
  fix a s s' assume a: "a \<noteq> Spawn" "single_ordered s" "sys_step a s = Some s'"
  show "single_ordered s'"
  proof (cases a)
    case (Hub msg)
    then show ?thesis using hub_step_ordered a by simp
  next
    case (Feed i bs)
    show ?thesis by (rule on_task_ordered [OF a(2), of i]) (use a Feed in
      \<open>auto simp: conserves_def task_places_def task_ok_def split: if_splits\<close>)
  next
    case (CloseOutput i)
    show ?thesis by (rule on_task_ordered [OF a(2), of i]) (use a CloseOutput in
      \<open>auto simp: conserves_def task_places_def task_ok_def split: if_splits\<close>)
  qed (use a in \<open>auto elim!: on_task_ordered intro: task_conserves task_sequence\<close>)
qed

section \<open>Properties of a pool with its listeners\<close>

lemma sys_init_inv:
  "sys_inv (max cap 1) (sys_init g (pool_new name sid events cap))" "no_loss (sys_init g p)"
  by (auto simp: sys_inv_def sys_init_def pool_new_def pool_ok_def sys_places_def pool_places_def numbered_def
      no_loss_def intro: exI [of _ 0])

text \<open>
  C13: No event gets lost or duplicated silently. However events, output of the listener processes,
  failures and the steps of the tasks interleave, the events that the pool has accepted, which are
  numbered without gaps, are exactly those in its buffer, those reported as discarded on overflow, and
  those that a listener holds, has acknowledged, or held when its task was cancelled. A listener holds
  one event at most, the buffer does not exceed its size, and without a cancellation nothing is lost
  but the reported overflows.
\<close>

theorem events_conserved:
  assumes "sys_run labels (sys_init g (pool_new name sid events cap)) = Some s"
  shows "(\<exists>n. pl_serial (sy_pool s) = of_nat n \<and>
       image_mset ev_pool_serial (mset (sys_places s)) = image_mset of_nat (mset [0..<n])) \<and>
    length (pl_buffer (sy_pool s)) \<le> max cap 1 \<and>
    list_all (\<lambda>l. length (in_flight l) \<le> 1) (sy_listeners s) \<and>
    ((\<forall>i. Cancel i \<notin> set labels) \<longrightarrow> list_all (\<lambda>l. ln_lost l = []) (sy_listeners s))"
proof -
  have "sys_inv (max cap 1) s"
    using conserved.run_preserves [OF _ sys_init_inv(1) assms] by (simp add: list_all_iff)
  then have "numbered (pl_serial (sy_pool s)) (mset (sys_places s))" "length (pl_buffer (sy_pool s)) \<le> max cap 1"
    and t: "list_all task_ok (sy_listeners s)"
    by (auto simp: sys_inv_def pool_ok_def)
  moreover have "list_all (\<lambda>l. length (in_flight l) \<le> 1) (sy_listeners s)"
    by (rule list.pred_mono_strong [OF t]) (rule in_flight_le)
  moreover have "list_all (\<lambda>l. ln_lost l = []) (sy_listeners s)" if "\<forall>i. Cancel i \<notin> set labels"
  proof -
    have "list_all (\<lambda>a. \<nexists>i. a = Cancel i) labels" using that by (auto simp: list_all_iff)
    from lossless.run_preserves [OF this sys_init_inv(2) assms] show ?thesis by (simp add: no_loss_def)
  qed
  ultimately show ?thesis unfolding numbered_def by blast
qed

definition demo_pool :: EventListenerPool where
  "demo_pool = pool_new ''p'' ''id'' [''EVENT''] 2"

definition demo_labels :: "SystemLabel list" where
  "demo_labels = [Spawn, Feed 0 (''READY'' @ [newline]), React 0, Hub (SysMsg (Tick 5 10)), Poll 0, WriteDone 0 True,
     Feed 0 (''RESULT 2'' @ [newline] @ ''OK''), React 0]"

theorem events_conserved_witness:
  "\<exists>s. sys_run demo_labels (sys_init 0 demo_pool) = Some s \<and> length (pl_buffer (sy_pool s)) \<le> 2 \<and>
     list_all (\<lambda>l. ln_lost l = []) (sy_listeners s) \<and> map (map ev_event_name \<circ> ln_acked) (sy_listeners s) = [[''TICK_5'']]"
proof -
  have "map_option (\<lambda>s. map (map ev_event_name \<circ> ln_acked) (sy_listeners s))
      (sys_run demo_labels (sys_init 0 (pool_new ''p'' ''id'' [''EVENT''] 2))) = Some [[''TICK_5'']]"
    by code_simp
  then obtain s where s: "sys_run demo_labels (sys_init 0 (pool_new ''p'' ''id'' [''EVENT''] 2)) = Some s"
    "map (map ev_event_name \<circ> ln_acked) (sy_listeners s) = [[''TICK_5'']]"
    unfolding map_option_eq_Some by (elim exE conjE)
  have "\<forall>i. Cancel i \<notin> set demo_labels" by (simp add: demo_labels_def)
  then show ?thesis using s events_conserved [OF s(1)] by (simp add: demo_pool_def)
qed


text \<open>A listener that rejects the first of two events and then acknowledges both.\<close>

definition demo_reject :: "SystemLabel list" where
  "demo_reject = [Hub (SysMsg (Tick 5 10)), Hub (SysMsg (Tick 5 15)),
     Feed 0 (''READY'' @ [newline]), React 0, Poll 0, WriteDone 0 True, Feed 0 (''RESULT 4'' @ [newline] @ ''FAIL''), React 0,
     Feed 0 (''READY'' @ [newline]), React 0, Poll 0, WriteDone 0 True, Feed 0 (''RESULT 2'' @ [newline] @ ''OK''), React 0,
     Feed 0 (''READY'' @ [newline]), React 0, Poll 0, WriteDone 0 True, Feed 0 (''RESULT 2'' @ [newline] @ ''OK''), React 0]"


text \<open>
  A wake-up can be lost. When an event arrives after a ready listener has found the buffer empty and
  before it has registered for a notification, the event stays in the buffer while the listener waits:
  no step of the listener is possible although it is ready and nothing else is in its hands.
\<close>

theorem lost_wakeup:
  "case sys_run [Spawn, Feed 0 (''READY'' @ [newline]), React 0, Poll 0, Hub (SysMsg (Tick 5 10)), Register 0]
     (sys_init 0 demo_pool) of
     Some s \<Rightarrow> length (pl_buffer (sy_pool s)) = 1 \<and> map ln_state (sy_listeners s) = [Ready] \<and>
       map in_flight (sy_listeners s) = [[]] \<and> map ln_input (sy_listeners s) = [[]] \<and>
       sys_step (React 0) s = None \<and> sys_step (Poll 0) s = None \<and> sys_step (Register 0) s = None \<and>
       sys_step (WriteDone 0 True) s = None
   | None \<Rightarrow> False"
  by code_simp

end
