(* ===== verification/Json_Values.thy ===== *)
theory Json_Values
  imports Value_Text "HOL-Library.Code_Target_Nat"
begin

text \<open>
  The intermediate tree of the configuration (\<open>serde_json::Value\<close>, whose objects keep the order of
  insertion) and the readers and writers of single settings in it (\<open>src/src/serde_util.rs\<close> and
  \<open>LogMode\<close> of \<open>src/src/program/config.rs\<close>). A reader is a visitor: one branch per kind of value; the
  branches it does not have are answered by the library's type error, whose description of the
  value is the argument \<open>un\<close>.
\<close>

section \<open>Trees\<close>

text \<open>A number is a \<open>u64\<close>, a negative \<open>i64\<close> or a floating point number, here its text.\<close>

datatype Json =
    JNull
  | JBool bool
  | JPos u64
  | JNeg u64
  | JFloat string
  | JStr string
  | JArr "Json list"
  | JObj "(string \<times> Json) list"

type_synonym unexpected = "Json \<Rightarrow> string"
type_synonym 'a read = "string + 'a"

definition wrong_type :: "unexpected \<Rightarrow> string \<Rightarrow> Json \<Rightarrow> 'a read" where
  "wrong_type un expecting j = Inl (''invalid type: '' @ un j @ '', expected '' @ expecting)"

definition custom :: "'a result \<Rightarrow> 'a read" where
  "custom r = map_sum error_text id r"

text \<open>A visitor with branches for unsigned numbers, signed numbers and texts.\<close>

definition visit_number_or_text ::
  "unexpected \<Rightarrow> string \<Rightarrow> (u64 \<Rightarrow> 'a read) \<Rightarrow> (u64 \<Rightarrow> 'a read) \<Rightarrow> (string \<Rightarrow> 'a read) \<Rightarrow> Json \<Rightarrow> 'a read" where
  "visit_number_or_text un expecting on_u64 on_i64 on_str j =
     (case j of
        JPos v \<Rightarrow> on_u64 v
      | JNeg v \<Rightarrow> on_i64 v
      | JStr s \<Rightarrow> on_str s
      | _ \<Rightarrow> wrong_type un expecting j)"

text \<open>An optional setting: null is absent, anything else is visited.\<close>

definition visit_option :: "(Json \<Rightarrow> 'a option read) \<Rightarrow> Json \<Rightarrow> 'a option read" where
  "visit_option f j = (if j = JNull then Inr None else f j)"

definition blank_is_none :: "(string \<Rightarrow> 'a read) \<Rightarrow> string \<Rightarrow> 'a option read" where
  "blank_is_none f v = (let trimmed = trim v in if trimmed = [] then Inr None else map_sum id Some (f trimmed))"

definition not_negative :: "string \<Rightarrow> (u64 \<Rightarrow> 'a) \<Rightarrow> u64 \<Rightarrow> 'a read" where
  "not_negative message f v = (if sint v < 0 then Inl message else Inr (f v))"

section \<open>Durations\<close>

definition parse_secs :: "string \<Rightarrow> duration read" where
  "parse_secs v =
     (let trimmed = trim v; s = trim (unwrap_or (strip_suffix ''s'' trimmed) trimmed)
      in map_sum id from_secs (from_str_radix 10 u64_max s))"

definition duration_expecting :: string where
  "duration_expecting = ''a duration in seconds as an integer or string (e.g. 10, '' @ quoted ''10s'' @ '')''"

definition duration_negative :: string where "duration_negative = ''duration cannot be negative''"

definition secs_of :: "u64 \<Rightarrow> duration" where "secs_of v = from_secs (unat v)"

definition read_duration_secs :: "unexpected \<Rightarrow> Json \<Rightarrow> duration read" where
  "read_duration_secs un =
     visit_number_or_text un duration_expecting (\<lambda>v. Inr (secs_of v)) (not_negative duration_negative secs_of) parse_secs"

definition write_duration_secs :: "duration \<Rightarrow> Json" where
  "write_duration_secs d = JPos (of_nat (as_secs d))"

definition read_option_duration_secs :: "unexpected \<Rightarrow> Json \<Rightarrow> duration option read" where
  "read_option_duration_secs un =
     visit_option
       (visit_number_or_text un (''an optional duration in seconds as an integer or string (e.g. 10, '' @ quoted ''10s'' @ '')'')
         (\<lambda>v. Inr (Some (secs_of v))) (not_negative duration_negative (\<lambda>v. Some (secs_of v))) (blank_is_none parse_secs))"

definition write_option_duration_secs :: "duration option \<Rightarrow> Json" where
  "write_option_duration_secs x = (case x of Some d \<Rightarrow> JPos (of_nat (as_secs d)) | None \<Rightarrow> JNull)"

section \<open>Sizes\<close>

definition read_byte_size :: "unexpected \<Rightarrow> Json \<Rightarrow> nat read" where
  "read_byte_size un =
     visit_number_or_text un (''a byte size string (e.g. '' @ quoted ''50MB'' @ '') or an integer byte count'')
       (\<lambda>v. Inr (unat v)) (not_negative ''byte size cannot be negative'' unat) (\<lambda>s. custom (string_to_bytes s))"

definition write_byte_size :: "nat \<Rightarrow> Json" where
  "write_byte_size n = JStr (bytes_to_string n)"

definition read_option_byte_size :: "unexpected \<Rightarrow> Json \<Rightarrow> nat option read" where
  "read_option_byte_size un =
     visit_option
       (visit_number_or_text un (''an optional byte size string (e.g. '' @ quoted ''50MB'' @ '') or integer byte count'')
         (\<lambda>v. Inr (Some (unat v))) (not_negative ''byte size cannot be negative'' (\<lambda>v. Some (unat v)))
         (blank_is_none (\<lambda>s. custom (string_to_bytes s))))"

definition write_option_byte_size :: "nat option \<Rightarrow> Json" where
  "write_option_byte_size x = (case x of Some n \<Rightarrow> JStr (bytes_to_string n) | None \<Rightarrow> JNull)"

section \<open>Modes\<close>

definition mode_of :: "u64 \<Rightarrow> u32" where "mode_of v = ucast v AND chmod_mask"

definition mode_negative :: string where "mode_negative = ''chmod mode cannot be negative''"

definition read_chmod :: "unexpected \<Rightarrow> Json \<Rightarrow> u32 read" where
  "read_chmod un =
     visit_number_or_text un (''an octal mode string (e.g. '' @ quoted ''0700'' @ '') or an integer mode'')
       (\<lambda>v. Inr (mode_of v)) (not_negative mode_negative mode_of) (\<lambda>s. custom (string_to_chmod s))"

definition write_chmod :: "u32 \<Rightarrow> Json" where
  "write_chmod mode = JStr (chmod_to_string mode)"

definition read_option_chmod :: "unexpected \<Rightarrow> Json \<Rightarrow> u32 option read" where
  "read_option_chmod un =
     visit_option
       (visit_number_or_text un (''an optional octal mode string (e.g. '' @ quoted ''0700'' @ '') or integer mode'')
         (\<lambda>v. Inr (Some (mode_of v))) (not_negative mode_negative (\<lambda>v. Some (mode_of v)))
         (blank_is_none (\<lambda>s. custom (string_to_chmod s))))"

definition write_option_chmod :: "u32 option \<Rightarrow> Json" where
  "write_option_chmod x = (case x of Some mode \<Rightarrow> JStr (chmod_to_string mode) | None \<Rightarrow> JNull)"

section \<open>Addresses and log modes\<close>

definition read_optional_http_bind :: "unexpected \<Rightarrow> Json \<Rightarrow> string option read" where
  "read_optional_http_bind un j =
     (case j of JNull \<Rightarrow> Inr None | JStr s \<Rightarrow> Inr (Some (normalize_http_bind s)) | _ \<Rightarrow> wrong_type un ''a string'' j)"

definition write_option_string :: "string option \<Rightarrow> Json" where
  "write_option_string x = (case x of Some s \<Rightarrow> JStr s | None \<Rightarrow> JNull)"

definition parse_log_mode :: "string \<Rightarrow> LogMode read" where
  "parse_log_mode s =
     (let trimmed = trim s
      in if any_ignore_case trimmed [''on'', ''true'', ''yes''] \<or> trimmed = ''1'' then Inr LogOn
         else if any_ignore_case trimmed [''off'', ''false'', ''no'', ''none'', ''disabled''] \<or> trimmed = ''0''
         then Inr LogOff
         else if any_ignore_case trimmed [''in_memory_only'', ''in_memory'', ''memory'', ''inmemory'', ''ram'']
         then Inr InMemoryOnly
         else Inl (''Invalid log mode '' @ quoted s @ ''. Expected '' @ quoted ''on'' @ '', '' @ quoted ''off''
                @ '', or '' @ quoted ''in_memory_only''))"

definition read_log_mode :: "unexpected \<Rightarrow> Json \<Rightarrow> LogMode read" where
  "read_log_mode un j =
     (case j of
        JBool v \<Rightarrow> Inr (if v then LogOn else LogOff)
      | JStr s \<Rightarrow> parse_log_mode s
      | _ \<Rightarrow> wrong_type un (''a boolean or log mode string ('' @ quoted ''on'' @ '', '' @ quoted ''off'' @ '', ''
               @ quoted ''in_memory_only'' @ '')'') j)"

fun write_log_mode :: "LogMode \<Rightarrow> Json" where
  "write_log_mode LogOn = JStr ''on''"
| "write_log_mode LogOff = JStr ''off''"
| "write_log_mode InMemoryOnly = JStr ''in_memory_only''"

section \<open>What is written is read back\<close>

lemma octal_mode_text:
  "trim (chmod_to_string mode) = chmod_to_string mode" "chmod_to_string mode \<noteq> []"
proof -
  have "is_ascii_digit (CHR ''0'')" by (simp add: is_ascii_digit_def byte_in_def)
  then have "digit_text (chmod_to_string mode)"
    using octal_digits_text [of "unat (mode AND chmod_mask)"]
    by (auto simp: digit_text_def chmod_to_string_def pad_left_def list_all_iff)
  then show "trim (chmod_to_string mode) = chmod_to_string mode" "chmod_to_string mode \<noteq> []"
    by (simp_all add: digit_text_case digit_text_def)
qed

lemma byte_size_text: "trim (bytes_to_string n) = bytes_to_string n" "bytes_to_string n \<noteq> []"
proof -
  obtain ds u where d: "bytes_to_string n = ds @ u" "digit_text ds" "u \<in> {''GB'', ''MB'', ''KB'', ''B''}"
    by (rule bytes_text_cases [of n]) (auto intro!: that)
  have "list_all (\<lambda>c. \<not> is_ascii_space c \<and> to_upper_char c = c) u"
    using d(3) by (auto simp: is_ascii_space_def to_upper_char_def Let_def)
  then show "trim (bytes_to_string n) = bytes_to_string n" "bytes_to_string n \<noteq> []"
    unfolding d(1) by (rule unit_text [OF d(2)])+
qed

lemma read_byte_size_text: "n < 2 ^ 63 \<Longrightarrow> read_byte_size un (write_byte_size n) = Inr n"
  by (simp add: read_byte_size_def write_byte_size_def visit_number_or_text_def custom_def byte_size_roundtrip)

lemma read_option_byte_size_text:
  "(\<And>n. x = Some n \<Longrightarrow> n < 2 ^ 63) \<Longrightarrow> read_option_byte_size un (write_option_byte_size x) = Inr x"
  by (cases x)
    (simp_all add: read_option_byte_size_def write_option_byte_size_def visit_option_def visit_number_or_text_def
      blank_is_none_def custom_def byte_size_roundtrip byte_size_text)

lemma read_chmod_text: "read_chmod un (write_chmod mode) = Inr (mode AND chmod_mask)"
  by (simp add: read_chmod_def write_chmod_def visit_number_or_text_def custom_def chmod_roundtrip)

lemma read_option_chmod_text:
  "read_option_chmod un (write_option_chmod x) = Inr (map_option (\<lambda>mode. mode AND chmod_mask) x)"
  by (cases x)
    (simp_all add: read_option_chmod_def write_option_chmod_def visit_option_def visit_number_or_text_def
      blank_is_none_def custom_def chmod_roundtrip octal_mode_text)

lemma secs_of_as_secs: "d \<le> duration_max \<Longrightarrow> secs_of (of_nat (as_secs d)) = from_secs (as_secs d)"
proof -
  assume "d \<le> duration_max"
  then have "as_secs d \<le> duration_max div 1000000000" by (simp add: as_secs_def div_le_mono)
  then have "as_secs d < 2 ^ 64" by (simp add: duration_max_def)
  then show ?thesis by (simp add: secs_of_def unat_of_nat)
qed

lemma read_duration_text:
  "d \<le> duration_max \<Longrightarrow> read_duration_secs un (write_duration_secs d) = Inr (from_secs (as_secs d))"
  "read_option_duration_secs un (write_option_duration_secs None) = Inr None"
  "d \<le> duration_max \<Longrightarrow>
     read_option_duration_secs un (write_option_duration_secs (Some d)) = Inr (Some (from_secs (as_secs d)))"
  by (simp_all add: read_duration_secs_def write_duration_secs_def read_option_duration_secs_def
      write_option_duration_secs_def visit_option_def visit_number_or_text_def secs_of_as_secs)

lemma read_log_mode_text: "read_log_mode un (write_log_mode m) = Inr m"
  by (cases m; simp only: write_log_mode.simps read_log_mode_def Json.case; code_simp)

lemma any_address_fixed:
  assumes "p = [] \<or> \<not> is_ascii_space (last p)"
  shows "normalize_http_bind (''0.0.0.0:'' @ p) = ''0.0.0.0:'' @ p"
proof -
  have "trim (''0.0.0.0:'' @ p) = ''0.0.0.0:'' @ p"
    using assms by (intro trim_fix) (auto simp: is_ascii_space_def Let_def)
  then show ?thesis by (simp add: normalize_http_bind_def is_ascii_digit_def byte_in_def)
qed

lemma normalize_http_bind_idem: "normalize_http_bind (normalize_http_bind b) = normalize_http_bind b"
proof (cases "trim b = []")
  case True
  then show ?thesis by (simp add: normalize_http_bind_def)
next
  case False
  define t where "t = trim b"
  have t: "trim t = t" "t \<noteq> []" "\<not> is_ascii_space (last t)" using False trim_ends(2) [of b] by (simp_all add: t_def)
  have suffix: "p = [] \<or> \<not> is_ascii_space (last p)" if "t = u @ p" for u p
    using that t by (cases "p = []") simp_all
  show ?thesis
  proof (cases "strip_prefix ''*'' t")
    case (Some port)
    then have p: "t = ''*'' @ port" by (simp add: strip_prefix_iff)
    define q where "q = unwrap_or (strip_prefix '':'' port) port"
    have "port = q \<or> port = '':'' @ q"
      by (cases "strip_prefix '':'' port") (simp_all add: q_def unwrap_or_def strip_prefix_iff)
    then have "q = [] \<or> \<not> is_ascii_space (last q)"
      using p suffix [of "''*''" q] suffix [of "''*:''" q] by auto
    moreover have "normalize_http_bind b = ''0.0.0.0:'' @ q"
      unfolding normalize_http_bind_def Let_def t_def [symmetric] Some using t by (simp add: q_def)
    ultimately show ?thesis using any_address_fixed by simp
  next
    case None
    show ?thesis
    proof (cases "strip_prefix '':'' t")
      case (Some port)
      then have "t = '':'' @ port" by (simp add: strip_prefix_iff)
      then have "port = [] \<or> \<not> is_ascii_space (last port)" by (rule suffix)
      moreover have "normalize_http_bind b = ''0.0.0.0:'' @ port"
        unfolding normalize_http_bind_def Let_def t_def [symmetric] Some None using t by simp
      ultimately show ?thesis using any_address_fixed by simp
    next
      case no: None
      have n: "normalize_http_bind b = (if list_all is_ascii_digit t then ''0.0.0.0:'' @ t else t)"
        unfolding normalize_http_bind_def Let_def t_def [symmetric] no None using t by simp
      have "normalize_http_bind t = (if list_all is_ascii_digit t then ''0.0.0.0:'' @ t else t)"
        unfolding normalize_http_bind_def Let_def t no None using t by simp
      then show ?thesis using n any_address_fixed [of t] t by simp
    qed
  qed
qed

text \<open>
  C35: A setting that is written into the intermediate tree is read back unchanged: sizes below
  \<open>2 ^ 63\<close> bytes, modes up to the bits outside the mode mask, durations up to fractions of a second,
  log modes, and addresses that have been read before.
\<close>

theorem settings_read_back:
  assumes "n < 2 ^ 63" and "d \<le> duration_max" and "read_optional_http_bind un j = Inr a"
  shows "read_byte_size un (write_byte_size n) = Inr n \<and>
    read_option_byte_size un (write_option_byte_size (Some n)) = Inr (Some n) \<and>
    read_chmod un (write_chmod mode) = Inr (mode AND chmod_mask) \<and>
    read_option_chmod un (write_option_chmod (Some mode)) = Inr (Some (mode AND chmod_mask)) \<and>
    read_duration_secs un (write_duration_secs d) = Inr (from_secs (as_secs d)) \<and>
    read_option_duration_secs un (write_option_duration_secs (Some d)) = Inr (Some (from_secs (as_secs d))) \<and>
    read_log_mode un (write_log_mode m) = Inr m \<and>
    read_optional_http_bind un (write_option_string a) = Inr a"
proof (intro conjI)
  show "read_option_byte_size un (write_option_byte_size (Some n)) = Inr (Some n)"
    using assms(1) by (intro read_option_byte_size_text) simp
  show "read_optional_http_bind un (write_option_string a) = Inr a"
    using assms(3)
    by (cases j)
      (auto simp: read_optional_http_bind_def wrong_type_def write_option_string_def normalize_http_bind_idem)
qed (use assms in \<open>simp_all add: read_byte_size_text read_chmod_text read_option_chmod_text
      read_duration_text read_log_mode_text\<close>)

theorem settings_read_back_witness:
  "read_byte_size (\<lambda>_. []) (write_byte_size 52428800) = Inr 52428800 \<and>
   read_duration_secs (\<lambda>_. []) (write_duration_secs 2500000000) = Inr 2000000000 \<and>
   read_optional_http_bind (\<lambda>_. []) (write_option_string (Some ''0.0.0.0:9001'')) = Inr (Some ''0.0.0.0:9001'')"
proof -
  have a: "read_optional_http_bind (\<lambda>_. []) (JStr '':9001'') = Inr (Some ''0.0.0.0:9001'')" by code_simp
  have n: "(52428800 :: nat) < 2 ^ 63" "(2500000000 :: nat) \<le> duration_max"
    "from_secs (as_secs 2500000000) = 2000000000"
    by (simp_all add: duration_max_def from_secs_def as_secs_def)
  show ?thesis
    using settings_read_back [OF n(1,2) a] n(3) by simp
qed

text \<open>Above that bound a size of an odd number of kilobytes is rounded.\<close>

lemma huge_size_is_rounded:
  "string_to_bytes (bytes_to_string (2 ^ 63 + 1024)) = Inr (2 ^ 63)"
proof -
  have "bytes_to_string (2 ^ 63 + 1024) = ''9007199254740993KB''"
    by code_simp
  moreover have "string_to_bytes ''9007199254740993KB'' = Inr (2 ^ 63)" by code_simp
  ultimately show ?thesis by (simp only:)
qed

end
