(* ===== verification/Ini_Parser.thy ===== *)
theory Ini_Parser
  imports Value_Text Rust_Path
begin

text \<open>
  The reader of the legacy configuration format (\<open>src/src/compat/ini/parser.rs\<close>): the document of
  sections and entries, comments, continuation lines, file name patterns and included files.

  A hash map is an entry list. The file system is an argument: the content of a file, whether a path
  exists and the names in a directory. Blanks are those of ASCII.
\<close>

section \<open>Documents\<close>

record ParsedIni =
  pi_sections :: "string hmap hmap"
  pi_order :: "string list"

definition ini_new :: ParsedIni where
  "ini_new = \<lparr>pi_sections = [], pi_order = []\<rparr>"

definition section_of :: "ParsedIni \<Rightarrow> string \<Rightarrow> string hmap" where
  "section_of ini sec = unwrap_or (hm_get (pi_sections ini) sec) []"

definition ensure_section :: "string \<Rightarrow> ParsedIni \<Rightarrow> ParsedIni" where
  "ensure_section sec ini =
     (if contains_key (pi_sections ini) sec then ini
      else ini\<lparr>pi_order := pi_order ini @ [sec], pi_sections := hm_insert sec [] (pi_sections ini)\<rparr>)"

definition insert_entry :: "string \<Rightarrow> string \<Rightarrow> string \<Rightarrow> ParsedIni \<Rightarrow> ParsedIni" where
  "insert_entry sec key val ini =
     (let ini = ensure_section sec ini
      in ini\<lparr>pi_sections := hm_insert sec (hm_insert (to_ascii_lowercase key) val (section_of ini sec))
                             (pi_sections ini)\<rparr>)"

definition ini_merge :: "ParsedIni \<Rightarrow> ParsedIni \<Rightarrow> ParsedIni" where
  "ini_merge ini other =
     fold (\<lambda>sec ini.
        case hm_get (pi_sections other) sec of
          None \<Rightarrow> ini
        | Some entries \<Rightarrow>
            (let ini = ensure_section sec ini
             in ini\<lparr>pi_sections := hm_insert sec (fold (\<lambda>(k, v). hm_insert k v) entries (section_of ini sec))
                                    (pi_sections ini)\<rparr>))
       (pi_order other) ini"

definition ini_get :: "ParsedIni \<Rightarrow> string \<Rightarrow> string \<Rightarrow> string option" where
  "ini_get ini sec key = Option.bind (hm_get (pi_sections ini) sec) (\<lambda>m. hm_get m (to_ascii_lowercase key))"

section \<open>Comments\<close>

definition is_ascii_whitespace :: "char \<Rightarrow> bool" where
  "is_ascii_whitespace c \<longleftrightarrow> (of_char c :: nat) \<in> {32, 9, 10, 12, 13}"

text \<open>The loop over the characters; \<open>pre\<close> is what has been passed, in reverse.\<close>

fun strip_comment :: "bool \<Rightarrow> bool \<Rightarrow> bool \<Rightarrow> string \<Rightarrow> string \<Rightarrow> string" where
  "strip_comment in_single in_double esc pre [] = rev pre"
| "strip_comment in_single in_double esc pre (c # cs) =
     (if esc then strip_comment in_single in_double False (c # pre) cs
      else if c = CHR 0x5C then strip_comment in_single in_double True (c # pre) cs
      else if c = CHR 0x27 \<and> \<not> in_double then strip_comment (\<not> in_single) in_double False (c # pre) cs
      else if c = CHR 0x22 \<and> \<not> in_single then strip_comment in_single (\<not> in_double) False (c # pre) cs
      else if \<not> in_single \<and> \<not> in_double \<and> (c = CHR '';'' \<or> c = CHR ''#'')
      then (case pre of
              [] \<Rightarrow> []
            | p # _ \<Rightarrow>
                if is_ascii_space p then rev (dropWhile is_ascii_whitespace pre)
                else strip_comment in_single in_double False (c # pre) cs)
      else strip_comment in_single in_double False (c # pre) cs)"

definition strip_inline_comment :: "string \<Rightarrow> string" where
  "strip_inline_comment line = strip_comment False False False [] line"

section \<open>File name patterns\<close>

text \<open>
  The matching loop on what remains of the pattern and the text. The last star, if any, is the
  pattern after it and the text from which it was tried.
\<close>

function wildcard_loop :: "string \<Rightarrow> string \<Rightarrow> (string \<times> string) option \<Rightarrow> bool" where
  "wildcard_loop p [] star = (\<forall>c \<in> set p. c = CHR ''*'')"
| "wildcard_loop p (x # t) star =
     (if p \<noteq> [] \<and> (hd p = CHR ''?'' \<or> hd p = x) then wildcard_loop (tl p) t star
      else if p \<noteq> [] \<and> hd p = CHR ''*'' then wildcard_loop (tl p) (x # t) (Some (tl p, x # t))
      else (case star of
              Some (sp, st) \<Rightarrow> wildcard_loop sp (tl st) (Some (sp, tl st))
            | None \<Rightarrow> False))"
  by pat_completeness auto

text \<open>
  The star text gets shorter with every retry, the rest with every other step; only a state in
  which the star text is shorter than the rest, which the matching never reaches, is repaired first.
\<close>

termination
proof (relation "measures
    [\<lambda>(p, t, star). case star of None \<Rightarrow> 0 | Some (sp, st) \<Rightarrow> if length t \<le> length st then 0 else 1,
     \<lambda>(p, t, star). case star of None \<Rightarrow> Suc (length t) | Some (sp, st) \<Rightarrow> length st,
     \<lambda>(p, t, star). length p + length t]", goal_cases)
  case (2 p x t star)
  then show ?case by (cases p) (auto split: option.split)
next
  case (3 p x t star)
  then show ?case by (cases p) (auto split: option.split)
next
  case (4 p x t star a sp st)
  then show ?case by (cases st) auto
qed simp

lemma wildcard_loop_step:
  "c = CHR ''?'' \<or> c = x \<Longrightarrow> wildcard_loop (c # p) (x # t) star = wildcard_loop p t star"
  "x \<noteq> CHR ''*'' \<Longrightarrow> wildcard_loop (CHR ''*'' # p) (x # t) star = wildcard_loop p (x # t) (Some (p, x # t))"
  "\<not> (p \<noteq> [] \<and> (hd p = CHR ''?'' \<or> hd p = x)) \<Longrightarrow> \<not> (p \<noteq> [] \<and> hd p = CHR ''*'') \<Longrightarrow>
     wildcard_loop p (x # t) star =
       (case star of Some (sp, st) \<Rightarrow> wildcard_loop sp (tl st) (Some (sp, tl st)) | None \<Rightarrow> False)"
  by (subst wildcard_loop.simps(2); simp only: list.sel list.distinct if_True if_False simp_thms char.inject; simp)+

declare wildcard_loop.simps(2) [simp del]

definition wildcard_match :: "string \<Rightarrow> string \<Rightarrow> bool" where
  "wildcard_match pattern text = wildcard_loop pattern text None"

section \<open>Lines\<close>

record IniState =
  is_ini :: ParsedIni
  is_section :: string
  is_key :: string
  is_val :: string
  is_indent :: nat

definition here_pattern :: string where "here_pattern = ''%(here)s''"

definition flush_kv :: "string \<Rightarrow> IniState \<Rightarrow> IniState" where
  "flush_kv here s =
     (let ini = (if is_section s \<noteq> [] \<and> is_key s \<noteq> []
                 then insert_entry (is_section s) (is_key s) (str_replace here_pattern here (is_val s)) (is_ini s)
                 else is_ini s)
      in s\<lparr>is_ini := ini, is_key := [], is_val := []\<rparr>)"

definition find_delimiter :: "string \<Rightarrow> (string \<times> string) option" where
  "find_delimiter s = or_option (split_once (CHR ''='') s) (split_once (CHR '':'') s)"

definition trim_line_end :: "string \<Rightarrow> string" where
  "trim_line_end s = rev (dropWhile (\<lambda>c. c = carriage_return \<or> c = newline) (rev s))"

definition ini_line :: "string \<Rightarrow> string \<Rightarrow> IniState \<Rightarrow> IniState" where
  "ini_line here raw_line s =
     (let line = trim_line_end raw_line; trimmed_start = trim_start line
      in if trimmed_start = [] \<or> hd trimmed_start = CHR '';'' \<or> hd trimmed_start = CHR ''#'' then s
         else
           (let indent = length line - length trimmed_start;
                stripped = trim (strip_inline_comment line)
            in if stripped = [] then s
               else if hd stripped = CHR ''['' \<and> last stripped = CHR '']''
               then (flush_kv here s)\<lparr>is_section := trim (butlast (tl stripped)), is_indent := 0\<rparr>
               else if is_key s \<noteq> [] \<and> is_indent s < indent
               then s\<lparr>is_val := (if is_val s \<noteq> [] then is_val s @ [newline] else is_val s) @ stripped\<rparr>
               else (case find_delimiter stripped of
                       Some (k, v) \<Rightarrow> (flush_kv here s)\<lparr>is_key := trim k, is_val := trim v, is_indent := indent\<rparr>
                     | None \<Rightarrow> s)))"

definition slash :: "char \<Rightarrow> char" where
  "slash c = (if c = CHR 0x5C then CHR ''/'' else c)"

definition here_text :: "string option \<Rightarrow> string" where
  "here_text here_dir = (case here_dir of Some d \<Rightarrow> map slash d | None \<Rightarrow> ''.'')"

definition ini_start :: IniState where
  "ini_start = \<lparr>is_ini = ini_new, is_section = [], is_key = [], is_val = [], is_indent = 0\<rparr>"

definition parse_ini_content :: "string \<Rightarrow> string option \<Rightarrow> ParsedIni" where
  "parse_ini_content content here_dir =
     (let here = here_text here_dir
      in is_ini (flush_kv here (fold (ini_line here) (rust_lines content) ini_start)))"

section \<open>Included files\<close>

record FileView =
  fv_read :: "string \<Rightarrow> string + string"
  fv_exists :: "string \<Rightarrow> bool"
  fv_dir :: "string \<Rightarrow> string list option"
  fv_cwd :: string

definition abs_path :: "FileView \<Rightarrow> string \<Rightarrow> string" where
  "abs_path fs p = lexical_norm_path (path_join (fv_cwd fs) p)"

text \<open>\<open>Path::parent\<close> and \<open>Path::file_name\<close>.\<close>

definition path_parent :: "string \<Rightarrow> string option" where
  "path_parent p =
     (let cs = components p
      in if cs = [] \<or> last cs = RootDir then None else Some (collect_path (butlast cs)))"

definition path_file_name :: "string \<Rightarrow> string option" where
  "path_file_name p =
     (let cs = components p
      in if cs = [] then None else (case last cs of Normal n \<Rightarrow> Some n | _ \<Rightarrow> None))"

definition resolve_glob :: "FileView \<Rightarrow> string \<Rightarrow> string list" where
  "resolve_glob fs pattern =
     (let parent = unwrap_or (path_parent pattern) ''.''; file_pattern = unwrap_or (path_file_name pattern) []
      in if CHR ''*'' \<notin> set file_pattern \<and> CHR ''?'' \<notin> set file_pattern
         then (if fv_exists fs pattern then [pattern] else [])
         else (case fv_dir fs parent of
                 None \<Rightarrow> []
               | Some names \<Rightarrow> sort (map (path_join parent) (filter (wildcard_match file_pattern) names))))"

definition read_ini :: "FileView \<Rightarrow> string \<Rightarrow> string list \<Rightarrow> (ParsedIni \<times> string list) result" where
  "read_ini fs path visited =
     (let canonical = abs_path fs path
      in if canonical \<in> set visited
         then Inl (ConfigError (''Circular or duplicate include detected for '' @ quoted (debug_text path)))
         else (case fv_read fs path of
                 Inl e \<Rightarrow> Inl (ConfigError (''Failed to read INI config file '' @ quoted (debug_text path) @ '': '' @ e))
               | Inr content \<Rightarrow>
                   Inr (parse_ini_content content (Some (unwrap_or (path_parent path) ''.'')), canonical # visited)))"

definition load_included :: "FileView \<Rightarrow> string \<Rightarrow> string list \<Rightarrow> (ParsedIni \<times> string list) result" where
  "load_included fs path visited =
     and_then (read_ini fs path visited) (\<lambda>(ini, visited).
       if contains_key (pi_sections ini) ''include''
       then Inl (ConfigError (''Included config file '' @ quoted (debug_text path)
              @ '' is not permitted to contain an [include] section''))
       else Inr (ini, visited))"

definition include_targets :: "FileView \<Rightarrow> string \<Rightarrow> string \<Rightarrow> string list" where
  "include_targets fs here_dir files =
     concat (map (\<lambda>pattern_raw.
       resolve_glob fs (path_join here_dir (str_replace here_pattern (map slash here_dir) pattern_raw)))
       (string_to_str_list files))"

definition load_ini_file_with_includes :: "FileView \<Rightarrow> string \<Rightarrow> ParsedIni result" where
  "load_ini_file_with_includes fs path =
     and_then (read_ini fs path []) (\<lambda>(main_ini, visited).
       case ini_get main_ini ''include'' ''files'' of
         None \<Rightarrow> Inr main_ini
       | Some files \<Rightarrow>
           and_then
             (try_fold (\<lambda>(ini, visited) sub_file.
                and_then (load_included fs sub_file visited) (\<lambda>(sub_ini, visited). Inr (ini_merge ini sub_ini, visited)))
               (include_targets fs (unwrap_or (path_parent path) ''.'') files) (main_ini, visited))
             (\<lambda>(ini, _). Inr ini))"

section \<open>Patterns match what they mean\<close>

text \<open>The meaning of a pattern: a star stands for any text, a question mark for any character.\<close>

fun glob :: "string \<Rightarrow> string \<Rightarrow> bool" where
  "glob [] t = (t = [])"
| "glob (c # p) [] = (c = CHR ''*'' \<and> glob p [])"
| "glob (c # p) (x # t) =
     (if c = CHR ''*'' then glob p (x # t) \<or> glob (c # p) t
      else (c = CHR ''?'' \<or> c = x) \<and> glob p t)"

abbreviation "star_char \<equiv> CHR ''*''"

lemma glob_Nil: "glob p [] \<longleftrightarrow> (\<forall>c \<in> set p. c = star_char)"
  by (induction p) auto

lemma glob_star: "glob (star_char # p) t \<longleftrightarrow> (\<exists>u v. t = u @ v \<and> glob p v)"
proof (induction t)
  case (Cons x t)
  have "(\<exists>u v. x # t = u @ v \<and> glob p v) \<longleftrightarrow> glob p (x # t) \<or> (\<exists>u v. t = u @ v \<and> glob p v)"
    by (metis append_Cons append_Nil neq_Nil_conv list.inject)
  then show ?case using Cons by simp
qed simp

lemma glob_star_longer: "glob (star_char # p) v \<Longrightarrow> glob (star_char # p) (u @ v)"
  unfolding glob_star by (metis append.assoc)

text \<open>A pattern without stars consumes as many characters as it has.\<close>

lemma glob_plain_prefix:
  "star_char \<notin> set q \<Longrightarrow> glob (q @ p) t \<Longrightarrow> length q \<le> length t \<and> glob p (drop (length q) t)"
proof (induction q arbitrary: t)
  case (Cons c q)
  then show ?case by (cases t) auto
qed simp

text \<open>
  The state of the loop: since the last star the part \<open>q\<close> of the pattern was matched with the part
  \<open>w\<close> of the text. What the last star still allows is a match from a later start.
\<close>

definition star_inv :: "string \<Rightarrow> string \<Rightarrow> (string \<times> string) option \<Rightarrow> bool" where
  "star_inv p t star \<longleftrightarrow>
     (case star of
        None \<Rightarrow> True
      | Some (sp, st) \<Rightarrow> star_char \<notin> set st \<and>
          (\<exists>q w. sp = q @ p \<and> st = w @ t \<and> length w = length q \<and> star_char \<notin> set q))"

definition later_match :: "(string \<times> string) option \<Rightarrow> bool" where
  "later_match star \<longleftrightarrow>
     (case star of None \<Rightarrow> False | Some (sp, st) \<Rightarrow> st \<noteq> [] \<and> glob (star_char # sp) (tl st))"

lemma star_inv_advance:
  assumes "star_inv (c # p) (x # t) star" and "c \<noteq> star_char" shows "star_inv p t star"
proof (cases star)
  case (Some a)
  obtain sp st where a: "a = (sp, st)" by fastforce
  obtain q w where "sp = q @ c # p" "st = w @ x # t" "length w = length q" "star_char \<notin> set q" "star_char \<notin> set st"
    using assms(1) Some a by (auto simp: star_inv_def)
  then show ?thesis using Some a assms(2)
    by (auto simp: star_inv_def intro!: exI [of _ "q @ [c]"] exI [of _ "w @ [x]"])
qed (simp add: star_inv_def)

lemma later_match_rest:
  assumes "star_inv p t star" and "later_match star"
  shows "\<exists>u v. t = u @ v \<and> glob p v \<and> t \<noteq> []"
proof -
  obtain sp st q w where s: "star = Some (sp, st)" "sp = q @ p" "st = w @ t" "length w = length q"
    "star_char \<notin> set q" "st \<noteq> []" "glob (star_char # sp) (tl st)"
    using assms by (auto simp: star_inv_def later_match_def split: option.splits)
  obtain u v where uv: "tl st = u @ v" "glob (q @ p) v" using s(2,7) unfolding glob_star by blast
  then have g: "length q \<le> length v" "glob p (drop (length q) v)" using glob_plain_prefix s(5) by blast+
  obtain y where "st = y # tl st" using s(6) by (cases st) auto
  then have st: "st = (y # u) @ v" using uv(1) by simp
  have t: "t = drop (length q) st" using s(3,4) by simp
  define n where "n = Suc (length u)"
  have "drop n t = drop (length q) (drop n st)" unfolding t by (simp add: add.commute)
  also have "drop n st = v" using st by (simp add: n_def)
  finally have "t = take n t @ drop (length q) v" by (metis append_take_drop_id)
  moreover have "t \<noteq> []"
  proof
    assume "t = []"
    then have "length st = length q" using s(3,4) by simp
    then show False using st g(1) by simp
  qed
  ultimately show ?thesis using g(2) by blast
qed

lemma wildcard_loop_correct:
  assumes "star_char \<notin> set t" and "star_inv p t star"
  shows "wildcard_loop p t star \<longleftrightarrow> glob p t \<or> later_match star"
  using assms
proof (induction p t star rule: wildcard_loop.induct)
  case (1 p star)
  then show ?case using later_match_rest [OF 1(2)] by (auto simp: glob_Nil)
next
  case (2 p x t star)
  consider (plain) c p' where "p = c # p'" "c = CHR ''?'' \<or> c = x"
    | (star) p' where "p = star_char # p'" "\<not> (hd p = CHR ''?'' \<or> hd p = x)"
    | (stuck) "\<not> (p \<noteq> [] \<and> (hd p = CHR ''?'' \<or> hd p = x))" "\<not> (p \<noteq> [] \<and> hd p = star_char)"
    by (cases p) auto
  then show ?case
  proof cases
    case plain
    then have c: "c \<noteq> star_char" using 2(4) by auto
    have "wildcard_loop p' t star \<longleftrightarrow> glob p' t \<or> later_match star"
      using 2(1) star_inv_advance [OF _ c] 2(4,5) plain by simp
    then show ?thesis using plain c wildcard_loop_step(1) [OF plain(2)] by auto
  next
    case star
    have x: "x \<noteq> star_char" using 2(4) by auto
    have inv: "star_inv p' (x # t) (Some (p', x # t))"
      unfolding star_inv_def using 2(4) by simp
    have "wildcard_loop p' (x # t) (Some (p', x # t)) \<longleftrightarrow> glob p' (x # t) \<or> later_match (Some (p', x # t))"
      using 2(2) star inv 2(4) by simp
    then have "wildcard_loop p (x # t) star \<longleftrightarrow> glob p (x # t)"
      using star(1) wildcard_loop_step(2) [OF x] by (simp add: later_match_def)
    moreover have "later_match star \<Longrightarrow> glob p (x # t)"
      using later_match_rest [OF 2(5)] star(1) glob_star_longer by metis
    ultimately show ?thesis by blast
  next
    case stuck
    have no: "\<not> glob p (x # t)" using stuck by (cases p) auto
    show ?thesis
    proof (cases star)
      case None
      then show ?thesis using wildcard_loop_step(3) [OF stuck] no by (simp add: later_match_def)
    next
      case (Some a)
      obtain sp st where a: "a = (sp, st)" by fastforce
      have st: "star_char \<notin> set st" "st \<noteq> []" using 2(5) Some a by (auto simp: star_inv_def)
      then have tl: "star_char \<notin> set (tl st)" by (meson list.set_sel(2))
      have inv: "star_inv sp (tl st) (Some (sp, tl st))" unfolding star_inv_def using tl by simp
      have "wildcard_loop sp (tl st) (Some (sp, tl st)) \<longleftrightarrow> glob sp (tl st) \<or> later_match (Some (sp, tl st))"
        using 2(3) [OF stuck(1,2) Some a [symmetric]] tl inv by simp
      moreover have "later_match star \<longleftrightarrow> glob sp (tl st) \<or> later_match (Some (sp, tl st))"
        using Some a st(2) by (cases "tl st") (simp_all add: later_match_def)
      moreover have "wildcard_loop p (x # t) star = wildcard_loop sp (tl st) (Some (sp, tl st))"
        using wildcard_loop_step(3) [OF stuck] Some a by simp
      ultimately show ?thesis using no by simp
    qed
  qed
qed

text \<open>
  C31: The matching loop with its single remembered star decides exactly whether the name matches the
  pattern, for every name without a star; it returns for every pattern and name.
\<close>

theorem wildcard_matches_glob: "star_char \<notin> set t \<Longrightarrow> wildcard_match p t \<longleftrightarrow> glob p t"
  unfolding wildcard_match_def
  by (subst wildcard_loop_correct) (simp_all add: star_inv_def later_match_def)

theorem wildcard_matches_glob_witness: "wildcard_match ''a*c?*'' ''abcbcd'' \<and> \<not> wildcard_match ''a*c?'' ''abc''"
proof -
  have "glob ''a*c?*'' ''abcbcd''" "\<not> glob ''a*c?'' ''abc''" by code_simp+
  then show ?thesis using wildcard_matches_glob [of "''abcbcd''" "''a*c?*''"] wildcard_matches_glob [of "''abc''" "''a*c?''"]
    by simp
qed

text \<open>
  A star in the name is compared with the star of the pattern first, as any other character, and the
  pattern's star is then used up: the pattern that should match every name does not match this one.
\<close>

lemma star_in_name_not_matched: "\<not> wildcard_match ''*'' ''*a'' \<and> glob ''*'' ''*a''"
  by code_simp

section \<open>A printed document is read back\<close>

type_synonym document = "(string \<times> (string \<times> string) list) list"

definition entry_line :: "string \<times> string \<Rightarrow> string" where
  "entry_line e = fst e @ '' = '' @ snd e"

definition header_line :: "string \<Rightarrow> string" where
  "header_line sec = ''['' @ sec @ '']''"

definition document_lines :: "document \<Rightarrow> string list" where
  "document_lines doc = concat (map (\<lambda>(sec, entries). header_line sec # map entry_line entries) doc)"

definition document_text :: "document \<Rightarrow> string" where
  "document_text doc = concat (map (\<lambda>l. l @ [newline]) (document_lines doc))"

definition document_ini :: "document \<Rightarrow> ParsedIni" where
  "document_ini doc = fold (\<lambda>(sec, entries). fold (\<lambda>(k, v). insert_entry sec k v) entries) doc ini_new"

definition tight :: "string \<Rightarrow> bool" where
  "tight s \<longleftrightarrow> (s \<noteq> [] \<longrightarrow> \<not> is_ascii_space (hd s) \<and> \<not> is_ascii_space (last s))"

definition plain_char :: "char \<Rightarrow> bool" where
  "plain_char c \<longleftrightarrow> c \<notin> {newline, carriage_return, CHR 0x27, CHR 0x22, CHR 0x5C, CHR '';'', CHR ''#''}"

definition name_ok :: "string \<Rightarrow> bool" where
  "name_ok s \<longleftrightarrow> s \<noteq> [] \<and> tight s \<and> list_all plain_char s"

fun entry_ok :: "string \<times> string \<Rightarrow> bool" where
  "entry_ok (k, v) \<longleftrightarrow>
     name_ok k \<and> hd k \<noteq> CHR ''['' \<and> CHR ''='' \<notin> set k \<and> tight v \<and> list_all plain_char v \<and> \<not> occurs_in here_pattern v"

definition document_ok :: "document \<Rightarrow> bool" where
  "document_ok doc \<longleftrightarrow> list_all (\<lambda>(sec, entries). name_ok sec \<and> list_all entry_ok entries) doc"

lemma trim_tight: "tight s \<Longrightarrow> trim s = s"
  by (rule trim_fix) (simp_all add: tight_def)

lemma trim_left [simp]: "trim (CHR '' '' # s) = trim s"
  by (simp add: trim_def is_ascii_space_def)

lemma trim_right: "tight s \<Longrightarrow> s \<noteq> [] \<Longrightarrow> trim (s @ '' '') = s"
proof -
  assume s: "tight s" "s \<noteq> []"
  then have "dropWhile is_ascii_space (s @ '' '') = s @ '' ''" by (cases s) (simp_all add: tight_def)
  moreover have "dropWhile is_ascii_space (rev s) = rev s"
    using s by (cases s rule: rev_cases) (simp_all add: tight_def)
  ultimately show ?thesis by (simp add: trim_def is_ascii_space_def)
qed

lemma strip_comment_plain:
  "list_all plain_char cs \<Longrightarrow> strip_comment False False False pre cs = rev pre @ cs"
  by (induction cs arbitrary: pre) (auto simp: plain_char_def)

lemma plain_line:
  assumes "list_all plain_char l" and "l \<noteq> []" and "\<not> is_ascii_space (hd l)"
  shows "trim_line_end l = l" "trim_start l = l" "strip_inline_comment l = l" "hd l \<noteq> CHR '';''" "hd l \<noteq> CHR ''#''"
proof -
  have p: "plain_char (hd l)" "plain_char (last l)" using assms(1,2) by (simp_all add: list_all_iff)
  then have "dropWhile (\<lambda>c. c = carriage_return \<or> c = newline) (rev l) = rev l"
    using assms(2) by (cases l rule: rev_cases) (auto simp: plain_char_def)
  then show "trim_line_end l = l" by (simp add: trim_line_end_def)
  show "trim_start l = l" using assms(2,3) by (cases l) (simp_all add: trim_start_def)
  show "strip_inline_comment l = l" using strip_comment_plain assms(1) by (simp add: strip_inline_comment_def)
  show "hd l \<noteq> CHR '';''" "hd l \<noteq> CHR ''#''" using p(1) by (auto simp: plain_char_def)
qed

text \<open>What a state stands for: the entries already stored and the one that is pending.\<close>

definition flushed :: "string \<Rightarrow> IniState \<Rightarrow> ParsedIni" where
  "flushed here s = is_ini (flush_kv here s)"

lemma header_step:
  assumes "name_ok sec"
  shows "flushed here (ini_line here (header_line sec) s) = flushed here s"
    and "is_section (ini_line here (header_line sec) s) = sec"
proof -
  let ?l = "header_line sec"
  have p: "list_all plain_char ?l" "?l \<noteq> []" "\<not> is_ascii_space (hd ?l)" "hd ?l = CHR ''[''" "last ?l = CHR '']''"
    using assms by (simp_all add: name_ok_def header_line_def plain_char_def newline_def carriage_return_def is_ascii_space_def)
  note l = plain_line [OF p(1-3)]
  have "tight ?l" using p by (simp add: tight_def is_ascii_space_def)
  then have t: "trim ?l = ?l" by (rule trim_tight)
  have "ini_line here ?l s = (flush_kv here s)\<lparr>is_section := trim (butlast (tl ?l)), is_indent := 0\<rparr>"
    using l t p unfolding ini_line_def Let_def by simp
  moreover have "trim (butlast (tl ?l)) = sec"
    using assms trim_tight by (simp add: header_line_def name_ok_def butlast_append)
  ultimately have e: "ini_line here ?l s = (flush_kv here s)\<lparr>is_section := sec, is_indent := 0\<rparr>" by simp
  show "flushed here (ini_line here ?l s) = flushed here s" unfolding flushed_def e by (simp add: flush_kv_def)
  show "is_section (ini_line here ?l s) = sec" unfolding e by simp
qed

lemma entry_step:
  assumes "entry_ok (k, v)" and "is_section s \<noteq> []"
  shows "flushed here (ini_line here (entry_line (k, v)) s) = insert_entry (is_section s) k v (flushed here s)"
    and "is_section (ini_line here (entry_line (k, v)) s) = is_section s"
proof -
  let ?l = "entry_line (k, v)"
  have k: "k \<noteq> []" "tight k" "hd k \<noteq> CHR ''[''" "CHR ''='' \<notin> set k" "list_all plain_char k" and v: "tight v"
    using assms(1) by (simp_all add: name_ok_def)
  have p: "list_all plain_char ?l" "?l \<noteq> []" "\<not> is_ascii_space (hd ?l)" "hd ?l \<noteq> CHR ''[''"
    using assms(1) k by (simp_all add: entry_line_def plain_char_def newline_def carriage_return_def tight_def)
  note l = plain_line [OF p(1-3)]
  have t: "trim ?l = k @ '' ='' @ (if v = [] then [] else CHR '' '' # v)"
  proof (cases "v = []")
    case True
    have "tight (k @ '' ='')" using k by (simp add: tight_def is_ascii_space_def)
    then show ?thesis using trim_right [of "k @ '' =''"] True by (simp add: entry_line_def)
  next
    case False
    have "tight ?l" using k v False by (simp add: tight_def entry_line_def)
    then show ?thesis using trim_tight False by (simp add: entry_line_def)
  qed
  have d: "find_delimiter (trim ?l) = Some (k @ '' '', if v = [] then [] else CHR '' '' # v)"
    using split_once_append [of "CHR ''=''" "k @ '' ''"] k(4) by (simp add: t find_delimiter_def or_option_def)
  have n: "trim ?l \<noteq> []" "hd (trim ?l) \<noteq> CHR ''[''" using t k by simp_all
  have "ini_line here ?l s = (flush_kv here s)\<lparr>is_key := trim (k @ '' ''), is_val := trim (if v = [] then [] else CHR '' '' # v), is_indent := 0\<rparr>"
    using l p n d unfolding ini_line_def Let_def by simp
  moreover have "trim (k @ '' '') = k" using trim_right k by blast
  moreover have "trim (if v = [] then [] else CHR '' '' # v) = v" using trim_tight [OF v] by simp
  ultimately have e: "ini_line here ?l s = (flush_kv here s)\<lparr>is_key := k, is_val := v, is_indent := 0\<rparr>" by simp
  have "str_replace here_pattern here v = v" using assms(1) by (intro str_replace_absent) simp
  then show "flushed here (ini_line here ?l s) = insert_entry (is_section s) k v (flushed here s)"
    using k(1) assms(2) unfolding flushed_def e by (simp add: flush_kv_def)
  show "is_section (ini_line here ?l s) = is_section s" unfolding e by (simp add: flush_kv_def)
qed

lemma entries_step:
  assumes "list_all entry_ok entries" and "is_section s \<noteq> []"
  shows "flushed here (fold (ini_line here) (map entry_line entries) s) =
    fold (\<lambda>(k, v). insert_entry (is_section s) k v) entries (flushed here s)"
  using assms
proof (induction entries arbitrary: s)
  case (Cons e entries)
  obtain k v where e: "e = (k, v)" by fastforce
  then show ?case using Cons entry_step [of k v s here] by simp
qed simp

lemma document_step:
  assumes "document_ok doc"
  shows "flushed here (fold (ini_line here) (document_lines doc) s) =
    fold (\<lambda>(sec, entries). fold (\<lambda>(k, v). insert_entry sec k v) entries) doc (flushed here s)"
  using assms
proof (induction doc arbitrary: s)
  case (Cons d doc)
  obtain sec entries where d: "d = (sec, entries)" by fastforce
  then have ok: "name_ok sec" "list_all entry_ok entries" "document_ok doc" using Cons.prems by (simp_all add: document_ok_def)
  note h = header_step [OF ok(1), of here s]
  have "is_section (ini_line here (header_line sec) s) \<noteq> []" using h(2) ok(1) by (simp add: name_ok_def)
  from entries_step [OF ok(2) this, of here] show ?case
    using Cons.IH [OF ok(3)] h d by (simp add: document_lines_def)
qed (simp add: document_lines_def)

lemma rust_lines_printed:
  assumes "\<And>l. l \<in> set ls \<Longrightarrow> newline \<notin> set l \<and> (l \<noteq> [] \<longrightarrow> last l \<noteq> carriage_return)"
  shows "rust_lines (concat (map (\<lambda>l. l @ [newline]) ls)) = ls"
  using assms
proof (induction ls)
  case (Cons l ls)
  then have "line_segs (l @ newline # concat (map (\<lambda>l. l @ [newline]) ls)) =
      (l @ [newline]) # line_segs (concat (map (\<lambda>l. l @ [newline]) ls))"
    by (intro line_segs_newline) simp
  moreover have "strip_eol (l @ [newline]) = l"
    using Cons.prems [of l] by (auto simp: strip_eol_def ends_with_newline_def strip_cr_def)
  ultimately show ?case using Cons by (simp add: rust_lines_def)
qed (simp add: rust_lines_def)



text \<open>
  An equals sign is looked for in the whole line before a colon is considered: an entry that is
  written with a colon and has an equals sign in its value gets a wrong key.
\<close>

lemma colon_entry_with_equals:
  "find_delimiter ''environment: A=1'' = Some (''environment: A'', ''1'') \<and>
   find_delimiter ''command: run'' = Some (''command'', '' run'')"
  by code_simp

section \<open>Merging\<close>

lemma ini_get_insert:
  "ini_get (insert_entry sec key val ini) sec' key' =
     (if sec' = sec \<and> to_ascii_lowercase key' = to_ascii_lowercase key then Some val else ini_get ini sec' key')"
  by (auto simp: ini_get_def insert_entry_def ensure_section_def section_of_def Let_def unwrap_or_def contains_key_def
      hm_get_None_iff [symmetric] split: option.splits)

end
