(* ===== verification/Ini_Adapter.thy ===== *)
theory Ini_Adapter
  imports Config_Schema Json_Values Ini_Values Ini_Parser
begin

text \<open>
  The translation of the legacy configuration into the tree of the typed one
  (\<open>src/src/compat/ini/adapter.rs\<close>): the conversion of a value, the tables that say where a key goes,
  the health check keys, the sections, and the loading of a document.

  The deserialiser of the tree, the default paths, the translation of paths, the validation and the
  name that the enumeration library prints for a signal are arguments. What is only logged (keys and
  sections that are ignored) has no effect on the result; the keys are computed by
  \<open>unconsumed_keys\<close>.
\<close>

section \<open>Conversions\<close>

datatype Transform =
    TIdentity
  | TLowercase
  | TBool
  | TUsize
  | TU32
  | TI32
  | TDurationSecs
  | TByteSize
  | TChmod
  | TUmask
  | TStringList
  | TEventList
  | TI32List
  | TEnvironment
  | TLogPath
  | TStopSignal
  | TAutoRestart
  | TEnvFiles
  | THttpBind

record IniEnv =
  ix_fs :: FileView
  ix_signal_name :: "StopSignal \<Rightarrow> string"
  ix_policy :: "string \<Rightarrow> AutoRestartPolicy option"
  ix_from_value :: "Json \<Rightarrow> string + SupervisorConfig"
  ix_apply_default_paths :: "SupervisorConfig \<Rightarrow> SupervisorConfig"
  ix_translate_paths :: "SupervisorConfig \<Rightarrow> SupervisorConfig result"
  ix_validate :: "SupervisorConfig \<Rightarrow> unit result"

definition json_nat :: "nat \<Rightarrow> Json" where "json_nat n = JPos (of_nat n)"

definition json_int :: "int \<Rightarrow> Json" where
  "json_int i = (if i < 0 then JNeg (of_int i) else JPos (of_int i))"

definition json_strings :: "string list \<Rightarrow> Json" where "json_strings xs = JArr (map JStr xs)"

definition transform_value :: "string \<Rightarrow> string \<Rightarrow> ('a \<Rightarrow> Json) \<Rightarrow> 'a read \<Rightarrow> Json option result" where
  "transform_value ctx key to_json value =
     map_sum (\<lambda>e. ConfigError (ctx @ '' '' @ key @ '': '' @ e)) (\<lambda>v. Some (to_json v)) value"

definition policy_name :: "AutoRestartPolicy \<Rightarrow> string" where
  "policy_name p = (case p of Always \<Rightarrow> ''always'' | Unexpected \<Rightarrow> ''unexpected'' | Never \<Rightarrow> ''never'')"

definition event_names :: "string \<Rightarrow> string list" where
  "event_names raw =
     filter (\<lambda>s. s \<noteq> [])
       (map (\<lambda>s. to_ascii_uppercase (trim s)) (split_where (\<lambda>c. c = CHR '','' \<or> c = CHR '' '' \<or> c = CHR 0x09) raw))"

definition resolve_env_files :: "FileView \<Rightarrow> string list \<Rightarrow> string option \<Rightarrow> string list" where
  "resolve_env_files fs files config_dir =
     map (\<lambda>p. if is_absolute p then p
              else case config_dir of Some dir \<Rightarrow> abs_path fs (path_join dir p) | None \<Rightarrow> abs_path fs p) files"

definition apply_transform ::
  "IniEnv \<Rightarrow> string option \<Rightarrow> string \<Rightarrow> Transform \<Rightarrow> string \<Rightarrow> string \<Rightarrow> Json option result" where
  "apply_transform ix config_dir ctx t raw key =
     (case t of
        TIdentity \<Rightarrow> Inr (Some (JStr raw))
      | TLowercase \<Rightarrow> Inr (Some (JStr (to_ascii_lowercase (trim raw))))
      | TBool \<Rightarrow> transform_value ctx key JBool (custom (string_to_bool raw))
      | TUsize \<Rightarrow> transform_value ctx key json_nat (from_str_radix 10 u64_max (trim raw))
      | TU32 \<Rightarrow> transform_value ctx key json_nat (from_str_radix 10 u32_max (trim raw))
      | TI32 \<Rightarrow> transform_value ctx key json_int (parse_i32 (trim raw))
      | TDurationSecs \<Rightarrow> transform_value ctx key (\<lambda>d. json_nat (as_secs d)) (custom (string_to_duration raw))
      | TByteSize \<Rightarrow> transform_value ctx key json_nat (custom (string_to_bytes raw))
      | TChmod \<Rightarrow> transform_value ctx key (\<lambda>m. json_nat (unat m)) (custom (string_to_chmod raw))
      | TUmask \<Rightarrow> transform_value ctx key json_nat (custom (string_to_umask raw))
      | TStringList \<Rightarrow> Inr (Some (json_strings (string_to_str_list raw)))
      | TEventList \<Rightarrow>
          and_then (validate_event_list (event_names raw)) (\<lambda>_. Inr (Some (json_strings (event_names raw))))
      | TI32List \<Rightarrow> transform_value ctx key (\<lambda>is. JArr (map json_int is)) (custom (string_to_i32_list raw))
      | TEnvironment \<Rightarrow>
          map_sum id (\<lambda>env. Some (JObj (map (\<lambda>(k, v). (k, JStr v)) env))) (parse_environment raw)
      | TLogPath \<Rightarrow> Inr (map_option JStr (parse_log_path raw))
      | TStopSignal \<Rightarrow> transform_value ctx key (\<lambda>s. JStr (ix_signal_name ix s)) (custom (parse_stop_signal raw))
      | TAutoRestart \<Rightarrow>
          transform_value ctx key (\<lambda>p. JStr (policy_name p)) (custom (parse_autorestart (ix_policy ix) raw))
      | TEnvFiles \<Rightarrow> Inr (Some (json_strings (resolve_env_files (ix_fs ix) (string_to_str_list raw) config_dir)))
      | THttpBind \<Rightarrow> Inr (Some (JStr (normalize_http_bind raw))))"

section \<open>Tables\<close>

record FieldMapping =
  fm_src_keys :: "string list"
  fm_dst_path :: string
  fm_transform :: Transform

definition field :: "string list \<Rightarrow> string \<Rightarrow> Transform \<Rightarrow> FieldMapping" where
  "field src dst t = \<lparr>fm_src_keys = src, fm_dst_path = dst, fm_transform = t\<rparr>"

definition same_field :: "string \<Rightarrow> Transform \<Rightarrow> FieldMapping" where
  "same_field key t = \<lparr>fm_src_keys = [key], fm_dst_path = key, fm_transform = t\<rparr>"

text \<open>
  The tree is indexed as the library does: reading a missing member gives null, writing a member
  of an object or of null inserts it. (Writing a member of any other value panics; the targets of
  the tables are objects.)
\<close>

definition json_member :: "string \<Rightarrow> Json \<Rightarrow> Json" where
  "json_member k j = (case j of JObj m \<Rightarrow> unwrap_or (hm_get m k) JNull | _ \<Rightarrow> JNull)"

definition put_member :: "string \<Rightarrow> Json \<Rightarrow> Json \<Rightarrow> Json" where
  "put_member k v j = (case j of JObj m \<Rightarrow> JObj (hm_insert k v m) | JNull \<Rightarrow> JObj [(k, v)] | _ \<Rightarrow> j)"

definition is_object :: "Json \<Rightarrow> bool" where
  "is_object j = (case j of JObj _ \<Rightarrow> True | _ \<Rightarrow> False)"

definition object_at :: "string \<Rightarrow> Json \<Rightarrow> Json" where
  "object_at part current =
     (if is_object (json_member part current) then json_member part current
      else if part = ''logs'' then JObj [(''enabled'', JBool True)]
      else JObj [])"

fun set_parts :: "string list \<Rightarrow> Json \<Rightarrow> Json \<Rightarrow> Json" where
  "set_parts [] val current = current"
| "set_parts [last_part] val current = put_member last_part val current"
| "set_parts (part # next_part # parts) val current =
     put_member part (set_parts (next_part # parts) val (object_at part current)) current"

definition set_json_path :: "string \<Rightarrow> Json \<Rightarrow> Json \<Rightarrow> Json" where
  "set_json_path path val tree = set_parts (split_all (CHR ''.'') path) val tree"

definition lookup_field :: "string hmap \<Rightarrow> FieldMapping \<Rightarrow> (string \<times> string) option" where
  "lookup_field sec m =
     Option.bind (find (contains_key sec) (fm_src_keys m)) (\<lambda>k. map_option (Pair k) (hm_get sec k))"

definition apply_mapping ::
  "IniEnv \<Rightarrow> string option \<Rightarrow> string \<Rightarrow> string hmap \<Rightarrow> Json \<Rightarrow> FieldMapping \<Rightarrow> Json result" where
  "apply_mapping ix config_dir ctx sec target m =
     (case lookup_field sec m of
        None \<Rightarrow> Inr target
      | Some (k, raw) \<Rightarrow>
          and_then (apply_transform ix config_dir ctx (fm_transform m) raw k) (\<lambda>val.
            case val of None \<Rightarrow> Inr target | Some v \<Rightarrow> Inr (set_json_path (fm_dst_path m) v target)))"

definition apply_mappings ::
  "IniEnv \<Rightarrow> string option \<Rightarrow> string \<Rightarrow> string hmap \<Rightarrow> FieldMapping list \<Rightarrow> Json \<Rightarrow> Json result" where
  "apply_mappings ix config_dir ctx sec mappings target =
     try_fold (apply_mapping ix config_dir ctx sec) mappings target"

definition map_section ::
  "IniEnv \<Rightarrow> string option \<Rightarrow> string \<Rightarrow> string hmap \<Rightarrow> FieldMapping list list \<Rightarrow> Json result" where
  "map_section ix config_dir ctx sec groups =
     try_fold (\<lambda>target mappings. apply_mappings ix config_dir ctx sec mappings target) groups (JObj [])"

definition starts_with :: "string \<Rightarrow> string \<Rightarrow> bool" where
  "starts_with p s \<longleftrightarrow> strip_prefix p s \<noteq> None"

definition unconsumed_keys :: "string hmap \<Rightarrow> FieldMapping list list \<Rightarrow> string list \<Rightarrow> string list \<Rightarrow> string list" where
  "unconsumed_keys sec groups extra_known extra_prefixes =
     filter (\<lambda>key.
       let is_mapped = (\<exists>mappings \<in> set groups. \<exists>m \<in> set mappings. key \<in> set (fm_src_keys m));
           is_known = (key \<in> set extra_known \<or> (\<exists>p \<in> set extra_prefixes. starts_with p key))
       in \<not> is_mapped \<and> \<not> is_known) (keys sec)"

definition require_key :: "string hmap \<Rightarrow> string \<Rightarrow> string \<Rightarrow> string \<Rightarrow> unit result" where
  "require_key sec key entity name =
     ensure (contains_key sec key)
       (ConfigError (entity @ '' '' @ quoted name @ '' missing required '' @ quoted key @ '' field''))"

definition server_unix_mappings :: "FieldMapping list" where
  "server_unix_mappings =
     [field [''file''] ''server.uds_path'' TIdentity,
      field [''chmod''] ''server.uds_chmod'' TChmod,
      field [''username''] ''server.uds_username'' TIdentity,
      field [''password''] ''server.uds_password'' TIdentity]"

definition server_inet_mappings :: "FieldMapping list" where
  "server_inet_mappings =
     [field [''port''] ''server.http_bind'' THttpBind,
      field [''username''] ''server.username'' TIdentity,
      field [''password''] ''server.password'' TIdentity]"

definition supervisord_mappings :: "FieldMapping list" where
  "supervisord_mappings =
     [field [''logfile_maxbytes''] ''logging.max_bytes'' TByteSize,
      field [''logfile_backups''] ''logging.backups'' TUsize,
      field [''logfile_timestamp_suffix''] ''logging.timestamp_suffix'' TBool,
      field [''logfile_buffer_size'', ''buffer_size''] ''logging.buffer_size'' TByteSize,
      field [''loglevel''] ''logging.level'' TLowercase,
      field [''silent''] ''logging.silent'' TBool,
      field [''identifier''] ''server.identifier'' TIdentity,
      same_field ''nodaemon'' TBool,
      same_field ''no_color'' TBool,
      same_field ''environment'' TEnvironment,
      same_field ''pidfile'' TIdentity,
      same_field ''minfds'' TU32,
      same_field ''minprocs'' TU32]"

definition ctl_mappings :: "FieldMapping list" where
  "ctl_mappings =
     [same_field ''serverurl'' TIdentity,
      same_field ''username'' TIdentity,
      same_field ''password'' TIdentity,
      same_field ''auth_token'' TIdentity,
      same_field ''no_color'' TBool]"

definition group_mappings :: "FieldMapping list" where
  "group_mappings = [same_field ''programs'' TStringList, same_field ''priority'' TU32]"

definition program_shared_mappings :: "FieldMapping list" where
  "program_shared_mappings =
     [same_field ''autostart'' TBool,
      same_field ''autorestart'' TAutoRestart,
      field [''startsecs'', ''start_secs''] ''start_secs'' TDurationSecs,
      field [''startretries'', ''start_retries''] ''start_retries'' TU32,
      field [''restartpause'', ''restart_pause'', ''restart_pause_secs''] ''restart_pause_secs'' TDurationSecs,
      field [''stopsignal'', ''stop_signal''] ''stop_signal'' TStopSignal,
      field [''stopwaitsecs'', ''stop_wait_secs''] ''stop_wait_secs'' TDurationSecs,
      same_field ''priority'' TU32,
      same_field ''numprocs'' TUsize,
      same_field ''numprocs_start'' TUsize,
      same_field ''process_name'' TIdentity,
      field [''logging'', ''log_mode''] ''logs.enabled'' TIdentity,
      field [''buffer_size'', ''log_buffer_size''] ''logs.buffer_size'' TByteSize,
      field [''stdout_logfile''] ''logs.stdout'' TLogPath,
      field [''stderr_logfile''] ''logs.stderr'' TLogPath,
      field [''stdout_logfile_maxbytes'', ''stdout_logfile_bytes''] ''logs.stdout_max_bytes'' TByteSize,
      field [''stderr_logfile_maxbytes'', ''stderr_logfile_bytes''] ''logs.stderr_max_bytes'' TByteSize,
      field [''stdout_logfile_backups''] ''logs.stdout_backups'' TUsize,
      field [''stderr_logfile_backups''] ''logs.stderr_backups'' TUsize,
      field [''stdout_logfile_timestamp_suffix''] ''logs.stdout_timestamp_suffix'' TBool,
      field [''stderr_logfile_timestamp_suffix''] ''logs.stderr_timestamp_suffix'' TBool,
      field [''stdout_syslog''] ''logs.stdout_syslog'' TBool,
      field [''stderr_syslog''] ''logs.stderr_syslog'' TBool,
      field [''syslog_facility''] ''logs.syslog_facility'' TIdentity,
      field [''syslog_tag''] ''logs.syslog_tag'' TIdentity,
      field [''syslog_stdout_priority''] ''logs.syslog_stdout_priority'' TIdentity,
      field [''syslog_stderr_priority''] ''logs.syslog_stderr_priority'' TIdentity,
      field [''redirect_stderr''] ''logs.redirect_stderr'' TBool,
      field [''stdout_events_enabled''] ''logs.stdout_events_enabled'' TBool,
      field [''stderr_events_enabled''] ''logs.stderr_events_enabled'' TBool,
      field [''pre_start'', ''pre_start_hook''] ''pre_start'' TIdentity,
      field [''pre_stop'', ''pre_stop_hook''] ''pre_stop'' TIdentity,
      same_field ''pre_start_ignore_failure'' TBool,
      field [''hook_timeout_secs''] ''hook_timeout_secs'' TDurationSecs,
      same_field ''restart_when_binary_changed'' TBool,
      same_field ''restart_signal_when_binary_changed'' TStopSignal,
      same_field ''restart_cmd_when_binary_changed'' TIdentity,
      same_field ''restart_directory_monitor'' TIdentity,
      same_field ''restart_file_pattern'' TIdentity,
      same_field ''restart_signal_when_file_changed'' TStopSignal,
      same_field ''restart_cmd_when_file_changed'' TIdentity,
      same_field ''restart_debounce_secs'' TDurationSecs,
      field [''envfiles'', ''env_files''] ''env_files'' TEnvFiles,
      field [''killwaitsecs'', ''kill_wait_secs''] ''kill_wait_secs'' TDurationSecs,
      field [''stopasgroup'', ''stop_as_group''] ''stop_as_group'' TBool,
      field [''killasgroup'', ''kill_as_group''] ''kill_as_group'' TBool]"

definition program_only_mappings :: "FieldMapping list" where
  "program_only_mappings =
     [same_field ''command'' TIdentity,
      field [''exitcodes'', ''exit_codes''] ''exit_codes'' TI32List,
      same_field ''directory'' TIdentity,
      same_field ''user'' TIdentity,
      same_field ''umask'' TUmask,
      same_field ''environment'' TEnvironment,
      same_field ''depends_on'' TStringList,
      same_field ''cron'' TIdentity,
      field [''cron_stop'', ''stop_cron''] ''cron_stop'' TIdentity]"

definition event_listener_mappings :: "FieldMapping list" where
  "event_listener_mappings =
     [same_field ''command'' TIdentity,
      same_field ''events'' TEventList,
      field [''buffer_size'', ''buffersize''] ''buffer_size'' TUsize,
      same_field ''result_handler'' TIdentity,
      same_field ''priority'' TI32,
      same_field ''autostart'' TBool,
      same_field ''autorestart'' TAutoRestart,
      field [''startsecs'', ''start_secs''] ''start_secs'' TDurationSecs,
      field [''startretries'', ''start_retries''] ''start_retries'' TU32,
      field [''stopsignal'', ''stop_signal''] ''stop_signal'' TStopSignal,
      field [''stopwaitsecs'', ''stop_wait_secs''] ''stop_wait_secs'' TDurationSecs,
      same_field ''directory'' TIdentity,
      same_field ''user'' TIdentity,
      same_field ''umask'' TUmask,
      same_field ''environment'' TEnvironment,
      same_field ''stdout_logfile'' TLogPath,
      same_field ''stderr_logfile'' TLogPath,
      same_field ''redirect_stderr'' TBool,
      same_field ''numprocs'' TUsize,
      same_field ''numprocs_start'' TUsize,
      same_field ''process_name'' TIdentity,
      field [''envfiles'', ''env_files''] ''env_files'' TEnvFiles,
      field [''stopasgroup'', ''stop_as_group''] ''stop_as_group'' TBool,
      field [''killasgroup'', ''kill_as_group''] ''kill_as_group'' TBool]"

section \<open>Health checks\<close>

definition DEFAULT_LIVENESS_INTERVAL :: duration where "DEFAULT_LIVENESS_INTERVAL = from_secs 60"
definition DEFAULT_LIVENESS_TIMEOUT :: duration where "DEFAULT_LIVENESS_TIMEOUT = from_secs 30"
definition DEFAULT_LIVENESS_INITIAL_DELAY :: duration where "DEFAULT_LIVENESS_INITIAL_DELAY = from_secs 60"
definition DEFAULT_HEALTH_FAILURE_THRESHOLD :: nat where "DEFAULT_HEALTH_FAILURE_THRESHOLD = 3"

definition liveness_setting :: "string hmap \<Rightarrow> string \<Rightarrow> string \<Rightarrow> (string \<Rightarrow> 'a read) \<Rightarrow> 'a \<Rightarrow> 'a result" where
  "liveness_setting sec ctx key parse fallback =
     (case hm_get sec (''liveness_check_'' @ key) of
        Some s \<Rightarrow> map_sum (\<lambda>e. ConfigError (ctx @ '': invalid liveness_check_'' @ key @ '': '' @ e)) id (parse s)
      | None \<Rightarrow> Inr fallback)"

definition parse_liveness_check :: "string hmap \<Rightarrow> string \<Rightarrow> HealthCheckConfig option result" where
  "parse_liveness_check sec ctx =
     (let script = map_option trim (hm_get sec ''liveness_check_script'');
          duration = (\<lambda>s. custom (string_to_duration s))
      in if \<not> (\<exists>k \<in> set (keys sec). starts_with ''liveness_check'' k) then Inr None
         else case script of
           None \<Rightarrow> Inl (ConfigError (ctx @ '': liveness_check_* keys require non-empty '' @ quoted ''liveness_check_script''))
         | Some command \<Rightarrow>
             if command = []
             then Inl (ConfigError (ctx @ '': liveness_check_* keys require non-empty '' @ quoted ''liveness_check_script''))
             else
               and_then (liveness_setting sec ctx ''period'' duration DEFAULT_LIVENESS_INTERVAL) (\<lambda>interval.
               and_then (liveness_setting sec ctx ''timeout'' duration DEFAULT_LIVENESS_TIMEOUT) (\<lambda>timeout.
               and_then (liveness_setting sec ctx ''initial_delay'' duration DEFAULT_LIVENESS_INITIAL_DELAY) (\<lambda>delay.
               and_then (liveness_setting sec ctx ''failure_threshold'' (from_str_radix 10 u32_max)
                           DEFAULT_HEALTH_FAILURE_THRESHOLD) (\<lambda>threshold.
                 Inr (Some \<lparr>h_check_type = Exec command, h_interval_secs = interval, h_timeout_secs = timeout,
                            h_failure_threshold = threshold, h_initial_delay_secs = delay\<rparr>))))))"

definition check_type_members :: "HealthCheckType \<Rightarrow> (string \<times> Json) list" where
  "check_type_members t =
     (case t of
        Http url status \<Rightarrow> [(''type'', JStr ''http''), (''url'', JStr url), (''expected_status'', json_nat status)]
      | HealthCheckType.Tcp endpoint \<Rightarrow> [(''type'', JStr ''tcp''), (''endpoint'', JStr endpoint)]
      | Exec command \<Rightarrow> [(''type'', JStr ''exec''), (''command'', JStr command)])"

definition health_to_value :: "HealthCheckConfig \<Rightarrow> Json" where
  "health_to_value h =
     JObj (check_type_members (h_check_type h)
       @ [(''interval_secs'', write_duration_secs (h_interval_secs h)),
          (''timeout_secs'', write_duration_secs (h_timeout_secs h)),
          (''failure_threshold'', json_nat (h_failure_threshold h)),
          (''initial_delay_secs'', write_duration_secs (h_initial_delay_secs h))])"

definition attach_liveness_check :: "string hmap \<Rightarrow> string \<Rightarrow> Json \<Rightarrow> Json result" where
  "attach_liveness_check sec ctx target =
     and_then (parse_liveness_check sec ctx) (\<lambda>hc.
       case hc of Some h \<Rightarrow> Inr (put_member ''health_check'' (health_to_value h) target) | None \<Rightarrow> Inr target)"

section \<open>Sections\<close>

definition ini_root :: Json where
  "ini_root =
     JObj [(''server'', JObj [(''path_translation'', JBool False), (''allow_unelevated'', JBool True),
                              (''ctl_defaults'', JBool False)]),
           (''programs'', JObj []), (''groups'', JObj []), (''event_listeners'', JObj []),
           (''program_defaults'', JObj [])]"

definition is_in_memory_log_spec :: "string \<Rightarrow> bool" where
  "is_in_memory_log_spec val \<longleftrightarrow> any_ignore_case val [''memory'', ''in_memory'', ''in_memory_only'']"

definition in_section :: "ParsedIni \<Rightarrow> string \<Rightarrow> (string hmap \<Rightarrow> Json \<Rightarrow> Json result) \<Rightarrow> Json \<Rightarrow> Json result" where
  "in_section ini name f tree = (case hm_get (pi_sections ini) name of Some sec \<Rightarrow> f sec tree | None \<Rightarrow> Inr tree)"

definition set_logfile :: "string \<Rightarrow> Json \<Rightarrow> Json" where
  "set_logfile logfile tree =
     (if eq_ignore_case logfile ''NONE''
      then set_json_path ''logging.file'' JNull (set_json_path ''logging.enabled'' (JBool False) tree)
      else if is_in_memory_log_spec logfile
      then set_json_path ''logging.file'' JNull (set_json_path ''logging.enabled'' (JStr ''in_memory_only'') tree)
      else set_json_path ''logging.file'' (JStr logfile) (set_json_path ''logging.enabled'' (JBool True) tree))"

definition adapt_supervisord :: "IniEnv \<Rightarrow> string option \<Rightarrow> string hmap \<Rightarrow> Json \<Rightarrow> Json result" where
  "adapt_supervisord ix dir sec tree =
     (let tree = (case hm_get sec ''logfile'' of Some logfile \<Rightarrow> set_logfile logfile tree | None \<Rightarrow> tree)
      in apply_mappings ix dir ''[supervisord]'' sec supervisord_mappings tree)"

definition adapt_supervisorctl :: "IniEnv \<Rightarrow> string option \<Rightarrow> string hmap \<Rightarrow> Json \<Rightarrow> Json result" where
  "adapt_supervisorctl ix dir sec tree =
     and_then (map_section ix dir ''[supervisorctl]'' sec [ctl_mappings]) (\<lambda>ctl. Inr (put_member ''ctl'' ctl tree))"

definition memory_logs :: "string hmap \<Rightarrow> Json \<Rightarrow> Json" where
  "memory_logs sec target =
     (case hm_get sec ''stdout_logfile'' of
        Some stdout_log \<Rightarrow>
          if is_in_memory_log_spec stdout_log
          then set_json_path ''logs.stdout'' JNull (set_json_path ''logs.enabled'' (JStr ''in_memory_only'') target)
          else target
      | None \<Rightarrow> target)"

definition adapt_program_default :: "IniEnv \<Rightarrow> string option \<Rightarrow> string hmap \<Rightarrow> Json \<Rightarrow> Json result" where
  "adapt_program_default ix dir sec tree =
     and_then (map_section ix dir ''Invalid default'' sec [program_shared_mappings]) (\<lambda>defs.
     and_then (attach_liveness_check sec ''[program-default]'' (memory_logs sec defs)) (\<lambda>defs.
       Inr (put_member ''program_defaults'' defs tree)))"

definition adapt_program :: "IniEnv \<Rightarrow> string option \<Rightarrow> string \<Rightarrow> string hmap \<Rightarrow> Json result" where
  "adapt_program ix dir prog_name sec =
     and_then (require_key sec ''command'' ''Program'' prog_name) (\<lambda>_.
     and_then (map_section ix dir (''Program '' @ quoted prog_name @ '' invalid'') sec
                 [program_shared_mappings, program_only_mappings]) (\<lambda>prog.
       attach_liveness_check sec (''Program '' @ quoted prog_name) (memory_logs sec prog)))"

definition adapt_event_listener :: "IniEnv \<Rightarrow> string option \<Rightarrow> string \<Rightarrow> string hmap \<Rightarrow> Json result" where
  "adapt_event_listener ix dir pool_name sec =
     and_then (require_key sec ''command'' ''EventListener'' pool_name) (\<lambda>_.
     and_then (require_key sec ''events'' ''EventListener'' pool_name) (\<lambda>_.
     and_then (map_section ix dir (''EventListener '' @ quoted pool_name @ '' invalid'') sec
                 [event_listener_mappings]) (\<lambda>el.
       if json_member ''redirect_stderr'' el = JBool True
       then Inl (ConfigError (''EventListener '' @ quoted pool_name
                 @ '' redirect_stderr cannot be true (violates wire protocol)''))
       else if (case json_member ''buffer_size'' el of JPos n \<Rightarrow> n < 1 | _ \<Rightarrow> False)
       then Inl (ConfigError (''EventListener '' @ quoted pool_name @ '' buffer_size must be >= 1''))
       else Inr el)))"

text \<open>\<open>tree[outer][name] = value\<close>.\<close>

definition put_in :: "string \<Rightarrow> string \<Rightarrow> Json \<Rightarrow> Json \<Rightarrow> Json" where
  "put_in outer name v tree = put_member outer (put_member name v (json_member outer tree)) tree"

definition adapt_section :: "IniEnv \<Rightarrow> string option \<Rightarrow> ParsedIni \<Rightarrow> Json \<Rightarrow> string \<Rightarrow> Json result" where
  "adapt_section ix dir ini tree section_name =
     (case strip_prefix ''program:'' section_name of
        Some prog_name \<Rightarrow> in_section ini section_name (\<lambda>sec tree.
          map_sum id (\<lambda>prog. put_in ''programs'' prog_name prog tree) (adapt_program ix dir prog_name sec)) tree
      | None \<Rightarrow> (case strip_prefix ''group:'' section_name of
        Some group_name \<Rightarrow> in_section ini section_name (\<lambda>sec tree.
          map_sum id (\<lambda>g. put_in ''groups'' group_name g tree)
            (map_section ix dir ''Invalid group'' sec [group_mappings])) tree
      | None \<Rightarrow> (case strip_prefix ''eventlistener:'' section_name of
        Some pool_name \<Rightarrow> in_section ini section_name (\<lambda>sec tree.
          map_sum id (\<lambda>el. put_in ''event_listeners'' pool_name el tree) (adapt_event_listener ix dir pool_name sec)) tree
      | None \<Rightarrow> Inr tree)))"

definition adapt_ini_tree :: "IniEnv \<Rightarrow> ParsedIni \<Rightarrow> string option \<Rightarrow> Json result" where
  "adapt_ini_tree ix ini dir =
     and_then (in_section ini ''unix_http_server''
       (\<lambda>sec. apply_mappings ix dir ''[unix_http_server]'' sec server_unix_mappings) ini_root) (\<lambda>tree.
     and_then (in_section ini ''inet_http_server''
       (\<lambda>sec. apply_mappings ix dir ''[inet_http_server]'' sec server_inet_mappings) tree) (\<lambda>tree.
     and_then (in_section ini ''supervisord'' (adapt_supervisord ix dir) tree) (\<lambda>tree.
     and_then (in_section ini ''supervisorctl'' (adapt_supervisorctl ix dir) tree) (\<lambda>tree.
     and_then (in_section ini ''program-default'' (adapt_program_default ix dir) tree) (\<lambda>tree.
       try_fold (adapt_section ix dir ini) (pi_order ini) tree)))))"

definition adapt_ini_to_config :: "IniEnv \<Rightarrow> ParsedIni \<Rightarrow> string option \<Rightarrow> SupervisorConfig result" where
  "adapt_ini_to_config ix ini dir =
     and_then (adapt_ini_tree ix ini dir) (\<lambda>tree.
     and_then (map_sum (\<lambda>e. ConfigError (''Failed to deserialize INI configuration: '' @ e)) id (ix_from_value ix tree)) (\<lambda>cfg.
     and_then (ix_translate_paths ix (ix_apply_default_paths ix (cfg\<lparr>sc_config_dir := dir\<rparr>))) (\<lambda>cfg.
     and_then (ix_validate ix cfg) (\<lambda>_. Inr cfg))))"

definition load_ini_config :: "IniEnv \<Rightarrow> string \<Rightarrow> SupervisorConfig result" where
  "load_ini_config ix path =
     and_then (load_ini_file_with_includes (ix_fs ix) path) (\<lambda>parsed.
       adapt_ini_to_config ix parsed (map_option (\<lambda>p. if p = [] then ''.'' else p) (path_parent path)))"

definition parse_ini_str :: "IniEnv \<Rightarrow> string \<Rightarrow> string option \<Rightarrow> SupervisorConfig result" where
  "parse_ini_str ix content dir = adapt_ini_to_config ix (parse_ini_content content dir) dir"

section \<open>Where a value goes\<close>

fun json_at :: "string list \<Rightarrow> Json \<Rightarrow> Json option" where
  "json_at [] j = Some j"
| "json_at (p # ps) j =
     (case j of JObj m \<Rightarrow> (case hm_get m p of Some v \<Rightarrow> json_at ps v | None \<Rightarrow> None) | _ \<Rightarrow> None)"

definition dst_parts :: "FieldMapping \<Rightarrow> string list" where
  "dst_parts m = split_all (CHR ''.'') (fm_dst_path m)"

text \<open>
  Writing at one path leaves another path alone if neither is a part of the other; the member that
  a new object of log settings gets by itself is excepted.
\<close>

fun prefix_of :: "'a list \<Rightarrow> 'a list \<Rightarrow> bool" where
  "prefix_of [] ys = True"
| "prefix_of (x # xs) [] = False"
| "prefix_of (x # xs) (y # ys) = (x = y \<and> prefix_of xs ys)"

definition apart :: "string list \<Rightarrow> string list \<Rightarrow> bool" where
  "apart q p \<longleftrightarrow> \<not> prefix_of p q \<and> \<not> prefix_of q p \<and> (q \<noteq> [''logs'', ''enabled''] \<or> hd p \<noteq> ''logs'')"

definition short :: "string list \<Rightarrow> bool" where
  "short p \<longleftrightarrow> length p = 1 \<or> length p = 2"

lemma short_cases:
  assumes "short p" obtains (one) a where "p = [a]" | (two) a b where "p = [a, b]"
proof -
  consider a where "p = [a]" | a b where "p = [a, b]"
    using assms unfolding short_def by (metis One_nat_def Suc_1 Suc_length_conv length_0_conv)
  then show thesis using one two by cases blast+
qed

lemma is_objectE: assumes "is_object j" obtains m where "j = JObj m"
  using assms by (cases j) (auto simp: is_object_def)

lemma is_object_simps [simp]: "is_object (JObj m)" "is_object (put_member k v (JObj m))" "is_object (object_at k j)"
  by (auto simp: is_object_def put_member_def object_at_def)

lemma put_member_object [simp]: "is_object j \<Longrightarrow> is_object (put_member k v j)"
  by (auto elim: is_objectE)

lemma json_at_put:
  assumes "is_object j"
  shows "json_at (k # ks) (put_member k' v j) = (if k = k' then json_at ks v else json_at (k # ks) j)"
  using assms by (auto elim!: is_objectE simp: put_member_def)

lemma set_parts_short:
  "set_parts [a] v j = put_member a v j"
  "set_parts [a, b] v j = put_member a (put_member b v (object_at a j)) j"
  by simp_all

lemma set_parts_object: "short p \<Longrightarrow> is_object j \<Longrightarrow> is_object (set_parts p v j)"
  by (erule short_cases) simp_all

lemma set_parts_at: "short p \<Longrightarrow> is_object j \<Longrightarrow> json_at p (set_parts p v j) = Some v"
  by (erule short_cases; simp only: set_parts_short json_at_put put_member_object is_object_simps json_at.simps(1) if_True refl)

lemma object_at_other:
  assumes "is_object j" and "qs \<noteq> []" and "a # qs \<noteq> [''logs'', ''enabled'']"
  shows "json_at qs (object_at a j) = json_at (a # qs) j"
proof -
  obtain m where j: "j = JObj m" using assms(1) by (rule is_objectE)
  obtain d ds where qs: "qs = d # ds" using assms(2) by (cases qs) auto
  show ?thesis
  proof (cases "\<exists>m'. hm_get m a = Some (JObj m')")
    case True
    then show ?thesis by (auto simp: j object_at_def json_member_def unwrap_or_def)
  next
    case False
    then have "json_at (a # qs) j = None" by (auto simp: j qs split: option.split Json.split)
    moreover have "\<not> is_object (json_member a j)"
      using False by (auto simp: j json_member_def unwrap_or_def is_object_def split: option.splits Json.splits)
    ultimately show ?thesis
      using assms(3) by (cases ds) (auto simp: object_at_def qs hm_get_Cons)
  qed
qed

lemma set_parts_apart:
  assumes "short p" and "apart q p" and "is_object j"
  shows "json_at q (set_parts p v j) = json_at q j"
proof (cases q)
  case Nil
  then show ?thesis using assms(2) by (simp add: apart_def)
next
  case (Cons c qs)
  from assms(1) show ?thesis
  proof (cases rule: short_cases)
    case (one a)
    then show ?thesis using assms(2,3) Cons by (auto simp: apart_def json_at_put simp del: json_at.simps(2))
  next
    case (two a b)
    show ?thesis
    proof (cases "c = a")
      case True
      then obtain d ds where qs: "qs = d # ds" "d \<noteq> b" using assms(2) two Cons by (cases qs) (auto simp: apart_def)
      have "q \<noteq> [''logs'', ''enabled'']" using assms(2) two Cons True by (auto simp: apart_def)
      then show ?thesis
        using object_at_other [of j qs a] assms(3) qs Cons True two
        by (simp add: json_at_put del: json_at.simps(2))
    qed (use assms(3) two Cons in \<open>simp add: json_at_put del: json_at.simps(2)\<close>)
  qed
qed

text \<open>What a mapping finds in a section, once it has been applied.\<close>

definition field_value :: "IniEnv \<Rightarrow> string option \<Rightarrow> string \<Rightarrow> string hmap \<Rightarrow> FieldMapping \<Rightarrow> Json option result" where
  "field_value ix dir ctx sec m =
     (case lookup_field sec m of
        None \<Rightarrow> Inr None
      | Some (k, raw) \<Rightarrow> apply_transform ix dir ctx (fm_transform m) raw k)"

lemma apply_mapping_eq:
  "apply_mapping ix dir ctx sec j m =
     map_sum id (\<lambda>val. case val of None \<Rightarrow> j | Some v \<Rightarrow> set_parts (dst_parts m) v j) (field_value ix dir ctx sec m)"
  by (auto simp: apply_mapping_def field_value_def set_json_path_def dst_parts_def and_then_def
      split: option.split sum.split)

definition table_ok :: "FieldMapping list \<Rightarrow> bool" where
  "table_ok ms \<longleftrightarrow> list_all (\<lambda>m. short (dst_parts m)) ms"

lemma mappings_frame:
  assumes "try_fold (apply_mapping ix dir ctx sec) ms j = Inr t" and "table_ok ms" and "is_object j"
  shows "is_object t" and "list_all (\<lambda>m. apart q (dst_parts m)) ms \<Longrightarrow> json_at q t = json_at q j"
proof -
  have "is_object t \<and> (list_all (\<lambda>m. apart q (dst_parts m)) ms \<longrightarrow> json_at q t = json_at q j)"
    using assms
  proof (induction ms arbitrary: j)
    case (Cons m ms)
    obtain val where val: "field_value ix dir ctx sec m = Inr val"
      using Cons.prems(1) by (cases "field_value ix dir ctx sec m") (simp_all add: apply_mapping_eq)
    define j1 where "j1 = (case val of None \<Rightarrow> j | Some v \<Rightarrow> set_parts (dst_parts m) v j)"
    have "short (dst_parts m)" using Cons.prems(2) by (simp add: table_ok_def)
    then have "is_object j1" "apart q (dst_parts m) \<Longrightarrow> json_at q j1 = json_at q j"
      using Cons.prems(3) set_parts_object set_parts_apart by (auto simp: j1_def split: option.split)
    moreover have "apply_mapping ix dir ctx sec j m = Inr j1" by (simp add: apply_mapping_eq val j1_def)
    then have "try_fold (apply_mapping ix dir ctx sec) ms j1 = Inr t"
      using Cons.prems(1) by simp
    ultimately show ?case using Cons.IH [of j1] Cons.prems(2) by (simp add: table_ok_def)
  qed simp
  then show "is_object t" "list_all (\<lambda>m. apart q (dst_parts m)) ms \<Longrightarrow> json_at q t = json_at q j" by simp_all
qed

lemma mappings_values:
  assumes "try_fold (apply_mapping ix dir ctx sec) ms j = Inr t" and "table_ok ms" and "is_object j"
    and "m \<in> set ms" and "json_at (dst_parts m) j = None"
    and "\<And>m'. m' \<in> set ms \<Longrightarrow> m' \<noteq> m \<Longrightarrow> apart (dst_parts m) (dst_parts m')" and "distinct ms"
  shows "field_value ix dir ctx sec m = Inr (json_at (dst_parts m) t)"
  using assms
proof (induction ms arbitrary: j)
  case (Cons m0 ms)
  obtain val where val: "field_value ix dir ctx sec m0 = Inr val"
    using Cons.prems(1) by (cases "field_value ix dir ctx sec m0") (simp_all add: apply_mapping_eq)
  define j1 where "j1 = (case val of None \<Rightarrow> j | Some v \<Rightarrow> set_parts (dst_parts m0) v j)"
  have "apply_mapping ix dir ctx sec j m0 = Inr j1" by (simp add: apply_mapping_eq val j1_def)
  then have rest: "try_fold (apply_mapping ix dir ctx sec) ms j1 = Inr t"
    using Cons.prems(1) by simp
  have s: "short (dst_parts m0)" "table_ok ms" using Cons.prems(2) by (simp_all add: table_ok_def)
  have j1: "is_object j1" using Cons.prems(3) s(1) set_parts_object by (auto simp: j1_def split: option.split)
  show ?case
  proof (cases "m0 = m")
    case True
    have "list_all (\<lambda>m'. apart (dst_parts m) (dst_parts m')) ms"
      unfolding list_all_iff using Cons.prems(6,7) True by auto
    then have "json_at (dst_parts m) t = json_at (dst_parts m) j1"
      using mappings_frame(2) [OF rest s(2) j1] by simp
    also have "\<dots> = val"
      using True Cons.prems(3,5) set_parts_at [OF s(1)] by (auto simp: j1_def split: option.split)
    finally show ?thesis using val True by simp
  next
    case False
    then have "json_at (dst_parts m) j1 = None"
      using Cons.prems(3,5,6) set_parts_apart [OF s(1)] by (auto simp: j1_def split: option.split)
    then show ?thesis using Cons.IH [OF rest s(2) j1] Cons.prems False by auto
  qed
qed simp

lemma try_fold_groups:
  "try_fold (\<lambda>target mappings. try_fold f mappings target) groups j = try_fold f (concat groups) j"
proof (induction groups arbitrary: j)
  case (Cons g groups)
  then show ?case by (cases "try_fold f g j") (simp_all add: try_fold_append)
qed simp

lemma map_section_eq: "map_section ix dir ctx sec groups = try_fold (apply_mapping ix dir ctx sec) (concat groups) (JObj [])"
  by (simp add: map_section_def apply_mappings_def try_fold_groups)

text \<open>The destinations of a table: at most two parts, different, and none inside another.\<close>

definition no_nesting :: "string list \<Rightarrow> string list list \<Rightarrow> bool" where
  "no_nesting heads ps \<longleftrightarrow> list_all (\<lambda>p. length p = 1 \<longrightarrow> hd p \<notin> set heads) ps"

definition apart_paths :: "string list list \<Rightarrow> bool" where
  "apart_paths ps \<longleftrightarrow> list_all short ps \<and> distinct ps \<and>
     no_nesting (remdups (map hd (filter (\<lambda>p. length p = 2) ps))) ps"

definition apart_table :: "FieldMapping list \<Rightarrow> bool" where
  "apart_table ms \<longleftrightarrow> apart_paths (map dst_parts ms)"

lemma apart_table_iff:
  "apart_table ms \<longleftrightarrow> table_ok ms \<and> distinct (map dst_parts ms) \<and>
     (\<forall>m \<in> set ms. \<forall>m' \<in> set ms. length (dst_parts m) = 1 \<longrightarrow> length (dst_parts m') = 2 \<longrightarrow>
        hd (dst_parts m) \<noteq> hd (dst_parts m'))"
  by (auto simp: apart_table_def apart_paths_def no_nesting_def table_ok_def list_all_iff)

lemma apart_tableD:
  assumes "apart_table ms" and "m \<in> set ms" and "m' \<in> set ms" and "m \<noteq> m'"
    and "fm_dst_path m \<noteq> ''logs.enabled''"
  shows "apart (dst_parts m) (dst_parts m')"
proof -
  have s: "short (dst_parts m)" "short (dst_parts m')"
    using assms(1-3) by (simp_all add: apart_table_iff table_ok_def list_all_iff)
  have n: "dst_parts m \<noteq> dst_parts m'"
    using assms(1-4) by (auto simp: apart_table_iff distinct_map inj_on_def)
  have h: "length (dst_parts m) = 1 \<Longrightarrow> length (dst_parts m') = 2 \<Longrightarrow> hd (dst_parts m) \<noteq> hd (dst_parts m')"
      "length (dst_parts m') = 1 \<Longrightarrow> length (dst_parts m) = 2 \<Longrightarrow> hd (dst_parts m') \<noteq> hd (dst_parts m)"
    using assms(1-3) unfolding apart_table_iff by blast+
  have e: "dst_parts m \<noteq> [''logs'', ''enabled'']"
  proof
    assume d: "dst_parts m = [''logs'', ''enabled'']"
    have "fm_dst_path m = join_with ''.'' (dst_parts m)" by (simp add: dst_parts_def join_split_all)
    then show False using assms(5) by (simp add: d)
  qed
  show ?thesis
    using s(1)
  proof (cases rule: short_cases)
    case (one a)
    show ?thesis by (rule short_cases [OF s(2)]) (use one n h(1) in \<open>auto simp: apart_def\<close>)
  next
    case (two a b)
    show ?thesis by (rule short_cases [OF s(2)]) (use two n h(2) e in \<open>auto simp: apart_def\<close>)
  qed
qed

lemma section_tables_apart:
  "apart_table (program_shared_mappings @ program_only_mappings)" "apart_table event_listener_mappings"
  by code_simp+


definition demo_env :: IniEnv where
  "demo_env =
     \<lparr>ix_fs = \<lparr>fv_read = (\<lambda>_. Inl []), fv_exists = (\<lambda>_. False), fv_dir = (\<lambda>_. None), fv_cwd = ''/''\<rparr>,
      ix_signal_name = (\<lambda>_. ''TERM''), ix_policy = (\<lambda>_. None), ix_from_value = (\<lambda>_. Inl []),
      ix_apply_default_paths = (\<lambda>c. c), ix_translate_paths = Inr, ix_validate = (\<lambda>_. Inr ())\<rparr>"

lemma demo_section:
  "map_section demo_env None ''Program'' [(''command'', ''/bin/web''), (''startsecs'', ''10''), (''stdout_logfile'', ''AUTO'')]
     [program_shared_mappings, program_only_mappings] =
   Inr (JObj [(''start_secs'', JPos 10), (''command'', JStr ''/bin/web'')])"
  by code_simp


section \<open>The tree of a document\<close>

lemma json_at_member: "is_object j \<Longrightarrow> json_at [k] j = Some v \<Longrightarrow> json_member k j = v"
  by (auto elim!: is_objectE simp: json_member_def unwrap_or_def split: option.splits)

text \<open>What the tree keeps through a step: it stays an object, and some paths keep their values.\<close>

definition keeps :: "string list set \<Rightarrow> Json \<Rightarrow> Json \<Rightarrow> bool" where
  "keeps Q j t \<longleftrightarrow> is_object j \<longrightarrow> is_object t \<and> (\<forall>q \<in> Q. json_at q t = json_at q j)"

lemma keeps_refl: "keeps Q j j"
  by (simp add: keeps_def)

lemma keeps_trans: "keeps Q j k \<Longrightarrow> keeps Q k t \<Longrightarrow> keeps Q j t"
  by (auto simp: keeps_def)

lemma keeps_mappings:
  assumes "apply_mappings ix dir ctx sec ms j = Inr t" and "table_ok ms"
    and "\<forall>q \<in> Q. list_all (\<lambda>m. apart q (dst_parts m)) ms"
  shows "keeps Q j t"
  using mappings_frame [OF assms(1) [unfolded apply_mappings_def] assms(2)] assms(3) by (auto simp: keeps_def)

lemma keeps_put: "\<forall>q \<in> Q. q \<noteq> [] \<and> hd q \<noteq> k \<Longrightarrow> keeps Q j (put_member k v j)"
proof -
  assume q: "\<forall>q \<in> Q. q \<noteq> [] \<and> hd q \<noteq> k"
  have "json_at q (put_member k v j) = json_at q j" if "q \<in> Q" "is_object j" for q
    using q that by (cases q) (auto simp: json_at_put simp del: json_at.simps(2))
  then show ?thesis by (simp add: keeps_def)
qed

lemma keeps_in_section:
  assumes "in_section ini name f j = Inr t" and "\<And>sec t. f sec j = Inr t \<Longrightarrow> keeps Q j t"
  shows "keeps Q j t"
  using assms keeps_refl by (auto simp: in_section_def split: option.splits)

definition fixed_paths :: "string list set" where
  "fixed_paths = {[''server'', ''path_translation''], [''server'', ''allow_unelevated''],
                  [''server'', ''ctl_defaults''], [''programs'']}"

lemma fixed_paths_apart:
  "\<forall>q \<in> fixed_paths. list_all (\<lambda>m. apart q (dst_parts m)) server_unix_mappings \<and>
     list_all (\<lambda>m. apart q (dst_parts m)) server_inet_mappings \<and>
     list_all (\<lambda>m. apart q (dst_parts m)) supervisord_mappings"
  "table_ok server_unix_mappings" "table_ok server_inet_mappings" "table_ok supervisord_mappings"
  by code_simp+

lemma keeps_set_path:
  assumes "short (split_all (CHR ''.'') path)" and "\<forall>q \<in> Q. apart q (split_all (CHR ''.'') path)"
  shows "keeps Q j (set_json_path path v j)"
  using assms set_parts_object set_parts_apart by (auto simp: keeps_def set_json_path_def)

lemma logging_paths:
  "short (split_all (CHR ''.'') ''logging.file'')" "short (split_all (CHR ''.'') ''logging.enabled'')"
  "\<forall>q \<in> fixed_paths. apart q (split_all (CHR ''.'') ''logging.file'')"
  "\<forall>q \<in> fixed_paths. apart q (split_all (CHR ''.'') ''logging.enabled'')"
  by code_simp+

lemma keeps_supervisord: "adapt_supervisord ix dir sec j = Inr t \<Longrightarrow> keeps fixed_paths j t"
proof -
  assume a: "adapt_supervisord ix dir sec j = Inr t"
  define j1 where "j1 = (case hm_get sec ''logfile'' of Some logfile \<Rightarrow> set_logfile logfile j | None \<Rightarrow> j)"
  have "keeps fixed_paths j (set_json_path ''logging.file'' v (set_json_path ''logging.enabled'' w j))" for v w
    by (rule keeps_trans [OF keeps_set_path keeps_set_path]) (rule logging_paths)+
  then have "keeps fixed_paths j j1"
    by (auto simp: j1_def set_logfile_def keeps_refl split: option.split)
  moreover have "apply_mappings ix dir ''[supervisord]'' sec supervisord_mappings j1 = Inr t"
    using a by (simp add: adapt_supervisord_def j1_def)
  then have "keeps fixed_paths j1 t"
    by (rule keeps_mappings) (use fixed_paths_apart in auto)
  ultimately show ?thesis by (rule keeps_trans)
qed

lemma keeps_first_stages:
  assumes "adapt_ini_tree ix ini dir = Inr t"
  obtains j where "keeps fixed_paths ini_root j" "try_fold (adapt_section ix dir ini) (pi_order ini) j = Inr t"
proof -
  from assms obtain j1 j2 j3 j4 j5 where
      1: "in_section ini ''unix_http_server''
            (\<lambda>sec. apply_mappings ix dir ''[unix_http_server]'' sec server_unix_mappings) ini_root = Inr j1"
    and 2: "in_section ini ''inet_http_server''
            (\<lambda>sec. apply_mappings ix dir ''[inet_http_server]'' sec server_inet_mappings) j1 = Inr j2"
    and 3: "in_section ini ''supervisord'' (adapt_supervisord ix dir) j2 = Inr j3"
    and 4: "in_section ini ''supervisorctl'' (adapt_supervisorctl ix dir) j3 = Inr j4"
    and 5: "in_section ini ''program-default'' (adapt_program_default ix dir) j4 = Inr j5"
    and r: "try_fold (adapt_section ix dir ini) (pi_order ini) j5 = Inr t"
    by (auto simp: adapt_ini_tree_def and_then_Inr)
  have "keeps fixed_paths ini_root j1"
    by (rule keeps_in_section [OF 1], erule keeps_mappings) (use fixed_paths_apart in auto)
  moreover have "keeps fixed_paths j1 j2"
    by (rule keeps_in_section [OF 2], erule keeps_mappings) (use fixed_paths_apart in auto)
  moreover have "keeps fixed_paths j2 j3" by (rule keeps_in_section [OF 3]) (rule keeps_supervisord)
  moreover have "keeps fixed_paths j3 j4"
    by (rule keeps_in_section [OF 4])
      (auto simp: adapt_supervisorctl_def and_then_Inr fixed_paths_def intro!: keeps_put)
  moreover have "keeps fixed_paths j4 j5"
    by (rule keeps_in_section [OF 5])
      (auto simp: adapt_program_default_def and_then_Inr fixed_paths_def intro!: keeps_put)
  ultimately have "keeps fixed_paths ini_root j5" by (blast intro: keeps_trans)
  then show thesis using r by (rule that)
qed

declare json_at.simps(2) [simp del]

text \<open>What a section contributes to the programs of the tree.\<close>

definition program_of :: "IniEnv \<Rightarrow> string option \<Rightarrow> ParsedIni \<Rightarrow> string \<Rightarrow> Json result option" where
  "program_of ix dir ini n = map_option (adapt_program ix dir n) (hm_get (pi_sections ini) (''program:'' @ n))"

definition program_tree :: "Json \<Rightarrow> bool" where
  "program_tree j \<longleftrightarrow> is_object j \<and> is_object (json_member ''programs'' j)"

lemma program_treeE:
  assumes "program_tree j" obtains m ps where "j = JObj m" "hm_get m ''programs'' = Some (JObj ps)"
proof -
  obtain m where j: "j = JObj m" using assms unfolding program_tree_def by (auto elim: is_objectE)
  then have "is_object (unwrap_or (hm_get m ''programs'') JNull)" using assms by (simp add: program_tree_def json_member_def)
  then obtain ps where "hm_get m ''programs'' = Some (JObj ps)"
    by (cases "hm_get m ''programs''") (auto simp: unwrap_or_def is_object_def split: Json.splits)
  then show thesis using j that by blast
qed

lemma program_treeI: "j = JObj m \<Longrightarrow> hm_get m ''programs'' = Some (JObj ps) \<Longrightarrow> program_tree j"
  by (simp add: program_tree_def json_member_def unwrap_or_def)

lemma put_in_other:
  assumes "program_tree j" and "outer \<noteq> ''programs''"
  shows "program_tree (put_in outer name v j)"
    and "json_at [''programs'', n] (put_in outer name v j) = json_at [''programs'', n] j"
proof -
  obtain m ps where j: "j = JObj m" "hm_get m ''programs'' = Some (JObj ps)" using assms(1) by (rule program_treeE)
  have p: "put_in outer name v j = JObj (hm_insert outer (put_member name v (json_member outer j)) m)"
    by (simp add: put_in_def put_member_def j)
  show "program_tree (put_in outer name v j)" using program_treeI [OF p] assms(2) j by simp
  show "json_at [''programs'', n] (put_in outer name v j) = json_at [''programs'', n] j"
    unfolding p using assms(2) by (simp add: j json_at.simps)
qed

lemma put_in_programs:
  assumes "program_tree j"
  shows "program_tree (put_in ''programs'' name v j)"
    and "json_at [''programs'', n] (put_in ''programs'' name v j) = (if n = name then Some v else json_at [''programs'', n] j)"
proof -
  obtain m ps where j: "j = JObj m" "hm_get m ''programs'' = Some (JObj ps)" using assms by (rule program_treeE)
  have p: "put_in ''programs'' name v j = JObj (hm_insert ''programs'' (JObj (hm_insert name v ps)) m)"
    by (simp add: put_in_def put_member_def j json_member_def unwrap_or_def)
  show "program_tree (put_in ''programs'' name v j)" using program_treeI [OF p] by simp
  show "json_at [''programs'', n] (put_in ''programs'' name v j) = (if n = name then Some v else json_at [''programs'', n] j)"
    unfolding p by (simp add: j json_at.simps)
qed

definition server_paths :: "string list set" where
  "server_paths = {[''server'', ''path_translation''], [''server'', ''allow_unelevated''], [''server'', ''ctl_defaults'']}"

lemma put_in_server:
  "q \<in> server_paths \<Longrightarrow> is_object j \<Longrightarrow> outer \<noteq> ''server'' \<Longrightarrow> json_at q (put_in outer name v j) = json_at q j"
  by (auto simp: server_paths_def put_in_def json_at_put simp del: json_at.simps(2))

lemma adapt_section_cases:
  assumes "adapt_section ix dir ini j s = Inr t"
  obtains (program) n p where "s = ''program:'' @ n" "program_of ix dir ini n = Some (Inr p)" "t = put_in ''programs'' n p j"
  | (other) outer name v where "outer \<noteq> ''programs''" "outer \<noteq> ''server''" "\<forall>n. s \<noteq> ''program:'' @ n" "t = put_in outer name v j"
  | (same) "t = j" "\<forall>n. s = ''program:'' @ n \<longrightarrow> program_of ix dir ini n = None"
proof (cases "strip_prefix ''program:'' s")
  case (Some n)
  then have s: "s = ''program:'' @ n" by (simp add: strip_prefix_iff)
  show thesis
  proof (cases "hm_get (pi_sections ini) s")
    case None
    then show thesis using same assms Some s by (simp add: adapt_section_def in_section_def program_of_def)
  next
    case (Some sec)
    then obtain p where "adapt_program ix dir n sec = Inr p" "t = put_in ''programs'' n p j"
      using assms \<open>strip_prefix _ _ = _\<close> by (auto simp: adapt_section_def in_section_def map_sum_Inr)
    then show thesis using program s Some by (simp add: program_of_def)
  qed
next
  case None
  then have n: "\<forall>n. s \<noteq> ''program:'' @ n" by (metis option.distinct(1) strip_prefix_iff)
  show thesis
  proof (cases "t = j")
    case True
    then show thesis using same n by simp
  next
    case False
    then obtain outer name v where "outer \<in> {''groups'', ''event_listeners''}" "t = put_in outer name v j"
      using assms None by (auto simp: adapt_section_def in_section_def map_sum_Inr split: option.splits)
    then show thesis using other [of outer name v] n by auto
  qed
qed

lemma adapt_section_step:
  assumes "adapt_section ix dir ini j s = Inr t" and "program_tree j"
  shows "program_tree t" and "q \<in> server_paths \<Longrightarrow> json_at q t = json_at q j"
    and "s = ''program:'' @ n \<Longrightarrow> program_of ix dir ini n = Some r \<Longrightarrow> \<exists>p. r = Inr p \<and> json_at [''programs'', n] t = Some p"
    and "\<not> (s = ''program:'' @ n \<and> program_of ix dir ini n \<noteq> None) \<Longrightarrow> json_at [''programs'', n] t = json_at [''programs'', n] j"
proof -
  have o: "is_object j" using assms(2) by (simp add: program_tree_def)
  show "program_tree t" using assms(1)
    by (cases rule: adapt_section_cases) (simp_all add: assms(2) put_in_other put_in_programs)
  show "json_at q t = json_at q j" if "q \<in> server_paths" using assms(1)
    by (cases rule: adapt_section_cases) (simp_all add: that o put_in_server)
  show "\<exists>p. r = Inr p \<and> json_at [''programs'', n] t = Some p"
    if "s = ''program:'' @ n" "program_of ix dir ini n = Some r"
    using assms(1) by (cases rule: adapt_section_cases) (use that assms(2) in \<open>auto simp: put_in_programs\<close>)
  show "json_at [''programs'', n] t = json_at [''programs'', n] j"
    if "\<not> (s = ''program:'' @ n \<and> program_of ix dir ini n \<noteq> None)"
    using assms(1) by (cases rule: adapt_section_cases) (use that assms(2) in \<open>auto simp: put_in_programs put_in_other\<close>)
qed

lemma adapt_sections_all:
  assumes "try_fold (adapt_section ix dir ini) ss j = Inr t" and "program_tree j"
  shows "program_tree t \<and> (\<forall>q \<in> server_paths. json_at q t = json_at q j) \<and>
    (\<forall>n. if ''program:'' @ n \<in> set ss \<and> program_of ix dir ini n \<noteq> None
         then \<exists>p. program_of ix dir ini n = Some (Inr p) \<and> json_at [''programs'', n] t = Some p
         else json_at [''programs'', n] t = json_at [''programs'', n] j)"
  using assms
proof (induction ss arbitrary: j)
  case (Cons s ss)
  obtain k where k: "adapt_section ix dir ini j s = Inr k" "try_fold (adapt_section ix dir ini) ss k = Inr t"
    using Cons.prems(1) by (auto simp: and_then_Inr)
  note st = adapt_section_step [OF k(1) Cons.prems(2)]
  note IH = Cons.IH [OF k(2) st(1)]
  have "if ''program:'' @ n \<in> set (s # ss) \<and> program_of ix dir ini n \<noteq> None
         then \<exists>p. program_of ix dir ini n = Some (Inr p) \<and> json_at [''programs'', n] t = Some p
         else json_at [''programs'', n] t = json_at [''programs'', n] j" for n
  proof (cases "''program:'' @ n \<in> set ss \<and> program_of ix dir ini n \<noteq> None")
    case True
    then show ?thesis using IH by auto
  next
    case False
    then have "json_at [''programs'', n] t = json_at [''programs'', n] k" using IH by presburger
    then show ?thesis using st(3,4) [of n] False
      by (cases "program_of ix dir ini n") (auto simp del: json_at.simps(2))
  qed
  then show ?case using IH st(2) by simp
qed simp

text \<open>
  C32: The tree of a legacy document has exactly one program per program section, with the settings of
  that section, and no such section fails; and whatever the document says, paths are not translated,
  unelevated access is allowed and the client gets no defaults from the server.
\<close>

theorem ini_tree_contents:
  assumes "adapt_ini_tree ix ini dir = Inr t"
  shows "(\<forall>n p. json_at [''programs'', n] t = Some p \<longleftrightarrow> ''program:'' @ n \<in> set (pi_order ini) \<and>
            (\<exists>sec. hm_get (pi_sections ini) (''program:'' @ n) = Some sec \<and> adapt_program ix dir n sec = Inr p)) \<and>
    (\<forall>n sec. ''program:'' @ n \<in> set (pi_order ini) \<longrightarrow> hm_get (pi_sections ini) (''program:'' @ n) = Some sec \<longrightarrow>
       (\<exists>p. adapt_program ix dir n sec = Inr p)) \<and>
    json_at [''server'', ''path_translation''] t = Some (JBool False) \<and>
    json_at [''server'', ''allow_unelevated''] t = Some (JBool True) \<and>
    json_at [''server'', ''ctl_defaults''] t = Some (JBool False)"
proof -
  obtain j where j: "keeps fixed_paths ini_root j" "try_fold (adapt_section ix dir ini) (pi_order ini) j = Inr t"
    using assms by (rule keeps_first_stages)
  then have o: "is_object j" and f: "json_at q j = json_at q ini_root" if "q \<in> fixed_paths" for q
    using that by (auto simp: keeps_def ini_root_def fixed_paths_def)
  have "json_at [''programs''] j = Some (JObj [])" using f [of "[''programs'']"] by (simp add: fixed_paths_def ini_root_def hm_get_Cons json_at.simps)
  then have m: "json_member ''programs'' j = JObj []" using json_at_member o [of "[''programs'']"] by (simp add: fixed_paths_def)
  then have pt: "program_tree j" using o [of "[''programs'']"] by (simp add: program_tree_def fixed_paths_def)
  have none: "json_at [''programs'', n] j = None" for n
    using \<open>json_at [''programs''] j = _\<close> by (auto simp: json_at.simps split: Json.splits option.splits)
  note all = adapt_sections_all [OF j(2) pt]
  have each: "if ''program:'' @ n \<in> set (pi_order ini) \<and> program_of ix dir ini n \<noteq> None
         then \<exists>p. program_of ix dir ini n = Some (Inr p) \<and> json_at [''programs'', n] t = Some p
         else json_at [''programs'', n] t = None" for n
    using all none [of n] by presburger
  have iff: "json_at [''programs'', n] t = Some p \<longleftrightarrow> ''program:'' @ n \<in> set (pi_order ini) \<and>
            (\<exists>sec. hm_get (pi_sections ini) (''program:'' @ n) = Some sec \<and> adapt_program ix dir n sec = Inr p)" for n p
    using each [of n] by (cases "hm_get (pi_sections ini) (''program:'' @ n)") (auto simp: program_of_def split: if_splits)
  have ex: "\<exists>p. adapt_program ix dir n sec = Inr p"
    if "''program:'' @ n \<in> set (pi_order ini)" "hm_get (pi_sections ini) (''program:'' @ n) = Some sec" for n sec
    using each [of n] that by (auto simp: program_of_def split: if_splits)
  have sq: "json_at q t = json_at q ini_root" if "q \<in> server_paths" for q
  proof -
    have "q \<in> fixed_paths" using that by (auto simp: server_paths_def fixed_paths_def)
    then show ?thesis using all that f [of q] by simp
  qed
  have r: "json_at [''server'', ''path_translation''] ini_root = Some (JBool False)"
    "json_at [''server'', ''allow_unelevated''] ini_root = Some (JBool True)"
    "json_at [''server'', ''ctl_defaults''] ini_root = Some (JBool False)"
    by (simp_all add: ini_root_def hm_get_Cons json_at.simps)
  have "json_at [''server'', ''path_translation''] t = Some (JBool False) \<and>
    json_at [''server'', ''allow_unelevated''] t = Some (JBool True) \<and>
    json_at [''server'', ''ctl_defaults''] t = Some (JBool False)"
    using sq [of "[''server'', ''path_translation'']"] sq [of "[''server'', ''allow_unelevated'']"]
      sq [of "[''server'', ''ctl_defaults'']"] by (simp add: server_paths_def r)
  then show ?thesis using iff ex by blast
qed

definition demo_ini :: ParsedIni where
  "demo_ini =
     \<lparr>pi_sections = [(''supervisord'', [(''logfile'', ''NONE'')]), (''program:web'', [(''command'', ''/bin/web'')])],
      pi_order = [''supervisord'', ''program:web'']\<rparr>"

lemma demo_tree: "adapt_ini_tree demo_env demo_ini None = Inr (JObj
   [(''server'', JObj [(''path_translation'', JBool False), (''allow_unelevated'', JBool True), (''ctl_defaults'', JBool False)]),
    (''programs'', JObj [(''web'', JObj [(''command'', JStr ''/bin/web'')])]), (''groups'', JObj []),
    (''event_listeners'', JObj []), (''program_defaults'', JObj []),
    (''logging'', JObj [(''enabled'', JBool False), (''file'', JNull)])])"
  by code_simp

theorem ini_tree_contents_witness:
  "adapt_program demo_env None ''web'' [(''command'', ''/bin/web'')] = Inr (JObj [(''command'', JStr ''/bin/web'')])"
proof -
  have at: "json_at [''programs'', ''web''] (JObj
     [(''server'', JObj [(''path_translation'', JBool False), (''allow_unelevated'', JBool True), (''ctl_defaults'', JBool False)]),
      (''programs'', JObj [(''web'', JObj [(''command'', JStr ''/bin/web'')])]), (''groups'', JObj []),
      (''event_listeners'', JObj []), (''program_defaults'', JObj []),
      (''logging'', JObj [(''enabled'', JBool False), (''file'', JNull)])]) = Some (JObj [(''command'', JStr ''/bin/web'')])"
    by code_simp
  have "hm_get (pi_sections demo_ini) (''program:'' @ ''web'') = Some [(''command'', ''/bin/web'')]" by code_simp
  then show ?thesis using ini_tree_contents [OF demo_tree] at by auto
qed

text \<open>
  A program that sets any other log setting gets its own log mode with it: a default of memory logs
  for all programs is lost.
\<close>

lemma memory_default_lost:
  "adapt_ini_tree demo_env
     \<lparr>pi_sections = [(''program-default'', [(''stdout_logfile'', ''memory'')]),
                    (''program:web'', [(''command'', ''web''), (''redirect_stderr'', ''true'')])],
      pi_order = [''program-default'', ''program:web'']\<rparr> None = Inr t \<Longrightarrow>
   json_at [''program_defaults'', ''logs'', ''enabled''] t = Some (JStr ''in_memory_only'') \<and>
   json_at [''programs'', ''web'', ''logs'', ''enabled''] t = Some (JBool True)"
proof -
  assume a: "adapt_ini_tree demo_env
     \<lparr>pi_sections = [(''program-default'', [(''stdout_logfile'', ''memory'')]),
                    (''program:web'', [(''command'', ''web''), (''redirect_stderr'', ''true'')])],
      pi_order = [''program-default'', ''program:web'']\<rparr> None = Inr t"
  have "map_sum id (\<lambda>t. (json_at [''program_defaults'', ''logs'', ''enabled''] t,
      json_at [''programs'', ''web'', ''logs'', ''enabled''] t)) (adapt_ini_tree demo_env
     \<lparr>pi_sections = [(''program-default'', [(''stdout_logfile'', ''memory'')]),
                    (''program:web'', [(''command'', ''web''), (''redirect_stderr'', ''true'')])],
      pi_order = [''program-default'', ''program:web'']\<rparr> None) =
    Inr (Some (JStr ''in_memory_only''), Some (JBool True))"
    by code_simp
  then show ?thesis by (simp add: a)
qed

end
