(* ===== verification/Config_Transform.thy ===== *)
theory Config_Transform
  imports Json_Values Expression Rust_Path
begin

text \<open>
  The boundary at which paths are translated (\<open>src/src/config/transform.rs\<close>): a walk over the tree
  of the typed configuration that expands the macros of every text and makes the settings that are
  paths absolute.

  The splitting of a command line is the argument \<open>split\<close> (on Unix a library of the shell's words).
  Only the branch for Unix of \<open>absolutize\<close> is modelled.
\<close>

section \<open>Classification\<close>

record Ctx =
  cx_config_dir :: "string option"
  cx_path_translation :: bool

datatype Kind = PathKind | CommandKind | DefaultKind

datatype Section =
    SecRoot
  | SecServer
  | SecLogging
  | SecProgramDefaults
  | SecProgramsMap
  | SecEventListenersMap
  | SecProgram
  | SecEventListener
  | SecOther

definition descend :: "Section \<Rightarrow> bool \<Rightarrow> string \<Rightarrow> Section \<times> bool" where
  "descend sec in_logs key =
     (case sec of
        SecRoot \<Rightarrow>
          (if key = ''server'' then SecServer
           else if key = ''logging'' then SecLogging
           else if key = ''program_defaults'' then SecProgramDefaults
           else if key = ''programs'' then SecProgramsMap
           else if key = ''event_listeners'' then SecEventListenersMap
           else SecOther, False)
      | SecProgramsMap \<Rightarrow> (SecProgram, False)
      | SecEventListenersMap \<Rightarrow> (SecEventListener, False)
      | SecServer \<Rightarrow> (sec, in_logs)
      | SecLogging \<Rightarrow> (sec, in_logs)
      | SecOther \<Rightarrow> (sec, in_logs)
      | _ \<Rightarrow>
          if key = ''logs'' then (SecProgram, True)
          else if key = ''environment'' then (SecOther, False)
          else (sec, in_logs))"

definition program_kind :: "string \<Rightarrow> Kind" where
  "program_kind key =
     (if key \<in> {''directory'', ''restart_directory_monitor'', ''env_files''} then PathKind
      else if key = ''command'' then CommandKind else DefaultKind)"

definition classify :: "Section \<Rightarrow> bool \<Rightarrow> string \<Rightarrow> Kind" where
  "classify sec in_logs key =
     (case sec of
        SecServer \<Rightarrow> if key = ''uds_path'' then PathKind else DefaultKind
      | SecLogging \<Rightarrow> if key = ''file'' then PathKind else DefaultKind
      | SecRoot \<Rightarrow> if key = ''pidfile'' then PathKind else DefaultKind
      | SecProgram \<Rightarrow>
          if in_logs then (if key = ''stdout'' \<or> key = ''stderr'' then PathKind else DefaultKind)
          else program_kind key
      | SecProgramDefaults \<Rightarrow>
          if in_logs then (if key = ''stdout'' \<or> key = ''stderr'' then PathKind else DefaultKind)
          else program_kind key
      | SecEventListener \<Rightarrow>
          if key \<in> {''directory'', ''stdout_logfile'', ''stderr_logfile'', ''env_files''} then PathKind
          else if key = ''command'' then CommandKind else DefaultKind
      | SecOther \<Rightarrow> if key = ''pidfile'' then PathKind else DefaultKind
      | _ \<Rightarrow> DefaultKind)"

section \<open>Texts\<close>

definition is_ascii_alphabetic :: "char \<Rightarrow> bool" where
  "is_ascii_alphabetic c \<longleftrightarrow> byte_in 65 90 c \<or> byte_in 97 122 c"

definition is_abs_like :: "string \<Rightarrow> bool" where
  "is_abs_like b \<longleftrightarrow>
     b \<noteq> [] \<and> (hd b = CHR ''/'' \<or> strip_prefix [CHR 0x5C, CHR 0x5C] b \<noteq> None \<or>
       (3 \<le> length b \<and> is_ascii_alphabetic (b ! 0) \<and> b ! 1 = CHR '':'' \<and> (b ! 2 = CHR ''/'' \<or> b ! 2 = CHR 0x5C)))"

definition absolutize :: "string option \<Rightarrow> string \<Rightarrow> string" where
  "absolutize config_dir value =
     (let trimmed = trim value
      in if trimmed = [] then value
         else if eq_ignore_case trimmed ''AUTO'' \<or> eq_ignore_case trimmed ''NONE'' then value
         else if is_abs_like trimmed then value
         else lexical_norm_path (path_join (unwrap_or config_dir ''.'') value))"

definition double_quote :: char where "double_quote = CHR 0x22"
definition backslash :: char where "backslash = CHR 0x5C"

definition quote_token_if_needed :: "string \<Rightarrow> string" where
  "quote_token_if_needed token =
     (if token = [] then [double_quote, double_quote]
      else if CHR '' '' \<in> set token \<or> CHR 0x09 \<in> set token \<or> double_quote \<in> set token
      then [double_quote] @ str_replace [double_quote] [backslash, double_quote] token @ [double_quote]
      else token)"

definition join_command_tokens :: "string list \<Rightarrow> string" where
  "join_command_tokens tokens = join_with '' '' (map quote_token_if_needed tokens)"

definition translate_command :: "(string \<Rightarrow> string + string list) \<Rightarrow> string option \<Rightarrow> string \<Rightarrow> string" where
  "translate_command split config_dir cmd_str =
     (case split cmd_str of
        Inr (first # rest) \<Rightarrow>
          if CHR ''/'' \<in> set first \<or> backslash \<in> set first
          then join_command_tokens (absolutize config_dir first # rest)
          else cmd_str
      | _ \<Rightarrow> cmd_str)"

text \<open>\<open>expand\<close> stands for the macro expander and the expression context the walk hands on.\<close>

definition translate_string ::
  "(string \<Rightarrow> string + string list) \<Rightarrow> Ctx \<Rightarrow> (string \<Rightarrow> string) \<Rightarrow> Kind \<Rightarrow> string \<Rightarrow> string" where
  "translate_string split ctx expand kind s =
     (let expanded = expand s
      in if kind = PathKind \<and> cx_path_translation ctx then absolutize (cx_config_dir ctx) expanded
         else if kind = CommandKind \<and> cx_path_translation ctx
         then translate_command split (cx_config_dir ctx) expanded
         else expanded)"

section \<open>The walk\<close>

text \<open>\<open>tr\<close> is \<open>translate_string\<close>, with what the walk hands on unchanged.\<close>

declare Json.case_cong [fundef_cong]

lemma size_item: "x \<in> set arr \<Longrightarrow> size x < size (JArr arr)"
  by (induction arr) auto

lemma size_entry: "(k, v) \<in> set m \<Longrightarrow> size v < size (JObj m)"
  by (induction m) auto

lemma size_nested: "(k, JArr arr) \<in> set m \<Longrightarrow> x \<in> set arr \<Longrightarrow> Suc (2 * size x) < 2 * size (JObj m)"
  using size_entry [of k "JArr arr" m] size_item [of x arr] by linarith

function walk_object :: "(Kind \<Rightarrow> string \<Rightarrow> string) \<Rightarrow> Section \<Rightarrow> bool \<Rightarrow> Json \<Rightarrow> Json"
  and walk_scalar_or_container :: "(Kind \<Rightarrow> string \<Rightarrow> string) \<Rightarrow> Json \<Rightarrow> Json" where
  "walk_object tr sec in_logs j =
     (case j of
        JObj m \<Rightarrow> JObj (map (\<lambda>(k, v). (k,
          case v of
            JObj _ \<Rightarrow> (case descend sec in_logs k of (sec', in_logs') \<Rightarrow> walk_object tr sec' in_logs' v)
          | JArr arr \<Rightarrow> JArr (map (\<lambda>item.
              case item of
                JStr s \<Rightarrow> if classify sec in_logs k = PathKind then JStr (tr PathKind s)
                          else walk_scalar_or_container tr item
              | _ \<Rightarrow> walk_scalar_or_container tr item) arr)
          | JStr s \<Rightarrow> JStr (tr (classify sec in_logs k) s)
          | _ \<Rightarrow> v)) m)
      | _ \<Rightarrow> j)"
| "walk_scalar_or_container tr j =
     (case j of
        JObj _ \<Rightarrow> walk_object tr SecOther False j
      | JArr arr \<Rightarrow> JArr (map (walk_scalar_or_container tr) arr)
      | JStr s \<Rightarrow> JStr (tr DefaultKind s)
      | _ \<Rightarrow> j)"
  by pat_completeness auto
termination
  by (relation "measure (\<lambda>x. case x of Inl (tr, s, l, j) \<Rightarrow> 2 * size j | Inr (tr, j) \<Rightarrow> Suc (2 * size j))")
    (auto simp del: Json.size dest: size_item size_entry size_nested)

declare walk_object.simps [simp del] walk_scalar_or_container.simps [simp del]

definition expression_context :: "string hmap \<Rightarrow> string \<Rightarrow> Ctx \<Rightarrow> variables" where
  "expression_context vars hostname ctx =
     (case cx_config_dir ctx of
        Some dir \<Rightarrow> with_config_dir vars hostname dir
      | None \<Rightarrow> with_defaults vars hostname)"

definition transform ::
  "(string \<Rightarrow> string + string list) \<Rightarrow> string hmap \<Rightarrow> string \<Rightarrow> Ctx \<Rightarrow> Json \<Rightarrow> Json" where
  "transform split vars hostname ctx value =
     walk_object
       (translate_string split ctx (expand_value_with_expr vars (expression_context vars hostname ctx)))
       SecRoot False value"

section \<open>Command lines of Windows\<close>

text \<open>\<open>current\<close> is the argument that is being collected.\<close>

function win_split :: "bool \<Rightarrow> string \<Rightarrow> string \<Rightarrow> string list" where
  "win_split in_quotes current [] = (if current \<noteq> [] then [current] else [])"
| "win_split in_quotes current (c # cs) =
     (if (c = CHR '' '' \<or> c = CHR 0x09) \<and> \<not> in_quotes
      then (if current \<noteq> [] then [current] else []) @ win_split in_quotes [] cs
      else if c = double_quote then win_split (\<not> in_quotes) current cs
      else if c = backslash
      then (let slash_count = Suc (length (takeWhile (\<lambda>x. x = backslash) cs));
                rest = dropWhile (\<lambda>x. x = backslash) cs
            in if rest \<noteq> [] \<and> hd rest = double_quote
               then (let current = current @ replicate (slash_count div 2) backslash
                     in if odd slash_count then win_split in_quotes (current @ [double_quote]) (tl rest)
                        else win_split (\<not> in_quotes) current (tl rest))
               else win_split in_quotes (current @ replicate slash_count backslash) rest)
      else win_split in_quotes (current @ [c]) cs)"
  by pat_completeness auto
termination
proof (relation "measure (\<lambda>(q, current, s). length s)", goal_cases)
  case 1 show ?case by simp
qed (auto simp: less_Suc_eq_le intro: order_trans [OF diff_le_self length_dropWhile_le] length_dropWhile_le)

declare win_split.simps(2) [simp del]

definition split_command_line :: "string \<Rightarrow> string + string list" where
  "split_command_line cmd = Inr (win_split False [] cmd)"

section \<open>Joined arguments are split again\<close>

definition has_blank :: "string \<Rightarrow> bool" where
  "has_blank t \<longleftrightarrow> CHR '' '' \<in> set t \<or> CHR 0x09 \<in> set t"

lemma char_neq [simp]: "double_quote \<noteq> backslash" "backslash \<noteq> double_quote"
  "double_quote \<noteq> CHR '' ''" "backslash \<noteq> CHR '' ''" "double_quote \<noteq> CHR 0x09" "backslash \<noteq> CHR 0x09"
  "CHR '' '' \<noteq> double_quote" "CHR '' '' \<noteq> backslash"
  by (simp_all add: double_quote_def backslash_def)

lemma slash_run:
  obtains n t' where "t = replicate n backslash @ t'" "t' = [] \<or> hd t' \<noteq> backslash"
proof -
  let ?run = "takeWhile (\<lambda>x. x = backslash) t" and ?rest = "dropWhile (\<lambda>x. x = backslash) t"
  have "\<forall>y \<in> set ?run. y = backslash" by (auto dest: set_takeWhileD)
  then have "replicate (length ?run) backslash = ?run" by (rule replicate_length_same)
  then have "t = replicate (length ?run) backslash @ ?rest" by simp
  moreover have "?rest = [] \<or> hd ?rest \<noteq> backslash" using hd_dropWhile [of "\<lambda>x. x = backslash" t] by blast
  ultimately show ?thesis by (rule that)
qed

lemma win_split_char:
  assumes "c \<noteq> backslash" and "c \<noteq> double_quote" and "\<not> ((c = CHR '' '' \<or> c = CHR 0x09) \<and> \<not> q)"
  shows "win_split q current (c # cs) = win_split q (current @ [c]) cs"
  unfolding win_split.simps(2) [of q current c cs] using assms by (simp only: if_False simp_thms)

text \<open>A run of backslashes that no quote follows is kept.\<close>

lemma win_split_slashes:
  assumes "rest = [] \<or> (hd rest \<noteq> backslash \<and> hd rest \<noteq> double_quote)"
  shows "win_split q current (replicate n backslash @ rest) = win_split q (current @ replicate n backslash) rest"
proof (cases n)
  case (Suc m)
  have "takeWhile (\<lambda>x. x = backslash) (replicate m backslash @ rest) = replicate m backslash"
    "dropWhile (\<lambda>x. x = backslash) (replicate m backslash @ rest) = rest"
    using assms by (cases rest; simp add: takeWhile_append dropWhile_append)+
  then show ?thesis using assms Suc by (auto simp: win_split.simps(2) Let_def)
qed simp

lemma win_split_plain:
  assumes "double_quote \<notin> set t" and "q \<or> \<not> has_blank t"
    and "rest = [] \<or> (hd rest \<noteq> backslash \<and> hd rest \<noteq> double_quote)"
  shows "win_split q current (t @ rest) = win_split q (current @ t) rest"
  using assms(1,2)
proof (induction "length t" arbitrary: t current rule: less_induct)
  case less
  obtain n t' where t: "t = replicate n backslash @ t'" "t' = [] \<or> hd t' \<noteq> backslash" by (rule slash_run)
  show ?case
  proof (cases t')
    case Nil
    then show ?thesis using t win_split_slashes [OF assms(3)] by simp
  next
    case (Cons c t'')
    have c: "c \<noteq> backslash" "c \<noteq> double_quote" "\<not> ((c = CHR '' '' \<or> c = CHR 0x09) \<and> \<not> q)"
      using Cons t less.prems by (auto simp: has_blank_def)
    have "win_split q current (t @ rest) = win_split q (current @ replicate n backslash) (c # t'' @ rest)"
      using win_split_slashes [of "c # t'' @ rest" q current n] c t Cons by simp
    also have "\<dots> = win_split q (current @ replicate n backslash @ [c]) (t'' @ rest)"
      using win_split_char [OF c] by simp
    also have "\<dots> = win_split q (current @ t) rest"
      using less.hyps [of t'' "current @ replicate n backslash @ [c]"] less.prems t Cons by (auto simp: has_blank_def)
    finally show ?thesis .
  qed
qed

text \<open>A text in quotes must not have a backslash before a quote or at its end.\<close>

fun slash_ok :: "string \<Rightarrow> bool" where
  "slash_ok [] = True"
| "slash_ok (c # t) = ((c = backslash \<longrightarrow> t \<noteq> [] \<and> hd t \<noteq> double_quote) \<and> slash_ok t)"

definition escape_quotes :: "string \<Rightarrow> string" where
  "escape_quotes t = str_replace [double_quote] [backslash, double_quote] t"

lemma escape_quotes_simps [simp]:
  "escape_quotes [] = []"
  "escape_quotes (c # t) = (if c = double_quote then [backslash, double_quote] else [c]) @ escape_quotes t"
  by (simp_all add: escape_quotes_def)

lemma escape_quotes_slashes [simp]:
  "escape_quotes (replicate n backslash @ t) = replicate n backslash @ escape_quotes t"
  by (induction n) simp_all

lemma slash_ok_run: "slash_ok (replicate n backslash @ t) \<Longrightarrow> 0 < n \<Longrightarrow> t \<noteq> [] \<and> hd t \<noteq> double_quote"
proof (induction n)
  case (Suc n)
  then show ?case by (cases n) simp_all
qed simp

lemma slash_ok_drop: "slash_ok (u @ t) \<Longrightarrow> slash_ok t"
  by (induction u) simp_all

lemma win_split_quoted:
  assumes "slash_ok t"
  shows "win_split True current (escape_quotes t @ double_quote # rest) = win_split False (current @ t) rest"
  using assms
proof (induction "length t" arbitrary: t current rule: less_induct)
  case less
  obtain n t' where t: "t = replicate n backslash @ t'" "t' = [] \<or> hd t' \<noteq> backslash" by (rule slash_run)
  show ?case
  proof (cases t')
    case Nil
    then have "n = 0" using slash_ok_run [of n t'] less.prems t by auto
    then show ?thesis using t Nil by (simp add: win_split.simps(2))
  next
    case (Cons c t'')
    have ok: "slash_ok t''" using less.prems slash_ok_drop [of "replicate n backslash @ [c]" t''] t Cons by simp
    note IH = less.hyps [of t'' "current @ replicate n backslash @ [c]", OF _ ok]
    show ?thesis
    proof (cases "c = double_quote")
      case True
      then have "n = 0" using slash_ok_run [of n t'] less.prems t Cons by auto
      then show ?thesis using t Cons True IH by (simp add: win_split.simps(2) [of True current backslash] Let_def)
    next
      case False
      then have "win_split True current (escape_quotes t @ double_quote # rest) =
          win_split True (current @ replicate n backslash) (c # escape_quotes t'' @ double_quote # rest)"
        using win_split_slashes [of "c # escape_quotes t'' @ double_quote # rest" True current n] t Cons by simp
      also have "\<dots> = win_split True (current @ replicate n backslash @ [c]) (escape_quotes t'' @ double_quote # rest)"
        using False t(2) Cons by (simp add: win_split_char)
      finally show ?thesis using IH t Cons by simp
    qed
  qed
qed

definition token_ok :: "string \<Rightarrow> bool" where
  "token_ok t \<longleftrightarrow> t \<noteq> [] \<and> (has_blank t \<or> double_quote \<in> set t \<longrightarrow> slash_ok t)"

lemma win_split_token:
  assumes "token_ok t" and "rest = [] \<or> hd rest = CHR '' ''"
  shows "win_split False [] (quote_token_if_needed t @ rest) = win_split False t rest"
proof (cases "has_blank t \<or> double_quote \<in> set t")
  case True
  then have "quote_token_if_needed t = double_quote # escape_quotes t @ [double_quote]"
    using assms(1) by (auto simp: quote_token_if_needed_def token_ok_def has_blank_def escape_quotes_def)
  then show ?thesis
    using win_split_quoted [of t "[]" rest] True assms(1) by (simp add: token_ok_def win_split.simps(2) [of False])
next
  case False
  then have "quote_token_if_needed t = t"
    using assms(1) by (simp add: quote_token_if_needed_def token_ok_def has_blank_def)
  then show ?thesis using win_split_plain [of t False rest "[]"] False assms(2) by auto
qed

text \<open>
  On Windows, the arguments that are joined to a command line after the translation of its
  program are split into the same arguments again, quotes and blanks included, unless an argument
  is empty or has to be quoted and has a backslash before a quote or at its end.
\<close>

theorem windows_command_roundtrip:
  assumes "list_all token_ok tokens"
  shows "split_command_line (join_command_tokens tokens) = Inr tokens"
proof -
  have "win_split False [] (join_command_tokens tokens) = tokens"
    using assms
  proof (induction tokens)
    case Nil
    then show ?case by (simp add: join_command_tokens_def)
  next
    case (Cons t ts)
    have t: "token_ok t" "t \<noteq> []" using Cons.prems by (simp_all add: token_ok_def)
    show ?case
    proof (cases "ts = []")
      case True
      then show ?thesis using win_split_token [OF t(1), of "[]"] t(2) by (simp add: join_command_tokens_def)
    next
      case False
      then have "join_command_tokens (t # ts) = quote_token_if_needed t @ CHR '' '' # join_command_tokens ts"
        by (cases ts) (simp_all add: join_command_tokens_def)
      then show ?thesis
        using win_split_token [OF t(1), of "CHR '' '' # join_command_tokens ts"] Cons t(2)
        by (simp add: win_split.simps(2))
    qed
  qed
  then show ?thesis by (simp add: split_command_line_def)
qed

theorem windows_command_roundtrip_witness:
  "split_command_line (join_command_tokens [''C:/My Tools/app.exe'', ''--name'', [CHR 0x22, CHR ''x'', CHR 0x22]]) =
     Inr [''C:/My Tools/app.exe'', ''--name'', [CHR 0x22, CHR ''x'', CHR 0x22]]"
  by (rule windows_command_roundtrip) code_simp

text \<open>The exceptions: an empty argument is lost, and a final backslash escapes the closing quote.\<close>

lemma joined_arguments_lost:
  "split_command_line (join_command_tokens [''run'', [], ''x'']) = Inr [''run'', ''x'']"
  "split_command_line (join_command_tokens [''run'', ''a b'' @ [backslash], ''x'']) =
     Inr [''run'', ''a b'' @ [double_quote] @ '' x'']"
  by code_simp+

section \<open>Paths become absolute\<close>

lemma norm_keeps_root:
  "\<exists>us. st = us @ [RootDir] \<Longrightarrow> \<exists>us. snd (foldl norm_step (r, st) cs) = us @ [RootDir]"
proof (induction cs arbitrary: r st)
  case (Cons c cs)
  obtain us where us: "st = us @ [RootDir]" using Cons.prems by blast
  have "\<exists>us'. snd (norm_step (r, st) c) = us' @ [RootDir]"
    unfolding us by (cases us) (auto simp: norm_step_def split: Component.splits)
  then obtain r' st' where "norm_step (r, st) c = (r', st')" "\<exists>us'. st' = us' @ [RootDir]"
    by (cases "norm_step (r, st) c") auto
  then show ?case using Cons.IH [of st' r'] by simp
qed simp

lemma norm_absolute:
  assumes "is_absolute p" shows "is_absolute (lexical_norm_path p)"
proof -
  obtain cs where "components p = RootDir # cs" using assms by (auto simp: components_def is_absolute_def Let_def)
  moreover have "snd (foldl norm_step (False, []) (RootDir # cs)) = snd (foldl norm_step (True, [RootDir]) cs)"
    by (simp add: norm_step_def)
  moreover obtain us where "snd (foldl norm_step (True, [RootDir]) cs) = us @ [RootDir]"
    using norm_keeps_root [of "[RootDir]" True cs] by auto
  ultimately have "norm_components (components p) = RootDir # rev us"
    by (simp add: norm_components_def)
  then show ?thesis using assms by (auto simp: lexical_norm_path_def is_absolute_def)
qed

lemma trim_first:
  assumes "s \<noteq> []" and "\<not> is_ascii_space (hd s)" shows "trim s \<noteq> []" "hd (trim s) = hd s"
proof -
  obtain c cs where s: "s = c # cs" using assms(1) by (cases s) auto
  then have c: "\<not> is_ascii_space c" using assms(2) by simp
  then have "dropWhile is_ascii_space s = s" using s by simp
  moreover have "dropWhile is_ascii_space (ds @ [c]) = dropWhile is_ascii_space ds @ [c]" for ds
    using c by (induction ds) auto
  ultimately have "trim s = c # rev (dropWhile is_ascii_space (rev cs))" using s by (simp add: trim_def)
  then show "trim s \<noteq> []" "hd (trim s) = hd s" using s by simp_all
qed

text \<open>A text that the translation leaves alone: blank, a sentinel, or absolute in some system.\<close>

definition settled :: "string \<Rightarrow> bool" where
  "settled s \<longleftrightarrow> trim s = [] \<or> eq_ignore_case (trim s) ''AUTO'' \<or> eq_ignore_case (trim s) ''NONE'' \<or> is_abs_like (trim s)"

lemma absolutize_settled_id: "settled s \<Longrightarrow> absolutize dir s = s"
  by (auto simp: settled_def absolutize_def Let_def)

lemma is_absolute_settled: "is_absolute p \<Longrightarrow> settled p"
proof -
  assume "is_absolute p"
  then have p: "p \<noteq> []" "hd p = CHR ''/''" by (simp_all add: is_absolute_def)
  then have "trim p \<noteq> []" "hd (trim p) = CHR ''/''" using trim_first [of p] by (simp_all add: is_ascii_space_def)
  then show "settled p" by (simp add: settled_def is_abs_like_def)
qed

lemma absolutize_settles: "is_absolute dir \<Longrightarrow> settled (absolutize (Some dir) s)"
proof (cases "settled s")
  case False
  assume dir: "is_absolute dir"
  have "is_absolute (path_join dir s)" using dir by (auto simp: path_join_def is_absolute_def)
  moreover have "absolutize (Some dir) s = lexical_norm_path (path_join dir s)"
    using False by (auto simp: settled_def absolutize_def Let_def unwrap_or_def)
  ultimately show ?thesis using is_absolute_settled norm_absolute by simp
qed (simp add: absolutize_settled_id)

text \<open>The texts at the path settings of a tree.\<close>

inductive path_setting :: "Section \<Rightarrow> bool \<Rightarrow> Json \<Rightarrow> string \<Rightarrow> bool" and inner_setting :: "Json \<Rightarrow> string \<Rightarrow> bool" where
  "(k, JStr s) \<in> set m \<Longrightarrow> classify sec logs k = PathKind \<Longrightarrow> path_setting sec logs (JObj m) s"
| "(k, JArr arr) \<in> set m \<Longrightarrow> classify sec logs k = PathKind \<Longrightarrow> JStr s \<in> set arr \<Longrightarrow> path_setting sec logs (JObj m) s"
| "(k, JArr arr) \<in> set m \<Longrightarrow> v \<in> set arr \<Longrightarrow> inner_setting v s \<Longrightarrow> path_setting sec logs (JObj m) s"
| "(k, JObj m') \<in> set m \<Longrightarrow> descend sec logs k = (sec', logs') \<Longrightarrow> path_setting sec' logs' (JObj m') s \<Longrightarrow>
     path_setting sec logs (JObj m) s"
| "path_setting SecOther False (JObj m) s \<Longrightarrow> inner_setting (JObj m) s"
| "v \<in> set arr \<Longrightarrow> inner_setting v s \<Longrightarrow> inner_setting (JArr arr) s"

definition walk_entry :: "(Kind \<Rightarrow> string \<Rightarrow> string) \<Rightarrow> Section \<Rightarrow> bool \<Rightarrow> string \<Rightarrow> Json \<Rightarrow> Json" where
  "walk_entry tr sec in_logs k v =
     (case v of
        JObj _ \<Rightarrow> (case descend sec in_logs k of (sec', in_logs') \<Rightarrow> walk_object tr sec' in_logs' v)
      | JArr arr \<Rightarrow> JArr (map (\<lambda>item.
          case item of
            JStr s \<Rightarrow> if classify sec in_logs k = PathKind then JStr (tr PathKind s)
                      else walk_scalar_or_container tr item
          | _ \<Rightarrow> walk_scalar_or_container tr item) arr)
      | JStr s \<Rightarrow> JStr (tr (classify sec in_logs k) s)
      | _ \<Rightarrow> v)"

lemma walk_object_simps:
  "walk_object tr sec in_logs (JObj m) = JObj (map (\<lambda>(k, v). (k, walk_entry tr sec in_logs k v)) m)"
  "walk_scalar_or_container tr (JObj m) = walk_object tr SecOther False (JObj m)"
  "walk_scalar_or_container tr (JArr arr) = JArr (map (walk_scalar_or_container tr) arr)"
  "walk_scalar_or_container tr (JStr s) = JStr (tr DefaultKind s)"
  by (subst walk_object.simps walk_scalar_or_container.simps; simp add: walk_entry_def [abs_def])+

lemma walk_leaf:
  "walk_object tr sec in_logs j = j" if "\<nexists>m. j = JObj m"
  using that by (subst walk_object.simps) (cases j; simp)

lemma walk_scalar_leaf:
  "walk_scalar_or_container tr j = j" if "\<nexists>m. j = JObj m" "\<nexists>arr. j = JArr arr" "\<nexists>s. j = JStr s"
  using that by (subst walk_scalar_or_container.simps) (cases j; simp)

lemma walk_object_kind [simp]:
  "walk_object tr sec in_logs (JObj m) \<noteq> JStr s" "walk_object tr sec in_logs (JObj m) \<noteq> JArr arr"
  by (simp_all add: walk_object_simps)

text \<open>What an entry of the walked tree comes from.\<close>

lemma walk_scalar_shape:
  "walk_scalar_or_container tr v = JObj m' \<longleftrightarrow> (\<exists>m. v = JObj m \<and> walk_object tr SecOther False v = JObj m')"
  "walk_scalar_or_container tr v = JArr arr' \<longleftrightarrow> (\<exists>arr. v = JArr arr \<and> arr' = map (walk_scalar_or_container tr) arr)"
  by (cases v; auto simp: walk_object_simps walk_scalar_leaf)+

lemma walk_entry_shape:
  "walk_entry tr sec l k v = JStr s \<longleftrightarrow> (\<exists>s0. v = JStr s0 \<and> s = tr (classify sec l k) s0)"
  "walk_entry tr sec l k v = JObj m' \<longleftrightarrow>
     (\<exists>m. v = JObj m \<and> walk_object tr (fst (descend sec l k)) (snd (descend sec l k)) v = JObj m')"
  by (cases v; auto simp: walk_entry_def split_beta)+

lemma walk_entry_array:
  assumes "walk_entry tr sec l k v = JArr arr'" and "x \<in> set arr'"
  obtains (path) s where "x = JStr (tr PathKind s)" "classify sec l k = PathKind"
  | (inner) v0 where "x = walk_scalar_or_container tr v0"
      "\<And>s. x = JStr s \<Longrightarrow> classify sec l k \<noteq> PathKind"
proof -
  obtain arr where "v = JArr arr" using assms(1)
    by (cases v) (auto simp: walk_entry_def split_beta)
  then obtain item where item: "x = (case item of
          JStr s \<Rightarrow> if classify sec l k = PathKind then JStr (tr PathKind s)
                    else walk_scalar_or_container tr item
        | _ \<Rightarrow> walk_scalar_or_container tr item)"
    using assms by (auto simp: walk_entry_def)
  show thesis
  proof (cases "\<exists>s. item = JStr s \<and> classify sec l k = PathKind")
    case True
    then show thesis using item path by auto
  next
    case False
    then have "x = walk_scalar_or_container tr item" using item by (auto split: Json.splits)
    moreover have "classify sec l k \<noteq> PathKind" if "x = JStr s" for s
      using False that calculation by (cases item) (auto simp: walk_object_simps walk_scalar_leaf)
    ultimately show thesis using inner by blast
  qed
qed

lemma walk_object_inv: "walk_object tr sec l j = JObj m' \<Longrightarrow>
    \<exists>m. j = JObj m \<and> m' = map (\<lambda>(k, v). (k, walk_entry tr sec l k v)) m"
  by (cases j) (simp_all add: walk_object_simps walk_leaf)

lemma walk_settles:
  assumes settles: "\<And>s. settled (tr PathKind s)"
  shows "path_setting sec l j' s \<Longrightarrow> (\<And>j. j' = walk_object tr sec l j \<Longrightarrow> settled s)"
    and "inner_setting j' s \<Longrightarrow> (\<And>j. j' = walk_scalar_or_container tr j \<Longrightarrow> settled s)"
proof (induction rule: path_setting_inner_setting.inducts)
  case (1 k s m' sec l)
  then obtain v where "JStr s = walk_entry tr sec l k v" using walk_object_inv [OF 1(3) [symmetric]] by auto
  then have "walk_entry tr sec l k v = JStr s" by simp
  then show ?case using 1(2) settles by (auto simp: walk_entry_shape)
next
  case (2 k arr m' sec l s)
  then obtain v where v: "walk_entry tr sec l k v = JArr arr" using walk_object_inv [OF 2(4) [symmetric]] by auto
  show ?case
    using v \<open>JStr s \<in> set arr\<close>
  proof (cases rule: walk_entry_array)
    case (path t)
    then show ?thesis using settles by simp
  next
    case (inner w)
    then show ?thesis using 2(2) by blast
  qed
next
  case (3 k arr m' v s sec l)
  then obtain v0 where v0: "walk_entry tr sec l k v0 = JArr arr" using walk_object_inv [OF 3(5) [symmetric]] by auto
  show ?case using v0 3(2)
  proof (cases rule: walk_entry_array)
    case (path t)
    then show ?thesis using 3(3) by (auto elim: inner_setting.cases)
  next
    case (inner w)
    then show ?thesis using 3(4) by blast
  qed
next
  case (4 k m'' m' sec l sec' l' s)
  then obtain v where "walk_entry tr sec l k v = JObj m''" using walk_object_inv [OF 4(5) [symmetric]] by auto
  then have w: "walk_object tr sec' l' v = JObj m''" using 4(2) by (auto simp: walk_entry_shape)
  show ?case by (rule 4(4) [OF w [symmetric]])
next
  case (5 m s)
  then show ?case by (metis walk_scalar_shape(1))
next
  case (6 v arr s)
  then show ?case by (metis (no_types, lifting) walk_scalar_shape(2) imageE list.set_map)
qed


lemma demo_transform:
  "transform split_command_line [] ''host'' \<lparr>cx_config_dir = Some ''/etc/sup'', cx_path_translation = True\<rparr>
     (JObj [(''programs'', JObj [(''web'', JObj [(''command'', JStr ''bin/web -p 80''),
        (''logs'', JObj [(''stdout'', JStr ''../web.log'')])])])]) =
   JObj [(''programs'', JObj [(''web'', JObj [(''command'', JStr ''/etc/sup/bin/web -p 80''),
        (''logs'', JObj [(''stdout'', JStr ''/etc/web.log'')])])])]"
  by code_simp


lemma absolutize_idem: "is_absolute dir \<Longrightarrow> absolutize d (absolutize (Some dir) s) = absolutize (Some dir) s"
  by (simp add: absolutize_settled_id absolutize_settles)

text \<open>
  The log settings of a program are classified as paths, but they are destinations: with path
  translation only the two sentinels survive, the other destinations become files.
\<close>

lemma destinations_become_files:
  "map (absolutize (Some ''/etc/sup'')) [''NONE'', ''syslog'', ''off'', ''memory'', ''web.log,syslog''] =
     [''NONE'', ''/etc/sup/syslog'', ''/etc/sup/off'', ''/etc/sup/memory'', ''/etc/sup/web.log,syslog'']"
  by code_simp

text \<open>
  Arguments with quotes of the shell are joined without them: the command line then has an
  unmatched quote.
\<close>

lemma shell_quotes_lost:
  assumes "split cmd = Inr [''./run'', ''it'' @ [CHR 0x27] @ ''s'']"
  shows "translate_command split (Some ''/srv'') cmd = ''/srv/run it'' @ [CHR 0x27] @ ''s''"
proof -
  have "join_command_tokens [absolutize (Some ''/srv'') ''./run'', ''it'' @ [CHR 0x27] @ ''s''] = ''/srv/run it'' @ [CHR 0x27] @ ''s''"
    by code_simp
  then show ?thesis by (simp add: translate_command_def assms)
qed

end
