(* ===== verification/Log_Pump.thy ===== *)
theory Log_Pump
  imports Memory_Logs Event_Hub Log_Destination "HOL-Library.Sublist"
begin

text \<open>
  The path of a line of output: the pump that reads a stream of a program and feeds the line buffer,
  the event hub and the backend (\<open>src/src/logging/pump.rs\<close>), the backend that fans out to several
  others (\<open>src/src/logging/composite.rs\<close>), the syslog packets (\<open>src/src/logging/syslog/encoder.rs\<close>)
  and the syslog backend (\<open>src/src/logging/syslog/backend.rs\<close>).

  A stream is the list of the bytes and failures that a reader meets; its end is the end of the file.
\<close>

section \<open>Reading\<close>

definition MAX_PUMP_CHUNK_SIZE :: nat where "MAX_PUMP_CHUNK_SIZE = 1024 * 1024"

datatype StreamItem = Byte char | Interrupted | ReadFailed

datatype ReadOutcome = Got bytes | WasInterrupted | Broke

text \<open>\<open>take(n).read_until(newline)\<close>.\<close>

fun read_until :: "nat \<Rightarrow> bytes \<Rightarrow> StreamItem list \<Rightarrow> ReadOutcome \<times> StreamItem list" where
  "read_until 0 buf items = (Got buf, items)"
| "read_until (Suc n) buf [] = (Got buf, [])"
| "read_until (Suc n) buf (Byte c # items) =
     (if c = newline then (Got (buf @ [c]), items) else read_until n (buf @ [c]) items)"
| "read_until (Suc n) buf (Interrupted # items) = (WasInterrupted, items)"
| "read_until (Suc n) buf (ReadFailed # items) = (Broke, items)"

lemma read_until_shrinks: "length (snd (read_until n buf items)) \<le> length items"
  by (induction n buf items rule: read_until.induct) (auto intro: le_SucI)

lemma read_until_progress: "0 < n \<Longrightarrow> items \<noteq> [] \<Longrightarrow> length (snd (read_until n buf items)) < length items"
  using read_until_shrinks by (cases n; cases items; cases "hd items") (auto simp: less_Suc_eq_le)

lemma read_until_Nil: "read_until (Suc n) [] items = (r, rest) \<Longrightarrow> r \<noteq> Got [] \<Longrightarrow> length rest < length items"
  using read_until_progress [of "Suc n" items "[]"] by (cases items) auto

text \<open>The contents of the buffer at each turn of the loop.\<close>

function pump_reads :: "nat \<Rightarrow> StreamItem list \<Rightarrow> bytes list" where
  "pump_reads n items =
     (case read_until (Suc n) [] items of
        (Got buf, rest) \<Rightarrow> if buf = [] then [] else buf # pump_reads n rest
      | (WasInterrupted, rest) \<Rightarrow> pump_reads n rest
      | (Broke, _) \<Rightarrow> [])"
  by pat_completeness auto

termination
  by (relation "measure (length \<circ> snd)") (auto dest!: read_until_Nil [OF sym])

section \<open>The pump\<close>

record 'b LogBackend =
  lb_write :: "bytes \<Rightarrow> 'b \<Rightarrow> unit result \<times> 'b"
  lb_flush :: "'b \<Rightarrow> unit result \<times> 'b"
  lb_close :: "'b \<Rightarrow> unit result \<times> 'b"
  lb_clear :: "'b \<Rightarrow> unit result \<times> 'b"

record 'b LogPump =
  lp_ring :: RingBuffer
  lp_stream_name :: string
  lp_backend :: "('b LogBackend \<times> 'b) option"
  lp_ring_prefix :: "string option"
  lp_hub :: "EventHub option"
  lp_program :: "string option"
  lp_group :: "string option"
  lp_pid :: "nat option"
  lp_events_enabled :: bool

definition pump_new :: "RingBuffer \<Rightarrow> string \<Rightarrow> 'b LogPump" where
  "pump_new rg stream =
     \<lparr>lp_ring = rg, lp_stream_name = stream, lp_backend = None, lp_ring_prefix = None, lp_hub = None,
      lp_program = None, lp_group = None, lp_pid = None, lp_events_enabled = False\<rparr>"

definition pump_channel :: "'b LogPump \<Rightarrow> LogChannel" where
  "pump_channel p = (if eq_ignore_case (lp_stream_name p) ''stderr'' then Stderr else Stdout)"

definition has_log_subscribers :: "EventHub \<Rightarrow> bool" where
  "has_log_subscribers h \<longleftrightarrow> 0 < hub_log_receivers h"

text \<open>A line at time \<open>now\<close>; a failure of the backend is only logged.\<close>

definition pump_line :: "nat \<Rightarrow> bytes \<Rightarrow> 'b LogPump \<Rightarrow> 'b LogPump" where
  "pump_line now raw p =
     (let buf = strip_eol raw;
          ring = (case lp_ring_prefix p of
                    Some pfx \<Rightarrow> push_prefixed pfx buf (lp_ring p)
                  | None \<Rightarrow> push_bytes buf (lp_ring p));
          hub = (case (lp_hub p, lp_program p) of
                   (Some hub, Some prog) \<Rightarrow>
                     if lp_events_enabled p \<or> has_log_subscribers hub
                     then Some (publish_log
                       \<lparr>le_program = prog, le_stream = lp_stream_name p, le_line = utf8_lossy buf,
                        le_timestamp_millis = now, le_group = lp_group p, le_pid = lp_pid p,
                        le_events_enabled = lp_events_enabled p\<rparr> hub)
                     else Some hub
                 | (h, _) \<Rightarrow> h);
          backend = map_option (\<lambda>(ops, b). (ops, snd (lb_write ops (buf @ [newline]) b))) (lp_backend p)
      in p\<lparr>lp_ring := ring, lp_hub := hub, lp_backend := backend\<rparr>)"

text \<open>
  A run on a stream: the loop, the flush behind it, and the second flush of the task that is spawned
  when the pump ends.
\<close>

definition pump_flush :: "'b LogPump \<Rightarrow> 'b LogPump" where
  "pump_flush p = p\<lparr>lp_backend := map_option (\<lambda>(ops, b). (ops, snd (lb_flush ops b))) (lp_backend p)\<rparr>"

definition pump_run :: "nat \<Rightarrow> StreamItem list \<Rightarrow> 'b LogPump \<Rightarrow> 'b LogPump" where
  "pump_run now items p =
     pump_flush (pump_flush (fold (pump_line now) (pump_reads (MAX_PUMP_CHUNK_SIZE - 1) items) p))"

section \<open>Fan-out\<close>

text \<open>Every backend gets the operation; the first error is the result.\<close>

fun composite_each ::
  "('b LogBackend \<Rightarrow> 'b \<Rightarrow> unit result \<times> 'b) \<Rightarrow> ProgramError option \<Rightarrow> ('b LogBackend \<times> 'b) list
     \<Rightarrow> unit result \<times> ('b LogBackend \<times> 'b) list" where
  "composite_each f first_err [] = (case first_err of Some e \<Rightarrow> Inl e | None \<Rightarrow> Inr (), [])"
| "composite_each f first_err ((ops, b) # bs) =
     (let (r, b) = f ops b;
          first_err = (case r of Inl e \<Rightarrow> Some (unwrap_or first_err e) | Inr _ \<Rightarrow> first_err);
          (res, bs) = composite_each f first_err bs
      in (res, (ops, b) # bs))"

definition composite :: "('b LogBackend \<times> 'b) list LogBackend" where
  "composite =
     \<lparr>lb_write = (\<lambda>chunk. composite_each (\<lambda>ops. lb_write ops chunk) None),
      lb_flush = composite_each lb_flush None,
      lb_close = composite_each lb_close None,
      lb_clear = composite_each lb_clear None\<rparr>"

definition null_backend :: "'b LogBackend" where
  "null_backend =
     \<lparr>lb_write = (\<lambda>_ b. (Inr (), b)), lb_flush = (\<lambda>b. (Inr (), b)), lb_close = (\<lambda>b. (Inr (), b)),
      lb_clear = (\<lambda>b. (Inr (), b))\<rparr>"

text \<open>
  The standard streams of the daemon: what was written so far, and the error of the next write, if any.
\<close>

definition stdio_backend :: "string \<Rightarrow> (string option \<times> bytes) LogBackend" where
  "stdio_backend name =
     \<lparr>lb_write = (\<lambda>chunk (err, out).
        (case err of
           Some e \<Rightarrow> (Inl (PlatformError (''Failed to write to daemon '' @ name @ '': '' @ e)), err, out)
         | None \<Rightarrow> (Inr (), err, out @ chunk))),
      lb_flush = (\<lambda>b. (Inr (), b)), lb_close = (\<lambda>b. (Inr (), b)), lb_clear = (\<lambda>b. (Inr (), b))\<rparr>"

section \<open>Syslog\<close>

definition RFC3164_MAX_LEN :: nat where "RFC3164_MAX_LEN = 1024"

definition trim_end :: "string \<Rightarrow> string" where
  "trim_end s = rev (dropWhile is_ascii_space (rev s))"

definition trim_end_matches :: "char \<Rightarrow> string \<Rightarrow> string" where
  "trim_end_matches c s = rev (dropWhile (\<lambda>x. x = c) (rev s))"

definition syslog_pri :: "SyslogFacility \<Rightarrow> SyslogSeverity \<Rightarrow> u8" where
  "syslog_pri facility severity = facility_u8 facility * 8 + severity_u8 severity"

definition rfc3164_prefix :: "SyslogFacility \<Rightarrow> SyslogSeverity \<Rightarrow> string \<Rightarrow> string \<Rightarrow> string \<Rightarrow> bytes" where
  "rfc3164_prefix facility severity ts_str hostname tag =
     ''<'' @ digits_of (unat (syslog_pri facility severity)) @ ''>'' @ ts_str @ '' '' @ hostname @ '' '' @
     trim_end_matches (CHR '':'') tag @ '': ''"

text \<open>The local time of the message is an argument, as the text that is printed.\<close>

definition format_rfc3164 ::
  "SyslogFacility \<Rightarrow> SyslogSeverity \<Rightarrow> string \<Rightarrow> string \<Rightarrow> string \<Rightarrow> string \<Rightarrow> bytes" where
  "format_rfc3164 facility severity ts_str hostname tag message =
     (let pfx = rfc3164_prefix facility severity ts_str hostname tag;
          msg = trim_end message;
          remaining = RFC3164_MAX_LEN - (length pfx + 1)
      in pfx @ (if remaining < length msg then take remaining msg else msg) @ [newline])"

text \<open>The packets of a chunk: blank lines are left out.\<close>

definition syslog_packets ::
  "SyslogFacility \<Rightarrow> SyslogSeverity \<Rightarrow> string \<Rightarrow> string \<Rightarrow> string \<Rightarrow> bytes \<Rightarrow> bytes list" where
  "syslog_packets facility severity ts_str hostname tag data =
     map (format_rfc3164 facility severity ts_str hostname tag)
       (filter (\<lambda>line. trim line \<noteq> []) (rust_lines (utf8_lossy data)))"

text \<open>
  The task behind a TCP target: \<open>connects\<close> and \<open>writes\<close> tell for each message whether a connection
  can be made and whether a write succeeds. The result is what was written.
\<close>

fun tcp_task :: "bool \<Rightarrow> (bytes \<times> bool \<times> bool) list \<Rightarrow> bytes list" where
  "tcp_task connected [] = []"
| "tcp_task connected ((msg, connects, writes) # rest) =
     (let connected = connected \<or> connects
      in if connected
         then (if writes then msg # tcp_task True rest else tcp_task False rest)
         else tcp_task False rest)"

section \<open>What is read\<close>

lemma read_until_line:
  "newline \<notin> set l \<Longrightarrow> length l < n \<Longrightarrow>
     read_until n buf (map Byte (l @ newline # rest)) = (Got (buf @ l @ [newline]), map Byte rest)"
proof (induction l arbitrary: n buf)
  case Nil
  then show ?case by (cases n) auto
next
  case (Cons c l)
  then show ?case by (cases n) auto
qed

lemma read_until_open:
  "newline \<notin> set l \<Longrightarrow> length l \<le> n \<Longrightarrow> read_until n buf (map Byte l) = (Got (buf @ l), [])"
proof (induction l arbitrary: n buf)
  case Nil
  then show ?case by (cases n) auto
next
  case (Cons c l)
  then show ?case by (cases n) auto
qed

lemma read_until_full:
  "newline \<notin> set l \<Longrightarrow> read_until (length l) buf (map Byte (l @ rest)) = (Got (buf @ l), map Byte rest)"
  by (induction l arbitrary: buf) auto

declare pump_reads.simps [simp del]

lemma pump_reads_Nil [simp]: "pump_reads n [] = []"
  by (simp add: pump_reads.simps)

lemma pump_reads_Got:
  "read_until (Suc n) [] items = (Got buf, rest) \<Longrightarrow> buf \<noteq> [] \<Longrightarrow> pump_reads n items = buf # pump_reads n rest"
  by (simp add: pump_reads.simps [of n items])

lemma split_first_line:
  obtains (no_line) "newline \<notin> set s" | (line) l rest where "s = l @ newline # rest" "newline \<notin> set l"
  by (meson split_list_first)

text \<open>A text whose lines fit into the buffer is read line by line.\<close>

lemma pump_reads_lines:
  "list_all (\<lambda>l. length l \<le> Suc n) (line_segs s) \<Longrightarrow> pump_reads n (map Byte s) = line_segs s"
proof (induction s rule: length_induct)
  case (1 s)
  show ?case
  proof (cases s rule: split_first_line)
    case no_line
    then show ?thesis using 1(2) read_until_open [of s "Suc n" "[]"]
      by (cases "s = []") (simp_all add: line_segs_single pump_reads_Got)
  next
    case (line l rest)
    then have segs: "line_segs s = (l @ [newline]) # line_segs rest" by (simp add: line_segs_newline)
    then have "pump_reads n (map Byte rest) = line_segs rest" using 1 line(1) by simp
    then show ?thesis using segs 1(2) line read_until_line [of l "Suc n" "[]" rest]
      by (simp add: pump_reads_Got del: read_until.simps)
  qed
qed

text \<open>Whatever the lengths of the lines, no byte is lost, added or moved.\<close>

lemma read_until_bytes:
  "\<exists>k \<le> length s. read_until n buf (map Byte s) = (Got (buf @ take k s), map Byte (drop k s)) \<and>
     (0 < n \<longrightarrow> s \<noteq> [] \<longrightarrow> 0 < k)"
proof (induction s arbitrary: n buf)
  case Nil
  then show ?case by (cases n) auto
next
  case (Cons c s)
  show ?case
  proof (cases n)
    case (Suc m)
    obtain k where "k \<le> length s" "read_until m (buf @ [c]) (map Byte s) = (Got ((buf @ [c]) @ take k s), map Byte (drop k s))"
      using Cons by blast
    then show ?thesis using Suc
      by (cases "c = newline") (auto intro: exI [of _ "Suc 0"] exI [of _ "Suc k"])
  qed auto
qed

lemma pump_reads_conserve: "concat (pump_reads n (map Byte s)) = s"
proof (induction s rule: length_induct)
  case (1 s)
  show ?case
  proof (cases "s = []")
    case False
    obtain k where k: "0 < k" "k \<le> length s" "read_until (Suc n) [] (map Byte s) = (Got (take k s), map Byte (drop k s))"
      using read_until_bytes [of s "Suc n" "[]"] False by auto
    then have "pump_reads n (map Byte s) = take k s # pump_reads n (map Byte (drop k s))"
      using False by (simp add: pump_reads_Got)
    then show ?thesis using 1 k by simp
  qed simp
qed

text \<open>A line that exactly fills the buffer leaves its newline for the next turn, which is then a line of its own.\<close>

lemma full_buffer_adds_blank_line:
  assumes "newline \<notin> set l" and "length l = Suc n"
  shows "map strip_eol (pump_reads n (map Byte (l @ [newline]))) = [l, []]" and "rust_lines (l @ [newline]) = [strip_cr l]"
proof -
  have "read_until (Suc n) [] (map Byte (l @ [newline])) = (Got l, map Byte [newline])"
    using read_until_full [OF assms(1), of "[]" "[newline]"] assms(2) by simp
  moreover have "pump_reads n (map Byte [newline]) = [[newline]]"
    using pump_reads_lines [of n "[newline]"] by simp
  moreover have "l \<noteq> []" using assms(2) by auto
  moreover from this assms(1) have "last l \<noteq> newline" using last_in_set by fastforce
  ultimately show "map strip_eol (pump_reads n (map Byte (l @ [newline]))) = [l, []]"
    by (simp add: pump_reads_Got strip_eol_def ends_with_newline_def strip_cr_def)
  show "rust_lines (l @ [newline]) = [strip_cr l]"
    using line_segs_newline [OF assms(1), of "[]"] by (simp add: rust_lines_def strip_eol_def ends_with_newline_def)
qed

section \<open>Fan-out and pump together\<close>

lemma composite_states: "snd (composite_each f e bs) = map (\<lambda>(ops, b). (ops, snd (f ops b))) bs"
  by (induction f e bs rule: composite_each.induct) (auto simp: Let_def split: prod.split)

text \<open>The result of a fan-out is that of the first backend that fails.\<close>

lemma composite_result:
  "fst (composite_each f None bs) =
     (case find (\<lambda>r. r \<in> range Inl) (map (\<lambda>(ops, b). fst (f ops b)) bs) of None \<Rightarrow> Inr () | Some r \<Rightarrow> r)"
proof -
  have set: "fst (composite_each f (Some e) bs) = Inl e" for e bs
    by (induction bs arbitrary: e) (auto simp: Let_def unwrap_or_def split_beta split: sum.split)
  show ?thesis
    by (induction bs) (auto simp: Let_def unwrap_or_def set split_beta split: sum.split)
qed

definition delivered :: "bytes list \<Rightarrow> 'b LogBackend \<times> 'b \<Rightarrow> 'b LogBackend \<times> 'b" where
  "delivered lines = (\<lambda>(ops, b). (ops, fold (\<lambda>l b. snd (lb_write ops (l @ [newline]) b)) lines b))"

definition flushed :: "'b LogBackend \<times> 'b \<Rightarrow> 'b LogBackend \<times> 'b" where
  "flushed = (\<lambda>(ops, b). (ops, snd (lb_flush ops b)))"

lemma pump_line_frame [simp]:
  "lp_stream_name (pump_line now l p) = lp_stream_name p" "lp_ring_prefix (pump_line now l p) = lp_ring_prefix p"
  "lp_program (pump_line now l p) = lp_program p" "lp_group (pump_line now l p) = lp_group p"
  "lp_pid (pump_line now l p) = lp_pid p" "lp_events_enabled (pump_line now l p) = lp_events_enabled p"
  by (simp_all add: pump_line_def Let_def)

lemma pump_lines_backend:
  "lp_backend (fold (pump_line now) raws p) = map_option (delivered (map strip_eol raws)) (lp_backend p)"
proof (induction raws arbitrary: p)
  case Nil
  then show ?case by (cases "lp_backend p") (auto simp: delivered_def)
next
  case (Cons raw raws)
  then show ?case by (cases "lp_backend p") (auto simp: pump_line_def Let_def delivered_def)
qed

lemma delivered_composite:
  "delivered lines (composite, bs) = (composite, map (delivered lines) bs)"
proof (induction lines arbitrary: bs)
  case (Cons l lines)
  have "delivered (l # lines) (composite, bs) =
      delivered lines (composite, map (\<lambda>(ops, b). (ops, snd (lb_write ops (l @ [newline]) b))) bs)"
    by (simp add: delivered_def composite_def composite_states)
  then show ?case using Cons by (simp add: delivered_def comp_def split_beta)
qed (simp add: delivered_def split_beta)

lemma flushed_composite: "flushed (composite, bs) = (composite, map flushed bs)"
  by (simp add: flushed_def composite_def composite_states)

lemma pump_lines_ring:
  "lp_ring_prefix p = None \<Longrightarrow> lp_ring (fold (pump_line now) raws p) = fold push_bytes (map strip_eol raws) (lp_ring p)"
  by (induction raws arbitrary: p) (simp_all add: pump_line_def Let_def)

definition log_entry_of :: "nat \<Rightarrow> 'b LogPump \<Rightarrow> string \<Rightarrow> bytes \<Rightarrow> LogEntry" where
  "log_entry_of now p prog line =
     \<lparr>le_program = prog, le_stream = lp_stream_name p, le_line = utf8_lossy line, le_timestamp_millis = now,
      le_group = lp_group p, le_pid = lp_pid p, le_events_enabled = lp_events_enabled p\<rparr>"

lemma pump_lines_hub:
  assumes "lp_program p = Some prog" and "lp_events_enabled p"
  shows "lp_hub (fold (pump_line now) raws p) =
     map_option (fold publish_log (map (log_entry_of now p prog \<circ> strip_eol) raws)) (lp_hub p)"
  using assms
proof (induction raws arbitrary: p)
  case Nil
  then show ?case by (cases "lp_hub p") simp_all
next
  case (Cons raw raws)
  have "log_entry_of now (pump_line now raw p) prog = log_entry_of now p prog"
    by (simp add: fun_eq_iff log_entry_of_def)
  then show ?case using Cons.prems Cons.IH [of "pump_line now raw p"]
    by (cases "lp_hub p") (simp_all add: pump_line_def log_entry_of_def Let_def)
qed

lemma pump_flush_frame [simp]:
  "lp_ring (pump_flush p) = lp_ring p" "lp_hub (pump_flush p) = lp_hub p"
  "lp_backend (pump_flush p) = map_option flushed (lp_backend p)"
  by (simp_all add: pump_flush_def flushed_def)


section \<open>Packets\<close>

text \<open>The priority fits into a byte, and a packet into its limit if its header does.\<close>

lemma syslog_pri_exact: "unat (syslog_pri f sv) = unat (facility_u8 f) * 8 + unat (severity_u8 sv)"
  by (cases f; cases sv) (simp_all add: syslog_pri_def)

lemma packet_length:
  "length (format_rfc3164 f sv ts host tag msg) \<le> max RFC3164_MAX_LEN (length (rfc3164_prefix f sv ts host tag) + 1)"
  by (auto simp: format_rfc3164_def Let_def RFC3164_MAX_LEN_def)

lemma long_header_exceeds:
  "RFC3164_MAX_LEN \<le> length (rfc3164_prefix f sv ts host tag) \<Longrightarrow>
     RFC3164_MAX_LEN < length (format_rfc3164 f sv ts host tag msg)"
  by (auto simp: format_rfc3164_def Let_def)

text \<open>The TCP task keeps the order of the messages; it does not repeat one whose write failed.\<close>

lemma tcp_task_order: "subseq (tcp_task c ms) (map fst ms)"
  by (induction c ms rule: tcp_task.induct) (auto simp: Let_def)

definition demo_pump :: "(('x \<times> bytes) LogBackend \<times> 'x \<times> bytes) list \<Rightarrow> (('x \<times> bytes) LogBackend \<times> 'x \<times> bytes) list LogPump" where
  "demo_pump bs =
     \<lparr>lp_ring = line_buffer_new 10, lp_stream_name = ''stdout'', lp_backend = Some (composite, bs),
      lp_ring_prefix = None, lp_hub = None, lp_program = Some ''web'', lp_group = None, lp_pid = Some 7,
      lp_events_enabled = True\<rparr>"


end
