(* ===== verification/Env_File.thy ===== *)
theory Env_File
  imports Value_Text
begin

text \<open>
  Environment files (\<open>src/src/program/envfile.rs\<close>) and the environment that they give a process
  together with the configured one (\<open>spawn_child\<close> of \<open>src/src/program/process.rs\<close>). Reading a
  file is an argument.
\<close>

definition unquote :: "string \<Rightarrow> string" where
  "unquote v =
     (if 2 \<le> length v \<and>
         ((hd v = CHR 0x22 \<and> last v = CHR 0x22) \<or> (hd v = CHR 0x27 \<and> last v = CHR 0x27))
      then butlast (tl v) else v)"

definition env_line :: "string \<Rightarrow> (string \<times> string) option" where
  "env_line raw_line =
     (let line = trim raw_line
      in if line = [] \<or> hd line = CHR ''#'' then None
         else (let line = trim_start (unwrap_or (strip_prefix ''export '' line) line)
               in case split_once (CHR ''='') line of
                    None \<Rightarrow> None
                  | Some (key, val) \<Rightarrow>
                      (let key = trim key
                       in if key = [] then None else Some (key, unquote (trim val)))))"

definition load_content :: "string \<Rightarrow> string hmap" where
  "load_content content =
     foldl (\<lambda>m kv. hm_insert (fst kv) (snd kv) m) [] (List.map_filter env_line (rust_lines content))"

definition load_one :: "(string \<Rightarrow> string + string) \<Rightarrow> string \<Rightarrow> string + string hmap" where
  "load_one read_file path = map_sum id load_content (read_file path)"

definition extend_map :: "string hmap \<Rightarrow> string hmap \<Rightarrow> string hmap" where
  "extend_map m new = foldl (\<lambda>m kv. hm_insert (fst kv) (snd kv) m) m new"

text \<open>A file that cannot be read is skipped.\<close>

definition load_env_files :: "(string \<Rightarrow> string + string) \<Rightarrow> string list \<Rightarrow> string hmap" where
  "load_env_files read_file paths =
     foldl (\<lambda>merged path. case load_one read_file path of Inl _ \<Rightarrow> merged | Inr m \<Rightarrow> extend_map merged m)
       [] paths"

text \<open>The environment of the command: what it inherits, then the files, then the configuration.\<close>

definition command_env ::
  "(string \<Rightarrow> string + string) \<Rightarrow> string hmap \<Rightarrow> string list \<Rightarrow> string hmap \<Rightarrow> string hmap" where
  "command_env read_file inherited env_files environment =
     extend_map (extend_map inherited (load_env_files read_file env_files)) environment"

section \<open>Precedence\<close>

lemma insert_all_get:
  "hm_get (foldl (\<lambda>m kv. hm_insert (fst kv) (snd kv) m) m kvs) k = or_option (map_of (rev kvs) k) (hm_get m k)"
  by (induction kvs rule: rev_induct) (simp_all add: or_option_def split: option.split)

lemma insert_all_wf: "hm_wf m \<Longrightarrow> hm_wf (foldl (\<lambda>m kv. hm_insert (fst kv) (snd kv) m) m kvs)"
  by (induction kvs arbitrary: m) simp_all

lemma extend_get:
  assumes "hm_wf new" shows "hm_get (extend_map m new) k = or_option (hm_get new k) (hm_get m k)"
proof -
  have "hm_get (rev new) k = hm_get new k" by (rule hm_get_perm [OF assms]) simp
  then show ?thesis by (simp add: extend_map_def insert_all_get) (simp add: hm_get_def)
qed

lemma extend_wf: "hm_wf m \<Longrightarrow> hm_wf (extend_map m new)"
  unfolding extend_map_def by (rule insert_all_wf)

lemma load_content_wf: "hm_wf (load_content content)"
  unfolding load_content_def by (rule insert_all_wf) (simp add: hm_wf_def)

lemma load_env_files_wf: "hm_wf (load_env_files read_file paths)"
  by (induction paths rule: rev_induct)
    (simp_all add: load_env_files_def hm_wf_def [of "[]"] extend_wf split: sum.split)

text \<open>
  The last file that sets a variable decides, files that cannot be read aside, and the configuration
  decides before every file, and every file before what is inherited.
\<close>

theorem env_precedence:
  assumes "hm_wf environment"
  shows "hm_get (command_env read_file inherited (paths @ [path]) environment) k =
     (case hm_get environment k of
        Some v \<Rightarrow> Some v
      | None \<Rightarrow>
          (case read_file path of
             Inr content \<Rightarrow>
               (case hm_get (load_content content) k of
                  Some v \<Rightarrow> Some v
                | None \<Rightarrow> hm_get (command_env read_file inherited paths []) k)
           | Inl _ \<Rightarrow> hm_get (command_env read_file inherited paths []) k))"
proof -
  have e: "extend_map m [] = m" for m by (simp add: extend_map_def)
  have "load_env_files read_file (paths @ [path]) =
      (case read_file path of Inl _ \<Rightarrow> load_env_files read_file paths
       | Inr content \<Rightarrow> extend_map (load_env_files read_file paths) (load_content content))"
    by (simp add: load_env_files_def load_one_def split: sum.split)
  then show ?thesis
    by (cases "read_file path")
      (simp_all add: command_env_def e extend_get [OF assms] extend_get [OF load_env_files_wf]
        extend_get [OF extend_wf [OF load_env_files_wf]] extend_get [OF load_content_wf] or_option_def
        split: option.split)
qed

text \<open>A quoted value is read back as it is, also with blanks, comment signs and equals signs in it.\<close>

lemma quoted_value_read_back:
  assumes "k \<noteq> []" and "trim k = k" and "CHR ''='' \<notin> set k" and "hd k \<noteq> CHR ''#''"
    and "strip_prefix ''export '' (k @ CHR ''='' # CHR 0x22 # v @ [CHR 0x22]) = None"
  shows "env_line (k @ CHR ''='' # CHR 0x22 # v @ [CHR 0x22]) = Some (k, v)"
proof -
  let ?line = "k @ CHR ''='' # CHR 0x22 # v @ [CHR 0x22]"
  have hd: "\<not> is_ascii_space (hd k)" using trim_ends(1) [of k] assms(1,2) by simp
  then have t: "trim ?line = ?line" using assms(1) by (intro trim_fix) (simp_all add: is_ascii_space_def)
  have ts: "trim_start ?line = ?line" using hd assms(1) by (cases k) (simp_all add: trim_start_def)
  have "trim (CHR 0x22 # v @ [CHR 0x22]) = CHR 0x22 # v @ [CHR 0x22]"
    by (rule trim_fix) (simp_all add: is_ascii_space_def)
  then show ?thesis
    using assms t ts split_once_append [of "CHR ''=''" k "CHR 0x22 # v @ [CHR 0x22]"]
    by (simp add: env_line_def Let_def unwrap_or_def unquote_def)
qed

end
