(* ===== verification/Watch_Service.thy ===== *)
theory Watch_Service
  imports Supervisor_World Ini_Parser
begin

text \<open>
  The watch service (\<open>src/src/manager/watch.rs\<close>): the rules that the configurations ask for, the
  matching of changed paths, the debouncing of triggers, and what a trigger does. The notification
  library, the file system and the clock are arguments: a run of the service is a list of timed
  inputs. The resolution of an executable is that of \<open>src/src/platform/unix/mod.rs\<close>.
\<close>

section \<open>Rules\<close>

definition matches_pattern :: "string option \<Rightarrow> string \<Rightarrow> bool" where
  "matches_pattern pattern file_name =
     (case pattern of
        None \<Rightarrow> True
      | Some pat \<Rightarrow>
          (let trimmed = trim pat
           in if trimmed = [] \<or> trimmed = ''*'' then True
              else (case strip_prefix ''*'' trimmed of
                      Some suffix \<Rightarrow> strip_prefix (rev suffix) (rev file_name) \<noteq> None
                    | None \<Rightarrow>
                        (case strip_prefix ''*'' (rev trimmed) of
                           Some rev_front \<Rightarrow> strip_prefix (rev rev_front) file_name \<noteq> None
                         | None \<Rightarrow> trimmed = file_name))))"

datatype WatchRule =
    BinaryRule (wr_program: string) (wr_target: string) (wr_parent: string)
      (wr_directory: "string option") (wr_debounce: duration) (wr_signal: "StopSignal option")
      (wr_cmd: "string option")
  | DirectoryRule (wr_program: string) (wr_dir: string) (wr_pattern: "string option")
      (wr_directory: "string option") (wr_debounce: duration) (wr_signal: "StopSignal option")
      (wr_cmd: "string option")

text \<open>The file system: the current directory is that of \<open>fs\<close>; \<open>search_path\<close> is the variable PATH.\<close>

record WatchHost =
  wh_fs :: FileView
  wh_is_file :: "string \<Rightarrow> bool"
  wh_is_dir :: "string \<Rightarrow> bool"
  wh_search_path :: "string list option"

definition resolve_executable :: "WatchHost \<Rightarrow> string \<Rightarrow> string option \<Rightarrow> string option" where
  "resolve_executable H command working_dir =
     (let found = (\<lambda>p. if wh_is_file H p then Some (abs_path (wh_fs H) p) else None)
      in if is_absolute command then found command
         else if CHR ''/'' \<in> set command then found (path_join (unwrap_or working_dir ''.'') command)
         else or_option (case working_dir of Some wd \<Rightarrow> found (path_join wd command) | None \<Rightarrow> None)
                (case wh_search_path H of
                   None \<Rightarrow> None
                 | Some dirs \<Rightarrow>
                     map_option (abs_path (wh_fs H))
                       (find (wh_is_file H) (map (\<lambda>dir. path_join dir command) dirs))))"

definition binary_rules :: "WatchHost \<Rightarrow> string \<Rightarrow> ProgramConfig \<Rightarrow> WatchRule list" where
  "binary_rules H name cfg =
     (if c_restart_when_binary_changed cfg
      then (case resolve_executable H (c_command cfg) (c_directory cfg) of
              None \<Rightarrow> []
            | Some target_path \<Rightarrow>
                (case path_parent target_path of
                   None \<Rightarrow> []
                 | Some parent_dir \<Rightarrow>
                     [BinaryRule name target_path parent_dir (c_directory cfg) (c_restart_debounce_secs cfg)
                        (c_restart_signal_when_binary_changed cfg) (c_restart_cmd_when_binary_changed cfg)]))
      else [])"

definition directory_rules :: "WatchHost \<Rightarrow> string \<Rightarrow> ProgramConfig \<Rightarrow> WatchRule list" where
  "directory_rules H name cfg =
     (case c_restart_directory_monitor cfg of
        None \<Rightarrow> []
      | Some dir \<Rightarrow>
          (let abs_dir = (if is_absolute dir then dir
                          else (case c_directory cfg of
                                  Some wd \<Rightarrow> path_join wd dir
                                | None \<Rightarrow> path_join (fv_cwd (wh_fs H)) dir))
           in [DirectoryRule name (abs_path (wh_fs H) abs_dir) (c_restart_file_pattern cfg)
                 (c_directory cfg) (c_restart_debounce_secs cfg) (c_restart_signal_when_file_changed cfg)
                 (c_restart_cmd_when_file_changed cfg)]))"

definition build_rules :: "WatchHost \<Rightarrow> ProgramConfig hmap \<Rightarrow> WatchRule list" where
  "build_rules H configs =
     concat (map (\<lambda>(name, cfg). binary_rules H name cfg @ directory_rules H name cfg) configs)"

definition path_starts_with :: "string \<Rightarrow> string \<Rightarrow> bool" where
  "path_starts_with p base \<longleftrightarrow> take (length (components base)) (components p) = components base"

fun matches_rule :: "WatchRule \<Rightarrow> string \<Rightarrow> bool" where
  "matches_rule (BinaryRule _ target_path _ _ _ _ _) event_path =
     (if same_path event_path target_path then True
      else (case (path_file_name event_path, path_file_name target_path) of
              (Some ev_name, Some tgt_name) \<Rightarrow> ev_name = tgt_name
            | _ \<Rightarrow> False))"
| "matches_rule (DirectoryRule _ dir_path pattern _ _ _ _) event_path =
     (if \<not> path_starts_with event_path dir_path then False
      else (case path_file_name event_path of
              Some name \<Rightarrow> matches_pattern pattern name
            | None \<Rightarrow> False))"

fun is_binary_rule :: "WatchRule \<Rightarrow> bool" where
  "is_binary_rule (BinaryRule _ _ _ _ _ _ _) = True"
| "is_binary_rule (DirectoryRule _ _ _ _ _ _ _) = False"

section \<open>The watched directories\<close>

datatype RecursiveMode = Recursive | NonRecursive

fun rule_dirs :: "WatchHost \<Rightarrow> WatchRule \<Rightarrow> (string \<times> RecursiveMode) list" where
  "rule_dirs H (BinaryRule _ _ parent_dir _ _ _ _) =
     (if wh_is_dir H parent_dir then [(parent_dir, NonRecursive)] else [])"
| "rule_dirs H (DirectoryRule _ dir_path _ _ _ _ _) =
     (if wh_is_dir H dir_path then [(dir_path, Recursive)] else [])"

text \<open>
  The watches are a map from directories to their modes; \<open>iter\<close> is the order in which the set of wanted
  directories is passed through, and \<open>can_watch\<close> tells whether the library accepts a watch.
\<close>

definition add_watch ::
  "(string \<Rightarrow> bool) \<Rightarrow> string \<times> RecursiveMode \<Rightarrow> RecursiveMode hmap \<Rightarrow> RecursiveMode hmap" where
  "add_watch can_watch = (\<lambda>(dir, md) current.
     if \<not> contains_key current dir \<and> can_watch dir then hm_insert dir md current else current)"

definition sync_watcher ::
  "((string \<times> RecursiveMode) list \<Rightarrow> (string \<times> RecursiveMode) list) \<Rightarrow> (string \<Rightarrow> bool) \<Rightarrow> WatchHost \<Rightarrow>
     WatchRule list \<Rightarrow> RecursiveMode hmap \<Rightarrow> RecursiveMode hmap" where
  "sync_watcher iter can_watch H rules current =
     (let target_dirs = remdups (concat (map (rule_dirs H) rules));
          current = filter (\<lambda>(d, _). d \<in> fst ` set target_dirs) current
      in fold (add_watch can_watch) (iter target_dirs) current)"

section \<open>Triggers\<close>

record PendingTrigger =
  pt_program :: string
  pt_target :: string
  pt_is_binary :: bool
  pt_directory :: "string option"
  pt_signal :: "StopSignal option"
  pt_cmd :: "string option"
  pt_deadline :: instant
  pt_debounce :: duration
  pt_checks :: nat

definition SHORT_RETRY_DELAY :: duration where [duration_defs]: "SHORT_RETRY_DELAY = 500000000"
definition WATCH_CUSTOM_CMD_TIMEOUT :: duration where [duration_defs]: "WATCH_CUSTOM_CMD_TIMEOUT = from_secs 30"

definition new_trigger :: "instant \<Rightarrow> WatchRule \<Rightarrow> string \<Rightarrow> PendingTrigger" where
  "new_trigger now rule path =
     \<lparr>pt_program = wr_program rule, pt_target = path, pt_is_binary = is_binary_rule rule,
      pt_directory = wr_directory rule, pt_signal = wr_signal rule, pt_cmd = wr_cmd rule,
      pt_deadline = now + wr_debounce rule, pt_debounce = wr_debounce rule, pt_checks = 0\<rparr>"

definition note_change ::
  "instant \<Rightarrow> string \<Rightarrow> WatchRule \<Rightarrow> PendingTrigger hmap \<Rightarrow> PendingTrigger hmap" where
  "note_change now path rule pending =
     (if matches_rule rule path
      then (case hm_get pending (wr_program rule) of
              Some existing \<Rightarrow>
                hm_insert (wr_program rule)
                  (existing\<lparr>pt_deadline := now + pt_debounce existing, pt_target := path\<rparr>) pending
            | None \<Rightarrow> hm_insert (wr_program rule) (new_trigger now rule path) pending)
      else pending)"

datatype EventKind = Create | Modify | Remove | AnyKind | Access | OtherKind

definition is_relevant_event :: "EventKind \<Rightarrow> bool" where
  "is_relevant_event k \<longleftrightarrow> k \<in> {Create, Modify, Remove, AnyKind}"

definition on_change ::
  "instant \<Rightarrow> WatchRule list \<Rightarrow> EventKind \<Rightarrow> string list \<Rightarrow> PendingTrigger hmap \<Rightarrow> PendingTrigger hmap" where
  "on_change now rules kind paths pending =
     (if \<not> is_relevant_event kind then pending
      else fold (\<lambda>path. fold (note_change now path) rules) paths pending)"

text \<open>What a probe of a file finds: whether it exists, and whether it opens and is not empty.\<close>

type_synonym probe = "string \<Rightarrow> bool \<times> bool"

definition retry :: "probe \<Rightarrow> PendingTrigger \<Rightarrow> bool" where
  "retry probe t \<longleftrightarrow>
     pt_is_binary t \<and> fst (probe (pt_target t)) \<and> \<not> snd (probe (pt_target t)) \<and> pt_checks t < 5"

text \<open>The triggers that are due, one after the other; those that fire are collected in order.\<close>

definition fire_one ::
  "instant \<Rightarrow> probe \<Rightarrow> string \<Rightarrow> PendingTrigger hmap \<times> PendingTrigger list \<Rightarrow> PendingTrigger hmap \<times> PendingTrigger list" where
  "fire_one now probe key = (\<lambda>(pending, fired).
     case hm_get pending key of
       None \<Rightarrow> (pending, fired)
     | Some t \<Rightarrow>
         if retry probe t
         then (hm_insert key (t\<lparr>pt_checks := pt_checks t + 1, pt_deadline := now + SHORT_RETRY_DELAY\<rparr>)
                 (hm_remove key pending), fired)
         else (hm_remove key pending, fired @ [t]))"

definition on_deadline ::
  "instant \<Rightarrow> probe \<Rightarrow> PendingTrigger hmap \<Rightarrow> PendingTrigger hmap \<times> PendingTrigger list" where
  "on_deadline now probe pending =
     (let due_keys = map fst (filter (\<lambda>(_, t). pt_deadline t \<le> now) pending)
      in fold (fire_one now probe) due_keys (pending, []))"

definition earliest :: "PendingTrigger hmap \<Rightarrow> instant option" where
  "earliest pending = (if pending = [] then None else Some (Min (set (map pt_deadline (vals pending)))))"

section \<open>Actions\<close>

datatype WatchAction =
    RunCommand string "string option"
  | SignalProgramAction string StopSignal
  | RestartProgramAction string

text \<open>\<open>signalled\<close> tells whether the manager accepts the signal.\<close>

definition execute_trigger :: "bool \<Rightarrow> PendingTrigger \<Rightarrow> WatchAction list" where
  "execute_trigger signalled t =
     (case pt_cmd t of
        Some cmd \<Rightarrow> [RunCommand cmd (pt_directory t)]
      | None \<Rightarrow>
          (case pt_signal t of
             Some sig \<Rightarrow>
               SignalProgramAction (pt_program t) sig #
                 (if signalled then [] else [RestartProgramAction (pt_program t)])
           | None \<Rightarrow> [RestartProgramAction (pt_program t)]))"

section \<open>The service\<close>

record WatchService =
  ws_rules :: "WatchRule list"
  ws_watches :: "RecursiveMode hmap"
  ws_pending :: "PendingTrigger hmap"
  ws_ended :: bool

datatype WatchInput =
    Cancelled
  | DeadlineExpired probe
  | Changed EventKind "string list"
  | Reloaded "ProgramConfig hmap"

record WatchEnv =
  we_host :: WatchHost
  we_iter :: "(string \<times> RecursiveMode) list \<Rightarrow> (string \<times> RecursiveMode) list"
  we_can_watch :: "string \<Rightarrow> bool"

definition watch_new :: "WatchEnv \<Rightarrow> ProgramConfig hmap \<Rightarrow> WatchService" where
  "watch_new E configs =
     (let rules = build_rules (we_host E) configs
      in \<lparr>ws_rules = rules, ws_watches = sync_watcher (we_iter E) (we_can_watch E) (we_host E) rules [],
          ws_pending = [], ws_ended = False\<rparr>)"

text \<open>
  One turn of the loop at time \<open>now\<close>, with the triggers that fire in it. The branch of the deadline is
  taken only when there is a trigger and its time has come, and before the events that wait.
\<close>

definition watch_step ::
  "WatchEnv \<Rightarrow> instant \<Rightarrow> WatchInput \<Rightarrow> WatchService \<Rightarrow> (WatchService \<times> PendingTrigger list) option" where
  "watch_step E now input w =
     (let due = (case earliest (ws_pending w) of None \<Rightarrow> False | Some d \<Rightarrow> d \<le> now)
      in if ws_ended w then None
         else (case input of
            Cancelled \<Rightarrow> Some (w\<lparr>ws_ended := True\<rparr>, [])
          | DeadlineExpired probe \<Rightarrow>
              if due then (let (pending, fired) = on_deadline now probe (ws_pending w)
                           in Some (w\<lparr>ws_pending := pending\<rparr>, fired))
              else None
          | Changed kind paths \<Rightarrow>
              if due then None
              else Some (w\<lparr>ws_pending := on_change now (ws_rules w) kind paths (ws_pending w)\<rparr>, [])
          | Reloaded configs \<Rightarrow>
              if due then None
              else (let rules = build_rules (we_host E) configs
                    in Some (w\<lparr>ws_rules := rules,
                               ws_watches := sync_watcher (we_iter E) (we_can_watch E) (we_host E) rules
                                 (ws_watches w)\<rparr>, []))))"

section \<open>Runs\<close>

text \<open>The programs that a change concerns.\<close>

definition touched :: "WatchRule list \<Rightarrow> WatchInput \<Rightarrow> string set" where
  "touched rules input =
     (case input of
        Changed kind paths \<Rightarrow>
          if is_relevant_event kind
          then {wr_program rule |rule. rule \<in> set rules \<and> (\<exists>path \<in> set paths. matches_rule rule path)}
          else {}
      | _ \<Rightarrow> {})"

text \<open>A run with the history of the changes, the triggers that have fired, each with its time, and the time.\<close>

inductive watch_run ::
  "WatchEnv \<Rightarrow> ProgramConfig hmap \<Rightarrow> (instant \<times> string set) list \<Rightarrow> (instant \<times> PendingTrigger) list \<Rightarrow>
     instant \<Rightarrow> WatchService \<Rightarrow> bool" for E configs where
  watch_start: "watch_run E configs [] [] now (watch_new E configs)"
| watch_turn: "watch_run E configs hist fired now w \<Longrightarrow> now \<le> now' \<Longrightarrow> watch_step E now' input w = Some (w', ts) \<Longrightarrow>
     watch_run E configs (hist @ [(now', touched (ws_rules w) input)]) (fired @ map (Pair now') ts) now' w'"

section \<open>Changes\<close>

definition named_triggers :: "PendingTrigger hmap \<Rightarrow> bool" where
  "named_triggers p \<longleftrightarrow> hm_wf p \<and> (\<forall>k t. hm_get p k = Some t \<longrightarrow> pt_program t = k \<and> pt_checks t \<le> 5)"

definition updated :: "instant \<Rightarrow> string set \<Rightarrow> PendingTrigger hmap \<Rightarrow> PendingTrigger hmap \<Rightarrow> bool" where
  "updated now N p p' \<longleftrightarrow> named_triggers p' \<and>
     (\<forall>k. if k \<in> N then \<exists>t. hm_get p' k = Some t \<and> pt_deadline t = now + pt_debounce t
          else hm_get p' k = hm_get p k)"

lemma updated_refl: "named_triggers p \<Longrightarrow> updated now {} p p"
  by (simp add: updated_def)

lemma updated_trans: "updated now N p p' \<Longrightarrow> updated now M p' p'' \<Longrightarrow> updated now (N \<union> M) p p''"
  unfolding updated_def by (metis UnCI UnE)

lemma updated_fold:
  assumes "named_triggers p" and "\<And>x p. x \<in> set xs \<Longrightarrow> named_triggers p \<Longrightarrow> updated now (N x) p (f x p)"
  shows "updated now (\<Union>x \<in> set xs. N x) p (fold f xs p)"
  using assms
proof (induction xs arbitrary: p)
  case (Cons x xs)
  have first: "updated now (N x) p (f x p)" using Cons.prems by simp
  then have "updated now (\<Union>x \<in> set xs. N x) (f x p) (fold f xs (f x p))"
    using Cons.prems by (intro Cons.IH) (simp_all add: updated_def)
  then show ?case using updated_trans [OF first] by simp
qed (simp add: updated_refl)

lemma note_change_updated:
  assumes "named_triggers p"
  shows "updated now (if matches_rule rule path then {wr_program rule} else {}) p (note_change now path rule p)"
  using assms
  by (auto simp: note_change_def updated_def named_triggers_def new_trigger_def split: option.split)

lemma on_change_updated:
  assumes "named_triggers p"
  shows "updated now (touched rules (Changed kind paths)) p (on_change now rules kind paths p)"
proof (cases "is_relevant_event kind")
  case True
  have inner: "updated now (\<Union>rule \<in> set rules. if matches_rule rule path then {wr_program rule} else {}) p
      (fold (note_change now path) rules p)" if "named_triggers p" for p path
    by (rule updated_fold [OF that]) (rule note_change_updated)
  have "updated now (\<Union>path \<in> set paths. \<Union>rule \<in> set rules. if matches_rule rule path then {wr_program rule} else {}) p
      (fold (\<lambda>path. fold (note_change now path) rules) paths p)"
    by (rule updated_fold [OF assms]) (rule inner)
  moreover have "(\<Union>path \<in> set paths. \<Union>rule \<in> set rules. if matches_rule rule path then {wr_program rule} else {})
      = touched rules (Changed kind paths)"
    using True by (auto simp: touched_def split: if_splits)
  ultimately show ?thesis using True by (simp add: on_change_def)
next
  case False
  then show ?thesis using updated_refl [OF assms] by (simp add: on_change_def touched_def)
qed

section \<open>Deadlines\<close>

definition postponed :: "instant \<Rightarrow> PendingTrigger \<Rightarrow> PendingTrigger" where
  "postponed now t = t\<lparr>pt_checks := pt_checks t + 1, pt_deadline := now + SHORT_RETRY_DELAY\<rparr>"

definition after_due :: "instant \<Rightarrow> probe \<Rightarrow> PendingTrigger \<Rightarrow> PendingTrigger option" where
  "after_due now probe t = (if retry probe t then Some (postponed now t) else None)"

definition fired_at :: "probe \<Rightarrow> PendingTrigger hmap \<Rightarrow> string \<Rightarrow> PendingTrigger list" where
  "fired_at probe p k =
     (case hm_get p k of Some t \<Rightarrow> if retry probe t then [] else [t] | None \<Rightarrow> [])"

definition left_at :: "instant \<Rightarrow> probe \<Rightarrow> PendingTrigger hmap \<Rightarrow> string \<Rightarrow> PendingTrigger hmap" where
  "left_at now probe p k =
     (case Option.bind (hm_get p k) (after_due now probe) of
        Some t \<Rightarrow> hm_insert k t (hm_remove k p)
      | None \<Rightarrow> hm_remove k p)"

lemma remove_absent: "hm_get p k = None \<Longrightarrow> hm_remove k p = p"
  by (induction p) (auto simp: hm_get_def hm_remove_def split: if_splits)

lemma fire_one_eq: "fire_one now probe k (p, fired) = (left_at now probe p k, fired @ fired_at probe p k)"
  by (cases "hm_get p k")
    (simp_all add: fire_one_def left_at_def fired_at_def after_due_def postponed_def remove_absent)

lemma left_at_get:
  "hm_get (left_at now probe p k) j =
     (if j = k then Option.bind (hm_get p k) (after_due now probe) else hm_get p j)"
  by (simp add: left_at_def split: option.split)

lemma left_at_wf: "hm_wf p \<Longrightarrow> hm_wf (left_at now probe p k)"
  by (simp add: left_at_def split: option.split)

lemma fire_all:
  assumes "distinct ks" and "hm_wf p"
  shows "\<exists>p'. fold (fire_one now probe) ks (p, fired) = (p', fired @ concat (map (fired_at probe p) ks)) \<and>
     hm_wf p' \<and>
     (\<forall>k. hm_get p' k = (if k \<in> set ks then Option.bind (hm_get p k) (after_due now probe) else hm_get p k))"
  using assms
proof (induction ks arbitrary: p fired)
  case (Cons k0 ks)
  let ?p = "left_at now probe p k0"
  have same: "map (fired_at probe ?p) ks = map (fired_at probe p) ks"
    using Cons.prems(1) by (auto simp: fired_at_def left_at_get intro!: map_cong)
  have "distinct ks" using Cons.prems(1) by simp
  from Cons.IH [OF this left_at_wf [OF Cons.prems(2), of now probe k0], where fired = "fired @ fired_at probe p k0"]
  obtain p' where p': "fold (fire_one now probe) ks (?p, fired @ fired_at probe p k0) =
       (p', (fired @ fired_at probe p k0) @ concat (map (fired_at probe ?p) ks))" "hm_wf p'"
     "\<And>k. hm_get p' k = (if k \<in> set ks then Option.bind (hm_get ?p k) (after_due now probe) else hm_get ?p k)"
    by (elim exE conjE) simp
  have "hm_get p' k = (if k \<in> set (k0 # ks) then Option.bind (hm_get p k) (after_due now probe) else hm_get p k)" for k
    using Cons.prems(1) p'(3) by (auto simp: left_at_get)
  then show ?case using p'(1,2) by (intro exI [of _ p']) (simp add: fire_one_eq same)
qed simp

lemma fired_at_iff: "t \<in> set (fired_at probe p k) \<longleftrightarrow> hm_get p k = Some t \<and> \<not> retry probe t"
  by (auto simp: fired_at_def split: option.split)

lemma after_due_Some: "after_due now probe t = Some t' \<longleftrightarrow> retry probe t \<and> t' = postponed now t"
  by (auto simp: after_due_def)

lemma retry_checks: "retry probe t \<Longrightarrow> pt_checks (postponed now t) \<le> 5"
  by (simp add: retry_def postponed_def)

lemma postponed_simps [simp]:
  "pt_program (postponed now t) = pt_program t" "pt_debounce (postponed now t) = pt_debounce t"
  "pt_deadline (postponed now t) = now + SHORT_RETRY_DELAY"
  by (simp_all add: postponed_def)

lemma on_deadline_effect:
  assumes "named_triggers p"
  obtains p' fired where "on_deadline now probe p = (p', fired)" "named_triggers p'"
    "\<And>t. t \<in> set fired \<longleftrightarrow> hm_get p (pt_program t) = Some t \<and> pt_deadline t \<le> now \<and> \<not> retry probe t"
    "\<And>k t'. hm_get p' k = Some t' \<Longrightarrow>
       hm_get p k = Some t' \<or> (\<exists>t. hm_get p k = Some t \<and> pt_deadline t \<le> now \<and> t' = postponed now t)"
    "\<And>k t. hm_get p k = Some t \<Longrightarrow> hm_get p' k = None \<Longrightarrow> t \<in> set fired"
proof -
  let ?due = "map fst (filter (\<lambda>(_, t). pt_deadline t \<le> now) p)"
  have wf: "hm_wf p" and nt: "\<And>k t. hm_get p k = Some t \<Longrightarrow> pt_program t = k \<and> pt_checks t \<le> 5"
    using assms by (auto simp: named_triggers_def)
  have due: "k \<in> set ?due \<longleftrightarrow> (\<exists>t. hm_get p k = Some t \<and> pt_deadline t \<le> now)" for k
    using wf by (force simp: hm_get_Some_iff)
  have "distinct ?due" using wf by (simp add: hm_wf_def keys_def distinct_map_filter)
  from fire_all [OF this wf, where now = now and probe = probe and fired = "[]"] obtain p' where p':
      "on_deadline now probe p = (p', concat (map (fired_at probe p) ?due))" "hm_wf p'"
      "\<And>k. hm_get p' k = (if k \<in> set ?due then Option.bind (hm_get p k) (after_due now probe) else hm_get p k)"
    unfolding on_deadline_def Let_def append_Nil by (elim exE conjE) simp
  let ?fired = "concat (map (fired_at probe p) ?due)"
  have mem: "t \<in> set ?fired \<longleftrightarrow> (\<exists>k. k \<in> set ?due \<and> hm_get p k = Some t \<and> \<not> retry probe t)" for t
    by (simp only: set_concat set_map image_image UN_iff fired_at_iff) blast
  have left: "\<exists>t. hm_get p k = Some t \<and> pt_deadline t \<le> now \<and> retry probe t \<and> t' = postponed now t"
    if "hm_get p' k = Some t'" "k \<in> set ?due" for k t'
    using that due [of k] by (auto simp: p'(3) after_due_Some)
  show ?thesis
  proof (rule that [OF p'(1)])
    have "pt_program t' = k \<and> pt_checks t' \<le> 5" if "hm_get p' k = Some t'" for k t'
    proof (cases "k \<in> set ?due")
      case True
      then show ?thesis using left [OF that True] nt retry_checks by auto
    next
      case False
      then show ?thesis using that nt by (simp add: p'(3))
    qed
    then show "named_triggers p'" using p'(2) by (simp add: named_triggers_def)
    show "t \<in> set ?fired \<longleftrightarrow> hm_get p (pt_program t) = Some t \<and> pt_deadline t \<le> now \<and> \<not> retry probe t" for t
      unfolding mem due using nt by (metis option.inject)
    show "hm_get p k = Some t' \<or> (\<exists>t. hm_get p k = Some t \<and> pt_deadline t \<le> now \<and> t' = postponed now t)"
      if "hm_get p' k = Some t'" for k t'
      using that left [OF that] by (cases "k \<in> set ?due") (auto simp: p'(3))
    show "t \<in> set ?fired" if g: "hm_get p k = Some t" and n: "hm_get p' k = None" for k t
    proof -
      have d: "k \<in> set ?due" using g n p'(3) [of k] by (auto split: if_splits)
      then have "\<not> retry probe t" using g n p'(3) [of k] by (simp add: after_due_def split: if_splits)
      then show ?thesis unfolding mem using d g by blast
    qed
  qed
qed

lemma deadline_turn:
  assumes "named_triggers p" and e: "on_deadline now probe p = (p1, ts)"
  shows "named_triggers p1"
    and "t \<in> set ts \<longleftrightarrow> hm_get p (pt_program t) = Some t \<and> pt_deadline t \<le> now \<and> \<not> retry probe t"
    and "hm_get p1 k = Some t' \<Longrightarrow>
       hm_get p k = Some t' \<or> (\<exists>t. hm_get p k = Some t \<and> pt_deadline t \<le> now \<and> t' = postponed now t)"
    and "hm_get p k = Some t \<Longrightarrow> hm_get p1 k = None \<Longrightarrow> t \<in> set ts"
proof -
  note d = on_deadline_effect [OF assms(1), of now probe, unfolded e prod.inject]
  show "named_triggers p1" by (rule d) simp
  show "t \<in> set ts \<longleftrightarrow> hm_get p (pt_program t) = Some t \<and> pt_deadline t \<le> now \<and> \<not> retry probe t"
    by (rule d) simp
  show "hm_get p k = Some t' \<or> (\<exists>t. hm_get p k = Some t \<and> pt_deadline t \<le> now \<and> t' = postponed now t)"
    if "hm_get p1 k = Some t'" by (rule d) (use that in \<open>simp only:\<close>)
  show "t \<in> set ts" if "hm_get p k = Some t" "hm_get p1 k = None" by (rule d) (use that in simp)
qed

section \<open>Debouncing\<close>

definition changed_at :: "(instant \<times> string set) list \<Rightarrow> string \<Rightarrow> instant \<Rightarrow> bool" where
  "changed_at hist k t \<longleftrightarrow> (\<exists>N. (t, N) \<in> set hist \<and> k \<in> N)"

lemma changed_at_simps [simp]:
  "\<not> changed_at [] k t"
  "changed_at (hist @ [(now, N)]) k t \<longleftrightarrow> changed_at hist k t \<or> (t = now \<and> k \<in> N)"
  by (auto simp: changed_at_def)

definition settled :: "(instant \<times> string set) list \<Rightarrow> instant \<Rightarrow> PendingTrigger \<Rightarrow> bool" where
  "settled hist tf t \<longleftrightarrow>
     (\<exists>t' \<le> tf. changed_at hist (pt_program t) t') \<and>
     (\<forall>t' < tf. changed_at hist (pt_program t) t' \<longrightarrow> t' + pt_debounce t \<le> tf)"

definition watch_inv ::
  "(instant \<times> string set) list \<Rightarrow> (instant \<times> PendingTrigger) list \<Rightarrow> instant \<Rightarrow> PendingTrigger hmap \<Rightarrow> bool" where
  "watch_inv hist fired now p \<longleftrightarrow> named_triggers p \<and>
     (\<forall>k t'. changed_at hist k t' \<longrightarrow> t' \<le> now) \<and>
     (\<forall>k t. hm_get p k = Some t \<longrightarrow>
        (\<exists>t'. changed_at hist k t') \<and> (\<forall>t'. changed_at hist k t' \<longrightarrow> t' + pt_debounce t \<le> pt_deadline t)) \<and>
     (\<forall>(tf, t) \<in> set fired. tf \<le> now \<and> settled hist tf t) \<and>
     (\<forall>k t'. changed_at hist k t' \<longrightarrow>
        hm_get p k \<noteq> None \<or> (\<exists>(tf, t) \<in> set fired. pt_program t = k \<and> t' \<le> tf))"

lemma watch_invI:
  assumes "named_triggers p"
    and "\<And>k t'. changed_at hist k t' \<Longrightarrow> t' \<le> now"
    and "\<And>k t. hm_get p k = Some t \<Longrightarrow>
      (\<exists>t'. changed_at hist k t') \<and> (\<forall>t'. changed_at hist k t' \<longrightarrow> t' + pt_debounce t \<le> pt_deadline t)"
    and "\<forall>(tf, t) \<in> set fired. tf \<le> now \<and> settled hist tf t"
    and "\<And>k t'. changed_at hist k t' \<Longrightarrow>
      hm_get p k \<noteq> None \<or> (\<exists>(tf, t) \<in> set fired. pt_program t = k \<and> t' \<le> tf)"
  shows "watch_inv hist fired now p"
  unfolding watch_inv_def
  by (intro conjI) (rule assms(1), use assms(2) in blast, use assms(3) in blast, rule assms(4), use assms(5) in blast)

lemma settled_later: "settled hist tf t \<Longrightarrow> tf \<le> now \<Longrightarrow> settled (hist @ [(now, N)]) tf t"
  by (auto simp: settled_def)

lemma inv_change:
  assumes "watch_inv hist fired now p" and "now \<le> now'" and "updated now' N p p'"
  shows "watch_inv (hist @ [(now', N)]) fired now' p'"
proof -
  have u: "\<And>k. k \<in> N \<Longrightarrow> \<exists>t. hm_get p' k = Some t \<and> pt_deadline t = now' + pt_debounce t"
      "\<And>k. k \<notin> N \<Longrightarrow> hm_get p' k = hm_get p k" "named_triggers p'"
    using assms(3) by (auto simp: updated_def)
  have old: "\<And>k t'. changed_at hist k t' \<Longrightarrow> t' \<le> now'"
    using assms(1,2) unfolding watch_inv_def by (meson order_trans)
  have pend: "(\<exists>t'. changed_at (hist @ [(now', N)]) k t') \<and>
      (\<forall>t'. changed_at (hist @ [(now', N)]) k t' \<longrightarrow> t' + pt_debounce t \<le> pt_deadline t)"
    if "hm_get p' k = Some t" for k t
  proof (cases "k \<in> N")
    case True
    then have "pt_deadline t = now' + pt_debounce t" using u(1) that by fastforce
    then show ?thesis using True old by auto
  next
    case False
    then show ?thesis using that u(2) assms(1) by (auto simp: watch_inv_def)
  qed
  have past: "\<forall>(tf, t) \<in> set fired. tf \<le> now' \<and> settled (hist @ [(now', N)]) tf t"
    using assms(1,2) settled_later unfolding watch_inv_def by fastforce
  have kept: "hm_get p' k \<noteq> None \<or> (\<exists>(tf, t) \<in> set fired. pt_program t = k \<and> t' \<le> tf)"
    if "changed_at (hist @ [(now', N)]) k t'" for k t'
  proof (cases "k \<in> N")
    case True
    then show ?thesis using u(1) by auto
  next
    case False
    then show ?thesis using that u(2) assms(1) by (auto simp: watch_inv_def)
  qed
  have all: "t' \<le> now'" if "changed_at (hist @ [(now', N)]) k t'" for k t'
    using that old by auto
  show ?thesis by (rule watch_invI [OF u(3) all pend past kept])
qed

lemma inv_deadline:
  assumes "watch_inv hist fired now p" and "now \<le> now'" and "on_deadline now' probe p = (p', ts)"
  shows "watch_inv (hist @ [(now', {})]) (fired @ map (Pair now') ts) now' p'"
proof -
  have nt: "named_triggers p" using assms(1) by (simp add: watch_inv_def)
  note e = deadline_turn [OF nt assms(3)]
  have pend: "\<exists>t'. changed_at hist k t'" "\<And>t'. changed_at hist k t' \<Longrightarrow> t' + pt_debounce t \<le> pt_deadline t"
    if "hm_get p k = Some t" for k t
    using that assms(1) unfolding watch_inv_def by blast+
  have old: "\<And>k t'. changed_at hist k t' \<Longrightarrow> t' \<le> now'"
    using assms(1,2) unfolding watch_inv_def by (meson order_trans)
  have pend': "(\<exists>t'. changed_at hist k t') \<and> (\<forall>t'. changed_at hist k t' \<longrightarrow> t' + pt_debounce t \<le> pt_deadline t)"
    if "hm_get p' k = Some t" for k t
    using e(3) [OF that] pend by fastforce
  have "settled hist now' t" if "t \<in> set ts" for t
    using that e(2) pend old unfolding settled_def by (meson order_trans)
  then have past: "\<forall>(tf, t) \<in> set (fired @ map (Pair now') ts). tf \<le> now' \<and> settled hist tf t"
    using assms(1,2) unfolding watch_inv_def by fastforce
  have kept: "hm_get p' k \<noteq> None \<or> (\<exists>(tf, t) \<in> set (fired @ map (Pair now') ts). pt_program t = k \<and> t' \<le> tf)"
    if c: "changed_at hist k t'" for k t'
  proof (cases "hm_get p k")
    case None
    then show ?thesis using c assms(1) by (fastforce simp: watch_inv_def)
  next
    case (Some t)
    have "pt_program t = k" using nt Some by (simp add: named_triggers_def)
    then show ?thesis using e(4) [OF Some] old [OF c] by auto
  qed
  have "watch_inv hist (fired @ map (Pair now') ts) now' p'"
    by (rule watch_invI [OF e(1) old pend' past kept])
  moreover have "changed_at (hist @ [(now', {})]) = changed_at hist"
    by (intro ext) simp
  ultimately show ?thesis by (simp add: watch_inv_def settled_def)
qed

lemma watch_run_inv: "watch_run E configs hist fired now w \<Longrightarrow> watch_inv hist fired now (ws_pending w)"
proof (induction rule: watch_run.induct)
  case (watch_start now)
  then show ?case by (simp add: watch_new_def Let_def watch_inv_def named_triggers_def hm_wf_def)
next
  case (watch_turn hist fired now w now' input w' ts)
  note inv = watch_turn.IH
  have nt: "named_triggers (ws_pending w)" using inv by (simp add: watch_inv_def)
  show ?case
  proof (cases input)
    case (DeadlineExpired probe)
    then obtain p' where p': "on_deadline now' probe (ws_pending w) = (p', ts)" "ws_pending w' = p'"
      using watch_turn.hyps(3)
      by (auto simp: watch_step_def Let_def split: if_splits prod.splits option.splits)
    then show ?thesis using inv_deadline [OF inv watch_turn.hyps(2) p'(1)] DeadlineExpired
      by (simp add: touched_def)
  next
    case (Changed kind paths)
    then have "ws_pending w' = on_change now' (ws_rules w) kind paths (ws_pending w)" "ts = []"
      using watch_turn.hyps(3) by (auto simp: watch_step_def Let_def split: if_splits)
    then show ?thesis using inv_change [OF inv watch_turn.hyps(2) on_change_updated [OF nt]] Changed by simp
  qed (use watch_turn.hyps(3) inv_change [OF inv watch_turn.hyps(2) updated_refl [OF nt]] in
      \<open>auto simp: watch_step_def Let_def touched_def split: if_splits\<close>)
qed

section \<open>A run\<close>

definition web_config_watched :: "duration \<Rightarrow> ProgramConfig" where
  "web_config_watched d = (new_config Term ''web'' ''/srv/web'')
     \<lparr>c_restart_when_binary_changed := True, c_restart_cmd_when_binary_changed := Some ''deploy'',
      c_restart_directory_monitor := Some ''/srv'', c_restart_file_pattern := Some ''*.jar'',
      c_restart_signal_when_file_changed := Some Hup, c_restart_debounce_secs := d\<rparr>"

definition demo_host :: WatchHost where
  "demo_host = \<lparr>wh_fs = \<lparr>fv_read = Inl, fv_exists = (\<lambda>_. True), fv_dir = (\<lambda>_. None), fv_cwd = ''/''\<rparr>,
     wh_is_file = (\<lambda>p. p = ''/srv/web''), wh_is_dir = (\<lambda>p. p = ''/srv''), wh_search_path = None\<rparr>"

definition demo_env :: WatchEnv where
  "demo_env = \<lparr>we_host = demo_host, we_iter = id, we_can_watch = (\<lambda>_. True)\<rparr>"

lemma demo_paths:
  "resolve_executable demo_host ''/srv/web'' None = Some ''/srv/web''"
  "path_parent ''/srv/web'' = Some ''/srv''"
  "is_absolute ''/srv''"
  "abs_path (wh_fs demo_host) ''/srv'' = ''/srv''"
  by code_simp+

lemma demo_rules:
  "build_rules demo_host [(''web'', web_config_watched d)] =
     [BinaryRule ''web'' ''/srv/web'' ''/srv'' None d None (Some ''deploy''),
      DirectoryRule ''web'' ''/srv'' (Some ''*.jar'') None d (Some Hup) None]"
  using demo_paths
  by (simp add: build_rules_def binary_rules_def directory_rules_def web_config_watched_def new_config_def)

lemma demo_change:
  "on_change now [BinaryRule ''web'' ''/srv/web'' ''/srv'' None d None (Some ''deploy''),
      DirectoryRule ''web'' ''/srv'' (Some ''*.jar'') None d (Some Hup) None]
      Modify [''/srv/a.jar''] [] =
   [(''web'', new_trigger now
      (DirectoryRule ''web'' ''/srv'' (Some ''*.jar'') None d (Some Hup) None) ''/srv/a.jar'')]"
proof -
  have "\<not> matches_rule (BinaryRule ''web'' ''/srv/web'' ''/srv'' None d None (Some ''deploy'')) ''/srv/a.jar''"
    "matches_rule (DirectoryRule ''web'' ''/srv'' (Some ''*.jar'') None d (Some Hup) None) ''/srv/a.jar''"
    by code_simp+
  then show ?thesis
    by (simp add: on_change_def is_relevant_event_def note_change_def hm_get_def new_trigger_def)
qed

lemma demo_run:
  "\<exists>hist t. watch_run demo_env [(''web'', web_config_watched d)] hist [(d + 1, t)] (d + 1)
     (watch_new demo_env [(''web'', web_config_watched d)]) \<and> changed_at hist ''web'' 0 \<and> pt_program t = ''web''"
proof -
  let ?w = "watch_new demo_env [(''web'', web_config_watched d)]"
  let ?rule = "DirectoryRule ''web'' ''/srv'' (Some ''*.jar'') None d (Some Hup) None"
  let ?t = "new_trigger 0 ?rule ''/srv/a.jar''"
  have w: "ws_pending ?w = []" "\<not> ws_ended ?w" "ws_rules ?w = build_rules demo_host [(''web'', web_config_watched d)]"
    by (simp_all add: watch_new_def Let_def demo_env_def)
  have m: "matches_rule ?rule ''/srv/a.jar''" by code_simp
  have change: "on_change 0 (ws_rules ?w) Modify [''/srv/a.jar''] (ws_pending ?w) = [(''web'', ?t)]"
    unfolding w(1,3) demo_rules by (rule demo_change)
  have "watch_step demo_env 0 (Changed Modify [''/srv/a.jar'']) ?w = Some (?w\<lparr>ws_pending := [(''web'', ?t)]\<rparr>, [])"
    using change w(2) by (simp add: watch_step_def Let_def earliest_def w(1))
  from watch_turn [OF watch_start _ this]
  have first: "watch_run demo_env [(''web'', web_config_watched d)]
      [(0, touched (ws_rules ?w) (Changed Modify [''/srv/a.jar'']))] [] 0 (?w\<lparr>ws_pending := [(''web'', ?t)]\<rparr>)"
    by simp
  have "watch_step demo_env (d + 1) (DeadlineExpired (\<lambda>_. (True, True))) (?w\<lparr>ws_pending := [(''web'', ?t)]\<rparr>) =
      Some (?w, [?t])"
    using w(1,2) by (simp add: watch_step_def Let_def earliest_def vals_def new_trigger_def on_deadline_def
        fire_one_def retry_def hm_get_def hm_remove_def duration_defs)
  from watch_turn [OF first _ this]
  have run: "watch_run demo_env [(''web'', web_config_watched d)]
      [(0, touched (ws_rules ?w) (Changed Modify [''/srv/a.jar''])),
       (d + 1, touched (ws_rules (?w\<lparr>ws_pending := [(''web'', ?t)]\<rparr>)) (DeadlineExpired (\<lambda>_. (True, True))))]
      [(d + 1, ?t)] (d + 1) ?w"
    by simp
  have "''web'' \<in> touched (ws_rules ?w) (Changed Modify [''/srv/a.jar''])"
    using m unfolding touched_def w(3) demo_rules
    by (simp add: is_relevant_event_def del: matches_rule.simps) (intro exI [of _ ?rule], simp del: matches_rule.simps)
  then show ?thesis using run by (intro exI conjI) (assumption, auto simp: changed_at_def new_trigger_def)
qed

section \<open>Deviations\<close>

text \<open>
  The rule of an executable matches by the name of the file alone, so a file of this name in any other
  watched directory restarts the program.
\<close>

lemma binary_rule_matches_elsewhere:
  "matches_rule (BinaryRule ''api'' ''/opt/app'' ''/opt'' None d None None) ''/srv/build/app''"
  by code_simp

text \<open>
  A program has one pending trigger: the rule that was hit first decides its action, while a later
  change only replaces the file, so that the check of the executable is made on another file and the
  signal of the other rule is never sent.
\<close>

lemma later_rule_is_ignored:
  assumes "hm_get pending (wr_program rule) = Some t" and "matches_rule rule path"
  shows "\<exists>t'. hm_get (note_change now path rule pending) (wr_program rule) = Some t' \<and>
     pt_is_binary t' = pt_is_binary t \<and> pt_cmd t' = pt_cmd t \<and> pt_signal t' = pt_signal t \<and>
     pt_debounce t' = pt_debounce t \<and> pt_checks t' = pt_checks t \<and> pt_target t' = path"
  using assms by (simp add: note_change_def)

text \<open>A reload keeps the pending triggers, also those of programs that no longer exist.\<close>

lemma reload_keeps_triggers:
  assumes "watch_step E now (Reloaded configs) w = Some (w', ts)"
  shows "ws_pending w' = ws_pending w \<and> ts = [] \<and> ws_rules w' = build_rules (we_host E) configs"
  using assms by (auto simp: watch_step_def Let_def split: if_splits)

text \<open>
  A directory that is already watched keeps its mode: one watched for an executable, without its
  subdirectories, stays so when a reload asks for the monitoring of the whole directory.
\<close>

lemma add_watch_keeps: "hm_get cur d = Some m \<Longrightarrow> hm_get (fold (add_watch cw) ds cur) d = Some m"
proof (induction ds arbitrary: cur)
  case (Cons x ds)
  have "hm_get (add_watch cw x cur) d = Some m"
    using Cons.prems by (cases x) (auto simp: add_watch_def contains_key_def hm_get_None_iff dest: hm_get_Some_key)
  then show ?case using Cons.IH by simp
qed simp

lemma map_of_filter_key: "d \<in> S \<Longrightarrow> map_of (filter (\<lambda>(d, _). d \<in> S) cur) d = map_of cur d"
  by (induction cur) auto

lemma sync_keeps_mode:
  assumes "hm_get cur d = Some m" and "(d, m') \<in> set (concat (map (rule_dirs H) rules))"
  shows "hm_get (sync_watcher iter cw H rules cur) d = Some m"
proof -
  let ?S = "fst ` set (remdups (concat (map (rule_dirs H) rules)))"
  have "d \<in> ?S" using assms(2) unfolding set_remdups by (rule rev_image_eqI) simp
  then have "map_of (filter (\<lambda>(d, _). d \<in> ?S) cur) d = map_of cur d"
    by (rule map_of_filter_key)
  then have "hm_get (filter (\<lambda>(d, _). d \<in> ?S) cur) d = Some m"
    using assms(1) unfolding hm_get_def by (rule trans)
  then show ?thesis unfolding sync_watcher_def Let_def by (rule add_watch_keeps)
qed

text \<open>After a cancellation the service takes no more turns; otherwise some turn is always possible.\<close>

lemma watch_step_total:
  "watch_step E now input w = None \<longleftrightarrow> ws_ended w \<or>
     (case input of
        Cancelled \<Rightarrow> False
      | DeadlineExpired _ \<Rightarrow> \<not> (\<exists>d. earliest (ws_pending w) = Some d \<and> d \<le> now)
      | _ \<Rightarrow> (\<exists>d. earliest (ws_pending w) = Some d \<and> d \<le> now))"
  by (auto simp: watch_step_def Let_def split: WatchInput.splits option.splits prod.splits)




end
