(* ===== verification/Spec2Isabelle.thy ===== *)
theory Spec2Isabelle
  imports Supervisor_World Manager_Logs Background_Tasks Server_Auth Rpc_World Log_Reader Log_Rotator Listener_Program Config_Resolve Ini_Adapter Config_Transform Log_Pump Env_File Watch_Service
begin

text \<open>
  A verification development for rsupervisord, a process supervisor written in Rust. All paths
  below are under \<open>src/src/\<close>.

  \<^bold>\<open>The program and how its parts interact.\<close> The daemon loads a configuration (YAML, or the legacy
  INI format through \<open>compat/ini\<close>), validates and resolves it into one \<open>ProgramConfig\<close> per process
  instance (\<open>config/\<close>), and hands the result to the manager actor (\<open>manager/supervisor.rs\<close>). The
  manager owns a registry of programs behind the trait \<open>Program\<close>; a program is a handle to an actor
  that owns one operating system process (\<open>program/process.rs\<close>) or a pool of event listener
  processes (\<open>eventlistener/program.rs\<close>). It starts and stops them in the layers of the dependency
  graph (\<open>manager/dag.rs\<close>), by cron jobs (\<open>manager/cron.rs\<close>) and by commands, and applies a changed
  configuration by the difference of the two (\<open>config/diff.rs\<close>). State changes are published on the
  event hub (\<open>manager/event.rs\<close>), from which the event pools (\<open>eventlistener/pool.rs\<close>) feed their
  listeners. The output of the processes goes to log destinations (\<open>logging/\<close>): rotating files and
  memory rings, which the readers serve to clients; a pump per stream (\<open>logging/pump.rs\<close>) carries it
  there. Clients reach the manager through a handle with its own time limits: the web server behind
  its authentication (\<open>server/auth.rs\<close>), the legacy XML-RPC interface (\<open>compat/xmlrpc\<close>), and the watch
  service that restarts programs when files change (\<open>manager/watch.rs\<close>).

  \<^bold>\<open>Conventions.\<close> A fallible function returns \<open>ProgramError + 'a\<close> or an error of its own module on
  the left. Strings are lists of characters that stand for the bytes of the UTF-8 text; where code
  points matter (\<open>Rust_Text\<close>) they are lists of natural numbers. A \<open>HashMap\<close> is an association list
  with distinct keys (\<open>hmap\<close> in \<open>Sup_Prelude\<close>), whose order stands for the unspecified iteration
  order: what is proved holds for every order. A \<open>Duration\<close> is a number of nanoseconds, with its
  saturating and checked operations; integers whose wrap-around matters are words. An asynchronous
  task is a function or an inductive step relation between its suspension points; a channel is the
  list of values sent. A property that depends on an interleaving quantifies over the steps.
\<close>

text \<open>
  \<^bold>\<open>Theories.\<close>
  \<^item> \<open>Sup_Prelude\<close>: maps, durations, string functions of the standard library and their lemmas.
    \<open>Rust_Text\<close>: UTF-8, lossy conversion, lines. \<open>Rust_Path\<close>: components and joins of Unix paths.
  \<^item> \<open>Program_Model\<close>: errors, life cycle states, configuration records, constants
    (\<open>error.rs\<close>, \<open>program/state.rs\<close>, \<open>program/config.rs\<close>, \<open>consts.rs\<close>). \<open>Event_Hub\<close>: \<open>manager/event.rs\<close>.
  \<^item> \<open>Program_Actor\<close>: the actor of one process, \<open>ProgramActor\<close> in \<open>program/process.rs\<close>, every handler
    and every branch of its event loop (\<open>actor_step\<close>), with the operating system's answers as
    arguments of each step. \<open>Actor_Safety\<close> and \<open>Actor_Props\<close>: its invariant, process accounting,
    stop, crash loop, exit policy, published history, waiting times and shutdown.
  \<^item> \<open>Dependency_Dag\<close>: \<open>manager/dag.rs\<close> with the layering loop; correct layers, orders and errors,
    independent of any iteration order.
  \<^item> \<open>Cron_Table\<close>: \<open>manager/cron.rs\<close>. \<open>Config_Diff\<close>: \<open>config/diff.rs\<close>.
  \<^item> \<open>Manager\<close>: \<open>manager/supervisor.rs\<close>, the actor of the manager over a record \<open>World\<close> of the
    operations of a program. \<open>Manager_Props\<close>: the locale of the contract of the trait \<open>Program\<close> and
    the properties of the manager over every such program. \<open>Manager_Run\<close>: the states a manager can
    reach. \<open>Process_World\<close>, \<open>Listener_Actor\<close>: the two providers of the contract.
    \<open>Supervisor_World\<close>: the interpretation on both together, and the properties of the supervisor.
  \<^item> \<open>Manager_Handle\<close>: \<open>ManagerHandle\<close>, how it waits for replies and for how long; \<open>Manager_Logs\<close>: the
    requests on logs and standard input, on both sides. \<open>Background_Tasks\<close>: activity, the ticker and
    the health probes. \<open>Watch_Service\<close>: \<open>manager/watch.rs\<close> as a timed run, with its debouncing.
    \<open>Env_File\<close>: \<open>program/envfile.rs\<close> and the precedence among environments.
  \<^item> \<open>Server_Auth\<close>: sessions and the middleware of \<open>server/auth.rs\<close>. \<open>Rpc_Wire\<close>: faults, values, the
    reading of calls and the printing of responses; \<open>Rpc_Methods\<close>: the methods over the locale
    \<open>legacy_manager\<close> of what they ask of a manager, multicall and the handler; \<open>Rpc_World\<close>: the
    interpretation on the manager of this development.
  \<^item> \<open>Listener_Pool\<close>: events, envelopes and the buffer of a pool (\<open>eventlistener/\<close>). \<open>Listener_Program\<close>:
    the READY and RESULT tasks of any number of listeners with their pool as a step relation.
  \<^item> \<open>Continuous_Ring\<close>, \<open>Memory_Logs\<close>, \<open>Log_Reader\<close>, \<open>Log_Rotator\<close>, \<open>Log_Destination\<close>: the memory ring,
    the rotators on it, reading and following logs, rotating files and the grammar of destinations
    (\<open>logging/\<close>). \<open>Log_Pump\<close>: from the stream of a process to the backends, the fan-out and syslog.
  \<^item> \<open>Expression\<close>, \<open>Config_Schema\<close>, \<open>Config_Resolve\<close>: templates, the raw configuration with its
    validation, and the resolution (\<open>config/expand.rs\<close>, \<open>config/schema.rs\<close>).
  \<^item> \<open>Value_Text\<close>, \<open>Json_Values\<close>: the conversions of \<open>serde_util.rs\<close> and the intermediate tree of
    settings. \<open>Config_Transform\<close>: the translation of paths (\<open>config/transform.rs\<close>).
  \<^item> \<open>Ini_Values\<close>, \<open>Ini_Parser\<close>, \<open>Ini_Adapter\<close>: the legacy configuration (\<open>compat/ini\<close>).
\<close>

text \<open>
  \<^bold>\<open>Termination and bounds.\<close> Loops over data are structural recursion or have a termination proof.
  The layering loop of the graph is \<open>partial_function (option)\<close>, and it is proved that it returns.
  The event loop of the program actor is a step function over events; what happens after a
  cancellation is proved to be the last step. Reading a configuration walks an intermediate tree
  by structural recursion. The reading of an XML call carries fuel, one more than the number of its
  events, which \<open>reading_enough_fuel\<close> shows to suffice for every document; the dispatch of calls has
  depth two, since a multicall does not nest, and a multicall is proved to answer. Time
  limits are durations with the caps of the code.

  \<^bold>\<open>Findings.\<close> Lemmas outside the main line state behaviour that the code or its comments do not
  intend: for example \<open>start_failure_leaves_stale_status\<close>, \<open>lost_wakeup\<close>, \<open>stale_graph_misses_added_group\<close>,
  \<open>environment_blanks\<close>, \<open>shell_quotes_lost\<close>, \<open>memory_default_lost\<close>, \<open>tagged_text_not_unescaped\<close>,
  \<open>full_buffer_adds_blank_line\<close> and \<open>reload_keeps_triggers\<close>.

  \<^bold>\<open>Not modelled.\<close> System calls and their wrappers (\<open>platform/\<close>, \<open>service/\<close>, \<open>daemon.rs\<close>): their
  answers are arguments of the steps. The routes of the web server, the command line client and the
  dashboard. Third-party code is a parameter: the cron library, the graph library's cycle test, the
  deserialisers, the XML reader, Base64 and SHA-1, the notification library, the splitting of shell
  command lines. Locks, and the scheduling of tasks other
  than as an order of steps.
\<close>

end
